(* ===== verification/Prelude.thy ===== *)
theory Prelude
  imports Complex_Main "HOL-Library.Word"
begin

text \<open>
  Shared vocabulary of the development: the status codes every module of the engine returns
  (\<^verbatim>\<open>VG_Status\<close> of \<^verbatim>\<open>include/vg/gguf.h\<close>), the machine integer types, C strings as byte lists,
  little-endian decoding of the integers a GGUF file holds, the collections of facts the
  components' proofs use, and a few generic facts on lists and words.
\<close>

unbundle bit_operations_syntax

section \<open>Fact collections\<close>

named_theorems byte_simps \<open>evaluation of byte strings and C string literals\<close>
named_theorems flt_simps \<open>evaluation of the soft-float operations\<close>
named_theorems guard_simps \<open>guards and early returns of the operations\<close>

section \<open>Status codes and machine integers\<close>

datatype vg_status =
    VG_OK
  | VG_E_INVALID
  | VG_E_IO
  | VG_E_FORMAT
  | VG_E_RANGE
  | VG_E_NOMEM
  | VG_E_UNSUPPORTED
  | VG_E_BUSY

text \<open>The memory tiers of \<^verbatim>\<open>include/vg/tensor_source.h\<close>, shared by the key/value store and the tensor source.\<close>

datatype vg_tier = VG_TIER_STORAGE | VG_TIER_HOST | VG_TIER_PINNED | VG_TIER_DEVICE

type_synonym u8 = "8 word"
type_synonym u16 = "16 word"
type_synonym u32 = "32 word"
type_synonym u64 = "64 word"

text \<open>The platform is LP64: \<^verbatim>\<open>size_t\<close> and \<^verbatim>\<open>uint64_t\<close> have the same width.\<close>

abbreviation UINT64_MAX :: u64 where
  "UINT64_MAX \<equiv> - 1"

section \<open>Bytes and C strings\<close>

type_synonym bytes = "u8 list"

text \<open>The bytes of a C string literal, without its terminating NUL.\<close>

definition cstr :: "string \<Rightarrow> bytes" where
  "cstr s = map of_char s"

text \<open>What a C string function sees of a buffer: everything before the first NUL.\<close>

definition c_string :: "bytes \<Rightarrow> bytes" where
  "c_string bs = takeWhile (\<lambda>b. b \<noteq> 0) bs"

lemma c_string_nonzero: "0 \<notin> set (c_string bs)"
  unfolding c_string_def by (auto dest: set_takeWhileD)

lemma c_string_id [simp]: "0 \<notin> set bs \<Longrightarrow> c_string bs = bs"
  unfolding c_string_def by (induction bs) auto

lemma c_string_idem [simp]: "c_string (c_string bs) = c_string bs"
  by (simp add: c_string_nonzero)

lemma cstr_Nil [byte_simps]: "cstr [] = []"
  by (simp add: cstr_def)

lemma cstr_Cons [byte_simps]: "cstr (c # cs) = of_char c # cstr cs"
  by (simp add: cstr_def)

lemma length_cstr [simp]: "length (cstr s) = length s"
  by (simp add: cstr_def)

section \<open>Little-endian integers\<close>

fun le_nat :: "bytes \<Rightarrow> nat" where
  "le_nat [] = 0"
| "le_nat (b # bs) = unat b + 256 * le_nat bs"

lemma le_nat_bound: "le_nat bs < 256 ^ length bs"
proof (induction bs)
  case (Cons b bs)
  have "unat b < 256" using unsigned_less [of b] by simp
  with Cons.IH show ?case by simp
qed simp

lemma le_nat_append: "le_nat (xs @ ys) = le_nat xs + 256 ^ length xs * le_nat ys"
  by (induction xs) (auto simp: algebra_simps)

definition le_u16 :: "bytes \<Rightarrow> u16" where
  "le_u16 bs = of_nat (le_nat bs)"

definition le_u32 :: "bytes \<Rightarrow> u32" where
  "le_u32 bs = of_nat (le_nat bs)"

definition le_u64 :: "bytes \<Rightarrow> u64" where
  "le_u64 bs = of_nat (le_nat bs)"

section \<open>Generic facts\<close>

lemma unat_u64_mult:
  fixes a b :: u64
  assumes "unat a * unat b < 2 ^ 64"
  shows "unat (a * b) = unat a * unat b"
  using assms by (simp add: unat_word_ariths)

lemma unat_u64_add:
  fixes a b :: u64
  assumes "unat a + unat b < 2 ^ 64"
  shows "unat (a + b) = unat a + unat b"
  using assms by (simp add: unat_word_ariths)

lemma less_pred_iff: "0 < k \<Longrightarrow> k - 1 < (p :: nat) \<longleftrightarrow> k \<le> p"
  by linarith

lemma unat_u64_less: "unat (a :: u64) < 2 ^ 64"
  using unsigned_less [of a] by simp

lemma unat_u32_less: "unat (a :: u32) < 2 ^ 32"
  using unsigned_less [of a] by simp

lemma unat_u32_mult:
  fixes a b :: u32
  assumes "unat a * unat b < 2 ^ 32"
  shows "unat (a * b) = unat a * unat b"
  using assms by (simp add: unat_word_ariths)

lemma unat_u32_add:
  fixes a b :: u32
  assumes "unat a + unat b < 2 ^ 32"
  shows "unat (a + b) = unat a + unat b"
  using assms by (simp add: unat_word_ariths)

lemma unat_u32_next:
  fixes c k :: u32
  assumes "c < k"
  shows "unat (c + 1) = unat c + 1"
proof -
  have "unat c + unat (1 :: u32) < 2 ^ 32" using assms unat_u32_less [of k] by (simp add: word_less_nat_alt)
  from unat_u32_add [OF this] show ?thesis by simp
qed

text \<open>The overflow test \<^verbatim>\<open>a > UINT64_MAX / b\<close> of the C code, read on natural numbers.\<close>

lemma u64_mul_check:
  fixes a b :: u64
  assumes "b \<noteq> 0"
  shows "(a > UINT64_MAX div b) \<longleftrightarrow> 2 ^ 64 \<le> unat a * unat b"
proof -
  have b: "0 < unat b" using assms by (simp add: unat_gt_0)
  have "(a > UINT64_MAX div b) \<longleftrightarrow> unat (UINT64_MAX :: u64) div unat b < unat a"
    by (simp add: word_less_nat_alt unat_div)
  also have "\<dots> \<longleftrightarrow> unat (UINT64_MAX :: u64) < unat a * unat b"
    using b by (simp add: div_less_iff_less_mult)
  also have "unat (UINT64_MAX :: u64) = 2 ^ 64 - 1"
    by (simp add: unsigned_minus_1_eq_mask mask_eq_exp_minus_1)
  also have "(2 ^ 64 - 1 < unat a * unat b) \<longleftrightarrow> 2 ^ 64 \<le> unat a * unat b"
    by (rule less_pred_iff) simp
  finally show ?thesis .
qed

lemma concat_map_length_const:
  "(\<And>x. x \<in> set xs \<Longrightarrow> length (f x) = n) \<Longrightarrow> length (concat (map f xs)) = n * length xs"
  by (induction xs) auto

lemma nth_concat_const:
  assumes "\<And>x. x \<in> set xs \<Longrightarrow> length (f x) = n" and "i < length xs" and "j < n"
  shows "concat (map f xs) ! (n * i + j) = f (xs ! i) ! j"
  using assms
proof (induction xs arbitrary: i)
  case (Cons x xs)
  show ?case
  proof (cases i)
    case 0
    with Cons.prems show ?thesis by (simp add: nth_append)
  next
    case (Suc k)
    have len: "length (f x) = n" using Cons.prems(1) by simp
    have "concat (map f xs) ! (n * k + j) = f (xs ! k) ! j"
      using Cons.IH [of k] Cons.prems Suc by simp
    with len Suc show ?thesis by (simp add: nth_append add.assoc)
  qed
qed simp

section \<open>Folds that may fail\<close>

fun ofold :: "('a \<Rightarrow> 's \<Rightarrow> 's option) \<Rightarrow> 'a list \<Rightarrow> 's \<Rightarrow> 's option" where
  "ofold f [] s = Some s"
| "ofold f (x # xs) s = (case f x s of None \<Rightarrow> None | Some s' \<Rightarrow> ofold f xs s')"

lemma ofold_inv:
  assumes "\<And>x s. x \<in> set xs \<Longrightarrow> I s \<Longrightarrow> \<exists>s'. f x s = Some s' \<and> I s'" and "I s"
  shows "\<exists>s'. ofold f xs s = Some s' \<and> I s'"
  using assms
proof (induction xs arbitrary: s)
  case (Cons x xs)
  then obtain s' where "f x s = Some s'" "I s'" by (metis list.set_intros(1))
  with Cons.IH [of s'] Cons.prems show ?case by simp
qed simp

lemma unat_ucast_u32: "unat (ucast (x :: u32) :: u64) = unat x"
  using unsigned_less [of x, where 'a = nat] by (simp add: unsigned_ucast_eq take_bit_nat_eq_self)

end
