(* ===== verification/SoftFloat.thy ===== *)
theory SoftFloat
  imports Prelude
begin

text \<open>
  The C code computes in \<^verbatim>\<open>float\<close> and \<^verbatim>\<open>double\<close>, which are IEEE 754 binary32 and binary64.
  Nothing of the engine depends on NaN payloads, so one type of values serves both formats:
  an operation takes the format it rounds to. All definitions compute on natural numbers
  and integers; rounding is to nearest, ties to even. The main fact is \<open>round_exact\<close>: a
  result that the format can represent is returned unchanged.
\<close>

section \<open>Values and formats\<close>

text \<open>\<open>FFin s m e\<close> is the number \<open>(-1)^s * m * 2^e\<close>; zero keeps its sign.\<close>

datatype flt = FNan | FInf bool | FFin bool nat int

record fformat =
  f_prec :: nat
  f_emin :: int
  f_emax :: int

definition binary32 :: fformat where
  "binary32 = \<lparr>f_prec = 24, f_emin = -149, f_emax = 127\<rparr>"

definition binary64 :: fformat where
  "binary64 = \<lparr>f_prec = 53, f_emin = -1074, f_emax = 1023\<rparr>"

definition flt_val :: "flt \<Rightarrow> real" where
  "flt_val x = (case x of FFin s m e \<Rightarrow> (if s then -1 else 1) * real m * 2 powi e | _ \<Rightarrow> 0)"

fun is_fin :: "flt \<Rightarrow> bool" where
  "is_fin (FFin s m e) = True"
| "is_fin x = False"

section \<open>Canonical form and rounding\<close>

fun bitlen :: "nat \<Rightarrow> nat" where
  "bitlen n = (if n = 0 then 0 else Suc (bitlen (n div 2)))"

declare bitlen.simps [simp del]

text \<open>Odd mantissa, or mantissa and exponent zero.\<close>

function canon :: "nat \<Rightarrow> int \<Rightarrow> nat \<times> int" where
  "canon m e = (if m = 0 then (0, 0) else if even m then canon (m div 2) (e + 1) else (m, e))"
  by pat_completeness auto
termination
  by (relation "measure (\<lambda>(m, e). m)") auto

declare canon.simps [simp del]

definition mk_fin :: "bool \<Rightarrow> nat \<Rightarrow> int \<Rightarrow> flt" where
  "mk_fin s m e = (case canon m e of (m', e') \<Rightarrow> FFin s m' e')"

definition round_flt :: "fformat \<Rightarrow> bool \<Rightarrow> nat \<Rightarrow> int \<Rightarrow> flt" where
  "round_flt F s m e =
     (let sh = max (int (bitlen m) - int (f_prec F)) (f_emin F - e);
          (m', e') = (if sh \<le> 0 then (m, e)
            else (let k = nat sh; q = m div 2 ^ k; r = m mod 2 ^ k;
                      up = (2 ^ (k - 1) < r \<or> (r = 2 ^ (k - 1) \<and> odd q))
                  in (if up then q + 1 else q, e + sh)))
      in if m' \<noteq> 0 \<and> f_emax F + 1 < int (bitlen m') + e' then FInf s else mk_fin s m' e')"

section \<open>Operations\<close>

fun f_neg :: "flt \<Rightarrow> flt" where
  "f_neg FNan = FNan"
| "f_neg (FInf s) = FInf (\<not> s)"
| "f_neg (FFin s m e) = FFin (\<not> s) m e"

definition f_of_int :: "fformat \<Rightarrow> int \<Rightarrow> flt" where
  "f_of_int F i = round_flt F (i < 0) (nat \<bar>i\<bar>) 0"

fun f_convert :: "fformat \<Rightarrow> flt \<Rightarrow> flt" where
  "f_convert F (FFin s m e) = round_flt F s m e"
| "f_convert F x = x"

fun f_mul :: "fformat \<Rightarrow> flt \<Rightarrow> flt \<Rightarrow> flt" where
  "f_mul F FNan y = FNan"
| "f_mul F x FNan = FNan"
| "f_mul F (FInf s) (FInf t) = FInf (s \<noteq> t)"
| "f_mul F (FInf s) (FFin t m e) = (if m = 0 then FNan else FInf (s \<noteq> t))"
| "f_mul F (FFin s m e) (FInf t) = (if m = 0 then FNan else FInf (s \<noteq> t))"
| "f_mul F (FFin s m e) (FFin t n g) = round_flt F (s \<noteq> t) (m * n) (e + g)"

definition signed_mant :: "bool \<Rightarrow> nat \<Rightarrow> int" where
  "signed_mant s m = (if s then - int m else int m)"

fun f_add :: "fformat \<Rightarrow> flt \<Rightarrow> flt \<Rightarrow> flt" where
  "f_add F FNan y = FNan"
| "f_add F x FNan = FNan"
| "f_add F (FInf s) (FInf t) = (if s = t then FInf s else FNan)"
| "f_add F (FInf s) (FFin t m e) = FInf s"
| "f_add F (FFin s m e) (FInf t) = FInf t"
| "f_add F (FFin s m e) (FFin t n g) =
     (let b = min e g;
          v = signed_mant s m * 2 ^ nat (e - b) + signed_mant t n * 2 ^ nat (g - b)
      in if v = 0 then FFin (s \<and> t) 0 0 else round_flt F (v < 0) (nat \<bar>v\<bar>) b)"

definition f_sub :: "fformat \<Rightarrow> flt \<Rightarrow> flt \<Rightarrow> flt" where
  "f_sub F x y = f_add F x (f_neg y)"

text \<open>The quotient is computed with two guard bits and a sticky bit before it is rounded.\<close>

fun f_div :: "fformat \<Rightarrow> flt \<Rightarrow> flt \<Rightarrow> flt" where
  "f_div F FNan y = FNan"
| "f_div F x FNan = FNan"
| "f_div F (FInf s) (FInf t) = FNan"
| "f_div F (FInf s) (FFin t m e) = FInf (s \<noteq> t)"
| "f_div F (FFin s m e) (FInf t) = FFin (s \<noteq> t) 0 0"
| "f_div F (FFin s m e) (FFin t n g) =
     (if n = 0 then (if m = 0 then FNan else FInf (s \<noteq> t))
      else (let k = f_prec F + 2 + bitlen n; q = m * 2 ^ k div n; r = m * 2 ^ k mod n
            in round_flt F (s \<noteq> t) (2 * q + (if r = 0 then 0 else 1)) (e - g - int k - 1)))"

fun f_less :: "flt \<Rightarrow> flt \<Rightarrow> bool" where
  "f_less FNan y = False"
| "f_less x FNan = False"
| "f_less (FInf s) (FInf t) = (s \<and> \<not> t)"
| "f_less (FInf s) (FFin t m e) = s"
| "f_less (FFin s m e) (FInf t) = (\<not> t)"
| "f_less (FFin s m e) (FFin t n g) =
     (let b = min e g in signed_mant s m * 2 ^ nat (e - b) < signed_mant t n * 2 ^ nat (g - b))"

fun f_isfinite :: "flt \<Rightarrow> bool" where
  "f_isfinite (FFin s m e) = True"
| "f_isfinite x = False"

abbreviation f_zero :: flt where
  "f_zero \<equiv> FFin False 0 0"

abbreviation f_one :: flt where
  "f_one \<equiv> FFin False 1 0"

section \<open>Bit patterns\<close>

text \<open>Decoding of an IEEE interchange format with \<open>eb\<close> exponent bits and \<open>mb\<close> fraction bits.\<close>

definition ieee_decode :: "nat \<Rightarrow> nat \<Rightarrow> bool \<Rightarrow> nat \<Rightarrow> nat \<Rightarrow> flt" where
  "ieee_decode eb mb s ex fr =
     (if ex = 2 ^ eb - 1 then (if fr = 0 then FInf s else FNan)
      else if ex = 0 then mk_fin s fr (2 - 2 ^ (eb - 1) - int mb)
      else mk_fin s (2 ^ mb + fr) (int ex - (2 ^ (eb - 1) - 1) - int mb))"

definition f32_of_bits :: "u32 \<Rightarrow> flt" where
  "f32_of_bits w = ieee_decode 8 23 (bit w 31) (unat (drop_bit 23 w AND 0xFF)) (unat (w AND 0x7FFFFF))"

definition f64_of_bits :: "u64 \<Rightarrow> flt" where
  "f64_of_bits w = ieee_decode 11 52 (bit w 63) (unat (drop_bit 52 w AND 0x7FF)) (unat (w AND 0xFFFFFFFFFFFFF))"

text \<open>The binary16 decoding, used to state what \<^verbatim>\<open>vg_half_to_float\<close> must compute.\<close>

definition f16_of_bits :: "u16 \<Rightarrow> flt" where
  "f16_of_bits h = ieee_decode 5 10 (bit h 15) (unat (drop_bit 10 h AND 0x1F)) (unat (h AND 0x3FF))"

section \<open>Facts\<close>

lemma bitlen_le_iff: "bitlen m \<le> k \<longleftrightarrow> m < 2 ^ k"
proof (induction k arbitrary: m)
  case 0
  show ?case by (simp add: bitlen.simps [of m])
next
  case (Suc k)
  show ?case
    using Suc.IH [of "m div 2"] by (auto simp: bitlen.simps [of m])
qed

lemma canon_zero [simp]: "canon 0 e = (0, 0)"
  by (simp add: canon.simps)

lemma canon_double: "m \<noteq> 0 \<Longrightarrow> canon (2 * m) e = canon m (e + 1)"
  by (subst canon.simps) simp

lemma canon_shift: "m \<noteq> 0 \<Longrightarrow> canon (m * 2 ^ k) e = canon m (e + int k)"
proof (induction k arbitrary: e)
  case (Suc k)
  have "canon (m * 2 ^ Suc k) e = canon (2 * (m * 2 ^ k)) e" by (simp add: ac_simps)
  also have "\<dots> = canon (m * 2 ^ k) (e + 1)" using Suc.prems by (intro canon_double) simp
  also have "\<dots> = canon m (e + 1 + int k)" using Suc by blast
  finally show ?case by (simp add: ac_simps)
qed simp

lemma mk_fin_shift: "mk_fin s (m * 2 ^ k) e = mk_fin s m (e + int k)"
  by (cases "m = 0") (simp_all add: mk_fin_def canon_shift)

lemma canon_val: "canon m e = (m', e') \<Longrightarrow> real m' * 2 powi e' = real m * 2 powi e"
proof (induction m e arbitrary: m' e' rule: canon.induct)
  case (1 m e)
  show ?case
  proof (cases "m \<noteq> 0 \<and> even m")
    case True
    then obtain n where n: "m = 2 * n" "n \<noteq> 0" by auto
    with 1(2) have "canon n (e + 1) = (m', e')"
      by (simp add: canon_double)
    with 1(1) True n have "real m' * 2 powi e' = real n * 2 powi (e + 1)"
      by simp
    with n show ?thesis by (simp add: power_int_add)
  next
    case False
    with 1 show ?thesis by (auto simp: canon.simps [of m e] split: if_splits)
  qed
qed

lemma mk_fin_val: "flt_val (mk_fin s m e) = (if s then -1 else 1) * real m * 2 powi e"
  by (auto simp: mk_fin_def flt_val_def canon_val mult.assoc split: prod.splits)

lemma is_fin_mk_fin [simp]: "is_fin (mk_fin s m e)"
  by (simp add: mk_fin_def split: prod.splits)

lemma mk_fin_not_special [simp]: "mk_fin s m e \<noteq> FNan" "mk_fin s m e \<noteq> FInf t"
  by (simp_all add: mk_fin_def split: prod.splits)

text \<open>A number the format can represent is rounded to itself.\<close>

lemma round_exact:
  assumes "m < 2 ^ f_prec F" and "f_emin F \<le> e" and "int (bitlen m) + e \<le> f_emax F + 1"
  shows "round_flt F s m e = mk_fin s m e"
proof -
  have "int (bitlen m) \<le> int (f_prec F)"
    using assms(1) by (simp add: bitlen_le_iff)
  with assms show ?thesis by (simp add: round_flt_def Let_def)
qed

section \<open>Exact products\<close>

text \<open>
  A product is exact when the mantissas and the exponent ranges of its operands leave room
  for it: \<open>sized b lo hi x\<close> bounds the mantissa of \<open>x\<close> by \<open>b\<close> bits and its exponent range.
\<close>

definition sized :: "nat \<Rightarrow> int \<Rightarrow> int \<Rightarrow> flt \<Rightarrow> bool" where
  "sized b lo hi x = (case x of FFin s m e \<Rightarrow> m < 2 ^ b \<and> lo \<le> e \<and> int (bitlen m) + e \<le> hi | _ \<Rightarrow> False)"

lemma bitlen_half: "m \<noteq> 0 \<Longrightarrow> bitlen m = Suc (bitlen (m div 2))"
  by (simp add: bitlen.simps [of m])

lemma bitlen_0 [simp]: "bitlen 0 = 0"
  by (simp add: bitlen.simps)

lemma canon_bounds:
  assumes "canon m e = (m', e')" and "m < 2 ^ b" and "lo \<le> e" and "lo \<le> 0" and "int (bitlen m) + e \<le> hi" and "0 \<le> hi"
  shows "m' < 2 ^ b \<and> lo \<le> e' \<and> int (bitlen m') + e' \<le> hi"
  using assms
proof (induction m e arbitrary: m' e' rule: canon.induct)
  case (1 m e)
  show ?case
  proof (cases "m \<noteq> 0 \<and> even m")
    case True
    have "canon (m div 2) (e + 1) = (m', e')"
      using 1(2) True by (simp add: canon.simps [of m e])
    moreover have "m div 2 < 2 ^ b" using 1(3) by linarith
    moreover have "int (bitlen (m div 2)) + (e + 1) \<le> hi"
      using 1(6) True by (simp add: bitlen_half)
    ultimately show ?thesis using 1(1) [of m' e'] True 1(4,5,7) by simp
  next
    case False
    with 1 show ?thesis by (auto simp: canon.simps [of m e] split: if_splits)
  qed
qed

lemma sized_mk_fin:
  "m < 2 ^ b \<Longrightarrow> lo \<le> e \<Longrightarrow> lo \<le> 0 \<Longrightarrow> int (bitlen m) + e \<le> hi \<Longrightarrow> 0 \<le> hi \<Longrightarrow> sized b lo hi (mk_fin s m e)"
  unfolding sized_def mk_fin_def using canon_bounds [of m e] by (auto split: prod.splits)

lemma bitlen_mult: "bitlen (m * n) \<le> bitlen m + bitlen n"
proof -
  have "m < 2 ^ bitlen m" "n < 2 ^ bitlen n" by (simp_all flip: bitlen_le_iff)
  then have "m * n < 2 ^ bitlen m * 2 ^ bitlen n" by (intro mult_strict_mono) auto
  then show ?thesis by (simp add: bitlen_le_iff power_add)
qed

lemma f_mul_exact:
  assumes x: "sized b lo hi x" and y: "sized c lo' hi' y"
    and fit: "b + c \<le> 24" "-149 \<le> lo + lo'" "hi + hi' \<le> 128"
    and z: "lo \<le> 0" "lo' \<le> 0" "0 \<le> hi" "0 \<le> hi'"
  shows "flt_val (f_mul binary32 x y) = flt_val x * flt_val y \<and> sized (b + c) (lo + lo') (hi + hi') (f_mul binary32 x y)"
proof -
  obtain s m e where X: "x = FFin s m e" "m < 2 ^ b" "lo \<le> e" "int (bitlen m) + e \<le> hi"
    using x by (auto simp: sized_def split: flt.splits)
  obtain t n g where Y: "y = FFin t n g" "n < 2 ^ c" "lo' \<le> g" "int (bitlen n) + g \<le> hi'"
    using y by (auto simp: sized_def split: flt.splits)
  have mn: "m * n < 2 ^ (b + c)"
    unfolding power_add using X(2) Y(2) by (intro mult_strict_mono) auto
  also have "(2::nat) ^ (b + c) \<le> 2 ^ 24" using fit(1) by (intro power_increasing) auto
  finally have "m * n < 2 ^ 24" .
  moreover have bl: "int (bitlen (m * n)) + (e + g) \<le> hi + hi'"
    using X(4) Y(4) bitlen_mult [of m n] by linarith
  ultimately have r: "f_mul binary32 x y = mk_fin (s \<noteq> t) (m * n) (e + g)"
    using fit X Y by (auto simp: binary32_def intro!: round_exact)
  have "flt_val (f_mul binary32 x y) = flt_val x * flt_val y"
    unfolding r mk_fin_val by (auto simp: X Y flt_val_def power_int_add)
  with r mn bl X(3) Y(3) z show ?thesis by (auto intro!: sized_mk_fin)
qed

lemma bitlen_pow: "bitlen (2 ^ k) = Suc k"
  by (induction k) (simp_all add: bitlen_half)

lemma f_of_int_exact:
  assumes "\<bar>i\<bar> \<le> 2 ^ k" and "0 < k" and "k < 24"
  shows "flt_val (f_of_int binary32 i) = of_int i \<and> sized k 0 (int k + 1) (f_of_int binary32 i)"
proof -
  define n where "n = nat \<bar>i\<bar>"
  have n: "n \<le> 2 ^ k" using assms(1) by (simp add: n_def nat_le_iff)
  have "(0::nat) < 2 ^ k" by simp
  with n have lt: "n < 2 ^ Suc k" unfolding power_Suc by linarith
  then have bl: "bitlen n \<le> Suc k" by (simp only: bitlen_le_iff)
  have "(2::nat) ^ Suc k \<le> 2 ^ 24" using assms(3) by (intro power_increasing) auto
  with lt have "n < 2 ^ 24" by linarith
  then have r: "f_of_int binary32 i = mk_fin (i < 0) n 0"
    using bl assms(3) by (simp add: f_of_int_def n_def [symmetric] round_exact binary32_def)
  have v: "flt_val (f_of_int binary32 i) = of_int i"
    unfolding r mk_fin_val n_def by simp
  show ?thesis
  proof (cases "n = 2 ^ k")
    case True
    have "f_of_int binary32 i = mk_fin (i < 0) 1 (int k)"
      using mk_fin_shift [of "i < 0" 1 k 0] by (simp add: r True)
    moreover have "(1::nat) < 2 ^ k" using assms(2) by (intro one_less_power) auto
    ultimately show ?thesis using v by (auto intro!: sized_mk_fin simp: bitlen_half)
  next
    case False
    with n have "n < 2 ^ k" by simp
    with v bl show ?thesis by (auto intro!: sized_mk_fin simp: r)
  qed
qed

end
