(* ===== verification/Quant.thy ===== *)
theory Quant
  imports SoftFloat "HOL-Library.While_Combinator"
begin

text \<open>
  The quantized tensor formats (\<^verbatim>\<open>include/vg/quant.h\<close>, \<^verbatim>\<open>src/quant.c\<close>): the table of the types, the
  size check, the binary16 to binary32 conversion and the dequantizers of every supported
  type. A block is the list of its bytes; a field of the packed C struct is read at its
  byte offset. The output buffer of a dequantizer is the list of the floats it writes, in
  index order.
\<close>

section \<open>The type table\<close>

datatype vg_quant_kind =
    QK_F32 | QK_F16 | QK_Q4_0 | QK_Q4_1 | QK_F64 | QK_Q5_0 | QK_Q5_1 | QK_Q8_0 | QK_Q8_1
  | QK_Q2_K | QK_Q3_K | QK_Q4_K | QK_Q5_K | QK_Q6_K | QK_Q8_K
  | QK_IQ2_XXS | QK_IQ2_XS | QK_IQ3_XXS | QK_IQ1_S | QK_IQ4_NL | QK_IQ3_S | QK_IQ2_S | QK_IQ4_XS
  | QK_I8 | QK_I16 | QK_I32 | QK_I64 | QK_IQ1_M | QK_BF16 | QK_TQ1_0 | QK_TQ2_0
  | QK_MXFP4 | QK_NVFP4 | QK_Q1_0 | QK_Q2_0

fun kind_code :: "vg_quant_kind \<Rightarrow> u32" where
  "kind_code QK_F32 = 0"
| "kind_code QK_F16 = 1"
| "kind_code QK_Q4_0 = 2"
| "kind_code QK_Q4_1 = 3"
| "kind_code QK_F64 = 4"
| "kind_code QK_Q5_0 = 6"
| "kind_code QK_Q5_1 = 7"
| "kind_code QK_Q8_0 = 8"
| "kind_code QK_Q8_1 = 9"
| "kind_code QK_Q2_K = 10"
| "kind_code QK_Q3_K = 11"
| "kind_code QK_Q4_K = 12"
| "kind_code QK_Q5_K = 13"
| "kind_code QK_Q6_K = 14"
| "kind_code QK_Q8_K = 15"
| "kind_code QK_IQ2_XXS = 16"
| "kind_code QK_IQ2_XS = 17"
| "kind_code QK_IQ3_XXS = 18"
| "kind_code QK_IQ1_S = 19"
| "kind_code QK_IQ4_NL = 20"
| "kind_code QK_IQ3_S = 21"
| "kind_code QK_IQ2_S = 22"
| "kind_code QK_IQ4_XS = 23"
| "kind_code QK_I8 = 24"
| "kind_code QK_I16 = 25"
| "kind_code QK_I32 = 26"
| "kind_code QK_I64 = 27"
| "kind_code QK_IQ1_M = 29"
| "kind_code QK_BF16 = 30"
| "kind_code QK_TQ1_0 = 34"
| "kind_code QK_TQ2_0 = 35"
| "kind_code QK_MXFP4 = 39"
| "kind_code QK_NVFP4 = 40"
| "kind_code QK_Q1_0 = 41"
| "kind_code QK_Q2_0 = 42"

record vg_quantinfo =
  qi_kind :: vg_quant_kind
  qi_name :: string
  qi_block_size :: u32
  qi_bytes_per_block :: u32
  qi_alignment :: u32
  qi_scalar :: bool
  qi_vulkan :: bool

definition mk_info ::
  "vg_quant_kind \<Rightarrow> string \<Rightarrow> u32 \<Rightarrow> u32 \<Rightarrow> u32 \<Rightarrow> bool \<Rightarrow> bool \<Rightarrow> vg_quantinfo" where
  "mk_info k n b t a s v = \<lparr>qi_kind = k, qi_name = n, qi_block_size = b, qi_bytes_per_block = t,
     qi_alignment = a, qi_scalar = s, qi_vulkan = v\<rparr>"

definition g_info :: "vg_quantinfo list" where
  "g_info =
    [mk_info QK_F32 ''F32'' 1 4 1 True True,
     mk_info QK_F16 ''F16'' 1 2 1 True True,
     mk_info QK_BF16 ''BF16'' 1 2 1 True False,
     mk_info QK_F64 ''F64'' 1 8 1 True False,
     mk_info QK_Q4_0 ''Q4_0'' 32 18 32 True True,
     mk_info QK_Q4_1 ''Q4_1'' 32 20 32 True False,
     mk_info QK_Q5_0 ''Q5_0'' 32 22 32 True False,
     mk_info QK_Q5_1 ''Q5_1'' 32 24 32 True False,
     mk_info QK_Q8_0 ''Q8_0'' 32 34 32 True True,
     mk_info QK_IQ4_NL ''IQ4_NL'' 32 18 32 True False,
     mk_info QK_Q2_K ''Q2_K'' 256 84 256 True False,
     mk_info QK_Q3_K ''Q3_K'' 256 110 256 True False,
     mk_info QK_Q4_K ''Q4_K'' 256 144 256 True False,
     mk_info QK_Q5_K ''Q5_K'' 256 176 256 True False,
     mk_info QK_Q6_K ''Q6_K'' 256 210 256 True False,
     mk_info QK_Q8_K ''Q8_K'' 256 292 256 True False,
     mk_info QK_I8 ''I8'' 1 1 1 True False,
     mk_info QK_I16 ''I16'' 1 2 1 True False,
     mk_info QK_I32 ''I32'' 1 4 1 True False,
     mk_info QK_I64 ''I64'' 1 8 1 True False,
     mk_info QK_Q8_1 ''Q8_1'' 32 36 32 False False,
     mk_info QK_IQ2_XXS ''IQ2_XXS'' 256 66 256 False False,
     mk_info QK_IQ2_XS ''IQ2_XS'' 256 74 256 False False,
     mk_info QK_IQ3_XXS ''IQ3_XXS'' 256 98 256 False False,
     mk_info QK_IQ1_S ''IQ1_S'' 256 50 256 False False,
     mk_info QK_IQ3_S ''IQ3_S'' 256 110 256 False False,
     mk_info QK_IQ2_S ''IQ2_S'' 256 82 256 False False,
     mk_info QK_IQ4_XS ''IQ4_XS'' 256 136 256 False False,
     mk_info QK_IQ1_M ''IQ1_M'' 256 56 256 False False,
     mk_info QK_MXFP4 ''MXFP4'' 32 17 32 False False,
     mk_info QK_NVFP4 ''NVFP4'' 64 36 64 False False,
     mk_info QK_TQ1_0 ''TQ1_0'' 256 54 256 True False,
     mk_info QK_TQ2_0 ''TQ2_0'' 256 66 256 True False,
     mk_info QK_Q1_0 ''Q1_0'' 128 18 128 True False,
     mk_info QK_Q2_0 ''Q2_0'' 64 18 64 True False]"

text \<open>The table is scanned from the front; \<open>List.find\<close> returns the first entry that matches.\<close>

definition vg_quant_info :: "u32 \<Rightarrow> vg_quantinfo option" where
  "vg_quant_info type = List.find (\<lambda>q. kind_code (qi_kind q) = type) g_info"

definition vg_quant_validate :: "u32 \<Rightarrow> u64 \<Rightarrow> u64 \<Rightarrow> vg_status" where
  "vg_quant_validate type elements nbytes =
     (case vg_quant_info type of
        None \<Rightarrow> VG_E_FORMAT
      | Some q \<Rightarrow>
          (let bs = ucast (qi_block_size q) :: u64; bpb = ucast (qi_bytes_per_block q) :: u64
           in if elements = 0 \<or> elements mod bs \<noteq> 0 then VG_E_FORMAT
              else if elements div bs > UINT64_MAX div bpb then VG_E_FORMAT
              else if elements div bs * bpb = nbytes then VG_OK else VG_E_FORMAT))"

section \<open>Half precision and bfloat16\<close>

text \<open>The normalising loop of a subnormal half: the pair is \<^verbatim>\<open>(mant, e)\<close>.\<close>

definition half_normalize :: "u32 \<Rightarrow> u32 \<Rightarrow> u32 \<times> u32" where
  "half_normalize mant e =
     while (\<lambda>(mant, e). mant AND 0x400 = 0) (\<lambda>(mant, e). (push_bit 1 mant, e - 1)) (mant, e)"

definition vg_half_bits :: "u16 \<Rightarrow> u32" where
  "vg_half_bits h =
     (let sgn = push_bit 16 (ucast (h AND 0x8000) :: u32);
          ex = ucast (drop_bit 10 h AND 0x1F) :: u32;
          mant = ucast (h AND 0x3FF) :: u32
      in if ex = 0 then
           (if mant = 0 then sgn
            else (case half_normalize mant (127 - 15 + 1) of
                    (mant', e) \<Rightarrow> sgn OR push_bit 23 e OR push_bit 13 (mant' AND 0x3FF)))
         else if ex = 31 then sgn OR 0x7F800000 OR push_bit 13 mant
         else sgn OR push_bit 23 (ex + 112) OR push_bit 13 mant)"

definition vg_half_to_float :: "u16 \<Rightarrow> flt" where
  "vg_half_to_float h = f32_of_bits (vg_half_bits h)"

definition bf16_to_float :: "u16 \<Rightarrow> flt" where
  "bf16_to_float h = f32_of_bits (push_bit 16 (ucast h))"

section \<open>Reading blocks\<close>

definition slice :: "bytes \<Rightarrow> nat \<Rightarrow> nat \<Rightarrow> bytes" where
  "slice bs off len = take len (drop off bs)"

definition u16_at :: "bytes \<Rightarrow> nat \<Rightarrow> u16" where
  "u16_at bs off = le_u16 (slice bs off 2)"

definition u32_at :: "bytes \<Rightarrow> nat \<Rightarrow> u32" where
  "u32_at bs off = le_u32 (slice bs off 4)"

definition u64_at :: "bytes \<Rightarrow> nat \<Rightarrow> u64" where
  "u64_at bs off = le_u64 (slice bs off 8)"

definition half_at :: "bytes \<Rightarrow> nat \<Rightarrow> flt" where
  "half_at bs off = vg_half_to_float (u16_at bs off)"

text \<open>Arithmetic in \<^verbatim>\<open>float\<close>, and the conversion of an \<^verbatim>\<open>int\<close> operand.\<close>

abbreviation fmul :: "flt \<Rightarrow> flt \<Rightarrow> flt" where
  "fmul \<equiv> f_mul binary32"

abbreviation fadd :: "flt \<Rightarrow> flt \<Rightarrow> flt" where
  "fadd \<equiv> f_add binary32"

abbreviation fsub :: "flt \<Rightarrow> flt \<Rightarrow> flt" where
  "fsub \<equiv> f_sub binary32"

abbreviation fint :: "int \<Rightarrow> flt" where
  "fint \<equiv> f_of_int binary32"

definition lo_nib :: "u8 \<Rightarrow> int" where
  "lo_nib b = uint (b AND 0x0F)"

definition hi_nib :: "u8 \<Rightarrow> int" where
  "hi_nib b = uint (drop_bit 4 b)"

text \<open>The loop over the blocks of a row: block \<open>b\<close> starts at byte \<open>b * sz\<close>.\<close>

definition deq_blocks :: "nat \<Rightarrow> (bytes \<Rightarrow> flt list) \<Rightarrow> bytes \<Rightarrow> nat \<Rightarrow> flt list" where
  "deq_blocks sz f src nb = concat (map (\<lambda>b. f (slice src (b * sz) sz)) [0..<nb])"

section \<open>Legacy blocks\<close>

definition blk_q4_0 :: "bytes \<Rightarrow> flt list" where
  "blk_q4_0 q =
     (let d = half_at q 0
      in map (\<lambda>j. fmul (fint (lo_nib (q ! (2 + j)) - 8)) d) [0..<16]
       @ map (\<lambda>j. fmul (fint (hi_nib (q ! (2 + j)) - 8)) d) [0..<16])"

definition blk_q4_1 :: "bytes \<Rightarrow> flt list" where
  "blk_q4_1 q =
     (let d = half_at q 0; m = half_at q 2
      in map (\<lambda>j. fadd (fmul (fint (lo_nib (q ! (4 + j)))) d) m) [0..<16]
       @ map (\<lambda>j. fadd (fmul (fint (hi_nib (q ! (4 + j)))) d) m) [0..<16])"

text \<open>The fifth bits of a Q5 block: \<open>x0\<close> takes bit \<open>j\<close> of \<open>qh\<close>, \<open>x1\<close> takes bit \<open>j + 12\<close>.\<close>

definition q5_x0 :: "bytes \<Rightarrow> nat \<Rightarrow> u32 \<Rightarrow> nat \<Rightarrow> int" where
  "q5_x0 q base qh j =
     uint ((ucast (q ! (base + j) AND 0x0F) :: u32) OR push_bit 4 (drop_bit j qh AND 1))"

definition q5_x1 :: "bytes \<Rightarrow> nat \<Rightarrow> u32 \<Rightarrow> nat \<Rightarrow> int" where
  "q5_x1 q base qh j =
     uint ((ucast (drop_bit 4 (q ! (base + j))) :: u32) OR push_bit 4 (drop_bit (j + 12) qh AND 1))"

definition blk_q5_0 :: "bytes \<Rightarrow> flt list" where
  "blk_q5_0 q =
     (let qh = u32_at q 2; d = half_at q 0
      in map (\<lambda>j. fmul (fint (q5_x0 q 6 qh j - 16)) d) [0..<16]
       @ map (\<lambda>j. fmul (fint (q5_x1 q 6 qh j - 16)) d) [0..<16])"

definition blk_q5_1 :: "bytes \<Rightarrow> flt list" where
  "blk_q5_1 q =
     (let qh = u32_at q 4; d = half_at q 0; m = half_at q 2
      in map (\<lambda>j. fadd (fmul (fint (q5_x0 q 8 qh j)) d) m) [0..<16]
       @ map (\<lambda>j. fadd (fmul (fint (q5_x1 q 8 qh j)) d) m) [0..<16])"

definition blk_q8_0 :: "bytes \<Rightarrow> flt list" where
  "blk_q8_0 q = (let d = half_at q 0 in map (\<lambda>j. fmul (fint (sint (q ! (2 + j)))) d) [0..<32])"

definition kvalues_iq4nl :: "int list" where
  "kvalues_iq4nl = [-127, -104, -83, -65, -49, -35, -22, -10, 1, 13, 25, 38, 53, 69, 89, 113]"

definition blk_iq4_nl :: "bytes \<Rightarrow> flt list" where
  "blk_iq4_nl q =
     (let d = half_at q 0
      in map (\<lambda>j. fmul d (fint (kvalues_iq4nl ! nat (lo_nib (q ! (2 + j)))))) [0..<16]
       @ map (\<lambda>j. fmul d (fint (kvalues_iq4nl ! nat (hi_nib (q ! (2 + j)))))) [0..<16])"

section \<open>K-quant blocks\<close>

definition get_scale_min_k4 :: "nat \<Rightarrow> bytes \<Rightarrow> u8 \<times> u8" where
  "get_scale_min_k4 j q =
     (if j < 4 then (q ! j AND 63, q ! (j + 4) AND 63)
      else ((q ! (j + 4) AND 0x0F) OR push_bit 4 (drop_bit 6 (q ! (j - 4))),
            drop_bit 4 (q ! (j + 4)) OR push_bit 4 (drop_bit 6 (q ! j))))"

definition crumb :: "u8 \<Rightarrow> nat \<Rightarrow> int" where
  "crumb b sh = uint (drop_bit sh b AND 3)"

definition blk_q2_k :: "bytes \<Rightarrow> flt list" where
  "blk_q2_k q =
     (let d = half_at q 80; mn = half_at q 82;
          part = (\<lambda>n j h.
            let sc = q ! (8 * n + 2 * j + h);
                dl = fmul d (fint (lo_nib sc)); ml = fmul mn (fint (hi_nib sc))
            in map (\<lambda>l. fsub (fmul dl (fint (crumb (q ! (16 + 32 * n + 16 * h + l)) (2 * j)))) ml) [0..<16])
      in concat (map (\<lambda>n. concat (map (\<lambda>j. part n j 0 @ part n j 1) [0..<4])) [0..<2]))"

text \<open>The sixteen 6-bit scales of a Q3_K block, unpacked through four 32-bit words.\<close>

definition q3_k_scales :: "bytes \<Rightarrow> int list" where
  "q3_k_scales s =
     (let kmask1 = 0x03030303 :: u32; kmask2 = 0x0F0F0F0F;
          a0 = u32_at s 0; a1 = u32_at s 4; tmp = u32_at s 8;
          aux2 = (drop_bit 4 a0 AND kmask2) OR push_bit 4 (drop_bit 4 tmp AND kmask1);
          aux3 = (drop_bit 4 a1 AND kmask2) OR push_bit 4 (drop_bit 6 tmp AND kmask1);
          aux0 = (a0 AND kmask2) OR push_bit 4 (tmp AND kmask1);
          aux1 = (a1 AND kmask2) OR push_bit 4 (drop_bit 2 tmp AND kmask1)
      in concat (map (\<lambda>w. map (\<lambda>i. sint ((ucast (drop_bit (8 * i) w) :: u8) - 32)) [0..<4])
           [aux0, aux1, aux2, aux3]))"

definition blk_q3_k :: "bytes \<Rightarrow> flt list" where
  "blk_q3_k q =
     (let d_all = half_at q 108; scales = q3_k_scales (slice q 96 12);
          part = (\<lambda>n j h.
            let dl = fmul d_all (fint (scales ! (8 * n + 2 * j + h)))
            in map (\<lambda>l. fmul dl (fint (crumb (q ! (32 + 32 * n + 16 * h + l)) (2 * j)
                   - (if q ! (16 * h + l) AND push_bit (4 * n + j) 1 \<noteq> 0 then 0 else 4)))) [0..<16])
      in concat (map (\<lambda>n. concat (map (\<lambda>j. part n j 0 @ part n j 1) [0..<4])) [0..<2]))"

definition blk_q4_k :: "bytes \<Rightarrow> flt list" where
  "blk_q4_k q =
     (let d = half_at q 0; mn = half_at q 2; scales = slice q 4 12
      in concat (map (\<lambda>g.
           case get_scale_min_k4 (2 * g) scales of (sc1, mi1) \<Rightarrow>
           case get_scale_min_k4 (2 * g + 1) scales of (sc2, mi2) \<Rightarrow>
           (let d1 = fmul d (fint (uint sc1)); m1 = fmul mn (fint (uint mi1));
                d2 = fmul d (fint (uint sc2)); m2 = fmul mn (fint (uint mi2))
            in map (\<lambda>l. fsub (fmul d1 (fint (lo_nib (q ! (16 + 32 * g + l))))) m1) [0..<32]
             @ map (\<lambda>l. fsub (fmul d2 (fint (hi_nib (q ! (16 + 32 * g + l))))) m2) [0..<32])) [0..<4]))"

definition blk_q5_k :: "bytes \<Rightarrow> flt list" where
  "blk_q5_k q =
     (let d = half_at q 0; mn = half_at q 2; scales = slice q 4 12;
          fifth = (\<lambda>l mask. if q ! (16 + l) AND mask \<noteq> 0 then 16 else 0)
      in concat (map (\<lambda>g.
           case get_scale_min_k4 (2 * g) scales of (sc1, mi1) \<Rightarrow>
           case get_scale_min_k4 (2 * g + 1) scales of (sc2, mi2) \<Rightarrow>
           (let d1 = fmul d (fint (uint sc1)); m1 = fmul mn (fint (uint mi1));
                d2 = fmul d (fint (uint sc2)); m2 = fmul mn (fint (uint mi2));
                u1 = push_bit (2 * g) 1; u2 = push_bit (2 * g) 2
            in map (\<lambda>l. fsub (fmul d1 (fint (lo_nib (q ! (48 + 32 * g + l)) + fifth l u1))) m1) [0..<32]
             @ map (\<lambda>l. fsub (fmul d2 (fint (hi_nib (q ! (48 + 32 * g + l)) + fifth l u2))) m2) [0..<32]))
           [0..<4]))"

text \<open>The four 6-bit quants of byte \<open>l\<close> of half \<open>h\<close> of a Q6_K block.\<close>

definition q6_quant :: "bytes \<Rightarrow> nat \<Rightarrow> nat \<Rightarrow> nat \<Rightarrow> int" where
  "q6_quant q h k l =
     (let ql = q ! (64 * h + l + (if odd k then 32 else 0));
          nib = (if k < 2 then ql AND 0x0F else drop_bit 4 ql)
      in uint (nib OR push_bit 4 (drop_bit (2 * k) (q ! (128 + 32 * h + l)) AND 3)) - 32)"

definition blk_q6_k :: "bytes \<Rightarrow> flt list" where
  "blk_q6_k q =
     (let d = half_at q 208
      in concat (map (\<lambda>h. concat (map (\<lambda>k. map (\<lambda>l.
           fmul (fmul d (fint (sint (q ! (192 + 8 * h + l div 16 + 2 * k))))) (fint (q6_quant q h k l)))
           [0..<32]) [0..<4])) [0..<2]))"

definition blk_q8_k :: "bytes \<Rightarrow> flt list" where
  "blk_q8_k q =
     (let d = f32_of_bits (u32_at q 0) in map (\<lambda>j. fmul d (fint (sint (q ! (4 + j))))) [0..<256])"

section \<open>Ternary and one-bit blocks\<close>

definition k_pow3 :: "u8 list" where
  "k_pow3 = [1, 3, 9, 27, 81]"

text \<open>One radix-3 digit: the product wraps to 8 bits, its top two bits after \<open>* 3\<close> are the digit.\<close>

definition tq1_digit :: "u8 \<Rightarrow> nat \<Rightarrow> int" where
  "tq1_digit b n = (let packed = b * k_pow3 ! n in int (unat packed * 3 div 256))"

definition blk_tq1_0 :: "bytes \<Rightarrow> flt list" where
  "blk_tq1_0 q =
     (let d = half_at q 52
      in concat (map (\<lambda>n. map (\<lambda>m. fmul (fint (tq1_digit (q ! m) n - 1)) d) [0..<32]) [0..<5])
       @ concat (map (\<lambda>n. map (\<lambda>m. fmul (fint (tq1_digit (q ! (32 + m)) n - 1)) d) [0..<16]) [0..<5])
       @ concat (map (\<lambda>n. map (\<lambda>j. fmul (fint (tq1_digit (q ! (48 + j)) n - 1)) d) [0..<4]) [0..<4]))"

definition blk_tq2_0 :: "bytes \<Rightarrow> flt list" where
  "blk_tq2_0 q =
     (let d = half_at q 64
      in concat (map (\<lambda>g. concat (map (\<lambda>l. map (\<lambda>m.
           fmul (fint (crumb (q ! (32 * g + m)) (2 * l) - 1)) d) [0..<32]) [0..<4])) [0..<2]))"

definition blk_q1_0 :: "bytes \<Rightarrow> flt list" where
  "blk_q1_0 q =
     (let d = half_at q 0
      in map (\<lambda>j. if drop_bit (j mod 8) (q ! (2 + j div 8)) AND 1 \<noteq> 0 then d else f_neg d) [0..<128])"

definition blk_q2_0 :: "bytes \<Rightarrow> flt list" where
  "blk_q2_0 q =
     (let d = half_at q 0
      in map (\<lambda>j. fmul (fint (crumb (q ! (2 + j div 4)) (2 * (j mod 4)) - 1)) d) [0..<64])"

section \<open>Dispatch\<close>

text \<open>The block decoder of a type with the size of its blocks; \<open>None\<close> is the NULL of \<^verbatim>\<open>block_fn\<close>.\<close>

definition block_fn :: "u32 \<Rightarrow> (nat \<times> (bytes \<Rightarrow> flt list)) option" where
  "block_fn type =
     (if type = kind_code QK_Q4_0 then Some (18, blk_q4_0)
      else if type = kind_code QK_Q4_1 then Some (20, blk_q4_1)
      else if type = kind_code QK_Q5_0 then Some (22, blk_q5_0)
      else if type = kind_code QK_Q5_1 then Some (24, blk_q5_1)
      else if type = kind_code QK_Q8_0 then Some (34, blk_q8_0)
      else if type = kind_code QK_IQ4_NL then Some (18, blk_iq4_nl)
      else if type = kind_code QK_Q2_K then Some (84, blk_q2_k)
      else if type = kind_code QK_Q3_K then Some (110, blk_q3_k)
      else if type = kind_code QK_Q4_K then Some (144, blk_q4_k)
      else if type = kind_code QK_Q5_K then Some (176, blk_q5_k)
      else if type = kind_code QK_Q6_K then Some (210, blk_q6_k)
      else if type = kind_code QK_Q8_K then Some (292, blk_q8_k)
      else if type = kind_code QK_TQ1_0 then Some (54, blk_tq1_0)
      else if type = kind_code QK_TQ2_0 then Some (66, blk_tq2_0)
      else if type = kind_code QK_Q1_0 then Some (18, blk_q1_0)
      else if type = kind_code QK_Q2_0 then Some (18, blk_q2_0)
      else None)"

text \<open>The types whose blocks are single numbers: element size and conversion to \<^verbatim>\<open>float\<close>.\<close>

definition scalar_fn :: "u32 \<Rightarrow> (nat \<times> (bytes \<Rightarrow> flt)) option" where
  "scalar_fn type =
     (if type = kind_code QK_F32 then Some (4, \<lambda>p. f32_of_bits (u32_at p 0))
      else if type = kind_code QK_F16 then Some (2, \<lambda>p. vg_half_to_float (u16_at p 0))
      else if type = kind_code QK_BF16 then Some (2, \<lambda>p. bf16_to_float (u16_at p 0))
      else if type = kind_code QK_F64 then Some (8, \<lambda>p. f_convert binary32 (f64_of_bits (u64_at p 0)))
      else if type = kind_code QK_I8 then Some (1, \<lambda>p. fint (sint (p ! 0)))
      else if type = kind_code QK_I16 then Some (2, \<lambda>p. fint (sint (u16_at p 0)))
      else if type = kind_code QK_I32 then Some (4, \<lambda>p. fint (sint (u32_at p 0)))
      else if type = kind_code QK_I64 then Some (8, \<lambda>p. fint (sint (u64_at p 0)))
      else None)"

text \<open>
  A buffer argument is \<open>None\<close> when the pointer is NULL; \<open>has_out\<close> is false when the output
  pointer is. The result is the status of the failing branch or the floats written.
\<close>

definition vg_dequantize_block :: "u32 \<Rightarrow> bytes option \<Rightarrow> bool \<Rightarrow> vg_status + flt list" where
  "vg_dequantize_block type block has_out =
     (case (vg_quant_info type, block) of
        (Some qi, Some p) \<Rightarrow>
          (if \<not> has_out \<or> \<not> qi_scalar qi then Inl VG_E_UNSUPPORTED
           else (case scalar_fn type of
                   Some (sz, f) \<Rightarrow> Inr [f p]
                 | None \<Rightarrow> (case block_fn type of
                     None \<Rightarrow> Inl VG_E_UNSUPPORTED
                   | Some (sz, f) \<Rightarrow> Inr (deq_blocks sz f p 1))))
      | _ \<Rightarrow> Inl VG_E_UNSUPPORTED)"

definition vg_dequantize_row ::
  "u32 \<Rightarrow> bytes option \<Rightarrow> u64 \<Rightarrow> bool \<Rightarrow> u64 \<Rightarrow> vg_status + flt list" where
  "vg_dequantize_row type packed nbytes has_out elements =
     (case packed of
        None \<Rightarrow> Inl VG_E_INVALID
      | Some p \<Rightarrow>
          (if \<not> has_out \<or> elements = 0 then Inl VG_E_INVALID
           else if vg_quant_validate type elements nbytes \<noteq> VG_OK then Inl VG_E_FORMAT
           else (case vg_quant_info type of
                   None \<Rightarrow> Inl VG_E_UNSUPPORTED
                 | Some qi \<Rightarrow>
                     (if \<not> qi_scalar qi then Inl VG_E_UNSUPPORTED
                      else (case scalar_fn type of
                              Some (sz, f) \<Rightarrow> Inr (map (\<lambda>i. f (slice p (i * sz) sz)) [0..<unat elements])
                            | None \<Rightarrow> (case block_fn type of
                                None \<Rightarrow> Inl VG_E_UNSUPPORTED
                              | Some (sz, f) \<Rightarrow>
                                  Inr (deq_blocks sz f p (unat (elements div ucast (qi_block_size qi))))))))))"

text \<open>The reference dot product: dequantize, then one running sum in \<^verbatim>\<open>float\<close>.\<close>

definition dot_acc :: "flt \<Rightarrow> (flt \<times> flt) list \<Rightarrow> flt" where
  "dot_acc a ps = foldl (\<lambda>acc (w, x). fadd acc (fmul w x)) a ps"

definition vg_quantized_dot ::
  "u32 \<Rightarrow> bytes option \<Rightarrow> u64 \<Rightarrow> flt list option \<Rightarrow> u64 \<Rightarrow> bool \<Rightarrow> bool \<Rightarrow> vg_status + flt" where
  "vg_quantized_dot type packed nbytes x elements has_out alloc_ok =
     (case x of
        None \<Rightarrow> Inl VG_E_INVALID
      | Some xs \<Rightarrow>
          (if \<not> has_out then Inl VG_E_INVALID
           else if \<not> alloc_ok then Inl VG_E_NOMEM
           else (case vg_dequantize_row type packed nbytes True elements of
                   Inl st \<Rightarrow> Inl st
                 | Inr tmp \<Rightarrow> Inr (dot_acc f_zero (zip tmp xs)))))"

end
