(* ===== verification/ThreadPool.thy ===== *)
theory ThreadPool
  imports Prelude
begin

text \<open>
  The thread pool (\<^verbatim>\<open>src/threadpool.c\<close>, the POSIX branches). A critical section under the pool's mutex is one
  step; a worker is between two such steps in one of the states of \<open>wpc\<close>. Condition variables are explicit: a
  waiter is woken by a signal, by a broadcast or spuriously. The calling thread is one more process. Two ghost
  fields record the tasks submitted and the tasks whose function has run. Allocation succeeds.
\<close>

section \<open>The pool\<close>

text \<open>A worker: about to lock and look at the queue, in \<^verbatim>\<open>pthread_cond_wait\<close>, in the function of a task, past it, returned.\<close>

datatype 'a wpc = WTop | WWait | WRun 'a | WDone | WExit

text \<open>The caller: outside the pool, in \<^verbatim>\<open>vg_threadpool_wait\<close> (about to look at the counter, or blocked), the same inside
  \<^verbatim>\<open>vg_threadpool_destroy\<close>, about to set \<^verbatim>\<open>shutdown\<close>, joining the threads, done.\<close>

datatype mpc = MIdle | MWait | MBlock | MDestroy | MDBlock | MShut | MJoin | MFreed

record 'a vg_threadpool =
  tp_queue :: "'a list"
  tp_workers :: "'a wpc list"
  tp_n_pending :: u32
  tp_shutdown :: bool
  tp_main :: mpc
  tp_submitted :: "'a list"
  tp_ran :: "'a list"

definition vg_threadpool_create :: "nat \<Rightarrow> 'a vg_threadpool" where
  "vg_threadpool_create n_workers =
     \<lparr>tp_queue = [], tp_workers = replicate (if n_workers = 0 then 1 else n_workers) WTop, tp_n_pending = 0,
      tp_shutdown = False, tp_main = MIdle, tp_submitted = [], tp_ran = []\<rparr>"

definition vg_threadpool_workers :: "'a vg_threadpool option \<Rightarrow> nat" where
  "vg_threadpool_workers pool = (case pool of None \<Rightarrow> 0 | Some p \<Rightarrow> length (tp_workers p))"

section \<open>The worker thread\<close>

definition set_worker :: "nat \<Rightarrow> 'a wpc \<Rightarrow> 'a vg_threadpool \<Rightarrow> 'a vg_threadpool" where
  "set_worker i w s = s\<lparr>tp_workers := (tp_workers s)[i := w]\<rparr>"

text \<open>The first critical section: take a task, wait for one, or return on shutdown.\<close>

definition worker_take :: "nat \<Rightarrow> 'a vg_threadpool \<Rightarrow> 'a vg_threadpool" where
  "worker_take i s =
     (case tp_queue s of
        [] \<Rightarrow> set_worker i (if tp_shutdown s then WExit else WWait) s
      | t # q \<Rightarrow> set_worker i (WRun t) (s\<lparr>tp_queue := q\<rparr>))"

definition worker_run :: "nat \<Rightarrow> 'a \<Rightarrow> 'a vg_threadpool \<Rightarrow> 'a vg_threadpool" where
  "worker_run i t s = set_worker i WDone (s\<lparr>tp_ran := tp_ran s @ [t]\<rparr>)"

definition wake_main :: "mpc \<Rightarrow> mpc" where
  "wake_main m = (if m = MBlock then MWait else if m = MDBlock then MDestroy else m)"

text \<open>The second critical section: one task less is pending, and the last one wakes those who wait.\<close>

definition worker_finish :: "nat \<Rightarrow> 'a vg_threadpool \<Rightarrow> 'a vg_threadpool" where
  "worker_finish i s =
     (if tp_n_pending s \<noteq> 0 then
        (let p = tp_n_pending s - 1
         in set_worker i WTop (s\<lparr>tp_n_pending := p, tp_main := (if p = 0 then wake_main (tp_main s) else tp_main s)\<rparr>))
      else set_worker i WTop s)"

section \<open>The caller\<close>

text \<open>Submitting appends to the list and signals: \<open>j\<close> is the waiting worker the signal wakes, if one waits.\<close>

definition vg_threadpool_submit :: "'a \<Rightarrow> nat option \<Rightarrow> 'a vg_threadpool \<Rightarrow> 'a vg_threadpool" where
  "vg_threadpool_submit t j s =
     (let s' = s\<lparr>tp_queue := tp_queue s @ [t], tp_n_pending := tp_n_pending s + 1, tp_submitted := tp_submitted s @ [t]\<rparr>
      in case j of None \<Rightarrow> s' | Some i \<Rightarrow> set_worker i WTop s')"

definition signal_target :: "'a vg_threadpool \<Rightarrow> nat option \<Rightarrow> bool" where
  "signal_target s j =
     (case j of None \<Rightarrow> WWait \<notin> set (tp_workers s) | Some i \<Rightarrow> i < length (tp_workers s) \<and> tp_workers s ! i = WWait)"

text \<open>One turn of the loop of \<^verbatim>\<open>vg_threadpool_wait\<close>.\<close>

definition vg_threadpool_wait :: "'a vg_threadpool \<Rightarrow> 'a vg_threadpool" where
  "vg_threadpool_wait s =
     s\<lparr>tp_main := (case tp_main s of
         MWait \<Rightarrow> (if 0 < tp_n_pending s then MBlock else MIdle)
       | MDestroy \<Rightarrow> (if 0 < tp_n_pending s then MDBlock else MShut)
       | m \<Rightarrow> m)\<rparr>"

text \<open>The critical section of \<^verbatim>\<open>vg_threadpool_destroy\<close>: set the flag and wake every worker.\<close>

definition destroy_shutdown :: "'a vg_threadpool \<Rightarrow> 'a vg_threadpool" where
  "destroy_shutdown s =
     s\<lparr>tp_shutdown := True, tp_main := MJoin, tp_workers := map (\<lambda>w. if w = WWait then WTop else w) (tp_workers s)\<rparr>"

section \<open>Steps\<close>

text \<open>What the pool and a caller inside it do.\<close>

inductive tp_step :: "'a vg_threadpool \<Rightarrow> 'a vg_threadpool \<Rightarrow> bool" where
  take: "i < length (tp_workers s) \<Longrightarrow> tp_workers s ! i = WTop \<Longrightarrow> tp_step s (worker_take i s)"
| run: "i < length (tp_workers s) \<Longrightarrow> tp_workers s ! i = WRun t \<Longrightarrow> tp_step s (worker_run i t s)"
| finish: "i < length (tp_workers s) \<Longrightarrow> tp_workers s ! i = WDone \<Longrightarrow> tp_step s (worker_finish i s)"
| check: "tp_main s = MWait \<or> tp_main s = MDestroy \<Longrightarrow> tp_step s (vg_threadpool_wait s)"
| shut: "tp_main s = MShut \<Longrightarrow> tp_step s (destroy_shutdown s)"
| join: "tp_main s = MJoin \<Longrightarrow> set (tp_workers s) \<subseteq> {WExit} \<Longrightarrow> tp_step s (s\<lparr>tp_main := MFreed\<rparr>)"

text \<open>The calls into the pool.\<close>

inductive tp_call :: "'a vg_threadpool \<Rightarrow> 'a vg_threadpool \<Rightarrow> bool" where
  submit: "tp_main s = MIdle \<Longrightarrow> signal_target s j \<Longrightarrow> tp_call s (vg_threadpool_submit t j s)"
| call_wait: "tp_main s = MIdle \<Longrightarrow> tp_call s (s\<lparr>tp_main := MWait\<rparr>)"
| call_destroy: "tp_main s = MIdle \<Longrightarrow> tp_call s (s\<lparr>tp_main := MDestroy\<rparr>)"

text \<open>Spurious wakeups.\<close>

inductive tp_spurious :: "'a vg_threadpool \<Rightarrow> 'a vg_threadpool \<Rightarrow> bool" where
  wake_worker: "i < length (tp_workers s) \<Longrightarrow> tp_workers s ! i = WWait \<Longrightarrow> tp_spurious s (set_worker i WTop s)"
| wake_caller: "tp_spurious s (s\<lparr>tp_main := wake_main (tp_main s)\<rparr>)"

inductive tp_reach :: "nat \<Rightarrow> 'a vg_threadpool \<Rightarrow> bool" for n where
  create: "tp_reach n (vg_threadpool_create n)"
| step: "tp_reach n s \<Longrightarrow> tp_step s s' \<Longrightarrow> tp_reach n s'"
| call: "tp_reach n s \<Longrightarrow> tp_call s s' \<Longrightarrow> tp_reach n s'"
| spurious: "tp_reach n s \<Longrightarrow> tp_spurious s s' \<Longrightarrow> tp_reach n s'"

section \<open>Parallel loops\<close>

text \<open>The jobs a parallel loop submits, in order, and the range the caller runs itself.\<close>

definition pf_per :: "u32 \<Rightarrow> u32 \<Rightarrow> u32" where
  "pf_per n_items chunks = (n_items + chunks - 1) div chunks"

function pf_jobs :: "u32 \<Rightarrow> u32 \<Rightarrow> u32 \<Rightarrow> u32 \<Rightarrow> (u32 \<times> u32) list" where
  "pf_jobs n_items chunks per c =
     (if c < chunks then
        (let begin = c * per
         in if n_items \<le> begin then []
            else (begin, if n_items < begin + per then n_items else begin + per) # pf_jobs n_items chunks per (c + 1))
      else [])"
  by pat_completeness auto
termination
proof (relation "measure (\<lambda>(n, chunks, per, c). unat chunks - unat c)", simp, goal_cases)
  case (1 n_items chunks per c x)
  note unat_u32_next [OF 1(1)]
  with 1 show ?case by (simp add: word_less_nat_alt)
qed

declare pf_jobs.simps [simp del]

text \<open>The ranges passed to \<^verbatim>\<open>fn\<close>: by the workers, and by the caller. \<open>workers\<close> is 1 without a pool.\<close>

definition vg_threadpool_parallel_for :: "nat \<Rightarrow> u32 \<Rightarrow> (u32 \<times> u32) list \<times> (u32 \<times> u32) list" where
  "vg_threadpool_parallel_for workers n_items =
     (if n_items = 0 then ([], [])
      else if workers \<le> 1 then ([], [(0, n_items)])
      else (let chunks = (if of_nat workers < n_items then of_nat workers else n_items);
                per = pf_per n_items chunks
            in (pf_jobs n_items chunks per 1, [(0, if n_items < per then n_items else per)])))"

end
