(* ===== verification/CpuOps.thy ===== *)
theory CpuOps
  imports Quant ThreadPool
begin

text \<open>
  The CPU kernels (\<^verbatim>\<open>include/vg/cpu_ops.h\<close>, \<^verbatim>\<open>src/cpu_ops.c\<close>): the worker count, the matrix product with
  its kernel for each weight type, and the elementwise operations. A weight matrix is its bytes, a
  vector a list of floats; a kernel takes the output vector and returns it with the rows \<open>r0\<close> to \<open>r1\<close> written. Row
  numbers are naturals: \<^verbatim>\<open>r + 1u < r1\<close> does not wrap as long as \<open>r1\<close> is below \<open>2^32 - 1\<close>. The functions of the C
  mathematics library are a parameter. Prefetch hints and the Windows branches are left out, and
  allocation is taken to succeed.
\<close>

record libm =
  m_expf :: "flt \<Rightarrow> flt"
  m_sqrtf :: "flt \<Rightarrow> flt"
  m_sinf :: "flt \<Rightarrow> flt"
  m_cosf :: "flt \<Rightarrow> flt"
  m_tanhf :: "flt \<Rightarrow> flt"
  m_exp2f :: "flt \<Rightarrow> flt"
  m_log2f :: "flt \<Rightarrow> flt"
  m_powf :: "flt \<Rightarrow> flt \<Rightarrow> flt"

abbreviation fdiv :: "flt \<Rightarrow> flt \<Rightarrow> flt" where
  "fdiv \<equiv> f_div binary32"

section \<open>The worker pool\<close>

text \<open>\<open>cs_pool\<close> is the number of workers of \<^verbatim>\<open>g_pool\<close>.\<close>

record cpu_state =
  cs_threads :: int
  cs_pool :: "nat option"

definition cpu_start :: cpu_state where
  "cpu_start = \<lparr>cs_threads = 1, cs_pool = None\<rparr>"

text \<open>\<open>n\<close> is what the system reports.\<close>

definition hardware_threads :: "int \<Rightarrow> int" where
  "hardware_threads n = (if n > 0 then n else 1)"

definition clamp_threads :: "int \<Rightarrow> int \<Rightarrow> int" where
  "clamp_threads n want =
     (let want = (if want \<le> 0 then hardware_threads n else want);
          want = (if want > 16 then 16 else want)
      in if want < 1 then 1 else want)"

definition vg_cpu_set_threads :: "int \<Rightarrow> int \<Rightarrow> cpu_state \<Rightarrow> int \<times> cpu_state" where
  "vg_cpu_set_threads n n_threads s =
     (let want = clamp_threads n n_threads
      in if want = cs_threads s \<and> ((want = 1) = (cs_pool s = None)) then (cs_threads s, s)
         else (want, \<lparr>cs_threads = want, cs_pool = (if want > 1 then Some (nat want) else None)\<rparr>))"

definition vg_cpu_get_threads :: "cpu_state \<Rightarrow> int \<times> cpu_state" where
  "vg_cpu_get_threads s =
     (let s' = (if cs_threads s < 1 then s\<lparr>cs_threads := 1\<rparr> else s) in (cs_threads s', s'))"

section \<open>Row kernels\<close>

text \<open>A loop over rows that writes one result per row.\<close>

definition row_loop :: "(nat \<Rightarrow> flt) \<Rightarrow> nat \<Rightarrow> nat \<Rightarrow> flt list \<Rightarrow> flt list" where
  "row_loop f r0 r1 y = foldl (\<lambda>y r. y[r := f r]) y [r0..<r1]"

text \<open>One accumulation \<^verbatim>\<open>acc += w * x\<close>.\<close>

abbreviation mac :: "flt \<Rightarrow> flt \<Rightarrow> flt \<Rightarrow> flt" where
  "mac acc w x \<equiv> fadd acc (fmul w x)"

definition row_f32 :: "bytes \<Rightarrow> flt list \<Rightarrow> nat \<Rightarrow> nat \<Rightarrow> flt" where
  "row_f32 W x n r = foldl (\<lambda>acc j. mac acc (f32_of_bits (u32_at W (4 * (r * n + j)))) (x ! j)) f_zero [0..<n]"

definition rows_f32 :: "bytes \<Rightarrow> flt list \<Rightarrow> nat \<Rightarrow> nat \<Rightarrow> nat \<Rightarrow> flt list \<Rightarrow> flt list" where
  "rows_f32 W x n r0 r1 y = row_loop (row_f32 W x n) r0 r1 y"

definition row_f16 :: "bytes \<Rightarrow> flt list \<Rightarrow> nat \<Rightarrow> nat \<Rightarrow> flt" where
  "row_f16 W x n r = foldl (\<lambda>acc j. mac acc (half_at W (2 * (r * n + j))) (x ! j)) f_zero [0..<n]"

definition rows_f16 :: "bytes \<Rightarrow> flt list \<Rightarrow> nat \<Rightarrow> nat \<Rightarrow> nat \<Rightarrow> flt list \<Rightarrow> flt list" where
  "rows_f16 W x n r0 r1 y = row_loop (row_f16 W x n) r0 r1 y"

text \<open>Block \<open>b\<close> of row \<open>r\<close> starts at byte \<open>(r * nb + b) * sz\<close>.\<close>

definition row_q8_0 :: "bytes \<Rightarrow> flt list \<Rightarrow> nat \<Rightarrow> nat \<Rightarrow> flt" where
  "row_q8_0 W x n r =
     (let nb = n div 32
      in foldl (\<lambda>acc b.
           let p = (r * nb + b) * 34
           in fadd acc (fmul (half_at W p)
                (foldl (\<lambda>sm j. mac sm (fint (sint (W ! (p + 2 + j)))) (x ! (b * 32 + j))) f_zero [0..<32]))) f_zero [0..<nb])"

definition rows_q8_0 :: "bytes \<Rightarrow> flt list \<Rightarrow> nat \<Rightarrow> nat \<Rightarrow> nat \<Rightarrow> flt list \<Rightarrow> flt list" where
  "rows_q8_0 W x n r0 r1 y = row_loop (row_q8_0 W x n) r0 r1 y"

text \<open>The sum of the two products a byte of a Q4_0 block contributes.\<close>

definition q4_0_mac :: "flt \<Rightarrow> u8 \<Rightarrow> flt \<Rightarrow> flt \<Rightarrow> flt" where
  "q4_0_mac s q xl xh = fadd s (fadd (fmul (fint (lo_nib q - 8)) xl) (fmul (fint (hi_nib q - 8)) xh))"

definition row_q4_0 :: "bytes \<Rightarrow> flt list \<Rightarrow> nat \<Rightarrow> nat \<Rightarrow> flt" where
  "row_q4_0 W x n r =
     (let nb = n div 32
      in foldl (\<lambda>acc b.
           let p = (r * nb + b) * 18
           in fadd acc (fmul (half_at W p)
                (foldl (\<lambda>sm j. q4_0_mac sm (W ! (p + 2 + j)) (x ! (b * 32 + j)) (x ! (b * 32 + 16 + j))) f_zero [0..<16])))
           f_zero [0..<nb])"

text \<open>The pass over the rows \<open>r\<close> and \<open>r + 1\<close>.\<close>

definition pair_q4_0 :: "bytes \<Rightarrow> flt list \<Rightarrow> nat \<Rightarrow> nat \<Rightarrow> flt \<times> flt" where
  "pair_q4_0 W x n r =
     (let nb = n div 32; row0 = r * nb * 18; row1 = row0 + nb * 18
      in foldl (\<lambda>(acc0, acc1) b.
           let p0 = row0 + b * 18; p1 = row1 + b * 18;
               (s0, s1) = foldl (\<lambda>(s0, s1) j.
                  let xl = x ! (b * 32 + j); xh = x ! (b * 32 + 16 + j)
                  in (q4_0_mac s0 (W ! (p0 + 2 + j)) xl xh, q4_0_mac s1 (W ! (p1 + 2 + j)) xl xh)) (f_zero, f_zero) [0..<16]
           in (fadd acc0 (fmul (half_at W p0) s0), fadd acc1 (fmul (half_at W p1) s1))) (f_zero, f_zero) [0..<nb])"

text \<open>Two rows per pass, then the row that is left.\<close>

function pair_loop :: "(nat \<Rightarrow> flt \<times> flt) \<Rightarrow> (nat \<Rightarrow> flt) \<Rightarrow> nat \<Rightarrow> nat \<Rightarrow> flt list \<Rightarrow> flt list" where
  "pair_loop two one r r1 y =
     (if r + 1 < r1 then pair_loop two one (r + 2) r1 (case two r of (a0, a1) \<Rightarrow> y[r := a0, r + 1 := a1])
      else row_loop one r r1 y)"
  by pat_completeness auto
termination
  by (relation "measure (\<lambda>(two, one, r, r1, y). r1 - r)") auto

declare pair_loop.simps [simp del]

definition rows_q4_0 :: "bytes \<Rightarrow> flt list \<Rightarrow> nat \<Rightarrow> nat \<Rightarrow> nat \<Rightarrow> flt list \<Rightarrow> flt list" where
  "rows_q4_0 W x n r0 r1 y = pair_loop (pair_q4_0 W x n) (row_q4_0 W x n) r0 r1 y"

section \<open>Ternary and one-bit kernels\<close>

definition k_tern2 :: "flt list" where
  "k_tern2 = [fint (-1), fint 0, fint 1, fint 2]"

definition k_sign :: "flt list" where
  "k_sign = [fint (-1), fint 1]"

text \<open>The two bits \<^verbatim>\<open>(b >> sh) & 3u\<close> as an index.\<close>

definition code2 :: "u8 \<Rightarrow> nat \<Rightarrow> nat" where
  "code2 b sh = unat (drop_bit sh b AND 3)"

definition row_tq2_0 :: "bytes \<Rightarrow> flt list \<Rightarrow> nat \<Rightarrow> nat \<Rightarrow> flt" where
  "row_tq2_0 W x n r =
     (let nb = n div 256
      in foldl (\<lambda>acc ib.
           let p = (r * nb + ib) * 66; xb = ib * 256;
               (s0, s1, s2, s3) = foldl (\<lambda>s g. foldl (\<lambda>(s0, s1, s2, s3) m.
                  let b = W ! (p + g * 32 + m); x0 = xb + g * 128
                  in (mac s0 (k_tern2 ! code2 b 0) (x ! (x0 + m)), mac s1 (k_tern2 ! code2 b 2) (x ! (x0 + 32 + m)),
                      mac s2 (k_tern2 ! code2 b 4) (x ! (x0 + 64 + m)), mac s3 (k_tern2 ! code2 b 6) (x ! (x0 + 96 + m))))
                  s [0..<32]) (f_zero, f_zero, f_zero, f_zero) [0..<2]
           in fadd acc (fmul (half_at W (p + 64)) (fadd (fadd s0 s1) (fadd s2 s3)))) f_zero [0..<nb])"

definition rows_tq2_0 :: "bytes \<Rightarrow> flt list \<Rightarrow> nat \<Rightarrow> nat \<Rightarrow> nat \<Rightarrow> flt list \<Rightarrow> flt list" where
  "rows_tq2_0 W x n r0 r1 y = row_loop (row_tq2_0 W x n) r0 r1 y"

text \<open>One radix-3 value of a packed byte: \<open>p3\<close> is the power of three of the plane.\<close>

definition tq1_val :: "u8 \<Rightarrow> u8 \<Rightarrow> int" where
  "tq1_val b p3 = (let packed = b * p3 in int (unat packed * 3 div 256) - 1)"

definition k_tq1_lut :: "int list list" where
  "k_tq1_lut =
    [[-1, -1, -1, -1, -1], [-1, -1, -1, -1, -1], [-1, -1, -1, -1, 0], [-1, -1, -1, -1, 1], [-1, -1, -1, 0, -1], [-1, -1, -1, 0, 0],
     [-1, -1, -1, 0, 1], [-1, -1, -1, 1, -1], [-1, -1, -1, 1, 0], [-1, -1, -1, 1, 1], [-1, -1, 0, -1, -1], [-1, -1, 0, -1, 0],
     [-1, -1, 0, -1, 1], [-1, -1, 0, 0, -1], [-1, -1, 0, 0, 0], [-1, -1, 0, 0, 1], [-1, -1, 0, 1, -1], [-1, -1, 0, 1, 0],
     [-1, -1, 0, 1, 1], [-1, -1, 1, -1, -1], [-1, -1, 1, -1, -1], [-1, -1, 1, -1, 0], [-1, -1, 1, -1, 1], [-1, -1, 1, 0, -1],
     [-1, -1, 1, 0, 0], [-1, -1, 1, 0, 1], [-1, -1, 1, 1, -1], [-1, -1, 1, 1, 0], [-1, -1, 1, 1, 1], [-1, 0, -1, -1, -1],
     [-1, 0, -1, -1, 0], [-1, 0, -1, -1, 1], [-1, 0, -1, 0, -1], [-1, 0, -1, 0, 0], [-1, 0, -1, 0, 1], [-1, 0, -1, 1, -1],
     [-1, 0, -1, 1, 0], [-1, 0, -1, 1, 1], [-1, 0, 0, -1, -1], [-1, 0, 0, -1, 0], [-1, 0, 0, -1, 0], [-1, 0, 0, -1, 1],
     [-1, 0, 0, 0, -1], [-1, 0, 0, 0, 0], [-1, 0, 0, 0, 1], [-1, 0, 0, 1, -1], [-1, 0, 0, 1, 0], [-1, 0, 0, 1, 1],
     [-1, 0, 1, -1, -1], [-1, 0, 1, -1, 0], [-1, 0, 1, -1, 1], [-1, 0, 1, 0, -1], [-1, 0, 1, 0, 0], [-1, 0, 1, 0, 1],
     [-1, 0, 1, 1, -1], [-1, 0, 1, 1, 0], [-1, 0, 1, 1, 1], [-1, 1, -1, -1, -1], [-1, 1, -1, -1, 0], [-1, 1, -1, -1, 1],
     [-1, 1, -1, -1, 1], [-1, 1, -1, 0, -1], [-1, 1, -1, 0, 0], [-1, 1, -1, 0, 1], [-1, 1, -1, 1, -1], [-1, 1, -1, 1, 0],
     [-1, 1, -1, 1, 1], [-1, 1, 0, -1, -1], [-1, 1, 0, -1, 0], [-1, 1, 0, -1, 1], [-1, 1, 0, 0, -1], [-1, 1, 0, 0, 0],
     [-1, 1, 0, 0, 1], [-1, 1, 0, 1, -1], [-1, 1, 0, 1, 0], [-1, 1, 0, 1, 1], [-1, 1, 1, -1, -1], [-1, 1, 1, -1, 0],
     [-1, 1, 1, -1, 1], [-1, 1, 1, -1, 1], [-1, 1, 1, 0, -1], [-1, 1, 1, 0, 0], [-1, 1, 1, 0, 1], [-1, 1, 1, 1, -1],
     [-1, 1, 1, 1, 0], [-1, 1, 1, 1, 1], [0, -1, -1, -1, -1], [0, -1, -1, -1, 0], [0, -1, -1, -1, 1], [0, -1, -1, 0, -1],
     [0, -1, -1, 0, 0], [0, -1, -1, 0, 1], [0, -1, -1, 1, -1], [0, -1, -1, 1, 0], [0, -1, -1, 1, 1], [0, -1, 0, -1, -1],
     [0, -1, 0, -1, 0], [0, -1, 0, -1, 1], [0, -1, 0, 0, -1], [0, -1, 0, 0, -1], [0, -1, 0, 0, 0], [0, -1, 0, 0, 1],
     [0, -1, 0, 1, -1], [0, -1, 0, 1, 0], [0, -1, 0, 1, 1], [0, -1, 1, -1, -1], [0, -1, 1, -1, 0], [0, -1, 1, -1, 1],
     [0, -1, 1, 0, -1], [0, -1, 1, 0, 0], [0, -1, 1, 0, 1], [0, -1, 1, 1, -1], [0, -1, 1, 1, 0], [0, -1, 1, 1, 1],
     [0, 0, -1, -1, -1], [0, 0, -1, -1, 0], [0, 0, -1, -1, 1], [0, 0, -1, 0, -1], [0, 0, -1, 0, 0], [0, 0, -1, 0, 0],
     [0, 0, -1, 0, 1], [0, 0, -1, 1, -1], [0, 0, -1, 1, 0], [0, 0, -1, 1, 1], [0, 0, 0, -1, -1], [0, 0, 0, -1, 0],
     [0, 0, 0, -1, 1], [0, 0, 0, 0, -1], [0, 0, 0, 0, 0], [0, 0, 0, 0, 1], [0, 0, 0, 1, -1], [0, 0, 0, 1, 0],
     [0, 0, 0, 1, 1], [0, 0, 1, -1, -1], [0, 0, 1, -1, 0], [0, 0, 1, -1, 1], [0, 0, 1, 0, -1], [0, 0, 1, 0, 0],
     [0, 0, 1, 0, 0], [0, 0, 1, 0, 1], [0, 0, 1, 1, -1], [0, 0, 1, 1, 0], [0, 0, 1, 1, 1], [0, 1, -1, -1, -1],
     [0, 1, -1, -1, 0], [0, 1, -1, -1, 1], [0, 1, -1, 0, -1], [0, 1, -1, 0, 0], [0, 1, -1, 0, 1], [0, 1, -1, 1, -1],
     [0, 1, -1, 1, 0], [0, 1, -1, 1, 1], [0, 1, 0, -1, -1], [0, 1, 0, -1, 0], [0, 1, 0, -1, 1], [0, 1, 0, 0, -1],
     [0, 1, 0, 0, 0], [0, 1, 0, 0, 1], [0, 1, 0, 0, 1], [0, 1, 0, 1, -1], [0, 1, 0, 1, 0], [0, 1, 0, 1, 1],
     [0, 1, 1, -1, -1], [0, 1, 1, -1, 0], [0, 1, 1, -1, 1], [0, 1, 1, 0, -1], [0, 1, 1, 0, 0], [0, 1, 1, 0, 1],
     [0, 1, 1, 1, -1], [0, 1, 1, 1, 0], [0, 1, 1, 1, 1], [1, -1, -1, -1, -1], [1, -1, -1, -1, 0], [1, -1, -1, -1, 1],
     [1, -1, -1, 0, -1], [1, -1, -1, 0, 0], [1, -1, -1, 0, 1], [1, -1, -1, 1, -1], [1, -1, -1, 1, -1], [1, -1, -1, 1, 0],
     [1, -1, -1, 1, 1], [1, -1, 0, -1, -1], [1, -1, 0, -1, 0], [1, -1, 0, -1, 1], [1, -1, 0, 0, -1], [1, -1, 0, 0, 0],
     [1, -1, 0, 0, 1], [1, -1, 0, 1, -1], [1, -1, 0, 1, 0], [1, -1, 0, 1, 1], [1, -1, 1, -1, -1], [1, -1, 1, -1, 0],
     [1, -1, 1, -1, 1], [1, -1, 1, 0, -1], [1, -1, 1, 0, 0], [1, -1, 1, 0, 1], [1, -1, 1, 1, -1], [1, -1, 1, 1, -1],
     [1, -1, 1, 1, 0], [1, -1, 1, 1, 1], [1, 0, -1, -1, -1], [1, 0, -1, -1, 0], [1, 0, -1, -1, 1], [1, 0, -1, 0, -1],
     [1, 0, -1, 0, 0], [1, 0, -1, 0, 1], [1, 0, -1, 1, -1], [1, 0, -1, 1, 0], [1, 0, -1, 1, 1], [1, 0, 0, -1, -1],
     [1, 0, 0, -1, 0], [1, 0, 0, -1, 1], [1, 0, 0, 0, -1], [1, 0, 0, 0, 0], [1, 0, 0, 0, 1], [1, 0, 0, 1, -1],
     [1, 0, 0, 1, 0], [1, 0, 0, 1, 0], [1, 0, 0, 1, 1], [1, 0, 1, -1, -1], [1, 0, 1, -1, 0], [1, 0, 1, -1, 1],
     [1, 0, 1, 0, -1], [1, 0, 1, 0, 0], [1, 0, 1, 0, 1], [1, 0, 1, 1, -1], [1, 0, 1, 1, 0], [1, 0, 1, 1, 1],
     [1, 1, -1, -1, -1], [1, 1, -1, -1, 0], [1, 1, -1, -1, 1], [1, 1, -1, 0, -1], [1, 1, -1, 0, 0], [1, 1, -1, 0, 1],
     [1, 1, -1, 1, -1], [1, 1, -1, 1, 0], [1, 1, -1, 1, 1], [1, 1, -1, 1, 1], [1, 1, 0, -1, -1], [1, 1, 0, -1, 0],
     [1, 1, 0, -1, 1], [1, 1, 0, 0, -1], [1, 1, 0, 0, 0], [1, 1, 0, 0, 1], [1, 1, 0, 1, -1], [1, 1, 0, 1, 0],
     [1, 1, 0, 1, 1], [1, 1, 1, -1, -1], [1, 1, 1, -1, 0], [1, 1, 1, -1, 1], [1, 1, 1, 0, -1], [1, 1, 1, 0, 0],
     [1, 1, 1, 0, 1], [1, 1, 1, 1, -1], [1, 1, 1, 1, 0], [1, 1, 1, 1, 1]]"

text \<open>Five accumulations with the five digits of a byte; plane \<open>i\<close> reads \<open>x\<close> at \<open>xp + i * w + m\<close>.\<close>

definition tq1_five :: "u8 \<Rightarrow> flt list \<Rightarrow> nat \<Rightarrow> nat \<Rightarrow> flt \<Rightarrow> flt" where
  "tq1_five b x xm w s =
     mac (mac (mac (mac (mac s
       (fint (k_tq1_lut ! unat b ! 0)) (x ! xm))
       (fint (k_tq1_lut ! unat b ! 1)) (x ! (xm + w)))
       (fint (k_tq1_lut ! unat b ! 2)) (x ! (xm + 2 * w)))
       (fint (k_tq1_lut ! unat b ! 3)) (x ! (xm + 3 * w)))
       (fint (k_tq1_lut ! unat b ! 4)) (x ! (xm + 4 * w))"

definition row_tq1_0 :: "bytes \<Rightarrow> flt list \<Rightarrow> nat \<Rightarrow> nat \<Rightarrow> flt" where
  "row_tq1_0 W x n r =
     (let nb = n div 256
      in foldl (\<lambda>acc ib.
           let p = (r * nb + ib) * 54; xb = ib * 256;
               s = foldl (\<lambda>s m. tq1_five (W ! (p + m)) x (xb + m) 32 s) f_zero [0..<32];
               s = foldl (\<lambda>s m. tq1_five (W ! (p + 32 + m)) x (xb + 160 + m) 16 s) s [0..<16];
               s = foldl (\<lambda>s q. foldl (\<lambda>s m.
                     mac s (fint (tq1_val (W ! (p + 48 + m)) (k_pow3 ! q))) (x ! (xb + 240 + q * 4 + m))) s [0..<4]) s [0..<4]
           in fadd acc (fmul (half_at W (p + 52)) s)) f_zero [0..<nb])"

definition rows_tq1_0 :: "bytes \<Rightarrow> flt list \<Rightarrow> nat \<Rightarrow> nat \<Rightarrow> nat \<Rightarrow> flt list \<Rightarrow> flt list" where
  "rows_tq1_0 W x n r0 r1 y = row_loop (row_tq1_0 W x n) r0 r1 y"

definition row_q1_0 :: "bytes \<Rightarrow> flt list \<Rightarrow> nat \<Rightarrow> nat \<Rightarrow> flt" where
  "row_q1_0 W x n r =
     (let nb = n div 128
      in foldl (\<lambda>acc ib.
           let p = (r * nb + ib) * 18;
               s = foldl (\<lambda>s j. foldl (\<lambda>s i.
                     mac s (k_sign ! unat (drop_bit i (W ! (p + 2 + j)) AND 1)) (x ! (ib * 128 + j * 8 + i))) s [0..<8]) f_zero [0..<16]
           in fadd acc (fmul (half_at W p) s)) f_zero [0..<nb])"

definition rows_q1_0 :: "bytes \<Rightarrow> flt list \<Rightarrow> nat \<Rightarrow> nat \<Rightarrow> nat \<Rightarrow> flt list \<Rightarrow> flt list" where
  "rows_q1_0 W x n r0 r1 y = row_loop (row_q1_0 W x n) r0 r1 y"

definition row_q2_0 :: "bytes \<Rightarrow> flt list \<Rightarrow> nat \<Rightarrow> nat \<Rightarrow> flt" where
  "row_q2_0 W x n r =
     (let nb = n div 64
      in foldl (\<lambda>acc ib.
           let p = (r * nb + ib) * 18;
               s = foldl (\<lambda>s j. foldl (\<lambda>s i.
                     mac s (k_tern2 ! code2 (W ! (p + 2 + j)) (2 * i)) (x ! (ib * 64 + j * 4 + i))) s [0..<4]) f_zero [0..<16]
           in fadd acc (fmul (half_at W p) s)) f_zero [0..<nb])"

definition rows_q2_0 :: "bytes \<Rightarrow> flt list \<Rightarrow> nat \<Rightarrow> nat \<Rightarrow> nat \<Rightarrow> flt list \<Rightarrow> flt list" where
  "rows_q2_0 W x n r0 r1 y = row_loop (row_q2_0 W x n) r0 r1 y"

section \<open>K-quant kernels\<close>

definition get_scale_k4 :: "nat \<Rightarrow> bytes \<Rightarrow> nat \<Rightarrow> u8" where
  "get_scale_k4 j W q =
     (if j < 4 then W ! (q + j) AND 63
      else (W ! (q + j + 4) AND 0x0F) OR push_bit 4 (drop_bit 6 (W ! (q + j - 4))))"

definition get_min_k4 :: "nat \<Rightarrow> bytes \<Rightarrow> nat \<Rightarrow> u8" where
  "get_min_k4 j W q =
     (if j < 4 then W ! (q + j + 4) AND 63
      else drop_bit 4 (W ! (q + j + 4)) OR push_bit 4 (drop_bit 6 (W ! (q + j))))"

text \<open>The four multipliers of group \<open>g\<close> of the block at \<open>p\<close>: scale and minimum of its two halves.\<close>

definition q4_k_group :: "bytes \<Rightarrow> nat \<Rightarrow> nat \<Rightarrow> flt \<times> flt \<times> flt \<times> flt" where
  "q4_k_group W p g =
     (let d = half_at W p; mn = half_at W (p + 2); sc = p + 4
      in (fmul d (fint (uint (get_scale_k4 (2 * g) W sc))), fmul mn (fint (uint (get_min_k4 (2 * g) W sc))),
          fmul d (fint (uint (get_scale_k4 (2 * g + 1) W sc))), fmul mn (fint (uint (get_min_k4 (2 * g + 1) W sc)))))"

definition q4_k_mac :: "flt \<times> flt \<times> flt \<times> flt \<Rightarrow> u8 \<Rightarrow> flt \<Rightarrow> flt \<Rightarrow> flt \<Rightarrow> flt" where
  "q4_k_mac ms q xl xh acc =
     (case ms of (d1, m1, d2, m2) \<Rightarrow>
        mac (mac acc (fsub (fmul d1 (fint (lo_nib q))) m1) xl) (fsub (fmul d2 (fint (hi_nib q))) m2) xh)"

definition row_q4_k :: "bytes \<Rightarrow> flt list \<Rightarrow> nat \<Rightarrow> nat \<Rightarrow> flt" where
  "row_q4_k W x n r =
     (let nb = n div 256
      in foldl (\<lambda>acc ib.
           let p = (r * nb + ib) * 144; xb = ib * 256
           in foldl (\<lambda>acc g. foldl (\<lambda>acc l.
                q4_k_mac (q4_k_group W p g) (W ! (p + 16 + 32 * g + l)) (x ! (xb + 64 * g + l)) (x ! (xb + 64 * g + 32 + l)) acc)
                acc [0..<32]) acc [0..<4]) f_zero [0..<nb])"

definition pair_q4_k :: "bytes \<Rightarrow> flt list \<Rightarrow> nat \<Rightarrow> nat \<Rightarrow> flt \<times> flt" where
  "pair_q4_k W x n r =
     (let nb = n div 256; row0 = r * nb * 144; row1 = row0 + nb * 144
      in foldl (\<lambda>acc ib.
           let p0 = row0 + ib * 144; p1 = row1 + ib * 144; xb = ib * 256
           in foldl (\<lambda>acc g.
                let ms0 = q4_k_group W p0 g; ms1 = q4_k_group W p1 g
                in foldl (\<lambda>(acc0, acc1) l.
                     let xl = x ! (xb + 64 * g + l); xh = x ! (xb + 64 * g + 32 + l)
                     in (q4_k_mac ms0 (W ! (p0 + 16 + 32 * g + l)) xl xh acc0, q4_k_mac ms1 (W ! (p1 + 16 + 32 * g + l)) xl xh acc1))
                     acc [0..<32]) acc [0..<4]) (f_zero, f_zero) [0..<nb])"

definition rows_q4_k :: "bytes \<Rightarrow> flt list \<Rightarrow> nat \<Rightarrow> nat \<Rightarrow> nat \<Rightarrow> flt list \<Rightarrow> flt list" where
  "rows_q4_k W x n r0 r1 y = pair_loop (pair_q4_k W x n) (row_q4_k W x n) r0 r1 y"

text \<open>The value \<open>v1\<close> to \<open>v4\<close> (\<open>k\<close> from 0) of position \<open>l\<close> in half \<open>h\<close> of the block at \<open>p\<close>.\<close>

definition q6_value :: "bytes \<Rightarrow> nat \<Rightarrow> nat \<Rightarrow> nat \<Rightarrow> nat \<Rightarrow> int" where
  "q6_value W p h k l =
     (let ql = W ! (p + 64 * h + l + (if odd k then 32 else 0)); qh = W ! (p + 128 + 32 * h + l)
      in uint ((if k < 2 then ql AND 0x0F else drop_bit 4 ql) OR push_bit 4 (drop_bit (2 * k) qh AND 3)) - 32)"

definition row_q6_k :: "bytes \<Rightarrow> flt list \<Rightarrow> nat \<Rightarrow> nat \<Rightarrow> flt" where
  "row_q6_k W x n r =
     (let nb = n div 256
      in foldl (\<lambda>acc ib.
           let p = (r * nb + ib) * 210; d = half_at W (p + 208); xb = ib * 256
           in foldl (\<lambda>acc h. foldl (\<lambda>acc l. foldl (\<lambda>acc k.
                mac acc (fmul (fmul d (fint (sint (W ! (p + 192 + 8 * h + l div 16 + 2 * k))))) (fint (q6_value W p h k l)))
                  (x ! (xb + h * 128 + 32 * k + l))) acc [0..<4]) acc [0..<32]) acc [0..<2]) f_zero [0..<nb])"

definition rows_q6_k :: "bytes \<Rightarrow> flt list \<Rightarrow> nat \<Rightarrow> nat \<Rightarrow> nat \<Rightarrow> flt list \<Rightarrow> flt list" where
  "rows_q6_k W x n r0 r1 y = row_loop (row_q6_k W x n) r0 r1 y"

section \<open>Matrix products\<close>

text \<open>Every other type: expand one row and take its dot product. A row that cannot be expanded is NaN.\<close>

definition row_generic :: "u32 \<Rightarrow> vg_quantinfo \<Rightarrow> bytes \<Rightarrow> flt list \<Rightarrow> u32 \<Rightarrow> nat \<Rightarrow> flt" where
  "row_generic type qi W x n r =
     (let row_bytes = (ucast (n div qi_block_size qi) :: u64) * ucast (qi_bytes_per_block qi)
      in case vg_dequantize_row type (Some (drop (r * unat row_bytes) W)) row_bytes True (ucast n) of
           Inl st \<Rightarrow> FNan
         | Inr row \<Rightarrow> foldl (\<lambda>acc j. mac acc (row ! j) (x ! j)) f_zero [0..<unat n])"

definition rows_generic_deq :: "u32 \<Rightarrow> bytes \<Rightarrow> flt list \<Rightarrow> u32 \<Rightarrow> nat \<Rightarrow> nat \<Rightarrow> flt list \<Rightarrow> flt list" where
  "rows_generic_deq type W x n r0 r1 y =
     (case vg_quant_info type of
        None \<Rightarrow> row_loop (\<lambda>_. FNan) r0 r1 y
      | Some qi \<Rightarrow> if \<not> qi_scalar qi then row_loop (\<lambda>_. FNan) r0 r1 y else row_loop (row_generic type qi W x n) r0 r1 y)"

definition pick_rows :: "u32 \<Rightarrow> (bytes \<Rightarrow> flt list \<Rightarrow> nat \<Rightarrow> nat \<Rightarrow> nat \<Rightarrow> flt list \<Rightarrow> flt list) option" where
  "pick_rows type =
     (if type = kind_code QK_F32 then Some rows_f32
      else if type = kind_code QK_F16 then Some rows_f16
      else if type = kind_code QK_Q8_0 then Some rows_q8_0
      else if type = kind_code QK_Q4_0 then Some rows_q4_0
      else if type = kind_code QK_Q4_K then Some rows_q4_k
      else if type = kind_code QK_Q6_K then Some rows_q6_k
      else if type = kind_code QK_TQ1_0 then Some rows_tq1_0
      else if type = kind_code QK_TQ2_0 then Some rows_tq2_0
      else if type = kind_code QK_Q1_0 then Some rows_q1_0
      else if type = kind_code QK_Q2_0 then Some rows_q2_0
      else None)"

definition mat_job :: "u32 \<Rightarrow> bytes \<Rightarrow> flt list \<Rightarrow> u32 \<Rightarrow> u32 \<times> u32 \<Rightarrow> flt list \<Rightarrow> flt list" where
  "mat_job type W x in_dim rg y =
     (case rg of (b, e) \<Rightarrow>
        if e \<le> b then y
        else (case pick_rows type of
                Some f \<Rightarrow> f W x (unat in_dim) (unat b) (unat e) y
              | None \<Rightarrow> rows_generic_deq type W x in_dim (unat b) (unat e) y))"

text \<open>
  \<open>sched\<close> gives the order in which the ranges of a parallel loop run: jobs write different rows, so each can be
  taken as one step. A NULL buffer is \<open>None\<close>.
\<close>

definition matmul_impl ::
  "cpu_state \<Rightarrow> ((u32 \<times> u32) list \<Rightarrow> (u32 \<times> u32) list) \<Rightarrow> bool \<Rightarrow> u32 \<Rightarrow> bytes option \<Rightarrow> flt list option \<Rightarrow> flt list option
     \<Rightarrow> u32 \<Rightarrow> u32 \<Rightarrow> vg_status + flt list" where
  "matmul_impl cs sched threaded type Wp xp yp out_dim in_dim =
     (case (Wp, xp, yp) of
        (Some W, Some x, Some y) \<Rightarrow>
          (if out_dim = 0 \<or> in_dim = 0 then Inl VG_E_INVALID
           else (case vg_quant_info type of
                   None \<Rightarrow> Inl VG_E_UNSUPPORTED
                 | Some qi \<Rightarrow>
                     (if in_dim mod qi_block_size qi \<noteq> 0 then Inl VG_E_FORMAT
                      else if \<not> qi_scalar qi then Inl VG_E_UNSUPPORTED
                      else Inr (case cs_pool cs of
                             Some workers \<Rightarrow>
                               (if threaded \<and> cs_threads cs > 1 \<and> out_dim > 1 \<and> in_dim \<ge> 64 then
                                  (case vg_threadpool_parallel_for workers out_dim of
                                     (jobs, own) \<Rightarrow> foldl (\<lambda>y rg. mat_job type W x in_dim rg y) y (sched (jobs @ own)))
                                else mat_job type W x in_dim (0, out_dim) y)
                           | None \<Rightarrow> mat_job type W x in_dim (0, out_dim) y))))
      | _ \<Rightarrow> Inl VG_E_INVALID)"

definition vg_cpu_matmul ::
  "cpu_state \<Rightarrow> ((u32 \<times> u32) list \<Rightarrow> (u32 \<times> u32) list) \<Rightarrow> u32 \<Rightarrow> bytes option \<Rightarrow> flt list option \<Rightarrow> flt list option
     \<Rightarrow> u32 \<Rightarrow> u32 \<Rightarrow> vg_status + flt list" where
  "vg_cpu_matmul cs sched type W x y out_dim in_dim = matmul_impl cs sched True type W x y out_dim in_dim"

definition vg_cpu_matmul_ref ::
  "cpu_state \<Rightarrow> u32 \<Rightarrow> bytes option \<Rightarrow> flt list option \<Rightarrow> flt list option \<Rightarrow> u32 \<Rightarrow> u32 \<Rightarrow> vg_status + flt list" where
  "vg_cpu_matmul_ref cs type W x y out_dim in_dim = matmul_impl cs id False type W x y out_dim in_dim"

text \<open>The typed entry points ignore the status: the output keeps its contents when the product is refused.\<close>

definition matmul_void :: "vg_status + flt list \<Rightarrow> flt list option \<Rightarrow> flt list option" where
  "matmul_void r y = (case r of Inl st \<Rightarrow> y | Inr y' \<Rightarrow> Some y')"

definition vg_cpu_matmul_q4_0 ::
  "cpu_state \<Rightarrow> ((u32 \<times> u32) list \<Rightarrow> (u32 \<times> u32) list) \<Rightarrow> bytes option \<Rightarrow> flt list option \<Rightarrow> flt list option \<Rightarrow> u32 \<Rightarrow> u32 \<Rightarrow> flt list option" where
  "vg_cpu_matmul_q4_0 cs sched W x y out_dim in_dim = matmul_void (vg_cpu_matmul cs sched (kind_code QK_Q4_0) W x y out_dim in_dim) y"

definition vg_cpu_matmul_q4_k ::
  "cpu_state \<Rightarrow> ((u32 \<times> u32) list \<Rightarrow> (u32 \<times> u32) list) \<Rightarrow> bytes option \<Rightarrow> flt list option \<Rightarrow> flt list option \<Rightarrow> u32 \<Rightarrow> u32 \<Rightarrow> flt list option" where
  "vg_cpu_matmul_q4_k cs sched W x y out_dim in_dim = matmul_void (vg_cpu_matmul cs sched (kind_code QK_Q4_K) W x y out_dim in_dim) y"

definition vg_cpu_matmul_q6_k ::
  "cpu_state \<Rightarrow> ((u32 \<times> u32) list \<Rightarrow> (u32 \<times> u32) list) \<Rightarrow> bytes option \<Rightarrow> flt list option \<Rightarrow> flt list option \<Rightarrow> u32 \<Rightarrow> u32 \<Rightarrow> flt list option" where
  "vg_cpu_matmul_q6_k cs sched W x y out_dim in_dim = matmul_void (vg_cpu_matmul cs sched (kind_code QK_Q6_K) W x y out_dim in_dim) y"

definition vg_cpu_matmul_q8_0 ::
  "cpu_state \<Rightarrow> ((u32 \<times> u32) list \<Rightarrow> (u32 \<times> u32) list) \<Rightarrow> bytes option \<Rightarrow> flt list option \<Rightarrow> flt list option \<Rightarrow> u32 \<Rightarrow> u32 \<Rightarrow> flt list option" where
  "vg_cpu_matmul_q8_0 cs sched W x y out_dim in_dim = matmul_void (vg_cpu_matmul cs sched (kind_code QK_Q8_0) W x y out_dim in_dim) y"

definition vg_cpu_matmul_f32 ::
  "cpu_state \<Rightarrow> ((u32 \<times> u32) list \<Rightarrow> (u32 \<times> u32) list) \<Rightarrow> bytes option \<Rightarrow> flt list option \<Rightarrow> flt list option \<Rightarrow> u32 \<Rightarrow> u32 \<Rightarrow> flt list option" where
  "vg_cpu_matmul_f32 cs sched W x y out_dim in_dim = matmul_void (vg_cpu_matmul cs sched (kind_code QK_F32) W x y out_dim in_dim) y"

definition vg_cpu_matmul_f16 ::
  "cpu_state \<Rightarrow> ((u32 \<times> u32) list \<Rightarrow> (u32 \<times> u32) list) \<Rightarrow> bytes option \<Rightarrow> flt list option \<Rightarrow> flt list option \<Rightarrow> u32 \<Rightarrow> u32 \<Rightarrow> flt list option" where
  "vg_cpu_matmul_f16 cs sched W x y out_dim in_dim = matmul_void (vg_cpu_matmul cs sched (kind_code QK_F16) W x y out_dim in_dim) y"

section \<open>Elementwise and reduction kernels\<close>

text \<open>The first \<open>n\<close> elements are written, the others are left.\<close>

definition write_all :: "nat \<Rightarrow> (nat \<Rightarrow> flt) \<Rightarrow> flt list \<Rightarrow> flt list" where
  "write_all n f out = foldl (\<lambda>out i. out[i := f i]) out [0..<n]"

definition vg_cpu_rmsnorm :: "libm \<Rightarrow> flt list \<Rightarrow> flt list \<Rightarrow> flt list option \<Rightarrow> u32 \<Rightarrow> flt \<Rightarrow> flt list" where
  "vg_cpu_rmsnorm m out x weight dm eps =
     (let n = unat dm;
          ss = foldl (\<lambda>ss i. mac ss (x ! i) (x ! i)) f_zero [0..<n];
          scale = fdiv f_one (m_sqrtf m (fadd (fdiv ss (fint (uint dm))) eps))
      in case weight of
           Some w \<Rightarrow> write_all n (\<lambda>i. fmul (fmul (x ! i) scale) (w ! i)) out
         | None \<Rightarrow> write_all n (\<lambda>i. fmul (x ! i) scale) out)"

definition rope_iters :: "u32 \<Rightarrow> u32 \<Rightarrow> nat" where
  "rope_iters n_rot head_dim = (let half = head_dim div 2 in unat (if n_rot < half then n_rot else half))"

definition rope_freq :: "libm \<Rightarrow> u32 \<Rightarrow> flt \<Rightarrow> flt \<Rightarrow> int \<Rightarrow> nat \<Rightarrow> flt" where
  "rope_freq m head_dim freq_scale theta_base pos i =
     (let inv = fdiv (f_convert binary32 (f_mul binary64 (FFin False 1 1) (f_of_int binary64 (int i)))) (fint (uint head_dim))
      in fmul (fmul (fint pos) freq_scale) (m_exp2f m (fmul (f_neg inv) (m_log2f m theta_base))))"

definition vg_cpu_rope_table ::
  "libm \<Rightarrow> flt list \<Rightarrow> flt list \<Rightarrow> u32 \<Rightarrow> u32 \<Rightarrow> flt \<Rightarrow> flt \<Rightarrow> int \<Rightarrow> flt list \<times> flt list" where
  "vg_cpu_rope_table m cos_out sin_out n_rot head_dim freq_scale theta_base pos =
     foldl (\<lambda>(c, s) i.
       let freq = rope_freq m head_dim freq_scale theta_base pos i in (c[i := m_cosf m freq], s[i := m_sinf m freq]))
       (cos_out, sin_out) [0..<rope_iters n_rot head_dim]"

text \<open>The rotation of the components \<open>i\<close> and \<open>i + half\<close> by an angle given by its cosine and sine.\<close>

definition rotate_pair :: "nat \<Rightarrow> nat \<Rightarrow> flt \<Rightarrow> flt \<Rightarrow> flt list \<Rightarrow> flt list" where
  "rotate_pair i half c s v =
     (let a = v ! i; b = v ! (i + half)
      in v[i := fsub (fmul a c) (fmul b s), i + half := fadd (fmul a s) (fmul b c)])"

definition vg_cpu_rope_apply :: "flt list \<Rightarrow> u32 \<Rightarrow> u32 \<Rightarrow> flt list \<Rightarrow> flt list \<Rightarrow> flt list" where
  "vg_cpu_rope_apply v head_dim n_rot cos_tab sin_tab =
     foldl (\<lambda>v i. rotate_pair i (unat (head_dim div 2)) (cos_tab ! i) (sin_tab ! i) v) v [0..<rope_iters n_rot head_dim]"

definition vg_cpu_rope_apply_all :: "flt list \<Rightarrow> u32 \<Rightarrow> u32 \<Rightarrow> u32 \<Rightarrow> flt list \<Rightarrow> flt list \<Rightarrow> flt list" where
  "vg_cpu_rope_apply_all v n_head head_dim n_rot cos_tab sin_tab =
     foldl (\<lambda>v h. take (h * unat head_dim) v @ vg_cpu_rope_apply (drop (h * unat head_dim) v) head_dim n_rot cos_tab sin_tab)
       v [0..<unat n_head]"

text \<open>\<open>k\<close> is \<open>None\<close> when the pointer is NULL or the same as \<^verbatim>\<open>q\<close>.\<close>

definition vg_cpu_rope ::
  "libm \<Rightarrow> flt list \<Rightarrow> flt list option \<Rightarrow> u32 \<Rightarrow> u32 \<Rightarrow> flt \<Rightarrow> flt \<Rightarrow> int \<Rightarrow> flt list \<times> flt list option" where
  "vg_cpu_rope m q k head_dim n_rot freq_scale theta_base pos =
     foldl (\<lambda>(q, k) i.
       let freq = rope_freq m head_dim freq_scale theta_base pos i; c = m_cosf m freq; s = m_sinf m freq;
           half = unat (head_dim div 2)
       in (rotate_pair i half c s q, map_option (rotate_pair i half c s) k)) (q, k) [0..<rope_iters n_rot head_dim]"

definition vg_cpu_softmax :: "libm \<Rightarrow> flt list \<Rightarrow> u32 \<Rightarrow> flt list" where
  "vg_cpu_softmax m x dm =
     (if dm = 0 then x
      else (let n = unat dm;
                mx = foldl (\<lambda>mx i. if f_less mx (x ! i) then x ! i else mx) (x ! 0) [1..<n];
                (x1, s) = foldl (\<lambda>(x, s) i. let e = m_expf m (fsub (x ! i) mx) in (x[i := e], fadd s e)) (x, f_zero) [0..<n]
            in if f_less f_zero s then (let inv = fdiv f_one s in write_all n (\<lambda>i. fmul (x1 ! i) inv) x1) else x1))"

definition vg_cpu_swiglu :: "libm \<Rightarrow> flt list \<Rightarrow> flt list \<Rightarrow> flt list \<Rightarrow> u32 \<Rightarrow> flt list" where
  "vg_cpu_swiglu m out gate up dm =
     write_all (unat dm) (\<lambda>i. fmul (fdiv (gate ! i) (fadd f_one (m_expf m (f_neg (gate ! i))))) (up ! i)) out"

text \<open>The constants \<^verbatim>\<open>0.7978845608f\<close> and \<^verbatim>\<open>0.044715f\<close>: decimal literals rounded to \<^verbatim>\<open>float\<close>.\<close>

definition gelu_c :: flt where
  "gelu_c = fdiv (FFin False 7978845608 0) (FFin False 10000000000 0)"

definition gelu_a :: flt where
  "gelu_a = fdiv (FFin False 44715 0) (FFin False 1000000 0)"

definition vg_cpu_gelu :: "libm \<Rightarrow> flt list \<Rightarrow> u32 \<Rightarrow> flt list" where
  "vg_cpu_gelu m x dm =
     write_all (unat dm)
       (\<lambda>i. let v = x ! i
            in fmul (fmul (FFin False 1 (- 1)) v)
                 (fadd f_one (m_tanhf m (fmul gelu_c (fadd v (fmul (fmul (fmul gelu_a v) v) v)))))) x"

definition vg_cpu_add :: "flt list \<Rightarrow> flt list \<Rightarrow> flt list \<Rightarrow> u32 \<Rightarrow> flt list" where
  "vg_cpu_add out a b dm = write_all (unat dm) (\<lambda>i. fadd (a ! i) (b ! i)) out"

definition vg_cpu_scale :: "flt list \<Rightarrow> u32 \<Rightarrow> flt \<Rightarrow> flt list" where
  "vg_cpu_scale x dm scale = write_all (unat dm) (\<lambda>i. fmul (x ! i) scale) x"

definition vg_cpu_dot :: "flt list \<Rightarrow> flt list \<Rightarrow> u32 \<Rightarrow> flt" where
  "vg_cpu_dot a b dm = foldl (\<lambda>acc i. mac acc (a ! i) (b ! i)) f_zero [0..<unat dm]"

end
