(* ===== verification/Engine.thy ===== *)
theory Engine
  imports Quant CpuOps
begin

text \<open>
  The native engine of \<^verbatim>\<open>src/native_engine.c\<close> over an opened model: the repetition penalty, the sampler, and the
  decoding loop of \<^verbatim>\<open>vg_generate\<close>. The model graph is a parameter, the function that decodes a token at a position; the
  tokenizer is read through the tokens of the prompt and its accessors. Opening and closing the model and the
  adapter are in \<open>Generate\<close>.
\<close>

section \<open>Configuration\<close>

record vg_generateconfig =
  gc_n_predict :: int
  gc_n_ctx :: int
  gc_seed :: u32
  gc_top_k :: int
  gc_top_p :: flt
  gc_temperature :: flt
  gc_repeat_penalty :: flt
  gc_repeat_last_n :: int
  gc_use_mmap :: int
  gc_n_threads :: int
  gc_use_gpu :: int
  gc_ngl_layers :: int
  gc_lora_path :: "bytes option"
  gc_lora_scale :: flt

record vg_modelconfig =
  mc_n_vocab :: u32
  mc_n_embd :: u32
  mc_n_head :: u32
  mc_n_head_kv :: u32
  mc_n_layer :: u32
  mc_n_ff :: u32
  mc_head_dim :: u32
  mc_n_rot :: u32
  mc_rms_eps :: flt
  mc_freq_base :: flt
  mc_bos_id :: int
  mc_eos_id :: int
  mc_has_biases :: bool
  mc_has_gate_up :: bool
  mc_has_sub_norm :: bool
  mc_has_post_norm :: bool
  mc_has_shared_expert :: bool
  mc_attn_logit_softcap :: flt
  mc_logit_softcap :: flt
  mc_is_swa :: bool
  mc_n_ctx :: u32
  mc_n_expert :: u32
  mc_n_expert_used :: u32
  mc_sliding_window :: u32

text \<open>The configuration of a zeroed graph.\<close>

definition zero_config :: vg_modelconfig where
  "zero_config = \<lparr>mc_n_vocab = 0, mc_n_embd = 0, mc_n_head = 0, mc_n_head_kv = 0, mc_n_layer = 0, mc_n_ff = 0, mc_head_dim = 0,
     mc_n_rot = 0, mc_rms_eps = f_zero, mc_freq_base = f_zero, mc_bos_id = 0, mc_eos_id = 0, mc_has_biases = False,
     mc_has_gate_up = False, mc_has_sub_norm = False, mc_has_post_norm = False, mc_has_shared_expert = False,
     mc_attn_logit_softcap = f_zero, mc_logit_softcap = f_zero, mc_is_swa = False, mc_n_ctx = 0, mc_n_expert = 0,
     mc_n_expert_used = 0, mc_sliding_window = 0\<rparr>"

section \<open>The repetition penalty\<close>

definition penalize :: "u32 \<Rightarrow> flt \<Rightarrow> flt list \<Rightarrow> int \<Rightarrow> flt list" where
  "penalize n_vocab penalty logits t =
     (if t < 0 \<or> t \<ge> int (unat n_vocab) then logits else logits[nat t := fsub (logits ! nat t) penalty])"

definition vg_apply_repetition_penalty :: "flt list option \<Rightarrow> u32 \<Rightarrow> int list option \<Rightarrow> flt \<Rightarrow> flt list option" where
  "vg_apply_repetition_penalty logits n_vocab history penalty =
     (case (logits, history) of
        (Some lg, Some h) \<Rightarrow> if h = [] \<or> \<not> f_less f_one penalty then logits else Some (foldl (penalize n_vocab penalty) lg h)
      | _ \<Rightarrow> logits)"

section \<open>Sampling\<close>

text \<open>The loop keeps the best index and its value.\<close>

definition argmax_logits :: "flt list \<Rightarrow> u32 \<Rightarrow> nat" where
  "argmax_logits logits n_vocab =
     fst (foldl (\<lambda>(best, bv) i. if f_less bv (logits ! i) then (i, logits ! i) else (best, bv)) (0, logits ! 0) [1..<unat n_vocab])"

record vg_cand =
  cd_p :: flt
  cd_id :: nat

definition cand_desc :: "vg_cand \<Rightarrow> vg_cand \<Rightarrow> int" where
  "cand_desc x y =
     (if f_less (cd_p x) (cd_p y) then 1
      else if f_less (cd_p y) (cd_p x) then -1
      else if cd_id x < cd_id y then -1 else if cd_id y < cd_id x then 1 else 0)"

text \<open>
  \<^verbatim>\<open>qsort\<close> leaves a permutation that is in order; for probabilities that are numbers and distinct ids
  \<open>cand_desc\<close> is a total order, so there is only one, and insertion sort computes it.
\<close>

fun cand_insert :: "vg_cand \<Rightarrow> vg_cand list \<Rightarrow> vg_cand list" where
  "cand_insert c [] = [c]"
| "cand_insert c (d # ds) = (if cand_desc c d \<le> 0 then c # d # ds else d # cand_insert c ds)"

definition cand_sort :: "vg_cand list \<Rightarrow> vg_cand list" where
  "cand_sort cs = foldr cand_insert cs []"

text \<open>\<^verbatim>\<open>x <= y\<close> on floats.\<close>

definition f_leq :: "flt \<Rightarrow> flt \<Rightarrow> bool" where
  "f_leq x y \<longleftrightarrow> x \<noteq> FNan \<and> y \<noteq> FNan \<and> \<not> f_less y x"

abbreviation dadd :: "flt \<Rightarrow> flt \<Rightarrow> flt" where
  "dadd \<equiv> f_add binary64"

abbreviation dbl :: "flt \<Rightarrow> flt" where
  "dbl \<equiv> f_convert binary64"

text \<open>How many candidates the nucleus takes: \<open>cum\<close> is the mass so far.\<close>

fun nucleus :: "flt \<Rightarrow> flt \<Rightarrow> vg_cand list \<Rightarrow> nat" where
  "nucleus target cum [] = 0"
| "nucleus target cum (c # cs) =
     (let cum' = dadd cum (dbl (cd_p c)) in if f_leq target cum' then 1 else Suc (nucleus target cum' cs))"

text \<open>The draw: the first candidate at which the normalised mass reaches \<open>r\<close>.\<close>

fun draw :: "flt \<Rightarrow> flt \<Rightarrow> flt \<Rightarrow> vg_cand list \<Rightarrow> vg_cand option" where
  "draw nrm r acc [] = None"
| "draw nrm r acc (c # cs) =
     (let acc' = dadd acc (f_div binary64 (dbl (cd_p c)) nrm) in if f_leq r acc' then Some c else draw nrm r acc' cs)"

definition next_rand :: "u32 \<Rightarrow> u32" where
  "next_rand state = state * 1103515245 + 12345"

definition keep_count :: "u32 \<Rightarrow> int \<Rightarrow> flt \<Rightarrow> flt \<Rightarrow> vg_cand list \<Rightarrow> nat" where
  "keep_count n_vocab top_k top_p mass cs =
     (let keep = (if top_k > 0 \<and> (word_of_int top_k :: u32) < n_vocab then nat top_k else unat n_vocab)
      in if f_less f_zero top_p \<and> f_less top_p f_one then
           (let nc = nucleus (f_mul binary64 (dbl top_p) mass) f_zero (take keep cs) in if nc \<noteq> 0 then nc else keep)
         else keep)"

definition max_logit :: "flt list \<Rightarrow> u32 \<Rightarrow> flt" where
  "max_logit logits n_vocab = foldl (\<lambda>mx i. if f_less mx (logits ! i) then logits ! i else mx) (logits ! 0) [1..<unat n_vocab]"

text \<open>The next token and the new generator state; \<open>has_cand\<close> is false when the scratch buffer is NULL.\<close>

definition sample_next_token ::
  "libm \<Rightarrow> flt list \<Rightarrow> u32 \<Rightarrow> flt \<Rightarrow> int \<Rightarrow> flt \<Rightarrow> u32 \<Rightarrow> bool \<Rightarrow> nat \<times> u32" where
  "sample_next_token m logits n_vocab temperature top_k top_p rng0 has_cand =
     (let rng = next_rand rng0
      in if f_leq temperature f_zero \<or> top_k = 1 \<or> \<not> has_cand then (argmax_logits logits n_vocab, rng)
         else (let mx = max_logit logits n_vocab;
                   cs0 = map (\<lambda>i. \<lparr>cd_p = m_expf m (fdiv (fsub (logits ! i) mx) temperature), cd_id = i\<rparr>) [0..<unat n_vocab];
                   mass = foldl (\<lambda>s c. dadd s (dbl (cd_p c))) f_zero cs0
               in if \<not> f_less f_zero mass \<or> \<not> f_isfinite mass then (argmax_logits logits n_vocab, rng)
                  else (let cs = cand_sort cs0;
                            kept = take (keep_count n_vocab top_k top_p mass cs) cs;
                            nrm = foldl (\<lambda>s c. dadd s (dbl (cd_p c))) f_zero kept
                        in if \<not> f_less f_zero nrm then (argmax_logits logits n_vocab, rng)
                           else (let r = f_div binary64 (f_of_int binary64 (uint (drop_bit 8 rng))) (FFin False 16777216 0)
                                 in case draw nrm r f_zero kept of
                                      Some c \<Rightarrow> (cd_id c, rng)
                                    | None \<Rightarrow> (cd_id (hd cs), rng)))))"

section \<open>Generation\<close>

text \<open>
  The graph is its decoding function: a token and a position to a status, the logits and the graph's new state. The
  engine reads the tokenizer through the tokens of the prompt and the four answers below.
\<close>

type_synonym 'g decoder = "int \<Rightarrow> int \<Rightarrow> 'g \<Rightarrow> vg_status \<times> flt list \<times> 'g"

record tok_view =
  tv_prompt :: "int list"
  tv_add_bos :: bool
  tv_bos_id :: int
  tv_eos_id :: int
  tv_decode :: "int \<Rightarrow> bytes"

definition gen_n_ctx :: "vg_generateconfig option \<Rightarrow> vg_modelconfig \<Rightarrow> int" where
  "gen_n_ctx config mc =
     (let n0 = (case config of Some c \<Rightarrow> gc_n_ctx c | None \<Rightarrow> sint (mc_n_ctx mc));
          n1 = (if n0 \<le> 0 then sint (mc_n_ctx mc) else n0)
      in if (word_of_int n1 :: u32) > mc_n_ctx mc then sint (mc_n_ctx mc) else n1)"

definition gen_prompt :: "int \<Rightarrow> int list \<Rightarrow> int list" where
  "gen_prompt n_ctx toks =
     (let c = word_of_int n_ctx :: u64
      in if of_nat (length toks) + 2 > c then (if c > 2 then take (unat (c - 2)) toks else []) else toks)"

definition gen_bos :: "tok_view \<Rightarrow> vg_modelconfig \<Rightarrow> int list \<Rightarrow> int" where
  "gen_bos tv mc prompt =
     (let b0 = (if tv_add_bos tv then tv_bos_id tv else -1);
          b1 = (if b0 < 0 then mc_bos_id mc else b0);
          b2 = (if b1 < 0 \<or> (word_of_int b1 :: u32) \<ge> mc_n_vocab mc then -1 else b1)
      in if prompt \<noteq> [] \<and> hd prompt = b2 then -1 else b2)"

definition gen_eos :: "tok_view \<Rightarrow> vg_modelconfig \<Rightarrow> int" where
  "gen_eos tv mc = (if tv_eos_id tv < 0 then mc_eos_id mc else tv_eos_id tv)"

definition gen_seed :: "vg_generateconfig option \<Rightarrow> u32" where
  "gen_seed config =
     (let s = (case config of Some c \<Rightarrow> gc_seed c | None \<Rightarrow> 42) in if s = 0 \<or> s = 0xffffffff then 42 else s)"

text \<open>The penalty window: \<open>None\<close> when there is none, else the tokens in it; its capacity is the second part.\<close>

definition gen_recent :: "vg_generateconfig option \<Rightarrow> int list \<Rightarrow> int list option \<times> nat" where
  "gen_recent config prompt =
     (let penalty = (case config of Some c \<Rightarrow> gc_repeat_penalty c | None \<Rightarrow> f_one);
          last_n = (case config of Some c \<Rightarrow> nat (max 0 (gc_repeat_last_n c)) | None \<Rightarrow> 0)
      in if last_n > 0 \<and> f_less f_one penalty then (Some (drop (length prompt - last_n) prompt), last_n) else (None, last_n))"

definition push_recent :: "nat \<Rightarrow> int \<Rightarrow> int list \<Rightarrow> int list" where
  "push_recent last_n t recent = (if length recent < last_n then recent @ [t] else drop 1 recent @ [t])"

text \<open>Reading the prompt: one decoding step per token while the context has room.\<close>

fun prefill :: "'g decoder \<Rightarrow> int \<Rightarrow> int list \<Rightarrow> vg_status \<Rightarrow> int \<Rightarrow> flt list \<Rightarrow> 'g \<Rightarrow> vg_status \<times> int \<times> flt list \<times> 'g" where
  "prefill dec n_ctx [] st pos lg g = (st, pos, lg, g)"
| "prefill dec n_ctx (t # ts) st pos lg g =
     (if st = VG_OK \<and> pos < n_ctx then (case dec t pos g of (st', lg', g') \<Rightarrow> prefill dec n_ctx ts st' (pos + 1) lg' g')
      else (st, pos, lg, g))"

text \<open>What stays fixed over the loop.\<close>

record 'u gen_env =
  ge_libm :: libm
  ge_n_vocab :: u32
  ge_n_ctx :: int
  ge_eos :: int
  ge_temperature :: flt
  ge_top_k :: int
  ge_top_p :: flt
  ge_penalty :: flt
  ge_last_n :: nat
  ge_decode :: "int \<Rightarrow> bytes"
  ge_callback :: "(bytes \<Rightarrow> nat \<Rightarrow> int \<Rightarrow> 'u \<Rightarrow> bool \<times> 'u) option"

text \<open>
  The generation loop, by the number of tokens still allowed. The callback gets the 256 byte buffer, which
  holds the first 255 bytes of the piece, and the length of the whole piece; it answers whether to go on.
\<close>

fun gen_loop ::
  "'u gen_env \<Rightarrow> 'g decoder \<Rightarrow> nat \<Rightarrow> vg_status \<Rightarrow> int \<Rightarrow> flt list \<Rightarrow> u32 \<Rightarrow> int list option \<Rightarrow> 'g \<Rightarrow> 'u \<Rightarrow> vg_status \<times> 'g \<times> 'u" where
  "gen_loop ge dec 0 st pos lg rng recent g u = (st, g, u)"
| "gen_loop ge dec (Suc k) st pos lg rng recent g u =
     (if st \<noteq> VG_OK \<or> \<not> pos < ge_n_ctx ge then (st, g, u)
      else (let lg1 = the (vg_apply_repetition_penalty (Some lg) (ge_n_vocab ge) recent (ge_penalty ge));
                (nx, rng1) = sample_next_token (ge_libm ge) lg1 (ge_n_vocab ge) (ge_temperature ge) (ge_top_k ge) (ge_top_p ge) rng True;
                next_tok = int nx
            in if next_tok = ge_eos ge then (st, g, u)
               else (let piece = ge_decode ge next_tok;
                         (go, u1) = (case ge_callback ge of
                            Some cb \<Rightarrow> if piece \<noteq> [] then cb (take 255 piece) (length piece) next_tok u else (True, u)
                          | None \<Rightarrow> (True, u))
                     in if \<not> go then (st, g, u1)
                        else (case dec next_tok pos g of
                                (st', lg', g') \<Rightarrow>
                                  gen_loop ge dec k st' (pos + 1) lg' rng1 (map_option (push_recent (ge_last_n ge) next_tok) recent) g' u1))))"

text \<open>
  \<^verbatim>\<open>vg_generate\<close> once the model, its graph and its tokenizer are loaded. \<open>lg0\<close> is what the uninitialised logits
  buffer holds.
\<close>

definition generate ::
  "libm \<Rightarrow> vg_generateconfig option \<Rightarrow> vg_modelconfig \<Rightarrow> tok_view \<Rightarrow> 'g decoder \<Rightarrow> (bytes \<Rightarrow> nat \<Rightarrow> int \<Rightarrow> 'u \<Rightarrow> bool \<times> 'u) option
     \<Rightarrow> flt list \<Rightarrow> 'g \<Rightarrow> 'u \<Rightarrow> vg_status \<times> 'g \<times> 'u" where
  "generate m config mc tv dec callback lg0 g u =
     (let n_predict = (case config of Some c \<Rightarrow> gc_n_predict c | None \<Rightarrow> 128);
          n_ctx = gen_n_ctx config mc;
          prompt = gen_prompt n_ctx (tv_prompt tv);
          bos = gen_bos tv mc prompt;
          (recent, last_n) = gen_recent config prompt;
          ge = \<lparr>ge_libm = m, ge_n_vocab = mc_n_vocab mc, ge_n_ctx = n_ctx, ge_eos = gen_eos tv mc,
                ge_temperature = (case config of Some c \<Rightarrow> gc_temperature c | None \<Rightarrow> f_zero),
                ge_top_k = (case config of Some c \<Rightarrow> gc_top_k c | None \<Rightarrow> 1),
                ge_top_p = (case config of Some c \<Rightarrow> gc_top_p c | None \<Rightarrow> f_one),
                ge_penalty = (case config of Some c \<Rightarrow> gc_repeat_penalty c | None \<Rightarrow> f_one),
                ge_last_n = last_n, ge_decode = tv_decode tv, ge_callback = callback\<rparr>;
          (st0, pos0, lg1, g1) = (if bos \<ge> 0 then (case dec bos 0 g of (st, lg, g') \<Rightarrow> (st, 1, lg, g')) else (VG_OK, 0, lg0, g));
          (st1, pos1, lg2, g2) = prefill dec n_ctx prompt st0 pos0 lg1 g1
      in gen_loop ge dec (nat n_predict) st1 pos1 lg2 (gen_seed config) recent g2 u)"

end
