(* ===== verification/CText.thy ===== *)
theory CText
  imports SoftFloat
begin

text \<open>
  The text conversions of the C library that the sources use: \<^verbatim>\<open>snprintf\<close> with \<^verbatim>\<open>%llu\<close>, \<^verbatim>\<open>%lld\<close> and
  \<^verbatim>\<open>%.17g\<close>, and \<^verbatim>\<open>strtoull\<close> and \<^verbatim>\<open>strtol\<close> in base ten with their end pointer, skipped white space
  and saturation. Texts are byte lists without NUL.
\<close>

section \<open>Printing integers\<close>

definition digit :: "nat \<Rightarrow> u8" where
  "digit d = of_nat (48 + d)"

fun dec :: "nat \<Rightarrow> bytes" where
  "dec n = (if n < 10 then [digit n] else dec (n div 10) @ [digit (n mod 10)])"

declare dec.simps [simp del]

definition fmt_u64 :: "u64 \<Rightarrow> bytes" where
  "fmt_u64 v = dec (unat v)"

definition dec_int :: "int \<Rightarrow> bytes" where
  "dec_int i = (if i < 0 then 45 # dec (nat (- i)) else dec (nat i))"

definition fmt_i64 :: "int \<Rightarrow> bytes" where
  "fmt_i64 v = dec_int v"

section \<open>Printing \<^verbatim>\<open>%.17g\<close>\<close>

fun dec_len :: "nat \<Rightarrow> nat" where
  "dec_len n = (if n < 10 then 1 else Suc (dec_len (n div 10)))"

declare dec_len.simps [simp del]

text \<open>The decimal exponent \<open>X\<close> of \<open>N / D\<close>: the largest with \<open>10^X \<le> N / D\<close>.\<close>

definition dec_exp :: "nat \<Rightarrow> nat \<Rightarrow> int" where
  "dec_exp N D =
     (if D \<le> N then int (dec_len (N div D)) - 1
      else (let q = dec_len (D div N) in if D \<le> N * 10 ^ (q - 1) then - int (q - 1) else - int q))"

definition round_div :: "nat \<Rightarrow> nat \<Rightarrow> nat" where
  "round_div a b =
     (let q = a div b; r = a mod b in if 2 * r < b \<or> 2 * r = b \<and> even q then q else q + 1)"

text \<open>Seventeen significant digits, correctly rounded, with the exponent of the first.\<close>

definition sig17 :: "nat \<Rightarrow> nat \<Rightarrow> nat \<times> int" where
  "sig17 N D =
     (let X = dec_exp N D;
          d = (if X \<le> 16 then round_div (N * 10 ^ nat (16 - X)) D else round_div N (D * 10 ^ nat (X - 16)))
      in if d = 10 ^ 17 then (10 ^ 16, X + 1) else (d, X))"

definition strip_zeros :: "bytes \<Rightarrow> bytes" where
  "strip_zeros ds = rev (dropWhile (\<lambda>b. b = 48) (rev ds))"

definition with_point :: "bytes \<Rightarrow> bytes \<Rightarrow> bytes" where
  "with_point ip fp = (let fp' = strip_zeros fp in if fp' = [] then ip else ip @ 46 # fp')"

definition fmt_g17_pos :: "nat \<Rightarrow> int \<Rightarrow> bytes" where
  "fmt_g17_pos m e =
     (if m = 0 then [48]
      else (case sig17 (if 0 \<le> e then m * 2 ^ nat e else m) (if 0 \<le> e then 1 else 2 ^ nat (- e)) of
        (d, X) \<Rightarrow>
          (let ds = dec d
           in if X < -4 \<or> 17 \<le> X then
                with_point (take 1 ds) (drop 1 ds) @ 101 # (if X < 0 then 45 else 43)
                  # (if \<bar>X\<bar> < 10 then 48 # dec (nat \<bar>X\<bar>) else dec (nat \<bar>X\<bar>))
              else if 0 \<le> X then with_point (take (nat X + 1) ds) (drop (nat X + 1) ds)
              else with_point [48] (replicate (nat (- X) - 1) 48 @ ds))))"

text \<open>\<open>neg\<close> is the sign bit, which a NaN shows too.\<close>

fun fmt_f64 :: "bool \<Rightarrow> flt \<Rightarrow> bytes" where
  "fmt_f64 neg FNan = (if neg then cstr ''-nan'' else cstr ''nan'')"
| "fmt_f64 neg (FInf s) = (if s then cstr ''-inf'' else cstr ''inf'')"
| "fmt_f64 neg (FFin s m e) = (if s then [45] else []) @ fmt_g17_pos m e"

section \<open>Reading integers\<close>

definition is_space :: "u8 \<Rightarrow> bool" where
  "is_space c \<longleftrightarrow> c = 32 \<or> (9 \<le> c \<and> c \<le> 13)"

definition is_digit :: "u8 \<Rightarrow> bool" where
  "is_digit c \<longleftrightarrow> 48 \<le> c \<and> c \<le> 57"

definition digits_val :: "bytes \<Rightarrow> nat" where
  "digits_val ds = foldl (\<lambda>a c. 10 * a + (unat c - 48)) 0 ds"

text \<open>Sign, magnitude and rest; \<open>None\<close> when there is no digit.\<close>

definition scan_int :: "bytes \<Rightarrow> (bool \<times> nat \<times> bytes) option" where
  "scan_int s =
     (let t = dropWhile is_space s;
          neg = (t \<noteq> [] \<and> hd t = 45);
          u = (if t \<noteq> [] \<and> (hd t = 45 \<or> hd t = 43) then tl t else t);
          ds = takeWhile is_digit u
      in if ds = [] then None else Some (neg, digits_val ds, dropWhile is_digit u))"

definition strtoull :: "bytes \<Rightarrow> u64 \<times> bytes" where
  "strtoull s =
     (case scan_int s of
        None \<Rightarrow> (0, s)
      | Some (neg, n, rest) \<Rightarrow>
          ((if 2 ^ 64 \<le> n then UINT64_MAX else if neg then - of_nat n else of_nat n), rest))"

definition strtol :: "bytes \<Rightarrow> int \<times> bytes" where
  "strtol s =
     (case scan_int s of
        None \<Rightarrow> (0, s)
      | Some (neg, n, rest) \<Rightarrow>
          ((if neg then max (- (2 ^ 63)) (- int n) else min (2 ^ 63 - 1) (int n)), rest))"

section \<open>Facts\<close>

lemma unat_digit: "d < 10 \<Longrightarrow> unat (digit d) = 48 + d"
  using take_bit_nat_eq_self [of "48 + d" 8] by (simp only: digit_def unsigned_of_nat) simp

lemma digit_is_digit: "d < 10 \<Longrightarrow> is_digit (digit d)"
  by (simp add: is_digit_def word_le_nat_alt unat_digit)

lemma digit_not: "d < 10 \<Longrightarrow> \<not> is_space (digit d)" "d < 10 \<Longrightarrow> digit d \<noteq> 45" "d < 10 \<Longrightarrow> digit d \<noteq> 43"
  "d < 10 \<Longrightarrow> digit d \<noteq> 0"
  by (simp_all add: is_space_def word_le_nat_alt unat_digit word_unat_eq_iff)

lemma set_dec: "c \<in> set (dec n) \<Longrightarrow> \<exists>d < 10. c = digit d"
proof (induction n rule: dec.induct)
  case (1 n)
  show ?case
  proof (cases "n < 10")
    case True
    then show ?thesis using 1 by (auto simp: dec.simps [of n])
  next
    case False
    then consider "c \<in> set (dec (n div 10))" | "c = digit (n mod 10)"
      using 1(2) by (auto simp: dec.simps [of n])
    then show ?thesis
    proof cases
      case 2
      then show ?thesis by (intro exI [of _ "n mod 10"]) simp
    qed (use 1(1) False in blast)
  qed
qed

lemma dec_nonempty [simp]: "dec n \<noteq> []"
  by (simp add: dec.simps [of n])

lemma digits_val_dec: "digits_val (dec n) = n"
proof (induction n rule: dec.induct)
  case (1 n)
  show ?case
  proof (cases "n < 10")
    case True
    then show ?thesis by (simp add: dec.simps [of n] digits_val_def unat_digit)
  next
    case False
    with 1 have "digits_val (dec (n div 10)) = n div 10" by simp
    with False show ?thesis by (simp add: dec.simps [of n] digits_val_def unat_digit)
  qed
qed

lemma takeWhile_digits:
  assumes "rest = [] \<or> \<not> is_digit (hd rest)"
  shows "takeWhile is_digit (dec n @ rest) = dec n" "dropWhile is_digit (dec n @ rest) = rest"
proof -
  have d: "\<forall>c \<in> set (dec n). is_digit c" using set_dec digit_is_digit by blast
  have r: "takeWhile is_digit rest = []" "dropWhile is_digit rest = rest"
    using assms by (cases rest; simp)+
  show "takeWhile is_digit (dec n @ rest) = dec n" "dropWhile is_digit (dec n @ rest) = rest"
    using d r by (simp_all add: takeWhile_append2 dropWhile_append2)
qed

lemma scan_int_dec:
  assumes "rest = [] \<or> \<not> is_digit (hd rest)"
  shows "scan_int (dec n @ rest) = Some (False, n, rest)"
proof -
  have "hd (dec n) \<in> set (dec n)" by simp
  then obtain d where d: "d < 10" "hd (dec n) = digit d" using set_dec by blast
  then have h: "hd (dec n @ rest) = digit d" "dec n @ rest \<noteq> []" by simp_all
  have "dropWhile is_space (dec n @ rest) = dec n @ rest"
    using h digit_not(1) [OF d(1)] by (cases "dec n @ rest") simp_all
  then show ?thesis
    using h digit_not [OF d(1)] takeWhile_digits [OF assms, of n]
    by (simp add: scan_int_def Let_def digits_val_dec)
qed

lemma strtoull_dec:
  "n < 2 ^ 64 \<Longrightarrow> rest = [] \<or> \<not> is_digit (hd rest) \<Longrightarrow> strtoull (dec n @ rest) = (of_nat n, rest)"
  by (simp add: strtoull_def scan_int_dec)

lemma strtol_dec:
  "n < 2 ^ 63 \<Longrightarrow> rest = [] \<or> \<not> is_digit (hd rest) \<Longrightarrow> strtol (dec n @ rest) = (int n, rest)"
  by (simp add: strtol_def scan_int_dec)

end
