(* ===== verification/Probing.thy ===== *)
theory Probing
  imports Prelude
begin

text \<open>
  Open addressing with linear probing, which the engine uses twice: the name tables of the
  GGUF reader (\<^verbatim>\<open>src/gguf.c\<close>) and the vocabulary and merge indexes of the tokenizer
  (\<^verbatim>\<open>src/tokenizer.c\<close>). \<open>probe\<close> is the loop both are built on. The locale \<open>probing\<close> proves what a
  lookup returns after an insertion for any kind of cell; the locale \<open>key_index\<close> is the contract
  of a first-come-first-served index, from which a table filled from a list of keys is shown to
  find the first position of every key.
\<close>

section \<open>The probe loop\<close>

text \<open>Slots are visited from \<open>i\<close> on, wrapping at the end, until \<open>stop\<close> holds; at most \<open>n\<close> are visited.\<close>

fun probe :: "('s \<Rightarrow> bool) \<Rightarrow> 's list \<Rightarrow> nat \<Rightarrow> nat \<Rightarrow> nat option" where
  "probe stop t i 0 = None"
| "probe stop t i (Suc n) = (if stop (t ! i) then Some i else probe stop t ((i + 1) mod length t) n)"

lemma probe_Some:
  assumes "probe stop t i n = Some j" and "i < length t"
  shows "\<exists>d < n. j = (i + d) mod length t \<and> stop (t ! j) \<and> (\<forall>e < d. \<not> stop (t ! ((i + e) mod length t)))"
  using assms
proof (induction n arbitrary: i)
  case (Suc n)
  show ?case
  proof (cases "stop (t ! i)")
    case True
    then show ?thesis using Suc.prems by (intro exI [of _ 0]) auto
  next
    case False
    let ?i = "(i + 1) mod length t"
    have "0 < length t" using Suc.prems(2) by (rule order.strict_trans1 [OF le0])
    then have "probe stop t ?i n = Some j" "?i < length t" using Suc.prems False by simp_all
    then obtain d where d: "d < n" "j = (?i + d) mod length t" "stop (t ! j)"
      "\<forall>e < d. \<not> stop (t ! ((?i + e) mod length t))"
      using Suc.IH by blast
    have sh: "(?i + e) mod length t = (i + Suc e) mod length t" for e
      by (simp add: mod_simps)
    have "\<not> stop (t ! ((i + e) mod length t))" if "e < Suc d" for e
    proof (cases e)
      case (Suc k)
      with that d(4) have "\<not> stop (t ! ((?i + k) mod length t))" by simp
      then show ?thesis unfolding sh Suc .
    qed (use False Suc.prems(2) in simp)
    moreover have "j = (i + Suc d) mod length t" unfolding d(2) sh ..
    ultimately show ?thesis using d(1,3) by (intro exI [of _ "Suc d"]) blast
  qed
qed simp

lemma probe_None:
  assumes "probe stop t i n = None" and "i < length t" and "e < n"
  shows "\<not> stop (t ! ((i + e) mod length t))"
  using assms
proof (induction n arbitrary: i e)
  case (Suc n)
  then have s: "\<not> stop (t ! i)" "probe stop t ((i + 1) mod length t) n = None"
    by (auto split: if_splits)
  show ?case
  proof (cases e)
    case 0
    with s Suc.prems show ?thesis by simp
  next
    case (Suc k)
    have "\<not> stop (t ! (((i + 1) mod length t + k) mod length t))"
      using Suc.prems Suc s by (intro Suc.IH) (auto intro: mod_less_divisor simp del: mod_less_divisor)
    with Suc show ?thesis by (simp add: mod_simps)
  qed
qed simp

text \<open>A walk of the whole table reaches every slot.\<close>

lemma walk_reaches:
  assumes "i < n" and "j < n"
  shows "\<exists>e < n. (i + e) mod n = (j :: nat)"
proof (cases "i \<le> j")
  case True
  then show ?thesis using assms by (intro exI [of _ "j - i"]) auto
next
  case False
  then show ?thesis using assms by (intro exI [of _ "n + j - i"]) auto
qed

lemma probe_total:
  assumes "i < length t" and "j < length t" and "stop (t ! j)"
  shows "\<exists>j'. probe stop t i (length t) = Some j'"
  using walk_reaches [OF assms(1,2)] probe_None [OF _ assms(1)] assms(3)
  by (cases "probe stop t i (length t)") auto

section \<open>Tables\<close>

locale probing =
  fixes occ :: "'s \<Rightarrow> bool" and key :: "'s \<Rightarrow> 'k" and home :: "'k \<Rightarrow> nat"
begin

definition path :: "'s list \<Rightarrow> 'k \<Rightarrow> nat \<Rightarrow> nat" where
  "path t k d = (home k mod length t + d) mod length t"

lemma path_add: "path t k (d + length t) = path t k d"
  by (simp add: path_def flip: add.assoc)

text \<open>Every entry sits on the probe path of its key, with no hole before it.\<close>

definition inv :: "'s list \<Rightarrow> bool" where
  "inv t \<longleftrightarrow> (\<forall>j < length t. occ (t ! j) \<longrightarrow>
     (\<exists>d. j = path t (key (t ! j)) d \<and> (\<forall>e < d. occ (t ! path t (key (t ! j)) e))))"

definition lookup :: "'s list \<Rightarrow> 'k \<Rightarrow> 's option" where
  "lookup t k = (case probe (\<lambda>s. \<not> occ s \<or> key s = k) t (home k mod length t) (length t) of
     Some j \<Rightarrow> if occ (t ! j) then Some (t ! j) else None | None \<Rightarrow> None)"

lemma path_less: "t \<noteq> [] \<Longrightarrow> path t k d < length t"
  by (simp add: path_def)

lemma inv_empty: "(\<And>s. s \<in> set t \<Longrightarrow> \<not> occ s) \<Longrightarrow> inv t"
  by (simp add: inv_def)

lemma lookup_SomeD:
  assumes "lookup t k = Some s" and "t \<noteq> []"
  shows "\<exists>d < length t. t ! path t k d = s \<and> occ s \<and> key s = k
     \<and> (\<forall>e < d. occ (t ! path t k e) \<and> key (t ! path t k e) \<noteq> k)"
proof -
  have h: "home k mod length t < length t" using assms(2) by simp
  obtain j where j: "probe (\<lambda>s. \<not> occ s \<or> key s = k) t (home k mod length t) (length t) = Some j"
    and s: "occ (t ! j)" "t ! j = s"
    using assms(1) by (auto simp: lookup_def split: option.splits if_splits)
  from probe_Some [OF j h] s show ?thesis by (auto simp: path_def)
qed

lemma lookup_SomeI:
  assumes "d < length t" and "occ (t ! path t k d)" and "key (t ! path t k d) = k"
    and before: "\<And>e. e < d \<Longrightarrow> occ (t ! path t k e) \<and> key (t ! path t k e) \<noteq> k"
  shows "lookup t k = Some (t ! path t k d)"
proof -
  have h: "home k mod length t < length t" using assms(1) by (intro mod_less_divisor) auto
  let ?stop = "\<lambda>s. \<not> occ s \<or> key s = k"
  have "path t k d < length t" using assms(1) by (intro path_less) auto
  then obtain j where j: "probe ?stop t (home k mod length t) (length t) = Some j"
    using probe_total [OF h, of "path t k d" ?stop] assms(3) by auto
  from probe_Some [OF j h] obtain d' where d': "d' < length t" "j = path t k d'" "?stop (t ! j)"
    "\<forall>e < d'. \<not> ?stop (t ! path t k e)"
    by (auto simp: path_def)
  have "\<not> d' < d" using before [of d'] d'(2,3) by auto
  moreover have "\<not> d < d'" using d'(4) assms(3) by auto
  ultimately show ?thesis using j d' assms(2) by (simp add: lookup_def)
qed

lemma lookup_None_iff:
  assumes "inv t" and "t \<noteq> []"
  shows "lookup t k = None \<longleftrightarrow> (\<forall>j < length t. occ (t ! j) \<longrightarrow> key (t ! j) \<noteq> k)"
proof
  assume none: "lookup t k = None"
  show "\<forall>j < length t. occ (t ! j) \<longrightarrow> key (t ! j) \<noteq> k"
  proof (intro allI impI notI)
    fix j assume j: "j < length t" "occ (t ! j)" "key (t ! j) = k"
    then obtain d where d: "j = path t k d" "\<forall>e < d. occ (t ! path t k e)"
      using assms(1) unfolding inv_def by blast
    let ?P = "\<lambda>d. occ (t ! path t k d) \<and> key (t ! path t k d) = k"
    define m where "m = (LEAST d. ?P d)"
    have P: "?P d" using d j by simp
    have m: "?P m" "m \<le> d" unfolding m_def by (rule LeastI [of ?P, OF P]) (rule Least_le [of ?P, OF P])
    have bef: "occ (t ! path t k e) \<and> key (t ! path t k e) \<noteq> k" if "e < m" for e
      using that m(2) d(2) not_less_Least [of e ?P] unfolding m_def by auto
    have "m < length t"
    proof (rule ccontr)
      assume "\<not> m < length t"
      then have le: "length t \<le> m" and "0 < length t" using assms(2) by simp_all
      then have "m - length t < m" by linarith
      moreover have "path t k (m - length t) = path t k m"
        using path_add [of t k "m - length t"] le by simp
      ultimately have e: "m - length t < m" "path t k (m - length t) = path t k m" .
      with bef [OF e(1)] m(1) show False by simp
    qed
    with bef m(1) have "lookup t k = Some (t ! path t k m)" by (intro lookup_SomeI) auto
    with none show False by simp
  qed
next
  assume all: "\<forall>j < length t. occ (t ! j) \<longrightarrow> key (t ! j) \<noteq> k"
  show "lookup t k = None"
  proof (cases "lookup t k")
    case (Some s)
    then obtain d where d: "t ! path t k d = s" "occ s" "key s = k"
      using lookup_SomeD [OF _ assms(2)] by blast
    with all path_less [OF assms(2), of k d] show ?thesis by auto
  qed
qed

text \<open>With a hole left, the probe of a lookup ends, at the key or at a hole of its path.\<close>

lemma probe_room:
  assumes "i < length t" and "\<not> occ (t ! i)"
  shows "\<exists>j. probe (\<lambda>s. \<not> occ s \<or> key s = k) t (home k mod length t) (length t) = Some j \<and> j < length t
     \<and> (if occ (t ! j) then key (t ! j) = k \<and> lookup t k = Some (t ! j)
        else lookup t k = None \<and> (\<exists>d. j = path t k d \<and> (\<forall>e < d. occ (t ! path t k e))))"
proof -
  have h: "home k mod length t < length t" using assms(1) by (intro mod_less_divisor) auto
  obtain j where j: "probe (\<lambda>s. \<not> occ s \<or> key s = k) t (home k mod length t) (length t) = Some j"
    using probe_total [OF h assms(1), of "\<lambda>s. \<not> occ s \<or> key s = k"] assms(2) by auto
  from probe_Some [OF j h] obtain d where d: "j = path t k d" "\<not> occ (t ! j) \<or> key (t ! j) = k"
    "\<forall>e < d. occ (t ! path t k e)" by (auto simp: path_def)
  have "j < length t" unfolding d(1) using assms(1) by (intro path_less) auto
  with j d show ?thesis by (auto simp: lookup_def)
qed

text \<open>A cell is put in the first hole of its key's path.\<close>

lemma update:
  assumes inv: "inv t" and j: "j < length t" "\<not> occ (t ! j)" and s: "occ s"
    and d: "j = path t (key s) d" "\<forall>e < d. occ (t ! path t (key s) e)"
  shows "inv (t[j := s])"
    and "lookup (t[j := s]) k = (if k = key s \<and> lookup t k = None then Some s else lookup t k)"
proof -
  let ?t = "t[j := s]"
  have ne: "t \<noteq> []" "?t \<noteq> []" using j by auto
  have p: "path ?t = path t" by (intro ext) (simp add: path_def)
  have keep: "occ (t ! path t k' e) \<Longrightarrow> ?t ! path t k' e = t ! path t k' e" for k' e
    using j(2) by (metis nth_list_update_neq)
  have occ: "occ (t ! path t k' e) \<Longrightarrow> occ (?t ! path t k' e)" for k' e
    by (simp add: keep)
  show inv': "inv ?t"
    unfolding inv_def p length_list_update
  proof (intro allI impI)
    fix i assume i: "i < length t" "occ (?t ! i)"
    show "\<exists>d. i = path t (key (?t ! i)) d \<and> (\<forall>e < d. occ (?t ! path t (key (?t ! i)) e))"
    proof (cases "i = j")
      case True
      with d j occ show ?thesis by (intro exI [of _ d]) simp
    next
      case False
      with i inv obtain d' where "i = path t (key (t ! i)) d'" "\<forall>e < d'. occ (t ! path t (key (t ! i)) e)"
        unfolding inv_def by (metis nth_list_update_neq)
      with False occ show ?thesis by (intro exI [of _ d']) simp
    qed
  qed
  show "lookup ?t k = (if k = key s \<and> lookup t k = None then Some s else lookup t k)"
  proof (cases "lookup t k")
    case (Some s')
    then obtain d' where d': "d' < length t" "t ! path t k d' = s'" "occ s'" "key s' = k"
      "\<forall>e < d'. occ (t ! path t k e) \<and> key (t ! path t k e) \<noteq> k"
      using lookup_SomeD [OF _ ne(1)] by blast
    have "lookup ?t k = Some (?t ! path ?t k d')"
      using d' keep by (intro lookup_SomeI) (simp_all add: p)
    with Some d' keep show ?thesis by (simp add: p)
  next
    case None
    then have no: "\<forall>i < length t. occ (t ! i) \<longrightarrow> key (t ! i) \<noteq> k"
      using lookup_None_iff [OF inv ne(1)] by simp
    show ?thesis
    proof (cases "k = key s")
      case False
      have "\<forall>i < length ?t. occ (?t ! i) \<longrightarrow> key (?t ! i) \<noteq> k"
      proof (intro allI impI)
        fix i assume i: "i < length ?t" "occ (?t ! i)"
        show "key (?t ! i) \<noteq> k"
          using i no False by (cases "i = j") auto
      qed
      with None False lookup_None_iff [OF inv' ne(2)] show ?thesis by simp
    next
      case True
      have "occ (?t ! j) \<and> key (?t ! j) = k" using s True j by simp
      with j have "lookup ?t k \<noteq> None" using lookup_None_iff [OF inv' ne(2)] by auto
      then obtain s' where s': "lookup ?t k = Some s'" by auto
      then obtain d' where "?t ! path t k d' = s'" "occ s'" "key s' = k"
        using lookup_SomeD [OF _ ne(2)] unfolding p by blast
      moreover have "path t k d' < length t" by (rule path_less [OF ne(1)])
      ultimately have "s' = s" using no j by (cases "path t k d' = j") auto
      with s' True None show ?thesis by simp
    qed
  qed
qed

end

section \<open>First-come indexes\<close>

text \<open>The first position of a key in a list.\<close>

definition first_pos :: "'k list \<Rightarrow> 'k \<Rightarrow> nat option" where
  "first_pos ks k = (if k \<in> set ks then Some (LEAST i. i < length ks \<and> ks ! i = k) else None)"

lemma first_pos_None: "first_pos ks k = None \<longleftrightarrow> k \<notin> set ks"
  by (simp add: first_pos_def)

lemma first_pos_SomeD:
  assumes "first_pos ks k = Some i"
  shows "i < length ks \<and> ks ! i = k \<and> (\<forall>j < i. ks ! j \<noteq> k)"
proof -
  let ?P = "\<lambda>i. i < length ks \<and> ks ! i = k"
  have i: "k \<in> set ks" "i = (LEAST i. ?P i)" using assms by (auto simp: first_pos_def split: if_splits)
  then obtain j where "?P j" by (auto simp: in_set_conv_nth)
  then have P: "?P i" unfolding i(2) by (rule LeastI)
  moreover have "ks ! j \<noteq> k" if "j < i" for j
    using that P not_less_Least [of j ?P] unfolding i(2) [symmetric] by auto
  ultimately show ?thesis by blast
qed

lemma first_pos_SomeI:
  assumes "i < length ks" and "ks ! i = k" and "\<And>j. j < i \<Longrightarrow> ks ! j \<noteq> k"
  shows "first_pos ks k = Some i"
proof -
  have "(LEAST i. i < length ks \<and> ks ! i = k) = i"
    using assms by (intro Least_equality) (auto simp: not_less [symmetric])
  moreover have "k \<in> set ks" using assms(1,2) nth_mem by blast
  ultimately show ?thesis by (simp add: first_pos_def)
qed

text \<open>
  The contract the two kinds of name table share: the \<open>n\<close>-th insertion gives a key the value \<open>n\<close>
  unless the key has one, and keeps the invariant \<open>inv n\<close> of a table after \<open>n\<close> insertions.
\<close>

locale key_index =
  fixes inv :: "nat \<Rightarrow> 't \<Rightarrow> bool"
    and bound :: nat
    and fresh :: 't
    and insert :: "'k \<Rightarrow> nat \<Rightarrow> 't \<Rightarrow> 't"
    and find :: "'t \<Rightarrow> 'k \<Rightarrow> nat option"
  assumes inv_fresh: "inv 0 fresh"
    and find_fresh: "find fresh k = None"
    and inv_insert: "inv n t \<Longrightarrow> n < bound \<Longrightarrow> inv (Suc n) (insert k n t)"
    and find_insert: "inv n t \<Longrightarrow> n < bound \<Longrightarrow>
      find (insert k n t) k' = (if k' = k \<and> find t k = None then Some n else find t k')"
begin

definition build :: "'k list \<Rightarrow> 't" where
  "build ks = fold (\<lambda>i t. insert (ks ! i) i t) [0..<length ks] fresh"

lemma build_prefix:
  assumes "n \<le> length ks" and "n \<le> bound"
  shows "inv n (fold (\<lambda>i t. insert (ks ! i) i t) [0..<n] fresh) \<and>
     find (fold (\<lambda>i t. insert (ks ! i) i t) [0..<n] fresh) k = first_pos (take n ks) k"
  using assms
proof (induction n arbitrary: k)
  case 0
  then show ?case by (simp add: inv_fresh find_fresh first_pos_def)
next
  case (Suc n)
  let ?t = "fold (\<lambda>i t. insert (ks ! i) i t) [0..<n] fresh"
  have I: "inv n ?t" and F: "\<And>k. find ?t k = first_pos (take n ks) k" using Suc by auto
  have tk: "take (Suc n) ks = take n ks @ [ks ! n]" using Suc.prems by (simp add: take_Suc_conv_app_nth)
  have "first_pos (take (Suc n) ks) k =
      (if k = ks ! n \<and> first_pos (take n ks) (ks ! n) = None then Some n else first_pos (take n ks) k)"
  proof (cases "first_pos (take n ks) k")
    case (Some i)
    have "first_pos (take (Suc n) ks) k = Some i"
      using first_pos_SomeD [OF Some] unfolding tk by (intro first_pos_SomeI) (auto simp: nth_append)
    with Some show ?thesis by auto
  next
    case None
    then have no: "\<And>j. j < n \<Longrightarrow> ks ! j \<noteq> k"
      using Suc.prems by (auto simp: first_pos_None in_set_conv_nth)
    show ?thesis
    proof (cases "k = ks ! n")
      case True
      have "first_pos (take (Suc n) ks) k = Some n"
        using True no Suc.prems by (intro first_pos_SomeI) auto
      with True None show ?thesis by simp
    next
      case False
      then have "first_pos (take (Suc n) ks) k = None"
        using None unfolding tk by (simp add: first_pos_None)
      with False None show ?thesis by simp
    qed
  qed
  then show ?case
    using inv_insert [OF I, of "ks ! n"] find_insert [OF I, of "ks ! n" k] Suc.prems F by simp
qed

lemma find_build: "length ks \<le> bound \<Longrightarrow> find (build ks) k = first_pos ks k"
  using build_prefix [of "length ks" ks k] by (simp add: build_def)

lemma inv_build: "length ks \<le> bound \<Longrightarrow> inv (length ks) (build ks)"
  using build_prefix [of "length ks" ks] by (simp add: build_def)

end

end
