(* ===== verification/Gguf.thy ===== *)
theory Gguf
  imports Quant CText Probing
begin

text \<open>
  The GGUF reader (\<^verbatim>\<open>include/vg/gguf.h\<close>, \<^verbatim>\<open>src/gguf.c\<close>): the name tables, the parser of the header, of
  the metadata and of the tensor index, opening and closing, and the bounded reads of
  tensor data. A file is the list of its bytes. A reader of the open index consumes a prefix of
  the bytes left; its result is a value, a NULL, or undefined behaviour (a write outside an
  allocated buffer). Allocations are taken to succeed.
\<close>

section \<open>Data\<close>

record vg_gguf_tensor =
  t_name :: bytes
  t_n_dims :: u32
  t_dims :: "u64 list"
  t_ggml_type :: u32
  t_data_offset :: u64
  t_nbytes :: u64

record vg_meta =
  m_key :: bytes
  m_value :: bytes

record vg_hash_entry =
  he_key :: bytes
  he_index :: u32
  he_occupied :: bool

text \<open>A NULL table or array is \<open>None\<close>; the capacity of a table is its length. \<open>g_map\<close> is the mapping.\<close>

record vg_gguf =
  g_file :: bytes
  g_file_size :: u64
  g_data_base :: u64
  g_tensor_count :: u64
  g_tensors :: "vg_gguf_tensor list option"
  g_meta :: "vg_meta list"
  g_tensor_hash :: "vg_hash_entry list option"
  g_meta_hash :: "vg_hash_entry list option"
  g_direct_io :: bool
  g_map :: "bytes option"

definition zero_tensor :: vg_gguf_tensor where
  "zero_tensor = \<lparr>t_name = [], t_n_dims = 0, t_dims = [0, 0, 0, 0], t_ggml_type = 0, t_data_offset = 0, t_nbytes = 0\<rparr>"

definition empty_entry :: vg_hash_entry where
  "empty_entry = \<lparr>he_key = [], he_index = 0, he_occupied = False\<rparr>"

section \<open>Name tables\<close>

definition fnv1a :: "bytes \<Rightarrow> u32" where
  "fnv1a s = foldl (\<lambda>h b. (h XOR ucast b) * 16777619) 2166136261 s"

definition hash_find :: "vg_hash_entry list \<Rightarrow> bytes \<Rightarrow> nat option" where
  "hash_find table key =
     (if table = [] then None
      else probe (\<lambda>e. \<not> he_occupied e \<or> he_key e = key) table (unat (fnv1a key) mod length table) (length table))"

text \<open>The loop that moves the entries to a table twice as large; \<open>None\<close> when \<^verbatim>\<open>e\<close> would be NULL.\<close>

definition rehash_one :: "vg_hash_entry \<Rightarrow> vg_hash_entry list \<Rightarrow> vg_hash_entry list option" where
  "rehash_one e nt =
     (if he_occupied e then (case hash_find nt (he_key e) of None \<Rightarrow> None | Some i \<Rightarrow> Some (nt[i := e])) else Some nt)"

fun rehash :: "vg_hash_entry list \<Rightarrow> vg_hash_entry list \<Rightarrow> vg_hash_entry list option" where
  "rehash [] nt = Some nt"
| "rehash (e # es) nt = (case rehash_one e nt of None \<Rightarrow> None | Some nt' \<Rightarrow> rehash es nt')"

definition hash_grow :: "vg_hash_entry list \<Rightarrow> vg_hash_entry list option" where
  "hash_grow table =
     (let t0 = (if table = [] then replicate 64 empty_entry else table);
          count = length (filter he_occupied t0)
      in if length t0 * 3 div 4 \<le> count then rehash t0 (replicate (length t0 * 2) empty_entry) else Some t0)"

definition hash_insert :: "vg_hash_entry list \<Rightarrow> bytes \<Rightarrow> u32 \<Rightarrow> (bool \<times> vg_hash_entry list) option" where
  "hash_insert table key index =
     (case hash_grow table of
        None \<Rightarrow> None
      | Some t \<Rightarrow>
          (case hash_find t key of
             None \<Rightarrow> None
           | Some i \<Rightarrow>
               (if he_occupied (t ! i) then Some (False, t)
                else Some (True, t[i := \<lparr>he_key = key, he_index = index, he_occupied = True\<rparr>]))))"

section \<open>Reading the index\<close>

datatype 'a rres = RNull | RUndef | ROk 'a bytes

fun rbind :: "'a rres \<Rightarrow> ('a \<Rightarrow> bytes \<Rightarrow> 'b rres) \<Rightarrow> 'b rres" where
  "rbind RNull f = RNull"
| "rbind RUndef f = RUndef"
| "rbind (ROk a bs) f = f a bs"

definition rd :: "nat \<Rightarrow> bytes \<Rightarrow> bytes rres" where
  "rd n bs = (if n \<le> length bs then ROk (take n bs) (drop n bs) else RNull)"

definition rd_u32 :: "bytes \<Rightarrow> u32 rres" where
  "rd_u32 bs = rbind (rd 4 bs) (\<lambda>b. ROk (le_u32 b))"

definition rd_u64 :: "bytes \<Rightarrow> u64 rres" where
  "rd_u64 bs = rbind (rd 8 bs) (\<lambda>b. ROk (le_u64 b))"

definition align_up_u64 :: "u64 \<Rightarrow> u64 \<Rightarrow> u64" where
  "align_up_u64 x a = (if a \<noteq> 0 \<and> x \<le> UINT64_MAX - (a - 1) then (x + a - 1) div a * a else 0)"

text \<open>The string keeps its bytes up to the first NUL, which is all that later code sees of it.\<close>

definition read_string :: "bytes \<Rightarrow> bytes rres" where
  "read_string bs =
     rbind (rd_u64 bs) (\<lambda>n bs. if n > 2 ^ 20 then RNull else rbind (rd (unat n) bs) (\<lambda>s. ROk (c_string s)))"

section \<open>Array metadata as text\<close>

text \<open>The doubling loop \<^verbatim>\<open>while (need >= cap)\<close>; \<open>None\<close> when the capacity would exceed \<^verbatim>\<open>SIZE_MAX\<close>.\<close>

definition grow_cap :: "nat \<Rightarrow> nat \<Rightarrow> nat option" where
  "grow_cap cap need =
     while (\<lambda>c. case c of None \<Rightarrow> False | Some cap \<Rightarrow> cap \<le> need)
       (\<lambda>c. case c of None \<Rightarrow> None | Some cap \<Rightarrow> if (2 ^ 64 - 1) div 2 < cap then None else Some (cap * 2)) (Some cap)"

definition escape_text :: "bytes \<Rightarrow> bytes" where
  "escape_text item = concat (map (\<lambda>c. if c = 34 \<or> c = 92 then [92, c] else [c]) item)"

definition item_text :: "bool \<Rightarrow> bytes \<Rightarrow> bytes" where
  "item_text quoted item = (if quoted then 34 # escape_text item @ [34] else item)"

text \<open>
  One element is appended: the capacity is grown for the unescaped length, then the bytes are
  written; writing past the capacity is undefined. The state is the text and the capacity.
\<close>

definition append_item ::
  "bool \<Rightarrow> bool \<Rightarrow> bytes \<Rightarrow> bytes \<times> nat \<Rightarrow> (bytes \<times> nat) rres" where
  "append_item quoted first item st =
     (case st of (out, cap) \<Rightarrow>
        (let need = length out + (if first then 0 else 1) + (if quoted then 2 else 0) + length item + 1
         in case grow_cap cap need of
              None \<Rightarrow> RNull
            | Some cap' \<Rightarrow>
                (let out' = out @ (if first then [] else [44]) @ item_text quoted item
                 in if length out' \<le> cap' then ROk (out', cap') [] else RUndef)))"

fun read_items ::
  "(bytes \<Rightarrow> bytes rres) \<Rightarrow> bool \<Rightarrow> bool \<Rightarrow> nat \<Rightarrow> bytes \<times> nat \<Rightarrow> bytes \<Rightarrow> (bytes \<times> nat) rres" where
  "read_items rdv quoted first 0 st bs = ROk st bs"
| "read_items rdv quoted first (Suc n) st bs =
     rbind (rdv bs) (\<lambda>item bs'.
       rbind (append_item quoted first item st) (\<lambda>st' _. read_items rdv quoted False n st' bs'))"

definition read_array_text :: "(u32 \<Rightarrow> bytes \<Rightarrow> bytes rres) \<Rightarrow> bytes \<Rightarrow> bytes rres" where
  "read_array_text rdv bs =
     rbind (rd_u32 bs) (\<lambda>type bs. rbind (rd_u64 bs) (\<lambda>n bs.
       if n > 2 ^ 20 then RNull
       else rbind (read_items (rdv type) (type = 8) True (unat n) ([91], 64) bs) (\<lambda>(out, cap) bs.
         if length out + 2 \<le> cap then ROk (out @ [93]) bs else RUndef)))"

section \<open>Metadata values\<close>

definition f32_value_text :: "bytes \<Rightarrow> bytes" where
  "f32_value_text b = fmt_f64 (bit (le_u32 b) 31) (f32_of_bits (le_u32 b))"

definition f64_value_text :: "bytes \<Rightarrow> bytes" where
  "f64_value_text b = fmt_f64 (bit (le_u64 b) 63) (f64_of_bits (le_u64 b))"

text \<open>The first argument bounds the nesting of arrays in arrays.\<close>

fun read_scalar_value :: "nat \<Rightarrow> u32 \<Rightarrow> bytes \<Rightarrow> bytes rres" where
  "read_scalar_value d type bs =
     (if type = 0 then rbind (rd 1 bs) (\<lambda>b. ROk (fmt_u64 (ucast (b ! 0))))
      else if type = 1 then rbind (rd 1 bs) (\<lambda>b. ROk (fmt_i64 (sint (b ! 0))))
      else if type = 2 then rbind (rd 2 bs) (\<lambda>b. ROk (fmt_u64 (ucast (le_u16 b))))
      else if type = 3 then rbind (rd 2 bs) (\<lambda>b. ROk (fmt_i64 (sint (le_u16 b))))
      else if type = 4 then rbind (rd 4 bs) (\<lambda>b. ROk (fmt_u64 (ucast (le_u32 b))))
      else if type = 5 then rbind (rd 4 bs) (\<lambda>b. ROk (fmt_i64 (sint (le_u32 b))))
      else if type = 6 then rbind (rd 4 bs) (\<lambda>b. ROk (f32_value_text b))
      else if type = 7 then rbind (rd 1 bs) (\<lambda>b. ROk (if b ! 0 \<noteq> 0 then cstr ''true'' else cstr ''false''))
      else if type = 8 then read_string bs
      else if type = 10 then rbind (rd 8 bs) (\<lambda>b. ROk (fmt_u64 (le_u64 b)))
      else if type = 11 then rbind (rd 8 bs) (\<lambda>b. ROk (fmt_i64 (sint (le_u64 b))))
      else if type = 12 then rbind (rd 8 bs) (\<lambda>b. ROk (f64_value_text b))
      else if type = 9 then (case d of 0 \<Rightarrow> RNull | Suc d' \<Rightarrow> read_array_text (read_scalar_value d') bs)
      else RNull)"

declare read_scalar_value.simps [simp del]

definition read_value :: "u32 \<Rightarrow> bytes \<Rightarrow> bytes rres" where
  "read_value type bs = read_scalar_value (Suc (length bs)) type bs"

section \<open>The tensor index\<close>

text \<open>Results of the parser: an error status, undefined behaviour, or a value and the bytes left.\<close>

datatype 'a pres = PErr vg_status | PUndef | POk 'a bytes

fun pread :: "'a rres \<Rightarrow> ('a \<Rightarrow> bytes \<Rightarrow> 'b pres) \<Rightarrow> 'b pres" where
  "pread RNull f = PErr VG_E_FORMAT"
| "pread RUndef f = PUndef"
| "pread (ROk a bs) f = f a bs"

definition quant_layout :: "u32 \<Rightarrow> (u32 \<times> u32) option" where
  "quant_layout type =
     (case vg_quant_info type of None \<Rightarrow> None | Some qi \<Rightarrow> Some (qi_block_size qi, qi_bytes_per_block qi))"

fun parse_dims :: "nat \<Rightarrow> bytes \<Rightarrow> (u64 list) pres" where
  "parse_dims 0 bs = POk [] bs"
| "parse_dims (Suc n) bs =
     pread (rd_u64 bs) (\<lambda>d bs. if d = 0 then PErr VG_E_FORMAT
       else (case parse_dims n bs of POk ds bs \<Rightarrow> POk (d # ds) bs | PErr e \<Rightarrow> PErr e | PUndef \<Rightarrow> PUndef))"

text \<open>The product of the dimensions after the first, \<open>None\<close> on overflow.\<close>

fun rows_of :: "u64 \<Rightarrow> u64 list \<Rightarrow> u64 option" where
  "rows_of rows [] = Some rows"
| "rows_of rows (d # ds) = (if rows > UINT64_MAX div d then None else rows_of (rows * d) ds)"

definition tensor_nbytes :: "u32 \<Rightarrow> u64 list \<Rightarrow> vg_status + u64" where
  "tensor_nbytes type ds =
     (let nfast = (if ds = [] then 1 else hd ds)
      in case rows_of 1 (tl ds) of
           None \<Rightarrow> Inl VG_E_RANGE
         | Some rows \<Rightarrow>
             (case quant_layout type of
                None \<Rightarrow> Inl VG_E_UNSUPPORTED
              | Some (block, ts) \<Rightarrow>
                  (let per = nfast div ucast block
                   in if nfast mod ucast block \<noteq> 0 \<or> rows > UINT64_MAX div per
                        \<or> rows * per > UINT64_MAX div ucast ts then Inl VG_E_UNSUPPORTED
                      else Inr (rows * per * ucast ts))))"

definition parse_tensor :: "bytes \<Rightarrow> vg_gguf_tensor pres" where
  "parse_tensor bs =
     pread (read_string bs) (\<lambda>name bs. pread (rd_u32 bs) (\<lambda>nd bs.
       if nd > 4 then PErr VG_E_FORMAT
       else (case parse_dims (unat nd) bs of
               PErr e \<Rightarrow> PErr e
             | PUndef \<Rightarrow> PUndef
             | POk ds bs \<Rightarrow>
                 pread (rd_u32 bs) (\<lambda>type bs. pread (rd_u64 bs) (\<lambda>off bs.
                   case tensor_nbytes type ds of
                     Inl e \<Rightarrow> PErr e
                   | Inr nbytes \<Rightarrow>
                       POk \<lparr>t_name = name, t_n_dims = nd, t_dims = ds @ replicate (4 - length ds) 0,
                            t_ggml_type = type, t_data_offset = off, t_nbytes = nbytes\<rparr> bs)))))"

fun parse_tensors :: "nat \<Rightarrow> bytes \<Rightarrow> vg_gguf_tensor list pres" where
  "parse_tensors 0 bs = POk [] bs"
| "parse_tensors (Suc n) bs =
     (case parse_tensor bs of
        PErr e \<Rightarrow> PErr e
      | PUndef \<Rightarrow> PUndef
      | POk t bs' \<Rightarrow>
          (case parse_tensors n bs' of POk ts bs'' \<Rightarrow> POk (t # ts) bs'' | PErr e \<Rightarrow> PErr e | PUndef \<Rightarrow> PUndef))"

fun parse_meta :: "nat \<Rightarrow> bytes \<Rightarrow> vg_meta list pres" where
  "parse_meta 0 bs = POk [] bs"
| "parse_meta (Suc n) bs =
     pread (read_string bs) (\<lambda>key bs. pread (rd_u32 bs) (\<lambda>type bs. pread (read_value type bs) (\<lambda>v bs.
       case parse_meta n bs of
         POk ms bs \<Rightarrow> POk (\<lparr>m_key = key, m_value = v\<rparr> # ms) bs | PErr e \<Rightarrow> PErr e | PUndef \<Rightarrow> PUndef)))"

section \<open>Lookups\<close>

fun find_pos :: "bytes \<Rightarrow> bytes list \<Rightarrow> nat \<Rightarrow> nat option" where
  "find_pos k [] i = None"
| "find_pos k (x # xs) i = (if x = k then Some i else find_pos k xs (Suc i))"

text \<open>The table first, when there is one and it has the name; otherwise the array is scanned.\<close>

definition named_lookup :: "vg_hash_entry list option \<Rightarrow> bytes list \<Rightarrow> bytes \<Rightarrow> nat option" where
  "named_lookup table names key =
     (case table of
        None \<Rightarrow> find_pos key names 0
      | Some t \<Rightarrow>
          (case hash_find t key of
             None \<Rightarrow> find_pos key names 0
           | Some i \<Rightarrow> if he_occupied (t ! i) then Some (unat (he_index (t ! i))) else find_pos key names 0))"

definition g_names :: "vg_gguf \<Rightarrow> bytes list" where
  "g_names g = (case g_tensors g of None \<Rightarrow> [] | Some ts \<Rightarrow> map t_name ts)"

text \<open>The tensor found, as its index in \<^verbatim>\<open>g->tensors\<close>.\<close>

definition vg_gguf_find_tensor :: "vg_gguf option \<Rightarrow> bytes option \<Rightarrow> nat option" where
  "vg_gguf_find_tensor gc name =
     (case (gc, name) of
        (Some g, Some k) \<Rightarrow> named_lookup (g_tensor_hash g) (g_names g) k
      | _ \<Rightarrow> None)"

definition vg_gguf_meta :: "vg_gguf option \<Rightarrow> bytes option \<Rightarrow> bytes option" where
  "vg_gguf_meta gc key =
     (case (gc, key) of
        (Some g, Some k) \<Rightarrow>
          map_option (\<lambda>i. m_value (g_meta g ! i)) (named_lookup (g_meta_hash g) (map m_key (g_meta g)) k)
      | _ \<Rightarrow> None)"

definition vg_gguf_tensor_at :: "vg_gguf option \<Rightarrow> u64 \<Rightarrow> vg_gguf_tensor option" where
  "vg_gguf_tensor_at gc i =
     (case gc of
        None \<Rightarrow> None
      | Some g \<Rightarrow> if i < g_tensor_count g then map_option (\<lambda>ts. ts ! unat i) (g_tensors g) else None)"

section \<open>Parsing and opening\<close>

text \<open>The insertions into a fresh table of \<open>max n 64\<close> slots; \<open>None\<close> when a NULL entry would be used.\<close>

fun hash_inserts :: "bytes list \<Rightarrow> nat \<Rightarrow> vg_hash_entry list \<Rightarrow> vg_hash_entry list option" where
  "hash_inserts [] i t = Some t"
| "hash_inserts (k # ks) i t =
     (case hash_insert t k (of_nat i) of None \<Rightarrow> None | Some (ok, t') \<Rightarrow> hash_inserts ks (Suc i) t')"

definition hash_build :: "bytes list \<Rightarrow> vg_hash_entry list option" where
  "hash_build names = hash_inserts names 0 (replicate (max (length names) 64) empty_entry)"

definition meta_alignment :: "vg_gguf \<Rightarrow> u64" where
  "meta_alignment g =
     (case vg_gguf_meta (Some g) (Some (cstr ''general.alignment'')) of
        None \<Rightarrow> 32
      | Some a \<Rightarrow> (let x = fst (strtoull a) in if 1 \<le> x \<and> x \<le> 4096 then x else 32))"

definition tensor_in_range :: "vg_gguf \<Rightarrow> vg_gguf_tensor \<Rightarrow> bool" where
  "tensor_in_range g t \<longleftrightarrow>
     \<not> (t_data_offset t > g_file_size g - g_data_base g
        \<or> t_nbytes t > g_file_size g - g_data_base g - t_data_offset t)"

text \<open>What follows the tensor table: the data section's base, the range checks and the tables.\<close>

definition parse_finish :: "vg_gguf \<Rightarrow> bytes \<Rightarrow> (vg_status \<times> vg_gguf) option" where
  "parse_finish g rest =
     (let table_end = of_nat (length (g_file g) - length rest);
          g1 = g\<lparr>g_data_base := align_up_u64 table_end (meta_alignment g)\<rparr>
      in if g_data_base g1 = 0 then Some (VG_E_RANGE, g1)
         else if \<not> list_all (tensor_in_range g1) (the (g_tensors g1)) then Some (VG_E_RANGE, g1)
         else (case hash_build (g_names g1) of
                 None \<Rightarrow> None
               | Some th \<Rightarrow>
                   (case hash_build (map m_key (g_meta g1)) of
                      None \<Rightarrow> None
                    | Some mh \<Rightarrow> Some (VG_OK, g1\<lparr>g_tensor_hash := Some th, g_meta_hash := Some mh\<rparr>))))"

text \<open>The status with the reader as it was left; \<open>None\<close> is undefined behaviour.\<close>

definition parse_index :: "vg_gguf \<Rightarrow> (vg_status \<times> vg_gguf) option" where
  "parse_index g =
     (case pread (rd_u32 (g_file g)) (\<lambda>magic bs. if magic \<noteq> 0x46554747 then PErr VG_E_FORMAT
         else pread (rd_u32 bs) (\<lambda>version bs. if version < 2 \<or> version > 3 then PErr VG_E_FORMAT
         else pread (rd_u64 bs) (\<lambda>count bs. POk count bs))) of
        PErr e \<Rightarrow> Some (e, g)
      | PUndef \<Rightarrow> None
      | POk count bs \<Rightarrow>
          (let g = g\<lparr>g_tensor_count := count\<rparr>
           in case rd_u64 bs of
                ROk kv_count bs \<Rightarrow>
                  (if count > 2 ^ 24 \<or> kv_count > 2 ^ 24 then Some (VG_E_RANGE, g)
                   else (case parse_meta (unat kv_count) bs of
                           PErr e \<Rightarrow> Some (e, g)
                         | PUndef \<Rightarrow> None
                         | POk ms bs \<Rightarrow>
                             (let g = g\<lparr>g_meta := ms, g_tensors := Some (replicate (unat count) zero_tensor)\<rparr>
                              in case parse_tensors (unat count) bs of
                                   PErr e \<Rightarrow> Some (e, g)
                                 | PUndef \<Rightarrow> None
                                 | POk ts bs \<Rightarrow> parse_finish (g\<lparr>g_tensors := Some ts\<rparr>) bs)))
              | _ \<Rightarrow> Some (VG_E_FORMAT, g)))"

definition new_gguf :: "bytes \<Rightarrow> vg_gguf" where
  "new_gguf file = \<lparr>g_file = file, g_file_size = of_nat (length file), g_data_base = 0, g_tensor_count = 0,
     g_tensors = None, g_meta = [], g_tensor_hash = None, g_meta_hash = None, g_direct_io = False, g_map = None\<rparr>"

text \<open>Closing frees the name of every tensor: it reads \<^verbatim>\<open>g->tensors[i]\<close> for \<open>i < tensor_count\<close>.\<close>

definition vg_gguf_close_ok :: "vg_gguf \<Rightarrow> bool" where
  "vg_gguf_close_ok g \<longleftrightarrow>
     g_tensor_count g = 0 \<or> (\<exists>ts. g_tensors g = Some ts \<and> unat (g_tensor_count g) \<le> length ts)"

datatype open_result = Opened vg_gguf | OpenFailed vg_status | OpenUndef

definition vg_gguf_open :: "bytes \<Rightarrow> open_result" where
  "vg_gguf_open file =
     (if length file < 24 then OpenFailed VG_E_FORMAT
      else (case parse_index (new_gguf file) of
              None \<Rightarrow> OpenUndef
            | Some (st, g) \<Rightarrow>
                (if st = VG_OK then Opened g
                 else if vg_gguf_close_ok g then OpenFailed st else OpenUndef)))"

text \<open>The setter and the accessors; a NULL reader is ignored or answers zero.\<close>

definition vg_gguf_set_direct_io :: "vg_gguf option \<Rightarrow> bool \<Rightarrow> vg_gguf option" where
  "vg_gguf_set_direct_io gc enable = map_option (\<lambda>g. g\<lparr>g_direct_io := enable\<rparr>) gc"

definition vg_gguf_data_base :: "vg_gguf option \<Rightarrow> u64" where
  "vg_gguf_data_base gc = (case gc of None \<Rightarrow> 0 | Some g \<Rightarrow> g_data_base g)"

definition vg_gguf_file_size :: "vg_gguf option \<Rightarrow> u64" where
  "vg_gguf_file_size gc = (case gc of None \<Rightarrow> 0 | Some g \<Rightarrow> g_file_size g)"

definition vg_gguf_tensor_count :: "vg_gguf option \<Rightarrow> u64" where
  "vg_gguf_tensor_count gc = (case gc of None \<Rightarrow> 0 | Some g \<Rightarrow> g_tensor_count g)"

section \<open>Reading tensor data\<close>

text \<open>What the operating system answers: whether mapping and direct opening succeed.\<close>

record io_env =
  io_map :: bool
  io_open_direct :: bool

datatype read_result = ReadOK bytes | ReadFailed vg_status | ReadUndef

definition vg_gguf_map :: "io_env \<Rightarrow> vg_gguf \<Rightarrow> vg_status \<times> vg_gguf" where
  "vg_gguf_map env g =
     (case g_map g of
        Some m \<Rightarrow> (VG_OK, g)
      | None \<Rightarrow> if io_map env then (VG_OK, g\<lparr>g_map := Some (g_file g)\<rparr>) else (VG_E_IO, g))"

definition vg_gguf_unmap :: "vg_gguf \<Rightarrow> vg_gguf" where
  "vg_gguf_unmap g = g\<lparr>g_map := None\<rparr>"

definition direct_read :: "vg_gguf \<Rightarrow> u64 \<Rightarrow> u64 \<Rightarrow> read_result" where
  "direct_read g pos n =
     (let aligned_off = pos div 512 * 512; skip = pos - aligned_off;
          aligned_n = (n + skip + 512 - 1) div 512 * 512;
          got = (if 2 ^ 63 \<le> unat aligned_off then None
                 else Some (slice (g_file g) (unat aligned_off) (unat aligned_n)))
      in case got of
           None \<Rightarrow> ReadFailed VG_E_IO
         | Some buf \<Rightarrow>
             (if of_nat (length buf) < skip + n then ReadFailed VG_E_IO
              else if unat skip + unat n \<le> length buf then ReadOK (slice buf (unat skip) (unat n)) else ReadUndef))"

definition file_read :: "vg_gguf \<Rightarrow> u64 \<Rightarrow> u64 \<Rightarrow> read_result" where
  "file_read g pos n =
     (if 2 ^ 63 \<le> unat pos \<or> length (slice (g_file g) (unat pos) (unat n)) < unat n then ReadFailed VG_E_IO
      else ReadOK (slice (g_file g) (unat pos) (unat n)))"

definition vg_gguf_read ::
  "io_env \<Rightarrow> vg_gguf option \<Rightarrow> vg_gguf_tensor option \<Rightarrow> u64 \<Rightarrow> bool \<Rightarrow> u64 \<Rightarrow> read_result \<times> vg_gguf option" where
  "vg_gguf_read env gc t off has_dst n =
     (case (gc, t) of
        (Some g0, Some t) \<Rightarrow>
          (if \<not> has_dst \<or> off > t_nbytes t \<or> n > t_nbytes t - off then (ReadFailed VG_E_RANGE, gc)
           else (let pos = g_data_base g0 + t_data_offset t + off;
                     g = (if g_map g0 = None \<and> g_file_size g0 \<noteq> 0 then snd (vg_gguf_map env g0) else g0);
                     mapped = (case g_map g of
                        Some m \<Rightarrow> if pos \<le> of_nat (length m) \<and> n \<le> of_nat (length m) - pos
                                   then Some (slice m (unat pos) (unat n)) else None
                      | None \<Rightarrow> None)
                 in ((case mapped of
                        Some b \<Rightarrow> ReadOK b
                      | None \<Rightarrow>
                          (if g_direct_io g then
                             (if io_open_direct env then direct_read g pos n else ReadFailed VG_E_IO)
                           else file_read g pos n)), Some g)))
      | _ \<Rightarrow> (ReadFailed VG_E_RANGE, gc))"

end
