(* ===== verification/Lora.thy ===== *)
theory Lora
  imports Gguf CpuOps
begin

text \<open>
  Low-rank adapters, \<^verbatim>\<open>src/lora.c\<close>: the names of the factors, loading the pairs of an adapter file, the
  accessors, and adding a delta to the result of a product or to a dense weight. Allocation is taken to succeed;
  an access outside a vector is \<open>None\<close>.
\<close>

section \<open>Adapters\<close>

record vg_lorapair =
  lp_base :: bytes
  lp_a :: "flt list"
  lp_b :: "flt list option"
  lp_rank :: u32
  lp_in_dim :: u32
  lp_out_dim :: u32
  lp_scaling :: flt

record vg_loraadapter =
  la_pairs :: "vg_lorapair list"
  la_rank :: u32

section \<open>Names\<close>

definition lora_suffixes :: "(bytes \<times> bytes) list" where
  "lora_suffixes = [(cstr ''.lora_a'', cstr ''.lora_b''), (cstr ''.loraA'', cstr ''.loraB''),
     (cstr ''.lora_a.weight'', cstr ''.lora_b.weight'')]"

definition ends_with :: "bytes \<Rightarrow> bytes \<Rightarrow> bool" where
  "ends_with name suffix \<longleftrightarrow> drop (length name - length suffix) name = suffix"

text \<open>The base name and whether the tensor is the A factor; \<open>cap\<close> is the room for the base name and its NUL.\<close>

fun split_suffixes :: "bytes \<Rightarrow> nat \<Rightarrow> (bytes \<times> bytes) list \<Rightarrow> (bytes \<times> bool) option" where
  "split_suffixes name cap [] = None"
| "split_suffixes name cap ((sa, sb) # rest) =
     (if length name > length sa \<and> ends_with name sa then
        (let n = length name - length sa in if n + 1 > cap then None else Some (take n name, True))
      else if length name > length sb \<and> ends_with name sb then
        (let n = length name - length sb in if n + 1 > cap then None else Some (take n name, False))
      else split_suffixes name cap rest)"

definition split_lora_name :: "bytes \<Rightarrow> nat \<Rightarrow> (bytes \<times> bool) option" where
  "split_lora_name name cap = split_suffixes name cap lora_suffixes"

definition find_pair :: "vg_lorapair list \<Rightarrow> bytes \<Rightarrow> nat option" where
  "find_pair ps base = find (\<lambda>i. lp_base (ps ! i) = base) [0..<length ps]"

text \<open>The name as it is, without a trailing \<^verbatim>\<open>.weight\<close>, then with one; the scratch buffer has 192 bytes.\<close>

definition resolve :: "vg_loraadapter \<Rightarrow> bytes \<Rightarrow> nat option" where
  "resolve ad name =
     (let n = length name;
          longer = (if n + 8 \<le> 192 then find_pair (la_pairs ad) (name @ cstr ''.weight'') else None)
      in case find_pair (la_pairs ad) name of
           Some i \<Rightarrow> Some i
         | None \<Rightarrow>
             (if n > 7 \<and> ends_with name (cstr ''.weight'') \<and> n - 7 + 1 \<le> 192 then
                (case find_pair (la_pairs ad) (take (n - 7) name) of Some i \<Rightarrow> Some i | None \<Rightarrow> longer)
              else longer))"

section \<open>Loading\<close>

text \<open>A whole tensor as floats; \<open>None\<close> inside is a refusal, \<open>None\<close> outside undefined behaviour of the read.\<close>

definition read_float_tensor :: "io_env \<Rightarrow> vg_gguf \<Rightarrow> vg_gguf_tensor \<Rightarrow> (flt list option \<times> vg_gguf) option" where
  "read_float_tensor env g t =
     (case vg_quant_info (t_ggml_type t) of
        None \<Rightarrow> Some (None, g)
      | Some qi \<Rightarrow>
          (if \<not> qi_scalar qi then Some (None, g)
           else (let elements = foldl (\<lambda>e d. e * d) 1 (take (unat (t_n_dims t)) (t_dims t))
                 in if elements = 0 \<or> elements > 2 ^ 32 then Some (None, g)
                    else (case vg_gguf_read env (Some g) (Some t) 0 True (t_nbytes t) of
                            (ReadOK raw, g1) \<Rightarrow>
                              (case vg_dequantize_row (t_ggml_type t) (Some raw) (t_nbytes t) True elements of
                                 Inr out \<Rightarrow> Some (Some out, the g1)
                               | Inl st \<Rightarrow> Some (None, the g1))
                          | (ReadFailed st, g1) \<Rightarrow> Some (None, the g1)
                          | (ReadUndef, g1) \<Rightarrow> None))))"

text \<open>One tensor of the first pass: an A factor opens a pair, a B factor completes the pair of its base.\<close>

definition load_factor :: "io_env \<Rightarrow> nat \<Rightarrow> vg_loraadapter \<times> vg_gguf \<Rightarrow> (vg_loraadapter \<times> vg_gguf) option" where
  "load_factor env i = (\<lambda>(ad, g).
     case vg_gguf_tensor_at (Some g) (of_nat i) of
       None \<Rightarrow> Some (ad, g)
     | Some t \<Rightarrow>
         (if t_n_dims t < 2 then Some (ad, g)
          else (case split_lora_name (t_name t) 160 of
                  None \<Rightarrow> Some (ad, g)
                | Some (base, is_a) \<Rightarrow>
                    (let d0 = ucast (t_dims t ! 0); d1 = ucast (t_dims t ! 1)
                     in if is_a then
                          (if d0 = 0 \<or> d1 = 0 then Some (ad, g)
                           else (case read_float_tensor env g t of
                                   None \<Rightarrow> None
                                 | Some (None, g1) \<Rightarrow> Some (ad, g1)
                                 | Some (Some a, g1) \<Rightarrow>
                                     Some (ad\<lparr>la_pairs := la_pairs ad @
                                              [\<lparr>lp_base = base, lp_a = a, lp_b = None, lp_rank = d1, lp_in_dim = d0,
                                                lp_out_dim = 0, lp_scaling = f_one\<rparr>],
                                              la_rank := (if d1 > la_rank ad then d1 else la_rank ad)\<rparr>, g1)))
                        else (case find_pair (la_pairs ad) base of
                                None \<Rightarrow> Some (ad, g)
                              | Some k \<Rightarrow>
                                  (let p = la_pairs ad ! k
                                   in if d0 \<noteq> lp_rank p then Some (ad, g)
                                      else (case read_float_tensor env g t of
                                              None \<Rightarrow> None
                                            | Some (b, g1) \<Rightarrow>
                                                Some (ad\<lparr>la_pairs := (la_pairs ad)[k := p\<lparr>lp_b := b,
                                                         lp_out_dim := (if b = None then 0 else d1)\<rparr>]\<rparr>, g1))))))))"

text \<open>One tensor of the second pass: a scaling scalar that is finite and not zero.\<close>

definition load_scaling :: "io_env \<Rightarrow> nat \<Rightarrow> vg_loraadapter \<times> vg_gguf \<Rightarrow> (vg_loraadapter \<times> vg_gguf) option" where
  "load_scaling env i = (\<lambda>(ad, g).
     case vg_gguf_tensor_at (Some g) (of_nat i) of
       None \<Rightarrow> Some (ad, g)
     | Some t \<Rightarrow>
         (let n = length (t_name t); m = n - 8
          in if n < 9 \<or> \<not> ends_with (t_name t) (cstr ''.scaling'') \<or> m + 1 > 160 then Some (ad, g)
             else (case find_pair (la_pairs ad) (take m (t_name t)) of
                     None \<Rightarrow> Some (ad, g)
                   | Some k \<Rightarrow>
                       (case read_float_tensor env g t of
                          None \<Rightarrow> None
                        | Some (None, g1) \<Rightarrow> Some (ad, g1)
                        | Some (Some s, g1) \<Rightarrow>
                            (if f_isfinite (hd s) \<and> (f_less f_zero (hd s) \<or> f_less (hd s) f_zero)
                             then Some (ad\<lparr>la_pairs := (la_pairs ad)[k := (la_pairs ad ! k)\<lparr>lp_scaling := hd s\<rparr>]\<rparr>, g1)
                             else Some (ad, g1))))))"

definition complete_pair :: "vg_lorapair \<Rightarrow> bool" where
  "complete_pair p \<longleftrightarrow> lp_b p \<noteq> None \<and> lp_out_dim p \<noteq> 0"

definition vg_lora_load :: "io_env \<Rightarrow> vg_gguf option \<Rightarrow> ((vg_status \<times> vg_loraadapter option) \<times> vg_gguf option) option" where
  "vg_lora_load env file =
     (case file of
        None \<Rightarrow> Some ((VG_E_INVALID, None), None)
      | Some g \<Rightarrow>
          (let is = [0..<unat (vg_gguf_tensor_count (Some g))]
           in case ofold (load_factor env) is (\<lparr>la_pairs = [], la_rank = 0\<rparr>, g) of
                None \<Rightarrow> None
              | Some s1 \<Rightarrow>
                  (case ofold (load_scaling env) is s1 of
                     None \<Rightarrow> None
                   | Some (ad, g2) \<Rightarrow> Some ((VG_OK, Some (ad\<lparr>la_pairs := filter complete_pair (la_pairs ad)\<rparr>)), Some g2))))"

section \<open>Accessors\<close>

definition vg_lora_rank :: "vg_loraadapter option \<Rightarrow> u32" where
  "vg_lora_rank ad = (case ad of None \<Rightarrow> 0 | Some a \<Rightarrow> la_rank a)"

definition vg_lora_target_count :: "vg_loraadapter option \<Rightarrow> nat" where
  "vg_lora_target_count ad = (case ad of None \<Rightarrow> 0 | Some a \<Rightarrow> length (la_pairs a))"

definition vg_lora_target_name :: "vg_loraadapter option \<Rightarrow> nat \<Rightarrow> bytes option" where
  "vg_lora_target_name ad index =
     (case ad of None \<Rightarrow> None | Some a \<Rightarrow> if index < length (la_pairs a) then Some (lp_base (la_pairs a ! index)) else None)"

definition vg_lora_target_rank :: "vg_loraadapter option \<Rightarrow> bytes option \<Rightarrow> u32" where
  "vg_lora_target_rank ad name =
     (case (ad, name) of
        (Some a, Some w) \<Rightarrow> (case resolve a w of Some i \<Rightarrow> lp_rank (la_pairs a ! i) | None \<Rightarrow> 0)
      | _ \<Rightarrow> 0)"

section \<open>Applying\<close>

text \<open>The two products; a vector that an access would leave is \<open>None\<close>.\<close>

definition lora_row :: "flt list \<Rightarrow> nat \<Rightarrow> nat \<Rightarrow> flt list \<Rightarrow> flt option" where
  "lora_row w r n x =
     (if (r + 1) * n \<le> length w \<and> n \<le> length x
      then Some (foldl (\<lambda>acc j. mac acc (w ! (r * n + j)) (x ! j)) f_zero [0..<n]) else None)"

fun lora_rows :: "flt list \<Rightarrow> nat \<Rightarrow> flt list \<Rightarrow> nat list \<Rightarrow> flt list option" where
  "lora_rows w n x [] = Some []"
| "lora_rows w n x (r # rs) =
     (case lora_row w r n x of None \<Rightarrow> None | Some v \<Rightarrow> map_option ((#) v) (lora_rows w n x rs))"

text \<open>
  The status and the output: one when a delta was added, zero when the adapter has none for the weight,
  minus one for invalid arguments. \<open>None\<close> is an access outside a buffer.
\<close>

definition vg_lora_apply_delta ::
  "vg_loraadapter option \<Rightarrow> bytes option \<Rightarrow> flt list option \<Rightarrow> flt list option \<Rightarrow> u32 \<Rightarrow> u32 \<Rightarrow> flt \<Rightarrow> (int \<times> flt list option) option" where
  "vg_lora_apply_delta ad name x y out_dim in_dim scale =
     (case (ad, name, x, y) of
        (Some a, Some w, Some x, Some y) \<Rightarrow>
          (case resolve a w of
             None \<Rightarrow> Some (0, Some y)
           | Some i \<Rightarrow>
               (let p = la_pairs a ! i
                in case lp_b p of
                     None \<Rightarrow> Some (0, Some y)
                   | Some b \<Rightarrow>
                       (if lp_in_dim p \<noteq> in_dim \<or> lp_out_dim p \<noteq> out_dim then Some (0, Some y)
                        else (case lora_rows (lp_a p) (unat (lp_in_dim p)) x [0..<unat (lp_rank p)] of
                                None \<Rightarrow> None
                              | Some tmp \<Rightarrow>
                                  (case lora_rows b (unat (lp_rank p)) tmp [0..<unat (lp_out_dim p)] of
                                     None \<Rightarrow> None
                                   | Some d \<Rightarrow>
                                       (if unat (lp_out_dim p) \<le> length y
                                        then (let s = fmul scale (lp_scaling p)
                                              in Some (1, Some (write_all (unat (lp_out_dim p)) (\<lambda>j. fadd (y ! j) (fmul s (d ! j))) y)))
                                        else None))))))
      | _ \<Rightarrow> Some (-1, y))"

text \<open>The product of the two factors at one place.\<close>

definition lora_cell :: "vg_lorapair \<Rightarrow> flt list \<Rightarrow> nat \<Rightarrow> nat \<Rightarrow> nat \<Rightarrow> flt" where
  "lora_cell p b n i j =
     foldl (\<lambda>acc r. mac acc (b ! (i * unat (lp_rank p) + r)) (lp_a p ! (r * n + j))) f_zero [0..<unat (lp_rank p)]"

definition vg_lora_apply ::
  "vg_loraadapter option \<Rightarrow> bytes option \<Rightarrow> flt list option \<Rightarrow> u32 \<Rightarrow> u32 \<Rightarrow> flt \<Rightarrow> (vg_status \<times> flt list option) option" where
  "vg_lora_apply ad name weight out_dim in_dim scale =
     (case (ad, name, weight) of
        (Some a, Some w, Some wt) \<Rightarrow>
          (case resolve a w of
             None \<Rightarrow> Some (VG_E_UNSUPPORTED, Some wt)
           | Some k \<Rightarrow>
               (let p = la_pairs a ! k; n = unat in_dim; m = unat out_dim; s = fmul scale (lp_scaling p)
                in if lp_in_dim p \<noteq> in_dim \<or> lp_out_dim p \<noteq> out_dim then Some (VG_E_FORMAT, Some wt)
                   else (case lp_b p of
                           None \<Rightarrow> None
                         | Some b \<Rightarrow>
                             (if m * unat (lp_rank p) \<le> length b \<and> unat (lp_rank p) * n \<le> length (lp_a p) \<and> m * n \<le> length wt
                              then Some (VG_OK, Some (write_all (m * n) (\<lambda>c. fadd (wt ! c) (fmul s (lora_cell p b n (c div n) (c mod n)))) wt))
                              else None))))
      | _ \<Rightarrow> Some (VG_E_INVALID, weight))"

end
