(* ===== verification/TensorSource.thy ===== *)
theory TensorSource
  imports Gguf
begin

text \<open>
  The tensor source (\<^verbatim>\<open>include/vg/tensor_source.h\<close>, \<^verbatim>\<open>src/tensor_source.c\<close>): a cache of tensor bytes with
  leases, eviction by age, background loading and streaming. A tensor pointer is an index into
  the reader's tensors. Buffers live in \<open>ts_heap\<close>: a pointer is an index, a freed buffer is \<open>None\<close>, and no
  address is reused. The entries that callers wait on are \<open>ts_callers\<close>. The operations run under the
  source's mutex, so each is one step; the worker's iteration is another. Allocation and the creation of
  the mutex and the thread are taken to succeed, NULL sources and lease pointers are refused by the code at
  once and have no counterpart, and trace events are left out.
\<close>

section \<open>Data\<close>

record vg_tensorsourceconfig =
  tc_host_budget_bytes :: u64
  tc_pinned_budget_bytes :: u64
  tc_device_budget_bytes :: u64
  tc_io_chunk_bytes :: u64
  tc_io_workers :: u32
  tc_prefetch_depth :: u32
  tc_use_mmap :: bool
  tc_use_direct_io :: bool

record vg_tensorsourcestats =
  tt_lookups :: u64
  tt_hits :: u64
  tt_misses :: u64
  tt_prefetches :: u64
  tt_prefetch_hits :: u64
  tt_bytes_read :: u64
  tt_bytes_resident :: u64
  tt_bytes_device :: u64
  tt_bytes_budget :: u64
  tt_device_budget :: u64
  tt_evictions :: u64

record vg_cacheentry =
  ce_tensor :: nat
  ce_data :: nat
  ce_bytes :: u64
  ce_refs :: u64
  ce_age :: u64
  ce_ticket :: u64
  ce_tier :: vg_tier
  ce_owns :: bool

text \<open>Where the data pointer of a lease points: into the heap, or into the mapped file.\<close>

datatype lease_ptr = NullPtr | HeapPtr nat | MapPtr u64

record vg_tensorlease =
  le_tensor :: "nat option"
  le_data :: lease_ptr
  le_size :: u64
  le_tier :: vg_tier
  le_ticket :: u64
  le_source :: bool
  le_mapped :: bool

text \<open>The entry of a caller that waits for a background load.\<close>

record vg_prefetchentry =
  pe_name :: bytes
  pe_tier :: vg_tier
  pe_data :: "nat option"
  pe_bytes :: u64
  pe_ready :: bool
  pe_error :: bool

text \<open>
  A queued request. Its own \<^verbatim>\<open>data\<close>, \<^verbatim>\<open>bytes\<close>, \<^verbatim>\<open>ready\<close> and \<^verbatim>\<open>error\<close> fields are private to the worker, which
  frees the node at the end of the iteration that fills them.
\<close>

record vg_iorequest =
  rq_name :: bytes
  rq_tier :: vg_tier
  rq_io_entry :: nat

record vg_tensorsource =
  ts_file :: vg_gguf
  ts_cfg :: vg_tensorsourceconfig
  ts_entries :: "vg_cacheentry list"
  ts_capacity :: nat
  ts_clock :: u64
  ts_next_ticket :: u64
  ts_stats :: vg_tensorsourcestats
  ts_io_thread :: bool
  ts_io_running :: bool
  ts_io_queue :: "vg_iorequest list"
  ts_heap :: "bytes option list"
  ts_callers :: "vg_prefetchentry list"

definition empty_lease :: vg_tensorlease where
  "empty_lease = \<lparr>le_tensor = None, le_data = NullPtr, le_size = 0, le_tier = VG_TIER_STORAGE,
     le_ticket = 0, le_source = False, le_mapped = False\<rparr>"

definition ts_alloc :: "bytes \<Rightarrow> vg_tensorsource \<Rightarrow> nat \<times> vg_tensorsource" where
  "ts_alloc data s = (length (ts_heap s), s\<lparr>ts_heap := ts_heap s @ [Some data]\<rparr>)"

definition ts_free :: "nat \<Rightarrow> vg_tensorsource \<Rightarrow> vg_tensorsource" where
  "ts_free b s = s\<lparr>ts_heap := (ts_heap s)[b := None]\<rparr>"

text \<open>What a reader finds behind the data pointer of a lease; \<open>None\<close> is freed or unmapped memory.\<close>

definition lease_bytes :: "vg_tensorsource \<Rightarrow> vg_tensorlease \<Rightarrow> bytes option" where
  "lease_bytes s l =
     (case le_data l of
        NullPtr \<Rightarrow> None
      | HeapPtr b \<Rightarrow> if b < length (ts_heap s) then ts_heap s ! b else None
      | MapPtr p \<Rightarrow> map_option (\<lambda>m. slice m (unat p) (unat (le_size l))) (g_map (ts_file s)))"

section \<open>The cache\<close>

definition resident_bytes :: "vg_cacheentry list \<Rightarrow> u64" where
  "resident_bytes es = sum_list (map ce_bytes (filter ce_owns es))"

definition remove_entry :: "nat \<Rightarrow> vg_tensorsource \<Rightarrow> vg_tensorsource" where
  "remove_entry i s =
     (if length (ts_entries s) \<le> i then s
      else (let e = ts_entries s ! i; s1 = (if ce_owns e then ts_free (ce_data e) s else s)
            in s1\<lparr>ts_entries := take i (ts_entries s) @ drop (Suc i) (ts_entries s),
                  ts_stats := (ts_stats s)\<lparr>tt_evictions := tt_evictions (ts_stats s) + 1\<rparr>\<rparr>))"

fun find_from :: "('a \<Rightarrow> bool) \<Rightarrow> 'a list \<Rightarrow> nat \<Rightarrow> nat option" where
  "find_from P [] i = None"
| "find_from P (x # xs) i = (if P x then Some i else find_from P xs (Suc i))"

definition find_entry :: "vg_cacheentry list \<Rightarrow> nat \<Rightarrow> vg_tier \<Rightarrow> nat option" where
  "find_entry es t tier = find_from (\<lambda>e. ce_tensor e = t \<and> ce_tier e = tier) es 0"

text \<open>The scan for the oldest unreferenced entry; \<open>best\<close> is \<^verbatim>\<open>victim\<close> and \<open>age\<close> the smallest age so far.\<close>

fun scan_victim :: "vg_cacheentry list \<Rightarrow> nat \<Rightarrow> nat option \<Rightarrow> u64 \<Rightarrow> nat option" where
  "scan_victim [] i best age = best"
| "scan_victim (e # es) i best age =
     (if ce_owns e \<and> ce_refs e = 0 \<and> ce_age e < age then scan_victim es (Suc i) (Some i) (ce_age e)
      else scan_victim es (Suc i) best age)"

definition cache_victim :: "vg_cacheentry list \<Rightarrow> nat option" where
  "cache_victim es = scan_victim es 0 None UINT64_MAX"

lemma scan_victim_range:
  "scan_victim es i best age = Some v \<Longrightarrow>
     best = Some v \<or> (i \<le> v \<and> v < i + length es \<and> ce_owns (es ! (v - i)) \<and> ce_refs (es ! (v - i)) = 0)"
proof (induction es arbitrary: i best age)
  case (Cons e es)
  show ?case
  proof (cases "ce_owns e \<and> ce_refs e = 0 \<and> ce_age e < age")
    case True
    with Cons.prems Cons.IH [of "Suc i" "Some i" "ce_age e"] show ?thesis by (auto simp: nth_Cons')
  next
    case False
    have "scan_victim es (Suc i) best age = Some v" using Cons.prems unfolding scan_victim.simps if_not_P [OF False] .
    with Cons.IH [of "Suc i" best age] show ?thesis by (auto simp: nth_Cons')
  qed
qed simp

lemma cache_victim_range:
  "cache_victim es = Some v \<Longrightarrow> v < length es \<and> ce_owns (es ! v) \<and> ce_refs (es ! v) = 0"
  unfolding cache_victim_def by (auto dest: scan_victim_range)

function evict_entries :: "u64 \<Rightarrow> u64 \<Rightarrow> vg_tensorsource \<Rightarrow> vg_tensorsource" where
  "evict_entries budget need s =
     (if resident_bytes (ts_entries s) > budget \<or> (need \<noteq> 0 \<and> resident_bytes (ts_entries s) > budget - need)
      then (case cache_victim (ts_entries s) of None \<Rightarrow> s | Some v \<Rightarrow> evict_entries budget need (remove_entry v s))
      else s)"
  by pat_completeness auto
termination
  by (relation "measure (\<lambda>(b, n, s). length (ts_entries s))")
    (auto simp: remove_entry_def Let_def ts_free_def dest: cache_victim_range)

declare evict_entries.simps [simp del]

definition evict_for :: "u64 \<Rightarrow> vg_tensorsource \<Rightarrow> vg_tensorsource" where
  "evict_for need s =
     (let budget = tc_host_budget_bytes (ts_cfg s) in if budget = 0 then s else evict_entries budget need s)"

section \<open>Opening and closing\<close>

definition default_tsconfig :: vg_tensorsourceconfig where
  "default_tsconfig = \<lparr>tc_host_budget_bytes = 512 * 1024 * 1024, tc_pinned_budget_bytes = 0,
     tc_device_budget_bytes = 0, tc_io_chunk_bytes = 4 * 1024 * 1024, tc_io_workers = 0, tc_prefetch_depth = 2,
     tc_use_mmap = True, tc_use_direct_io = False\<rparr>"

definition zero_tsstats :: vg_tensorsourcestats where
  "zero_tsstats = \<lparr>tt_lookups = 0, tt_hits = 0, tt_misses = 0, tt_prefetches = 0, tt_prefetch_hits = 0,
     tt_bytes_read = 0, tt_bytes_resident = 0, tt_bytes_device = 0, tt_bytes_budget = 0, tt_device_budget = 0,
     tt_evictions = 0\<rparr>"

text \<open>The mutex and the worker are created; with \<^verbatim>\<open>io_workers > 0\<close> one worker is started.\<close>

definition vg_tensor_source_open ::
  "vg_gguf option \<Rightarrow> vg_tensorsourceconfig option \<Rightarrow> vg_status + vg_tensorsource" where
  "vg_tensor_source_open file cfg =
     (case file of
        None \<Rightarrow> Inl VG_E_INVALID
      | Some g \<Rightarrow>
          (let c0 = (case cfg of None \<Rightarrow> default_tsconfig | Some c \<Rightarrow> c);
               c = (if tc_io_chunk_bytes c0 = 0 then c0\<lparr>tc_io_chunk_bytes := 4 * 1024 * 1024\<rparr> else c0);
               g1 = (if tc_use_direct_io c then the (vg_gguf_set_direct_io (Some g) True) else g)
           in Inr \<lparr>ts_file = g1, ts_cfg = c, ts_entries = [], ts_capacity = 0, ts_clock = 0, ts_next_ticket = 0,
                ts_stats = zero_tsstats\<lparr>tt_bytes_budget := tc_host_budget_bytes c, tt_device_budget := tc_device_budget_bytes c\<rparr>,
                ts_io_thread = (tc_io_workers c > 0), ts_io_running = (tc_io_workers c > 0), ts_io_queue = [],
                ts_heap = [], ts_callers = []\<rparr>))"

section \<open>Leases\<close>

text \<open>Mapping the file and checking that the tensor starts inside the mapping.\<close>

definition map_tensor :: "io_env \<Rightarrow> vg_gguf_tensor \<Rightarrow> vg_tensorsource \<Rightarrow> bool \<times> vg_tensorsource" where
  "map_tensor env t s =
     (case vg_gguf_map env (ts_file s) of
        (st, g) \<Rightarrow>
          (st = VG_OK \<and> t_data_offset t \<le> of_nat (length (the (g_map g))) - vg_gguf_data_base (Some g), s\<lparr>ts_file := g\<rparr>))"

definition storage_lease :: "vg_tensorsource \<Rightarrow> nat \<Rightarrow> vg_gguf_tensor \<Rightarrow> vg_tensorlease" where
  "storage_lease s i t =
     \<lparr>le_tensor = Some i, le_data = MapPtr (vg_gguf_data_base (Some (ts_file s)) + t_data_offset t), le_size = t_nbytes t,
      le_tier = VG_TIER_STORAGE, le_ticket = 0, le_source = True, le_mapped = True\<rparr>"

definition acquire_hit :: "nat \<Rightarrow> nat \<Rightarrow> vg_tensorsource \<Rightarrow> vg_status \<times> vg_tensorlease \<times> vg_tensorsource" where
  "acquire_hit i k s =
     (let e = ts_entries s ! k; clock = ts_clock s + 1
      in (VG_OK,
          \<lparr>le_tensor = Some i, le_data = HeapPtr (ce_data e), le_size = ce_bytes e, le_tier = ce_tier e,
           le_ticket = of_nat (k + 1), le_source = True, le_mapped = False\<rparr>,
          s\<lparr>ts_entries := (ts_entries s)[k := e\<lparr>ce_refs := ce_refs e + 1, ce_age := clock\<rparr>], ts_clock := clock,
            ts_stats := (ts_stats s)\<lparr>tt_hits := tt_hits (ts_stats s) + 1\<rparr>\<rparr>))"

definition count_device :: "vg_tier \<Rightarrow> u64 \<Rightarrow> vg_tensorsourcestats \<Rightarrow> vg_tensorsourcestats" where
  "count_device tier n st = (if tier = VG_TIER_DEVICE then st\<lparr>tt_bytes_device := tt_bytes_device st + n\<rparr> else st)"

definition cache_insert ::
  "nat \<Rightarrow> vg_tier \<Rightarrow> nat \<Rightarrow> u64 \<Rightarrow> u64 \<Rightarrow> vg_tensorsource \<Rightarrow> vg_status \<times> vg_tensorlease \<times> vg_tensorsource" where
  "cache_insert i tier b n budget s0 =
     (let s = evict_for n s0;
          cap = (if length (ts_entries s) = ts_capacity s then (if ts_capacity s \<noteq> 0 then ts_capacity s * 2 else 32) else ts_capacity s);
          e = \<lparr>ce_tensor = i, ce_data = b, ce_bytes = n, ce_refs = 1, ce_age = ts_clock s + 1,
               ce_ticket = ts_next_ticket s + 1, ce_tier = tier, ce_owns = True\<rparr>;
          es = ts_entries s @ [e];
          st = count_device tier n ((ts_stats s)\<lparr>tt_bytes_resident := resident_bytes es, tt_bytes_budget := budget\<rparr>)
      in (VG_OK,
          \<lparr>le_tensor = Some i, le_data = HeapPtr b, le_size = n, le_tier = tier, le_ticket = ce_ticket e,
           le_source = True, le_mapped = False\<rparr>,
          s\<lparr>ts_entries := es, ts_capacity := cap, ts_clock := ts_clock s + 1, ts_next_ticket := ts_next_ticket s + 1,
            ts_stats := st\<lparr>tt_bytes_read := tt_bytes_read st + n\<rparr>\<rparr>))"

definition transient_lease ::
  "nat \<Rightarrow> vg_tier \<Rightarrow> nat \<Rightarrow> u64 \<Rightarrow> u64 \<Rightarrow> vg_tensorsource \<Rightarrow> vg_status \<times> vg_tensorlease \<times> vg_tensorsource" where
  "transient_lease i tier b n budget s =
     (let st = count_device tier n ((ts_stats s)\<lparr>tt_bytes_resident := resident_bytes (ts_entries s), tt_bytes_budget := budget\<rparr>)
      in (VG_OK,
          \<lparr>le_tensor = Some i, le_data = HeapPtr b, le_size = n, le_tier = tier, le_ticket = 0, le_source = True, le_mapped = False\<rparr>,
          s\<lparr>ts_stats := st\<lparr>tt_bytes_read := tt_bytes_read st + n\<rparr>\<rparr>))"

definition acquire_loaded ::
  "nat \<Rightarrow> vg_tier \<Rightarrow> u64 \<Rightarrow> bytes \<Rightarrow> vg_tensorsource \<Rightarrow> vg_status \<times> vg_tensorlease \<times> vg_tensorsource" where
  "acquire_loaded i tier n data s =
     (let budget = (if tier = VG_TIER_PINNED then tc_pinned_budget_bytes (ts_cfg s) else tc_host_budget_bytes (ts_cfg s))
      in if tier = VG_TIER_DEVICE \<and> tc_device_budget_bytes (ts_cfg s) \<noteq> 0 \<and>
            tt_bytes_device (ts_stats s) + n > tc_device_budget_bytes (ts_cfg s)
         then (VG_E_NOMEM, empty_lease, s)
         else (case ts_alloc data s of
                 (b, s1) \<Rightarrow>
                   (if budget \<noteq> 0 \<and> n \<le> budget then cache_insert i tier b n budget s1
                    else transient_lease i tier b n budget s1)))"

text \<open>After a miss. \<open>None\<close> is undefined behaviour of the read.\<close>

definition acquire_miss ::
  "io_env \<Rightarrow> nat \<Rightarrow> vg_gguf_tensor \<Rightarrow> vg_tier \<Rightarrow> vg_tensorsource \<Rightarrow> (vg_status \<times> vg_tensorlease \<times> vg_tensorsource) option" where
  "acquire_miss env i t desired s0 =
     (let s = s0\<lparr>ts_stats := (ts_stats s0)\<lparr>tt_misses := tt_misses (ts_stats s0) + 1\<rparr>\<rparr>
      in if desired = VG_TIER_STORAGE \<and> tc_use_mmap (ts_cfg s) then
           (case map_tensor env t s of
              (ok, s1) \<Rightarrow> Some (if ok then (VG_OK, storage_lease s1 i t, s1) else (VG_E_IO, empty_lease, s1)))
         else
           (case vg_gguf_read env (Some (ts_file s)) (Some t) 0 True (t_nbytes t) of
              (ReadOK data, g) \<Rightarrow> Some (acquire_loaded i desired (t_nbytes t) data (s\<lparr>ts_file := the g\<rparr>))
            | (ReadFailed st, g) \<Rightarrow> Some (st, empty_lease, s\<lparr>ts_file := the g\<rparr>)
            | (ReadUndef, g) \<Rightarrow> None))"

definition count_lookup :: "vg_tensorsource \<Rightarrow> vg_tensorsource" where
  "count_lookup s = s\<lparr>ts_stats := (ts_stats s)\<lparr>tt_lookups := tt_lookups (ts_stats s) + 1\<rparr>\<rparr>"

definition acquire_cached ::
  "io_env \<Rightarrow> nat \<Rightarrow> vg_gguf_tensor \<Rightarrow> vg_tier \<Rightarrow> vg_tensorsource \<Rightarrow> (vg_status \<times> vg_tensorlease \<times> vg_tensorsource) option" where
  "acquire_cached env i t desired s0 =
     (let s = count_lookup s0
      in case find_entry (ts_entries s) i desired of
           Some k \<Rightarrow> Some (acquire_hit i k s)
         | None \<Rightarrow> acquire_miss env i t desired s)"

definition vg_tensor_acquire ::
  "io_env \<Rightarrow> bytes option \<Rightarrow> vg_tier \<Rightarrow> vg_tensorsource \<Rightarrow> (vg_status \<times> vg_tensorlease \<times> vg_tensorsource) option" where
  "vg_tensor_acquire env name desired s =
     (case vg_gguf_find_tensor (Some (ts_file s)) name of
        None \<Rightarrow> Some (VG_E_INVALID, empty_lease, s)
      | Some i \<Rightarrow>
          (let t = the (g_tensors (ts_file s)) ! i
           in if desired = VG_TIER_STORAGE \<and> tc_use_mmap (ts_cfg s) then
                (case map_tensor env t (count_lookup s) of
                   (ok, s1) \<Rightarrow>
                     (if ok then Some (VG_OK, storage_lease s1 i t, s1\<lparr>ts_stats := (ts_stats s1)\<lparr>tt_hits := tt_hits (ts_stats s1) + 1\<rparr>\<rparr>)
                      else acquire_cached env i t desired s1))
              else acquire_cached env i t desired s))"

text \<open>Releasing drops the reference of the entry with the ticket and the tensor of the lease, or frees a private buffer.\<close>

definition release_entry :: "u64 \<Rightarrow> nat option \<Rightarrow> vg_cacheentry list \<Rightarrow> vg_cacheentry list" where
  "release_entry ticket t es =
     (case find_from (\<lambda>e. ce_ticket e = ticket \<and> Some (ce_tensor e) = t) es 0 of
        None \<Rightarrow> es
      | Some k \<Rightarrow> if ce_refs (es ! k) \<noteq> 0 then es[k := (es ! k)\<lparr>ce_refs := ce_refs (es ! k) - 1\<rparr>] else es)"

definition vg_tensor_release :: "vg_tensorlease \<Rightarrow> vg_tensorsource \<Rightarrow> vg_tensorsource" where
  "vg_tensor_release l s =
     (if \<not> le_source l then s
      else if le_ticket l \<noteq> 0 then s\<lparr>ts_entries := release_entry (le_ticket l) (le_tensor l) (ts_entries s)\<rparr>
      else (case le_data l of HeapPtr b \<Rightarrow> if le_mapped l then s else ts_free b s | _ \<Rightarrow> s))"

section \<open>Prefetching and streaming\<close>

fun vg_tensor_prefetch ::
  "io_env \<Rightarrow> bytes list \<Rightarrow> vg_tier \<Rightarrow> vg_tensorsource \<Rightarrow> (vg_status \<times> vg_tensorsource) option" where
  "vg_tensor_prefetch env [] desired s = Some (VG_OK, s)"
| "vg_tensor_prefetch env (n # ns) desired s =
     (case vg_tensor_acquire env (Some n) desired s of
        None \<Rightarrow> None
      | Some (st, l, s1) \<Rightarrow>
          (if st \<noteq> VG_OK then Some (st, s1)
           else (let s2 = vg_tensor_release l s1
                 in vg_tensor_prefetch env ns desired
                      (s2\<lparr>ts_stats := (ts_stats s2)\<lparr>tt_prefetches := tt_prefetches (ts_stats s2) + 1\<rparr>\<rparr>))))"

text \<open>The caller's entry \<open>p\<close> is cleared and, with a worker, a request for it is queued.\<close>

definition vg_tensor_prefetch_async ::
  "io_env \<Rightarrow> bytes \<Rightarrow> vg_tier \<Rightarrow> nat \<Rightarrow> vg_tensorsource \<Rightarrow> (vg_status \<times> vg_tensorsource) option" where
  "vg_tensor_prefetch_async env name desired p s =
     (let s1 = s\<lparr>ts_callers := (ts_callers s)[p := \<lparr>pe_name = name, pe_tier = desired, pe_data = None, pe_bytes = 0,
                   pe_ready = False, pe_error = False\<rparr>]\<rparr>
      in if \<not> ts_io_thread s then vg_tensor_prefetch env [name] desired s1
         else Some (VG_OK, s1\<lparr>ts_io_queue := ts_io_queue s @ [\<lparr>rq_name = name, rq_tier = desired, rq_io_entry = p\<rparr>]\<rparr>))"

text \<open>One iteration of the worker on a dequeued request.\<close>

definition publish :: "nat \<Rightarrow> (vg_prefetchentry \<Rightarrow> vg_prefetchentry) \<Rightarrow> vg_tensorsource \<Rightarrow> vg_tensorsource" where
  "publish p f s = s\<lparr>ts_callers := (ts_callers s)[p := f (ts_callers s ! p)]\<rparr>"

definition io_failed :: "vg_prefetchentry \<Rightarrow> vg_prefetchentry" where
  "io_failed pe = pe\<lparr>pe_error := True, pe_ready := True\<rparr>"

definition io_serve :: "io_env \<Rightarrow> vg_iorequest \<Rightarrow> vg_tensorsource \<Rightarrow> vg_tensorsource option" where
  "io_serve env r s =
     (case vg_gguf_find_tensor (Some (ts_file s)) (Some (rq_name r)) of
        None \<Rightarrow> Some (publish (rq_io_entry r) io_failed s)
      | Some i \<Rightarrow>
          (let t = the (g_tensors (ts_file s)) ! i
           in case vg_gguf_read env (Some (ts_file s)) (Some t) 0 True (t_nbytes t) of
                (ReadOK data, g) \<Rightarrow>
                  (case ts_alloc data (s\<lparr>ts_file := the g\<rparr>) of
                     (b, s1) \<Rightarrow> Some (publish (rq_io_entry r)
                       (\<lambda>pe. pe\<lparr>pe_data := Some b, pe_bytes := t_nbytes t, pe_ready := True, pe_error := False\<rparr>) s1))
              | (ReadFailed st, g) \<Rightarrow> Some (publish (rq_io_entry r) io_failed (s\<lparr>ts_file := the g\<rparr>))
              | (ReadUndef, g) \<Rightarrow> None))"

text \<open>The worker: one iteration dequeues and serves, sleeps, or ends; \<open>io_worker k\<close> runs \<open>k\<close> of them.\<close>

fun io_worker :: "io_env \<Rightarrow> nat \<Rightarrow> vg_tensorsource \<Rightarrow> vg_tensorsource option" where
  "io_worker env 0 s = Some s"
| "io_worker env (Suc k) s =
     (case ts_io_queue s of
        [] \<Rightarrow> if ts_io_running s then io_worker env k s else Some s
      | r # rs \<Rightarrow>
          (case io_serve env r (s\<lparr>ts_io_queue := rs\<rparr>) of None \<Rightarrow> None | Some s1 \<Rightarrow> io_worker env k s1))"

text \<open>One look of \<^verbatim>\<open>vg_tensor_wait\<close> at the entry; \<open>None\<close>: not ready, the caller sleeps and looks again.\<close>

definition vg_tensor_wait :: "nat \<Rightarrow> vg_tensorsource \<Rightarrow> vg_status option" where
  "vg_tensor_wait p s =
     (let pe = ts_callers s ! p
      in if pe_ready pe then Some (if pe_error pe then VG_E_IO else VG_OK) else None)"

definition vg_tensor_source_stats :: "vg_tensorsource \<Rightarrow> vg_tensorsourcestats" where
  "vg_tensor_source_stats s = ts_stats s"

text \<open>
  Closing joins the worker, which first serves what is queued (\<open>io_worker\<close>), then frees every buffer the
  cache owns and the requests left.
\<close>

fun free_entries :: "vg_cacheentry list \<Rightarrow> vg_tensorsource \<Rightarrow> vg_tensorsource" where
  "free_entries [] s = s"
| "free_entries (e # es) s = free_entries es (if ce_owns e then ts_free (ce_data e) s else s)"

definition vg_tensor_source_close :: "io_env \<Rightarrow> vg_tensorsource \<Rightarrow> vg_tensorsource option" where
  "vg_tensor_source_close env s =
     (case (if ts_io_thread s then io_worker env (Suc (length (ts_io_queue s))) (s\<lparr>ts_io_running := False\<rparr>) else Some s) of
        None \<Rightarrow> None
      | Some s1 \<Rightarrow> Some ((free_entries (ts_entries s1) s1)\<lparr>ts_entries := [], ts_io_queue := []\<rparr>))"

definition chunk_len :: "vg_gguf_tensor \<Rightarrow> u64 \<Rightarrow> u64 \<Rightarrow> u64" where
  "chunk_len t chunk off = (if t_nbytes t - off < chunk then t_nbytes t - off else chunk)"

lemma chunk_len_unat:
  assumes "off < t_nbytes t"
  shows "unat (chunk_len t chunk off) = min (unat (t_nbytes t) - unat off) (unat chunk)"
    and "unat (off + chunk_len t chunk off) = unat off + unat (chunk_len t chunk off)"
proof -
  have le: "off \<le> t_nbytes t" using assms by simp
  show l: "unat (chunk_len t chunk off) = min (unat (t_nbytes t) - unat off) (unat chunk)"
    using unat_sub [OF le] by (auto simp: chunk_len_def word_less_nat_alt min_def)
  have "unat off + unat (chunk_len t chunk off) \<le> unat (t_nbytes t)"
    using le unfolding l by (auto simp: word_le_nat_alt)
  then have "unat off + unat (chunk_len t chunk off) < 2 ^ 64" using unat_u64_less [of "t_nbytes t"] by linarith
  then show "unat (off + chunk_len t chunk off) = unat off + unat (chunk_len t chunk off)" by (rule unat_u64_add)
qed

text \<open>
  Streaming reads chunk after chunk into one buffer and hands each to \<open>consume\<close>, whose state is \<open>u\<close>. The
  answer is the status, the consumer's state and the source; \<open>None\<close> is undefined behaviour, or a chunk
  size of zero, with which the loop would not end.
\<close>

function stream_loop ::
  "io_env \<Rightarrow> vg_gguf_tensor \<Rightarrow> u64 \<Rightarrow> (bytes \<Rightarrow> u64 \<Rightarrow> 'u \<Rightarrow> vg_status \<times> 'u) \<Rightarrow> u64 \<Rightarrow> 'u \<Rightarrow> vg_gguf
     \<Rightarrow> (vg_status \<times> 'u \<times> vg_gguf) option" where
  "stream_loop env t chunk consume off u g =
     (if \<not> off < t_nbytes t then Some (VG_OK, u, g)
      else if chunk = 0 then None
      else (let n = chunk_len t chunk off
            in case vg_gguf_read env (Some g) (Some t) off True n of
                 (ReadOK buf, g1) \<Rightarrow>
                   (case consume buf off u of
                      (st, u1) \<Rightarrow> if st = VG_OK then stream_loop env t chunk consume (off + n) u1 (the g1)
                                else Some (st, u1, the g1))
               | (ReadFailed st, g1) \<Rightarrow> Some (st, u, the g1)
               | (ReadUndef, g1) \<Rightarrow> None))"
  by pat_completeness auto

termination stream_loop
proof (relation "measure (\<lambda>(env, t, chunk, consume, off, u, g). unat (t_nbytes t) - unat off)", simp, goal_cases)
  case (1 env t chunk consume off u g n rr g1 buf st u1)
  have off: "off < t_nbytes t" using 1 by simp
  have n: "n = chunk_len t chunk off" using 1 by simp
  have "unat chunk \<noteq> 0" using 1 by (simp add: unat_eq_0)
  then show ?case using off chunk_len_unat [OF off, of chunk] unfolding n
    by (simp add: word_less_nat_alt)
qed

declare stream_loop.simps [simp del]

definition vg_tensor_stream ::
  "io_env \<Rightarrow> bytes option \<Rightarrow> u64 \<Rightarrow> (bytes \<Rightarrow> u64 \<Rightarrow> 'u \<Rightarrow> vg_status \<times> 'u) \<Rightarrow> 'u \<Rightarrow> vg_tensorsource
     \<Rightarrow> (vg_status \<times> 'u \<times> vg_tensorsource) option" where
  "vg_tensor_stream env name chunk consume u s =
     (case vg_gguf_find_tensor (Some (ts_file s)) name of
        None \<Rightarrow> Some (VG_E_INVALID, u, s)
      | Some i \<Rightarrow>
          map_option (\<lambda>(st, u1, g). (st, u1, s\<lparr>ts_file := g\<rparr>))
            (stream_loop env (the (g_tensors (ts_file s)) ! i) (if chunk = 0 then tc_io_chunk_bytes (ts_cfg s) else chunk)
               consume 0 u (ts_file s)))"

text \<open>The tensors after a position, each loaded and released when it is small; a failed load is skipped.\<close>

fun prefetch_each :: "io_env \<Rightarrow> vg_gguf_tensor list \<Rightarrow> vg_tensorsource \<Rightarrow> vg_tensorsource option" where
  "prefetch_each env [] s = Some s"
| "prefetch_each env (t # ts) s =
     (if t_nbytes t \<le> 8 * 1024 * 1024 then
        (case vg_tensor_acquire env (Some (t_name t)) VG_TIER_HOST s of
           None \<Rightarrow> None
         | Some (st, l, s1) \<Rightarrow>
             (if st = VG_OK then
                (let s2 = vg_tensor_release l s1
                 in prefetch_each env ts (s2\<lparr>ts_stats := (ts_stats s2)\<lparr>tt_prefetch_hits := tt_prefetch_hits (ts_stats s2) + 1\<rparr>\<rparr>))
              else prefetch_each env ts s1))
      else prefetch_each env ts s)"

definition vg_tensor_prefetch_after ::
  "io_env \<Rightarrow> bytes option \<Rightarrow> u32 \<Rightarrow> vg_tensorsource \<Rightarrow> (vg_status \<times> vg_tensorsource) option" where
  "vg_tensor_prefetch_after env name depth s =
     (if depth = 0 then Some (VG_E_INVALID, s)
      else (case vg_gguf_find_tensor (Some (ts_file s)) name of
              None \<Rightarrow> Some (VG_E_INVALID, s)
            | Some i \<Rightarrow>
                (if i < unat (vg_gguf_tensor_count (Some (ts_file s))) then
                   map_option (Pair VG_OK) (prefetch_each env (take (unat depth) (drop (i + 1) (the (g_tensors (ts_file s))))) s)
                 else Some (VG_E_INVALID, s))))"

end
