(* ===== verification/Experts.thy ===== *)
theory Experts
  imports Engine Lora TensorSource
begin

text \<open>
  How the model graph reaches its weights, from the file, from the tensor source, or through the cache of expert slices
  (\<^verbatim>\<open>src/src/model_graph.c\<close>, first part).
\<close>

section \<open>Weights\<close>

text \<open>
  What the graph reads from outside: the file, the tensor source when there is one, and what the C library and the
  machine answer. \<open>en_junk n\<close> is what \<open>n\<close> fresh floats hold.
\<close>

record genv =
  en_libm :: libm
  en_cpu :: cpu_state
  en_sched :: "(u32 \<times> u32) list \<Rightarrow> (u32 \<times> u32) list"
  en_io :: io_env
  en_file :: vg_gguf
  en_source :: "vg_tensorsource option"
  en_strtof :: "bytes \<Rightarrow> flt"
  en_junk :: "nat \<Rightarrow> flt list"

definition find_tensor :: "genv \<Rightarrow> bytes \<Rightarrow> vg_gguf_tensor option" where
  "find_tensor en name = map_option (\<lambda>i. the (g_tensors (en_file en)) ! i) (vg_gguf_find_tensor (Some (en_file en)) (Some name))"

text \<open>Bytes of a tensor through \<^verbatim>\<open>vg_gguf_read\<close>; a read of a well-formed file is never undefined.\<close>

definition file_bytes :: "genv \<Rightarrow> vg_gguf_tensor \<Rightarrow> u64 \<Rightarrow> u64 \<Rightarrow> vg_status + bytes" where
  "file_bytes en t off n =
     (case fst (vg_gguf_read (en_io en) (Some (en_file en)) (Some t) off True n) of
        ReadOK b \<Rightarrow> Inr b | ReadFailed st \<Rightarrow> Inl st | ReadUndef \<Rightarrow> Inl VG_E_IO)"

text \<open>A weight in use: its tensor, its bytes, and whether the lease keeps them alive without a copy.\<close>

record weight =
  wt_tensor :: vg_gguf_tensor
  wt_data :: bytes
  wt_pinned :: bool

text \<open>
  \<^verbatim>\<open>acquire_weight\<close>: through the source, or by a read of its own. Each use is followed by
  \<^verbatim>\<open>release_weight\<close>, which gives the lease back; what a weight reads as does not depend on the leases of others.
\<close>

definition acquire_weight :: "genv \<Rightarrow> bytes \<Rightarrow> vg_status + weight" where
  "acquire_weight en name =
     (case en_source en of
        Some s \<Rightarrow>
          (case vg_tensor_acquire (en_io en) (Some name) VG_TIER_STORAGE s of
             Some (st, l, s1) \<Rightarrow>
               if st = VG_OK then
                 Inr \<lparr>wt_tensor = the (g_tensors (ts_file s1)) ! the (le_tensor l), wt_data = the (lease_bytes s1 l),
                      wt_pinned = (le_ticket l \<noteq> 0 \<or> le_mapped l)\<rparr>
               else Inl st
           | None \<Rightarrow> Inl VG_E_IO)
      | None \<Rightarrow>
          (case find_tensor en name of
             None \<Rightarrow> Inl VG_E_INVALID
           | Some t \<Rightarrow>
               (case file_bytes en t 0 (t_nbytes t) of
                  Inl st \<Rightarrow> Inl st
                | Inr b \<Rightarrow> Inr \<lparr>wt_tensor = t, wt_data = b, wt_pinned = False\<rparr>)))"

text \<open>The bytes of a weight as floats.\<close>

definition f32_list :: "bytes \<Rightarrow> nat \<Rightarrow> flt list" where
  "f32_list b n = map (\<lambda>i. f32_of_bits (u32_at b (4 * i))) [0..<n]"

text \<open>The name of a weight of a layer, \<^verbatim>\<open>blk.%u.\<close> and its kind.\<close>

definition blk :: "nat \<Rightarrow> string \<Rightarrow> bytes" where
  "blk layer kind = cstr ''blk.'' @ dec layer @ cstr ''.'' @ cstr kind"

section \<open>The expert cache\<close>

record vg_expertslot =
  es_layer :: nat
  es_expert :: nat
  es_kind :: nat
  es_data :: bytes
  es_bytes :: nat
  es_ggml_type :: u32
  es_out_dim :: u32
  es_in_dim :: u32
  es_last_use :: u64
  es_hits :: u32
  es_holds_lease :: bool

text \<open>The slots in use; \<open>ec_cap\<close> is the number of slots.\<close>

record vg_expertcache =
  ec_slots :: "vg_expertslot list"
  ec_cap :: nat
  ec_clock :: u64
  ec_hits :: u64
  ec_misses :: u64
  ec_evictions :: u64

definition expert_cache_init :: "u32 \<Rightarrow> vg_expertcache" where
  "expert_cache_init cap =
     \<lparr>ec_slots = [], ec_cap = unat (if cap < 4 then 4 else cap), ec_clock = 0, ec_hits = 0, ec_misses = 0, ec_evictions = 0\<rparr>"

definition expert_find :: "vg_expertcache \<Rightarrow> nat \<Rightarrow> nat \<Rightarrow> nat \<Rightarrow> nat option" where
  "expert_find c layer expert kind =
     find (\<lambda>i. let s = ec_slots c ! i in es_layer s = layer \<and> es_expert s = expert \<and> es_kind s = kind) [0..<length (ec_slots c)]"

definition expert_victim :: "vg_expertslot list \<Rightarrow> nat" where
  "expert_victim ss = foldl (\<lambda>idx i. if es_last_use (ss ! i) < es_last_use (ss ! idx) then i else idx) 0 [1..<length ss]"

definition expert_insert :: "vg_expertslot \<Rightarrow> vg_expertcache \<Rightarrow> vg_expertcache" where
  "expert_insert v c =
     (if ec_cap c = 0 then c
      else (let v' = v\<lparr>es_last_use := ec_clock c + 1\<rparr>
            in if length (ec_slots c) < ec_cap c then c\<lparr>ec_slots := ec_slots c @ [v'], ec_clock := ec_clock c + 1\<rparr>
               else c\<lparr>ec_slots := (ec_slots c)[expert_victim (ec_slots c) := v'], ec_evictions := ec_evictions c + 1,
                      ec_clock := ec_clock c + 1\<rparr>))"

definition expert_stride :: "vg_gguf_tensor \<Rightarrow> u32 \<Rightarrow> u32 \<Rightarrow> u64" where
  "expert_stride t out_dim in_dim =
     (case vg_quant_info (t_ggml_type t) of
        None \<Rightarrow> 0
      | Some qi \<Rightarrow> ucast in_dim * ucast out_dim div ucast (qi_block_size qi) * ucast (qi_bytes_per_block qi))"

definition expert_kinds :: "string list" where
  "expert_kinds = [''ffn_gate_exps.weight'', ''ffn_up_exps.weight'', ''ffn_down_exps.weight'']"

definition expert_hit :: "vg_expertcache \<Rightarrow> nat \<Rightarrow> nat \<Rightarrow> u32 \<Rightarrow> u32 \<Rightarrow> u32 \<Rightarrow> nat option" where
  "expert_hit c layer kind expert out_dim in_dim =
     (case expert_find c layer (unat expert) kind of
        None \<Rightarrow> None
      | Some i \<Rightarrow> if es_out_dim (ec_slots c ! i) = out_dim \<and> es_in_dim (ec_slots c ! i) = in_dim then Some i else None)"

text \<open>The slot of an expert that is not cached; \<open>expert + 1\<close> is computed in 32 bits.\<close>

definition load_expert :: "genv \<Rightarrow> nat \<Rightarrow> nat \<Rightarrow> u32 \<Rightarrow> u32 \<Rightarrow> u32 \<Rightarrow> vg_status + vg_expertslot" where
  "load_expert en layer kind expert out_dim in_dim =
     (if kind > 2 then Inl VG_E_INVALID
      else (case acquire_weight en (blk layer (expert_kinds ! kind)) of
              Inl st \<Rightarrow> Inl st
            | Inr w \<Rightarrow>
                (let t = wt_tensor w; stride = expert_stride t out_dim in_dim;
                     experts = (if t_n_dims t \<ge> 3 then t_dims t ! 2 else 1)
                 in if ucast expert \<ge> experts \<or> stride = 0 \<or> ucast (expert + 1) * stride > t_nbytes t then Inl VG_E_FORMAT
                    else Inr \<lparr>es_layer = layer, es_expert = unat expert, es_kind = kind,
                          es_data = slice (wt_data w) (unat (ucast expert * stride)) (unat stride), es_bytes = unat stride,
                          es_ggml_type = t_ggml_type t, es_out_dim = out_dim, es_in_dim = in_dim, es_last_use = 0,
                          es_hits = 0, es_holds_lease = wt_pinned w\<rparr>)))"

text \<open>The slice of an expert, its type, and the cache afterwards.\<close>

definition acquire_expert ::
  "genv \<Rightarrow> nat \<Rightarrow> nat \<Rightarrow> u32 \<Rightarrow> u32 \<Rightarrow> u32 \<Rightarrow> vg_expertcache \<Rightarrow> (vg_status + bytes \<times> u32) \<times> vg_expertcache" where
  "acquire_expert en layer kind expert out_dim in_dim c =
     (case expert_hit c layer kind expert out_dim in_dim of
        Some i \<Rightarrow>
          (let s = ec_slots c ! i
           in (Inr (es_data s, es_ggml_type s),
               c\<lparr>ec_slots := (ec_slots c)[i := s\<lparr>es_hits := es_hits s + 1, es_last_use := ec_clock c + 1\<rparr>],
                 ec_clock := ec_clock c + 1, ec_hits := ec_hits c + 1\<rparr>))
      | None \<Rightarrow>
          (case load_expert en layer kind expert out_dim in_dim of
             Inl st \<Rightarrow> (Inl st, c)
           | Inr v \<Rightarrow> (Inr (es_data v, es_ggml_type v), expert_insert v (c\<lparr>ec_misses := ec_misses c + 1\<rparr>))))"

end
