(* ===== verification/Attention.thy ===== *)
theory Attention
  imports Experts
begin

text \<open>
  The state of the model graph and the attention half of a layer: embedding, projections, rotary positions, the paged store
  of keys and values, scores and their sum (\<^verbatim>\<open>src/src/model_graph.c\<close>).
\<close>

section \<open>The graph\<close>

text \<open>
  The state a graph keeps from one token to the next. Buffers that are filled before they are read are local values of
  the functions that use them.
\<close>

record vg_modelgraph =
  mg_cfg :: vg_modelconfig
  mg_work_embd :: "flt list"
  mg_work_res :: "flt list"
  mg_work_ffn :: "flt list"
  mg_logits :: "flt list"
  mg_rope_freqs :: "flt list option"
  mg_kv_k :: "flt list option list"
  mg_kv_v :: "flt list option list"
  mg_kv_dim :: "u32 list"
  mg_kv_capacity :: u32
  mg_cache :: vg_expertcache
  mg_lora :: "vg_loraadapter option"
  mg_lora_scale :: flt

section \<open>Products\<close>

text \<open>A product into \<open>y\<close>, which keeps its contents when the product is refused.\<close>

definition mm_dispatch :: "genv \<Rightarrow> u32 \<Rightarrow> bytes \<Rightarrow> flt list \<Rightarrow> flt list \<Rightarrow> u32 \<Rightarrow> u32 \<Rightarrow> vg_status \<times> flt list" where
  "mm_dispatch en type w x y out_dim in_dim =
     (case vg_cpu_matmul (en_cpu en) (en_sched en) type (Some w) (Some x) (Some y) out_dim in_dim of
        Inl st \<Rightarrow> (st, y) | Inr y' \<Rightarrow> (VG_OK, y'))"

text \<open>Adding the delta of the adapter; it stays inside the vectors.\<close>

definition lora_apply :: "vg_modelgraph \<Rightarrow> bytes \<Rightarrow> flt list \<Rightarrow> flt list \<Rightarrow> u32 \<Rightarrow> u32 \<Rightarrow> flt list" where
  "lora_apply g name x y out_dim in_dim =
     (case mg_lora g of
        None \<Rightarrow> y
      | Some ad \<Rightarrow>
          (case vg_lora_apply_delta (Some ad) (Some name) (Some x) (Some y) out_dim in_dim (mg_lora_scale g) of
             Some (r, Some y') \<Rightarrow> y' | _ \<Rightarrow> y))"

text \<open>A projection: fresh output, product, adapter, bias.\<close>

definition add_bias :: "genv \<Rightarrow> vg_modelgraph \<Rightarrow> bytes \<Rightarrow> u32 \<Rightarrow> flt list \<Rightarrow> flt list" where
  "add_bias en g name dm y =
     (if mc_has_biases (mg_cfg g) then
        (case acquire_weight en name of
           Inl st \<Rightarrow> y
         | Inr w \<Rightarrow>
             (if t_ggml_type (wt_tensor w) = 0 \<and> t_dims (wt_tensor w) ! 0 \<ge> ucast dm
              then write_all (unat dm) (\<lambda>i. fadd (y ! i) (f32_list (wt_data w) (unat dm) ! i)) y else y))
      else y)"

definition project :: "genv \<Rightarrow> vg_modelgraph \<Rightarrow> bytes \<Rightarrow> weight \<Rightarrow> flt list \<Rightarrow> u32 \<Rightarrow> u32 \<Rightarrow> flt list" where
  "project en g name w x out_dim in_dim =
     (let y = snd (mm_dispatch en (t_ggml_type (wt_tensor w)) (wt_data w) x (en_junk en (unat out_dim)) out_dim in_dim)
      in lora_apply g name x y out_dim in_dim)"

section \<open>Embedding\<close>

definition vg_model_graph_embed :: "genv \<Rightarrow> vg_modelgraph option \<Rightarrow> int \<Rightarrow> vg_status + flt list" where
  "vg_model_graph_embed en gp token =
     (case gp of
        None \<Rightarrow> Inl VG_E_INVALID
      | Some g \<Rightarrow>
          (if token < 0 \<or> (word_of_int token :: u32) \<ge> mc_n_vocab (mg_cfg g) then Inl VG_E_INVALID
           else (case find_tensor en (cstr ''token_embd.weight'') of
                   None \<Rightarrow> Inl VG_E_INVALID
                 | Some t \<Rightarrow>
                     (let embd = mc_n_embd (mg_cfg g)
                      in if t_ggml_type t = 0 then
                           (let row_bytes = embd * 4
                            in case file_bytes en t (word_of_int token * ucast row_bytes) (ucast row_bytes) of
                                 Inl st \<Rightarrow> Inl st | Inr b \<Rightarrow> Inr (f32_list b (unat embd)))
                         else (case vg_quant_info (t_ggml_type t) of
                                 None \<Rightarrow> Inl VG_E_UNSUPPORTED
                               | Some qi \<Rightarrow>
                                   (if qi_block_size qi = 0 then Inl VG_E_UNSUPPORTED
                                    else (let row_bytes = ucast (embd div qi_block_size qi) * ucast (qi_bytes_per_block qi) :: u64
                                          in case file_bytes en t (word_of_int token * row_bytes) row_bytes of
                                               Inl st \<Rightarrow> Inl st
                                             | Inr b \<Rightarrow> vg_dequantize_row (t_ggml_type t) (Some b) row_bytes True (ucast embd))))))))"

section \<open>Attention\<close>

text \<open>The square root of the mean of squares, inverted.\<close>

definition vec_rms :: "libm \<Rightarrow> flt list \<Rightarrow> nat \<Rightarrow> flt \<Rightarrow> flt" where
  "vec_rms m x n eps =
     fdiv f_one (m_sqrtf m (fadd (fdiv (foldl (\<lambda>ss i. mac ss (x ! i) (x ! i)) f_zero [0..<n]) (fint (int n))) eps))"

text \<open>The constant \<^verbatim>\<open>1e-6f\<close>.\<close>

definition qk_eps :: flt where
  "qk_eps = fdiv f_one (FFin False 1000000 0)"

text \<open>The rotation with the frequencies of the file, by pairs of neighbours.\<close>

definition rope_scaled :: "libm \<Rightarrow> flt \<Rightarrow> flt list \<Rightarrow> nat \<Rightarrow> nat \<Rightarrow> nat \<Rightarrow> flt list \<Rightarrow> flt list" where
  "rope_scaled m freq_base freqs n_pairs n_rot pos v =
     foldl (\<lambda>v i.
       let inv = m_powf m freq_base (fdiv (fmul (FFin True 2 0) (fint (int i))) (fint (int n_rot)));
           freq = fdiv (fmul (fint (int pos)) inv) (freqs ! i);
           c = m_cosf m freq; s = m_sinf m freq; a = v ! (2 * i); b = v ! (2 * i + 1)
       in v[2 * i := fsub (fmul a c) (fmul b s), 2 * i + 1 := fadd (fmul a s) (fmul b c)]) v [0..<n_pairs]"

text \<open>One head of a query or key: the norm of its kind if the model has one, then the rotation.\<close>

definition head_rope :: "genv \<Rightarrow> vg_modelgraph \<Rightarrow> bytes \<Rightarrow> u32 \<Rightarrow> u32 \<Rightarrow> nat \<Rightarrow> flt list \<Rightarrow> flt list" where
  "head_rope en g nname hd_dim n_rot pos v0 =
     (let n = unat hd_dim;
          v = (case acquire_weight en nname of
                 Inl st \<Rightarrow> v0
               | Inr w \<Rightarrow> (let inv = vec_rms (en_libm en) v0 n qk_eps
                          in write_all n (\<lambda>i. fmul (fmul (v0 ! i) inv) (f32_list (wt_data w) n ! i)) v0));
          n_pairs = min (unat (n_rot div 2)) (unat (hd_dim div 2))
      in case mg_rope_freqs g of
           Some freqs \<Rightarrow>
             if n_pairs \<noteq> 0 \<and> length freqs \<ge> n_pairs
             then rope_scaled (en_libm en) (mc_freq_base (mg_cfg g)) freqs n_pairs (unat (if n_rot \<noteq> 0 then n_rot else hd_dim)) pos v
             else fst (vg_cpu_rope (en_libm en) v None hd_dim n_rot f_one (mc_freq_base (mg_cfg g)) (int pos))
         | None \<Rightarrow> fst (vg_cpu_rope (en_libm en) v None hd_dim n_rot f_one (mc_freq_base (mg_cfg g)) (int pos)))"

definition per_head :: "nat \<Rightarrow> nat \<Rightarrow> (flt list \<Rightarrow> flt list) \<Rightarrow> flt list \<Rightarrow> flt list" where
  "per_head H n f v = foldl (\<lambda>v h. take (h * n) v @ f (take n (drop (h * n) v)) @ drop (h * n + n) v) v [0..<H]"

text \<open>
  The pages of the attention cache: 64 positions each, \<open>kv_capacity\<close> pages per layer, a page that was never
  written or was freed being \<open>None\<close>.
\<close>

definition put_at :: "nat \<Rightarrow> 'a list \<Rightarrow> 'a list \<Rightarrow> 'a list" where
  "put_at off xs page = take off page @ xs @ drop (off + length xs) page"

definition kv_evict :: "nat \<Rightarrow> nat \<Rightarrow> nat \<Rightarrow> nat \<Rightarrow> 'a list option list \<Rightarrow> 'a list option list" where
  "kv_evict cap window layer pos pages =
     (if pos \<ge> window \<and> window > 0 \<and> (pos - window) div 64 < cap
      then pages[layer * cap + (pos - window) div 64 := None] else pages)"

text \<open>Whether the page of the position has to be made is decided by the keys alone; both pages are then fresh.\<close>

definition kv_put :: "nat \<Rightarrow> nat \<Rightarrow> flt list option \<Rightarrow> nat \<Rightarrow> bool \<Rightarrow> flt list option list \<Rightarrow> flt list option list" where
  "kv_put lp pos row dm fresh pages =
     (let pages1 = (if fresh then pages[lp := Some (replicate (64 * dm) f_zero)] else pages)
      in case (pages1 ! lp, row) of
           (Some page, Some r) \<Rightarrow> pages1[lp := Some (put_at (pos mod 64 * dm) (take dm r) page)]
         | _ \<Rightarrow> pages1)"

definition kv_store :: "nat \<Rightarrow> nat \<Rightarrow> flt list option \<Rightarrow> flt list option \<Rightarrow> u32 \<Rightarrow> vg_modelgraph \<Rightarrow> vg_modelgraph" where
  "kv_store layer pos k v kv_dim g0 =
     (let cap = unat (mg_kv_capacity g0); window = unat (mc_sliding_window (mg_cfg g0));
          g = g0\<lparr>mg_kv_k := kv_evict cap window layer pos (mg_kv_k g0), mg_kv_v := kv_evict cap window layer pos (mg_kv_v g0)\<rparr>;
          lp = layer * cap + pos div 64
      in if pos < unat (mc_n_ctx (mg_cfg g)) \<and> pos div 64 < cap then
           (let fresh = (mg_kv_k g ! lp = None)
            in g\<lparr>mg_kv_k := kv_put lp pos k (unat kv_dim) fresh (mg_kv_k g),
                 mg_kv_v := kv_put lp pos v (unat kv_dim) fresh (mg_kv_v g),
                 mg_kv_dim := (if fresh then (mg_kv_dim g)[layer := kv_dim] else mg_kv_dim g)\<rparr>)
         else g)"

text \<open>The row of a position for one head, \<open>None\<close> when its page is not there.\<close>

definition kv_row :: "flt list option list \<Rightarrow> nat \<Rightarrow> nat \<Rightarrow> nat \<Rightarrow> nat \<Rightarrow> nat \<Rightarrow> flt list option" where
  "kv_row pages cap layer dm off t = map_option (\<lambda>page. drop (t mod 64 * dm + off) page) (pages ! (layer * cap + t div 64))"

definition att_score :: "libm \<Rightarrow> flt \<Rightarrow> flt \<Rightarrow> nat \<Rightarrow> flt list \<Rightarrow> flt list option \<Rightarrow> flt" where
  "att_score m cap scale n q row =
     (let dot = (case row of Some k \<Rightarrow> foldl (\<lambda>acc d. mac acc (q ! d) (k ! d)) f_zero [0..<n] | None \<Rightarrow> f_zero);
          s = fmul dot scale
      in if f_less f_zero cap then fmul cap (m_tanhf m (fdiv s cap)) else s)"

text \<open>The softmax over the scores, in place in the code.\<close>

definition att_weights :: "libm \<Rightarrow> flt list \<Rightarrow> flt list" where
  "att_weights m scores =
     (let mx = foldl (\<lambda>mx t. if f_less mx (scores ! t) then scores ! t else mx) (scores ! 0) [1..<length scores];
          es = map (\<lambda>s. m_expf m (fsub s mx)) scores;
          sm = foldl fadd f_zero es
      in if f_less f_zero sm then map (\<lambda>e. fdiv e sm) es else es)"

definition add_row :: "nat \<Rightarrow> nat \<Rightarrow> flt \<Rightarrow> flt list option \<Rightarrow> flt list \<Rightarrow> flt list" where
  "add_row base n w row out =
     (case row of
        None \<Rightarrow> out
      | Some v \<Rightarrow> foldl (\<lambda>out d. out[base + d := mac (out ! (base + d)) w (v ! d)]) out [0..<n])"

definition attend :: "genv \<Rightarrow> vg_modelgraph \<Rightarrow> nat \<Rightarrow> nat \<Rightarrow> flt list \<Rightarrow> nat \<Rightarrow> nat \<Rightarrow> flt list" where
  "attend en g layer pos q hd_dim kv_dim =
     (let H = unat (mc_n_head (mg_cfg g)); HKV = (let h = unat (mc_n_head_kv (mg_cfg g)) in if h = 0 then 1 else h);
          cap = unat (mg_kv_capacity g); kv_hdim = kv_dim div HKV; gk = (if H div HKV = 0 then 1 else H div HKV);
          scale = fdiv f_one (m_sqrtf (en_libm en) (fint (int hd_dim)))
      in foldl (\<lambda>out h.
           let off = h div gk * kv_hdim;
               scores = map (\<lambda>t. att_score (en_libm en) (mc_attn_logit_softcap (mg_cfg g)) scale hd_dim (drop (h * hd_dim) q)
                                  (kv_row (mg_kv_k g) cap layer kv_dim off t)) [0..<pos + 1];
               ws = att_weights (en_libm en) scores
           in foldl (\<lambda>out t. add_row (h * kv_hdim) kv_hdim (ws ! t) (kv_row (mg_kv_v g) cap layer kv_dim off t) out) out [0..<pos + 1])
         (replicate (H * hd_dim) f_zero) [0..<H])"

text \<open>A norm that is applied when the model has it and its weights have the right length.\<close>

definition sized_norm :: "genv \<Rightarrow> vg_modelgraph \<Rightarrow> bool \<Rightarrow> bytes \<Rightarrow> u32 \<Rightarrow> flt list \<Rightarrow> flt list" where
  "sized_norm en g present name dm x =
     (if present then
        (case acquire_weight en name of
           Inr w \<Rightarrow>
             (if t_n_dims (wt_tensor w) = 1 \<and> t_dims (wt_tensor w) ! 0 = ucast dm
              then vg_cpu_rmsnorm (en_libm en) x x (Some (f32_list (wt_data w) (unat dm))) dm (mc_rms_eps (mg_cfg g)) else x)
         | Inl st \<Rightarrow> x)
      else x)"

text \<open>The norm in front of a block; without weights the input is passed on.\<close>

definition input_norm :: "genv \<Rightarrow> vg_modelgraph \<Rightarrow> bytes \<Rightarrow> flt list \<Rightarrow> flt list" where
  "input_norm en g name x =
     (case acquire_weight en name of
        Inr w \<Rightarrow> vg_cpu_rmsnorm (en_libm en) x x (Some (f32_list (wt_data w) (unat (mc_n_embd (mg_cfg g))))) (mc_n_embd (mg_cfg g))
                  (mc_rms_eps (mg_cfg g))
      | Inl st \<Rightarrow> x)"

definition weight_rows :: "weight \<Rightarrow> u32 \<Rightarrow> u32" where
  "weight_rows w dflt =
     (if t_n_dims (wt_tensor w) \<ge> 2 \<and> t_dims (wt_tensor w) ! 1 \<ge> 1 then ucast (t_dims (wt_tensor w) ! 1) else dflt)"

definition attention_layer :: "genv \<Rightarrow> nat \<Rightarrow> nat \<Rightarrow> vg_modelgraph \<Rightarrow> vg_modelgraph" where
  "attention_layer en layer pos g0 =
     (let cfg = mg_cfg g0; D = mc_n_embd cfg; H = mc_n_head cfg; HKV = (if mc_n_head_kv cfg = 0 then 1 else mc_n_head_kv cfg);
          res = mg_work_embd g0;
          x = input_norm en g0 (blk layer ''attn_norm.weight'') res;
          g = g0\<lparr>mg_work_res := res, mg_work_embd := x\<rparr>
      in case acquire_weight en (blk layer ''attn_q.weight'') of
           Inl st \<Rightarrow> g\<lparr>mg_work_embd := res\<rparr>
         | Inr wq \<Rightarrow>
             (let Q_dim = weight_rows wq (H * mc_head_dim cfg);
                  HD = (if H \<noteq> 0 then Q_dim div H else mc_head_dim cfg);
                  n_rot = (if mc_n_rot cfg \<noteq> 0 \<and> mc_n_rot cfg < HD then mc_n_rot cfg else HD);
                  q = add_bias en g (blk layer ''attn_q.bias'') Q_dim (project en g (blk layer ''attn_q.weight'') wq x Q_dim D);
                  q' = per_head (unat H) (unat HD) (head_rope en g (blk layer ''attn_q_norm.weight'') HD n_rot pos) q;
                  (kd, k) = (case acquire_weight en (blk layer ''attn_k.weight'') of
                     Inl st \<Rightarrow> (HKV * mc_head_dim cfg, None)
                   | Inr wk \<Rightarrow>
                       (let kd = weight_rows wk (HKV * mc_head_dim cfg); k_hdim = kd div HKV;
                            kf = add_bias en g (blk layer ''attn_k.bias'') kd (project en g (blk layer ''attn_k.weight'') wk x kd D)
                        in (kd, Some (per_head (unat HKV) (unat k_hdim)
                                        (head_rope en g (blk layer ''attn_k_norm.weight'') k_hdim n_rot pos) kf))));
                  (vd, v) = (case acquire_weight en (blk layer ''attn_v.weight'') of
                     Inl st \<Rightarrow> (kd, None)
                   | Inr wv \<Rightarrow>
                       (let vd = weight_rows wv kd
                        in (vd, Some (add_bias en g (blk layer ''attn_v.bias'') vd (project en g (blk layer ''attn_v.weight'') wv x vd D)))));
                  g1 = kv_store layer pos k v vd g;
                  att_dim = H * HD;
                  out = sized_norm en g1 (mc_has_sub_norm cfg) (blk layer ''attn_sub_norm.weight'') att_dim
                          (attend en g1 layer pos q' (unat HD) (unat vd))
              in case acquire_weight en (blk layer ''attn_output.weight'') of
                   Inl st \<Rightarrow> g1\<lparr>mg_work_embd := write_all (unat D) (\<lambda>i. res ! i) x\<rparr>
                 | Inr wo \<Rightarrow>
                     (let po = sized_norm en g1 (mc_has_post_norm cfg) (blk layer ''attn_post_norm.weight'') D
                                 (project en g1 (blk layer ''attn_output.weight'') wo out D att_dim)
                      in g1\<lparr>mg_work_embd := write_all (unat D) (\<lambda>i. fadd (res ! i) (po ! i)) x\<rparr>)))"

end
