(* ===== verification/FeedForward.thy ===== *)
theory FeedForward
  imports Attention
begin

text \<open>
  The feed-forward half of a layer, with the mixture of experts, and the decoding of one token: all layers, the language-model
  head and the soft cap (\<^verbatim>\<open>src/src/model_graph.c\<close>).
\<close>

section \<open>Routing\<close>

record vg_moestate =
  mo_n_expert :: u32
  mo_n_expert_used :: u32
  mo_expert_ids :: "nat list"

text \<open>The inner loop: the entry at \<open>j\<close> moves to the front while its logit is larger than that of its predecessor.\<close>

fun sift_left :: "flt list \<Rightarrow> nat list \<Rightarrow> nat \<Rightarrow> nat list" where
  "sift_left lg order 0 = order"
| "sift_left lg order (Suc j) =
     (if f_less (lg ! (order ! j)) (lg ! (order ! Suc j))
      then sift_left lg (order[Suc j := order ! j, j := order ! Suc j]) j else order)"

definition route_order :: "flt list \<Rightarrow> nat \<Rightarrow> nat list" where
  "route_order lg n = foldl (\<lambda>order i. sift_left lg order i) [0..<n] [1..<n]"

text \<open>The router logits may come with the call, or be computed from the block input; with neither the first experts are taken.\<close>

definition vg_model_graph_moe_route ::
  "genv \<Rightarrow> vg_modelgraph option \<Rightarrow> nat \<Rightarrow> flt list option \<Rightarrow> flt list option \<Rightarrow> bool \<Rightarrow> vg_status + vg_moestate" where
  "vg_model_graph_moe_route en gp layer hidden gate_logits has_state =
     (case gp of
        None \<Rightarrow> Inl VG_E_INVALID
      | Some g \<Rightarrow>
          (if \<not> has_state then Inl VG_E_INVALID
           else (let n_expert = (if mc_n_expert (mg_cfg g) > 0 then mc_n_expert (mg_cfg g) else 1);
                     n_used = (if mc_n_expert_used (mg_cfg g) > 0 then mc_n_expert_used (mg_cfg g) else 1);
                     pick = (\<lambda>lg. \<lparr>mo_n_expert = n_expert, mo_n_expert_used = n_used,
                               mo_expert_ids = map (\<lambda>i. route_order lg (unat n_expert) ! i) [0..<unat n_used]\<rparr>)
                 in case gate_logits of
                      Some lg \<Rightarrow> Inr (pick lg)
                    | None \<Rightarrow>
                        (case hidden of
                           Some h \<Rightarrow>
                             (case acquire_weight en (blk layer ''ffn_gate_inp.weight'') of
                                Inl st \<Rightarrow> Inl st
                              | Inr w \<Rightarrow>
                                  (case mm_dispatch en (t_ggml_type (wt_tensor w)) (wt_data w) h (en_junk en (unat n_expert)) n_expert
                                          (mc_n_embd (mg_cfg g)) of
                                     (st, lg) \<Rightarrow> if st = VG_OK then Inr (pick lg) else Inl st))
                         | None \<Rightarrow> Inr \<lparr>mo_n_expert = n_expert, mo_n_expert_used = n_used,
                                    mo_expert_ids = map (\<lambda>i. i mod unat n_expert) [0..<unat n_used]\<rparr>))))"

text \<open>\<^verbatim>\<open>-FLT_MAX\<close>.\<close>

definition minus_flt_max :: flt where
  "minus_flt_max = FFin True (2 ^ 24 - 1) 104"

definition route_weights :: "libm \<Rightarrow> flt list \<Rightarrow> nat list \<Rightarrow> flt list" where
  "route_weights m lg ids =
     (let mx = foldl (\<lambda>mx e. if f_less mx (lg ! e) then lg ! e else mx) minus_flt_max ids;
          es = map (\<lambda>e. m_expf m (fsub (lg ! e) mx)) ids;
          sm = foldl fadd f_zero es
      in if f_less f_zero sm then map (\<lambda>e. fdiv e sm) es else es)"

section \<open>The feed-forward blocks\<close>

text \<open>\<^verbatim>\<open>acc[j] += w * y[j]\<close> over the first \<open>n\<close> places.\<close>

definition axpy :: "nat \<Rightarrow> flt \<Rightarrow> flt list \<Rightarrow> flt list \<Rightarrow> flt list" where
  "axpy n w y acc = write_all n (\<lambda>j. mac (acc ! j) w (y ! j)) acc"

text \<open>Sequencing of steps that fail with a status and keep the cache.\<close>

definition then_ok :: "('a + 'b) \<times> 's \<Rightarrow> ('b \<Rightarrow> 's \<Rightarrow> ('a + 'c) \<times> 's) \<Rightarrow> ('a + 'c) \<times> 's" where
  "then_ok r f = (case r of (Inl st, s) \<Rightarrow> (Inl st, s) | (Inr x, s) \<Rightarrow> f x s)"

definition dispatch_ok :: "genv \<Rightarrow> u32 \<Rightarrow> bytes \<Rightarrow> flt list \<Rightarrow> flt list \<Rightarrow> u32 \<Rightarrow> u32 \<Rightarrow> 's \<Rightarrow> (vg_status + flt list) \<times> 's" where
  "dispatch_ok en type w x y out_dim in_dim s =
     (case mm_dispatch en type w x y out_dim in_dim of (st, y') \<Rightarrow> if st = VG_OK then (Inr y', s) else (Inl st, s))"

text \<open>The output of one expert.\<close>

definition expert_out :: "genv \<Rightarrow> vg_modelgraph \<Rightarrow> nat \<Rightarrow> flt list \<Rightarrow> nat \<Rightarrow> vg_expertcache \<Rightarrow> (vg_status + flt list) \<times> vg_expertcache" where
  "expert_out en g layer xin e c =
     (let D = mc_n_embd (mg_cfg g); FF = mc_n_ff (mg_cfg g)
      in then_ok (acquire_expert en layer 0 (of_nat e) FF D c) (\<lambda>(wg, tg).
         \<lambda>c. then_ok (acquire_expert en layer 1 (of_nat e) FF D c) (\<lambda>(wu, tu).
         \<lambda>c. then_ok (dispatch_ok en tg wg xin (en_junk en (unat FF)) FF D c) (\<lambda>gate.
         \<lambda>c. then_ok (dispatch_ok en tu wu xin (en_junk en (unat FF)) FF D c) (\<lambda>up.
         \<lambda>c. (let act = vg_cpu_swiglu (en_libm en) gate gate up FF
              in then_ok (acquire_expert en layer 2 (of_nat e) D FF c) (\<lambda>(wd, td).
                 \<lambda>c. dispatch_ok en td wd act (en_junk en (unat D)) D FF c)))))))"

fun expert_sum ::
  "genv \<Rightarrow> vg_modelgraph \<Rightarrow> nat \<Rightarrow> flt list \<Rightarrow> (nat \<times> flt) list \<Rightarrow> flt list \<Rightarrow> vg_expertcache \<Rightarrow> (vg_status + flt list) \<times> flt list \<times> vg_expertcache" where
  "expert_sum en g layer xin [] acc c = (Inr acc, acc, c)"
| "expert_sum en g layer xin ((e, w) # es) acc c =
     (case expert_out en g layer xin e c of
        (Inl st, c') \<Rightarrow> (Inl st, acc, c')
      | (Inr y, c') \<Rightarrow> expert_sum en g layer xin es (axpy (unat (mc_n_embd (mg_cfg g))) w y acc) c')"

text \<open>The expert that is always on; its failures leave the sum as it is.\<close>

definition shared_gate :: "genv \<Rightarrow> vg_modelgraph \<Rightarrow> nat \<Rightarrow> flt list \<Rightarrow> flt" where
  "shared_gate en g layer xin =
     (let n = unat (mc_n_embd (mg_cfg g))
      in case acquire_weight en (blk layer ''ffn_gate_inp_shexp.weight'') of
           Inr w \<Rightarrow>
             (if t_ggml_type (wt_tensor w) = 0 \<and> t_n_dims (wt_tensor w) = 1 \<and> t_dims (wt_tensor w) ! 0 = of_nat n
              then fdiv f_one (fadd f_one (m_expf (en_libm en)
                     (f_neg (foldl (\<lambda>acc j. mac acc (f32_list (wt_data w) n ! j) (xin ! j)) f_zero [0..<n])))) else f_one)
         | Inl st \<Rightarrow> f_one)"

definition shared_expert :: "genv \<Rightarrow> vg_modelgraph \<Rightarrow> nat \<Rightarrow> flt list \<Rightarrow> flt list \<Rightarrow> flt list" where
  "shared_expert en g layer xin acc =
     (let D = mc_n_embd (mg_cfg g); FF = mc_n_ff (mg_cfg g)
      in case (acquire_weight en (blk layer ''ffn_gate_shexp.weight''), acquire_weight en (blk layer ''ffn_up_shexp.weight'')) of
           (Inr wg, Inr wu) \<Rightarrow>
             (case (mm_dispatch en (t_ggml_type (wt_tensor wg)) (wt_data wg) xin (en_junk en (unat FF)) FF D,
                    mm_dispatch en (t_ggml_type (wt_tensor wu)) (wt_data wu) xin (en_junk en (unat FF)) FF D) of
                ((VG_OK, gate), (VG_OK, up)) \<Rightarrow>
                  (case acquire_weight en (blk layer ''ffn_down_shexp.weight'') of
                     Inr wd \<Rightarrow>
                       (case mm_dispatch en (t_ggml_type (wt_tensor wd)) (wt_data wd)
                               (vg_cpu_swiglu (en_libm en) gate gate up FF) (en_junk en (unat D)) D FF of
                          (VG_OK, y) \<Rightarrow> axpy (unat D) (shared_gate en g layer xin) y acc
                        | _ \<Rightarrow> acc)
                   | Inl st \<Rightarrow> acc)
              | _ \<Rightarrow> acc)
         | _ \<Rightarrow> acc)"

definition moe_ffn_layer :: "genv \<Rightarrow> nat \<Rightarrow> vg_modelgraph \<Rightarrow> vg_status \<times> vg_modelgraph" where
  "moe_ffn_layer en layer g0 =
     (let cfg = mg_cfg g0; D = mc_n_embd cfg; n = unat D; res = mg_work_embd g0;
          xin = input_norm en g0 (blk layer ''ffn_norm.weight'') res; g = g0\<lparr>mg_work_res := res\<rparr>
      in case acquire_weight en (blk layer ''ffn_gate_inp.weight'') of
           Inl st \<Rightarrow> (st, g)
         | Inr w \<Rightarrow>
             (case mm_dispatch en (t_ggml_type (wt_tensor w)) (wt_data w) xin (en_junk en (unat (mc_n_expert cfg))) (mc_n_expert cfg) D of
                (st, lg) \<Rightarrow>
                  (if st \<noteq> VG_OK then (st, g)
                   else if mc_n_expert_used cfg > 16 then (VG_E_UNSUPPORTED, g)
                   else (case vg_model_graph_moe_route en (Some g) layer None (Some lg) True of
                           Inl st \<Rightarrow> (st, g)
                         | Inr mo \<Rightarrow>
                             (case expert_sum en g layer xin (zip (mo_expert_ids mo) (route_weights (en_libm en) lg (mo_expert_ids mo)))
                                     (write_all n (\<lambda>j. f_zero) res) (mg_cache g) of
                                (Inl st, acc, c) \<Rightarrow> (st, g\<lparr>mg_work_embd := acc, mg_cache := c\<rparr>)
                              | (Inr y, acc, c) \<Rightarrow>
                                  (let y1 = (if mc_has_shared_expert cfg then shared_expert en g layer xin y else y);
                                       y2 = sized_norm en g (mc_has_post_norm cfg) (blk layer ''ffn_post_norm.weight'') D y1
                                   in (VG_OK, g\<lparr>mg_work_embd := write_all n (\<lambda>j. fadd (y2 ! j) (res ! j)) y2, mg_cache := c\<rparr>)))))))"

text \<open>The activation of the dense block; without its weights the buffer keeps what it held.\<close>

definition dense_act :: "genv \<Rightarrow> vg_modelgraph \<Rightarrow> nat \<Rightarrow> flt list \<Rightarrow> flt list" where
  "dense_act en g layer x =
     (let D = mc_n_embd (mg_cfg g); FF = mc_n_ff (mg_cfg g); gn = blk layer ''ffn_gate.weight''; un = blk layer ''ffn_up.weight''
      in if mc_has_gate_up (mg_cfg g) then
           (case (acquire_weight en gn, acquire_weight en un) of
              (Inr wg, Inr wu) \<Rightarrow>
                vg_cpu_swiglu (en_libm en) (mg_work_ffn g) (project en g gn wg x FF D) (project en g un wu x FF D) FF
            | _ \<Rightarrow> mg_work_ffn g)
         else
           vg_cpu_gelu (en_libm en)
             (case acquire_weight en un of
                Inr w \<Rightarrow> snd (mm_dispatch en (t_ggml_type (wt_tensor w)) (wt_data w) x (mg_work_ffn g) FF D)
              | Inl st \<Rightarrow> mg_work_ffn g) FF)"

definition dense_ffn :: "genv \<Rightarrow> nat \<Rightarrow> vg_modelgraph \<Rightarrow> vg_modelgraph" where
  "dense_ffn en layer g0 =
     (let cfg = mg_cfg g0; D = mc_n_embd cfg; FF = mc_n_ff cfg; res = mg_work_embd g0;
          x = input_norm en g0 (blk layer ''ffn_norm.weight'') res;
          g = g0\<lparr>mg_work_res := res, mg_work_embd := x\<rparr>;
          act = sized_norm en g (mc_has_sub_norm cfg) (blk layer ''ffn_sub_norm.weight'') FF (dense_act en g layer x);
          g1 = g\<lparr>mg_work_ffn := act\<rparr>
      in case acquire_weight en (blk layer ''ffn_down.weight'') of
           Inl st \<Rightarrow> g1
         | Inr w \<Rightarrow>
             (let y = sized_norm en g1 (mc_has_post_norm cfg) (blk layer ''ffn_post_norm.weight'') D
                        (project en g1 (blk layer ''ffn_down.weight'') w act D FF)
              in g1\<lparr>mg_work_embd := write_all (unat D) (\<lambda>i. fadd (res ! i) (y ! i)) x\<rparr>))"

text \<open>
  The block of a model with a router and a single expert: the largest unused logit, at most eight times, softmax over the
  picks, and the experts' slices at equal distances in their tensors.
\<close>

definition next_pick :: "flt list \<Rightarrow> nat \<Rightarrow> (nat \<times> flt) list \<Rightarrow> (nat \<times> flt) list" where
  "next_pick lg n picks =
     picks @ [foldl (\<lambda>(best, bv) e. if e \<notin> set (map fst picks) \<and> f_less bv (lg ! e) then (e, lg ! e) else (best, bv)) (0, minus_flt_max) [0..<n]]"

definition pick_weights :: "libm \<Rightarrow> (nat \<times> flt) list \<Rightarrow> flt list" where
  "pick_weights m picks =
     (let mx = foldl (\<lambda>mx w. if f_less mx w then w else mx) (snd (hd picks)) (map snd (tl picks));
          es = map (\<lambda>(e, w). m_expf m (fsub w mx)) picks; sm = foldl fadd f_zero es
      in if f_less f_zero sm then map (\<lambda>e. fdiv e sm) es else es)"

definition stacked :: "weight \<Rightarrow> nat \<Rightarrow> nat \<Rightarrow> bytes" where
  "stacked w n_expert e = drop (e * (unat (t_nbytes (wt_tensor w)) div n_expert)) (wt_data w)"

definition router_ffn :: "genv \<Rightarrow> nat \<Rightarrow> vg_modelgraph \<Rightarrow> vg_modelgraph" where
  "router_ffn en layer g0 =
     (let cfg = mg_cfg g0; D = mc_n_embd cfg; FF = mc_n_ff cfg; n = unat D; res = mg_work_embd g0;
          x = input_norm en g0 (blk layer ''ffn_norm.weight'') res; g = g0\<lparr>mg_work_res := res, mg_work_embd := x\<rparr>;
          NE = unat (if mc_n_expert cfg > 0 then mc_n_expert cfg else 1);
          NU = min 8 (min NE (unat (if mc_n_expert_used cfg > 0 then mc_n_expert_used cfg else 1)));
          lg = (case acquire_weight en (blk layer ''ffn_gate_inp.weight'') of
                  Inr w \<Rightarrow> snd (mm_dispatch en (t_ggml_type (wt_tensor w)) (wt_data w) x (en_junk en NE) (of_nat NE) D)
                | Inl st \<Rightarrow> replicate NE f_zero);
          picks = foldl (\<lambda>ps k. next_pick lg NE ps) [] [0..<NU];
          acc = (case (acquire_weight en (blk layer ''ffn_gate_exps.weight''), acquire_weight en (blk layer ''ffn_up_exps.weight''),
                       acquire_weight en (blk layer ''ffn_down_exps.weight'')) of
                   (Inr wg, Inr wu, Inr wd) \<Rightarrow>
                     foldl (\<lambda>acc (e, w).
                       let gate = snd (mm_dispatch en (t_ggml_type (wt_tensor wg)) (stacked wg NE e) x (en_junk en (unat FF)) FF D);
                           up = snd (mm_dispatch en (t_ggml_type (wt_tensor wu)) (stacked wu NE e) x (en_junk en (unat FF)) FF D);
                           act = vg_cpu_swiglu (en_libm en) (en_junk en (unat FF)) gate up FF;
                           y = snd (mm_dispatch en (t_ggml_type (wt_tensor wd)) (stacked wd NE e) act (en_junk en n) D FF)
                       in axpy n w y acc) (replicate n f_zero) (zip (map fst picks) (pick_weights (en_libm en) picks))
                 | _ \<Rightarrow> replicate n f_zero)
      in g\<lparr>mg_work_embd := write_all n (\<lambda>i. fadd (res ! i) (acc ! i)) x\<rparr>)"

definition ffn_layer :: "genv \<Rightarrow> nat \<Rightarrow> vg_modelgraph \<Rightarrow> vg_status \<times> vg_modelgraph" where
  "ffn_layer en layer g =
     (if mc_n_expert (mg_cfg g) > 1 then moe_ffn_layer en layer g
      else if find_tensor en (blk 0 ''ffn_gate_inp.weight'') \<noteq> None then (VG_OK, router_ffn en layer g)
      else (VG_OK, dense_ffn en layer g))"

section \<open>Decoding a token\<close>

text \<open>The position passes through a \<^verbatim>\<open>float\<close>.\<close>

definition float_pos :: "int \<Rightarrow> nat" where
  "float_pos pos = (case f_of_int binary32 pos of FFin s m e \<Rightarrow> if e \<ge> 0 then m * 2 ^ nat e else m div 2 ^ nat (- e) | _ \<Rightarrow> 0)"

fun run_layers :: "genv \<Rightarrow> nat \<Rightarrow> nat list \<Rightarrow> vg_modelgraph \<Rightarrow> vg_status \<times> vg_modelgraph" where
  "run_layers en pos [] g = (VG_OK, g)"
| "run_layers en pos (l # ls) g =
     (let g1 = attention_layer en l pos g;
          (st, g2) = ffn_layer en l g1
      in if st \<noteq> VG_OK then (st, g2) else run_layers en pos ls g2)"

text \<open>One row of the output matrix.\<close>

definition head_dot :: "nat \<Rightarrow> flt list \<Rightarrow> flt list \<Rightarrow> flt" where
  "head_dot n row x = foldl (\<lambda>acc i. mac acc (row ! i) (x ! i)) f_zero [0..<n]"

definition logit_f32 :: "genv \<Rightarrow> vg_gguf_tensor \<Rightarrow> u32 \<Rightarrow> flt list \<Rightarrow> nat \<Rightarrow> flt" where
  "logit_f32 en t D x v =
     (let row_bytes = D * 4
      in case file_bytes en t (of_nat v * ucast row_bytes) (ucast row_bytes) of
           Inr b \<Rightarrow> head_dot (unat D) (f32_list b (unat D)) x | Inl st \<Rightarrow> minus_flt_max)"

text \<open>A batch of at most 256 rows read at once; \<open>buf\<close> is the row buffer, which a failed decoding leaves as it was.\<close>

definition logit_batch ::
  "genv \<Rightarrow> vg_gguf_tensor \<Rightarrow> vg_quantinfo \<Rightarrow> u32 \<Rightarrow> flt list \<Rightarrow> nat \<Rightarrow> nat \<Rightarrow> flt list \<times> flt list \<Rightarrow> flt list \<times> flt list" where
  "logit_batch en t qi D x v cnt lgb =
     (let row_bytes = ucast (D div qi_block_size qi) * ucast (qi_bytes_per_block qi) :: u64
      in case file_bytes en t (of_nat v * row_bytes) (of_nat cnt * row_bytes) of
           Inr b \<Rightarrow>
             foldl (\<lambda>(lg, buf) i.
               let buf' = (case vg_dequantize_row (t_ggml_type t) (Some (slice b (i * unat row_bytes) (unat row_bytes))) row_bytes True (ucast D) of
                             Inr r \<Rightarrow> r | Inl st \<Rightarrow> buf)
               in (lg[v + i := head_dot (unat D) buf' x], buf')) lgb [0..<cnt]
         | Inl st \<Rightarrow> (foldl (\<lambda>lg i. lg[v + i := minus_flt_max]) (fst lgb) [0..<cnt], snd lgb))"

function logit_batches ::
  "genv \<Rightarrow> vg_gguf_tensor \<Rightarrow> vg_quantinfo \<Rightarrow> u32 \<Rightarrow> flt list \<Rightarrow> nat \<Rightarrow> nat \<Rightarrow> flt list \<times> flt list \<Rightarrow> flt list \<times> flt list" where
  "logit_batches en t qi D x v n lgb =
     (if v < n then logit_batches en t qi D x (v + 256) n (logit_batch en t qi D x v (if n - v < 256 then n - v else 256) lgb) else lgb)"
  by pat_completeness auto
termination
  by (relation "measure (\<lambda>(en, t, qi, D, x, v, n, lgb). n - v)") auto

definition lm_head :: "genv \<Rightarrow> vg_modelgraph \<Rightarrow> flt list \<Rightarrow> flt list" where
  "lm_head en g x =
     (let D = mc_n_embd (mg_cfg g); n = unat (mc_n_vocab (mg_cfg g))
      in case (case find_tensor en (cstr ''output.weight'') of Some t \<Rightarrow> Some t | None \<Rightarrow> find_tensor en (cstr ''token_embd.weight'')) of
           None \<Rightarrow> replicate n f_zero
         | Some t \<Rightarrow>
             (if t_ggml_type t = 0 then write_all n (logit_f32 en t D x) (mg_logits g)
              else (case vg_quant_info (t_ggml_type t) of
                      None \<Rightarrow> mg_logits g
                    | Some qi \<Rightarrow> if qi_block_size qi > 0 then fst (logit_batches en t qi D x 0 n (mg_logits g, en_junk en (unat D)))
                                else mg_logits g)))"

definition softcap :: "libm \<Rightarrow> flt \<Rightarrow> nat \<Rightarrow> flt list \<Rightarrow> flt list" where
  "softcap m cap n lg = (if f_less f_zero cap then write_all n (\<lambda>v. fmul cap (m_tanhf m (fdiv (lg ! v) cap))) lg else lg)"

definition vg_model_graph_decode :: "genv \<Rightarrow> vg_modelgraph option \<Rightarrow> int \<Rightarrow> int \<Rightarrow> vg_status \<times> flt list option \<times> vg_modelgraph option" where
  "vg_model_graph_decode en gp input_token kv_pos =
     (case gp of
        None \<Rightarrow> (VG_E_INVALID, None, None)
      | Some g \<Rightarrow>
          (if (word_of_int kv_pos :: u32) \<ge> mc_n_ctx (mg_cfg g) then (VG_E_RANGE, None, gp)
           else (case vg_model_graph_embed en gp input_token of
                   Inl st \<Rightarrow> (st, None, gp)
                 | Inr x \<Rightarrow>
                     (case run_layers en (float_pos kv_pos) [0..<unat (mc_n_layer (mg_cfg g))] (g\<lparr>mg_work_embd := x\<rparr>) of
                        (st, g1) \<Rightarrow>
                          (if st \<noteq> VG_OK then (st, None, Some g1)
                           else (let y = input_norm en g1 (cstr ''output_norm.weight'') (mg_work_embd g1);
                                     lg = softcap (en_libm en) (mc_logit_softcap (mg_cfg g1)) (unat (mc_n_vocab (mg_cfg g1))) (lm_head en g1 y)
                                 in (VG_OK, Some lg, Some (g1\<lparr>mg_work_embd := y, mg_logits := lg\<rparr>))))))))"

end
