(* ===== verification/ModelGraph.thy ===== *)
theory ModelGraph
  imports FeedForward
begin

text \<open>
  Loading a graph from the metadata and the tensors of a file, and the functions that read and change a loaded graph
  (\<^verbatim>\<open>src/src/model_graph.c\<close>).
\<close>

section \<open>Loading\<close>

text \<open>The numbers of the metadata: what stands after brackets, blanks and commas.\<close>

definition skip_list_chars :: "bytes \<Rightarrow> bytes" where
  "skip_list_chars v = dropWhile (\<lambda>c. c = 91 \<or> c = 32 \<or> c = 44) v"

definition read_metadata_int :: "genv \<Rightarrow> bytes \<Rightarrow> int \<Rightarrow> int" where
  "read_metadata_int en key old =
     (case vg_gguf_meta (Some (en_file en)) (Some key) of
        None \<Rightarrow> old
      | Some v \<Rightarrow> sint (word_of_int (fst (strtol (skip_list_chars v))) :: u32))"

definition read_metadata_float :: "genv \<Rightarrow> bytes \<Rightarrow> flt option" where
  "read_metadata_float en key =
     (case vg_gguf_meta (Some (en_file en)) (Some key) of
        None \<Rightarrow> None
      | Some v \<Rightarrow> (let x = en_strtof en (skip_list_chars v) in if f_isfinite x then Some x else None))"

text \<open>A key under the prefix of the architecture, cut to the buffer of 128 bytes.\<close>

definition arch_key :: "bytes \<Rightarrow> string \<Rightarrow> bytes" where
  "arch_key arch field = take 127 (arch @ cstr ''.'' @ cstr field)"

definition read_field :: "genv \<Rightarrow> bytes \<Rightarrow> string \<Rightarrow> u32" where
  "read_field en arch field = word_of_int (read_metadata_int en (arch_key arch field) 0)"

definition tensor_dim :: "genv \<Rightarrow> string \<Rightarrow> nat \<Rightarrow> u64 option" where
  "tensor_dim en name i =
     (case find_tensor en (cstr name) of
        Some t \<Rightarrow> if t_n_dims t \<ge> of_nat (Suc i) then Some (t_dims t ! i) else None
      | None \<Rightarrow> None)"

definition read_sizes :: "genv \<Rightarrow> bytes \<Rightarrow> vg_modelconfig \<Rightarrow> vg_modelconfig" where
  "read_sizes en arch c0 =
     (let or_dim = (\<lambda>v name i. if v = 0 then (case tensor_dim en name i of Some d \<Rightarrow> ucast d | None \<Rightarrow> 0) else v);
          n_vocab = or_dim (read_field en arch ''vocab_size'') ''token_embd.weight'' 1;
          n_embd = or_dim (read_field en arch ''embedding_length'') ''token_embd.weight'' 0;
          n_head = read_field en arch ''attention.head_count'';
          n_head_kv = (let h = read_field en arch ''attention.head_count_kv'' in if h = 0 then n_head else h);
          n_layer = read_field en arch ''block_count'';
          n_ff = or_dim (read_field en arch ''feed_forward_length'') ''blk.0.ffn_down.weight'' 0;
          hd0 = (case tensor_dim en ''blk.0.attn_q.weight'' 1 of
                   Some d \<Rightarrow> if n_head \<noteq> 0 then ucast (d div ucast n_head) else 0 | None \<Rightarrow> 0);
          head_dim = (if hd0 = 0 then n_embd div (if n_head \<noteq> 0 then n_head else 1) else hd0);
          rot0 = (let r = read_field en arch ''rope.dimension_count'' in if r = 0 then head_dim else r);
          n_rot = (if rot0 > head_dim then head_dim else rot0)
      in c0\<lparr>mc_n_vocab := n_vocab, mc_n_embd := n_embd, mc_n_head := n_head, mc_n_head_kv := n_head_kv, mc_n_layer := n_layer,
            mc_n_ff := n_ff, mc_head_dim := head_dim, mc_n_rot := n_rot\<rparr>)"

text \<open>The defaults \<^verbatim>\<open>1e-5f\<close> and \<^verbatim>\<open>100000.0f\<close>.\<close>

definition read_numerics :: "genv \<Rightarrow> bytes \<Rightarrow> vg_modelconfig \<Rightarrow> vg_modelconfig" where
  "read_numerics en arch c =
     (let eps = (case read_metadata_float en (arch_key arch ''attention.layer_norm_rms_epsilon'') of Some x \<Rightarrow> x | None \<Rightarrow> mc_rms_eps c);
          base = (case read_metadata_float en (arch_key arch ''rope.freq_base'') of Some x \<Rightarrow> x | None \<Rightarrow> mc_freq_base c);
          cap = (\<lambda>field. case read_metadata_float en (arch_key arch field) of
                   Some x \<Rightarrow> if f_isfinite x \<and> f_less f_zero x then Some x else None | None \<Rightarrow> None)
      in c\<lparr>mc_rms_eps := (if \<not> f_isfinite eps \<or> f_leq eps f_zero then fdiv f_one (FFin False 100000 0) else eps),
           mc_freq_base := (if \<not> f_isfinite base \<or> f_less base f_one then FFin False 100000 0 else base),
           mc_attn_logit_softcap := (case cap ''attention.logit_softcap'' of Some x \<Rightarrow> x | None \<Rightarrow> mc_attn_logit_softcap c),
           mc_logit_softcap := (case cap ''final_logit_softcap'' of Some x \<Rightarrow> x | None \<Rightarrow> mc_logit_softcap c)\<rparr>)"

text \<open>Frequencies of the file, dropped when one of them is out of range.\<close>

definition read_rope_freqs :: "genv \<Rightarrow> flt list option" where
  "read_rope_freqs en =
     (case find_tensor en (cstr ''rope_freqs.weight'') of
        None \<Rightarrow> None
      | Some t \<Rightarrow>
          (if t_n_dims t \<ge> 1 \<and> t_ggml_type t = 0 then
             (let n = ucast (t_dims t ! 0) :: u32
              in case file_bytes en t 0 (ucast n * 4) of
                   Inl st \<Rightarrow> None
                 | Inr b \<Rightarrow>
                     (let fs = f32_list b (unat n)
                      in if list_all (\<lambda>f. f_isfinite f \<and> \<not> f_leq f f_zero \<and> \<not> f_less (FFin False 1000000 0) f) fs then Some fs else None))
           else None))"

definition read_experts :: "genv \<Rightarrow> bytes \<Rightarrow> vg_modelconfig \<Rightarrow> vg_modelconfig" where
  "read_experts en arch c =
     (let n0 = read_field en arch ''expert_count''; u0 = read_field en arch ''expert_used_count'';
          u1 = (if u0 = 0 \<and> n0 > 0 then 1 else u0); n1 = (if n0 = 0 then 1 else n0);
          u2 = (if u1 = 0 then 1 else u1)
      in c\<lparr>mc_n_expert := n1, mc_n_expert_used := (if u2 > n1 then n1 else u2)\<rparr>)"

definition read_window :: "genv \<Rightarrow> bytes \<Rightarrow> vg_modelconfig \<Rightarrow> vg_modelconfig" where
  "read_window en arch c =
     (let n_ctx = read_metadata_int en (arch_key arch ''context_length'') 0;
          w0 = read_metadata_int en (arch_key arch ''attention.sliding_window'') 0;
          w1 = (if w0 \<le> 0 then read_metadata_int en (cstr ''llama.attention.sliding_window'') w0 else w0);
          w2 = (if w1 \<le> 0 then read_metadata_int en (cstr ''attention.sliding_window'') w1 else w1)
      in c\<lparr>mc_n_ctx := (if n_ctx > 0 then word_of_int n_ctx else 2048), mc_sliding_window := (if w2 > 0 then word_of_int w2 else 512)\<rparr>)"

definition read_flags :: "genv \<Rightarrow> vg_modelconfig \<Rightarrow> vg_modelconfig" where
  "read_flags en c =
     (let has = (\<lambda>name. find_tensor en (cstr name) \<noteq> None)
      in c\<lparr>mc_bos_id := read_metadata_int en (cstr ''tokenizer.ggml.bos_token_id'') (mc_bos_id c),
           mc_eos_id := read_metadata_int en (cstr ''tokenizer.ggml.eos_token_id'') (mc_eos_id c),
           mc_has_biases := has ''blk.0.attn_q.bias'', mc_has_gate_up := has ''blk.0.ffn_gate.weight'',
           mc_has_sub_norm := has ''blk.0.attn_sub_norm.weight'',
           mc_has_post_norm := has ''blk.0.attn_post_norm.weight'' \<and> has ''blk.0.ffn_post_norm.weight'',
           mc_has_shared_expert := has ''blk.0.ffn_gate_shexp.weight'' \<and> has ''blk.0.ffn_down_shexp.weight''\<rparr>)"

definition load_config :: "genv \<Rightarrow> bytes \<Rightarrow> vg_modelconfig" where
  "load_config en arch = read_flags en (read_window en arch (read_experts en arch (read_numerics en arch (read_sizes en arch zero_config))))"

text \<open>The number of pages of a layer is computed in 32 bits, and so is the length of the page tables.\<close>

definition kv_pages_of :: "vg_modelconfig \<Rightarrow> u32" where
  "kv_pages_of c = (mc_n_ctx c + 64 - 1) div 64"

definition cache_slots_of :: "vg_modelconfig \<Rightarrow> u32" where
  "cache_slots_of c = (let cap = mc_n_expert_used c * 4; cap1 = (if cap < 8 then 8 else cap) in if cap1 > 256 then 256 else cap1)"

definition vg_model_graph_load :: "genv \<Rightarrow> vg_status + vg_modelgraph" where
  "vg_model_graph_load en =
     (case vg_gguf_meta (Some (en_file en)) (Some (cstr ''general.architecture'')) of
        None \<Rightarrow> Inl VG_E_FORMAT
      | Some arch \<Rightarrow>
          (let c = load_config en arch; n_pages = kv_pages_of c; tables = unat (mc_n_layer c * n_pages)
           in Inr \<lparr>mg_cfg = c, mg_work_embd = en_junk en (unat (mc_n_embd c)), mg_work_res = en_junk en (unat (mc_n_embd c)),
                mg_work_ffn = en_junk en (unat (mc_n_ff c)), mg_logits = en_junk en (unat (mc_n_vocab c)),
                mg_rope_freqs = read_rope_freqs en, mg_kv_k = replicate tables None, mg_kv_v = replicate tables None,
                mg_kv_dim = replicate (unat (mc_n_layer c)) 0, mg_kv_capacity = n_pages,
                mg_cache = expert_cache_init (cache_slots_of c), mg_lora = None, mg_lora_scale = f_zero\<rparr>))"

section \<open>The other operations\<close>

definition vg_model_graph_reset :: "vg_modelgraph option \<Rightarrow> vg_modelgraph option" where
  "vg_model_graph_reset gp =
     map_option (\<lambda>g.
       let wipe = (\<lambda>mem pages. map (\<lambda>i. case pages ! i of
               Some p \<Rightarrow> (let n = 64 * unat (mg_kv_dim g ! (i div unat (mg_kv_capacity g)))
                         in if mem ! i \<noteq> None then Some (replicate n f_zero @ drop n p) else Some p)
             | None \<Rightarrow> None) [0..<length pages])
       in g\<lparr>mg_kv_k := wipe (mg_kv_k g) (mg_kv_k g), mg_kv_v := wipe (mg_kv_k g) (mg_kv_v g)\<rparr>) gp"

definition vg_model_graph_config :: "vg_modelgraph option \<Rightarrow> vg_modelconfig option" where
  "vg_model_graph_config gp = map_option mg_cfg gp"

definition vg_model_graph_logits :: "vg_modelgraph option \<Rightarrow> flt list option" where
  "vg_model_graph_logits gp = map_option mg_logits gp"

definition vg_model_graph_set_lora :: "vg_loraadapter option \<Rightarrow> flt \<Rightarrow> vg_modelgraph option \<Rightarrow> vg_status \<times> vg_modelgraph option" where
  "vg_model_graph_set_lora adapter scale gp =
     (case gp of
        None \<Rightarrow> (VG_E_INVALID, None)
      | Some g \<Rightarrow> (VG_OK, Some (g\<lparr>mg_lora := adapter,
          mg_lora_scale := (if f_isfinite scale \<and> (f_less f_zero scale \<or> f_less scale f_zero) then scale else f_one)\<rparr>)))"

definition vg_model_graph_expert_stats :: "vg_modelgraph option \<Rightarrow> (u64 \<times> u64 \<times> u64) option" where
  "vg_model_graph_expert_stats gp = map_option (\<lambda>g. (ec_hits (mg_cache g), ec_misses (mg_cache g), ec_evictions (mg_cache g))) gp"

definition vg_model_graph_set_expert_cache :: "u32 \<Rightarrow> vg_modelgraph option \<Rightarrow> vg_status \<times> vg_modelgraph option" where
  "vg_model_graph_set_expert_cache capacity gp =
     (case gp of
        None \<Rightarrow> (VG_E_INVALID, None)
      | Some g \<Rightarrow>
          (if capacity > 4096 then (VG_E_INVALID, gp)
           else (VG_OK, Some (g\<lparr>mg_cache := expert_cache_init (if capacity \<noteq> 0 then capacity else 8)\<rparr>))))"

text \<open>The decoding function the engine runs.\<close>

definition graph_decoder :: "genv \<Rightarrow> vg_modelgraph decoder" where
  "graph_decoder en token pos g =
     (case vg_model_graph_decode en (Some g) token pos of (st, lg, g') \<Rightarrow> (st, case lg of Some l \<Rightarrow> l | None \<Rightarrow> [], the g'))"

end
