(* ===== verification/Probe.thy ===== *)
theory Probe
  imports ModelGraph
begin

text \<open>
  The model probe (\<^verbatim>\<open>include/vg/model_probe.h\<close>, \<^verbatim>\<open>src/model_probe.c\<close>): whether the engine can run the model of a
  file, decided from its metadata and the layouts of its tensors before anything is loaded. The first failure is kept.
\<close>

section \<open>The report\<close>

record vg_modelprobe =
  mp_ok :: bool
  mp_status :: vg_status
  mp_arch :: bytes
  mp_detail :: bytes
  mp_detail_tensor :: bytes
  mp_n_vocab :: u32
  mp_n_layer :: u32
  mp_n_embd :: u32
  mp_n_head :: u32
  mp_n_head_kv :: u32
  mp_head_dim :: u32
  mp_n_ff :: u32
  mp_n_rot :: u32
  mp_n_expert :: u32
  mp_n_expert_used :: u32
  mp_n_ctx :: u32
  mp_has_tokenizer :: bool
  mp_has_bias :: bool
  mp_has_qk_norm :: bool
  mp_has_sub_norm :: bool
  mp_has_post_norm :: bool
  mp_has_shared_expert :: bool
  mp_logit_softcap :: flt
  mp_is_moe :: bool
  mp_quant_names :: "string list"
  mp_required_ops :: bytes

definition new_probe :: vg_modelprobe where
  "new_probe = \<lparr>mp_ok = True, mp_status = VG_OK, mp_arch = [], mp_detail = [], mp_detail_tensor = [], mp_n_vocab = 0, mp_n_layer = 0,
     mp_n_embd = 0, mp_n_head = 0, mp_n_head_kv = 0, mp_head_dim = 0, mp_n_ff = 0, mp_n_rot = 0, mp_n_expert = 0, mp_n_expert_used = 0,
     mp_n_ctx = 0, mp_has_tokenizer = False, mp_has_bias = False, mp_has_qk_norm = False, mp_has_sub_norm = False,
     mp_has_post_norm = False, mp_has_shared_expert = False, mp_logit_softcap = f_zero, mp_is_moe = False, mp_quant_names = [],
     mp_required_ops = []\<rparr>"

definition k_archs :: "string list" where
  "k_archs = [''llama'', ''mistral'', ''qwen2'', ''qwen2moe'', ''qwen3'', ''qwen3moe'', ''gemma'', ''gemma2'', ''gemma3'', ''smollm'',
     ''tinyllama'', ''bitnet'', ''deepseek_moe'', ''mixtral'']"

definition arch_supported :: "bytes \<Rightarrow> bool" where
  "arch_supported arch \<longleftrightarrow> list_ex (\<lambda>a. arch = cstr a) k_archs"

text \<open>An integer of the metadata; a value without digits counts as missing.\<close>

definition meta_int :: "vg_gguf \<Rightarrow> bytes \<Rightarrow> int option" where
  "meta_int g key =
     (case vg_gguf_meta (Some g) (Some key) of
        None \<Rightarrow> None
      | Some v \<Rightarrow>
          (let p = skip_list_chars v; (x, rest) = strtol p
           in if length rest = length p then None else Some (sint (word_of_int x :: u32))))"

definition probe_find :: "vg_gguf \<Rightarrow> bytes \<Rightarrow> vg_gguf_tensor option" where
  "probe_find g name = map_option (\<lambda>i. the (g_tensors g) ! i) (vg_gguf_find_tensor (Some g) (Some name))"

definition quant_name :: "u32 \<Rightarrow> string" where
  "quant_name type = (case vg_quant_info type of Some qi \<Rightarrow> qi_name qi | None \<Rightarrow> ''UNKNOWN'')"

text \<open>The names are compared by address in the code; the names of the table are different literals.\<close>

definition add_quant :: "u32 \<Rightarrow> vg_modelprobe \<Rightarrow> vg_modelprobe" where
  "add_quant type p =
     (if quant_name type \<in> set (mp_quant_names p) \<or> length (mp_quant_names p) \<ge> 12 then p
      else p\<lparr>mp_quant_names := mp_quant_names p @ [quant_name type]\<rparr>)"

text \<open>\<^verbatim>\<open>fail\<close>, with its message already put together.\<close>

definition probe_fail :: "vg_status \<Rightarrow> bytes option \<Rightarrow> bytes \<Rightarrow> vg_modelprobe \<Rightarrow> vg_modelprobe" where
  "probe_fail st tensor msg p =
     (if mp_status p \<noteq> VG_OK then p
      else p\<lparr>mp_ok := False, mp_status := st, mp_detail := take 255 msg,
             mp_detail_tensor := (case tensor of Some t \<Rightarrow> take 95 t | None \<Rightarrow> mp_detail_tensor p)\<rparr>)"

definition quoted :: "bytes \<Rightarrow> bytes" where
  "quoted s = cstr '' '' @ 39 # s @ [39]"

definition first_dim :: "vg_gguf_tensor \<Rightarrow> bytes" where
  "first_dim t = dec (unat (if t_n_dims t \<noteq> 0 then t_dims t ! 0 else 0))"

section \<open>Checks of one tensor\<close>

text \<open>A check answers whether to go on, and the report.\<close>

type_synonym check = "vg_modelprobe \<Rightarrow> bool \<times> vg_modelprobe"

definition missing :: "bytes \<Rightarrow> bytes" where
  "missing name = cstr ''required tensor'' @ quoted name @ cstr '' is missing''"

definition no_dequantizer :: "bytes \<Rightarrow> string \<Rightarrow> bytes" where
  "no_dequantizer name q = cstr ''tensor'' @ quoted name @ cstr '' uses '' @ cstr q @ cstr '', which has no CPU dequantizer''"

definition require_vector :: "vg_gguf \<Rightarrow> bytes \<Rightarrow> u32 \<Rightarrow> check" where
  "require_vector g name dm p =
     (case probe_find g name of
        None \<Rightarrow> (False, probe_fail VG_E_UNSUPPORTED (Some name) (missing name) p)
      | Some t \<Rightarrow>
          (if \<not> (case vg_quant_info (t_ggml_type t) of Some qi \<Rightarrow> qi_scalar qi | None \<Rightarrow> False) then
             (False, probe_fail VG_E_UNSUPPORTED (Some name)
                (no_dequantizer name (case vg_quant_info (t_ggml_type t) of Some qi \<Rightarrow> qi_name qi | None \<Rightarrow> ''an unknown type'')) p)
           else if t_n_dims t \<noteq> 1 \<or> (dm \<noteq> 0 \<and> t_dims t ! 0 \<noteq> ucast dm) then
             (False, probe_fail VG_E_FORMAT (Some name)
                (cstr ''tensor'' @ quoted name @ cstr '' has shape '' @ first_dim t @ cstr '', expected '' @ dec (unat dm)) p)
           else (True, p)))"

definition require_tensor :: "vg_gguf \<Rightarrow> bytes \<Rightarrow> u32 \<Rightarrow> u32 \<Rightarrow> bool \<Rightarrow> check" where
  "require_tensor g name dim0 dim1 check_dims p =
     (case probe_find g name of
        None \<Rightarrow> (False, probe_fail VG_E_UNSUPPORTED (Some name) (missing name) p)
      | Some t \<Rightarrow>
          (case vg_quant_info (t_ggml_type t) of
             None \<Rightarrow> (False, probe_fail VG_E_UNSUPPORTED (Some name)
               (cstr ''tensor'' @ quoted name @ cstr '' uses unknown ggml type '' @ dec (unat (t_ggml_type t))) p)
           | Some qi \<Rightarrow>
               (let p = add_quant (t_ggml_type t) p
                in if \<not> qi_scalar qi then (False, probe_fail VG_E_UNSUPPORTED (Some name) (no_dequantizer name (qi_name qi)) p)
                   else if \<not> check_dims then (True, p)
                   else if t_n_dims t < 2 then
                     (False, probe_fail VG_E_FORMAT (Some name)
                        (cstr ''tensor'' @ quoted name @ cstr '' is not a matrix ('' @ dec (unat (t_n_dims t)) @ cstr '' dims)'') p)
                   else if dim0 \<noteq> 0 \<and> t_dims t ! 0 \<noteq> ucast dim0 then
                     (False, probe_fail VG_E_FORMAT (Some name)
                        (cstr ''tensor'' @ quoted name @ cstr '' has '' @ dec (unat (t_dims t ! 0)) @ cstr '' input rows, expected '' @ dec (unat dim0)) p)
                   else if dim1 \<noteq> 0 \<and> t_dims t ! 1 \<noteq> ucast dim1 then
                     (False, probe_fail VG_E_FORMAT (Some name)
                        (cstr ''tensor'' @ quoted name @ cstr '' has '' @ dec (unat (t_dims t ! 1)) @ cstr '' outputs, expected '' @ dec (unat dim1)) p)
                   else if t_dims t ! 0 mod ucast (qi_block_size qi) \<noteq> 0 then
                     (False, probe_fail VG_E_FORMAT (Some name)
                        (cstr ''tensor'' @ quoted name @ cstr '' row length '' @ dec (unat (t_dims t ! 0)) @ cstr '' is not a multiple of '' @
                         dec (unat (qi_block_size qi)) @ cstr '' ('' @ cstr (qi_name qi) @ cstr '' block)'') p)
                   else (True, p))))"

text \<open>Checks in order, up to the first that stops.\<close>

fun run_checks :: "check list \<Rightarrow> check" where
  "run_checks [] p = (True, p)"
| "run_checks (c # cs) p = (case c p of (True, p') \<Rightarrow> run_checks cs p' | (False, p') \<Rightarrow> (False, p'))"

definition stop_if :: "bool \<Rightarrow> vg_status \<Rightarrow> bytes option \<Rightarrow> bytes \<Rightarrow> check" where
  "stop_if b st tensor msg p = (if b then (False, probe_fail st tensor msg p) else (True, p))"

section \<open>The probe\<close>

definition positive_meta :: "vg_gguf \<Rightarrow> bytes \<Rightarrow> string \<Rightarrow> u32" where
  "positive_meta g arch field =
     (case meta_int g (take 159 (arch @ cstr ''.'' @ cstr field)) of Some v \<Rightarrow> if v > 0 then word_of_int v else 0 | None \<Rightarrow> 0)"

definition probe_n_ctx :: "vg_gguf \<Rightarrow> bytes \<Rightarrow> u32" where
  "probe_n_ctx g arch =
     (let n0 = (case meta_int g (cstr ''llama.context_length'') of
                  Some v \<Rightarrow> word_of_int v
                | None \<Rightarrow> (case meta_int g (cstr ''qwen2.context_length'') of Some v \<Rightarrow> word_of_int v | None \<Rightarrow> 0));
          n1 = (if n0 = 0 then positive_meta g arch ''context_length'' else n0)
      in if n1 = 0 then 2048 else n1)"

definition probe_sizes :: "vg_gguf \<Rightarrow> bytes \<Rightarrow> vg_modelprobe \<Rightarrow> vg_modelprobe" where
  "probe_sizes g arch p =
     p\<lparr>mp_n_ctx := probe_n_ctx g arch, mp_n_layer := positive_meta g arch ''block_count'', mp_n_embd := positive_meta g arch ''embedding_length'',
       mp_n_head := positive_meta g arch ''attention.head_count'', mp_n_head_kv := positive_meta g arch ''attention.head_count_kv'',
       mp_n_ff := positive_meta g arch ''feed_forward_length'', mp_n_rot := positive_meta g arch ''rope.dimension_count'',
       mp_n_expert := positive_meta g arch ''expert_count'', mp_n_expert_used := positive_meta g arch ''expert_used_count'',
       mp_n_vocab := positive_meta g arch ''vocab_size'', mp_head_dim := positive_meta g arch ''attention.key_length''\<rparr>"

definition derive_sizes :: "vg_gguf_tensor \<Rightarrow> vg_modelprobe \<Rightarrow> vg_modelprobe" where
  "derive_sizes te p =
     p\<lparr>mp_n_vocab := (if mp_n_vocab p = 0 \<and> t_n_dims te \<ge> 2 then ucast (t_dims te ! 1) else mp_n_vocab p),
       mp_n_embd := (if mp_n_embd p = 0 \<and> t_n_dims te \<ge> 1 then ucast (t_dims te ! 0) else mp_n_embd p)\<rparr>"

definition derive_heads :: "vg_modelprobe \<Rightarrow> vg_modelprobe" where
  "derive_heads p =
     (let kv = (if mp_n_head_kv p = 0 then mp_n_head p else mp_n_head_kv p);
          hdm = (if mp_head_dim p = 0 \<and> mp_n_head p \<noteq> 0 then mp_n_embd p div mp_n_head p else mp_head_dim p);
          rot = (if mp_n_rot p = 0 then hdm else mp_n_rot p)
      in p\<lparr>mp_n_head_kv := kv, mp_head_dim := hdm, mp_n_rot := (if rot > hdm then hdm else rot)\<rparr>)"

definition probe_flags :: "vg_gguf \<Rightarrow> vg_modelprobe \<Rightarrow> vg_modelprobe" where
  "probe_flags g p =
     (let has = (\<lambda>name. probe_find g (cstr name) \<noteq> None);
          moe = (mp_n_expert p > 1 \<and> has ''blk.0.ffn_gate_inp.weight'')
      in p\<lparr>mp_has_tokenizer := vg_gguf_meta (Some g) (Some (cstr ''tokenizer.ggml.model'')) \<noteq> None,
           mp_has_bias := has ''blk.0.attn_q.bias'', mp_has_qk_norm := has ''blk.0.attn_q_norm.weight'',
           mp_has_sub_norm := has ''blk.0.attn_sub_norm.weight'',
           mp_has_post_norm := has ''blk.0.attn_post_norm.weight'' \<and> has ''blk.0.ffn_post_norm.weight'',
           mp_has_shared_expert := has ''blk.0.ffn_gate_shexp.weight'' \<and> has ''blk.0.ffn_down_shexp.weight'',
           mp_is_moe := moe, mp_n_expert_used := (if moe \<and> mp_n_expert_used p = 0 then 1 else mp_n_expert_used p)\<rparr>)"

text \<open>Layouts that would be computed wrongly.\<close>

definition k_unhandled :: "(string \<times> string) list" where
  "k_unhandled =
     [(''blk.0.attn_qkv.weight'', ''fused QKV projection (attn_qkv.weight)''),
      (''blk.0.attn_q_a.weight'', ''MLA compressed Q projection (attn_q_a.weight)''),
      (''blk.0.kv_a_proj_with_mqa.weight'', ''MLA KV projection (kv_a_proj_with_mqa.weight)''),
      (''blk.0.ffn_gate_up.weight'', ''fused gate/up projection (ffn_gate_up.weight)''),
      (''position_embd.weight'', ''learned positional embeddings (position_embd.weight)''),
      (''blk.0.attn_conv_q.weight'', ''convolutional attention (attn_conv_q.weight)'')]"

definition packed_up :: "vg_gguf \<Rightarrow> vg_modelprobe \<Rightarrow> bool" where
  "packed_up g p \<longleftrightarrow>
     (case probe_find g (cstr ''blk.0.ffn_up.weight'') of
        Some t \<Rightarrow> mp_n_ff p \<noteq> 0 \<and> t_n_dims t \<ge> 2 \<and> t_dims t ! 1 = 2 * ucast (mp_n_ff p) \<and> probe_find g (cstr ''blk.0.ffn_gate.weight'') = None
      | None \<Rightarrow> False)"

definition layout_checks :: "vg_gguf \<Rightarrow> check list" where
  "layout_checks g =
     map (\<lambda>(name, why). stop_if (probe_find g (cstr name) \<noteq> None) VG_E_UNSUPPORTED (Some (cstr name))
            (cstr why @ cstr '' is not implemented by this evaluator'')) k_unhandled @
     [(\<lambda>p. stop_if (packed_up g p) VG_E_UNSUPPORTED (Some (cstr ''blk.0.ffn_up.weight''))
             (cstr ''ffn_up.weight packs gate and up together (2*n_ff outputs); the fused SwiGLU split is not implemented'') p),
      (\<lambda>p. stop_if (mp_has_shared_expert p \<and> \<not> mp_is_moe p) VG_E_FORMAT (Some (cstr ''blk.0.ffn_gate_shexp.weight''))
             (cstr ''shared-expert tensors are present but the model declares no expert count'') p)]"

definition probe_softcap :: "vg_gguf \<Rightarrow> bytes \<Rightarrow> vg_modelprobe \<Rightarrow> vg_modelprobe" where
  "probe_softcap g arch p =
     (case meta_int g (take 95 (arch @ cstr ''.final_logit_softcap'')) of
        Some cap \<Rightarrow> if cap > 0 then p\<lparr>mp_logit_softcap := fint cap\<rparr> else p
      | None \<Rightarrow> p)"

definition arch_list :: bytes where
  "arch_list = concat (map (\<lambda>i. (if i = 0 then [] else cstr '', '') @ cstr (k_archs ! i)) [0..<length k_archs])"

definition arch_check :: "bytes \<Rightarrow> check" where
  "arch_check arch = stop_if (\<not> arch_supported arch) VG_E_UNSUPPORTED None
     (cstr ''architecture'' @ quoted arch @ cstr '' is not implemented (supported: '' @ arch_list @ cstr '')'')"

definition head_check :: "vg_gguf \<Rightarrow> vg_gguf_tensor \<Rightarrow> check" where
  "head_check g te p =
     (let lm = (case probe_find g (cstr ''output.weight'') of Some t \<Rightarrow> t | None \<Rightarrow> te); p = add_quant (t_ggml_type lm) p
      in if \<not> (case vg_quant_info (t_ggml_type lm) of Some qi \<Rightarrow> qi_scalar qi | None \<Rightarrow> False) then
           (False, probe_fail VG_E_UNSUPPORTED (Some (t_name lm))
              (cstr ''output head'' @ quoted (t_name lm) @ cstr '' uses '' @
               cstr (case vg_quant_info (t_ggml_type lm) of Some qi \<Rightarrow> qi_name qi | None \<Rightarrow> ''an unknown type'') @ cstr '', which has no CPU dequantizer'') p)
         else if t_n_dims lm < 2 \<or> t_dims lm ! 0 \<noteq> ucast (mp_n_embd p) then
           (False, probe_fail VG_E_FORMAT (Some (t_name lm))
              (cstr ''output head'' @ quoted (t_name lm) @ cstr '' expects '' @ dec (unat (mp_n_embd p)) @ cstr '' input rows'') p)
         else (True, p))"

text \<open>The tensors of a layer, by the sizes of the report.\<close>

definition stack_check :: "vg_gguf \<Rightarrow> check" where
  "stack_check g p =
     (case probe_find g (cstr ''blk.0.ffn_gate_exps.weight'') of
        Some t \<Rightarrow> stop_if (t_n_dims t \<ge> 3 \<and> t_dims t ! 2 \<noteq> ucast (mp_n_expert p)) VG_E_FORMAT (Some (t_name t))
          (cstr ''tensor'' @ quoted (t_name t) @ cstr '' stacks '' @ dec (unat (t_dims t ! 2)) @ cstr '' experts but metadata declares '' @
           dec (unat (mp_n_expert p))) p
      | None \<Rightarrow> (True, p))"

definition layer_checks :: "vg_gguf \<Rightarrow> vg_modelprobe \<Rightarrow> nat \<Rightarrow> check list" where
  "layer_checks g p l =
     (let D = mp_n_embd p; qdim = mp_n_head p * mp_head_dim p; kdim = mp_n_head_kv p * mp_head_dim p;
          need = (\<lambda>kind. require_tensor g (blk l kind))
      in [need ''attn_norm.weight'' D 0 False, need ''attn_q.weight'' D qdim True, need ''attn_k.weight'' D kdim True,
          need ''attn_v.weight'' D kdim True, need ''attn_output.weight'' qdim D True, need ''ffn_norm.weight'' D 0 False] @
         (if mp_has_sub_norm p
          then [require_vector g (blk l ''attn_sub_norm.weight'') qdim, require_vector g (blk l ''ffn_sub_norm.weight'') (mp_n_ff p)] else []) @
         (if mp_is_moe p then
            [need ''ffn_gate_inp.weight'' D (mp_n_expert p) True, need ''ffn_gate_exps.weight'' D 0 True, need ''ffn_up_exps.weight'' D 0 True,
             need ''ffn_down_exps.weight'' (mp_n_ff p) D True, stack_check g]
          else
            (if probe_find g (cstr ''blk.0.ffn_gate.weight'') \<noteq> None then [need ''ffn_gate.weight'' D (mp_n_ff p) True] else []) @
            [need ''ffn_up.weight'' D (mp_n_ff p) True, need ''ffn_down.weight'' (mp_n_ff p) D True]))"

definition required_ops :: "vg_modelprobe \<Rightarrow> bytes" where
  "required_ops p = take 319
     (cstr ''matmul['' @ dec (length (mp_quant_names p)) @ cstr '' types], rmsnorm, rope(n_rot='' @ dec (unat (mp_n_rot p)) @ cstr ''), softmax'' @
      cstr (if mp_has_qk_norm p then '', qk_norm'' else '''') @ cstr (if mp_has_bias p then '', bias_add'' else '''') @
      cstr (if mp_has_sub_norm p then '', sub_norm'' else '''') @ cstr (if mp_has_post_norm p then '', post_norm'' else '''') @
      cstr (if f_less f_zero (mp_logit_softcap p) then '', logit_softcap'' else '''') @
      cstr (if mp_has_shared_expert p then '', shared_expert'' else '''') @
      cstr (if mp_is_moe p then '', moe_route, expert_matmul, expert_cache'' else '', swiglu''))"

text \<open>Everything after the embedding table has been found; the checks of the layers use the sizes derived before them.\<close>

definition probe_model :: "vg_gguf \<Rightarrow> bytes \<Rightarrow> vg_gguf_tensor \<Rightarrow> vg_modelprobe \<Rightarrow> vg_modelprobe" where
  "probe_model g arch te p0 =
     (let p1 = derive_sizes te p0
      in if mp_n_head p1 = 0 then
           probe_fail VG_E_FORMAT None (cstr ''metadata'' @ quoted (arch @ cstr ''.attention.head_count'') @ cstr '' is missing'') p1
         else
           (let p2 = add_quant (t_ggml_type te) (derive_heads p1)
            in if \<not> (case vg_quant_info (t_ggml_type te) of Some qi \<Rightarrow> qi_scalar qi | None \<Rightarrow> False) then
                 probe_fail VG_E_UNSUPPORTED (Some (cstr ''token_embd.weight''))
                   (cstr ''token_embd.weight uses '' @ cstr (case vg_quant_info (t_ggml_type te) of Some qi \<Rightarrow> qi_name qi | None \<Rightarrow> ''an unknown type'') @
                    cstr '', which has no CPU dequantizer'') p2
               else
                 (let p3 = probe_flags g p2
                  in if mp_n_layer p3 = 0 \<or> mp_n_embd p3 = 0 \<or> mp_head_dim p3 = 0 then
                       probe_fail VG_E_FORMAT None
                         (cstr ''model geometry is incomplete (n_layer='' @ dec (unat (mp_n_layer p3)) @ cstr '' n_embd='' @ dec (unat (mp_n_embd p3)) @
                          cstr '' head_dim='' @ dec (unat (mp_head_dim p3)) @ cstr '')'') p3
                     else (case run_checks (layout_checks g) p3 of
                             (False, p4) \<Rightarrow> p4
                           | (True, p4) \<Rightarrow>
                               (let p5 = probe_softcap g arch p4
                                in case run_checks ([arch_check arch, require_tensor g (cstr ''output_norm.weight'') (mp_n_embd p5) 0 False, head_check g te] @
                                          concat (map (layer_checks g p5) [0..<unat (mp_n_layer p5)])) p5 of
                                     (False, p6) \<Rightarrow> p6
                                   | (True, p6) \<Rightarrow> p6\<lparr>mp_required_ops := required_ops p6\<rparr>)))))"

definition vg_model_probe :: "vg_gguf option \<Rightarrow> bool \<Rightarrow> vg_status \<times> vg_modelprobe option" where
  "vg_model_probe gp has_out =
     (case gp of
        None \<Rightarrow> (VG_E_INVALID, None)
      | Some g \<Rightarrow>
          (if \<not> has_out then (VG_E_INVALID, None)
           else (VG_OK, Some
             (case vg_gguf_meta (Some g) (Some (cstr ''general.architecture'')) of
                None \<Rightarrow> probe_fail VG_E_FORMAT None (cstr ''missing general.architecture metadata'') (new_probe\<lparr>mp_arch := cstr ''(none)''\<rparr>)
              | Some arch \<Rightarrow>
                  (let p = probe_sizes g arch (new_probe\<lparr>mp_arch := take 47 arch\<rparr>)
                   in case probe_find g (cstr ''token_embd.weight'') of
                        None \<Rightarrow> probe_fail VG_E_UNSUPPORTED (Some (cstr ''token_embd.weight'')) (missing (cstr ''token_embd.weight'')) p
                      | Some te \<Rightarrow> probe_model g arch te p)))))"

section \<open>The report as text\<close>

text \<open>\<^verbatim>\<open>%.0f\<close>: the nearest integer, ties to even.\<close>

definition fmt_f0 :: "flt \<Rightarrow> bytes" where
  "fmt_f0 x =
     (case x of
        FNan \<Rightarrow> cstr ''nan''
      | FInf s \<Rightarrow> cstr (if s then ''-inf'' else ''inf'')
      | FFin s m e \<Rightarrow>
          (let n = (if e \<ge> 0 then m * 2 ^ nat e
                    else (let k = nat (- e); q = m div 2 ^ k; r = m mod 2 ^ k
                          in if 2 ^ (k - 1) < r \<or> (r = 2 ^ (k - 1) \<and> odd q) then q + 1 else q))
           in (if s then [45] else []) @ dec n))"

definition yes_no :: "bool \<Rightarrow> bytes" where
  "yes_no b = cstr (if b then ''yes'' else ''no'')"

definition quant_list :: "string list \<Rightarrow> bytes" where
  "quant_list names = take 159 (concat (map (\<lambda>i. (if i = 0 then [] else cstr '','') @ cstr (names ! i)) [0..<length names]))"

definition numbered :: "(string \<times> u32) list \<Rightarrow> bytes" where
  "numbered xs = concat (map (\<lambda>(label, n). cstr label @ dec (unat n)) xs)"

definition report_text :: "vg_modelprobe \<Rightarrow> bytes" where
  "report_text p =
     (let quants = quant_list (mp_quant_names p)
      in cstr ''arch: '' @ mp_arch p @ (if mp_ok p then [] else cstr ''  [UNSUPPORTED]'') @ [10] @
         numbered [(''geometry: layers='', mp_n_layer p), ('' embd='', mp_n_embd p), ('' heads='', mp_n_head p), ('' kv_heads='', mp_n_head_kv p),
           ('' head_dim='', mp_head_dim p), ('' ff='', mp_n_ff p), ('' rot='', mp_n_rot p), ('' ctx='', mp_n_ctx p), ('' vocab='', mp_n_vocab p)] @ [10] @
         numbered [(''experts: total='', mp_n_expert p), ('' used='', mp_n_expert_used p)] @ (if mp_is_moe p then cstr '' (MoE)'' else []) @ [10] @
         cstr ''quant types: '' @ (if quants \<noteq> [] then quants else cstr ''(none)'') @ [10] @
         cstr ''features: tokenizer='' @ yes_no (mp_has_tokenizer p) @ cstr '' bias='' @ yes_no (mp_has_bias p) @
         cstr '' qk_norm='' @ yes_no (mp_has_qk_norm p) @ cstr '' sub_norm='' @ yes_no (mp_has_sub_norm p) @
         cstr '' post_norm='' @ yes_no (mp_has_post_norm p) @ cstr '' shexp='' @ yes_no (mp_has_shared_expert p) @
         cstr '' softcap='' @ fmt_f0 (mp_logit_softcap p) @ [10] @
         cstr ''ops: '' @ (if mp_required_ops p \<noteq> [] then mp_required_ops p else cstr ''(not analysed: rejected above)'') @ [10] @
         cstr ''result: '' @ (if mp_ok p then cstr ''SUPPORTED'' else cstr ''NOT SUPPORTED: '' @ mp_detail p))"

text \<open>The text without its NUL; \<open>None\<close> when nothing is written.\<close>

definition vg_model_probe_report :: "vg_modelprobe option \<Rightarrow> bool \<Rightarrow> nat \<Rightarrow> bytes option" where
  "vg_model_probe_report pp has_buf cap =
     (case pp of None \<Rightarrow> None | Some p \<Rightarrow> if \<not> has_buf \<or> cap = 0 then None else Some (take (cap - 1) (report_text p)))"

end
