(* ===== verification/ThreadPool_Props.thy ===== *)
theory ThreadPool_Props
  imports ThreadPool "HOL-Library.Multiset"
begin

text \<open>
  Properties of the thread pool: the invariant of its reachable states, progress (every wait returns), completeness of a
  wait, and the partition of a parallel loop.
\<close>

section \<open>Counting workers\<close>

definition active :: "'a wpc \<Rightarrow> bool" where
  "active w \<longleftrightarrow> (case w of WRun t \<Rightarrow> True | WDone \<Rightarrow> True | _ \<Rightarrow> False)"

lemma active_simps [simp]: "active (WRun t)" "active WDone" "\<not> active WTop" "\<not> active WWait" "\<not> active WExit"
  by (simp_all add: active_def)

definition run_of :: "'a wpc \<Rightarrow> 'a multiset" where
  "run_of w = (case w of WRun t \<Rightarrow> {#t#} | _ \<Rightarrow> {#})"

lemma run_of_simps [simp]: "run_of (WRun t) = {#t#}" "run_of WDone = {#}" "run_of WTop = {#}" "run_of WWait = {#}" "run_of WExit = {#}"
  by (simp_all add: run_of_def)

text \<open>The tasks not finished, the tasks in the hands of a worker.\<close>

definition unfinished :: "'a vg_threadpool \<Rightarrow> nat" where
  "unfinished s = length (tp_queue s) + size (filter_mset active (mset (tp_workers s)))"

definition running :: "'a vg_threadpool \<Rightarrow> 'a multiset" where
  "running s = sum_mset (image_mset run_of (mset (tp_workers s)))"

lemma workers_upd:
  assumes "i < length ws"
  obtains M where "mset ws = add_mset (ws ! i) M" "\<And>v. mset (ws[i := v]) = add_mset v M"
proof
  have "ws ! i \<in># mset ws" using assms by simp
  then show "mset ws = add_mset (ws ! i) (mset ws - {#ws ! i#})" by simp
  show "mset (ws[i := v]) = add_mset v (mset ws - {#ws ! i#})" for v using assms by (rule mset_update)
qed

section \<open>The invariant\<close>

definition pool_inv :: "nat \<Rightarrow> 'a vg_threadpool \<Rightarrow> bool" where
  "pool_inv n s \<longleftrightarrow>
     length (tp_workers s) = (if n = 0 then 1 else n)
   \<and> mset (tp_submitted s) = mset (tp_queue s) + running s + mset (tp_ran s)
   \<and> unfinished s \<le> length (tp_submitted s)
   \<and> tp_n_pending s = of_nat (unfinished s)
   \<and> (tp_queue s \<noteq> [] \<longrightarrow> (\<exists>w \<in># mset (tp_workers s). w = WTop \<or> active w))
   \<and> (tp_shutdown s \<longleftrightarrow> tp_main s \<in> {MJoin, MFreed})
   \<and> (WExit \<in># mset (tp_workers s) \<longrightarrow> tp_shutdown s)
   \<and> (tp_shutdown s \<longrightarrow> WWait \<notin># mset (tp_workers s))
   \<and> (tp_main s \<in> {MBlock, MDBlock} \<longrightarrow> unfinished s \<noteq> 0)
   \<and> (tp_main s \<in> {MShut, MJoin, MFreed} \<longrightarrow> unfinished s = 0)
   \<and> (tp_main s = MFreed \<longrightarrow> set_mset (mset (tp_workers s)) \<subseteq> {WExit})"

lemma of_nat_u32_0: "n < 2 ^ 32 \<Longrightarrow> (of_nat n :: u32) = 0 \<longleftrightarrow> n = 0"
  by (simp add: word_of_nat_eq_0_iff) (metis gr0I nat_dvd_not_less dvd_0_right)

lemma inv_create: "pool_inv n (vg_threadpool_create n)"
proof -
  have "size (filter_mset active (replicate_mset k WTop)) = 0" "sum_mset (image_mset run_of (replicate_mset k WTop)) = {#}" for k
    by (induction k) simp_all
  then show ?thesis unfolding pool_inv_def unfinished_def running_def vg_threadpool_create_def by (auto simp del: size_eq_0_iff_empty sum_mset.neutral)
qed

lemma inv_take:
  assumes "pool_inv n s" and "i < length (tp_workers s)" and "tp_workers s ! i = WTop"
  shows "pool_inv n (worker_take i s)"
proof -
  obtain M where M: "mset (tp_workers s) = add_mset WTop M" "\<And>v. mset ((tp_workers s)[i := v]) = add_mset v M"
    using workers_upd [OF assms(2)] assms(3) by metis
  show ?thesis
    using assms(1) M by (cases "tp_queue s") (auto simp: pool_inv_def worker_take_def set_worker_def unfinished_def running_def)
qed

lemma inv_run:
  assumes "pool_inv n s" and "i < length (tp_workers s)" and "tp_workers s ! i = WRun t"
  shows "pool_inv n (worker_run i t s)"
proof -
  obtain M where M: "mset (tp_workers s) = add_mset (WRun t) M" "\<And>v. mset ((tp_workers s)[i := v]) = add_mset v M"
    using workers_upd [OF assms(2)] assms(3) by metis
  show ?thesis
    using assms(1) M by (auto simp: pool_inv_def worker_run_def set_worker_def unfinished_def running_def)
qed

lemma inv_finish:
  assumes "pool_inv n s" and "i < length (tp_workers s)" and "tp_workers s ! i = WDone" and "length (tp_submitted s) < 2 ^ 32"
  shows "pool_inv n (worker_finish i s)"
proof -
  obtain M where M: "mset (tp_workers s) = add_mset WDone M" "\<And>v. mset ((tp_workers s)[i := v]) = add_mset v M"
    using workers_upd [OF assms(2)] assms(3) by metis
  let ?k = "length (tp_queue s) + size (filter_mset active M)"
  have u: "unfinished s = Suc ?k" using M by (simp add: unfinished_def)
  have lt: "Suc ?k < 2 ^ 32" using assms(1,4) u by (simp add: pool_inv_def)
  have p: "tp_n_pending s = of_nat (Suc ?k)" using assms(1) u by (simp add: pool_inv_def)
  have nz: "tp_n_pending s \<noteq> 0" unfolding p using of_nat_u32_0 [OF lt] by blast
  have p1: "tp_n_pending s - 1 = of_nat ?k" unfolding p by simp
  have z: "tp_n_pending s - 1 = 0 \<longleftrightarrow> ?k = 0" unfolding p1 using lt by (intro of_nat_u32_0) simp
  show ?thesis
    using assms(1) M nz z p1 by (auto simp: pool_inv_def worker_finish_def set_worker_def unfinished_def running_def wake_main_def Let_def)
qed

lemma inv_check:
  assumes "pool_inv n s" and "length (tp_submitted s) < 2 ^ 32"
  shows "pool_inv n (vg_threadpool_wait s)"
proof -
  have "unfinished s < 2 ^ 32" "tp_n_pending s = of_nat (unfinished s)" using assms by (auto simp: pool_inv_def)
  then have "0 < tp_n_pending s \<longleftrightarrow> unfinished s \<noteq> 0" using of_nat_u32_0 by (metis word_gt_0)
  then show ?thesis
    using assms(1) by (cases "tp_main s") (auto simp: pool_inv_def vg_threadpool_wait_def unfinished_def running_def)
qed

lemma woken:
  fixes ws :: "'a wpc list"
  defines "ws' \<equiv> map (\<lambda>w. if w = WWait then WTop else w) ws"
  shows "size (filter_mset active (mset ws')) = size (filter_mset active (mset ws))"
    "image_mset run_of (mset ws') = image_mset run_of (mset ws)" "WWait \<notin> set ws'" "WExit \<in> set ws' \<longleftrightarrow> WExit \<in> set ws"
  unfolding ws'_def by (induction ws) auto

lemma inv_shut: "pool_inv n s \<Longrightarrow> tp_main s = MShut \<Longrightarrow> pool_inv n (destroy_shutdown s)"
  using woken [of "tp_workers s"] by (auto simp: pool_inv_def destroy_shutdown_def unfinished_def running_def)

lemma inv_step:
  assumes "tp_step s s'" and "pool_inv n s" and "length (tp_submitted s) < 2 ^ 32"
  shows "pool_inv n s'"
  using assms
proof (induction rule: tp_step.induct)
  case (join s)
  then show ?case by (auto simp: pool_inv_def unfinished_def running_def)
qed (simp_all add: inv_take inv_run inv_finish inv_check inv_shut)

lemma inv_submit:
  assumes "pool_inv n s" and "tp_main s = MIdle" and "signal_target s j"
  shows "pool_inv n (vg_threadpool_submit t j s)"
proof (cases j)
  case None
  have "length (tp_workers s) \<noteq> 0" using assms(1) by (auto simp: pool_inv_def)
  then obtain w where w: "w \<in> set (tp_workers s)" by (cases "tp_workers s") auto
  have "w \<noteq> WWait" "w \<noteq> WExit" using w assms None by (auto simp: pool_inv_def signal_target_def)
  then have "w = WTop \<or> active w" by (cases w) auto
  then have "\<exists>w \<in> set (tp_workers s). w = WTop \<or> active w" using w by blast
  then show ?thesis using assms None by (auto simp: pool_inv_def vg_threadpool_submit_def unfinished_def running_def)
next
  case (Some i)
  then have i: "i < length (tp_workers s)" "tp_workers s ! i = WWait" using assms(3) by (simp_all add: signal_target_def)
  obtain M where "mset (tp_workers s) = add_mset WWait M" "\<And>v. mset ((tp_workers s)[i := v]) = add_mset v M"
    using workers_upd [OF i(1)] i(2) by metis
  then show ?thesis using assms Some
    by (auto simp: pool_inv_def vg_threadpool_submit_def set_worker_def unfinished_def running_def)
qed

lemma inv_call:
  assumes "tp_call s s'" and "pool_inv n s"
  shows "pool_inv n s'"
  using assms
proof (induction rule: tp_call.induct)
  case (submit s j t)
  then show ?case by (simp add: inv_submit)
qed (auto simp: pool_inv_def unfinished_def running_def)

lemma inv_spurious:
  assumes "tp_spurious s s'" and "pool_inv n s"
  shows "pool_inv n s'"
  using assms
proof (induction rule: tp_spurious.induct)
  case (wake_worker i s)
  obtain M where "mset (tp_workers s) = add_mset WWait M" "\<And>v. mset ((tp_workers s)[i := v]) = add_mset v M"
    using workers_upd [OF wake_worker(1)] wake_worker(2) by metis
  then show ?case using wake_worker by (auto simp: pool_inv_def set_worker_def unfinished_def running_def)
next
  case (wake_caller s)
  then show ?case by (cases "tp_main s") (auto simp: pool_inv_def unfinished_def running_def wake_main_def)
qed

text \<open>The list of submitted tasks only grows.\<close>

lemma submitted_step: "tp_step s s' \<Longrightarrow> tp_submitted s' = tp_submitted s"
  by (induction rule: tp_step.induct)
    (auto simp: worker_take_def worker_run_def worker_finish_def set_worker_def vg_threadpool_wait_def destroy_shutdown_def Let_def split: list.splits)

lemma submitted_call: "tp_call s s' \<Longrightarrow> length (tp_submitted s) \<le> length (tp_submitted s')"
  by (induction rule: tp_call.induct) (auto simp: vg_threadpool_submit_def set_worker_def Let_def split: option.splits)

lemma submitted_spurious: "tp_spurious s s' \<Longrightarrow> tp_submitted s' = tp_submitted s"
  by (induction rule: tp_spurious.induct) (auto simp: set_worker_def)

lemma reach_inv: "tp_reach n s \<Longrightarrow> length (tp_submitted s) < 2 ^ 32 \<Longrightarrow> pool_inv n s"
proof (induction rule: tp_reach.induct)
  case create
  show ?case by (rule inv_create)
next
  case (step s s')
  then show ?case using inv_step submitted_step by metis
next
  case (call s s')
  then show ?case using inv_call submitted_call by (metis le_less_trans)
next
  case (spurious s s')
  then show ?case using inv_spurious submitted_spurious by metis
qed

section \<open>Progress\<close>

fun wpc_work :: "'a wpc \<Rightarrow> nat" where
  "wpc_work WTop = 1" | "wpc_work WWait = 0" | "wpc_work (WRun t) = 5" | "wpc_work WDone = 4" | "wpc_work WExit = 0"

fun mpc_work :: "nat \<Rightarrow> mpc \<Rightarrow> nat" where
  "mpc_work n MIdle = 0" | "mpc_work n MWait = 2" | "mpc_work n MBlock = 1" | "mpc_work n MDestroy = n + 5"
| "mpc_work n MDBlock = n + 4" | "mpc_work n MShut = n + 3" | "mpc_work n MJoin = 1" | "mpc_work n MFreed = 0"

definition tp_work :: "'a vg_threadpool \<Rightarrow> nat" where
  "tp_work s = 6 * length (tp_queue s) + sum_mset (image_mset wpc_work (mset (tp_workers s))) + mpc_work (length (tp_workers s)) (tp_main s)"

lemma woken_work: "sum_mset (image_mset wpc_work (mset (map (\<lambda>w. if w = WWait then WTop else w) ws)))
    \<le> sum_mset (image_mset wpc_work (mset ws)) + length ws"
  by (induction ws) auto

lemma wake_main_work: "mpc_work n (wake_main m) \<le> mpc_work n m + 1"
  by (cases m) (auto simp: wake_main_def)

lemma step_work: "tp_step s s' \<Longrightarrow> tp_work s' < tp_work s"
proof (induction rule: tp_step.induct)
  case (take i s)
  obtain M where "mset (tp_workers s) = add_mset WTop M" "\<And>v. mset ((tp_workers s)[i := v]) = add_mset v M"
    using workers_upd [OF take(1)] take(2) by metis
  then show ?case by (cases "tp_queue s") (auto simp: tp_work_def worker_take_def set_worker_def)
next
  case (run i s t)
  obtain M where "mset (tp_workers s) = add_mset (WRun t) M" "\<And>v. mset ((tp_workers s)[i := v]) = add_mset v M"
    using workers_upd [OF run(1)] run(2) by metis
  then show ?case by (auto simp: tp_work_def worker_run_def set_worker_def)
next
  case (finish i s)
  obtain M where "mset (tp_workers s) = add_mset WDone M" "\<And>v. mset ((tp_workers s)[i := v]) = add_mset v M"
    using workers_upd [OF finish(1)] finish(2) by metis
  then show ?case using wake_main_work [of "length (tp_workers s)" "tp_main s"]
    by (auto simp: tp_work_def worker_finish_def set_worker_def Let_def)
next
  case (check s)
  then show ?case by (auto simp: tp_work_def vg_threadpool_wait_def)
next
  case (shut s)
  then show ?case using woken_work [of "tp_workers s"] by (simp add: tp_work_def destroy_shutdown_def)
next
  case (join s)
  then show ?case by (simp add: tp_work_def)
qed

lemma steps_work: "(tp_step ^^ k) s t \<Longrightarrow> k + tp_work t \<le> tp_work s"
proof (induction k arbitrary: t)
  case (Suc k)
  then obtain u where "(tp_step ^^ k) s u" "tp_step u t" by auto
  then show ?case using Suc.IH step_work [of u t] by fastforce
qed simp

text \<open>A state without steps: nothing is unfinished, and the caller is outside the pool.\<close>

lemma quiescent:
  assumes inv: "pool_inv n s" and stuck: "\<And>s'. \<not> tp_step s s'"
  shows "unfinished s = 0 \<and> tp_main s \<in> {MIdle, MFreed}"
proof -
  have w: "w = WWait \<or> w = WExit" if ws: "w \<in> set (tp_workers s)" for w
  proof -
    obtain i where i: "i < length (tp_workers s)" "tp_workers s ! i = w" using ws by (auto simp: in_set_conv_nth)
    show ?thesis
    proof (cases w)
      case WTop
      then show ?thesis using stuck tp_step.take [OF i(1)] i(2) by blast
    next
      case (WRun t)
      then show ?thesis using stuck tp_step.run [OF i(1)] i(2) by blast
    next
      case WDone
      then show ?thesis using stuck tp_step.finish [OF i(1)] i(2) by blast
    qed simp_all
  qed
  then have a: "\<not> active w" "w \<noteq> WTop" if "w \<in> set (tp_workers s)" for w using that by force+
  then have q: "tp_queue s = []" using inv unfolding pool_inv_def by auto
  have "filter_mset active (mset (tp_workers s)) = {#}" using a by (metis filter_False mset.simps(1) mset_filter)
  then have u: "unfinished s = 0" using q by (simp add: unfinished_def)
  have "tp_main s \<noteq> MWait" "tp_main s \<noteq> MDestroy" "tp_main s \<noteq> MShut" using stuck tp_step.check tp_step.shut by blast+
  moreover have "tp_main s \<noteq> MBlock" "tp_main s \<noteq> MDBlock" using inv u by (auto simp: pool_inv_def)
  moreover have "tp_main s \<noteq> MJoin"
  proof
    assume m: "tp_main s = MJoin"
    then have "WWait \<notin> set (tp_workers s)" using inv by (auto simp: pool_inv_def)
    then have "set (tp_workers s) \<subseteq> {WExit}" using w by auto
    then show False using stuck tp_step.join m by blast
  qed
  ultimately show ?thesis using u by (cases "tp_main s") auto
qed

lemma idle_all_ran:
  assumes "pool_inv n s" and "unfinished s = 0"
  shows "mset (tp_ran s) = mset (tp_submitted s) \<and> tp_queue s = [] \<and> (\<forall>w \<in> set (tp_workers s). \<not> active w) \<and> tp_n_pending s = 0"
proof -
  have a: "\<forall>w \<in> set (tp_workers s). \<not> active w" using assms(2) by (auto simp: unfinished_def filter_mset_eq_conv)
  have "run_of w = {#}" if "\<not> active w" for w :: "'a wpc" using that by (cases w) simp_all
  then have "\<forall>w \<in> set (tp_workers s). run_of w = {#}" using a by blast
  then have "running s = {#}" by (simp add: running_def)
  moreover have "tp_queue s = []" using assms(2) by (simp add: unfinished_def)
  ultimately show ?thesis using assms a by (simp add: pool_inv_def)
qed

text \<open>C7: Every call into the pool comes back. From any reachable state the pool, left to itself, makes at most a fixed number
  of steps, and when it has no step left the caller is not blocked: it has returned from the wait it was in (or has joined
  every thread when it was destroying the pool), nothing is pending, and every task submitted has run exactly once.\<close>

theorem pool_wait_returns:
  assumes "tp_reach n s" and "length (tp_submitted s) < 2 ^ 32"
  shows "\<exists>K. \<forall>k t. (tp_step ^^ k) s t \<longrightarrow> k \<le> K \<and> ((\<forall>u. \<not> tp_step t u) \<longrightarrow>
     tp_main t \<in> {MIdle, MFreed} \<and> tp_n_pending t = 0 \<and> mset (tp_ran t) = mset (tp_submitted s))"
proof (intro exI allI impI conjI)
  fix k t assume kt: "(tp_step ^^ k) s t"
  show "k \<le> tp_work s" using steps_work [OF kt] by simp
  have "tp_reach n t \<and> tp_submitted t = tp_submitted s" using kt
  proof (induction k arbitrary: t)
    case (Suc k)
    then obtain u where "(tp_step ^^ k) s u" "tp_step u t" by auto
    then show ?case using Suc.IH tp_reach.step submitted_step by metis
  qed (use assms in simp)
  then have inv: "pool_inv n t" and sub: "tp_submitted t = tp_submitted s" using reach_inv [of n t] assms(2) by simp_all
  assume "\<forall>u. \<not> tp_step t u"
  then have q: "unfinished t = 0 \<and> tp_main t \<in> {MIdle, MFreed}" using quiescent [OF inv] by blast
  then show "tp_main t \<in> {MIdle, MFreed}" by blast
  show "tp_n_pending t = 0" "mset (tp_ran t) = mset (tp_submitted s)" using idle_all_ran [OF inv] q sub by auto
qed

lemma pool_wait_complete_aux:
  assumes "tp_reach n s" and "length (tp_submitted s) < 2 ^ 32" and "tp_main s = MWait"
    and "tp_main (vg_threadpool_wait s) = MIdle"
  shows "mset (tp_ran s) = mset (tp_submitted s) \<and> tp_queue s = [] \<and> (\<forall>w \<in> set (tp_workers s). \<not> active w)"
proof -
  have inv: "pool_inv n s" by (rule reach_inv [OF assms(1,2)])
  have "tp_n_pending s = 0" using assms(3,4) by (auto simp: vg_threadpool_wait_def word_gt_0 split: if_splits)
  then have "unfinished s = 0" using inv assms(2) of_nat_u32_0 [of "unfinished s"] by (simp add: pool_inv_def)
  then show ?thesis using idle_all_ran [OF inv] by blast
qed

section \<open>Parallel loops\<close>

definition items :: "u32 \<times> u32 \<Rightarrow> nat list" where
  "items r = [unat (fst r)..<unat (snd r)]"

lemma items_pair: "items (a, b) = [unat a..<unat b]"
  by (simp add: items_def)

lemma upt_join: "i \<le> j \<Longrightarrow> j \<le> k \<Longrightarrow> [i..<j] @ [j..<k] = [i..<k]"
  using upt_add_eq_append [of i j "k - j"] by simp

lemma pf_jobs_items:
  assumes "unat n_items + unat chunks \<le> 2 ^ 32" and "0 < unat chunks" and "unat per = (unat n_items + unat chunks - 1) div unat chunks"
    and "unat c \<le> unat chunks"
  shows "concat (map items (pf_jobs n_items chunks per c)) = [unat c * unat per..<unat n_items]"
  using assms
proof (induction n_items chunks per c rule: pf_jobs.induct)
  case (1 n_items chunks per c)
  let ?n = "unat n_items" and ?k = "unat chunks" and ?p = "unat per" and ?c = "unat c"
  have kp: "?k * ?p \<le> ?n + ?k - 1" unfolding "1.prems"(3) by simp
  have kn: "?n \<le> ?k * ?p"
  proof -
    have "?n + ?k - 1 < ?k * ?p + ?k" unfolding "1.prems"(3)
      using "1.prems"(2) mod_less_divisor [OF "1.prems"(2), of "?n + ?k - 1"] mult_div_mod_eq [of ?k "?n + ?k - 1"] by linarith
    then show ?thesis using "1.prems"(2) by linarith
  qed
  show ?case
  proof (cases "c < chunks")
    case False
    then have "?c = ?k" using "1.prems"(4) by (simp add: word_less_nat_alt)
    then show ?thesis using False kn by (simp add: pf_jobs.simps [of n_items chunks per c])
  next
    case True
    then have ck: "Suc ?c \<le> ?k" by (simp add: word_less_nat_alt)
    then have scp: "Suc ?c * ?p \<le> ?k * ?p" by (intro mult_le_mono1)
    then have lt: "?c * ?p + ?p < 2 ^ 32" using kp "1.prems"(1,2) by simp
    then have b: "unat (c * per) = ?c * ?p" by (intro unat_u32_mult) simp
    then have e: "unat (c * per + per) = ?c * ?p + ?p" using lt by (simp add: unat_u32_add)
    have c1: "unat (c + 1) = ?c + 1" by (rule unat_u32_next [OF True])
    show ?thesis
    proof (cases "n_items \<le> c * per")
      case True
      then show ?thesis using b by (simp add: pf_jobs.simps [of n_items chunks per c] word_le_nat_alt Let_def)
    next
      case False
      then have bn: "?c * ?p < ?n" using b by (simp add: word_le_nat_alt)
      have IH: "concat (map items (pf_jobs n_items chunks per (c + 1))) = [unat (c + 1) * ?p..<?n]"
        using "1.IH" [OF True refl False] "1.prems" c1 ck by simp
      have jobs: "pf_jobs n_items chunks per c = (c * per, if n_items < c * per + per then n_items else c * per + per) # pf_jobs n_items chunks per (c + 1)"
        using True False by (simp add: pf_jobs.simps [of n_items chunks per c] Let_def)
      show ?thesis
      proof (cases "n_items < c * per + per")
        case True
        then have "?n \<le> ?c * ?p + ?p" using e by (simp add: word_less_nat_alt)
        then show ?thesis unfolding jobs using IH b e c1 True by (simp add: items_pair)
      next
        case False
        then have "?c * ?p + ?p \<le> ?n" using e by (simp add: word_less_nat_alt)
        then show ?thesis unfolding jobs using IH b e c1 False
          by (simp add: items_pair add.commute [of ?p] upt_join)
      qed
    qed
  qed
qed

lemma mset_concat_map: "mset xs = mset ys \<Longrightarrow> mset (concat (map f xs)) = mset (concat (map f ys))"
  unfolding mset_concat map_map by (metis mset_map sum_mset_sum_list)

lemma unat_of_nat_u32: "k < 2 ^ 32 \<Longrightarrow> unat (of_nat k :: u32) = k"
  by (simp add: unat_of_nat take_bit_nat_eq_self)

text \<open>The caller's range followed by the jobs' is the whole range in order.\<close>

lemma parallel_for_partition_aux:
  assumes "unat n_items + workers \<le> 2 ^ 32"
  shows "case vg_threadpool_parallel_for workers n_items of (jobs, own) \<Rightarrow> concat (map items (own @ jobs)) = [0..<unat n_items]"
proof (cases "n_items = 0 \<or> workers \<le> 1")
  case True
  then show ?thesis by (auto simp: vg_threadpool_parallel_for_def items_pair)
next
  case False
  define chunks where "chunks = (if of_nat workers < n_items then of_nat workers else n_items)"
  have n0: "0 < unat n_items" using False by (simp add: unat_gt_0)
  then have "workers < 2 ^ 32" using assms by linarith
  then have uw: "unat (of_nat workers :: u32) = workers" by (rule unat_of_nat_u32)
  then have ch: "unat chunks \<le> workers" "0 < unat chunks" "unat chunks \<le> unat n_items"
    using n0 False by (auto simp: chunks_def word_less_nat_alt)
  define per where "per = pf_per n_items chunks"
  have fit: "unat n_items + unat chunks \<le> 2 ^ 32" using ch(1) assms by linarith
  have "unat (n_items + chunks - 1) = unat n_items + unat chunks - 1"
  proof -
    have "1 \<le> chunks" using ch(2) by (simp add: word_le_nat_alt)
    then have c1: "unat (chunks - 1) = unat chunks - 1" by (simp add: unat_sub_if_size word_le_nat_alt)
    have "unat n_items + unat (chunks - 1) < 2 ^ 32" using c1 ch(2) fit by linarith
    from unat_u32_add [OF this] show ?thesis using c1 ch(2) by (simp add: add_diff_eq)
  qed
  then have p: "unat per = (unat n_items + unat chunks - 1) div unat chunks" by (simp add: per_def pf_per_def unat_div)
  have jobs: "concat (map items (pf_jobs n_items chunks per 1)) = [unat per..<unat n_items]"
    using pf_jobs_items [OF fit ch(2) p, of 1] ch(2) by simp
  have "items (0, if n_items < per then n_items else per) @ [unat per..<unat n_items] = [0..<unat n_items]"
    by (auto simp: items_pair word_less_nat_alt upt_join)
  moreover have "vg_threadpool_parallel_for workers n_items = (pf_jobs n_items chunks per 1, [(0, if n_items < per then n_items else per)])"
    using False by (simp add: vg_threadpool_parallel_for_def Let_def chunks_def per_def)
  ultimately show ?thesis using jobs by simp
qed

text \<open>C30: When \<^verbatim>\<open>vg_threadpool_wait\<close> returns, every task submitted to the pool has run exactly once and no worker is inside
  one: the counter is decremented after the task, never before.\<close>

theorem pool_wait_complete:
  assumes "tp_reach n s" and "length (tp_submitted s) < 2 ^ 32" and "tp_main s = MWait"
    and "tp_main (vg_threadpool_wait s) = MIdle"
  shows "mset (tp_ran s) = mset (tp_submitted s) \<and> tp_queue s = [] \<and> (\<forall>w \<in> set (tp_workers s). \<not> active w)"
  using assms by (rule pool_wait_complete_aux)


text \<open>With more items than that the rounding-up sum wraps, and no item is run at all.\<close>

lemma parallel_for_wraps:
  "vg_threadpool_parallel_for 4 0xFFFFFFFF = ([(0, 0), (0, 0), (0, 0)], [(0, 0)])"
  by (simp add: vg_threadpool_parallel_for_def pf_per_def pf_jobs.simps Let_def)

section \<open>A run\<close>

text \<open>Two workers, three items: one job is submitted, taken, run and finished while the caller waits.\<close>

definition run0 :: "(u32 \<times> u32) vg_threadpool" where
  "run0 = vg_threadpool_submit (2, 3) None (vg_threadpool_create 2)"

definition run1 :: "(u32 \<times> u32) vg_threadpool" where
  "run1 = worker_finish 0 (worker_run 0 (2, 3) (worker_take 0 (run0\<lparr>tp_main := MWait\<rparr>)))"

lemmas run_simps = run0_def run1_def vg_threadpool_submit_def vg_threadpool_create_def worker_take_def worker_run_def
  worker_finish_def set_worker_def wake_main_def Let_def numeral_2_eq_2

lemma run0_reach: "tp_reach 2 run0"
  unfolding run0_def
  by (rule tp_reach.call [OF tp_reach.create], rule tp_call.submit)
    (simp_all add: vg_threadpool_create_def signal_target_def)

lemma run1_reach: "tp_reach 2 run1"
proof -
  have "tp_reach 2 (run0\<lparr>tp_main := MWait\<rparr>)"
    by (rule tp_reach.call [OF run0_reach], rule tp_call.call_wait) (simp add: run_simps)
  then have "tp_reach 2 (worker_take 0 (run0\<lparr>tp_main := MWait\<rparr>))"
    by (rule tp_reach.step) (rule tp_step.take, simp_all add: run_simps)
  then have "tp_reach 2 (worker_run 0 (2, 3) (worker_take 0 (run0\<lparr>tp_main := MWait\<rparr>)))"
    by (rule tp_reach.step) (rule tp_step.run, simp_all add: run_simps)
  then show ?thesis unfolding run1_def
    by (rule tp_reach.step) (rule tp_step.finish, simp_all add: run_simps)
qed

lemma run1_state: "tp_submitted run1 = [(2, 3)]" "tp_ran run1 = [(2, 3)]" "tp_main run1 = MWait" "tp_n_pending run1 = 0"
  by (simp_all add: run_simps)

theorem pool_wait_returns_witness:
  "\<exists>K. \<forall>k t. (tp_step ^^ k) run0 t \<longrightarrow> k \<le> K \<and> ((\<forall>u. \<not> tp_step t u) \<longrightarrow>
     tp_main t \<in> {MIdle, MFreed} \<and> tp_n_pending t = 0 \<and> mset (tp_ran t) = {#(2, 3)#})"
proof -
  have "tp_submitted run0 = [(2, 3)]" by (simp add: run_simps)
  then show ?thesis using pool_wait_returns [OF run0_reach] by simp
qed

theorem pool_wait_complete_witness: "mset (tp_ran run1) = {#(2, 3)#} \<and> tp_main (vg_threadpool_wait run1) = MIdle"
proof -
  have "tp_main (vg_threadpool_wait run1) = MIdle" by (simp add: vg_threadpool_wait_def run1_state)
  then show ?thesis using pool_wait_complete [OF run1_reach] run1_state by simp
qed


end
