(* ===== verification/Quant_Props.thy ===== *)
theory Quant_Props
  imports Quant
begin

text \<open>
  What the dequantizers promise: the type table is consistent with the block decoders, the
  size check is exact, the binary16 conversion is exact on every pattern, a row is decoded
  block by block, and the products of scales and quants are computed without rounding.
\<close>

section \<open>Half precision\<close>

lemma bit_int_consts:
  "bit (0xFF :: int) n \<longleftrightarrow> n < 8" "bit (0x7FFFFF :: int) n \<longleftrightarrow> n < 23" "bit (0x3FF :: int) n \<longleftrightarrow> n < 10"
  "bit (0x1F :: int) n \<longleftrightarrow> n < 5" "bit (0x8000 :: int) n \<longleftrightarrow> n = 15" "bit (0x400 :: int) n \<longleftrightarrow> n = 10"
  "bit (0xF :: int) n \<longleftrightarrow> n < 4" "bit (0x7F800000 :: int) n \<longleftrightarrow> 23 \<le> n \<and> n < 31"
  "bit (8380416 :: int) n \<longleftrightarrow> 13 \<le> n \<and> n < 23"
proof -
  have "(0xFF :: int) = mask 8" "(0x7FFFFF :: int) = mask 23" "(0x3FF :: int) = mask 10" "(0x1F :: int) = mask 5" "(0xF :: int) = mask 4"
    "(0x8000 :: int) = push_bit 15 1" "(0x400 :: int) = push_bit 10 1" "(0x7F800000 :: int) = push_bit 23 (mask 8)"
    "(8380416 :: int) = push_bit 13 (mask 10)"
    by (simp_all add: mask_eq_exp_minus_1)
  then show "bit (0xFF :: int) n \<longleftrightarrow> n < 8" "bit (0x7FFFFF :: int) n \<longleftrightarrow> n < 23" "bit (0x3FF :: int) n \<longleftrightarrow> n < 10"
  "bit (0x1F :: int) n \<longleftrightarrow> n < 5" "bit (0x8000 :: int) n \<longleftrightarrow> n = 15" "bit (0x400 :: int) n \<longleftrightarrow> n = 10"
  "bit (0xF :: int) n \<longleftrightarrow> n < 4" "bit (0x7F800000 :: int) n \<longleftrightarrow> 23 \<le> n \<and> n < 31"
  "bit (8380416 :: int) n \<longleftrightarrow> 13 \<le> n \<and> n < 23"
    by (simp_all only: bit_mask_iff bit_push_bit_iff possible_bit_int bit_1_iff) auto
qed

text \<open>The binary32 word that \<^verbatim>\<open>vg_half_to_float\<close> assembles from its fields.\<close>

definition f32_word :: "u16 \<Rightarrow> u32 \<Rightarrow> u32 \<Rightarrow> u32" where
  "f32_word h E M = push_bit 16 (ucast (h AND 0x8000)) OR push_bit 23 E OR push_bit 13 M"

lemma f32_word_exp: "drop_bit 23 (f32_word h (E AND 0xFF) (M AND 0x3FF)) AND 0xFF = E AND 0xFF"
  unfolding f32_word_def by (rule bit_word_eqI) (auto simp: bit_simps bit_int_consts)

lemma f32_word_frac: "f32_word h (E AND 0xFF) (M AND 0x3FF) AND 0x7FFFFF = push_bit 13 (M AND 0x3FF)"
  unfolding f32_word_def by (rule bit_word_eqI) (auto simp: bit_simps bit_int_consts)

lemma f32_word_sign: "bit (f32_word h (E AND 0xFF) (M AND 0x3FF)) 31 = bit h 15"
  unfolding f32_word_def by (auto simp: bit_simps bit_int_consts)

lemma and_FF_id: "unat (w :: u32) < 256 \<Longrightarrow> w AND 0xFF = w"
proof -
  assume "unat (w :: u32) < 256"
  then have "take_bit 8 w = w" by (simp add: word_unat_eq_iff unsigned_take_bit_eq take_bit_nat_eq_self)
  then show ?thesis by (simp add: take_bit_eq_mask mask_eq_exp_minus_1)
qed

lemma and_3FF_id: "unat (w :: u32) < 1024 \<Longrightarrow> w AND 0x3FF = w"
proof -
  assume "unat (w :: u32) < 1024"
  then have "take_bit 10 w = w" by (simp add: word_unat_eq_iff unsigned_take_bit_eq take_bit_nat_eq_self)
  then show ?thesis by (simp add: take_bit_eq_mask mask_eq_exp_minus_1)
qed

lemma f32_of_word:
  assumes "unat E < 256" and "unat M < 1024"
  shows "f32_of_bits (f32_word h E M) = ieee_decode 8 23 (bit h 15) (unat E) (unat M * 2 ^ 13)"
proof -
  have E: "E AND 0xFF = E" and M: "M AND 0x3FF = M"
    using assms by (simp_all add: and_FF_id and_3FF_id)
  have m: "unat (push_bit 13 M) = unat M * 2 ^ 13"
    using assms by (simp add: push_bit_eq_mult unat_word_ariths)
  show ?thesis
    using f32_word_exp [of h E M] f32_word_frac [of h E M] f32_word_sign [of h E M]
    by (simp add: E M m f32_of_bits_def)
qed

lemma half_normalize_step:
  "mant AND 0x400 = 0 \<Longrightarrow> half_normalize mant e = half_normalize (push_bit 1 mant) (e - 1)"
  unfolding half_normalize_def by (subst while_unfold) simp

lemma half_normalize_done:
  "mant AND 0x400 \<noteq> 0 \<Longrightarrow> half_normalize mant e = (mant, e)"
  unfolding half_normalize_def by (subst while_unfold) simp

lemma unat_and_400: "unat ((w :: u32) AND 0x400) = (if odd (unat w div 1024) then 1024 else 0)"
proof -
  have "w AND 0x400 = (if bit w 10 then 0x400 else 0)"
    by (rule bit_word_eqI) (auto simp: bit_simps bit_int_consts)
  moreover have "bit w 10 \<longleftrightarrow> odd (unat w div 1024)"
  proof -
    have "bit w 10 \<longleftrightarrow> bit (unat w) 10" by (simp add: bit_unsigned_iff)
    also have "\<dots> \<longleftrightarrow> odd (unat w div 2 ^ 10)" by (rule bit_iff_odd)
    finally show ?thesis by simp
  qed
  ultimately show ?thesis by simp
qed

lemma and_400_iff:
  assumes "unat (w :: u32) < 2048"
  shows "w AND 0x400 = 0 \<longleftrightarrow> unat w < 1024"
proof -
  have "w AND 0x400 = 0 \<longleftrightarrow> unat (w AND 0x400) = 0" by (simp only: unat_eq_0)
  also have "\<dots> \<longleftrightarrow> even (unat w div 1024)" by (simp only: unat_and_400) simp
  also have "\<dots> \<longleftrightarrow> unat w < 1024"
  proof (cases "unat w < 1024")
    case False
    then have "unat w div 1024 = 1" using assms by linarith
    with False show ?thesis by simp
  qed simp
  finally show ?thesis .
qed

lemma half_normalize_spec:
  assumes "0 < unat m" "unat m < 2048"
  shows "\<exists>k. k \<le> 10 \<and> half_normalize m e = (push_bit k m, e - of_nat k) \<and> unat (push_bit k m) = unat m * 2 ^ k \<and>
     1024 \<le> unat m * 2 ^ k \<and> unat m * 2 ^ k < 2048"
  using assms
proof (induction "2048 - unat m" arbitrary: m e rule: less_induct)
  case less
  show ?case
  proof (cases "1024 \<le> unat m")
    case True
    with less.prems have "m AND 0x400 \<noteq> 0" by (simp add: and_400_iff)
    with True less.prems show ?thesis by (intro exI [of _ 0]) (simp add: half_normalize_done)
  next
    case False
    with less.prems have "m AND 0x400 = 0" by (simp add: and_400_iff)
    then have st: "half_normalize m e = half_normalize (push_bit 1 m) (e - 1)" by (rule half_normalize_step)
    have u: "unat (push_bit 1 m) = unat m * 2" using False by (simp add: push_bit_eq_mult unat_word_ariths)
    let ?n = "push_bit 1 m"
    have "\<exists>k. k \<le> 10 \<and> half_normalize ?n (e - 1) = (push_bit k ?n, e - 1 - of_nat k) \<and> unat (push_bit k ?n) = unat ?n * 2 ^ k \<and>
     1024 \<le> unat ?n * 2 ^ k \<and> unat ?n * 2 ^ k < 2048"
      using False less.prems u by (intro less.hyps) linarith+
    then obtain k where k: "half_normalize ?n (e - 1) = (push_bit k ?n, e - 1 - of_nat k)"
       "unat (push_bit k ?n) = unat m * 2 * 2 ^ k" "1024 \<le> unat m * 2 * 2 ^ k" "unat m * 2 * 2 ^ k < 2048"
      unfolding u by blast
    have "2 ^ Suc k < (2048::nat)"
    proof -
      have "2 ^ Suc k \<le> unat m * 2 ^ Suc k" using less.prems by simp
      also have "\<dots> < 2048" using k(4) by (simp add: mult.assoc)
      finally show ?thesis .
    qed
    then have "(2::nat) ^ Suc k < 2 ^ 11" by simp
    then have "Suc k < 11" by (rule power_less_imp_less_exp [rotated]) simp
    then have "Suc k \<le> 10" by simp
    moreover have "half_normalize m e = (push_bit (Suc k) m, e - of_nat (Suc k))"
      unfolding st k(1) by (simp add: push_bit_push_bit)
    moreover have "unat (push_bit (Suc k) m) = unat m * 2 ^ Suc k"
      using k(2) by (simp add: push_bit_push_bit mult.assoc)
    ultimately show ?thesis using k(3,4) by (intro exI [of _ "Suc k"]) (simp add: mult.assoc)
  qed
qed

lemma unat_u16_u32: "unat (ucast (w :: u16) :: u32) = unat w"
  using unsigned_less [of w, where 'a = nat] by (simp add: unsigned_ucast_eq take_bit_nat_eq_self)

lemma unat_ex: "unat (ucast (drop_bit 10 (h :: u16) AND 0x1F) :: u32) = unat (drop_bit 10 h AND 0x1F)"
  by (rule unat_u16_u32)

lemma unat_mant: "unat (ucast ((h :: u16) AND 0x3FF) :: u32) = unat (h AND 0x3FF)"
  by (rule unat_u16_u32)

lemma unat_ex_less: "unat (drop_bit 10 (h :: u16) AND 0x1F) < 32"
proof -
  have "drop_bit 10 h AND 0x1F = take_bit 5 (drop_bit 10 h)" by (simp add: take_bit_eq_mask mask_eq_exp_minus_1)
  then show ?thesis by (simp add: unsigned_take_bit_eq take_bit_nat_less_exp [of 5, simplified])
qed

lemma unat_mant_less: "unat ((h :: u16) AND 0x3FF) < 1024"
proof -
  have "h AND 0x3FF = take_bit 10 h" by (simp add: take_bit_eq_mask mask_eq_exp_minus_1)
  then show ?thesis by (simp add: unsigned_take_bit_eq take_bit_nat_less_exp [of 10, simplified])
qed

lemma and_3FF_mod: "unat ((w :: u32) AND 0x3FF) = unat w mod 1024"
proof -
  have "w AND 0x3FF = take_bit 10 w" by (simp add: take_bit_eq_mask mask_eq_exp_minus_1)
  then have "unat (w AND 0x3FF) = take_bit 10 (unat w)" by (simp only: unsigned_take_bit_eq)
  then show ?thesis by (simp add: take_bit_eq_mod)
qed

lemma half_exact: "vg_half_to_float h = f16_of_bits h"
proof -
  define ex where "ex = (ucast (drop_bit 10 h AND 0x1F) :: u32)"
  define mant where "mant = (ucast (h AND 0x3FF) :: u32)"
  have ex: "unat (drop_bit 10 h AND 0x1F) = unat ex" and exl: "unat ex < 32"
    using unat_ex_less by (simp_all add: ex_def unat_ex)
  have mt: "unat (h AND 0x3FF) = unat mant" and ml: "unat mant < 1024"
    using unat_mant_less by (simp_all add: mant_def unat_mant)
  consider (zero) "unat ex = 0" "unat mant = 0" | (sub) "unat ex = 0" "0 < unat mant"
    | (special) "unat ex = 31" | (normal) "0 < unat ex" "unat ex < 31"
    using exl by linarith
  then show ?thesis
  proof cases
    case zero
    then have z: "ex = 0" "mant = 0" by (simp_all add: unat_eq_0)
    have "vg_half_bits h = f32_word h 0 0"
      using z by (simp add: vg_half_bits_def f32_word_def ex_def mant_def)
    then show ?thesis using zero
      by (simp add: vg_half_to_float_def f32_of_word f16_of_bits_def ex mt ieee_decode_def mk_fin_def)
  next
    case sub
    from half_normalize_spec [of mant 113] sub ml obtain k where
      k: "k \<le> 10" "half_normalize mant 113 = (push_bit k mant, 113 - of_nat k)"
        "unat (push_bit k mant) = unat mant * 2 ^ k" "1024 \<le> unat mant * 2 ^ k" "unat mant * 2 ^ k < 2048"
      by auto
    have z: "ex = 0" "mant \<noteq> 0" using sub by (auto simp: unat_eq_0)
    have b: "vg_half_bits h = f32_word h (113 - of_nat k) (push_bit k mant AND 0x3FF)"
      using z k(2) by (simp add: vg_half_bits_def f32_word_def ex_def mant_def)
    have ue: "unat (113 - of_nat k :: u32) = 113 - k"
      using k(1) by (simp add: unat_sub word_le_nat_alt unsigned_of_nat take_bit_nat_eq_self)
    have um: "unat (push_bit k mant AND 0x3FF) = unat mant * 2 ^ k - 1024"
      unfolding and_3FF_mod k(3) using k(4,5) by (simp add: mod_if)
    have "vg_half_to_float h = ieee_decode 8 23 (bit h 15) (113 - k) ((unat mant * 2 ^ k - 1024) * 2 ^ 13)"
      unfolding vg_half_to_float_def b using k by (subst f32_of_word) (simp_all add: ue um)
    also have "\<dots> = mk_fin (bit h 15) (2 ^ 23 + (unat mant * 2 ^ k - 1024) * 2 ^ 13) (int (113 - k) - 127 - 23)"
    proof -
      have "113 - k \<noteq> 255" "113 - k \<noteq> 0" using k(1) by linarith+
      then show ?thesis by (simp add: ieee_decode_def)
    qed
    also have "2 ^ 23 + (unat mant * 2 ^ k - 1024) * 2 ^ 13 = unat mant * 2 ^ (13 + k)"
    proof -
      have "(unat mant * 2 ^ k - 1024) * 2 ^ 13 = unat mant * 2 ^ k * 2 ^ 13 - 1024 * 2 ^ 13"
        by (rule diff_mult_distrib)
      with k(4) show ?thesis by (simp add: power_add)
    qed
    also have "mk_fin (bit h 15) (unat mant * 2 ^ (13 + k)) (int (113 - k) - 127 - 23) = mk_fin (bit h 15) (unat mant) (-24)"
      unfolding mk_fin_shift using k(1) by simp
    finally show ?thesis using sub by (simp add: f16_of_bits_def ex mt ieee_decode_def)
  next
    case special
    then have z: "ex = 31" by (simp add: word_unat_eq_iff)
    have "vg_half_bits h = f32_word h 255 mant"
      using z by (simp add: vg_half_bits_def f32_word_def ex_def mant_def push_bit_eq_mult)
    then show ?thesis using special ml
      by (simp add: vg_half_to_float_def f32_of_word f16_of_bits_def ex mt ieee_decode_def)
  next
    case normal
    then have z: "ex \<noteq> 0" "ex \<noteq> 31" by auto
    have b: "vg_half_bits h = f32_word h (ex + 112) mant"
      using z by (simp add: vg_half_bits_def f32_word_def ex_def [symmetric] mant_def [symmetric] Let_def)
    have ue: "unat (ex + 112) = unat ex + 112" using exl by (simp add: unat_word_ariths)
    have "vg_half_to_float h = ieee_decode 8 23 (bit h 15) (unat ex + 112) (unat mant * 2 ^ 13)"
      unfolding vg_half_to_float_def b using ml exl by (subst f32_of_word) (simp_all add: ue)
    also have "\<dots> = mk_fin (bit h 15) ((1024 + unat mant) * 2 ^ 13) (int (unat ex) - 38)"
      using normal by (simp add: ieee_decode_def)
    also have "\<dots> = mk_fin (bit h 15) (1024 + unat mant) (int (unat ex) - 25)"
      unfolding mk_fin_shift by simp
    finally show ?thesis using normal by (simp add: f16_of_bits_def ex mt ieee_decode_def)
  qed
qed

section \<open>The type table\<close>

lemma kind_code_inj: "kind_code k = kind_code k' \<Longrightarrow> k = k'"
  by (cases k; cases k'; simp)

lemma find_mapI: "distinct (map f xs) \<Longrightarrow> x \<in> set xs \<Longrightarrow> List.find (\<lambda>y. f y = f x) xs = Some x"
  by (induction xs) (auto simp: rev_image_eqI)

lemma g_info_kinds: "map qi_kind g_info = [QK_F32, QK_F16, QK_BF16, QK_F64, QK_Q4_0, QK_Q4_1, QK_Q5_0, QK_Q5_1, QK_Q8_0,
   QK_IQ4_NL, QK_Q2_K, QK_Q3_K, QK_Q4_K, QK_Q5_K, QK_Q6_K, QK_Q8_K, QK_I8, QK_I16, QK_I32, QK_I64, QK_Q8_1,
   QK_IQ2_XXS, QK_IQ2_XS, QK_IQ3_XXS, QK_IQ1_S, QK_IQ3_S, QK_IQ2_S, QK_IQ4_XS, QK_IQ1_M, QK_MXFP4, QK_NVFP4,
   QK_TQ1_0, QK_TQ2_0, QK_Q1_0, QK_Q2_0]"
  by (simp add: g_info_def mk_info_def)

lemma g_info_complete: "k \<in> qi_kind ` set g_info"
  unfolding set_map [symmetric] g_info_kinds by (cases k) simp_all

lemma g_info_distinct: "distinct (map (\<lambda>q. kind_code (qi_kind q)) g_info)"
proof -
  have "distinct (map qi_kind g_info)" unfolding g_info_kinds by simp
  moreover have "inj kind_code" by (rule injI) (rule kind_code_inj)
  ultimately have "distinct (map kind_code (map qi_kind g_info))"
    by (subst distinct_map) (auto intro: inj_on_subset)
  then show ?thesis by (simp add: comp_def)
qed

lemma vg_quant_info_mem: "q \<in> set g_info \<Longrightarrow> vg_quant_info (kind_code (qi_kind q)) = Some q"
  unfolding vg_quant_info_def by (rule find_mapI [OF g_info_distinct])

lemma vg_quant_info_SomeD:
  "vg_quant_info t = Some q \<Longrightarrow> q \<in> set g_info \<and> t = kind_code (qi_kind q)"
  unfolding vg_quant_info_def by (auto simp: find_Some_iff)

definition info_ok :: "vg_quantinfo \<Rightarrow> bool" where
  "info_ok q \<longleftrightarrow> qi_block_size q \<noteq> 0 \<and> qi_bytes_per_block q \<noteq> 0 \<and> qi_block_size q \<le> 256"

lemma info_ok_mem: "q \<in> set g_info \<Longrightarrow> info_ok q"
proof -
  have "list_all info_ok g_info" by (simp add: g_info_def mk_info_def info_ok_def)
  then show "q \<in> set g_info \<Longrightarrow> info_ok q" by (simp add: list_all_iff)
qed

lemma u32_u64: "unat (ucast (w :: u32) :: u64) = unat w"
  using unsigned_less [of w, where 'a = nat] by (simp add: unsigned_ucast_eq take_bit_nat_eq_self)

lemma quant_validate_iff:
  "vg_quant_validate type elements nbytes = VG_OK \<longleftrightarrow>
   (\<exists>q. vg_quant_info type = Some q \<and> elements \<noteq> 0 \<and> unat (qi_block_size q) dvd unat elements \<and>
        unat elements div unat (qi_block_size q) * unat (qi_bytes_per_block q) = unat nbytes)"
proof (cases "vg_quant_info type")
  case None
  then show ?thesis by (simp add: vg_quant_validate_def)
next
  case (Some q)
  define bs where "bs = (ucast (qi_block_size q) :: u64)"
  define bpb where "bpb = (ucast (qi_bytes_per_block q) :: u64)"
  have ub: "unat (qi_block_size q) = unat bs" "unat (qi_bytes_per_block q) = unat bpb"
    by (simp_all add: bs_def bpb_def u32_u64)
  have nz: "bpb \<noteq> 0"
    using info_ok_mem [of q] vg_quant_info_SomeD [OF Some] ub(2)
    by (auto simp: info_ok_def unat_eq_0)
  have dv: "elements mod bs = 0 \<longleftrightarrow> unat bs dvd unat elements"
    by (simp add: word_unat_eq_iff unat_mod dvd_eq_mod_eq_0)
  have mul: "elements div bs * bpb = nbytes \<longleftrightarrow> unat elements div unat bs * unat bpb = unat nbytes"
    if "\<not> UINT64_MAX div bpb < elements div bs"
    using that u64_mul_check [OF nz, of "elements div bs"] unat_u64_mult [of "elements div bs" bpb]
    by (auto simp: word_unat_eq_iff unat_div)
  have over: "unat elements div unat bs * unat bpb \<noteq> unat nbytes" if "UINT64_MAX div bpb < elements div bs"
    using that u64_mul_check [OF nz, of "elements div bs"] unat_u64_less [of nbytes]
    by (auto simp: unat_div)
  show ?thesis
    using mul over dv Some
    by (auto simp: vg_quant_validate_def Let_def ub bs_def [symmetric] bpb_def [symmetric] simp del: not_less)
qed

section \<open>Dispatch\<close>

lemma length_deq_blocks:
  "(\<And>p. length (f p) = n) \<Longrightarrow> length (deq_blocks sz f src nb) = n * nb"
  unfolding deq_blocks_def by (subst concat_map_length_const [where n = n]) auto

lemmas block_defs = blk_q4_0_def blk_q4_1_def blk_q5_0_def blk_q5_1_def blk_q8_0_def blk_iq4_nl_def blk_q2_k_def blk_q3_k_def
  blk_q4_k_def blk_q5_k_def blk_q6_k_def blk_q8_k_def blk_tq1_0_def blk_tq2_0_def blk_q1_0_def blk_q2_0_def

lemma length_blk:
  "length (blk_q4_0 q) = 32" "length (blk_q4_1 q) = 32" "length (blk_q5_0 q) = 32" "length (blk_q5_1 q) = 32"
  "length (blk_q8_0 q) = 32" "length (blk_iq4_nl q) = 32"
  "length (blk_q2_k q) = 256" "length (blk_q3_k q) = 256" "length (blk_q4_k q) = 256" "length (blk_q5_k q) = 256"
  "length (blk_q6_k q) = 256" "length (blk_q8_k q) = 256" "length (blk_tq1_0 q) = 256" "length (blk_tq2_0 q) = 256"
  "length (blk_q1_0 q) = 128" "length (blk_q2_0 q) = 64"
  by (simp_all add: block_defs Let_def length_concat comp_def sum_list_triv split_beta)

text \<open>Every scalar-capable type has exactly one decoder, and it agrees with its table entry.\<close>

definition entry_ok :: "vg_quantinfo \<Rightarrow> bool" where
  "entry_ok q \<longleftrightarrow>
     (case scalar_fn (kind_code (qi_kind q)) of
        Some (sz, f) \<Rightarrow> qi_scalar q \<and> qi_block_size q = 1 \<and> unat (qi_bytes_per_block q) = sz \<and> block_fn (kind_code (qi_kind q)) = None
      | None \<Rightarrow> (case block_fn (kind_code (qi_kind q)) of
          Some (sz, f) \<Rightarrow> qi_scalar q \<and> unat (qi_bytes_per_block q) = sz \<and> (\<forall>p. length (f p) = unat (qi_block_size q))
        | None \<Rightarrow> \<not> qi_scalar q))"

lemma entry_ok_mem: "q \<in> set g_info \<Longrightarrow> entry_ok q"
proof -
  have "list_all entry_ok g_info"
    by (simp add: g_info_def mk_info_def entry_ok_def scalar_fn_def block_fn_def length_blk)
  then show "q \<in> set g_info \<Longrightarrow> entry_ok q" by (simp add: list_all_iff)
qed

section \<open>Rows\<close>

lemma slice_slice: "slice (slice p a n) 0 n = slice p a n"
  by (simp add: slice_def)

lemma dequantize_block_eq:
  assumes q: "vg_quant_info type = Some q" and s: "qi_scalar q"
  shows "\<exists>f. (scalar_fn type = Some (unat (qi_bytes_per_block q), \<lambda>p. hd (f p)) \<or> scalar_fn type = None \<and> block_fn type = Some (unat (qi_bytes_per_block q), f)) \<and>
    (\<forall>p. length (f p) = unat (qi_block_size q)) \<and>
    (\<forall>p a. vg_dequantize_block type (Some (slice p a (unat (qi_bytes_per_block q)))) True = Inr (f (slice p a (unat (qi_bytes_per_block q)))))"
proof -
  have t: "type = kind_code (qi_kind q)" and e: "entry_ok q"
    using vg_quant_info_SomeD [OF q] entry_ok_mem by auto
  show ?thesis
  proof (cases "scalar_fn type")
    case (Some sf)
    then obtain sz g where sf: "scalar_fn type = Some (sz, g)" by (cases sf) auto
    show ?thesis
      using e sf q s by (intro exI [of _ "\<lambda>p. [g p]"]) (auto simp: entry_ok_def t [symmetric] vg_dequantize_block_def)
  next
    case None
    then obtain f where "block_fn type = Some (unat (qi_bytes_per_block q), f)" "\<forall>p. length (f p) = unat (qi_block_size q)"
      using e s by (auto simp: entry_ok_def t [symmetric] split: option.splits)
    then show ?thesis using None q s
      by (intro exI [of _ f]) (auto simp: vg_dequantize_block_def deq_blocks_def slice_slice)
  qed
qed

lemma validate_OK_blocks:
  assumes "vg_quant_validate type elements nbytes = VG_OK" and "vg_quant_info type = Some q"
  shows "elements \<noteq> 0" "unat (elements div ucast (qi_block_size q)) = unat elements div unat (qi_block_size q)"
    "unat (qi_block_size q) * (unat elements div unat (qi_block_size q)) = unat elements"
  using assms by (auto simp: quant_validate_iff unat_div u32_u64)

definition row_blocks :: "u32 \<Rightarrow> vg_quantinfo \<Rightarrow> bytes \<Rightarrow> u64 \<Rightarrow> flt list" where
  "row_blocks type q p elements =
     concat (map (\<lambda>b. projr (vg_dequantize_block type
         (Some (slice p (b * unat (qi_bytes_per_block q)) (unat (qi_bytes_per_block q)))) True))
       [0..<unat elements div unat (qi_block_size q)])"

lemma concat_map_hd: "(\<And>x. length (f x) = 1) \<Longrightarrow> concat (map (\<lambda>b. f (g b)) xs) = map (\<lambda>b. hd (f (g b))) xs"
proof (induction xs)
  case (Cons x xs)
  have "f (g x) = [hd (f (g x))]"
    using Cons.prems [of "g x"] by (cases "f (g x)") auto
  with Cons show ?case by simp
qed simp

lemma row_eq_blocks:
  assumes v: "vg_quant_validate type elements nbytes = VG_OK" and q: "vg_quant_info type = Some q" and s: "qi_scalar q"
  shows "vg_dequantize_row type (Some p) nbytes True elements = Inr (row_blocks type q p elements) \<and>
     length (row_blocks type q p elements) = unat elements"
proof -
  obtain f where f: "scalar_fn type = Some (unat (qi_bytes_per_block q), \<lambda>p. hd (f p)) \<or> scalar_fn type = None \<and> block_fn type = Some (unat (qi_bytes_per_block q), f)"
    and len: "\<And>p. length (f p) = unat (qi_block_size q)"
    and blk: "\<And>p a. vg_dequantize_block type (Some (slice p a (unat (qi_bytes_per_block q)))) True = Inr (f (slice p a (unat (qi_bytes_per_block q))))"
    using dequantize_block_eq [OF q s] by blast
  note n = validate_OK_blocks [OF v q]
  have rb: "row_blocks type q p elements =
      deq_blocks (unat (qi_bytes_per_block q)) f p (unat elements div unat (qi_block_size q))"
    by (simp add: row_blocks_def blk deq_blocks_def)
  then have l: "length (row_blocks type q p elements) = unat elements"
    using n(3) by (simp add: length_deq_blocks [OF len])
  have "vg_dequantize_row type (Some p) nbytes True elements = Inr (row_blocks type q p elements)"
    using f
  proof
    assume sc: "scalar_fn type = Some (unat (qi_bytes_per_block q), \<lambda>p. hd (f p))"
    then have "unat (qi_block_size q) = 1"
      using entry_ok_mem [of q] vg_quant_info_SomeD [OF q] by (auto simp: entry_ok_def)
    with len have "\<And>p. length (f p) = 1" by simp
    then have "row_blocks type q p elements =
        map (\<lambda>b. hd (f (slice p (b * unat (qi_bytes_per_block q)) (unat (qi_bytes_per_block q)))))
          [0..<unat elements div unat (qi_block_size q)]"
      unfolding rb deq_blocks_def by (rule concat_map_hd)
    then show ?thesis using sc v q s n \<open>unat (qi_block_size q) = 1\<close>
      by (simp add: vg_dequantize_row_def)
  next
    assume "scalar_fn type = None \<and> block_fn type = Some (unat (qi_bytes_per_block q), f)"
    then show ?thesis using v q s n by (simp add: vg_dequantize_row_def rb)
  qed
  with l show ?thesis by simp
qed

section \<open>Scales and quants\<close>

lemma half_sized:
  assumes "is_fin (vg_half_to_float h)"
  shows "sized 11 (-24) 16 (vg_half_to_float h)"
proof -
  define ex where "ex = unat (drop_bit 10 h AND 0x1F)"
  define m where "m = unat (h AND 0x3FF)"
  have b: "ex < 32" "m < 1024" using unat_ex_less unat_mant_less by (simp_all add: ex_def m_def)
  have e: "vg_half_to_float h = ieee_decode 5 10 (bit h 15) ex m"
    by (simp add: half_exact f16_of_bits_def ex_def m_def)
  have ne: "ex \<noteq> 31" using assms b by (auto simp: e ieee_decode_def split: if_splits)
  show ?thesis
  proof (cases "ex = 0")
    case True
    have "bitlen m \<le> 10" using b by (simp add: bitlen_le_iff)
    with True b show ?thesis by (auto simp: e ieee_decode_def intro!: sized_mk_fin)
  next
    case False
    have "bitlen (1024 + m) \<le> 11" using b by (simp add: bitlen_le_iff)
    with False ne b show ?thesis by (auto simp: e ieee_decode_def intro!: sized_mk_fin)
  qed
qed

lemma half_at_sized: "is_fin (half_at q n) \<Longrightarrow> sized 11 (-24) 16 (half_at q n)"
  unfolding half_at_def by (rule half_sized)

text \<open>A quant of up to 12 bits times a finite half scale is exact, in either order.\<close>

lemma quant_times_scale:
  assumes d: "is_fin (half_at q n)" and i: "\<bar>i\<bar> \<le> 2 ^ k" "0 < k" "k \<le> 12"
  shows "flt_val (fmul (fint i) (half_at q n)) = of_int i * flt_val (half_at q n)"
    and "flt_val (fmul (half_at q n) (fint i)) = flt_val (half_at q n) * of_int i"
    and "sized (11 + k) (-24) (int k + 17) (fmul (half_at q n) (fint i))"
proof -
  have f: "flt_val (fint i) = of_int i" "sized k 0 (int k + 1) (fint i)"
    using f_of_int_exact [of i k] i by auto
  show "flt_val (fmul (fint i) (half_at q n)) = of_int i * flt_val (half_at q n)"
    using f_mul_exact [OF f(2) half_at_sized [OF d]] i f(1) by simp
  show "flt_val (fmul (half_at q n) (fint i)) = flt_val (half_at q n) * of_int i"
    and "sized (11 + k) (-24) (int k + 17) (fmul (half_at q n) (fint i))"
    using f_mul_exact [OF half_at_sized [OF d] f(2)] i f(1) by (simp_all add: ac_simps)
qed

lemma nib_bounds: "0 \<le> lo_nib b" "lo_nib b < 16" "0 \<le> hi_nib b" "hi_nib b < 16"
proof -
  have lo: "b AND 0x0F = take_bit 4 b" by (simp add: take_bit_eq_mask mask_eq_exp_minus_1)
  show "0 \<le> lo_nib b" "0 \<le> hi_nib b" by (simp_all add: lo_nib_def hi_nib_def)
  show "lo_nib b < 16"
    unfolding lo_nib_def lo by (simp add: unsigned_take_bit_eq take_bit_int_less_exp [of 4, simplified])
  have "uint b < 256" using uint_lt2p [of b] by simp
  then show "hi_nib b < 16"
    by (simp add: hi_nib_def drop_bit_eq_div uint_div)
qed

lemma crumb_bounds: "0 \<le> crumb b n" "crumb b n < 4"
proof -
  have c: "drop_bit n b AND 3 = take_bit 2 (drop_bit n b)" by (simp add: take_bit_eq_mask mask_eq_exp_minus_1)
  show "0 \<le> crumb b n" by (simp add: crumb_def)
  show "crumb b n < 4"
    unfolding crumb_def c by (simp add: unsigned_take_bit_eq take_bit_int_less_exp [of 2, simplified])
qed

lemma sint_u8_bound: "\<bar>sint (b :: u8)\<bar> \<le> 2 ^ 7"
proof -
  have "- 128 \<le> sint b" "sint b < 128" using sint_ge [of b] sint_lt [of b] by simp_all
  then show ?thesis by simp
qed


section \<open>Values of the decoded elements\<close>

lemma nth_two_halves:
  "j < 32 \<Longrightarrow> (map f [0..<16] @ map g [0..<16]) ! j = (if j < 16 then f j else g (j - 16))"
  by (auto simp: nth_append)

lemma nth_concat_map_upt:
  assumes "i < k" and "j < n" and "\<And>i. length (f i) = n"
  shows "concat (map f [0..<k]) ! (n * i + j) = f i ! j"
  using nth_concat_const [of "[0..<k]" f n i j] assms by simp

lemma q4_0_value:
  assumes "is_fin (half_at q 0)" and "j < 32"
  shows "flt_val (blk_q4_0 q ! j) =
     of_int ((if j < 16 then lo_nib (q ! (2 + j)) else hi_nib (q ! (2 + (j - 16)))) - 8) * flt_val (half_at q 0)"
proof -
  have b: "\<bar>lo_nib x - 8\<bar> \<le> 2 ^ 4 \<and> \<bar>hi_nib x - 8\<bar> \<le> 2 ^ 4" for x
    using nib_bounds [of x] by auto
  show ?thesis
    using assms b by (simp add: blk_q4_0_def Let_def nth_two_halves quant_times_scale(1) [where k = 4])
qed

lemma q8_0_value:
  assumes "is_fin (half_at q 0)" and "j < 32"
  shows "flt_val (blk_q8_0 q ! j) = of_int (sint (q ! (2 + j))) * flt_val (half_at q 0)"
  using assms by (simp add: blk_q8_0_def Let_def quant_times_scale(1) [where k = 7] sint_u8_bound [simplified])

text \<open>The 6-bit quant of element \<open>e\<close> of a Q6_K block, read off its two bit planes.\<close>

definition q6_ref :: "bytes \<Rightarrow> nat \<Rightarrow> int" where
  "q6_ref q e =
     (let h = e div 128; k = e mod 128 div 32; l = e mod 32;
          low = q ! (64 * h + 32 * (k mod 2) + l); high = q ! (128 + 32 * h + l)
      in (if k div 2 = 0 then lo_nib low else hi_nib low) + 16 * crumb high (2 * k) - 32)"

lemma uint_or_disjoint:
  assumes "uint (a :: u8) < 16" and "uint c < 4"
  shows "uint (a OR push_bit 4 c) = uint a + 16 * uint c"
proof -
  have p: "uint (push_bit 4 c) = 16 * uint c"
    using assms by (simp add: push_bit_eq_mult uint_word_ariths)
  have "a = take_bit 4 a"
    using assms(1) by (simp add: word_uint_eq_iff unsigned_take_bit_eq take_bit_int_eq_self)
  then have "a AND push_bit 4 c = 0"
    by (metis (no_types, opaque_lifting) bit_and_iff bit_push_bit_iff bit_take_bit_iff bit_word_eqI bit_0_eq bot_apply bot_bool_def leD)
  then have "a OR push_bit 4 c = a + push_bit 4 c" by (simp add: disjunctive_add_eq_or)
  then show ?thesis using p assms by (simp add: uint_word_ariths)
qed


lemma q6_quant_eq:
  assumes "k < 4" and "l < 32"
  shows "q6_quant q h k l = q6_ref q (128 * h + (32 * k + l))"
proof -
  have e: "(128 * h + (32 * k + l)) div 128 = h" "(128 * h + (32 * k + l)) mod 128 = 32 * k + l"
    "(32 * k + l) div 32 = k"
    using assms by simp_all
  have l: "(128 * h + (32 * k + l)) mod 32 = l"
  proof -
    have "128 * h + (32 * k + l) = l + 32 * (4 * h + k)" by simp
    with assms(2) show ?thesis by (simp only: mod_mult_self2) simp
  qed
  have k: "k < 2 \<longleftrightarrow> k div 2 = 0" "(if odd k then 32 else 0) = 32 * (k mod 2)"
    by (auto simp: mod2_eq_if)
  have u: "uint (lo OR push_bit 4 (drop_bit n hi AND 3)) = uint lo + 16 * crumb hi n"
    if "uint (lo :: u8) < 16" for lo hi n
    using uint_or_disjoint [OF that, of "drop_bit n hi AND 3"] crumb_bounds(2) [of hi n] by (simp add: crumb_def)
  have ix: "64 * h + l + 32 * (k mod 2) = 64 * h + 32 * (k mod 2) + l" by simp
  have n: "uint (b AND 0x0F) < 16" "uint (drop_bit 4 b) < 16" for b :: u8
    using nib_bounds [of b] by (simp_all add: lo_nib_def hi_nib_def)
  show ?thesis
    unfolding q6_quant_def q6_ref_def Let_def e l k ix
    by (cases "k div 2 = 0") (simp_all only: if_True if_False refl u n lo_nib_def hi_nib_def)
qed

lemma q6_ref_bound: "\<bar>q6_ref q e\<bar> \<le> 2 ^ 5"
proof -
  have "\<bar>(if c then lo_nib x else hi_nib x) + 16 * crumb y n - 32\<bar> \<le> 32" for c x y n
    using nib_bounds [of x] crumb_bounds [of y n] by auto
  then show ?thesis by (simp add: q6_ref_def Let_def)
qed

text \<open>C26: element \<open>e\<close> of a Q6_K block whose scale is finite is, without any rounding, the block scale
  times the signed 8-bit scale of its group of sixteen times its 6-bit quant minus 32; the decoder's
  interleaved loop puts every element at its place.\<close>

theorem q6_k_exact:
  assumes d: "is_fin (half_at q 208)" and e: "e < 256"
  shows "flt_val (blk_q6_k q ! e) = flt_val (half_at q 208) * of_int (sint (q ! (192 + e div 16))) * of_int (q6_ref q e)"
proof -
  define h k l where "h = e div 128" and "k = e mod 128 div 32" and "l = e mod 32"
  have lt: "h < 2" "k < 4" "l < 32" using e by (simp_all add: h_def k_def l_def)
  have "32 * k + l = e mod 128"
    using mult_div_mod_eq [of 32 "e mod 128"] by (simp add: k_def l_def mod_mod_cancel)
  then have eq: "e = 128 * h + (32 * k + l)" by (simp add: h_def)
  have sc: "192 + 8 * h + l div 16 + 2 * k = 192 + e div 16"
    using lt unfolding eq by linarith
  define x where "x = fmul (half_at q 208) (fint (sint (q ! (192 + e div 16))))"
  have len: "length (concat (map (\<lambda>k. map (g k) [0..<32]) [0..<4])) = 128" for g :: "nat \<Rightarrow> nat \<Rightarrow> flt"
    by (simp add: length_concat comp_def sum_list_triv)
  define g where "g = (\<lambda>h k l. fmul (fmul (half_at q 208) (fint (sint (q ! (192 + 8 * h + l div 16 + 2 * k))))) (fint (q6_quant q h k l)))"
  have "blk_q6_k q ! (128 * h + (32 * k + l)) = concat (map (\<lambda>k. map (g h k) [0..<32]) [0..<4]) ! (32 * k + l)"
  proof -
    have "blk_q6_k q = concat (map (\<lambda>h. concat (map (\<lambda>k. map (g h k) [0..<32]) [0..<4])) [0..<2])"
      by (simp only: blk_q6_k_def Let_def g_def)
    then show ?thesis
      using lt nth_concat_map_upt [of h 2 "32 * k + l" 128 "\<lambda>h. concat (map (\<lambda>k. map (g h k) [0..<32]) [0..<4])"] len
      by simp
  qed
  also have "\<dots> = map (g h k) [0..<32] ! l" using lt by (intro nth_concat_map_upt) simp_all
  also have "\<dots> = fmul x (fint (q6_ref q e))" using lt by (simp add: g_def sc x_def q6_quant_eq eq [symmetric])
  finally have el: "blk_q6_k q ! e = fmul x (fint (q6_ref q e))" unfolding eq [symmetric] .
  have x1: "flt_val x = flt_val (half_at q 208) * of_int (sint (q ! (192 + e div 16)))"
    unfolding x_def by (rule quant_times_scale(2) [OF d sint_u8_bound]) simp_all
  have "sized (11 + 7) (-24) (int 7 + 17) x"
    unfolding x_def by (rule quant_times_scale(3) [OF d sint_u8_bound]) simp_all
  moreover have "sized 5 0 (int 5 + 1) (fint (q6_ref q e))"
    by (rule f_of_int_exact [OF q6_ref_bound, THEN conjunct2]) simp_all
  ultimately have "flt_val (fmul x (fint (q6_ref q e))) = flt_val x * flt_val (fint (q6_ref q e))"
    by (rule f_mul_exact [THEN conjunct1]) simp_all
  moreover have "flt_val (fint (q6_ref q e)) = of_int (q6_ref q e)"
    by (rule f_of_int_exact [OF q6_ref_bound, THEN conjunct1]) simp_all
  ultimately show ?thesis by (simp only: el x1)
qed

section \<open>Ternary packing\<close>

text \<open>Five trits in one byte, as the packers of these files do it: radix 3, scaled up to 256 and rounded up.\<close>

definition tq1_byte :: "nat list \<Rightarrow> u8" where
  "tq1_byte ts = of_nat ((foldl (\<lambda>a t. 3 * a + t) 0 ts * 256 + 242) div 243)"

lemma tq1_digit_of_nat:
  "n < 5 \<Longrightarrow> tq1_digit (of_nat q) n = int (q * 3 ^ n mod 256 * 3 div 256)"
proof -
  assume "n < 5"
  then consider "n = 0" | "n = 1" | "n = 2" | "n = 3" | "n = 4" by linarith
  then have p: "k_pow3 ! n = of_nat (3 ^ n)" by cases (simp_all add: k_pow3_def)
  have "unat (of_nat q * of_nat (3 ^ n) :: u8) = q * 3 ^ n mod 256"
    by (simp only: of_nat_mult [symmetric] unsigned_of_nat take_bit_eq_mod) simp
  then show ?thesis by (simp only: tq1_digit_def p Let_def)
qed

lemma mod_256_top: "x mod 256 * 3 div 256 = (x * 3 div 256) mod (3 :: nat)"
proof -
  have "x = 256 * (x div 256) + x mod 256" by simp
  moreover have "x mod 256 < 256" by simp
  ultimately have "x * 3 div 256 = 3 * (x div 256) + x mod 256 * 3 div 256" by linarith
  moreover have "x mod 256 * 3 div 256 < 3" using \<open>x mod 256 < 256\<close> by linarith
  ultimately show ?thesis by simp
qed

lemma tq1_radix:
  assumes "n < 5"
  shows "(v * 256 + 242) div 243 * 3 ^ n mod 256 * 3 div 256 = v div 3 ^ (4 - n) mod (3 :: nat)"
proof -
  define q where "q = (v * 256 + 242) div 243"
  have q: "243 * q \<le> v * 256 + 242" "v * 256 + 242 < 243 * q + 243" unfolding q_def by linarith+
  define w r where "w = v div 3 ^ (4 - n)" and "r = v mod 3 ^ (4 - n)"
  have v: "v = 3 ^ (4 - n) * w + r" "r < 3 ^ (4 - n)" by (simp_all add: w_def r_def)
  consider "n = 0" | "n = 1" | "n = 2" | "n = 3" | "n = 4" using assms by linarith
  then have "256 * w \<le> q * 3 ^ n * 3 \<and> q * 3 ^ n * 3 < 256 * w + 256"
    by cases (use q v in simp_all)
  then have "q * 3 ^ n * 3 div 256 = w" by linarith
  then show ?thesis by (simp only: mod_256_top q_def w_def)
qed

lemma mod3I: "v = 3 * y + t \<Longrightarrow> t \<le> 2 \<Longrightarrow> v mod 3 = (t :: nat)"
  by simp

lemma tq1_digit_pack:
  assumes "length ts = 5" and "set ts \<subseteq> {0, 1, 2}" and "n < 5"
  shows "tq1_digit (tq1_byte ts) n = int (ts ! n)"
proof -
  obtain a b c d e where ts: "ts = [a, b, c, d, e]"
    using assms(1) by (auto simp: length_Suc_conv eval_nat_numeral)
  with assms(2) have le: "a \<le> 2" "b \<le> 2" "c \<le> 2" "d \<le> 2" "e \<le> 2" by auto
  define v where "v = 81 * a + 27 * b + 9 * c + 3 * d + e"
  have v: "foldl (\<lambda>a t. 3 * a + t) 0 ts = v" by (simp add: ts v_def)
  consider "n = 0" | "n = 1" | "n = 2" | "n = 3" | "n = 4" using assms(3) by linarith
  then have dig: "v div 3 ^ (4 - n) mod 3 = ts ! n"
  proof cases
    case 1
    moreover have "v div 81 = a" using le unfolding v_def by linarith
    ultimately show ?thesis using le by (simp add: ts)
  next
    case 2
    moreover have "v div 27 = 3 * a + b" using le unfolding v_def by linarith
    ultimately show ?thesis using le by (intro mod3I) (simp_all add: ts)
  next
    case 3
    have "v div 9 = 3 * (3 * a + b) + c"
    proof -
      have "3 * d + e < 9" using le by linarith
      moreover have "v = 9 * (3 * (3 * a + b) + c) + (3 * d + e)" by (simp add: v_def)
      ultimately show ?thesis by simp
    qed
    then have "v div 9 mod 3 = c" using le(3) by (rule mod3I)
    with 3 show ?thesis by (simp add: ts)
  next
    case 4
    have "v = 3 * (3 * (9 * a + 3 * b + c) + d) + e" by (simp add: v_def)
    with le(5) have "v div 3 = 3 * (9 * a + 3 * b + c) + d" by simp
    then have "v div 3 mod 3 = d" using le(4) by (rule mod3I)
    with 4 show ?thesis by (simp add: ts)
  next
    case 5
    have "v = 3 * (27 * a + 9 * b + 3 * c + d) + e" by (simp add: v_def)
    then have "v mod 3 = e" using le(5) by (rule mod3I)
    with 5 show ?thesis by (simp add: ts)
  qed
  note tq1_radix [OF assms(3), of v]
  then show ?thesis
    by (simp only: tq1_byte_def v tq1_digit_of_nat [OF assms(3)] dig)
qed

text \<open>
  Reference packers of the two ternary formats: trit \<open>32 * n + m\<close> of the first 160 is digit \<open>n\<close> of
  byte \<open>m\<close>, the next 80 are spread over 16 bytes and the last 16 over four bytes of four digits.
\<close>

definition tq1_pack :: "nat list \<Rightarrow> bytes \<Rightarrow> bytes" where
  "tq1_pack ts scale =
     map (\<lambda>m. tq1_byte (map (\<lambda>n. ts ! (32 * n + m)) [0..<5])) [0..<32]
     @ map (\<lambda>m. tq1_byte (map (\<lambda>n. ts ! (160 + 16 * n + m)) [0..<5])) [0..<16]
     @ map (\<lambda>j. tq1_byte (map (\<lambda>n. if n < 4 then ts ! (240 + 4 * n + j) else 0) [0..<5])) [0..<4] @ scale"

lemma map_nth_blocks: "concat (map (\<lambda>n. map (\<lambda>m. f (ts ! (b + w * n + m))) [0..<w]) [0..<k]) = map f (map (\<lambda>i. ts ! (b + i)) [0..<w * k])"
proof (induction k)
  case (Suc k)
  have "[0..<w * Suc k] = [0..<w * k] @ map (\<lambda>m. w * k + m) [0..<w]"
    using upt_add_eq_append [of 0 "w * k" w] by (simp add: map_add_upt add.commute)
  with Suc show ?case by (simp add: add.assoc comp_def)
qed simp

lemma split_256: "length ts = 256 \<Longrightarrow>
   ts = map (\<lambda>i. ts ! (0 + i)) [0..<160] @ map (\<lambda>i. ts ! (160 + i)) [0..<80] @ map (\<lambda>i. ts ! (240 + i)) [0..<16]"
  by (rule nth_equalityI) (auto simp: nth_append)

lemma trits_nth: "length ts = 256 \<Longrightarrow> set ts \<subseteq> {0, 1, 2} \<Longrightarrow> i < 256 \<Longrightarrow> ts ! i \<in> {0, 1, 2}"
  by (metis nth_mem subsetD)

text \<open>decoding a TQ1_0 block gives back, in order, the 256 trits that were packed into its 52 bytes,
  each shifted to \<open>-1, 0, 1\<close> and multiplied by the block scale: the wrapping 8-bit product with a
  power of three isolates each radix-3 digit.\<close>

theorem tq1_roundtrip:
  assumes len: "length ts = 256" and tr: "set ts \<subseteq> {0, 1, 2}"
  shows "blk_tq1_0 (tq1_pack ts scale) = map (\<lambda>t. fmul (fint (int t - 1)) (half_at scale 0)) ts"
proof -
  define q where "q = tq1_pack ts scale"
  define F where "F = (\<lambda>t. fmul (fint (int t - 1)) (half_at scale 0))"
  have d: "half_at q 52 = half_at scale 0"
    by (simp add: q_def tq1_pack_def half_at_def u16_at_def slice_def)
  have a: "tq1_digit (q ! m) n = int (ts ! (0 + 32 * n + m))" if "m < 32" "n < 5" for m n
    using that trits_nth [OF len tr]
    by (simp add: q_def tq1_pack_def nth_append tq1_digit_pack image_subset_iff)
  have b: "tq1_digit (q ! (32 + m)) n = int (ts ! (160 + 16 * n + m))" if "m < 16" "n < 5" for m n
    using that trits_nth [OF len tr]
    by (simp add: q_def tq1_pack_def nth_append tq1_digit_pack image_subset_iff)
  have c: "tq1_digit (q ! (48 + j)) n = int (ts ! (240 + 4 * n + j))" if "j < 4" "n < 4" for j n
    using that trits_nth [OF len tr]
    by (simp add: q_def tq1_pack_def nth_append tq1_digit_pack image_subset_iff)
  have "blk_tq1_0 q =
      concat (map (\<lambda>n. map (\<lambda>m. F (ts ! (0 + 32 * n + m))) [0..<32]) [0..<5])
    @ concat (map (\<lambda>n. map (\<lambda>m. F (ts ! (160 + 16 * n + m))) [0..<16]) [0..<5])
    @ concat (map (\<lambda>n. map (\<lambda>m. F (ts ! (240 + 4 * n + m))) [0..<4]) [0..<4])"
    unfolding blk_tq1_0_def Let_def d F_def
    by (intro arg_cong2 [where f = "(@)"] arg_cong [where f = concat] map_cong refl)
       (simp_all only: a b c set_upt atLeastLessThan_iff)
  also have "\<dots> = map F ts"
    unfolding map_nth_blocks using split_256 [OF len] by (metis (no_types, lifting) map_append mult_numeral_1_right numeral_times_numeral semiring_norm)
  finally show ?thesis by (simp add: q_def F_def)
qed

section \<open>Two-bit planes\<close>

definition tq2_pack :: "nat list \<Rightarrow> bytes \<Rightarrow> bytes" where
  "tq2_pack ts scale =
     map (\<lambda>i. of_nat (\<Sum>l<4. ts ! (128 * (i div 32) + 32 * l + i mod 32) * 4 ^ l)) [0..<64] @ scale"

lemma crumb_eq: "crumb b n = int (unat b div 2 ^ n mod 4)"
proof -
  have "drop_bit n b AND 3 = take_bit 2 (drop_bit n b)" by (simp add: take_bit_eq_mask mask_eq_exp_minus_1)
  then have "unat (drop_bit n b AND 3) = take_bit 2 (unat (drop_bit n b))" by (simp only: unsigned_take_bit_eq)
  also have "unat (drop_bit n b) = unat b div 2 ^ n" by (simp only: unat_drop_bit_eq) (simp only: drop_bit_eq_div)
  finally show ?thesis by (simp only: crumb_def uint_nat take_bit_eq_mod) simp
qed

lemma crumb_pack:
  assumes "\<And>l. l < 4 \<Longrightarrow> f l < 4" and "l < 4"
  shows "crumb (of_nat (\<Sum>l<4. f l * 4 ^ l)) (2 * l) = int (f l)"
proof -
  have s: "(\<Sum>l<4. f l * 4 ^ l) = f 0 + 4 * (f 1 + 4 * (f 2 + 4 * f 3))"
    by (simp add: numeral_eq_Suc)
  have f: "f 0 < 4" "f 1 < 4" "f 2 < 4" "f 3 < 4" using assms(1) by simp_all
  then have "(\<Sum>l<4. f l * 4 ^ l) < 256" by (simp add: s)
  moreover have "unat (of_nat x :: u8) = x" if "x < 256" for x
    using that by (simp add: unsigned_of_nat take_bit_nat_eq_self)
  ultimately have u: "unat (of_nat (\<Sum>l<4. f l * 4 ^ l) :: u8) = f 0 + 4 * (f 1 + 4 * (f 2 + 4 * f 3))"
    by (simp only: s)
  have d: "x < 4 \<Longrightarrow> (x + 4 * y) mod 4 = x" "x < 4 \<Longrightarrow> (x + 4 * y) div 4 = y" for x y :: nat
    by simp_all
  define y2 y1 where "y2 = f 2 + 4 * f 3" and "y1 = f 1 + 4 * y2"
  have y: "y1 mod 4 = f 1" "y1 div 4 = y2" "y2 mod 4 = f 2" "y2 div 4 = f 3" "f 3 mod 4 = f 3"
    using f by (simp_all add: y1_def y2_def d(1) d(2) del: distrib_left_numeral)
  have "(f 0 + 4 * y1) div 2 ^ (2 * l) mod 4 = f l"
  proof -
    consider "l = 0" | "l = 1" | "l = 2" | "l = 3" using assms(2) by linarith
    then show ?thesis
      using f div_mult2_eq [of _ 4 4] div_mult2_eq [of _ 4 16]
      by cases (simp_all add: d y)
  qed
  then show ?thesis unfolding crumb_eq u y1_def y2_def by simp
qed

text \<open>decoding a TQ2_0 block gives back, in order, the 256 two-bit codes packed in its bit planes,
  each minus one and multiplied by the block scale.\<close>

theorem tq2_roundtrip:
  assumes len: "length ts = 256" and tr: "set ts \<subseteq> {..<4}"
  shows "blk_tq2_0 (tq2_pack ts scale) = map (\<lambda>t. fmul (fint (int t - 1)) (half_at scale 0)) ts"
proof (rule nth_equalityI)
  show "length (blk_tq2_0 (tq2_pack ts scale)) = length (map (\<lambda>t. fmul (fint (int t - 1)) (half_at scale 0)) ts)"
    by (simp add: length_blk len)
next
  fix e assume "e < length (blk_tq2_0 (tq2_pack ts scale))"
  then have e: "e < 256" by (simp add: length_blk)
  define g l m where "g = e div 128" and "l = e mod 128 div 32" and "m = e mod 32"
  have lt: "g < 2" "l < 4" "m < 32" using e by (simp_all add: g_def l_def m_def)
  have "32 * l + m = e mod 128"
    using mult_div_mod_eq [of 32 "e mod 128"] by (simp add: l_def m_def mod_mod_cancel)
  then have eq: "e = 128 * g + (32 * l + m)" by (simp add: g_def)
  define q where "q = tq2_pack ts scale"
  define F where "F = (\<lambda>x. fmul (fint (x - 1)) (half_at scale 0))"
  have d: "half_at q 64 = half_at scale 0"
    by (simp add: q_def tq2_pack_def half_at_def u16_at_def slice_def)
  have t: "ts ! i < 4" if "i < 256" for i using that tr len nth_mem [of i ts] by fastforce
  have cr: "crumb (q ! (32 * g + m)) (2 * l) = int (ts ! e)"
  proof -
    have "q ! (32 * g + m) = of_nat (\<Sum>l<4. ts ! (128 * g + 32 * l + m) * 4 ^ l)"
      using lt by (simp add: q_def tq2_pack_def nth_append)
    moreover have "crumb (of_nat (\<Sum>l<4. ts ! (128 * g + 32 * l + m) * 4 ^ l)) (2 * l) = int (ts ! (128 * g + 32 * l + m))"
      using lt t by (intro crumb_pack) auto
    ultimately show ?thesis by (simp add: eq add.assoc)
  qed
  have b: "blk_tq2_0 q = concat (map (\<lambda>g. concat (map (\<lambda>l. map (\<lambda>m. F (crumb (q ! (32 * g + m)) (2 * l))) [0..<32]) [0..<4])) [0..<2])"
    by (simp only: blk_tq2_0_def Let_def d F_def)
  have len': "length (concat (map (\<lambda>k. map (h k) [0..<32]) [0..<4])) = 128" for h :: "nat \<Rightarrow> nat \<Rightarrow> flt"
    by (simp add: length_concat comp_def sum_list_triv)
  have "blk_tq2_0 q ! (128 * g + (32 * l + m)) = concat (map (\<lambda>l. map (\<lambda>m. F (crumb (q ! (32 * g + m)) (2 * l))) [0..<32]) [0..<4]) ! (32 * l + m)"
    using lt len' nth_concat_map_upt [of g 2 "32 * l + m" 128 "\<lambda>g. concat (map (\<lambda>l. map (\<lambda>m. F (crumb (q ! (32 * g + m)) (2 * l))) [0..<32]) [0..<4])"]
    by (simp add: b)
  also have "\<dots> = map (\<lambda>m. F (crumb (q ! (32 * g + m)) (2 * l))) [0..<32] ! m"
    using lt by (intro nth_concat_map_upt) simp_all
  also have "\<dots> = F (int (ts ! e))" using lt by (simp add: cr)
  finally show "blk_tq2_0 (tq2_pack ts scale) ! e = map (\<lambda>t. fmul (fint (int t - 1)) (half_at scale 0)) ts ! e"
    using e len by (simp add: q_def F_def eq [symmetric])
qed

section \<open>The fifth bits of the Q5 blocks\<close>

lemma take_28_high_byte:
  assumes "length q = 22"
  shows "take_bit 28 (u32_at (q[5 := b]) 2) = take_bit 28 (u32_at (q[5 := b AND 0x0F]) 2)"
proof -
  have l: "le_nat (slice (q[5 := b]) 2 4) = le_nat (slice q 2 3) + 2 ^ 24 * unat b" for b
  proof -
    have "slice (q[5 := b]) 2 4 = slice q 2 3 @ [b]"
      using assms by (intro nth_equalityI) (auto simp: slice_def nth_append less_Suc_eq numeral_eq_Suc)
    moreover have "length (slice q 2 3) = 3" using assms by (simp add: slice_def)
    ultimately show ?thesis by (simp add: le_nat_append)
  qed
  have m: "unat (b AND 0x0F) = unat b mod 16"
  proof -
    have "b AND 0x0F = take_bit 4 b" by (simp add: take_bit_eq_mask mask_eq_exp_minus_1)
    then have "unat (b AND 0x0F) = take_bit 4 (unat b)" by (simp only: unsigned_take_bit_eq)
    then show ?thesis by (simp add: take_bit_eq_mod)
  qed
  have "(le_nat (slice q 2 3) + 2 ^ 24 * unat b) mod 2 ^ 28 = (le_nat (slice q 2 3) + 2 ^ 24 * (unat b mod 16)) mod 2 ^ 28"
  proof -
    have "le_nat (slice q 2 3) + 2 ^ 24 * unat b = le_nat (slice q 2 3) + 2 ^ 24 * (unat b mod 16) + 2 ^ 28 * (unat b div 16)"
    proof -
      have "y + 16777216 * (16 * c + r) = y + 16777216 * r + 268435456 * c" for y c r :: nat by simp
      from this [of _ "unat b div 16" "unat b mod 16"] show ?thesis by (simp only: mult_div_mod_eq) simp
    qed
    then show ?thesis by (simp only: mod_mult_self2)
  qed
  then have "take_bit 28 (le_nat (slice (q[5 := b]) 2 4)) = take_bit 28 (le_nat (slice (q[5 := b AND 0x0F]) 2 4))"
    by (simp only: l m take_bit_eq_mod)
  then show ?thesis
    unfolding u32_at_def le_u32_def by (metis take_bit_of_nat)
qed


lemma low_bit_take:
  assumes "take_bit 28 w = take_bit 28 (v :: u32)" and "n < 28"
  shows "drop_bit n w AND 1 = drop_bit n v AND 1"
proof -
  have "bit w n = bit v n"
    using arg_cong [OF assms(1), of "\<lambda>w. bit w n"] assms(2) by (simp add: bit_take_bit_iff)
  then show ?thesis by (simp add: bit_iff_odd_drop_bit and_one_eq odd_iff_mod_2_eq_one mod2_eq_if)
qed

text \<open>the Q5_0 decoder never reads the top four bits of \<^verbatim>\<open>qh\<close>: it takes the fifth bits of the second half
  from bit \<open>j + 12\<close> on (the format keeps them from bit \<open>16\<close> on), so the fifth bits of elements 28 to 31
  have no influence on the result.\<close>

theorem q5_0_ignores_top_bits:
  assumes "length q = 22"
  shows "blk_q5_0 (q[5 := b]) = blk_q5_0 (q[5 := b AND 0x0F])"
proof -
  note tb = low_bit_take [OF take_28_high_byte [OF assms]]
  have "q5_x0 (q[5 := b]) 6 (u32_at (q[5 := b]) 2) j = q5_x0 (q[5 := b AND 0x0F]) 6 (u32_at (q[5 := b AND 0x0F]) 2) j"
    "q5_x1 (q[5 := b]) 6 (u32_at (q[5 := b]) 2) j = q5_x1 (q[5 := b AND 0x0F]) 6 (u32_at (q[5 := b AND 0x0F]) 2) j"
    if "j < 16" for j
    using that tb [of j b] tb [of "j + 12" b] by (simp_all add: q5_x0_def q5_x1_def)
  moreover have "half_at (q[5 := b]) 0 = half_at (q[5 := b AND 0x0F]) 0"
    by (simp add: half_at_def u16_at_def slice_def)
  ultimately show ?thesis by (simp add: blk_q5_0_def Let_def cong: map_cong)
qed

lemma half_3C00: "vg_half_to_float 0x3C00 = FFin False 1 0"
proof -
  have "vg_half_to_float 0x3C00 = mk_fin False (1 * 2 ^ 10) (-10)"
    by (simp add: half_exact f16_of_bits_def ieee_decode_def)
  then show ?thesis unfolding mk_fin_shift by (simp add: mk_fin_def canon.simps)
qed

lemma half_4000: "vg_half_to_float 0x4000 = FFin False 1 1"
proof -
  have "vg_half_to_float 0x4000 = mk_fin False (1 * 2 ^ 10) (-9)"
    by (simp add: half_exact f16_of_bits_def ieee_decode_def)
  then show ?thesis unfolding mk_fin_shift by (simp add: mk_fin_def canon.simps)
qed

theorem q6_k_exact_witness:
  "flt_val (blk_q6_k (replicate 128 0x21 @ replicate 64 0xE4 @ map of_nat [1..<17] @ [0, 0x3C]) ! 100) = 126"
proof -
  let ?q = "replicate 128 0x21 @ replicate 64 0xE4 @ map of_nat [1..<17] @ [0, 0x3C] :: bytes"
  have "u16_at ?q 208 = 0x3C00" by (simp add: u16_at_def le_u16_def slice_def)
  then have f: "is_fin (half_at ?q 208)" "half_at ?q 208 = FFin False 1 0" by (simp_all add: half_at_def half_3C00)
  have "q6_ref ?q 100 = 18" "sint (?q ! (192 + 100 div 16)) = 7"
    by (simp_all add: q6_ref_def nth_append lo_nib_def hi_nib_def crumb_def)
  moreover have "flt_val (half_at ?q 208) = 1" unfolding f(2) by (simp add: flt_val_def)
  ultimately show ?thesis using q6_k_exact [OF f(1), of 100] by (simp only:)
qed

theorem tq1_roundtrip_witness:
  "blk_tq1_0 (tq1_pack (concat (replicate 64 [0, 1, 2, 1])) [0, 0x3C]) =
     map (\<lambda>t. fmul (fint (int t - 1)) (half_at [0, 0x3C] 0)) (concat (replicate 64 [0, 1, 2, 1]))"
  by (rule tq1_roundtrip) (simp_all add: length_concat sum_list_replicate)

theorem tq2_roundtrip_witness:
  "blk_tq2_0 (tq2_pack (concat (replicate 64 [0, 3, 2, 1])) [0, 0x3C]) =
     map (\<lambda>t. fmul (fint (int t - 1)) (half_at [0, 0x3C] 0)) (concat (replicate 64 [0, 3, 2, 1]))"
  by (rule tq2_roundtrip) (simp_all add: length_concat sum_list_replicate)

theorem q5_0_ignores_top_bits_witness:
  "blk_q5_0 ((replicate 22 0)[5 := 0xF3]) = blk_q5_0 ((replicate 22 0)[5 := 0x03])"
  using q5_0_ignores_top_bits [of "replicate 22 0" "0xF3"] by simp

section \<open>Properties of the table, the check and the rows\<close>

text \<open>C24: the hand-written binary16 to binary32 conversion, subnormals, infinities and NaNs included,
  decodes every one of the 65536 patterns to the number IEEE 754 assigns to it.\<close>

theorem half_to_float_exact: "vg_half_to_float h = f16_of_bits h"
  by (rule half_exact)

text \<open>every tensor type of the enumeration has one table entry, found by its code, with nonzero
  block geometry; a type the table calls supported has exactly one decoder, whose block size in
  bytes and number of elements are those of the entry, and an unsupported type has none.\<close>

theorem type_table_consistent:
  "case vg_quant_info (kind_code k) of None \<Rightarrow> False | Some q \<Rightarrow> qi_kind q = k \<and> info_ok q \<and> entry_ok q"
proof -
  obtain q where q: "q \<in> set g_info" "qi_kind q = k"
    using g_info_complete [of k] by auto
  then have "vg_quant_info (kind_code k) = Some q" using vg_quant_info_mem by blast
  with q show ?thesis by (simp add: info_ok_mem entry_ok_mem)
qed

text \<open>C27: the size check accepts a tensor exactly when its type is known, its element count is a
  nonzero multiple of the block size and its byte count is the number of blocks times the block
  bytes as natural numbers; no 64-bit wrap-around lets a wrong size through.\<close>

theorem quant_validate_exact:
  "vg_quant_validate type elements nbytes = VG_OK \<longleftrightarrow>
   (\<exists>q. vg_quant_info type = Some q \<and> elements \<noteq> 0 \<and> unat (qi_block_size q) dvd unat elements \<and>
        unat elements div unat (qi_block_size q) * unat (qi_bytes_per_block q) = unat nbytes)"
  by (rule quant_validate_iff)

text \<open>C9: on a tensor that passes the size check, a row of a supported type is decoded to the
  concatenation of its blocks as \<^verbatim>\<open>vg_dequantize_block\<close> decodes them one at a time, exactly \<open>elements\<close>
  numbers, and every byte range read lies inside the row.\<close>

theorem dequantize_row_blockwise:
  assumes "vg_quant_validate type elements nbytes = VG_OK" and "vg_quant_info type = Some q" and "qi_scalar q"
  shows "vg_dequantize_row type (Some p) nbytes True elements = Inr (row_blocks type q p elements) \<and>
     length (row_blocks type q p elements) = unat elements \<and>
     (\<forall>b < unat elements div unat (qi_block_size q).
        b * unat (qi_bytes_per_block q) + unat (qi_bytes_per_block q) \<le> unat nbytes)"
proof -
  have n: "unat elements div unat (qi_block_size q) * unat (qi_bytes_per_block q) = unat nbytes"
    using assms(1,2) by (auto simp: quant_validate_iff)
  have "b * unat (qi_bytes_per_block q) + unat (qi_bytes_per_block q) \<le> unat nbytes"
    if "b < unat elements div unat (qi_block_size q)" for b
    unfolding n [symmetric] using mult_le_mono1 [OF Suc_leI [OF that], of "unat (qi_bytes_per_block q)"] by simp
  then show ?thesis using row_eq_blocks [OF assms] by blast
qed

theorem dequantize_row_blockwise_witness:
  "\<exists>out. vg_dequantize_row 8 (Some (replicate 68 0)) 68 True 64 = Inr out \<and> length out = 64"
proof -
  have i: "vg_quant_info 8 = Some (mk_info QK_Q8_0 ''Q8_0'' 32 34 32 True True)" "vg_quant_validate 8 64 68 = VG_OK"
    by code_simp+
  show ?thesis using dequantize_row_blockwise [OF i(2,1), of "replicate 68 0"] by (simp add: mk_info_def)
qed

text \<open>decoding a row succeeds exactly when buffers and element count are given, the size check
  passes and the type is supported; every failure is the status of the first check that fails.\<close>

theorem dequantize_row_status:
  "(case vg_dequantize_row type packed nbytes has_out elements of
      Inr out \<Rightarrow> length out = unat elements \<and> packed \<noteq> None \<and> has_out
        \<and> vg_quant_validate type elements nbytes = VG_OK \<and> (\<exists>q. vg_quant_info type = Some q \<and> qi_scalar q)
    | Inl st \<Rightarrow> st =
        (if packed \<noteq> None \<and> has_out \<and> elements \<noteq> 0
         then (if vg_quant_validate type elements nbytes = VG_OK then VG_E_UNSUPPORTED else VG_E_FORMAT)
         else VG_E_INVALID)
        \<and> (if st = VG_E_UNSUPPORTED then \<exists>q. vg_quant_info type = Some q \<and> \<not> qi_scalar q else True))"
proof (cases "packed = None \<or> \<not> has_out \<or> elements = 0 \<or> vg_quant_validate type elements nbytes \<noteq> VG_OK")
  case True
  then show ?thesis by (auto simp: vg_dequantize_row_def split: option.split)
next
  case False
  then obtain q p where q: "vg_quant_info type = Some q" and p: "packed = Some p"
    by (auto simp: quant_validate_iff)
  show ?thesis
  proof (cases "qi_scalar q")
    case True
    have "vg_dequantize_row type packed nbytes has_out elements = Inr (row_blocks type q p elements) \<and>
       length (row_blocks type q p elements) = unat elements"
      using row_eq_blocks [OF _ q True] False p by auto
    then show ?thesis using False q p True by auto
  qed (use False q p in \<open>simp add: vg_dequantize_row_def\<close>)
qed

text \<open>the elements of Q4_0 and Q8_0 blocks with a finite scale are computed exactly: the 4-bit quant
  minus 8, low nibbles first, and the signed byte, times the scale.\<close>

theorem legacy_blocks_exact:
  assumes "is_fin (half_at q 0)" and "j < 32"
  shows "flt_val (blk_q4_0 q ! j) =
       of_int ((if j < 16 then lo_nib (q ! (2 + j)) else hi_nib (q ! (2 + (j - 16)))) - 8) * flt_val (half_at q 0)
    \<and> flt_val (blk_q8_0 q ! j) = of_int (sint (q ! (2 + j))) * flt_val (half_at q 0)"
  using q4_0_value [OF assms] q8_0_value [OF assms] by blast

theorem legacy_blocks_exact_witness:
  "flt_val (blk_q4_0 (0 # 0x40 # replicate 32 0xF3) ! 20) = 14 \<and> flt_val (blk_q8_0 (0 # 0x40 # replicate 32 0xF3) ! 20) = -26"
proof -
  let ?q = "0 # 0x40 # replicate 32 0xF3 :: bytes"
  have "u16_at ?q 0 = 0x4000" by (simp add: u16_at_def le_u16_def slice_def)
  then have f: "is_fin (half_at ?q 0)" "half_at ?q 0 = FFin False 1 1" by (simp_all add: half_at_def half_4000)
  have "hi_nib 0xF3 = 15" "sint (0xF3 :: u8) = -13" by (simp_all add: hi_nib_def)
  then show ?thesis using legacy_blocks_exact [OF f(1), of 20] by (simp add: f(2) flt_val_def)
qed

end
