(* ===== verification/CpuOps_Props.thy ===== *)
theory CpuOps_Props
  imports CpuOps ThreadPool_Props Quant_Props
begin

text \<open>
  The CPU kernels: the threaded matrix product is the sequential one bit for bit (\<open>matmul_threads_equal\<close>), the K-quant
  kernels use the weights the dequantizer defines, the TQ1_0 table is right, and the rotation by a table is the direct
  one.
\<close>

section \<open>Loops over rows\<close>

definition upd_all :: "(nat \<Rightarrow> flt) \<Rightarrow> flt list \<Rightarrow> nat list \<Rightarrow> flt list" where
  "upd_all f y rs = foldl (\<lambda>y r. y[r := f r]) y rs"

lemma length_upd_all [simp]: "length (upd_all f y rs) = length y"
  unfolding upd_all_def by (induction rs arbitrary: y) auto

lemma nth_upd_all: "i < length y \<Longrightarrow> upd_all f y rs ! i = (if i \<in> set rs then f i else y ! i)"
  unfolding upd_all_def
proof (induction rs arbitrary: y)
  case (Cons r rs)
  then show ?case by (cases "i = r") auto
qed simp

lemma upd_all_set: "set rs = set ts \<Longrightarrow> upd_all f y rs = upd_all f y ts"
  by (rule nth_equalityI) (simp_all add: nth_upd_all)

lemma row_loop_upd: "row_loop f r0 r1 y = upd_all f y [r0..<r1]"
  by (simp add: row_loop_def upd_all_def)

lemma upd_all_append: "upd_all f (upd_all f y rs) ts = upd_all f y (rs @ ts)"
  by (simp add: upd_all_def)

text \<open>The pass over two rows at a time is the loop over rows, whatever the parity of the range.\<close>

lemma pair_loop_rows:
  assumes "\<And>r. two r = (one r, one (r + 1))"
  shows "pair_loop two one r r1 y = row_loop one r r1 y"
proof (induction "r1 - r" arbitrary: r y rule: less_induct)
  case less
  show ?case
  proof (cases "r + 1 < r1")
    case True
    then have "[r..<r1] = r # (r + 1) # [r + 2..<r1]" by (simp add: upt_conv_Cons)
    with True less [of "r + 2"] assms show ?thesis by (subst pair_loop.simps) (simp add: row_loop_def)
  next
    case False
    then show ?thesis by (subst pair_loop.simps) simp
  qed
qed

lemma foldl_pairI:
  "(\<And>a b j. F (a, b) j = (f a j, g b j)) \<Longrightarrow> foldl F (a, b) js = (foldl f a js, foldl g b js)"
  by (induction js arbitrary: a b) simp_all

lemma pair_q4_0_rows: "pair_q4_0 W x n r = (row_q4_0 W x n r, row_q4_0 W x n (r + 1))"
proof -
  have inner: "foldl (\<lambda>(s0, s1) j. (q4_0_mac s0 (W ! (p0 + 2 + j)) (x ! (b * 32 + j)) (x ! (b * 32 + 16 + j)),
        q4_0_mac s1 (W ! (p1 + 2 + j)) (x ! (b * 32 + j)) (x ! (b * 32 + 16 + j)))) (f_zero, f_zero) [0..<16] =
      (foldl (\<lambda>sm j. q4_0_mac sm (W ! (p0 + 2 + j)) (x ! (b * 32 + j)) (x ! (b * 32 + 16 + j))) f_zero [0..<16],
       foldl (\<lambda>sm j. q4_0_mac sm (W ! (p1 + 2 + j)) (x ! (b * 32 + j)) (x ! (b * 32 + 16 + j))) f_zero [0..<16])" for p0 p1 b
    by (rule foldl_pairI) simp
  have place: "r * nb * 18 + b * 18 = (r * nb + b) * 18" "r * nb * 18 + nb * 18 + b * 18 = ((r + 1) * nb + b) * 18" for nb b
    by (simp_all add: algebra_simps)
  show ?thesis
    unfolding pair_q4_0_def row_q4_0_def Let_def inner place by (rule foldl_pairI) (simp add: algebra_simps)
qed

lemma pair_q4_k_rows: "pair_q4_k W x n r = (row_q4_k W x n r, row_q4_k W x n (r + 1))"
proof -
  have place: "r * nb * 144 + b * 144 = (r * nb + b) * 144" "r * nb * 144 + nb * 144 + b * 144 = ((r + 1) * nb + b) * 144" for nb b
    by (simp_all add: algebra_simps)
  show ?thesis
    unfolding pair_q4_k_def row_q4_k_def Let_def place by (intro foldl_pairI) (simp add: algebra_simps)
qed

text \<open>Every kernel writes each row of its range by itself.\<close>

lemma kernel_rows:
  assumes "pick_rows type = Some k"
  shows "\<exists>f. \<forall>r0 r1 y. k W x n r0 r1 y = upd_all f y [r0..<r1]"
proof -
  have "\<exists>f. \<forall>r0 r1 y. k W x n r0 r1 y = row_loop f r0 r1 y"
    using assms pair_loop_rows [of "pair_q4_0 W x n" "row_q4_0 W x n", OF pair_q4_0_rows]
      pair_loop_rows [of "pair_q4_k W x n" "row_q4_k W x n", OF pair_q4_k_rows]
    by (auto simp: pick_rows_def rows_f32_def rows_f16_def rows_q8_0_def rows_q4_0_def rows_q4_k_def rows_q6_k_def
        rows_tq1_0_def rows_tq2_0_def rows_q1_0_def rows_q2_0_def split: if_splits)
  then show ?thesis by (simp add: row_loop_upd)
qed

lemma mat_job_upd: "\<exists>f. \<forall>rg y. mat_job type W x n rg y = upd_all f y (items rg)"
proof -
  have "\<exists>f. \<forall>r0 r1 y. (case pick_rows type of Some k \<Rightarrow> k W x (unat n) r0 r1 y | None \<Rightarrow> rows_generic_deq type W x n r0 r1 y)
      = upd_all f y [r0..<r1]"
  proof (cases "pick_rows type")
    case None
    have "\<exists>f. \<forall>r0 r1 y. rows_generic_deq type W x n r0 r1 y = upd_all f y [r0..<r1]"
      by (cases "vg_quant_info type") (auto simp: rows_generic_deq_def row_loop_upd)
    with None show ?thesis by simp
  next
    case (Some k)
    from kernel_rows [OF Some, of W x "unat n"] Some show ?thesis by simp
  qed
  then obtain f where f: "\<And>r0 r1 y. (case pick_rows type of Some k \<Rightarrow> k W x (unat n) r0 r1 y | None \<Rightarrow> rows_generic_deq type W x n r0 r1 y)
      = upd_all f y [r0..<r1]" by blast
  have "mat_job type W x n rg y = upd_all f y (items rg)" for rg y
    using f by (cases rg) (auto simp: mat_job_def items_pair word_le_nat_alt upd_all_def)
  then show ?thesis by blast
qed

lemma jobs_upd: "(\<And>rg y. job rg y = upd_all f y (items rg)) \<Longrightarrow> foldl (\<lambda>y rg. job rg y) y rgs = upd_all f y (concat (map items rgs))"
  by (induction rgs arbitrary: y) (simp_all add: upd_all_append, simp add: upd_all_def)

section \<open>Threads\<close>

definition cpu_ok :: "cpu_state \<Rightarrow> bool" where
  "cpu_ok cs \<longleftrightarrow> 1 \<le> cs_threads cs \<and> cs_threads cs \<le> 16 \<and> cs_pool cs = (if cs_threads cs > 1 then Some (nat (cs_threads cs)) else None)"

lemma cpu_ok_start: "cpu_ok cpu_start"
  by (simp add: cpu_ok_def cpu_start_def)

lemma clamp_range: "1 \<le> clamp_threads n want \<and> clamp_threads n want \<le> 16"
  by (simp add: clamp_threads_def Let_def)

lemma cpu_ok_set:
  assumes "cpu_ok cs"
  shows "cpu_ok (snd (vg_cpu_set_threads n want cs)) \<and> fst (vg_cpu_set_threads n want cs) = clamp_threads n want"
  using assms clamp_range [of n want] by (auto simp: vg_cpu_set_threads_def Let_def cpu_ok_def)

text \<open>C4: the threaded matrix product and the reference give the same vector, bit for bit, for every weight
  type, every number of threads and every order in which the ranges of rows run; the rows are cut
  anywhere, also where the kernels that take two rows per pass then start at an odd one.\<close>

theorem matmul_threads_equal:
  assumes "cpu_ok cs" and "\<forall>rgs. mset (sched rgs) = mset rgs" and "unat out_dim + 16 \<le> 2 ^ 32"
  shows "vg_cpu_matmul cs sched type W x y out_dim in_dim = vg_cpu_matmul_ref cs type W x y out_dim in_dim"
proof -
  have eq: "(case vg_threadpool_parallel_for workers out_dim of (jobs, own) \<Rightarrow> foldl (\<lambda>y rg. mat_job type W x in_dim rg y) y (sched (jobs @ own)))
      = mat_job type W x in_dim (0, out_dim) y" if w: "cs_pool cs = Some workers" for W x y workers
  proof -
    obtain f where f: "\<And>rg y. mat_job type W x in_dim rg y = upd_all f y (items rg)" using mat_job_upd by blast
    obtain jobs own where p: "vg_threadpool_parallel_for workers out_dim = (jobs, own)" by fastforce
    have "workers \<le> 16" using assms(1) w by (auto simp: cpu_ok_def split: if_splits)
    then have "unat out_dim + workers \<le> 2 ^ 32" using assms(3) by linarith
    from parallel_for_partition_aux [OF this] p have part: "concat (map items (own @ jobs)) = [0..<unat out_dim]" by simp
    have "mset (concat (map items (sched (jobs @ own)))) = mset (concat (map items (own @ jobs)))"
      using assms(2) by (intro mset_concat_map) simp
    then have "set (concat (map items (sched (jobs @ own)))) = set [0..<unat out_dim]"
      unfolding part by (rule mset_eq_setD)
    from upd_all_set [OF this] have "foldl (\<lambda>y rg. mat_job type W x in_dim rg y) y (sched (jobs @ own)) = upd_all f y [0..<unat out_dim]"
      using jobs_upd [of "mat_job type W x in_dim" f] f by simp
    then show ?thesis using p f by (simp add: items_pair)
  qed
  show ?thesis
    unfolding vg_cpu_matmul_def vg_cpu_matmul_ref_def matmul_impl_def
    using eq by (auto split: option.split prod.split)
qed

section \<open>The radix-3 table\<close>

lemma upt_256: "[0..<256] = 0 # 1 # [2..<256]"
  by (simp add: upt_conv_Cons numeral_2_eq_2)

lemma tern_table: "k_tq1_lut = map (\<lambda>i. map (\<lambda>p. i * p mod 256 * 3 div 256 - 1) [1, 3, 9, 27, 81]) (map int [0..<256])"
  unfolding k_tq1_lut_def upt_256
  by simp

lemma tq1_digit_val: "n < 5 \<Longrightarrow> tq1_digit b n - 1 = tq1_val b (k_pow3 ! n)"
  by (simp add: tq1_digit_def tq1_val_def Let_def)

text \<open>the compile-time table of the TQ1_0 kernel agrees in all its 1280 entries with the digits the
  dequantizer computes and with the decoding routine it replaces.\<close>

theorem tq1_lut_exact:
  assumes "n < 5"
  shows "k_tq1_lut ! unat b ! n = tq1_digit b n - 1 \<and> k_tq1_lut ! unat b ! n = tq1_val b (k_pow3 ! n)"
proof -
  have b: "unat b < 256" using unsigned_less [of b] by simp
  have "n \<in> {0, 1, 2, 3, 4}" using assms by auto
  then have p: "unat (k_pow3 ! n) = [1, 3, 9, 27, 81] ! n" by (auto simp: k_pow3_def)
  have "tq1_digit b n = int (unat b * unat (k_pow3 ! n) mod 256 * 3 div 256)"
    by (simp add: tq1_digit_def Let_def unat_word_ariths)
  then have "tq1_digit b n - 1 = int (unat b) * int ([1, 3, 9, 27, 81] ! n) mod 256 * 3 div 256 - 1"
    unfolding p by (simp add: zmod_int zdiv_int)
  moreover have "k_tq1_lut ! unat b ! n = int (unat b) * ([1, 3, 9, 27, 81] ! n) mod 256 * 3 div 256 - 1"
    using b \<open>n \<in> _\<close> unfolding tern_table by (elim insertE) simp_all
  moreover have "int ([1, 3, 9, 27, 81] ! n) = [1, 3, 9, 27, 81] ! n" using \<open>n \<in> _\<close> by auto
  ultimately show ?thesis using tq1_digit_val [OF assms] by simp
qed


section \<open>The weights a kernel uses\<close>

text \<open>Sums as folds over a list of products.\<close>

lemma foldl_terms: "foldl (\<lambda>acc j. foldl fadd acc (ts j)) a js = foldl fadd a (concat (map ts js))"
  by (induction js arbitrary: a) auto

lemma foldl_term1: "foldl (\<lambda>acc j. fadd acc (t j)) a js = foldl fadd a (map t js)"
  by (induction js arbitrary: a) auto

lemma upt_blocks: "[0..<nb * k] = concat (map (\<lambda>b. map (\<lambda>j. b * k + j) [0..<k]) [0..<nb])"
proof (induction nb)
  case (Suc nb)
  have "[0..<Suc nb * k] = [0..<nb * k] @ [nb * k..<nb * k + k]" using upt_add_eq_append [of 0 "nb * k" k] by (simp add: add.commute)
  also have "[nb * k..<nb * k + k] = map (\<lambda>j. nb * k + j) [0..<k]" by (simp add: add.commute [of "nb * k"] map_add_upt)
  finally show ?case using Suc by simp
qed simp

lemma mset_concat_swap: "mset (concat (map (\<lambda>l. map (\<lambda>k. F l k) ks) ls)) = mset (concat (map (\<lambda>k. map (\<lambda>l. F l k) ls) ks))"
proof (induction ls)
  case (Cons l ls)
  have "mset (concat (map (\<lambda>k. F l k # map (\<lambda>l. F l k) ls) ks)) = mset (map (F l) ks) + mset (concat (map (\<lambda>k. map (\<lambda>l. F l k) ls) ks))"
    by (induction ks) auto
  with Cons show ?case by simp
qed (simp add: concat_map_singleton)

lemma mset_concat_cong: "(\<And>j. j \<in> set js \<Longrightarrow> mset (f j) = mset (g j)) \<Longrightarrow> mset (concat (map f js)) = mset (concat (map g js))"
  by (induction js) auto

lemma mset_two: "mset (concat (map (\<lambda>l. [f l, g l]) ls)) = mset (map f ls @ map g ls)"
  by (induction ls) auto

text \<open>Block \<open>b\<close> of a row, with its bytes as the one-block decoder reads them.\<close>

definition row_weights :: "nat \<Rightarrow> (bytes \<Rightarrow> flt list) \<Rightarrow> bytes \<Rightarrow> nat \<Rightarrow> nat \<Rightarrow> flt list" where
  "row_weights sz f W nb r = deq_blocks sz f (drop (r * nb * sz) W) nb"

lemma row_weights_nth:
  assumes "\<And>q. length (f q) = 256" and "b < nb" and "j < 256"
  shows "row_weights sz f W nb r ! (b * 256 + j) = f (slice W ((r * nb + b) * sz) sz) ! j"
proof -
  have "row_weights sz f W nb r ! (256 * b + j) = f (slice (drop (r * nb * sz) W) (b * sz) sz) ! j"
    unfolding row_weights_def deq_blocks_def
    using nth_concat_const [of "[0..<nb]" "\<lambda>b. f (slice (drop (r * nb * sz) W) (b * sz) sz)" 256 b j] assms by simp
  moreover have "slice (drop (r * nb * sz) W) (b * sz) sz = slice W ((r * nb + b) * sz) sz"
    by (simp add: slice_def algebra_simps)
  ultimately show ?thesis by (simp add: mult.commute)
qed

lemma slice_nth: "k < sz \<Longrightarrow> p + sz \<le> length W \<Longrightarrow> slice W p sz ! k = W ! (p + k)"
  by (simp add: slice_def)

lemma q4_k_scale_eq:
  assumes "j < 8" and "p + 144 \<le> length W"
  shows "get_scale_min_k4 j (slice (slice W p 144) 4 12) = (get_scale_k4 j W (p + 4), get_min_k4 j W (p + 4))"
proof -
  have "slice (slice W p 144) 4 12 ! k = W ! (p + 4 + k)" if "k < 12" for k
  proof -
    have "4 \<le> length (take 144 (drop p W))" using assms(2) by simp
    with that assms(2) show ?thesis by (simp add: slice_def add.assoc)
  qed
  with assms(1) show ?thesis by (auto simp: get_scale_min_k4_def get_scale_k4_def get_min_k4_def)
qed

lemma half_slice: "k + 2 \<le> sz \<Longrightarrow> half_at (slice W p sz) k = half_at W (p + k)"
  by (simp add: half_at_def u16_at_def slice_def drop_take min_def add.commute)

lemma blk_q4_k_nth:
  assumes "p + 144 \<le> length W" and "g < 4" and "l < 32"
  shows "case q4_k_group W p g of (d1, m1, d2, m2) \<Rightarrow>
      blk_q4_k (slice W p 144) ! (g * 64 + l) = fsub (fmul d1 (fint (lo_nib (W ! (p + 16 + 32 * g + l))))) m1
    \<and> blk_q4_k (slice W p 144) ! (g * 64 + 32 + l) = fsub (fmul d2 (fint (hi_nib (W ! (p + 16 + 32 * g + l))))) m2"
proof -
  have sc: "get_scale_min_k4 (2 * g) (slice (slice W p 144) 4 12) = (get_scale_k4 (2 * g) W (p + 4), get_min_k4 (2 * g) W (p + 4))"
    "get_scale_min_k4 (2 * g + 1) (slice (slice W p 144) 4 12) = (get_scale_k4 (2 * g + 1) W (p + 4), get_min_k4 (2 * g + 1) W (p + 4))"
    using q4_k_scale_eq [of _ p W] assms(1,2) by simp_all
  have by16: "slice W p 144 ! (16 + 32 * g + l) = W ! (p + 16 + 32 * g + l)" if "l < 32" for l
    using slice_nth [of "16 + 32 * g + l" 144 p W] that assms(1,2) by (simp add: add.assoc)
  define grp where "grp = (\<lambda>g. case get_scale_min_k4 (2 * g) (slice (slice W p 144) 4 12) of (sc1, mi1) \<Rightarrow>
           case get_scale_min_k4 (2 * g + 1) (slice (slice W p 144) 4 12) of (sc2, mi2) \<Rightarrow>
           (let d1 = fmul (half_at (slice W p 144) 0) (fint (uint sc1)); m1 = fmul (half_at (slice W p 144) 2) (fint (uint mi1));
                d2 = fmul (half_at (slice W p 144) 0) (fint (uint sc2)); m2 = fmul (half_at (slice W p 144) 2) (fint (uint mi2))
            in map (\<lambda>l. fsub (fmul d1 (fint (lo_nib (slice W p 144 ! (16 + 32 * g + l))))) m1) [0..<32]
             @ map (\<lambda>l. fsub (fmul d2 (fint (hi_nib (slice W p 144 ! (16 + 32 * g + l))))) m2) [0..<32]))"
  have blk: "blk_q4_k (slice W p 144) = concat (map grp [0..<4])"
    by (simp add: blk_q4_k_def grp_def Let_def)
  have len: "length (grp g) = 64" for g by (simp add: grp_def split_def Let_def)
  have idx: "blk_q4_k (slice W p 144) ! (g * 64 + k) = grp g ! k" if "k < 64" for k
    using nth_concat_const [of "[0..<4]" grp 64 g k] len assms(2) that unfolding blk by (simp add: mult.commute)
  have "grp g ! l = fsub (fmul (fmul (half_at W p) (fint (uint (get_scale_k4 (2 * g) W (p + 4))))) (fint (lo_nib (W ! (p + 16 + 32 * g + l)))))
      (fmul (half_at W (p + 2)) (fint (uint (get_min_k4 (2 * g) W (p + 4)))))"
    unfolding grp_def sc Let_def prod.case using assms(3) by16 by (simp add: nth_append half_slice)
  moreover have "grp g ! (32 + l) = fsub (fmul (fmul (half_at W p) (fint (uint (get_scale_k4 (2 * g + 1) W (p + 4))))) (fint (hi_nib (W ! (p + 16 + 32 * g + l)))))
      (fmul (half_at W (p + 2)) (fint (uint (get_min_k4 (2 * g + 1) W (p + 4)))))"
    unfolding grp_def sc Let_def prod.case using assms(3) by16 by (simp add: nth_append half_slice)
  ultimately show ?thesis
    using idx [of l] idx [of "32 + l"] assms(3) by (simp add: q4_k_group_def Let_def add.assoc)
qed

lemma row_q4_k_terms:
  assumes "(r + 1) * nb * 144 \<le> length W" and "n = nb * 256"
  shows "\<exists>ts. row_q4_k W x n r = foldl fadd f_zero ts \<and> mset ts = mset (map (\<lambda>j. fmul (row_weights 144 blk_q4_k W nb r ! j) (x ! j)) [0..<n])"
proof -
  define D where "D = row_weights 144 blk_q4_k W nb r"
  define F where "F = (\<lambda>j. fmul (D ! j) (x ! j))"
  have len: "length (blk_q4_k q) = 256" for q by (simp add: length_blk)
  define ts where "ts = concat (map (\<lambda>b. concat (map (\<lambda>g. concat (map (\<lambda>l. [F (b * 256 + 64 * g + l), F (b * 256 + 64 * g + 32 + l)]) [0..<32])) [0..<4])) [0..<nb])"
  have step: "q4_k_mac (q4_k_group W ((r * nb + b) * 144) g) (W ! ((r * nb + b) * 144 + 16 + 32 * g + l))
      (x ! (b * 256 + 64 * g + l)) (x ! (b * 256 + 64 * g + 32 + l)) acc = foldl fadd acc [F (b * 256 + 64 * g + l), F (b * 256 + 64 * g + 32 + l)]"
    if "b < nb" "g < 4" "l < 32" for b g l acc
  proof -
    have "(r * nb + b + 1) * 144 \<le> (r + 1) * nb * 144" using that(1) by simp
    then have fit: "(r * nb + b) * 144 + 144 \<le> length W" using assms(1) by simp
    have "D ! (b * 256 + 64 * g + l) = blk_q4_k (slice W ((r * nb + b) * 144) 144) ! (g * 64 + l)"
      "D ! (b * 256 + 64 * g + 32 + l) = blk_q4_k (slice W ((r * nb + b) * 144) 144) ! (g * 64 + 32 + l)"
      using row_weights_nth [of blk_q4_k b nb _ 144 W r] len that by (simp_all add: D_def add.assoc mult.commute)
    with blk_q4_k_nth [OF fit that(2,3)] show ?thesis
      by (simp add: q4_k_mac_def F_def split_def)
  qed
  have "row_q4_k W x n r = foldl fadd f_zero ts"
  proof -
    have "n div 256 = nb" using assms(2) by simp
    then have "row_q4_k W x n r = foldl (\<lambda>acc b. foldl (\<lambda>acc g. foldl (\<lambda>acc l.
        foldl fadd acc [F (b * 256 + 64 * g + l), F (b * 256 + 64 * g + 32 + l)]) acc [0..<32]) acc [0..<4]) f_zero [0..<nb]"
      unfolding row_q4_k_def Let_def by (intro foldl_cong) (use step in auto)
    then show ?thesis unfolding ts_def foldl_terms .
  qed
  moreover have "mset ts = mset (map F [0..<n])"
  proof -
    have "mset (concat (map (\<lambda>g. concat (map (\<lambda>l. [F (b * 256 + 64 * g + l), F (b * 256 + 64 * g + 32 + l)]) [0..<32])) [0..<4]))
        = mset (map (\<lambda>j. F (b * 256 + j)) [0..<256])" for b
    proof -
      have "[0..<64] = [0..<32] @ map (\<lambda>l. 32 + l) [0..<32]" using upt_add_eq_append [of 0 32 32] by (simp add: add.commute [of 32] map_add_upt)
      then have "mset (concat (map (\<lambda>l. [F (b * 256 + 64 * g + l), F (b * 256 + 64 * g + 32 + l)]) [0..<32])) =
          mset (map (\<lambda>j. F (b * 256 + (g * 64 + j))) [0..<64])" for g
        unfolding mset_two by (simp add: algebra_simps comp_def)
      then have "mset (concat (map (\<lambda>g. concat (map (\<lambda>l. [F (b * 256 + 64 * g + l), F (b * 256 + 64 * g + 32 + l)]) [0..<32])) [0..<4])) =
          mset (concat (map (\<lambda>g. map (\<lambda>j. F (b * 256 + (g * 64 + j))) [0..<64]) [0..<4]))"
        by (intro mset_concat_cong) simp
      also have "concat (map (\<lambda>g. map (\<lambda>j. F (b * 256 + (g * 64 + j))) [0..<64]) [0..<4]) = map (\<lambda>j. F (b * 256 + j)) [0..<4 * 64]"
        unfolding upt_blocks [of 4 64] by (simp add: map_concat comp_def)
      finally show ?thesis by simp
    qed
    then have "mset ts = mset (concat (map (\<lambda>b. map (\<lambda>j. F (b * 256 + j)) [0..<256]) [0..<nb]))"
      unfolding ts_def by (intro mset_concat_cong) simp
    then show ?thesis unfolding assms(2) upt_blocks by (simp add: map_concat comp_def)
  qed
  ultimately show ?thesis by (auto simp: F_def D_def)
qed

lemma blk_q6_k_nth:
  assumes "p + 210 \<le> length W" and "h < 2" and "k < 4" and "l < 32"
  shows "blk_q6_k (slice W p 210) ! (h * 128 + 32 * k + l) =
    fmul (fmul (half_at W (p + 208)) (fint (sint (W ! (p + 192 + 8 * h + l div 16 + 2 * k))))) (fint (q6_value W p h k l))"
proof -
  have ix: "slice W p 210 ! (192 + 8 * h + l div 16 + 2 * k) = W ! (p + 192 + 8 * h + l div 16 + 2 * k)"
    using slice_nth [of "192 + 8 * h + l div 16 + 2 * k" 210 p W] assms by (simp add: add.assoc)
  have q1: "slice W p 210 ! (64 * h + l + e) = W ! (p + 64 * h + l + e)" if "e \<le> 32" for e
    using slice_nth [of "64 * h + l + e" 210 p W] assms that by (simp add: add.assoc)
  have q2: "slice W p 210 ! (128 + 32 * h + l) = W ! (p + 128 + 32 * h + l)"
    using slice_nth [of "128 + 32 * h + l" 210 p W] assms by (simp add: add.assoc)
  have qv: "q6_quant (slice W p 210) h k l = q6_value W p h k l"
    unfolding q6_quant_def q6_value_def q2 using q1 [of 32] q1 [of 0] by simp
  define E where "E = (\<lambda>h k l. fmul (fmul (half_at (slice W p 210) 208) (fint (sint (slice W p 210 ! (192 + 8 * h + l div 16 + 2 * k)))))
    (fint (q6_quant (slice W p 210) h k l)))"
  have blk: "blk_q6_k (slice W p 210) = concat (map (\<lambda>h. concat (map (\<lambda>k. map (E h k) [0..<32]) [0..<4])) [0..<2])"
    by (simp add: blk_q6_k_def E_def Let_def)
  have lk: "length (concat (map (\<lambda>k. map (E h k) [0..<32]) [0..<4])) = 128" for h
    by (subst concat_map_length_const [where n = 32]) simp_all
  have "blk_q6_k (slice W p 210) ! (128 * h + (32 * k + l)) = concat (map (\<lambda>k. map (E h k) [0..<32]) [0..<4]) ! (32 * k + l)"
    using nth_concat_const [of "[0..<2]" "\<lambda>h. concat (map (\<lambda>k. map (E h k) [0..<32]) [0..<4])" 128 h "32 * k + l"] lk assms
    unfolding blk by simp
  also have "\<dots> = E h k l"
    using nth_concat_const [of "[0..<4]" "\<lambda>k. map (E h k) [0..<32]" 32 k l] assms by simp
  finally show ?thesis using ix qv by (simp add: E_def half_slice mult.commute add.assoc)
qed

lemma row_q6_k_terms:
  assumes "(r + 1) * nb * 210 \<le> length W" and "n = nb * 256"
  shows "\<exists>ts. row_q6_k W x n r = foldl fadd f_zero ts \<and> mset ts = mset (map (\<lambda>j. fmul (row_weights 210 blk_q6_k W nb r ! j) (x ! j)) [0..<n])"
proof -
  define D where "D = row_weights 210 blk_q6_k W nb r"
  define F where "F = (\<lambda>j. fmul (D ! j) (x ! j))"
  define ts where "ts = concat (map (\<lambda>b. concat (map (\<lambda>h. concat (map (\<lambda>l. map (\<lambda>k. F (b * 256 + h * 128 + 32 * k + l)) [0..<4]) [0..<32])) [0..<2])) [0..<nb])"
  have step: "mac acc (fmul (fmul (half_at W ((r * nb + b) * 210 + 208)) (fint (sint (W ! ((r * nb + b) * 210 + 192 + 8 * h + l div 16 + 2 * k)))))
      (fint (q6_value W ((r * nb + b) * 210) h k l))) (x ! (b * 256 + h * 128 + 32 * k + l)) = fadd acc (F (b * 256 + h * 128 + 32 * k + l))"
    if "b < nb" "h < 2" "l < 32" "k < 4" for b h l k acc
  proof -
    have "(r * nb + b + 1) * 210 \<le> (r + 1) * nb * 210" using that(1) by simp
    then have fit: "(r * nb + b) * 210 + 210 \<le> length W" using assms(1) by simp
    have "D ! (b * 256 + (h * 128 + 32 * k + l)) = blk_q6_k (slice W ((r * nb + b) * 210) 210) ! (h * 128 + 32 * k + l)"
      unfolding D_def by (rule row_weights_nth) (use that in \<open>simp_all add: length_blk\<close>)
    with blk_q6_k_nth [OF fit that(2,4,3)] show ?thesis by (simp add: F_def add.assoc)
  qed
  have "row_q6_k W x n r = foldl fadd f_zero ts"
  proof -
    have "n div 256 = nb" using assms(2) by simp
    then have "row_q6_k W x n r = foldl (\<lambda>acc b. foldl (\<lambda>acc h. foldl (\<lambda>acc l.
        foldl (\<lambda>acc k. fadd acc (F (b * 256 + h * 128 + 32 * k + l))) acc [0..<4]) acc [0..<32]) acc [0..<2]) f_zero [0..<nb]"
      unfolding row_q6_k_def Let_def by (intro foldl_cong) (use step in auto)
    then show ?thesis unfolding ts_def by (simp only: foldl_terms [symmetric] foldl_term1 [symmetric])
  qed
  moreover have "mset ts = mset (map F [0..<n])"
  proof -
    have "mset (concat (map (\<lambda>h. concat (map (\<lambda>l. map (\<lambda>k. F (b * 256 + h * 128 + 32 * k + l)) [0..<4]) [0..<32])) [0..<2]))
        = mset (map (\<lambda>j. F (b * 256 + j)) [0..<256])" for b
    proof -
      have "mset (concat (map (\<lambda>l. map (\<lambda>k. F (b * 256 + h * 128 + 32 * k + l)) [0..<4]) [0..<32])) =
          mset (map (\<lambda>j. F (b * 256 + (h * 128 + j))) [0..<4 * 32])" for h
        unfolding mset_concat_swap [of _ "[0..<4]"] upt_blocks [of 4 32] by (simp add: map_concat comp_def algebra_simps)
      then have "mset (concat (map (\<lambda>h. concat (map (\<lambda>l. map (\<lambda>k. F (b * 256 + h * 128 + 32 * k + l)) [0..<4]) [0..<32])) [0..<2]))
          = mset (concat (map (\<lambda>h. map (\<lambda>j. F (b * 256 + (h * 128 + j))) [0..<128]) [0..<2]))"
        by (intro mset_concat_cong) simp
      also have "concat (map (\<lambda>h. map (\<lambda>j. F (b * 256 + (h * 128 + j))) [0..<128]) [0..<2]) = map (\<lambda>j. F (b * 256 + j)) [0..<2 * 128]"
        unfolding upt_blocks [of 2 128] by (simp add: map_concat comp_def)
      finally show ?thesis by simp
    qed
    then have "mset ts = mset (concat (map (\<lambda>b. map (\<lambda>j. F (b * 256 + j)) [0..<256]) [0..<nb]))"
      unfolding ts_def by (intro mset_concat_cong) simp
    then show ?thesis unfolding assms(2) upt_blocks by (simp add: map_concat comp_def)
  qed
  ultimately show ?thesis by (auto simp: F_def D_def)
qed

text \<open>the kernels of the K-quants use every weight of the row once, at its place: what they sum up, in the
  order of their loops, are exactly the products of the weights the dequantizer gives for the row with the
  activations of the same columns.\<close>

theorem k_quant_kernels_use_row:
  assumes "n = nb * 256" and "(r + 1) * nb * 144 \<le> length W4" and "(r + 1) * nb * 210 \<le> length W6"
  shows "(\<exists>ts. row_q4_k W4 x n r = foldl fadd f_zero ts
      \<and> mset ts = mset (map (\<lambda>j. fmul (deq_blocks 144 blk_q4_k (drop (r * nb * 144) W4) nb ! j) (x ! j)) [0..<n]))
    \<and> (\<exists>ts. row_q6_k W6 x n r = foldl fadd f_zero ts
      \<and> mset ts = mset (map (\<lambda>j. fmul (deq_blocks 210 blk_q6_k (drop (r * nb * 210) W6) nb ! j) (x ! j)) [0..<n]))"
  using row_q4_k_terms [OF assms(2,1), of x] row_q6_k_terms [OF assms(3,1), of x] by (simp add: row_weights_def)

section \<open>Rotary embedding\<close>

lemma rope_table_nth:
  assumes "k \<le> length c" and "k \<le> length s"
  shows "i < k \<Longrightarrow> fst (foldl (\<lambda>(c, s) i. let freq = f i in (c[i := m_cosf m freq], s[i := m_sinf m freq])) (c, s) [0..<k]) ! i = m_cosf m (f i)"
    and "i < k \<Longrightarrow> snd (foldl (\<lambda>(c, s) i. let freq = f i in (c[i := m_cosf m freq], s[i := m_sinf m freq])) (c, s) [0..<k]) ! i = m_sinf m (f i)"
proof -
  have eq: "foldl (\<lambda>(c, s) i. let freq = f i in (c[i := m_cosf m freq], s[i := m_sinf m freq])) (c, s) js =
      (foldl (\<lambda>c i. c[i := m_cosf m (f i)]) c js, foldl (\<lambda>s i. s[i := m_sinf m (f i)]) s js)" for js
    by (induction js arbitrary: c s) (simp_all add: Let_def)
  have upd: "i < k \<Longrightarrow> k \<le> length xs \<Longrightarrow> foldl (\<lambda>c i. c[i := g i]) xs [0..<k] ! i = g i" for g :: "nat \<Rightarrow> flt" and xs
  proof (induction k)
    case (Suc k)
    have "length (foldl (\<lambda>c i. c[i := g i]) xs js) = length xs" for js by (induction js arbitrary: xs) auto
    with Suc show ?case by (cases "i = k") auto
  qed simp
  show "i < k \<Longrightarrow> fst (foldl (\<lambda>(c, s) i. let freq = f i in (c[i := m_cosf m freq], s[i := m_sinf m freq])) (c, s) [0..<k]) ! i = m_cosf m (f i)"
    "i < k \<Longrightarrow> snd (foldl (\<lambda>(c, s) i. let freq = f i in (c[i := m_cosf m freq], s[i := m_sinf m freq])) (c, s) [0..<k]) ! i = m_sinf m (f i)"
    unfolding eq using upd assms by simp_all
qed

text \<open>rotating with a table built once per position is the direct rotation, for the query and for the key.\<close>

theorem rope_table_apply:
  assumes "vg_cpu_rope_table m c0 s0 n_rot head_dim freq_scale theta_base pos = (ct, st)"
    and "rope_iters n_rot head_dim \<le> length c0" and "rope_iters n_rot head_dim \<le> length s0"
  shows "vg_cpu_rope m q k head_dim n_rot freq_scale theta_base pos =
    (vg_cpu_rope_apply q head_dim n_rot ct st, map_option (\<lambda>k. vg_cpu_rope_apply k head_dim n_rot ct st) k)"
proof -
  let ?f = "rope_freq m head_dim freq_scale theta_base pos" and ?h = "unat (head_dim div 2)" and ?js = "[0..<rope_iters n_rot head_dim]"
  have tab: "ct ! i = m_cosf m (?f i)" "st ! i = m_sinf m (?f i)" if "i < rope_iters n_rot head_dim" for i
    using rope_table_nth [OF assms(2,3), of i ?f m] assms(1) that by (simp_all add: vg_cpu_rope_table_def)
  have both: "foldl (\<lambda>(q, k) i. let freq = ?f i; c = m_cosf m freq; s = m_sinf m freq in (rotate_pair i ?h c s q, map_option (rotate_pair i ?h c s) k)) (q, k) js =
      (foldl (\<lambda>v i. rotate_pair i ?h (m_cosf m (?f i)) (m_sinf m (?f i)) v) q js,
       map_option (\<lambda>k. foldl (\<lambda>v i. rotate_pair i ?h (m_cosf m (?f i)) (m_sinf m (?f i)) v) k js) k)" for js q k
    by (induction js arbitrary: q k) (simp_all add: Let_def option.map_comp comp_def option.map_ident)
  have ap: "vg_cpu_rope_apply v head_dim n_rot ct st = foldl (\<lambda>v i. rotate_pair i ?h (m_cosf m (?f i)) (m_sinf m (?f i)) v) v ?js" for v
    unfolding vg_cpu_rope_apply_def by (intro foldl_cong) (use tab in auto)
  show ?thesis using both [of q k ?js] unfolding vg_cpu_rope_def ap by (simp add: Let_def)
qed

section \<open>Instances\<close>

theorem tq1_lut_exact_witness: "k_tq1_lut ! 128 ! 2 = tq1_digit 128 2 - 1"
  using tq1_lut_exact [of 2 128] by simp

theorem matmul_threads_equal_witness:
  "vg_cpu_matmul \<lparr>cs_threads = 4, cs_pool = Some 4\<rparr> rev 0 (Some (replicate 2048 0)) (Some (replicate 64 f_one)) (Some (replicate 8 f_zero)) 8 64 =
   vg_cpu_matmul_ref \<lparr>cs_threads = 4, cs_pool = Some 4\<rparr> 0 (Some (replicate 2048 0)) (Some (replicate 64 f_one)) (Some (replicate 8 f_zero)) 8 64"
  by (rule matmul_threads_equal) (simp_all add: cpu_ok_def)

theorem k_quant_kernels_use_row_witness:
  "\<exists>ts. row_q4_k (replicate 144 0) (replicate 256 f_one) 256 0 = foldl fadd f_zero ts
    \<and> mset ts = mset (map (\<lambda>j. fmul (deq_blocks 144 blk_q4_k (replicate 144 0) 1 ! j) (replicate 256 f_one ! j)) [0..<256])"
  using k_quant_kernels_use_row [of 256 1 0 "replicate 144 0" "replicate 210 0" "replicate 256 f_one"] by simp

definition flat_libm :: libm where
  "flat_libm = \<lparr>m_expf = id, m_sqrtf = id, m_sinf = id, m_cosf = id, m_tanhf = id, m_exp2f = id, m_log2f = id, m_powf = (\<lambda>x y. x)\<rparr>"

theorem rope_table_apply_witness:
  "vg_cpu_rope flat_libm [f_one, f_one] None 2 2 f_one f_one 3 =
    (vg_cpu_rope_apply [f_one, f_one] 2 2 (fst (vg_cpu_rope_table flat_libm [f_zero] [f_zero] 2 2 f_one f_one 3))
       (snd (vg_cpu_rope_table flat_libm [f_zero] [f_zero] 2 2 f_one f_one 3)), None)"
  using rope_table_apply [of flat_libm "[f_zero]" "[f_zero]" 2 2 f_one f_one 3 _ _ "[f_one, f_one]" None, OF prod.collapse [symmetric]]
  by (simp add: rope_iters_def)

end
