(* ===== verification/Engine_Props.thy ===== *)
theory Engine_Props
  imports Engine CpuOps_Props "HOL-Library.Multiset"
begin

text \<open>
  The order of floats, the repetition penalty, the sampler and the positions at which the generation loop calls the
  graph.
\<close>

section \<open>The order of floats\<close>

text \<open>\<open>f_less\<close> compares the class (minus infinity, finite, plus infinity) and then the value.\<close>

definition f_class :: "flt \<Rightarrow> int" where
  "f_class x = (case x of FInf s \<Rightarrow> if s then -1 else 1 | _ \<Rightarrow> 0)"

lemma finite_less:
  "f_less (FFin s m e) (FFin t n g) \<longleftrightarrow> flt_val (FFin s m e) < flt_val (FFin t n g)"
proof -
  define b where "b = min e g"
  have scale: "real_of_int (signed_mant s m * 2 ^ nat (e - b)) * 2 powi b = flt_val (FFin s m e)" if "b \<le> e" for s m e
  proof -
    have "(2 :: real) powi (int k + b) = 2 ^ k * 2 powi b" for k by (simp add: power_int_add)
    from this [of "nat (e - b)"] have "(2 :: real) ^ nat (e - b) * 2 powi b = 2 powi e" using that by simp
    then show ?thesis by (simp add: flt_val_def signed_mant_def mult.assoc)
  qed
  have "signed_mant s m * 2 ^ nat (e - b) < signed_mant t n * 2 ^ nat (g - b) \<longleftrightarrow>
      real_of_int (signed_mant s m * 2 ^ nat (e - b)) * 2 powi b < real_of_int (signed_mant t n * 2 ^ nat (g - b)) * 2 powi b"
    by (simp del: of_int_mult of_int_power)
  also have "\<dots> \<longleftrightarrow> flt_val (FFin s m e) < flt_val (FFin t n g)"
    using scale [of e s m] scale [of g t n] by (simp add: b_def)
  finally show ?thesis by (simp add: b_def Let_def)
qed

lemma f_less_iff:
  "x \<noteq> FNan \<Longrightarrow> y \<noteq> FNan \<Longrightarrow>
     f_less x y \<longleftrightarrow> f_class x < f_class y \<or> (f_class x = f_class y \<and> f_class x = 0 \<and> flt_val x < flt_val y)"
  by (cases x; cases y) (auto simp: f_class_def finite_less simp del: f_less.simps(7))

lemma f_less_nan_right [simp]: "\<not> f_less x FNan"
  by (cases x) simp_all

lemma f_less_irrefl [simp]: "\<not> f_less x x"
  by (cases "x = FNan") (auto simp: f_less_iff)

lemma f_less_trans: "f_less x y \<Longrightarrow> f_less y z \<Longrightarrow> f_less x z"
  by (cases "x = FNan \<or> y = FNan \<or> z = FNan") (auto simp: f_less_iff)

lemma f_not_less_trans: "x \<noteq> FNan \<Longrightarrow> y \<noteq> FNan \<Longrightarrow> z \<noteq> FNan \<Longrightarrow> \<not> f_less x y \<Longrightarrow> \<not> f_less y z \<Longrightarrow> \<not> f_less x z"
  by (auto simp: f_less_iff)

section \<open>The penalty\<close>

lemma penalize_length [simp]: "length (penalize n p lg t) = length lg"
  by (simp add: penalize_def)

lemma foldl_penalize:
  assumes "i < length lg" and "i < unat n"
  shows "foldl (penalize n p) lg h ! i = ((\<lambda>x. fsub x p) ^^ length (filter (\<lambda>t. t = int i) h)) (lg ! i)
    \<and> length (foldl (penalize n p) lg h) = length lg"
  using assms(1)
proof (induction h arbitrary: lg)
  case (Cons t h)
  have "penalize n p lg t ! i = (if t = int i then fsub (lg ! i) p else lg ! i)"
  proof -
    have "int i < uint n" using assms(2) by (metis of_nat_less_iff of_nat_unat)
    then show ?thesis using Cons.prems assms(2) by (auto simp: penalize_def nth_list_update)
  qed
  with Cons.IH [of "penalize n p lg t"] Cons.prems show ?case by (simp add: funpow_Suc_right del: funpow.simps)
qed simp

text \<open>the repetition penalty lowers the logit of a token by the whole penalty once for each of its occurrences in
  the window and leaves the logits of other tokens alone; a penalty that does not exceed one, or an empty
  window, changes nothing.\<close>

theorem repetition_penalty_counts:
  assumes "i < length lg" and "i < unat n_vocab"
  shows "\<exists>lg'. vg_apply_repetition_penalty (Some lg) n_vocab (Some h) penalty = Some lg' \<and> length lg' = length lg \<and>
    lg' ! i = (if f_less f_one penalty then ((\<lambda>x. fsub x penalty) ^^ length (filter (\<lambda>t. t = int i) h)) (lg ! i) else lg ! i)"
  using foldl_penalize [OF assms, of penalty h] by (cases "h = []") (auto simp: vg_apply_repetition_penalty_def)

section \<open>Sampling\<close>

lemma argmax_loop:
  "foldl (\<lambda>(best, bv) i. if f_less bv (lg ! i) then (i, lg ! i) else (best, bv)) (b, lg ! b) [k..<k + d] =
     (b', bv) \<Longrightarrow> bv = lg ! b' \<and> (b' = b \<or> (k \<le> b' \<and> b' < k + d))"
proof (induction d arbitrary: b' bv)
  case (Suc d)
  obtain b1 v1 where "foldl (\<lambda>(best, bv) i. if f_less bv (lg ! i) then (i, lg ! i) else (best, bv)) (b, lg ! b) [k..<k + d] = (b1, v1)"
    by fastforce
  with Suc show ?case by (auto split: if_splits)
qed simp

lemma argmax_max:
  assumes "\<forall>i < k + d. lg ! i \<noteq> FNan"
  shows "foldl (\<lambda>(best, bv) i. if f_less bv (lg ! i) then (i, lg ! i) else (best, bv)) (0, lg ! 0) [1..<Suc d] = (b', bv) \<Longrightarrow>
    Suc d \<le> k + d \<Longrightarrow> (\<forall>i \<le> d. \<not> f_less (lg ! b') (lg ! i)) \<and> (\<forall>i < b'. f_less (lg ! i) (lg ! b')) \<and> b' \<le> d \<and> bv = lg ! b'"
  using assms
proof (induction d arbitrary: k b' bv)
  case (Suc d)
  obtain b1 v1 where b1: "foldl (\<lambda>(best, bv) i. if f_less bv (lg ! i) then (i, lg ! i) else (best, bv)) (0, lg ! 0) [1..<Suc d] = (b1, v1)"
    by fastforce
  have ih: "\<forall>i \<le> d. \<not> f_less (lg ! b1) (lg ! i)" "\<forall>i < b1. f_less (lg ! i) (lg ! b1)" "b1 \<le> d" "v1 = lg ! b1"
    using Suc.IH [OF b1, of "Suc k"] Suc.prems by auto
  have split: "[1..<Suc (Suc d)] = [1..<Suc d] @ [Suc d]" by simp
  have last: "(b', bv) = (if f_less v1 (lg ! Suc d) then (Suc d, lg ! Suc d) else (b1, v1))"
    using Suc.prems(1) unfolding split foldl_append b1 by simp
  show ?case
  proof (cases "f_less v1 (lg ! Suc d)")
    case True
    have "b' = Suc d" "bv = lg ! Suc d" using last True by simp_all
    moreover have "f_less (lg ! i) (lg ! Suc d)" if "i \<le> d" for i
    proof -
      have "\<not> f_less (lg ! b1) (lg ! i)" "f_less (lg ! b1) (lg ! Suc d)" using ih that True by auto
      then show ?thesis using Suc.prems(2,3) that ih(3)
        by (auto simp: f_less_iff)
    qed
    ultimately show ?thesis using f_less_trans f_less_irrefl by (metis le_SucE less_Suc_eq_le order_refl)
  next
    case False
    have "b' = b1" "bv = v1" using last False by simp_all
    with ih False show ?thesis by (metis le_SucE le_SucI)
  qed
qed simp

lemma argmax_logits_least:
  assumes "0 < unat n_vocab" and "\<forall>i < unat n_vocab. lg ! i \<noteq> FNan"
  shows "argmax_logits lg n_vocab < unat n_vocab \<and> (\<forall>i < unat n_vocab. \<not> f_less (lg ! argmax_logits lg n_vocab) (lg ! i))
    \<and> (\<forall>i < argmax_logits lg n_vocab. f_less (lg ! i) (lg ! argmax_logits lg n_vocab))"
proof -
  obtain d where d: "unat n_vocab = Suc d" using assms(1) by (cases "unat n_vocab") auto
  obtain b v where b: "foldl (\<lambda>(best, bv) i. if f_less bv (lg ! i) then (i, lg ! i) else (best, bv)) (0, lg ! 0) [1..<Suc d] = (b, v)"
    by fastforce
  have "argmax_logits lg n_vocab = b" unfolding argmax_logits_def d b by simp
  with argmax_max [OF _ b, of 1] assms(2) d show ?thesis by (simp add: less_Suc_eq_le)
qed

lemma argmax_logits_range: "0 < unat n_vocab \<Longrightarrow> argmax_logits lg n_vocab < unat n_vocab"
proof -
  assume n: "0 < unat n_vocab"
  obtain b v where b: "foldl (\<lambda>(best, bv) i. if f_less bv (lg ! i) then (i, lg ! i) else (best, bv)) (0, lg ! 0) [1..<1 + (unat n_vocab - 1)] = (b, v)"
    by fastforce
  from argmax_loop [OF b] n show ?thesis using b by (auto simp: argmax_logits_def)
qed


lemma cand_desc_le: "cand_desc x y \<le> 0 \<longleftrightarrow> \<not> f_less (cd_p x) (cd_p y) \<and> (f_less (cd_p y) (cd_p x) \<or> cd_id x \<le> cd_id y)"
  by (auto simp: cand_desc_def)

lemma cand_desc_total: "\<not> cand_desc x y \<le> 0 \<Longrightarrow> cand_desc y x \<le> 0"
  using f_less_trans [of "cd_p x" "cd_p y" "cd_p x"] by (auto simp: cand_desc_le)

lemma cand_desc_trans:
  assumes "cd_p x \<noteq> FNan" "cd_p y \<noteq> FNan" "cd_p z \<noteq> FNan" and "cand_desc x y \<le> 0" "cand_desc y z \<le> 0"
  shows "cand_desc x z \<le> 0"
  using assms by (auto simp: cand_desc_le f_less_iff)

lemma mset_cand_insert: "mset (cand_insert c cs) = add_mset c (mset cs)"
  by (induction cs) auto

lemma mset_cand_sort: "mset (cand_sort cs) = mset cs"
  by (induction cs) (simp_all add: cand_sort_def mset_cand_insert)

lemma set_cand_insert: "set (cand_insert c cs) = insert c (set cs)"
  using mset_cand_insert [of c cs] by (metis set_mset_add_mset_insert set_mset_mset)

abbreviation cands_sorted :: "vg_cand list \<Rightarrow> bool" where
  "cands_sorted \<equiv> sorted_wrt (\<lambda>x y. cand_desc x y \<le> 0)"

lemma sorted_cand_insert:
  assumes "\<forall>d \<in> set (c # cs). cd_p d \<noteq> FNan"
  shows "cands_sorted cs \<Longrightarrow> cands_sorted (cand_insert c cs)"
  using assms
proof (induction cs)
  case (Cons d ds)
  show ?case
  proof (cases "cand_desc c d \<le> 0")
    case True
    have "cand_desc c e \<le> 0" if "e \<in> set ds" for e
      using cand_desc_trans [of c d e] True Cons.prems that by auto
    with True Cons.prems(1) show ?thesis by simp
  next
    case False
    with cand_desc_total Cons show ?thesis by (auto simp: set_cand_insert)
  qed
qed simp

lemma sorted_cand_sort: "\<forall>d \<in> set cs. cd_p d \<noteq> FNan \<Longrightarrow> cands_sorted (cand_sort cs)"
proof (induction cs)
  case (Cons c cs)
  have "set (cand_sort cs) = set cs" using mset_cand_sort by (metis set_mset_mset)
  with Cons sorted_cand_insert [of c "cand_sort cs"] show ?case by (simp add: cand_sort_def)
qed (simp add: cand_sort_def)

lemma mass_nan: "foldl (\<lambda>s c. dadd s (dbl (cd_p c))) FNan cs = FNan"
  by (induction cs) auto

lemma mass_no_nan: "f_isfinite (foldl (\<lambda>s c. dadd s (dbl (cd_p c))) a cs) \<Longrightarrow> c \<in> set cs \<Longrightarrow> cd_p c \<noteq> FNan"
proof (induction cs arbitrary: a)
  case (Cons d cs)
  have nan: "dadd a FNan = FNan" for a by (cases a) auto
  show ?case
  proof
    assume c: "cd_p c = FNan"
    show False
    proof (cases "c = d")
      case True
      with Cons.prems(1) c nan show False by (simp add: mass_nan)
    next
      case False
      with Cons c show False by auto
    qed
  qed
qed simp

lemma nucleus_le: "nucleus target cum cs \<le> length cs"
  by (induction cs arbitrary: cum) (auto simp: Let_def)

lemma keep_count_le:
  assumes "length cs = unat n_vocab" and "top_k < 2 ^ 31"
  shows "keep_count n_vocab top_k top_p mass cs \<le> unat n_vocab \<and> (top_k > 0 \<longrightarrow> keep_count n_vocab top_k top_p mass cs \<le> nat top_k)"
proof -
  define keep where "keep = (if top_k > 0 \<and> (word_of_int top_k :: u32) < n_vocab then nat top_k else unat n_vocab)"
  have w: "unat (word_of_int top_k :: u32) = nat top_k" if "top_k > 0"
    using that assms(2) by (simp add: unat_eq_nat_uint uint_word_of_int)
  have keep: "keep \<le> unat n_vocab \<and> (top_k > 0 \<longrightarrow> keep \<le> nat top_k)"
    using w by (auto simp: keep_def word_less_nat_alt)
  have "nucleus t f_zero (take keep cs) \<le> keep" for t using nucleus_le [of t f_zero "take keep cs"] by simp
  then have "keep_count n_vocab top_k top_p mass cs \<le> keep"
    by (simp add: keep_count_def Let_def keep_def [symmetric])
  with keep show ?thesis by auto
qed

lemma draw_mem: "draw nrm r acc cs = Some c \<Longrightarrow> c \<in> set cs"
  by (induction cs arbitrary: acc) (auto simp: Let_def split: if_splits)

text \<open>The candidates better than the one at position \<open>j\<close> of the ordered list are before it.\<close>

lemma better_before:
  assumes "cands_sorted cs" and "mset (map cd_id cs) = mset [0..<n]" and "j < length cs" and "\<forall>c \<in> set cs. cd_p c = p (cd_id c)"
  shows "card {i. i < n \<and> f_less (p (cd_id (cs ! j))) (p i)} \<le> j"
proof -
  have "{i. i < n \<and> f_less (p (cd_id (cs ! j))) (p i)} \<subseteq> cd_id ` set (take j cs)"
  proof
    fix i
    assume i: "i \<in> {i. i < n \<and> f_less (p (cd_id (cs ! j))) (p i)}"
    have "set (map cd_id cs) = {0..<n}" using assms(2) by (metis mset_eq_setD set_upt)
    then have "i \<in> set (map cd_id cs)" using i by simp
    then obtain k where k: "k < length cs" "cd_id (cs ! k) = i" by (auto simp: in_set_conv_nth)
    have "f_less (cd_p (cs ! j)) (cd_p (cs ! k))" using i k assms(3,4) by simp
    then have "\<not> cand_desc (cs ! j) (cs ! k) \<le> 0" by (simp add: cand_desc_le)
    moreover have "k \<noteq> j" using \<open>f_less (cd_p (cs ! j)) (cd_p (cs ! k))\<close> by auto
    ultimately have "k < j" using assms(1) k(1) by (metis linorder_neqE_nat sorted_wrt_iff_nth_less)
    then have "cs ! k \<in> set (take j cs)" using k(1) by (metis in_set_conv_nth length_take min_less_iff_conj nth_take)
    then show "i \<in> cd_id ` set (take j cs)" using k(2) by auto
  qed
  then have "card {i. i < n \<and> f_less (p (cd_id (cs ! j))) (p i)} \<le> card (cd_id ` set (take j cs))"
    by (intro card_mono) simp
  also have "\<dots> \<le> length (take j cs)" by (meson List.finite_set card_image_le card_length le_trans)
  finally show ?thesis by simp
qed

definition logit_p :: "libm \<Rightarrow> flt list \<Rightarrow> u32 \<Rightarrow> flt \<Rightarrow> nat \<Rightarrow> flt" where
  "logit_p m lg n_vocab temperature i = m_expf m (fdiv (fsub (lg ! i) (max_logit lg n_vocab)) temperature)"

lemma sample_top_k_aux:
  assumes "0 < unat n_vocab" and "top_k < 2 ^ 31"
    and "sample_next_token m lg n_vocab temperature top_k top_p rng has_cand = (t, rng')"
  shows "t < unat n_vocab \<and> rng' = next_rand rng \<and>
    (f_leq temperature f_zero \<or> top_k = 1 \<longrightarrow> t = argmax_logits lg n_vocab) \<and>
    (t = argmax_logits lg n_vocab \<or> (top_k > 0 \<longrightarrow>
      card {i. i < unat n_vocab \<and> f_less (logit_p m lg n_vocab temperature t) (logit_p m lg n_vocab temperature i)} < nat top_k)) \<and>
    ((\<forall>i < unat n_vocab. lg ! i \<noteq> FNan) \<longrightarrow> (\<forall>i < unat n_vocab. \<not> f_less (lg ! argmax_logits lg n_vocab) (lg ! i)))"
proof -
  define n where "n = unat n_vocab"
  define p where "p = logit_p m lg n_vocab temperature"
  define cs0 where "cs0 = map (\<lambda>i. \<lparr>cd_p = p i, cd_id = i\<rparr>) [0..<n]"
  define mass where "mass = foldl (\<lambda>s c. dadd s (dbl (cd_p c))) f_zero cs0"
  define cs where "cs = cand_sort cs0"
  define keep where "keep = keep_count n_vocab top_k top_p mass cs"
  have best: "argmax_logits lg n_vocab < n" using argmax_logits_range assms(1) by (simp add: n_def)
  have least: "(\<forall>i < unat n_vocab. lg ! i \<noteq> FNan) \<longrightarrow> (\<forall>i < unat n_vocab. \<not> f_less (lg ! argmax_logits lg n_vocab) (lg ! i))"
    using argmax_logits_least [OF assms(1), of lg] by blast
  have run: "sample_next_token m lg n_vocab temperature top_k top_p rng has_cand =
      (if f_leq temperature f_zero \<or> top_k = 1 \<or> \<not> has_cand then (argmax_logits lg n_vocab, next_rand rng)
       else if \<not> f_less f_zero mass \<or> \<not> f_isfinite mass then (argmax_logits lg n_vocab, next_rand rng)
       else if \<not> f_less f_zero (foldl (\<lambda>s c. dadd s (dbl (cd_p c))) f_zero (take keep cs)) then (argmax_logits lg n_vocab, next_rand rng)
       else (case draw (foldl (\<lambda>s c. dadd s (dbl (cd_p c))) f_zero (take keep cs))
               (f_div binary64 (f_of_int binary64 (uint (drop_bit 8 (next_rand rng)))) (FFin False 16777216 0)) f_zero (take keep cs) of
               Some c \<Rightarrow> (cd_id c, next_rand rng) | None \<Rightarrow> (cd_id (hd cs), next_rand rng)))"
    unfolding sample_next_token_def Let_def n_def [symmetric] keep_def cs_def mass_def cs0_def p_def logit_p_def by simp
  have mset_ids: "mset (map cd_id cs) = mset [0..<n]"
  proof -
    have "mset (map cd_id cs) = mset (map cd_id cs0)" unfolding cs_def by (simp add: mset_cand_sort)
    then show ?thesis by (simp add: cs0_def comp_def)
  qed
  have ids: "cd_id c < n" "cd_p c = p (cd_id c)" if "c \<in> set cs" for c
  proof -
    have "c \<in> set cs0" using that mset_cand_sort [of cs0] unfolding cs_def by (metis set_mset_mset)
    then show "cd_id c < n" "cd_p c = p (cd_id c)" by (auto simp: cs0_def)
  qed
  have len: "length cs = n" using mset_ids by (metis length_map length_upt minus_nat.diff_0 size_mset)
  have sampled: "t < n \<and> (top_k > 0 \<longrightarrow> card {i. i < n \<and> f_less (p t) (p i)} < nat top_k)"
    if j: "j < length cs" "t = cd_id (cs ! j)" "top_k > 0 \<longrightarrow> j < nat top_k" and fin: "f_isfinite mass" for j
  proof -
    have "\<forall>c \<in> set cs0. cd_p c \<noteq> FNan" using mass_no_nan fin by (auto simp: mass_def)
    then have "cands_sorted cs" unfolding cs_def by (rule sorted_cand_sort)
    from better_before [OF this mset_ids j(1), of p] ids(2) j(2,3) have "top_k > 0 \<longrightarrow> card {i. i < n \<and> f_less (p t) (p i)} < nat top_k"
      by fastforce
    moreover have "cs ! j \<in> set cs" using j(1) by simp
    ultimately show ?thesis using ids(1) j(2) by simp
  qed
  have kl: "keep \<le> n" "top_k > 0 \<longrightarrow> keep \<le> nat top_k"
    using keep_count_le [of cs n_vocab top_k top_p mass] len assms(2) by (simp_all add: keep_def n_def)
  show ?thesis
  proof (cases "t = argmax_logits lg n_vocab \<and> rng' = next_rand rng")
    case True
    with best least show ?thesis by (simp add: n_def)
  next
    case False
    then have nf: "\<not> (f_leq temperature f_zero \<or> top_k = 1)" and fin: "f_isfinite mass" and
      dr: "(case draw (foldl (\<lambda>s c. dadd s (dbl (cd_p c))) f_zero (take keep cs))
               (f_div binary64 (f_of_int binary64 (uint (drop_bit 8 (next_rand rng)))) (FFin False 16777216 0)) f_zero (take keep cs) of
               Some c \<Rightarrow> (cd_id c, next_rand rng) | None \<Rightarrow> (cd_id (hd cs), next_rand rng)) = (t, rng')"
      using assms(3) unfolding run by (auto split: if_splits)
    have "\<exists>j. j < length cs \<and> t = cd_id (cs ! j) \<and> (top_k > 0 \<longrightarrow> j < nat top_k) \<and> rng' = next_rand rng"
    proof (cases "draw (foldl (\<lambda>s c. dadd s (dbl (cd_p c))) f_zero (take keep cs))
               (f_div binary64 (f_of_int binary64 (uint (drop_bit 8 (next_rand rng)))) (FFin False 16777216 0)) f_zero (take keep cs)")
      case None
      have "cs \<noteq> []" using len assms(1) by (auto simp: n_def)
      with None dr show ?thesis by (intro exI [of _ 0]) (auto simp: hd_conv_nth)
    next
      case (Some c)
      then have "c \<in> set (take keep cs)" by (rule draw_mem)
      then obtain j where "j < length (take keep cs)" "take keep cs ! j = c" by (auto simp: in_set_conv_nth)
      with Some dr kl show ?thesis by (intro exI [of _ j]) auto
    qed
    then obtain j where j: "j < length cs" "t = cd_id (cs ! j)" "top_k > 0 \<longrightarrow> j < nat top_k" "rng' = next_rand rng" by blast
    from sampled [OF j(1-3) fin] j(4) nf least show ?thesis by (simp add: n_def p_def)
  qed
qed

text \<open>C35: sampling answers with a token of the vocabulary. It is the first largest logit when the temperature is not
  positive or \<open>top_k\<close> is one; otherwise it is that token too, or one of the \<open>top_k\<close> most probable ones: fewer
  than \<open>top_k\<close> tokens have a larger probability. Each call steps the generator once.\<close>

theorem sample_top_k:
  assumes "0 < unat n_vocab" and "top_k < 2 ^ 31"
    and "sample_next_token m lg n_vocab temperature top_k top_p rng has_cand = (t, rng')"
  shows "t < unat n_vocab \<and> rng' = next_rand rng \<and>
    (f_leq temperature f_zero \<or> top_k = 1 \<longrightarrow> t = argmax_logits lg n_vocab) \<and>
    (t = argmax_logits lg n_vocab \<or> (top_k > 0 \<longrightarrow>
      card {i. i < unat n_vocab \<and> f_less (logit_p m lg n_vocab temperature t) (logit_p m lg n_vocab temperature i)} < nat top_k)) \<and>
    ((\<forall>i < unat n_vocab. lg ! i \<noteq> FNan) \<longrightarrow> (\<forall>i < unat n_vocab. \<not> f_less (lg ! argmax_logits lg n_vocab) (lg ! i)))"
  using assms by (rule sample_top_k_aux)

section \<open>Generation\<close>

text \<open>A decoder that also keeps the list of its calls.\<close>

definition recording :: "'g decoder \<Rightarrow> ('g \<times> (int \<times> int) list) decoder" where
  "recording dec tok pos s = (case s of (g, calls) \<Rightarrow> (case dec tok pos g of (st, lg, g') \<Rightarrow> (st, lg, (g', calls @ [(tok, pos)]))))"

lemma recording_eq: "dec t p g = (st, lg, g') \<Longrightarrow> recording dec t p (g, calls) = (st, lg, (g', calls @ [(t, p)]))"
  by (simp add: recording_def)

definition calls_ok :: "u32 \<Rightarrow> int \<Rightarrow> (int \<times> int) list \<Rightarrow> bool" where
  "calls_ok n_vocab n_ctx calls \<longleftrightarrow> map snd calls = map int [0..<length calls] \<and> int (length calls) \<le> n_ctx
     \<and> (\<forall>c \<in> set calls. 0 \<le> fst c \<and> fst c < int (unat n_vocab))"

lemma calls_ok_snoc:
  "calls_ok v n_ctx calls \<Longrightarrow> int (length calls) < n_ctx \<Longrightarrow> 0 \<le> t \<Longrightarrow> t < int (unat v) \<Longrightarrow> calls_ok v n_ctx (calls @ [(t, int (length calls))])"
  by (auto simp: calls_ok_def)

lemma prefill_calls:
  assumes "set ts \<subseteq> {0..<int (unat v)}" and "calls_ok v n_ctx calls"
    and "prefill (recording dec) n_ctx ts st (int (length calls)) lg (g, calls) = (st', pos', lg', (g', calls'))"
  shows "calls_ok v n_ctx calls' \<and> pos' = int (length calls') \<and> length calls' \<le> length calls + length ts"
  using assms
proof (induction ts arbitrary: st calls lg g)
  case (Cons t ts)
  show ?case
  proof (cases "st = VG_OK \<and> int (length calls) < n_ctx")
    case True
    obtain st1 lg1 g1 where d: "dec t (int (length calls)) g = (st1, lg1, g1)" using prod_cases3 by blast
    let ?calls = "calls @ [(t, int (length calls))]"
    have ok: "calls_ok v n_ctx ?calls" by (rule calls_ok_snoc [OF Cons.prems(2)]) (use True Cons.prems(1) in auto)
    have "prefill (recording dec) n_ctx ts st1 (int (length ?calls)) lg1 (g1, ?calls) = (st', pos', lg', (g', calls'))"
      using Cons.prems(3) True by (simp add: recording_eq [where dec = dec, OF d] add.commute)
    from Cons.IH [OF _ ok this] Cons.prems(1) show ?thesis by simp
  next
    case False
    with Cons.prems(2,3) show ?thesis by auto
  qed
qed simp

lemma gen_loop_calls:
  assumes "0 < unat (ge_n_vocab ge)" and "ge_top_k ge < 2 ^ 31" and "calls_ok (ge_n_vocab ge) (ge_n_ctx ge) calls"
    and "gen_loop ge (recording dec) k st (int (length calls)) lg rng recent (g, calls) u = (st', (g', calls'), u')"
  shows "calls_ok (ge_n_vocab ge) (ge_n_ctx ge) calls' \<and> length calls' \<le> length calls + k"
  using assms(3,4)
proof (induction k arbitrary: st calls lg rng recent g u)
  case (Suc k)
  define lg1 where "lg1 = the (vg_apply_repetition_penalty (Some lg) (ge_n_vocab ge) recent (ge_penalty ge))"
  obtain nx rng1 where s: "sample_next_token (ge_libm ge) lg1 (ge_n_vocab ge) (ge_temperature ge) (ge_top_k ge) (ge_top_p ge) rng True = (nx, rng1)"
    by fastforce
  have nx: "nx < unat (ge_n_vocab ge)" using sample_top_k_aux [OF assms(1,2) s] by simp
  obtain go u1 where cb: "(case ge_callback ge of Some cb \<Rightarrow> if ge_decode ge (int nx) \<noteq> []
      then cb (take 255 (ge_decode ge (int nx))) (length (ge_decode ge (int nx))) (int nx) u else (True, u) | None \<Rightarrow> (True, u)) = (go, u1)"
    by fastforce
  obtain st1 lg2 g1 where d: "dec (int nx) (int (length calls)) g = (st1, lg2, g1)" using prod_cases3 by blast
  let ?calls = "calls @ [(int nx, int (length calls))]"
  show ?case
  proof (cases "st = VG_OK \<and> int (length calls) < ge_n_ctx ge \<and> int nx \<noteq> ge_eos ge \<and> go")
    case True
    have ok: "calls_ok (ge_n_vocab ge) (ge_n_ctx ge) ?calls" by (rule calls_ok_snoc [OF Suc.prems(1)]) (use True nx in \<open>simp_all only: of_nat_less_iff of_nat_0_le_iff\<close>)
    have "gen_loop ge (recording dec) k st1 (int (length ?calls)) lg2 rng1 (map_option (push_recent (ge_last_n ge) (int nx)) recent) (g1, ?calls) u1
        = (st', (g', calls'), u')"
      using Suc.prems(2) True by (simp add: lg1_def [symmetric] s cb recording_eq [where dec = dec, OF d] Let_def add.commute)
    from Suc.IH [OF ok this] show ?thesis by simp
  next
    case False
    then have "calls' = calls"
      using Suc.prems(2) by (auto simp: lg1_def [symmetric] s cb Let_def split: if_splits)
    with Suc.prems(1) show ?thesis by simp
  qed
qed simp

text \<open>
  What the engine keeps of a decoding function: an invariant of the graph that every decoding step preserves holds
  after generation, whatever was generated.
\<close>

locale decoder_contract =
  fixes dec :: "'g decoder" and inv :: "'g \<Rightarrow> bool"
  assumes dec_inv: "inv g \<Longrightarrow> dec t pos g = (st, lg, g') \<Longrightarrow> inv g'"
begin

lemma prefill_inv: "inv g \<Longrightarrow> prefill dec n_ctx ts st pos lg g = (st', pos', lg', g') \<Longrightarrow> inv g'"
proof (induction ts arbitrary: st pos lg g)
  case (Cons t ts)
  obtain a b c where d: "dec t pos g = (a, b, c)" using prod_cases3 by blast
  with Cons dec_inv [OF Cons.prems(1) d] show ?case by (auto split: if_splits)
qed simp

lemma gen_loop_inv: "inv g \<Longrightarrow> gen_loop ge dec k st pos lg rng recent g u = (st', g', u') \<Longrightarrow> inv g'"
proof (induction k arbitrary: st pos lg rng recent g u)
  case (Suc k)
  show ?case using Suc.prems
    by (auto simp: Let_def split: if_splits prod.splits intro: Suc.IH dec_inv)
qed simp

lemma generate_inv:
  assumes "inv g" and "generate m config mc tv dec callback lg0 g u = (st, g', u')"
  shows "inv g'"
proof -
  obtain recent last_n where rec: "gen_recent config (gen_prompt (gen_n_ctx config mc) (tv_prompt tv)) = (recent, last_n)" by fastforce
  define bos where "bos = gen_bos tv mc (gen_prompt (gen_n_ctx config mc) (tv_prompt tv))"
  obtain st0 pos0 lg1 g1 where s0: "(if bos \<ge> 0 then (case dec bos 0 g of (st, lg, g') \<Rightarrow> (st, 1, lg, g')) else (VG_OK, 0, lg0, g)) = (st0, pos0 :: int, lg1, g1)"
    by (metis surj_pair)
  have "inv g1" using s0 assms(1) dec_inv by (auto split: if_splits prod.splits)
  moreover obtain st1 pos1 lg2 g2 where s1: "prefill dec (gen_n_ctx config mc) (gen_prompt (gen_n_ctx config mc) (tv_prompt tv)) st0 pos0 lg1 g1 = (st1, pos1, lg2, g2)"
    by (metis surj_pair)
  ultimately have "inv g2" using prefill_inv by blast
  then show ?thesis using assms(2) s0 s1 gen_loop_inv unfolding generate_def Let_def rec bos_def [symmetric] by (auto simp: s1)
qed

end

lemma generate_positions_aux:
  assumes "0 < unat (mc_n_vocab mc)" and "1 \<le> gen_n_ctx config mc"
    and "set (tv_prompt tv) \<subseteq> {0..<int (unat (mc_n_vocab mc))}" and "tv_bos_id tv < 2 ^ 31" and "mc_bos_id mc < 2 ^ 31"
    and "case config of Some c \<Rightarrow> gc_top_k c < 2 ^ 31 \<and> k = nat (gc_n_predict c) | None \<Rightarrow> k = 128"
    and "generate m config mc tv (recording dec) callback lg0 (g, []) u = (st, (g', calls), u')"
  shows "map snd calls = map int [0..<length calls] \<and> int (length calls) \<le> gen_n_ctx config mc
    \<and> (\<forall>c \<in> set calls. 0 \<le> fst c \<and> fst c < int (unat (mc_n_vocab mc)))
    \<and> length calls \<le> 1 + length (tv_prompt tv) + k"
proof -
  define n_ctx where "n_ctx = gen_n_ctx config mc"
  define prompt where "prompt = gen_prompt n_ctx (tv_prompt tv)"
  define bos where "bos = gen_bos tv mc prompt"
  have pr: "set prompt \<subseteq> {0..<int (unat (mc_n_vocab mc))}" "length prompt \<le> length (tv_prompt tv)"
    using assms(3) by (auto simp: prompt_def gen_prompt_def Let_def dest: in_set_takeD)
  have bos: "bos < int (unat (mc_n_vocab mc))" if "0 \<le> bos"
  proof -
    have w: "unat (word_of_int b :: u32) = nat b" if "0 \<le> b" "b < 2 ^ 31" for b
      using that by (simp add: unat_eq_nat_uint uint_word_of_int)
    define b1 where "b1 = (if (if tv_add_bos tv then tv_bos_id tv else -1) < 0 then mc_bos_id mc else (if tv_add_bos tv then tv_bos_id tv else -1))"
    have "b1 < 2 ^ 31" using assms(4,5) by (simp add: b1_def)
    moreover have "bos = b1 \<and> 0 \<le> b1 \<and> \<not> (word_of_int b1 :: u32) \<ge> mc_n_vocab mc"
      using that by (auto simp: bos_def gen_bos_def Let_def b1_def [symmetric] split: if_splits)
    ultimately have "nat bos < unat (mc_n_vocab mc)" using w [of b1] by (auto simp: not_le word_less_nat_alt)
    then have "int (nat bos) < int (unat (mc_n_vocab mc))" by (simp only: of_nat_less_iff)
    then show ?thesis using that by (simp only: nat_0_le)
  qed
  obtain recent last_n where rec: "gen_recent config prompt = (recent, last_n)" by fastforce
  define start where "start = (if 0 \<le> bos then [(bos, 0 :: int)] else [])"
  obtain st0 lg1 g1 where s0: "(if bos \<ge> 0 then (case recording dec bos 0 (g, []) of (st, lg, g') \<Rightarrow> (st, 1, lg, g')) else (VG_OK, 0, lg0, (g, [])))
      = (st0, int (length start), lg1, (g1, start))"
  proof (cases "0 \<le> bos")
    case True
    obtain a b c where "dec bos 0 g = (a, b, c)" using prod_cases3 by blast
    with True that [of a b c] show ?thesis by (simp add: start_def recording_def)
  next
    case False
    with that [of VG_OK lg0 g] show ?thesis by (simp add: start_def)
  qed
  have ok0: "calls_ok (mc_n_vocab mc) n_ctx start" using bos assms(2) by (auto simp: calls_ok_def start_def n_ctx_def)
  obtain st1 pos1 lg2 g2 calls2 where pf: "prefill (recording dec) n_ctx prompt st0 (int (length start)) lg1 (g1, start) = (st1, pos1, lg2, (g2, calls2))"
    using prod_cases5 by (metis surj_pair)
  note p2 = prefill_calls [OF pr(1) ok0 pf]
  define ge where "ge = \<lparr>ge_libm = m, ge_n_vocab = mc_n_vocab mc, ge_n_ctx = n_ctx, ge_eos = gen_eos tv mc,
                ge_temperature = (case config of Some c \<Rightarrow> gc_temperature c | None \<Rightarrow> f_zero),
                ge_top_k = (case config of Some c \<Rightarrow> gc_top_k c | None \<Rightarrow> 1),
                ge_top_p = (case config of Some c \<Rightarrow> gc_top_p c | None \<Rightarrow> f_one),
                ge_penalty = (case config of Some c \<Rightarrow> gc_repeat_penalty c | None \<Rightarrow> f_one),
                ge_last_n = last_n, ge_decode = tv_decode tv, ge_callback = callback\<rparr>"
  have k: "nat (case config of Some c \<Rightarrow> gc_n_predict c | None \<Rightarrow> 128) = k" "ge_top_k ge < 2 ^ 31"
    using assms(6) by (auto simp: ge_def split: option.splits)
  have gl: "gen_loop ge (recording dec) k st1 (int (length calls2)) lg2 (gen_seed config) recent (g2, calls2) u = (st, (g', calls), u')"
    using assms(7) p2 unfolding generate_def Let_def n_ctx_def [symmetric] prompt_def [symmetric] bos_def [symmetric] rec s0 pf prod.case
      ge_def [symmetric] k by simp
  have "calls_ok (mc_n_vocab mc) n_ctx calls \<and> length calls \<le> length calls2 + k"
    using gen_loop_calls [OF _ k(2) _ gl] assms(1) p2 by (simp add: ge_def)
  moreover have "length start \<le> 1" by (simp add: start_def)
  ultimately show ?thesis using p2 pr(2) by (auto simp: calls_ok_def n_ctx_def)
qed


text \<open>A tokenizer that asks for no BOS token gets one all the same when the model names one of its vocabulary.\<close>

lemma add_bos_false_ignored:
  assumes "\<not> tv_add_bos tv" and "0 \<le> mc_bos_id mc" and "(word_of_int (mc_bos_id mc) :: u32) < mc_n_vocab mc"
    and "prompt = [] \<or> hd prompt \<noteq> mc_bos_id mc"
  shows "gen_bos tv mc prompt = mc_bos_id mc"
  using assms by (auto simp: gen_bos_def Let_def)

section \<open>Witnesses\<close>

theorem repetition_penalty_counts_witness:
  "\<exists>lg'. vg_apply_repetition_penalty (Some [f_one, f_zero]) 2 (Some [1, 0, 1]) (FFin False 2 0) = Some lg' \<and>
     lg' ! 1 = fsub (fsub f_zero (FFin False 2 0)) (FFin False 2 0)"
  using repetition_penalty_counts [of 1 "[f_one, f_zero]" 2 "[1, 0, 1]" "FFin False 2 0"] by (auto simp: unat_eq_nat_uint signed_mant_def)

theorem sample_top_k_witness:
  "fst (sample_next_token flat_libm [f_zero, f_one] 2 f_one 1 f_one 7 True) < unat (2 :: u32)"
  using sample_top_k [of 2 1 flat_libm "[f_zero, f_one]" f_one f_one 7 True "fst (sample_next_token flat_libm [f_zero, f_one] 2 f_one 1 f_one 7 True)"
      "snd (sample_next_token flat_libm [f_zero, f_one] 2 f_one 1 f_one 7 True)"] by simp

definition two_decoder :: "unit decoder" where
  "two_decoder t p g = (VG_OK, [f_zero, f_one], g)"

definition two_model :: vg_modelconfig where
  "two_model = zero_config\<lparr>mc_n_vocab := 2, mc_n_ctx := 3, mc_bos_id := 0, mc_eos_id := 7\<rparr>"

definition two_view :: tok_view where
  "two_view = \<lparr>tv_prompt = [1], tv_add_bos = True, tv_bos_id = 0, tv_eos_id = 7, tv_decode = (\<lambda>_. [])\<rparr>"

definition two_config :: vg_generateconfig where
  "two_config = \<lparr>gc_n_predict = 2, gc_n_ctx = 3, gc_seed = 1, gc_top_k = 1, gc_top_p = f_one, gc_temperature = f_zero,
     gc_repeat_penalty = f_one, gc_repeat_last_n = 0, gc_use_mmap = 1, gc_n_threads = 1,
     gc_use_gpu = 0, gc_ngl_layers = 0, gc_lora_path = None, gc_lora_scale = f_one\<rparr>"

lemma two_sample: "sample_next_token flat_libm [f_zero, f_one] 2 t 1 p rng True = (1, next_rand rng)"
  by (simp add: sample_next_token_def argmax_logits_def unat_eq_nat_uint upt_rec signed_mant_def)

lemma two_run:
  "generate flat_libm (Some two_config) two_model two_view (recording two_decoder) None [] ((), []) () =
     (VG_OK, ((), [(0, 0), (1, 1), (1, 2)]), ())"
  by (simp add: generate_def two_model_def two_view_def two_config_def gen_n_ctx_def gen_prompt_def gen_bos_def gen_eos_def gen_recent_def Let_def
    recording_def two_decoder_def numeral_2_eq_2 vg_apply_repetition_penalty_def two_sample [unfolded One_nat_def])


end
