(* ===== verification/Graph_Props.thy ===== *)
theory Graph_Props
  imports ModelGraph Engine_Props
begin

text \<open>
  The routing of tokens to experts, the cache of expert slices, the pages of the attention cache and attention over them.
\<close>

section \<open>Routing\<close>

text \<open>The order of the experts: larger logits first, equal ones by number.\<close>

definition before :: "flt list \<Rightarrow> nat \<Rightarrow> nat \<Rightarrow> bool" where
  "before lg a b \<longleftrightarrow> f_less (lg ! b) (lg ! a) \<or> (\<not> f_less (lg ! a) (lg ! b) \<and> a < b)"

fun insert_back :: "flt list \<Rightarrow> nat \<Rightarrow> nat list \<Rightarrow> nat list" where
  "insert_back lg x [] = [x]"
| "insert_back lg x (z # zs) = (if f_less (lg ! z) (lg ! x) then z # insert_back lg x zs else x # z # zs)"

lemma sift_left_insert: "sift_left lg (xs @ x # ys) (length xs) = rev (insert_back lg x (rev xs)) @ ys"
proof (induction xs arbitrary: ys rule: rev_induct)
  case (snoc z xs)
  have "sift_left lg ((xs @ [z]) @ x # ys) (length (xs @ [z])) =
      (if f_less (lg ! z) (lg ! x) then sift_left lg (xs @ x # z # ys) (length xs) else xs @ z # x # ys)"
    by (simp add: nth_append list_update_append)
  then show ?case using snoc.IH [of "z # ys"] by simp
qed simp

lemma mset_insert_back: "mset (insert_back lg x zs) = add_mset x (mset zs)"
  by (induction zs) auto

lemma set_insert_back: "set (insert_back lg x zs) = insert x (set zs)"
  by (metis mset_insert_back set_mset_add_mset_insert set_mset_mset)

lemma sorted_insert_back:
  assumes "\<forall>z \<in> set zs. z < x" and "\<forall>z \<in> insert x (set zs). lg ! z \<noteq> FNan"
  shows "sorted_wrt (\<lambda>a b. before lg b a) zs \<Longrightarrow> sorted_wrt (\<lambda>a b. before lg b a) (insert_back lg x zs)"
  using assms
proof (induction zs)
  case (Cons z zs)
  show ?case
  proof (cases "f_less (lg ! z) (lg ! x)")
    case True
    with Cons show ?thesis by (auto simp: set_insert_back before_def)
  next
    case False
    have "before lg y x" if "y \<in> set (z # zs)" for y
    proof -
      have "\<not> f_less (lg ! y) (lg ! x)"
      proof (cases "y = z")
        case ne: False
        then have "before lg y z" using Cons.prems(1) that by simp
        then have "\<not> f_less (lg ! y) (lg ! z)" using f_less_trans [of "lg ! y" "lg ! z" "lg ! y"] by (auto simp: before_def)
        from f_not_less_trans [OF _ _ _ this False] Cons.prems(3) that show ?thesis by auto
      qed (use False in simp)
      then show ?thesis using Cons.prems(2) that by (auto simp: before_def)
    qed
    with False Cons.prems(1) show ?thesis by simp
  qed
qed simp

lemma route_order_sorted:
  assumes "\<forall>i < n. lg ! i \<noteq> FNan"
  shows "sorted_wrt (before lg) (route_order lg n) \<and> mset (route_order lg n) = mset [0..<n]"
proof -
  have "\<exists>zs. foldl (\<lambda>order i. sift_left lg order i) [0..<n] [1..<k] = zs @ [k..<n] \<and> sorted_wrt (before lg) zs \<and> mset zs = mset [0..<k]"
    if "1 \<le> k" "k \<le> n" for k
    using that
  proof (induction k rule: nat_induct_at_least)
    case base
    then show ?case by (intro exI [of _ "[0]"]) (simp add: upt_conv_Cons)
  next
    case (Suc k)
    then obtain zs where zs: "foldl (\<lambda>order i. sift_left lg order i) [0..<n] [1..<k] = zs @ [k..<n]" "sorted_wrt (before lg) zs"
      "mset zs = mset [0..<k]" by auto
    have len: "length zs = k" using zs(3) by (metis diff_zero length_upt size_mset)
    have st: "set zs = {0..<k}" using zs(3) by (metis mset_eq_setD set_upt)
    have "foldl (\<lambda>order i. sift_left lg order i) [0..<n] [1..<Suc k] = sift_left lg (zs @ k # [Suc k..<n]) (length zs)"
      using Suc zs(1) len by (simp add: upt_conv_Cons)
    also have "\<dots> = rev (insert_back lg k (rev zs)) @ [Suc k..<n]" by (rule sift_left_insert)
    finally have "foldl (\<lambda>order i. sift_left lg order i) [0..<n] [1..<Suc k] = rev (insert_back lg k (rev zs)) @ [Suc k..<n]" .
    moreover have "sorted_wrt (before lg) (rev (insert_back lg k (rev zs)))"
      unfolding sorted_wrt_rev using sorted_insert_back [of "rev zs" k lg] zs(2) st Suc.prems assms by (simp add: sorted_wrt_rev)
    moreover have "mset (rev (insert_back lg k (rev zs))) = mset [0..<Suc k]" using zs(3) by (simp add: mset_insert_back)
    ultimately show ?case by blast
  qed
  from this [of n] show ?thesis by (cases "n = 0") (auto simp: route_order_def)
qed

text \<open>C17: routing picks the experts with the largest logits: the wanted number of different experts, in descending order, equal
  logits by expert number, and no expert that is left out has a larger logit than one that is picked.\<close>

theorem moe_route_top:
  assumes "\<forall>i < unat (mc_n_expert (mg_cfg g)). lg ! i \<noteq> FNan"
    and "0 < mc_n_expert_used (mg_cfg g)" and "mc_n_expert_used (mg_cfg g) \<le> mc_n_expert (mg_cfg g)"
  shows "\<exists>mo. vg_model_graph_moe_route en (Some g) layer h (Some lg) True = Inr mo \<and>
    length (mo_expert_ids mo) = unat (mc_n_expert_used (mg_cfg g)) \<and> distinct (mo_expert_ids mo) \<and>
    sorted_wrt (before lg) (mo_expert_ids mo) \<and> (\<forall>e \<in> set (mo_expert_ids mo). e < unat (mc_n_expert (mg_cfg g))) \<and>
    (\<forall>e < unat (mc_n_expert (mg_cfg g)). e \<notin> set (mo_expert_ids mo) \<longrightarrow> (\<forall>i \<in> set (mo_expert_ids mo). \<not> f_less (lg ! i) (lg ! e)))"
proof -
  define n where "n = unat (mc_n_expert (mg_cfg g))"
  define k where "k = unat (mc_n_expert_used (mg_cfg g))"
  define ord where "ord = route_order lg n"
  have kn: "k \<le> n" using assms(3) by (simp add: k_def n_def word_le_nat_alt)
  have srt: "sorted_wrt (before lg) ord" and ms: "mset ord = mset [0..<n]"
    using route_order_sorted [of n lg] assms(1) by (simp_all add: ord_def n_def)
  have len: "length ord = n" using ms by (metis diff_zero length_upt size_mset)
  have st: "set ord = {0..<n}" using ms by (metis mset_eq_setD set_upt)
  have dist: "distinct ord" using ms by (metis distinct_upt mset_eq_imp_distinct_iff)
  have pos: "0 < mc_n_expert (mg_cfg g)" using assms(2,3) by (rule order.strict_trans2)
  have ids: "map (\<lambda>i. ord ! i) [0..<k] = take k ord" using kn len by (intro nth_equalityI) auto
  have split: "sorted_wrt (before lg) (take k ord @ drop k ord)" using srt by simp
  have left: "\<not> f_less (lg ! i) (lg ! e)" if "e < n" "e \<notin> set (take k ord)" "i \<in> set (take k ord)" for e i
  proof -
    have "e \<in> set (drop k ord)" using that(1,2) st by (metis Un_iff append_take_drop_id atLeast0LessThan lessThan_iff set_append)
    then have "before lg i e" using split that(3) unfolding sorted_wrt_append by blast
    then show ?thesis using f_less_trans [of "lg ! i" "lg ! e" "lg ! i"] by (auto simp: before_def)
  qed
  have run: "vg_model_graph_moe_route en (Some g) layer h (Some lg) True =
      Inr \<lparr>mo_n_expert = mc_n_expert (mg_cfg g), mo_n_expert_used = mc_n_expert_used (mg_cfg g), mo_expert_ids = take k ord\<rparr>"
    using pos assms(2) ids by (simp add: vg_model_graph_moe_route_def Let_def n_def k_def ord_def)
  have "sorted_wrt (before lg) (take k ord)" using split by (simp only: sorted_wrt_append)
  moreover have "\<forall>e \<in> set (take k ord). e < n" using st by (auto dest: in_set_takeD)
  ultimately show ?thesis using run dist left kn len by (simp add: n_def k_def)
qed

section \<open>The expert cache\<close>

text \<open>A slot for an expert, and one that holds what loading the expert gives.\<close>

definition slot_for :: "nat \<Rightarrow> nat \<Rightarrow> u32 \<Rightarrow> u32 \<Rightarrow> u32 \<Rightarrow> vg_expertslot \<Rightarrow> bool" where
  "slot_for layer kind expert out_dim in_dim s \<longleftrightarrow>
     es_layer s = layer \<and> es_kind s = kind \<and> es_expert s = unat expert \<and> es_out_dim s = out_dim \<and> es_in_dim s = in_dim"

definition slot_ok :: "genv \<Rightarrow> vg_expertslot \<Rightarrow> bool" where
  "slot_ok en s \<longleftrightarrow> (\<exists>expert v. slot_for (es_layer s) (es_kind s) expert (es_out_dim s) (es_in_dim s) s \<and>
     load_expert en (es_layer s) (es_kind s) expert (es_out_dim s) (es_in_dim s) = Inr v \<and> es_data v = es_data s \<and> es_ggml_type v = es_ggml_type s)"

definition cache_ok :: "genv \<Rightarrow> vg_expertcache \<Rightarrow> bool" where
  "cache_ok en c \<longleftrightarrow> 4 \<le> ec_cap c \<and> length (ec_slots c) \<le> ec_cap c \<and> (\<forall>s \<in> set (ec_slots c). slot_ok en s \<and> es_last_use s \<le> ec_clock c) \<and>
     distinct (map es_last_use (ec_slots c))"

lemma expert_cache_init_ok: "cache_ok en (expert_cache_init cap)"
proof -
  have "4 \<le> unat cap" if "\<not> cap < 4" using that by (simp add: not_less word_le_nat_alt)
  then show ?thesis by (simp add: cache_ok_def expert_cache_init_def)
qed

lemma expert_find_Some:
  "expert_find c layer expert kind = Some i \<Longrightarrow> i < length (ec_slots c) \<and> es_layer (ec_slots c ! i) = layer \<and>
     es_expert (ec_slots c ! i) = expert \<and> es_kind (ec_slots c ! i) = kind"
  by (auto simp: expert_find_def Let_def find_Some_iff)

text \<open>The least recently used slot.\<close>

lemma expert_victim_least:
  assumes "ss \<noteq> []"
  shows "expert_victim ss < length ss \<and> (\<forall>i < length ss. es_last_use (ss ! expert_victim ss) \<le> es_last_use (ss ! i))"
proof -
  define f where "f = (\<lambda>idx i. if es_last_use (ss ! i) < es_last_use (ss ! idx) then i else idx)"
  have "foldl f 0 [1..<k] < k \<and> (\<forall>i < k. es_last_use (ss ! foldl f 0 [1..<k]) \<le> es_last_use (ss ! i))" if "1 \<le> k" for k
    using that
  proof (induction k rule: nat_induct_at_least)
    case (Suc k)
    then show ?case by (auto simp: f_def less_Suc_eq intro: order_trans)
  qed simp
  from this [of "length ss"] show ?thesis using assms by (simp add: expert_victim_def f_def Suc_le_eq)
qed

lemma expert_hit_Some:
  "expert_hit c layer kind expert out_dim in_dim = Some i \<Longrightarrow> i < length (ec_slots c) \<and> slot_for layer kind expert out_dim in_dim (ec_slots c ! i)"
  by (auto simp: expert_hit_def slot_for_def dest: expert_find_Some split: option.splits if_splits)

lemma load_expert_slot: "load_expert en layer kind expert out_dim in_dim = Inr v \<Longrightarrow> slot_for layer kind expert out_dim in_dim v"
  by (auto simp: load_expert_def Let_def slot_for_def split: if_splits sum.splits)

lemma slot_for_unique: "slot_for l k e m n s \<Longrightarrow> slot_for l' k' e' m' n' s \<Longrightarrow> l' = l \<and> k' = k \<and> e' = e \<and> m' = m \<and> n' = n"
  by (auto simp: slot_for_def word_unat_eq_iff)

lemma load_expert_ok: "load_expert en layer kind expert out_dim in_dim = Inr v \<Longrightarrow> slot_ok en v"
  using load_expert_slot unfolding slot_ok_def slot_for_def by metis

lemma slot_ok_load:
  "slot_ok en s \<Longrightarrow> slot_for layer kind expert out_dim in_dim s \<Longrightarrow>
     \<exists>v. load_expert en layer kind expert out_dim in_dim = Inr v \<and> es_data v = es_data s \<and> es_ggml_type v = es_ggml_type s"
  unfolding slot_ok_def using slot_for_unique by blast

text \<open>Putting a slot with the next time at a place of the list.\<close>

lemma distinct_update_new:
  "distinct xs \<Longrightarrow> y \<notin> set xs \<Longrightarrow> distinct (xs[i := y])"
  by (cases "i < length xs") (auto simp: distinct_list_update dest: set_update_subset_insert [THEN subsetD])

lemma next_time: "unat (clock :: u64) + 1 < 2 ^ 64 \<Longrightarrow> x \<le> clock \<Longrightarrow> x \<le> clock + 1 \<and> x \<noteq> clock + 1"
  by (auto simp: word_le_nat_alt unat_word_ariths word_unat_eq_iff)

definition stamped :: "genv \<Rightarrow> vg_expertcache \<Rightarrow> vg_expertcache \<Rightarrow> vg_expertslot \<Rightarrow> bool" where
  "stamped en c c' v \<longleftrightarrow> cache_ok en c' \<and> ec_clock c' = ec_clock c + 1 \<and> ec_cap c' = ec_cap c \<and> v \<in> set (ec_slots c') \<and> es_last_use v = ec_clock c'"

lemma stamp_at:
  assumes "cache_ok en c" and "unat (ec_clock c) + 1 < 2 ^ 64" and "slot_ok en v" and "i < length (ec_slots c)"
    and "es_last_use v = ec_clock c + 1"
    and "ec_slots c' = (ec_slots c)[i := v]" and "ec_clock c' = ec_clock c + 1" and "ec_cap c' = ec_cap c"
  shows "stamped en c c' v"
proof -
  have old: "slot_ok en s" "es_last_use s \<le> ec_clock c + 1" "es_last_use s \<noteq> ec_clock c + 1" if "s \<in> set (ec_slots c)" for s
    using assms(1) that next_time [OF assms(2), of "es_last_use s"] by (auto simp: cache_ok_def)
  have mem: "s = v \<or> s \<in> set (ec_slots c)" if "s \<in> set (ec_slots c')" for s
    using that set_update_subset_insert [of "ec_slots c" i v] unfolding assms(6) by blast
  have "ec_clock c + 1 \<notin> es_last_use ` set (ec_slots c)" using old(3) by (metis imageE)
  then have n: "ec_clock c + 1 \<notin> set (map es_last_use (ec_slots c))" by simp
  have d: "distinct (map es_last_use (ec_slots c))" using assms(1) by (simp add: cache_ok_def)
  have "map es_last_use (ec_slots c') = (map es_last_use (ec_slots c))[i := ec_clock c + 1]"
    by (simp only: assms(5,6) map_update)
  then have "distinct (map es_last_use (ec_slots c'))" by (simp only: distinct_update_new [OF d n])
  moreover have "\<forall>s \<in> set (ec_slots c'). slot_ok en s \<and> es_last_use s \<le> ec_clock c'"
    using mem old(1,2) assms(3,5,7) by fastforce
  moreover have "v \<in> set (ec_slots c')" unfolding assms(6) using assms(4) by (simp add: set_update_memI)
  ultimately show ?thesis using assms by (simp add: stamped_def cache_ok_def)
qed

lemma stamp_append:
  assumes "cache_ok en c" and "unat (ec_clock c) + 1 < 2 ^ 64" and "slot_ok en v" and "length (ec_slots c) < ec_cap c"
    and "es_last_use v = ec_clock c + 1"
    and "ec_slots c' = ec_slots c @ [v]" and "ec_clock c' = ec_clock c + 1" and "ec_cap c' = ec_cap c"
  shows "stamped en c c' v"
proof -
  have "slot_ok en s" "es_last_use s \<le> ec_clock c + 1" "es_last_use s \<noteq> ec_clock c + 1" if "s \<in> set (ec_slots c)" for s
    using assms(1) that next_time [OF assms(2), of "es_last_use s"] by (auto simp: cache_ok_def)
  then show ?thesis using assms by (force simp: stamped_def cache_ok_def)
qed

text \<open>One acquisition: refused without a change, or answered as loading does, the slot stamped last and only the least
  recently used slot given up.\<close>

lemma acquire_expert_step:
  assumes "cache_ok en c" and "unat (ec_clock c) + 1 < 2 ^ 64"
    and "acquire_expert en layer kind expert out_dim in_dim c = (r, c')"
  shows "(\<exists>st. load_expert en layer kind expert out_dim in_dim = Inl st \<and> r = Inl st \<and> c' = c) \<or>
    (\<exists>v w. load_expert en layer kind expert out_dim in_dim = Inr v \<and> r = Inr (es_data v, es_ggml_type v) \<and> stamped en c c' w \<and>
       slot_for layer kind expert out_dim in_dim w \<and> es_data w = es_data v \<and>
       (\<forall>s \<in> set (ec_slots c). (\<exists>s' \<in> set (ec_slots c'). es_data s' = es_data s \<and> (s' = s \<or> s' = w)) \<or>
          length (ec_slots c) = ec_cap c \<and> (\<forall>s' \<in> set (ec_slots c). es_last_use s \<le> es_last_use s')))"
proof (cases "expert_hit c layer kind expert out_dim in_dim")
  case (Some i)
  note h = expert_hit_Some [OF Some]
  define s where "s = ec_slots c ! i"
  define w where "w = s\<lparr>es_hits := es_hits s + 1, es_last_use := ec_clock c + 1\<rparr>"
  have ok: "slot_ok en s" using assms(1) h by (simp add: cache_ok_def s_def)
  obtain v where v: "load_expert en layer kind expert out_dim in_dim = Inr v" "es_data v = es_data s" "es_ggml_type v = es_ggml_type s"
    using slot_ok_load [OF ok, of layer kind expert out_dim in_dim] h by (auto simp: s_def)
  have r: "r = Inr (es_data v, es_ggml_type v)" "ec_slots c' = (ec_slots c)[i := w]" "ec_clock c' = ec_clock c + 1" "ec_cap c' = ec_cap c"
    using assms(3) v Some by (auto simp: acquire_expert_def Let_def s_def w_def)
  have wok: "slot_ok en w" using ok by (simp add: slot_ok_def slot_for_def w_def)
  have wf: "slot_for layer kind expert out_dim in_dim w" using h by (simp add: slot_for_def w_def s_def)
  have wt: "es_last_use w = ec_clock c + 1" by (simp add: w_def)
  have "stamped en c c' w" by (rule stamp_at [OF assms(1,2) wok conjunct1 [OF h] wt r(2-4)])
  moreover have "\<exists>s' \<in> set (ec_slots c'). es_data s' = es_data x \<and> (s' = x \<or> s' = w)" if "x \<in> set (ec_slots c)" for x
  proof -
    obtain j where j: "j < length (ec_slots c)" "x = ec_slots c ! j" using \<open>x \<in> set (ec_slots c)\<close> by (metis in_set_conv_nth)
    have m: "ec_slots c' ! j \<in> set (ec_slots c')" using j r(2) by simp
    show ?thesis
    proof (cases "j = i")
      case True
      then have "ec_slots c' ! j = w" "es_data w = es_data x" using j r(2) by (simp_all add: w_def s_def)
      with m show ?thesis by metis
    next
      case False
      then have "ec_slots c' ! j = x" using j r(2) by simp
      with m show ?thesis by metis
    qed
  qed
  moreover have "es_data w = es_data v" using v by (simp add: w_def)
  ultimately show ?thesis using v(1) r(1) wf by blast
next
  case None
  show ?thesis
  proof (cases "load_expert en layer kind expert out_dim in_dim")
    case (Inl st)
    then show ?thesis using assms(3) None by (simp add: acquire_expert_def)
  next
    case (Inr v)
    define w where "w = v\<lparr>es_last_use := ec_clock c + 1\<rparr>"
    have wok: "slot_ok en w" using load_expert_ok [OF Inr] by (simp add: slot_ok_def slot_for_def w_def)
    have wf: "slot_for layer kind expert out_dim in_dim w" using load_expert_slot [OF Inr] by (simp add: slot_for_def w_def)
    have wt: "es_last_use w = ec_clock c + 1" by (simp add: w_def)
    have run: "r = Inr (es_data v, es_ggml_type v)" "c' = expert_insert v (c\<lparr>ec_misses := ec_misses c + 1\<rparr>)"
      using assms(3) None Inr by (auto simp: acquire_expert_def)
    have cap: "ec_cap c \<noteq> 0" "length (ec_slots c) \<le> ec_cap c" using assms(1) by (auto simp: cache_ok_def)
    show ?thesis
    proof (cases "length (ec_slots c) < ec_cap c")
      case True
      then have e: "ec_slots c' = ec_slots c @ [w]" "ec_clock c' = ec_clock c + 1" "ec_cap c' = ec_cap c"
        using cap by (simp_all add: run(2) expert_insert_def Let_def w_def)
      have "stamped en c c' w" by (rule stamp_append [OF assms(1,2) wok True wt e])
      moreover have "es_data w = es_data v" by (simp add: w_def)
      ultimately show ?thesis using Inr run(1) wf e(1) by (intro disjI2 exI [of _ v] exI [of _ w]) auto
    next
      case False
      then have full: "length (ec_slots c) = ec_cap c" using cap by simp
      define k where "k = expert_victim (ec_slots c)"
      have k: "k < length (ec_slots c)" "\<forall>i < length (ec_slots c). es_last_use (ec_slots c ! k) \<le> es_last_use (ec_slots c ! i)"
      proof -
        have "ec_slots c \<noteq> []" using full cap by auto
        then show "k < length (ec_slots c)" "\<forall>i < length (ec_slots c). es_last_use (ec_slots c ! k) \<le> es_last_use (ec_slots c ! i)"
          using expert_victim_least [of "ec_slots c"] unfolding k_def by blast+
      qed
      have e: "ec_slots c' = (ec_slots c)[k := w]" "ec_clock c' = ec_clock c + 1" "ec_cap c' = ec_cap c"
        using cap False by (simp_all add: run(2) expert_insert_def Let_def w_def k_def)
      have "stamped en c c' w" by (rule stamp_at [OF assms(1,2) wok k(1) wt e])
      moreover have "(\<exists>s' \<in> set (ec_slots c'). es_data s' = es_data x \<and> (s' = x \<or> s' = w)) \<or>
          length (ec_slots c) = ec_cap c \<and> (\<forall>s' \<in> set (ec_slots c). es_last_use x \<le> es_last_use s')" if "x \<in> set (ec_slots c)" for x
      proof -
        obtain j where j: "j < length (ec_slots c)" "x = ec_slots c ! j" using \<open>x \<in> set (ec_slots c)\<close> by (metis in_set_conv_nth)
        show ?thesis
        proof (cases "j = k")
          case True
          then show ?thesis using full j k(2) by (auto simp: in_set_conv_nth)
        next
          case False
          then have "x \<in> set (ec_slots c')" using j e(1) by (metis length_list_update nth_list_update_neq nth_mem)
          then show ?thesis by blast
        qed
      qed
      moreover have "es_data w = es_data v" by (simp add: w_def)
      ultimately show ?thesis using Inr run(1) wf by (intro disjI2 exI [of _ v] exI [of _ w]) blast
    qed
  qed
qed

text \<open>C16: the expert cache never changes what an expert reads as: every acquisition answers what loading from the weight would,
  whatever was cached or evicted before, and leaves the cache within its capacity and consistent. The slice
  handed out stays in the cache over the next acquisition, so the gate and up slices of an expert can be used together.\<close>

theorem expert_cache_transparent:
  assumes "cache_ok en c" and "unat (ec_clock c) + 2 < 2 ^ 64"
    and "acquire_expert en layer kind expert out_dim in_dim c = (r, c1)"
    and "acquire_expert en layer2 kind2 expert2 out_dim2 in_dim2 c1 = (r2, c2)"
  shows "r = map_sum id (\<lambda>v. (es_data v, es_ggml_type v)) (load_expert en layer kind expert out_dim in_dim) \<and>
    cache_ok en c1 \<and> cache_ok en c2 \<and>
    (\<forall>d ty. r = Inr (d, ty) \<longrightarrow> (\<exists>s \<in> set (ec_slots c2). es_data s = d))"
proof -
  have c1: "unat (ec_clock c + 1) = unat (ec_clock c) + 1"
    using assms(2) by (simp add: unat_word_ariths)
  consider (failed) st where "load_expert en layer kind expert out_dim in_dim = Inl st" "r = Inl st" "c1 = c"
    | (ok) v w where "load_expert en layer kind expert out_dim in_dim = Inr v" "r = Inr (es_data v, es_ggml_type v)" "stamped en c c1 w" "es_data w = es_data v"
    using acquire_expert_step [OF assms(1) _ assms(3)] assms(2) by force
  then show ?thesis
  proof cases
    case failed
    moreover have "cache_ok en c2"
      using acquire_expert_step [of en c, OF assms(1) _ assms(4) [unfolded failed(3)]] assms(1,2) by (auto simp: stamped_def)
    ultimately show ?thesis using assms(1) by simp
  next
    case ok
    have k1: "cache_ok en c1" and cl: "ec_clock c1 = ec_clock c + 1" and w: "w \<in> set (ec_slots c1)" "es_last_use w = ec_clock c1"
      using ok(3) by (simp_all add: stamped_def)
    have lt: "unat (ec_clock c1) + 1 < 2 ^ 64" using assms(2) cl c1 by simp
    have "\<exists>s \<in> set (ec_slots c2). es_data s = es_data w" and "cache_ok en c2"
    proof -
      have full: "\<not> (length (ec_slots c1) = ec_cap c1 \<and> (\<forall>s' \<in> set (ec_slots c1). es_last_use w \<le> es_last_use s'))"
      proof
        assume a: "length (ec_slots c1) = ec_cap c1 \<and> (\<forall>s' \<in> set (ec_slots c1). es_last_use w \<le> es_last_use s')"
        then have "es_last_use ` set (ec_slots c1) \<subseteq> {ec_clock c1}" using k1 w(2) by (force simp: cache_ok_def)
        then have "card (es_last_use ` set (ec_slots c1)) \<le> 1" by (metis card_mono card.empty card_insert_le_m1 finite.emptyI finite_insert is_singletonI is_singleton_altdef)
        moreover have "card (es_last_use ` set (ec_slots c1)) = length (ec_slots c1)"
          using k1 distinct_card [of "map es_last_use (ec_slots c1)"] by (simp add: cache_ok_def)
        ultimately show False using a k1 by (simp add: cache_ok_def)
      qed
      show "\<exists>s \<in> set (ec_slots c2). es_data s = es_data w" "cache_ok en c2"
        using acquire_expert_step [OF k1 lt assms(4)] w(1) full k1 by (fastforce simp: stamped_def)+
    qed
    with ok k1 show ?thesis by simp
  qed
qed

section \<open>The pages of the attention cache\<close>

text \<open>The positions whose page is gone once \<open>n\<close> positions have been stored.\<close>

definition evicted :: "nat \<Rightarrow> nat \<Rightarrow> nat \<Rightarrow> bool" where
  "evicted window n t \<longleftrightarrow> window < n \<and> t div 64 \<le> (n - 1 - window) div 64"

lemma evicted_Suc:
  assumes "64 \<le> window"
  shows "evicted window (Suc n) t \<longleftrightarrow> evicted window n t \<or> (window \<le> n \<and> t div 64 = (n - window) div 64)"
    and "t div 64 = n div 64 \<Longrightarrow> \<not> evicted window (Suc n) t"
proof -
  have s: "(n - window) div 64 = (n - 1 - window) div 64 \<or> (n - window) div 64 = Suc ((n - 1 - window) div 64)" by linarith
  show "evicted window (Suc n) t \<longleftrightarrow> evicted window n t \<or> (window \<le> n \<and> t div 64 = (n - window) div 64)"
  proof (cases "window < n")
    case True
    then show ?thesis using s by (auto simp: evicted_def)
  next
    case False
    then show ?thesis by (auto simp: evicted_def)
  qed
  have "(n - window) div 64 < n div 64" if "window \<le> n"
  proof -
    have "(n - window) div 64 \<le> (n - 64) div 64" using assms by (intro div_le_mono) simp
    also have "\<dots> < n div 64" using assms that by (simp add: div_nat_eqI less_imp_diff_less le_div_geq)
    finally show ?thesis .
  qed
  then show "t div 64 = n div 64 \<Longrightarrow> \<not> evicted window (Suc n) t" by (auto simp: evicted_def)
qed

text \<open>The pages of one layer: their length, and what the stored positions read as.\<close>

definition pages_ok :: "nat \<Rightarrow> nat \<Rightarrow> nat \<Rightarrow> flt list option list \<Rightarrow> bool" where
  "pages_ok cap layer dm ps \<longleftrightarrow> layer * cap + cap \<le> length ps \<and> (\<forall>j < cap. \<forall>page. ps ! (layer * cap + j) = Some page \<longrightarrow> length page = 64 * dm)"

definition rows_kept :: "nat \<Rightarrow> nat \<Rightarrow> nat \<Rightarrow> nat \<Rightarrow> nat \<Rightarrow> (nat \<Rightarrow> flt list) \<Rightarrow> flt list option list \<Rightarrow> bool" where
  "rows_kept window cap layer dm n rows ps \<longleftrightarrow>
     (\<forall>t < n. if evicted window n t then ps ! (layer * cap + t div 64) = None
              else \<exists>page. ps ! (layer * cap + t div 64) = Some page \<and> take dm (drop (t mod 64 * dm) page) = take dm (rows t))"

lemma put_at_get:
  assumes "off + length xs \<le> length page"
  shows "length (put_at off xs page) = length page" and "take (length xs) (drop off (put_at off xs page)) = xs"
    and "off2 + n \<le> off \<or> off + length xs \<le> off2 \<Longrightarrow> take n (drop off2 (put_at off xs page)) = take n (drop off2 page)"
proof -
  show "length (put_at off xs page) = length page" "take (length xs) (drop off (put_at off xs page)) = xs"
    using assms by (simp_all add: put_at_def)
  show "take n (drop off2 (put_at off xs page)) = take n (drop off2 page)" if "off2 + n \<le> off \<or> off + length xs \<le> off2"
    using that assms by (intro nth_equalityI) (auto simp: put_at_def nth_append)
qed

definition kv_step :: "nat \<Rightarrow> nat \<Rightarrow> nat \<Rightarrow> nat \<Rightarrow> bool \<Rightarrow> nat \<Rightarrow> flt list \<Rightarrow> flt list option list \<Rightarrow> flt list option list" where
  "kv_step window cap layer dm fresh pos row ps =
     kv_put (layer * cap + pos div 64) pos (Some row) dm fresh (kv_evict cap window layer pos ps)"

lemma kv_evict_length [simp]: "length (kv_evict cap window layer pos ps) = length ps"
  by (simp add: kv_evict_def)

lemma kv_evict_nth:
  assumes "layer * cap + cap \<le> length ps" and "j < cap"
  shows "kv_evict cap window layer pos ps ! (layer * cap + j) =
    (if pos \<ge> window \<and> window > 0 \<and> j = (pos - window) div 64 then None else ps ! (layer * cap + j))"
  using assms by (auto simp: kv_evict_def nth_list_update)

lemma kv_put_page:
  assumes "layer * cap + cap \<le> length ps" and "p < cap" and "fresh \<longleftrightarrow> ps ! (layer * cap + p) = None"
  shows "kv_put (layer * cap + p) pos (Some row) dm fresh ps =
    ps[layer * cap + p := Some (put_at (pos mod 64 * dm) (take dm row)
      (case ps ! (layer * cap + p) of None \<Rightarrow> replicate (64 * dm) f_zero | Some page \<Rightarrow> page))]"
  using assms by (cases "ps ! (layer * cap + p)") (auto simp: kv_put_def)

lemma slot_bound: "pos mod 64 * dm + dm \<le> 64 * (dm :: nat)"
proof -
  have "(pos mod 64 + 1) * dm \<le> 64 * dm" by (intro mult_right_mono) (simp_all add: Suc_le_eq)
  then show ?thesis by simp
qed

lemma slots_apart: "t div 64 = n div 64 \<Longrightarrow> t < n \<Longrightarrow> t mod 64 * dm + dm \<le> n mod 64 * (dm :: nat)"
proof -
  assume "t div 64 = n div 64" "t < n"
  then have "t mod 64 < n mod 64" by (metis div_mult_mod_eq nat_add_left_cancel_less)
  then have "(t mod 64 + 1) * dm \<le> n mod 64 * dm" by (intro mult_right_mono) simp_all
  then show ?thesis by simp
qed

lemma kv_step_kept:
  assumes "pages_ok cap layer dm ps" and "rows_kept window cap layer dm n rows ps" and "n div 64 < cap" and "64 \<le> window"
    and "dm \<le> length (rows n)" and "fresh \<longleftrightarrow> kv_evict cap window layer n ps ! (layer * cap + n div 64) = None"
  shows "pages_ok cap layer dm (kv_step window cap layer dm fresh n (rows n) ps)
    \<and> rows_kept window cap layer dm (Suc n) rows (kv_step window cap layer dm fresh n (rows n) ps)"
proof -
  define es where "es = kv_evict cap window layer n ps"
  define b where "b = layer * cap"
  define old where "old = (case es ! (b + n div 64) of None \<Rightarrow> replicate (64 * dm) f_zero | Some page \<Rightarrow> page)"
  define new where "new = put_at (n mod 64 * dm) (take dm (rows n)) old"
  have len: "b + cap \<le> length ps" using assms(1) by (simp add: pages_ok_def b_def)
  have es_nth: "es ! (b + j) = (if window \<le> n \<and> j = (n - window) div 64 then None else ps ! (b + j))" if "j < cap" for j
    using kv_evict_nth [of layer cap ps j window n] len that assms(4) by (auto simp: es_def b_def)
  have run: "kv_step window cap layer dm fresh n (rows n) ps = es[b + n div 64 := Some new]"
    using kv_put_page [of layer cap es "n div 64" fresh n "rows n" dm] len assms(3,6)
    by (simp add: kv_step_def es_def b_def new_def old_def)
  have es_len: "length page = 64 * dm" if "j < cap" "es ! (b + j) = Some page" for j page
    using assms(1) that es_nth [OF that(1)] by (auto simp: pages_ok_def b_def split: if_splits)
  have old_len: "length old = 64 * dm" using es_len [OF assms(3)] by (auto simp: old_def split: option.split)
  have row_len: "length (take dm (rows n)) = dm" using assms(5) by simp
  have fits: "n mod 64 * dm + length (take dm (rows n)) \<le> length old" using slot_bound [of n dm] row_len old_len by simp
  note put = put_at_get [OF fits, folded new_def]
  have step_nth: "es[b + n div 64 := Some new] ! (b + j) = (if j = n div 64 then Some new else es ! (b + j))" if "j < cap" for j
    using len assms(3) that by (auto simp: es_def nth_list_update)
  have "pages_ok cap layer dm (es[b + n div 64 := Some new])"
    using len step_nth es_len put(1) old_len by (auto simp: pages_ok_def b_def [symmetric] es_def)
  moreover have "rows_kept window cap layer dm (Suc n) rows (es[b + n div 64 := Some new])"
    unfolding rows_kept_def b_def [symmetric]
  proof (intro allI impI)
    fix t
    assume t: "t < Suc n"
    then have tc: "t div 64 < cap" using assms(3) div_le_mono [of t n 64] by simp
    show "if evicted window (Suc n) t then es[b + n div 64 := Some new] ! (b + t div 64) = None
          else \<exists>page. es[b + n div 64 := Some new] ! (b + t div 64) = Some page \<and> take dm (drop (t mod 64 * dm) page) = take dm (rows t)"
    proof (cases "t div 64 = n div 64")
      case same: True
      have keep: "\<not> evicted window (Suc n) t" by (rule evicted_Suc(2) [OF assms(4) same])
      show ?thesis
      proof (cases "t = n")
        case True
        then show ?thesis using keep step_nth [OF tc] put(2) row_len by simp
      next
        case False
        then have tn: "t < n" using t by simp
        have "\<not> evicted window n t" using keep evicted_Suc(1) [OF assms(4)] by blast
        then obtain page where page: "ps ! (b + t div 64) = Some page" "take dm (drop (t mod 64 * dm) page) = take dm (rows t)"
          using assms(2) tn unfolding rows_kept_def b_def [symmetric] by meson
        have "\<not> (window \<le> n \<and> t div 64 = (n - window) div 64)" using keep evicted_Suc(1) [OF assms(4)] by blast
        then have "old = page" using es_nth [OF tc] page(1) same by (auto simp: old_def)
        then have "take dm (drop (t mod 64 * dm) new) = take dm (rows t)"
          using put(3) [of "t mod 64 * dm" dm] slots_apart [OF same tn, of dm] page(2) by simp
        then show ?thesis using keep step_nth [OF tc] same by simp
      qed
    next
      case False
      then have tn: "t < n" using t by (metis less_antisym)
      have kept: "if evicted window n t then ps ! (b + t div 64) = None
          else \<exists>page. ps ! (b + t div 64) = Some page \<and> take dm (drop (t mod 64 * dm) page) = take dm (rows t)"
        using assms(2) tn unfolding rows_kept_def b_def [symmetric] by blast
      show ?thesis using kept False step_nth [OF tc] es_nth [OF tc] evicted_Suc(1) [OF assms(4), of n t] by (auto split: if_splits)
    qed
  qed
  ultimately show ?thesis unfolding run by blast
qed

text \<open>The keys decide which pages are made, so keys and values must be there together.\<close>

definition paired :: "'a option list \<Rightarrow> 'b option list \<Rightarrow> bool" where
  "paired ks vs \<longleftrightarrow> map Option.is_none ks = map Option.is_none vs"

lemma paired_nth: "paired ks vs \<Longrightarrow> i < length ks \<Longrightarrow> (ks ! i = None \<longleftrightarrow> vs ! i = None)"
  unfolding paired_def by (metis is_none_code(1) is_none_simps(2) length_map nth_map option.exhaust Option.is_none_def)

lemma paired_length: "paired ks vs \<Longrightarrow> length ks = length vs"
  unfolding paired_def by (metis length_map)

lemma paired_evict: "paired ks vs \<Longrightarrow> paired (kv_evict cap window layer pos ks) (kv_evict cap window layer pos vs)"
  by (simp add: paired_def kv_evict_def map_update)

lemma paired_put_page: "paired ks vs \<Longrightarrow> paired (ks[i := Some a]) (vs[i := Some b])"
  by (simp add: paired_def map_update)

text \<open>Storing positions \<open>0\<close> to \<open>n - 1\<close> of a layer, in order.\<close>

definition kv_fill :: "nat \<Rightarrow> u32 \<Rightarrow> (nat \<Rightarrow> flt list) \<Rightarrow> (nat \<Rightarrow> flt list) \<Rightarrow> nat \<Rightarrow> vg_modelgraph \<Rightarrow> vg_modelgraph" where
  "kv_fill layer dm ks vs n g = fold (\<lambda>p. kv_store layer p (Some (ks p)) (Some (vs p)) dm) [0..<n] g"

lemma kv_store_cfg [simp]:
  "mg_cfg (kv_store layer pos k v dm g) = mg_cfg g" "mg_kv_capacity (kv_store layer pos k v dm g) = mg_kv_capacity g"
  by (simp_all add: kv_store_def Let_def)

lemma kv_fill_cfg [simp]: "mg_cfg (kv_fill layer dm ks vs n g) = mg_cfg g" "mg_kv_capacity (kv_fill layer dm ks vs n g) = mg_kv_capacity g"
  by (induction n) (simp_all add: kv_fill_def)

definition kv_state :: "nat \<Rightarrow> u32 \<Rightarrow> (nat \<Rightarrow> flt list) \<Rightarrow> (nat \<Rightarrow> flt list) \<Rightarrow> nat \<Rightarrow> vg_modelgraph \<Rightarrow> bool" where
  "kv_state layer dm ks vs n g \<longleftrightarrow>
     (let cap = unat (mg_kv_capacity g); w = unat (mc_sliding_window (mg_cfg g))
      in paired (mg_kv_k g) (mg_kv_v g) \<and> pages_ok cap layer (unat dm) (mg_kv_k g) \<and> pages_ok cap layer (unat dm) (mg_kv_v g) \<and>
         rows_kept w cap layer (unat dm) n ks (mg_kv_k g) \<and> rows_kept w cap layer (unat dm) n vs (mg_kv_v g))"

lemma kv_store_state:
  assumes "kv_state layer dm ks vs n g" and "n < unat (mc_n_ctx (mg_cfg g))" and "n div 64 < unat (mg_kv_capacity g)"
    and "64 \<le> unat (mc_sliding_window (mg_cfg g))" and "unat dm \<le> length (ks n)" and "unat dm \<le> length (vs n)"
  shows "kv_state layer dm ks vs (Suc n) (kv_store layer n (Some (ks n)) (Some (vs n)) dm g)"
proof -
  define cap where "cap = unat (mg_kv_capacity g)"
  define w where "w = unat (mc_sliding_window (mg_cfg g))"
  define ek where "ek = kv_evict cap w layer n (mg_kv_k g)"
  define ev where "ev = kv_evict cap w layer n (mg_kv_v g)"
  define fresh where "fresh \<longleftrightarrow> ek ! (layer * cap + n div 64) = None"
  have st: "paired (mg_kv_k g) (mg_kv_v g)" "pages_ok cap layer (unat dm) (mg_kv_k g)" "pages_ok cap layer (unat dm) (mg_kv_v g)"
    "rows_kept w cap layer (unat dm) n ks (mg_kv_k g)" "rows_kept w cap layer (unat dm) n vs (mg_kv_v g)"
    using assms(1) by (simp_all add: kv_state_def cap_def w_def Let_def)
  have in_pages: "layer * cap + n div 64 < length ek" "n div 64 < cap" using st(2) assms(3) by (simp_all add: pages_ok_def ek_def cap_def)
  have pe: "paired ek ev" using paired_evict [OF st(1)] by (simp add: ek_def ev_def)
  have fv: "fresh \<longleftrightarrow> ev ! (layer * cap + n div 64) = None" using paired_nth [OF pe in_pages(1)] by (simp add: fresh_def)
  have w64: "64 \<le> w" using assms(4) by (simp add: w_def)
  have k: "mg_kv_k (kv_store layer n (Some (ks n)) (Some (vs n)) dm g) = kv_step w cap layer (unat dm) fresh n (ks n) (mg_kv_k g)"
   and v: "mg_kv_v (kv_store layer n (Some (ks n)) (Some (vs n)) dm g) = kv_step w cap layer (unat dm) fresh n (vs n) (mg_kv_v g)"
    using assms(2) in_pages(2)
    by (simp_all add: kv_store_def Let_def kv_step_def fresh_def cap_def [symmetric] w_def [symmetric] ek_def [symmetric] ev_def [symmetric])
  have lens: "layer * cap + cap \<le> length ek" "layer * cap + cap \<le> length ev" using st(2,3) by (simp_all add: pages_ok_def ek_def ev_def)
  have "paired (kv_step w cap layer (unat dm) fresh n (ks n) (mg_kv_k g)) (kv_step w cap layer (unat dm) fresh n (vs n) (mg_kv_v g))"
    unfolding kv_step_def ek_def [symmetric] ev_def [symmetric]
    by (simp only: kv_put_page [OF lens(1) in_pages(2) fresh_def] kv_put_page [OF lens(2) in_pages(2) fv] paired_put_page [OF pe])
  with kv_step_kept [OF st(2,4) in_pages(2) w64 assms(5) fresh_def [unfolded ek_def]]
    kv_step_kept [OF st(3,5) in_pages(2) w64 assms(6) fv [unfolded ev_def]]
  show ?thesis by (simp add: kv_state_def Let_def k v cap_def [symmetric] w_def [symmetric])
qed

lemma kv_fill_state:
  assumes "paired (mg_kv_k g) (mg_kv_v g)" and "pages_ok (unat (mg_kv_capacity g)) layer (unat dm) (mg_kv_k g)"
    and "pages_ok (unat (mg_kv_capacity g)) layer (unat dm) (mg_kv_v g)" and "64 \<le> unat (mc_sliding_window (mg_cfg g))"
    and "\<forall>p < n. unat dm \<le> length (ks p) \<and> unat dm \<le> length (vs p)"
    and "n \<le> unat (mc_n_ctx (mg_cfg g))" and "n \<le> 64 * unat (mg_kv_capacity g)"
  shows "kv_state layer dm ks vs n (kv_fill layer dm ks vs n g)"
  using assms(5-7)
proof (induction n)
  case 0
  then show ?case using assms(1-3) by (simp add: kv_fill_def kv_state_def rows_kept_def Let_def)
next
  case (Suc n)
  have run: "kv_fill layer dm ks vs (Suc n) g = kv_store layer n (Some (ks n)) (Some (vs n)) dm (kv_fill layer dm ks vs n g)"
    by (simp add: kv_fill_def)
  show ?case unfolding run
    by (rule kv_store_state) (use Suc assms(4) in \<open>simp_all add: less_mult_imp_div_less mult.commute\<close>)
qed

text \<open>C8: the attention cache is a window of pages. After the positions \<open>0\<close> to \<open>n - 1\<close> of a layer have been stored in order, a
  position reads back, keys and values alike, as exactly the row that was stored for it, unless its page
  of 64 positions also holds one that the window had left behind; then the page is gone. At least the last
  \<open>window - 63\<close> positions are there.\<close>

theorem kv_window:
  assumes "paired (mg_kv_k g) (mg_kv_v g)" and "pages_ok (unat (mg_kv_capacity g)) layer (unat dm) (mg_kv_k g)"
    and "pages_ok (unat (mg_kv_capacity g)) layer (unat dm) (mg_kv_v g)" and "64 \<le> unat (mc_sliding_window (mg_cfg g))"
    and "\<forall>p < n. unat dm \<le> length (ks p) \<and> unat dm \<le> length (vs p)"
    and "n \<le> unat (mc_n_ctx (mg_cfg g))" and "n \<le> 64 * unat (mg_kv_capacity g)" and "t < n"
  shows "let g' = kv_fill layer dm ks vs n g; window = unat (mc_sliding_window (mg_cfg g));
             row = (\<lambda>pages. map_option (take (unat dm)) (kv_row pages (unat (mg_kv_capacity g)) layer (unat dm) 0 t))
         in row (mg_kv_k g') = (if evicted window n t then None else Some (take (unat dm) (ks t))) \<and>
            row (mg_kv_v g') = (if evicted window n t then None else Some (take (unat dm) (vs t))) \<and>
            (n + 63 \<le> t + window \<longrightarrow> \<not> evicted window n t)"
proof -
  define w where "w = unat (mc_sliding_window (mg_cfg g))"
  have st: "kv_state layer dm ks vs n (kv_fill layer dm ks vs n g)" by (rule kv_fill_state [OF assms(1-7)])
  have row: "map_option (take (unat dm)) (kv_row ps (unat (mg_kv_capacity g)) layer (unat dm) 0 t) =
      (if evicted w n t then None else Some (take (unat dm) (rs t)))"
    if "rows_kept w (unat (mg_kv_capacity g)) layer (unat dm) n rs ps" for rs ps
    using that assms(8) unfolding rows_kept_def kv_row_def by (metis add_0_right option.map(1) option.map(2))
  have "\<not> evicted w n t" if "n + 63 \<le> t + w"
  proof
    assume e: "evicted w n t"
    then have "w < n" by (simp add: evicted_def)
    then have "n - 1 - w + 64 \<le> t" using that by simp
    then have "(n - 1 - w + 64) div 64 \<le> t div 64" by (rule div_le_mono)
    then show False using e by (simp add: evicted_def)
  qed
  then show ?thesis using st row by (simp add: kv_state_def Let_def w_def)
qed

section \<open>Attention\<close>

text \<open>Grouped-query attention as it is written on paper: for element \<open>d\<close> of head \<open>h\<close>, the softmax of the scores of the
  query against the keys of its group, and the weighted sum of the values.\<close>

definition fdot :: "flt list \<Rightarrow> flt list \<Rightarrow> flt" where
  "fdot a b = foldl (\<lambda>acc (x, y). mac acc x y) f_zero (zip a b)"

definition capped :: "libm \<Rightarrow> flt \<Rightarrow> flt \<Rightarrow> flt" where
  "capped m cap s = (if f_less f_zero cap then fmul cap (m_tanhf m (fdiv s cap)) else s)"

definition attention_ref ::
  "libm \<Rightarrow> vg_modelconfig \<Rightarrow> nat \<Rightarrow> flt list \<Rightarrow> nat \<Rightarrow> (nat \<Rightarrow> flt list) \<Rightarrow> (nat \<Rightarrow> flt list) \<Rightarrow> nat \<Rightarrow> nat \<Rightarrow> flt" where
  "attention_ref m cfg pos q hd_dim ks vs h d =
     (let group = h div (unat (mc_n_head cfg) div unat (mc_n_head_kv cfg));
          part = (\<lambda>i row. take hd_dim (drop (i * hd_dim) row));
          scores = map (\<lambda>t. capped m (mc_attn_logit_softcap cfg)
                     (fmul (fdot (part h q) (part group (ks t))) (fdiv f_one (m_sqrtf m (fint (int hd_dim)))))) [0..<Suc pos];
          ws = att_weights m scores
      in foldl (\<lambda>acc t. mac acc (ws ! t) (part group (vs t) ! d)) f_zero [0..<Suc pos])"

lemma fdot_index:
  assumes "n \<le> length a" and "n \<le> length b"
  shows "fdot (take n a) (take n b) = foldl (\<lambda>acc d. mac acc (a ! d) (b ! d)) f_zero [0..<n]"
proof -
  have "zip (take n a) (take n b) = map (\<lambda>d. (a ! d, b ! d)) [0..<n]"
    using assms by (intro nth_equalityI) auto
  then show ?thesis by (simp add: fdot_def foldl_map)
qed

lemma add_row_nth:
  assumes "base + n \<le> length out"
  shows "length (add_row base n w row out) = length out"
    and "add_row base n w row out ! i = (case row of
      Some v \<Rightarrow> if base \<le> i \<and> i < base + n then mac (out ! i) w (v ! (i - base)) else out ! i | None \<Rightarrow> out ! i)"
proof -
  have "length (foldl (\<lambda>out d. out[base + d := mac (out ! (base + d)) w (v ! d)]) out [0..<k]) = length out \<and>
     (foldl (\<lambda>out d. out[base + d := mac (out ! (base + d)) w (v ! d)]) out [0..<k]) ! i =
       (if base \<le> i \<and> i < base + k then mac (out ! i) w (v ! (i - base)) else out ! i)" if "k \<le> n" for k v
    using that
  proof (induction k)
    case (Suc k)
    then show ?case using assms by (auto simp: nth_list_update less_Suc_eq)
  qed auto
  then show "length (add_row base n w row out) = length out"
    "add_row base n w row out ! i = (case row of
      Some v \<Rightarrow> if base \<le> i \<and> i < base + n then mac (out ! i) w (v ! (i - base)) else out ! i | None \<Rightarrow> out ! i)"
    by (auto simp: add_row_def split: option.split)
qed

text \<open>The value rows of a head, added one after the other, are sums over the positions in each place.\<close>

definition place_sum :: "flt list \<Rightarrow> (nat \<Rightarrow> flt list option) \<Rightarrow> nat \<Rightarrow> nat list \<Rightarrow> flt \<Rightarrow> flt" where
  "place_sum ws row d ts x = foldl (\<lambda>acc t. case row t of None \<Rightarrow> acc | Some v \<Rightarrow> mac acc (ws ! t) (v ! d)) x ts"

lemma add_rows_nth:
  assumes "base + n \<le> length out"
  shows "length (foldl (\<lambda>out t. add_row base n (ws ! t) (row t) out) out ts) = length out"
    and "foldl (\<lambda>out t. add_row base n (ws ! t) (row t) out) out ts ! i =
      (if base \<le> i \<and> i < base + n then place_sum ws row (i - base) ts (out ! i) else out ! i)"
proof -
  have "length (foldl (\<lambda>out t. add_row base n (ws ! t) (row t) out) out ts) = length out \<and>
    foldl (\<lambda>out t. add_row base n (ws ! t) (row t) out) out ts ! i =
      (if base \<le> i \<and> i < base + n then place_sum ws row (i - base) ts (out ! i) else out ! i)"
    using assms
  proof (induction ts arbitrary: out)
    case (Cons t ts)
    note s = add_row_nth [OF Cons.prems, of "ws ! t" "row t"]
    show ?case using Cons.IH [of "add_row base n (ws ! t) (row t) out"] Cons.prems s
      by (auto simp: place_sum_def split: option.splits)
  qed (simp add: place_sum_def)
  then show "length (foldl (\<lambda>out t. add_row base n (ws ! t) (row t) out) out ts) = length out"
    "foldl (\<lambda>out t. add_row base n (ws ! t) (row t) out) out ts ! i =
      (if base \<le> i \<and> i < base + n then place_sum ws row (i - base) ts (out ! i) else out ! i)" by blast+
qed

text \<open>Heads write to separate places.\<close>

lemma heads_nth:
  assumes "\<And>h out. (h + 1) * n \<le> length out \<Longrightarrow> length (F h out) = length out"
    and "\<And>h out i. (h + 1) * n \<le> length out \<Longrightarrow> F h out ! i = (if h * n \<le> i \<and> i < h * n + n then f h (i - h * n) (out ! i) else out ! i)"
    and "H * n \<le> length out" and "k \<le> H" and "d < n"
  shows "length (foldl (\<lambda>out h. F h out) out [0..<k]) = length out \<and>
    (\<forall>h < H. foldl (\<lambda>out h. F h out) out [0..<k] ! (h * n + d) = (if h < k then f h d (out ! (h * n + d)) else out ! (h * n + d)))"
  using assms(4)
proof (induction k)
  case (Suc k)
  define o' where "o' = foldl (\<lambda>out h. F h out) out [0..<k]"
  have ih: "length o' = length out" "\<forall>h < H. o' ! (h * n + d) = (if h < k then f h d (out ! (h * n + d)) else out ! (h * n + d))"
    using Suc by (simp_all add: o'_def)
  have room: "(k + 1) * n \<le> length o'" using mult_le_mono1 [OF Suc.prems, of n] assms(3) ih(1) by simp
  have blk: "k * n \<le> h * n + d \<and> h * n + d < k * n + n \<longleftrightarrow> h = k" for h
  proof
    assume a: "k * n \<le> h * n + d \<and> h * n + d < k * n + n"
    have "(h * n + d) div n = h" using assms(5) by simp
    moreover have "(h * n + d) div n = k" using a by (intro div_nat_eqI) (auto simp: algebra_simps)
    ultimately show "h = k" by simp
  qed (use assms(5) in simp)
  have "F k o' ! (h * n + d) = (if h = k then f k d (o' ! (h * n + d)) else o' ! (h * n + d))" for h
    using assms(2) [OF room, of "h * n + d"] blk [of h] by simp
  then show ?case using ih assms(1) [OF room] by (auto simp: o'_def [symmetric] less_Suc_eq)
qed simp

text \<open>A row that is there, cut to the part of a head.\<close>

lemma kv_row_part:
  assumes "ps ! (layer * cap + t div 64) = Some page" and "take dm (drop (t mod 64 * dm) page) = take dm row"
    and "dm \<le> length row" and "off + n \<le> dm"
  shows "\<exists>v. kv_row ps cap layer dm off t = Some v \<and> n \<le> length v \<and> take n v = take n (drop off row)"
proof -
  have len: "dm \<le> length page - t mod 64 * dm" using assms(2,3) by (metis length_drop length_take min.absorb2 min.cobounded1)
  have "take n (drop off (take dm (drop (t mod 64 * dm) page))) = take n (drop off (take dm row))" by (simp add: assms(2))
  then have "take n (drop (off + t mod 64 * dm) page) = take n (drop off row)" using assms(4) by (simp add: drop_take min_def split: if_splits)
  then show ?thesis using assms(1,4) len by (simp add: kv_row_def add.commute)
qed

lemma head_group:
  assumes "(HKV :: nat) dvd H" and "h < H"
  shows "(h div (H div HKV)) < HKV" and "H div HKV \<noteq> 0"
proof -
  obtain k where k: "H = HKV * k" using assms(1) by blast
  then have "0 < k" "0 < HKV" using assms(2) by (auto intro: Nat.gr0I)
  then show "h div (H div HKV) < HKV" "H div HKV \<noteq> 0" using k assms(2) by (simp_all add: less_mult_imp_div_less)
qed

lemma part_inside: "i < (m :: nat) \<Longrightarrow> i * n + n \<le> m * n"
  by (metis Suc_leI add.commute mult_Suc mult_le_mono1)

lemma attend_rows:
  assumes "HKV = unat (mc_n_head_kv (mg_cfg g))" and "HKV dvd unat (mc_n_head (mg_cfg g))" and "dm = HKV * hn"
    and "unat (mc_n_head (mg_cfg g)) * hn \<le> length q"
    and "\<forall>t \<le> pos. dm \<le> length (ks t) \<and> dm \<le> length (vs t)"
    and "\<forall>t \<le> pos. \<exists>page. mg_kv_k g ! (layer * unat (mg_kv_capacity g) + t div 64) = Some page \<and> take dm (drop (t mod 64 * dm) page) = take dm (ks t)"
    and "\<forall>t \<le> pos. \<exists>page. mg_kv_v g ! (layer * unat (mg_kv_capacity g) + t div 64) = Some page \<and> take dm (drop (t mod 64 * dm) page) = take dm (vs t)"
    and "h < unat (mc_n_head (mg_cfg g))" and "d < hn"
  shows "attend en g layer pos q hn dm ! (h * hn + d) = attention_ref (en_libm en) (mg_cfg g) pos q hn ks vs h d"
proof -
  define H where "H = unat (mc_n_head (mg_cfg g))"
  define cap where "cap = unat (mg_kv_capacity g)"
  define gk where "gk = H div HKV"
  define scale where "scale = fdiv f_one (m_sqrtf (en_libm en) (fint (int hn)))"
  define score where "score = (\<lambda>h t. att_score (en_libm en) (mc_attn_logit_softcap (mg_cfg g)) scale hn (drop (h * hn) q)
      (kv_row (mg_kv_k g) cap layer dm (h div gk * hn) t))"
  define ws where "ws = (\<lambda>h. att_weights (en_libm en) (map (score h) [0..<Suc pos]))"
  define vrow where "vrow = (\<lambda>h t. kv_row (mg_kv_v g) cap layer dm (h div gk * hn) t)"
  have hH: "h < H" using assms(8) by (simp add: H_def)
  have gk: "gk \<noteq> 0" and grp: "h div gk < HKV" using head_group [of HKV H h] assms(2) hH by (simp_all add: gk_def H_def)
  have HKV: "HKV \<noteq> 0" using grp by simp
  have kvh: "dm div HKV = hn" using assms(3) HKV by simp
  have fit: "h div gk * hn + hn \<le> dm" using part_inside [OF grp] assms(3) by simp
  have out: "attend en g layer pos q hn dm =
      foldl (\<lambda>out h. foldl (\<lambda>out t. add_row (h * hn) hn (ws h ! t) (vrow h t) out) out [0..<Suc pos]) (replicate (H * hn) f_zero) [0..<H]"
    using HKV gk by (simp add: attend_def Let_def kvh assms(1) [symmetric] H_def [symmetric] gk_def [symmetric] cap_def [symmetric]
        ws_def score_def vrow_def scale_def del: upt_Suc)
  have "attend en g layer pos q hn dm ! (h * hn + d) = place_sum (ws h) (vrow h) d [0..<Suc pos] f_zero"
  proof -
    have fl: "length (foldl (\<lambda>out t. add_row (h * hn) hn (ws h ! t) (vrow h t) out) out [0..<Suc pos]) = length out"
      if "(h + 1) * hn \<le> length out" for h out
      using that by (intro add_rows_nth(1)) simp
    have fn: "foldl (\<lambda>out t. add_row (h * hn) hn (ws h ! t) (vrow h t) out) out [0..<Suc pos] ! i =
        (if h * hn \<le> i \<and> i < h * hn + hn then place_sum (ws h) (vrow h) (i - h * hn) [0..<Suc pos] (out ! i) else out ! i)"
      if "(h + 1) * hn \<le> length out" for h out i
      using that by (intro add_rows_nth(2)) simp
    have "h * hn + d < H * hn" using part_inside [OF hH, of hn] assms(9) by simp
    then show ?thesis
      using heads_nth [where F = "\<lambda>h out. foldl (\<lambda>out t. add_row (h * hn) hn (ws h ! t) (vrow h t) out) out [0..<Suc pos]"
        and f = "\<lambda>h d. place_sum (ws h) (vrow h) d [0..<Suc pos]" and n = hn and H = H and k = H and d = d
        and out = "replicate (H * hn) f_zero", OF fl fn] hH assms(9) unfolding out by simp
  qed
  also have "\<dots> = foldl (\<lambda>acc t. mac acc (ws h ! t) (take hn (drop (h div gk * hn) (vs t)) ! d)) f_zero [0..<Suc pos]"
    unfolding place_sum_def
  proof (rule foldl_cong [OF refl refl])
    fix t acc
    assume "t \<in> set [0..<Suc pos]"
    then have t: "t \<le> pos" by auto
    then obtain page where "mg_kv_v g ! (layer * cap + t div 64) = Some page" "take dm (drop (t mod 64 * dm) page) = take dm (vs t)"
      using assms(7) unfolding cap_def by blast
    from kv_row_part [OF this _ fit] obtain v where v: "vrow h t = Some v" "take hn v = take hn (drop (h div gk * hn) (vs t))"
      using assms(5) t unfolding vrow_def by blast
    then have "v ! d = take hn (drop (h div gk * hn) (vs t)) ! d" using assms(9) by (metis nth_take)
    with v show "(case vrow h t of None \<Rightarrow> acc | Some v \<Rightarrow> mac acc (ws h ! t) (v ! d)) =
        mac acc (ws h ! t) (take hn (drop (h div gk * hn) (vs t)) ! d)" by simp
  qed
  also have "ws h = att_weights (en_libm en) (map (\<lambda>t. capped (en_libm en) (mc_attn_logit_softcap (mg_cfg g))
      (fmul (fdot (take hn (drop (h * hn) q)) (take hn (drop (h div gk * hn) (ks t)))) scale)) [0..<Suc pos])"
    unfolding ws_def
  proof (intro arg_cong [where f = "att_weights (en_libm en)"] map_cong refl)
    fix t
    assume "t \<in> set [0..<Suc pos]"
    then have t: "t \<le> pos" by auto
    then obtain page where "mg_kv_k g ! (layer * cap + t div 64) = Some page" "take dm (drop (t mod 64 * dm) page) = take dm (ks t)"
      using assms(6) unfolding cap_def by blast
    from kv_row_part [OF this _ fit] obtain v where v: "kv_row (mg_kv_k g) cap layer dm (h div gk * hn) t = Some v" "hn \<le> length v"
        "take hn v = take hn (drop (h div gk * hn) (ks t))"
      using assms(5) t by blast
    have "hn \<le> length (drop (h * hn) q)" using part_inside [OF hH, of hn] assms(4) by (simp add: H_def)
    then have "fdot (take hn (drop (h * hn) q)) (take hn v) = foldl (\<lambda>acc d. mac acc (drop (h * hn) q ! d) (v ! d)) f_zero [0..<hn]"
      using v(2) by (rule fdot_index)
    then show "score h t = capped (en_libm en) (mc_attn_logit_softcap (mg_cfg g))
        (fmul (fdot (take hn (drop (h * hn) q)) (take hn (drop (h div gk * hn) (ks t)))) scale)"
      using v by (simp add: score_def att_score_def capped_def Let_def)
  qed
  finally show ?thesis
    by (simp add: attention_ref_def Let_def gk_def H_def [symmetric] assms(1) [symmetric] scale_def del: upt_Suc)
qed

text \<open>C2: as long as the window has not been reached, attention over the pages is grouped-query attention over the rows that
  were stored: every element of every head is the weighted sum of the values at all positions so far, with the
  softmax of the scaled and capped products of the query with the keys of the head's group as weights.\<close>

theorem attention_reference:
  assumes "paired (mg_kv_k g) (mg_kv_v g)" and "pages_ok (unat (mg_kv_capacity g)) layer (unat dm) (mg_kv_k g)"
    and "pages_ok (unat (mg_kv_capacity g)) layer (unat dm) (mg_kv_v g)" and "64 \<le> unat (mc_sliding_window (mg_cfg g))"
    and "\<forall>p \<le> pos. unat dm \<le> length (ks p) \<and> unat dm \<le> length (vs p)"
    and "pos < unat (mc_n_ctx (mg_cfg g))" and "pos < 64 * unat (mg_kv_capacity g)" and "pos < unat (mc_sliding_window (mg_cfg g))"
    and "unat (mc_n_head_kv (mg_cfg g)) dvd unat (mc_n_head (mg_cfg g))" and "unat dm = unat (mc_n_head_kv (mg_cfg g)) * hn"
    and "unat (mc_n_head (mg_cfg g)) * hn \<le> length q" and "h < unat (mc_n_head (mg_cfg g))" and "d < hn"
  shows "attend en (kv_fill layer dm ks vs (Suc pos) g) layer pos q hn (unat dm) ! (h * hn + d) =
    attention_ref (en_libm en) (mg_cfg g) pos q hn ks vs h d"
proof -
  have st: "kv_state layer dm ks vs (Suc pos) (kv_fill layer dm ks vs (Suc pos) g)"
    by (rule kv_fill_state [OF assms(1-4)]) (use assms(5-7) in auto)
  have here: "\<not> evicted (unat (mc_sliding_window (mg_cfg g))) (Suc pos) t" for t using assms(8) by (simp add: evicted_def)
  have r: "\<forall>t \<le> pos. \<exists>page. ps ! (layer * unat (mg_kv_capacity g) + t div 64) = Some page \<and>
      take (unat dm) (drop (t mod 64 * unat dm) page) = take (unat dm) (rs t)"
    if "rows_kept (unat (mc_sliding_window (mg_cfg g))) (unat (mg_kv_capacity g)) layer (unat dm) (Suc pos) rs ps" for rs ps
    using that here by (simp add: rows_kept_def less_Suc_eq_le)
  show ?thesis
    using attend_rows [of "unat (mc_n_head_kv (mg_cfg g))" "kv_fill layer dm ks vs (Suc pos) g" "unat dm" hn q pos ks vs layer h d en]
      st r assms by (simp add: kv_state_def Let_def)
qed

end
