(* ===== verification/Gguf_Props.thy ===== *)
theory Gguf_Props
  imports Quant_Props Gguf
begin

text \<open>
  What the GGUF reader promises: its name tables never fill up and find the first entry of a
  name; the parsed sizes are exact; every tensor of an opened file lies in the file unless the
  data section starts past the end of the file; reads return the bytes of the tensor on each of the
  three paths; and the cases where the parser leaves its buffers or reads through NULL.
\<close>

section \<open>Name tables\<close>

interpretation ht: probing he_occupied he_key "\<lambda>k. unat (fnv1a k)" .

abbreviation occupied :: "vg_hash_entry list \<Rightarrow> vg_hash_entry list" where
  "occupied t \<equiv> filter he_occupied t"

text \<open>A good table has its entries where lookups find them, under distinct names, and at least 64 slots.\<close>

definition table_ok :: "vg_hash_entry list \<Rightarrow> bool" where
  "table_ok t \<longleftrightarrow> ht.inv t \<and> distinct (map he_key (occupied t)) \<and> 64 \<le> length t"

lemma hash_find_probe:
  "t \<noteq> [] \<Longrightarrow> hash_find t k =
     probe (\<lambda>s. \<not> he_occupied s \<or> he_key s = k) t (unat (fnv1a k) mod length t) (length t)"
  by (simp add: hash_find_def)

lemma hole: "length (filter P t) < length t \<Longrightarrow> \<exists>i < length t. \<not> P (t ! i)"
  by (metis filter_True in_set_conv_nth less_irrefl)

lemma length_filter_upd:
  assumes "i < length t" and "\<not> P (t ! i)" and "P s"
  shows "length (filter P (t[i := s])) = Suc (length (filter P t))"
proof -
  have "t = take i t @ t ! i # drop (Suc i) t" using assms(1) by (rule id_take_nth_drop)
  then have "length (filter P t) = length (filter P (take i t)) + length (filter P (drop (Suc i) t))"
    using assms(2) by (metis (no_types, lifting) filter.simps(2) filter_append length_append)
  then show ?thesis using assms by (simp add: upd_conv_take_nth_drop)
qed

lemma set_occupied_keys: "k \<in> he_key ` set (occupied t) \<longleftrightarrow> (\<exists>j < length t. he_occupied (t ! j) \<and> he_key (t ! j) = k)"
  by (auto simp: in_set_conv_nth)

lemma distinct_filter_upd:
  assumes "i < length t" and "\<not> he_occupied (t ! i)" and "he_key s \<notin> he_key ` set (occupied t)"
    and "distinct (map he_key (occupied t))" and "he_occupied s"
  shows "distinct (map he_key (occupied (t[i := s])))"
proof -
  have t: "t = take i t @ t ! i # drop (Suc i) t" using assms(1) by (rule id_take_nth_drop)
  then have "occupied t = occupied (take i t) @ occupied (drop (Suc i) t)"
    using assms(2) by (metis (no_types, lifting) filter.simps(2) filter_append)
  with assms show ?thesis by (auto simp: upd_conv_take_nth_drop)
qed

text \<open>One more entry: a table with a hole takes a name it does not have.\<close>

lemma table_put:
  assumes inv: "ht.inv t" and dist: "distinct (map he_key (occupied t))"
    and room: "length (occupied t) < length t" and s: "he_occupied s"
  shows "\<exists>i. hash_find t (he_key s) = Some i \<and> i < length t \<and>
    (if he_occupied (t ! i) then ht.lookup t (he_key s) = Some (t ! i)
     else ht.lookup t (he_key s) = None \<and> ht.inv (t[i := s]) \<and> distinct (map he_key (occupied (t[i := s])))
       \<and> length (occupied (t[i := s])) = Suc (length (occupied t))
       \<and> (\<forall>k. ht.lookup (t[i := s]) k = (if k = he_key s then Some s else ht.lookup t k)))"
proof -
  have ne: "t \<noteq> []" using room by auto
  obtain h where h: "h < length t" "\<not> he_occupied (t ! h)" using hole [OF room] by auto
  obtain i where i: "hash_find t (he_key s) = Some i" "i < length t"
    and c: "if he_occupied (t ! i) then he_key (t ! i) = he_key s \<and> ht.lookup t (he_key s) = Some (t ! i)
        else ht.lookup t (he_key s) = None \<and> (\<exists>d. i = ht.path t (he_key s) d \<and> (\<forall>e < d. he_occupied (t ! ht.path t (he_key s) e)))"
    using ht.probe_room [OF h, of "he_key s"] unfolding hash_find_probe [OF ne, symmetric] by blast
  show ?thesis
  proof (cases "he_occupied (t ! i)")
    case False
    then obtain d where d: "ht.lookup t (he_key s) = None" "i = ht.path t (he_key s) d"
      "\<forall>e < d. he_occupied (t ! ht.path t (he_key s) e)"
      using c by auto
    have "he_key s \<notin> he_key ` set (occupied t)"
      using d(1) ht.lookup_None_iff [OF inv ne] unfolding set_occupied_keys by blast
    with i d False s show ?thesis
      using ht.update [OF inv i(2) False s d(2,3)] distinct_filter_upd [OF i(2) False _ dist s]
        length_filter_upd [OF i(2), of he_occupied s] by auto
  qed (use i c in auto)
qed

lemma lookup_find:
  assumes "ht.inv t" and "t \<noteq> []" and "distinct (map he_key (occupied t))"
  shows "ht.lookup t k = List.find (\<lambda>e. he_key e = k) (occupied t)"
proof (cases "ht.lookup t k")
  case None
  then have "\<forall>e \<in> set (occupied t). he_key e \<noteq> k"
    using ht.lookup_None_iff [OF assms(1,2)] by (auto simp: in_set_conv_nth)
  then have "List.find (\<lambda>e. he_key e = k) (occupied t) = None" by (simp add: find_None_iff)
  with None show ?thesis by simp
next
  case (Some s)
  then obtain d where "t ! ht.path t k d = s" "he_occupied s" "he_key s = k"
    using ht.lookup_SomeD [OF _ assms(2)] by blast
  moreover have "ht.path t k d < length t" by (rule ht.path_less [OF assms(2)])
  ultimately have "s \<in> set (occupied t)" "he_key s = k" by auto
  then show ?thesis using Some find_mapI [OF assms(3), of s] by simp
qed

lemma rehash_spec:
  assumes "ht.inv nt" and "distinct (map he_key (occupied nt))"
    and "distinct (map he_key (occupied es))" and "he_key ` set (occupied nt) \<inter> he_key ` set (occupied es) = {}"
    and "length (occupied nt) + length (occupied es) < length nt"
  shows "\<exists>nt'. rehash es nt = Some nt' \<and> ht.inv nt' \<and> distinct (map he_key (occupied nt')) \<and> length nt' = length nt
    \<and> length (occupied nt') = length (occupied nt) + length (occupied es)
    \<and> (\<forall>k. ht.lookup nt' k = (case List.find (\<lambda>e. he_key e = k) (occupied es) of Some e \<Rightarrow> Some e | None \<Rightarrow> ht.lookup nt k))"
  using assms
proof (induction es arbitrary: nt)
  case (Cons e es)
  show ?case
  proof (cases "he_occupied e")
    case False
    then show ?thesis using Cons by (simp add: rehash_one_def)
  next
    case True
    have ne: "nt \<noteq> []" using Cons.prems(5) by auto
    obtain i where i: "hash_find nt (he_key e) = Some i" "i < length nt"
      and c: "if he_occupied (nt ! i) then ht.lookup nt (he_key e) = Some (nt ! i)
     else ht.lookup nt (he_key e) = None \<and> ht.inv (nt[i := e]) \<and> distinct (map he_key (occupied (nt[i := e])))
       \<and> length (occupied (nt[i := e])) = Suc (length (occupied nt))
       \<and> (\<forall>k. ht.lookup (nt[i := e]) k = (if k = he_key e then Some e else ht.lookup nt k))"
      using table_put [OF Cons.prems(1,2) _ True] Cons.prems(5) True by auto
    have nk: "he_key e \<notin> he_key ` set (occupied nt)" using Cons.prems(4) True by auto
    then have none: "ht.lookup nt (he_key e) = None"
      using ht.lookup_None_iff [OF Cons.prems(1) ne] unfolding set_occupied_keys by blast
    with c have ne': "\<not> he_occupied (nt ! i)" by (auto split: if_splits)
    with c have c': "ht.inv (nt[i := e])" "distinct (map he_key (occupied (nt[i := e])))"
      "length (occupied (nt[i := e])) = Suc (length (occupied nt))"
      "\<And>k. ht.lookup (nt[i := e]) k = (if k = he_key e then Some e else ht.lookup nt k)" by auto
    have ks: "he_key ` set (occupied (nt[i := e])) \<subseteq> insert (he_key e) (he_key ` set (occupied nt))"
      using set_update_subset_insert [of nt i e] by auto
    obtain nt' where nt': "rehash es (nt[i := e]) = Some nt' \<and> ht.inv nt' \<and> distinct (map he_key (occupied nt')) \<and> length nt' = length (nt[i := e])
      \<and> length (occupied nt') = length (occupied (nt[i := e])) + length (occupied es)
      \<and> (\<forall>k. ht.lookup nt' k = (case List.find (\<lambda>e. he_key e = k) (occupied es) of Some e \<Rightarrow> Some e | None \<Rightarrow> ht.lookup (nt[i := e]) k))"
    proof -
      have "he_key ` set (occupied (nt[i := e])) \<inter> he_key ` set (occupied es) = {}"
      proof -
        have "he_key ` set (occupied (nt[i := e])) \<inter> he_key ` set (occupied es)
            \<subseteq> insert (he_key e) (he_key ` set (occupied nt)) \<inter> he_key ` set (occupied es)"
          using ks by blast
        also have "\<dots> = {}" using Cons.prems(3,4) True by auto
        finally show ?thesis by simp
      qed
      with Cons.IH [OF c'(1,2)] Cons.prems True c'(3) that show ?thesis by auto
    qed
    have fe: "List.find (\<lambda>e'. he_key e' = he_key e) (occupied es) = None"
    proof -
      have "he_key e \<notin> he_key ` set (occupied es)" using Cons.prems(3) True by simp
      then show ?thesis by (metis (mono_tags) find_None_iff imageI)
    qed
    have "ht.lookup nt' k = (case List.find (\<lambda>e. he_key e = k) (occupied (e # es)) of Some e \<Rightarrow> Some e | None \<Rightarrow> ht.lookup nt k)" for k
      using nt' fe True by (cases "he_key e = k") (auto simp: c'(4) split: option.split)
    then show ?thesis using True i nt' c'(3) by (auto simp: rehash_one_def)
  qed
qed (auto)


lemma inv_replicate: "ht.inv (replicate n empty_entry)"
  by (rule ht.inv_empty) (simp add: empty_entry_def)

lemma occupied_replicate [simp]: "occupied (replicate n empty_entry) = []"
  by (simp add: empty_entry_def)

lemma lookup_replicate: "0 < n \<Longrightarrow> ht.lookup (replicate n empty_entry) k = None"
  by (simp add: lookup_find inv_replicate)

text \<open>Growing keeps every entry and leaves a hole.\<close>

lemma hash_grow_spec:
  assumes "table_ok t"
  shows "\<exists>t'. hash_grow t = Some t' \<and> table_ok t' \<and> length (occupied t') < length t'
    \<and> (\<forall>k. ht.lookup t' k = ht.lookup t k)"
proof (cases "length t * 3 div 4 \<le> length (occupied t)")
  case False
  then have "length (occupied t) < length t" by linarith
  with assms False show ?thesis by (auto simp: hash_grow_def table_ok_def)
next
  case True
  let ?nt = "replicate (length t * 2) empty_entry"
  have t: "ht.inv t" "distinct (map he_key (occupied t))" "64 \<le> length t" "t \<noteq> []" and l: "0 < length t"
    using assms by (auto simp: table_ok_def)
  have c: "length (occupied t) \<le> length t" by simp
  then have room: "length (occupied t) < length t * 2" using l by linarith
  obtain nt' where nt': "rehash t ?nt = Some nt' \<and> ht.inv nt' \<and> distinct (map he_key (occupied nt')) \<and> length nt' = length ?nt
    \<and> length (occupied nt') = length (occupied ?nt) + length (occupied t)
    \<and> (\<forall>k. ht.lookup nt' k = (case List.find (\<lambda>e. he_key e = k) (occupied t) of Some e \<Rightarrow> Some e | None \<Rightarrow> ht.lookup ?nt k))"
    using rehash_spec [of ?nt t, OF inv_replicate] room t(2) by auto
  have "ht.lookup t k = List.find (\<lambda>e. he_key e = k) (occupied t)" for k
    by (rule lookup_find [OF t(1,4,2)])
  moreover have "ht.lookup ?nt k = None" for k using l by (intro lookup_replicate) simp
  ultimately have "ht.lookup nt' k = ht.lookup t k" for k
    using nt' by (simp split: option.split)
  then show ?thesis
    using True t room nt' by (auto simp: hash_grow_def table_ok_def)
qed

definition table_find :: "vg_hash_entry list \<Rightarrow> bytes \<Rightarrow> nat option" where
  "table_find t k = (case hash_find t k of
     Some i \<Rightarrow> if he_occupied (t ! i) then Some (unat (he_index (t ! i))) else None | None \<Rightarrow> None)"

lemma table_find_lookup: "t \<noteq> [] \<Longrightarrow> table_find t k = map_option (\<lambda>e. unat (he_index e)) (ht.lookup t k)"
  by (simp add: table_find_def ht.lookup_def hash_find_probe split: option.split)

lemma hash_insert_spec:
  assumes "table_ok t" and "n < 2 ^ 32"
  shows "\<exists>ok t'. hash_insert t k (of_nat n) = Some (ok, t') \<and> table_ok t' \<and>
    (\<forall>k'. table_find t' k' = (if k' = k \<and> table_find t k = None then Some n else table_find t k'))"
proof -
  obtain u where u: "hash_grow t = Some u" "table_ok u" "length (occupied u) < length u"
    "\<And>k. ht.lookup u k = ht.lookup t k"
    using hash_grow_spec [OF assms(1)] by blast
  have ne: "t \<noteq> []" "u \<noteq> []" using assms(1) u(2) by (auto simp: table_ok_def)
  have un: "unat (of_nat n :: u32) = n" using assms(2) by (simp add: unsigned_of_nat take_bit_nat_eq_self)
  let ?s = "\<lparr>he_key = k, he_index = of_nat n, he_occupied = True\<rparr>"
  obtain i where i: "hash_find u k = Some i" "i < length u"
    and c: "if he_occupied (u ! i) then ht.lookup u k = Some (u ! i)
     else ht.lookup u k = None \<and> ht.inv (u[i := ?s]) \<and> distinct (map he_key (occupied (u[i := ?s])))
       \<and> length (occupied (u[i := ?s])) = Suc (length (occupied u))
       \<and> (\<forall>k'. ht.lookup (u[i := ?s]) k' = (if k' = k then Some ?s else ht.lookup u k'))"
  proof -
    have o: "he_occupied ?s" and k: "he_key ?s = k" by simp_all
    have "ht.inv u" "distinct (map he_key (occupied u))" using u(2) by (simp_all add: table_ok_def)
    from table_put [OF this u(3) o] show ?thesis unfolding k using that by blast
  qed
  show ?thesis
  proof (cases "he_occupied (u ! i)")
    case True
    then show ?thesis using u i c ne by (auto simp: hash_insert_def table_find_lookup)
  next
    case False
    then show ?thesis using u i c ne un by (auto simp: hash_insert_def table_find_lookup table_ok_def)
  qed
qed

text \<open>The tables of the reader are first-come indexes.\<close>

definition table_insert :: "bytes \<Rightarrow> nat \<Rightarrow> vg_hash_entry list \<Rightarrow> vg_hash_entry list" where
  "table_insert k n t = snd (the (hash_insert t k (of_nat n)))"

interpretation gi: key_index "\<lambda>n. table_ok" "2 ^ 32" "replicate (max N 64) empty_entry" table_insert table_find
  for N :: nat
proof unfold_locales
  show ok: "table_ok (replicate (max N 64) empty_entry)"
    by (simp add: table_ok_def inv_replicate)
  show "table_find (replicate (max N 64) empty_entry) k = None" for k
    using lookup_replicate [of "max N 64" k] by (simp add: table_find_lookup)
  show "table_ok (table_insert k n t)" if a: "table_ok t" and b: "n < 2 ^ 32" for n t k
  proof -
    obtain ok t' where "hash_insert t k (of_nat n) = Some (ok, t')" "table_ok t'"
      using hash_insert_spec [OF a b] by blast
    then show ?thesis by (simp add: table_insert_def)
  qed
  show "table_find (table_insert k n t) k' = (if k' = k \<and> table_find t k = None then Some n else table_find t k')"
    if a: "table_ok t" and b: "n < 2 ^ 32" for n t k k'
  proof -
    obtain ok t' where "hash_insert t k (of_nat n) = Some (ok, t')"
      "\<forall>k'. table_find t' k' = (if k' = k \<and> table_find t k = None then Some n else table_find t k')"
      using hash_insert_spec [OF a b] by blast
    then show ?thesis by (simp add: table_insert_def)
  qed
qed

lemma hash_inserts_fold:
  assumes "table_ok t" and "i + length ks \<le> 2 ^ 32"
  shows "hash_inserts ks i t = Some (fold (\<lambda>j t. table_insert (ks ! j) (i + j) t) [0..<length ks] t)"
  using assms
proof (induction ks arbitrary: i t)
  case (Cons k ks)
  have n: "i < 2 ^ 32" using Cons.prems(2) by simp
  obtain ok t' where t': "hash_insert t k (of_nat i) = Some (ok, t')" "table_ok t'"
    using hash_insert_spec [OF Cons.prems(1) n] by blast
  have ins: "table_insert k i t = t'" by (simp add: table_insert_def t')
  have "hash_inserts ks (Suc i) t' = Some (fold (\<lambda>j t. table_insert (ks ! j) (Suc i + j) t) [0..<length ks] t')"
    using Cons.prems(2) by (intro Cons.IH t') simp
  moreover have "[0..<length (k # ks)] = 0 # map Suc [0..<length ks]"
    by (simp add: upt_conv_Cons map_Suc_upt del: upt_Suc)
  ultimately show ?case by (simp add: t' ins fold_map comp_def del: upt_Suc)
qed simp

lemma hash_build_spec:
  assumes "length names \<le> 2 ^ 32"
  shows "\<exists>t. hash_build names = Some t \<and> table_ok t \<and> table_find t k = first_pos names k"
proof -
  have "table_ok (replicate (max (length names) 64) empty_entry)" by (rule gi.inv_fresh)
  then have "hash_build names = Some (gi.build (length names) names)"
    using hash_inserts_fold [of _ 0 names] assms by (simp add: hash_build_def gi.build_def)
  then show ?thesis
    using gi.find_build [OF assms, of "length names"] gi.inv_build [OF assms, of "length names"] by simp
qed

section \<open>Lookups by name\<close>

lemma find_pos_shift: "find_pos k xs (Suc i) = map_option Suc (find_pos k xs i)"
  by (induction xs arbitrary: i) auto

lemma find_pos_first: "find_pos k xs 0 = first_pos xs k"
proof (cases "k \<in> set xs")
  case False
  have "k \<notin> set xs \<Longrightarrow> find_pos k xs i = None" for i
    by (induction xs arbitrary: i) auto
  with False show ?thesis by (simp add: first_pos_None [THEN iffD2])
next
  case True
  have "\<exists>i. find_pos k xs 0 = Some i \<and> i < length xs \<and> xs ! i = k \<and> (\<forall>j < i. xs ! j \<noteq> k)"
    using True
  proof (induction xs)
    case (Cons x xs)
    show ?case
    proof (cases "x = k")
      case False
      with Cons obtain i where "find_pos k xs 0 = Some i" "i < length xs" "xs ! i = k" "\<forall>j < i. xs ! j \<noteq> k"
        by auto
      with False show ?thesis
        by (intro exI [of _ "Suc i"]) (auto simp: find_pos_shift nth_Cons less_Suc_eq_0_disj split: nat.split)
    qed simp
  qed simp
  then show ?thesis using first_pos_SomeI by metis
qed

text \<open>With a table built from the names, or none, a lookup returns the first position of the name.\<close>

lemma named_lookup_first:
  assumes "length names \<le> 2 ^ 32" and "table = None \<or> table = hash_build names"
  shows "named_lookup table names key = first_pos names key"
proof (cases table)
  case None
  then show ?thesis by (simp add: named_lookup_def find_pos_first)
next
  case (Some t)
  then have t: "table_find t key = first_pos names key"
    using assms hash_build_spec [OF assms(1), of key] by auto
  show ?thesis
    using t by (auto simp: Some named_lookup_def table_find_def find_pos_first split: option.splits if_splits)
qed

section \<open>What a successful parse guarantees\<close>

lemma pread_POk: "pread r f = POk a bs \<longleftrightarrow> (\<exists>x rest. r = ROk x rest \<and> f x rest = POk a bs)"
  by (cases r) auto

lemma pcase_POk:
  "(case p of PErr e \<Rightarrow> PErr e | PUndef \<Rightarrow> PUndef | POk a b \<Rightarrow> f a b) = POk x y \<longleftrightarrow> (\<exists>a b. p = POk a b \<and> f a b = POk x y)"
  by (cases p) auto

lemma scase_POk:
  "(case s of Inl e \<Rightarrow> PErr e | Inr n \<Rightarrow> f n) = POk x y \<longleftrightarrow> (\<exists>n. s = Inr n \<and> f n = POk x y)"
  by (cases s) auto

lemma parse_tensors_length: "parse_tensors n bs = POk ts bs' \<Longrightarrow> length ts = n"
  by (induction n arbitrary: bs ts bs') (auto simp: pcase_POk)

lemma parse_tensors_all:
  "parse_tensors n bs = POk ts bs' \<Longrightarrow> t \<in> set ts \<Longrightarrow> \<exists>b b'. parse_tensor b = POk t b'"
proof (induction n arbitrary: bs ts bs')
  case (Suc n)
  then obtain t0 bs1 ts1 bs2 where "parse_tensor bs = POk t0 bs1" "parse_tensors n bs1 = POk ts1 bs2" "ts = t0 # ts1"
    by (auto simp: pcase_POk)
  with Suc show ?case by (cases "t = t0") auto
qed simp

text \<open>The invariant of an opened file.\<close>

definition opened_ok :: "vg_gguf \<Rightarrow> bool" where
  "opened_ok g \<longleftrightarrow>
     (\<exists>ts. g_tensors g = Some ts \<and> length ts = unat (g_tensor_count g) \<and> length ts \<le> 2 ^ 24
        \<and> list_all (tensor_in_range g) ts \<and> (\<forall>t \<in> set ts. \<exists>b b'. parse_tensor b = POk t b'))
   \<and> length (g_meta g) \<le> 2 ^ 24 \<and> g_data_base g \<noteq> 0
   \<and> g_tensor_hash g = hash_build (g_names g) \<and> g_meta_hash g = hash_build (map m_key (g_meta g))
   \<and> g_file_size g = of_nat (length (g_file g)) \<and> g_map g = None"

lemma parse_meta_length: "parse_meta n bs = POk ms bs' \<Longrightarrow> length ms = n"
proof (induction n arbitrary: bs ms bs')
  case (Suc n)
  then show ?case by (auto simp: pread_POk pcase_POk)
qed simp

lemma u64_le_iff: "\<not> (x > 2 ^ 24) \<longleftrightarrow> unat (x :: u64) \<le> 2 ^ 24"
  by (simp add: not_less word_le_nat_alt)

lemma parse_finish_OK:
  assumes "parse_finish g rest = Some (VG_OK, g')" and "g_tensors g = Some ts"
  shows "g' = g\<lparr>g_data_base := align_up_u64 (of_nat (length (g_file g) - length rest)) (meta_alignment g),
      g_tensor_hash := hash_build (g_names g), g_meta_hash := hash_build (map m_key (g_meta g))\<rparr>
    \<and> g_data_base g' \<noteq> 0 \<and> list_all (tensor_in_range g') ts"
  using assms by (auto simp: parse_finish_def Let_def g_names_def tensor_in_range_def list_all_iff split: if_splits option.splits)

text \<open>No parser fails with the status of success.\<close>

lemma pread_PErr: "pread r f = PErr e \<longleftrightarrow> r = RNull \<and> e = VG_E_FORMAT \<or> (\<exists>x rest. r = ROk x rest \<and> f x rest = PErr e)"
  by (cases r) auto

lemma pcase_PErr:
  "(case p of PErr e \<Rightarrow> PErr e | PUndef \<Rightarrow> PUndef | POk a b \<Rightarrow> f a b) = PErr e \<longleftrightarrow>
   p = PErr e \<or> (\<exists>a b. p = POk a b \<and> f a b = PErr e)"
  by (cases p) auto

lemma scase_PErr:
  "(case s of Inl e \<Rightarrow> PErr e | Inr n \<Rightarrow> f n) = PErr e \<longleftrightarrow> s = Inl e \<or> (\<exists>n. s = Inr n \<and> f n = PErr e)"
  by (cases s) auto

lemmas perr_simps = pread_PErr pcase_PErr scase_PErr

lemma parse_dims_err: "parse_dims n bs \<noteq> PErr VG_OK"
  by (induction n arbitrary: bs) (auto simp: perr_simps split: if_splits)

lemma tensor_nbytes_err: "tensor_nbytes type ds \<noteq> Inl VG_OK"
  by (auto simp: tensor_nbytes_def Let_def split: option.splits if_splits)

lemma parse_tensor_err: "parse_tensor bs \<noteq> PErr VG_OK"
  by (auto simp: parse_tensor_def perr_simps parse_dims_err tensor_nbytes_err split: if_splits)

lemma parse_tensors_err: "parse_tensors n bs \<noteq> PErr VG_OK"
  by (induction n arbitrary: bs) (auto simp: perr_simps parse_tensor_err)

lemma parse_meta_err: "parse_meta n bs \<noteq> PErr VG_OK"
  by (induction n arbitrary: bs) (auto simp: perr_simps)

lemma parse_index_OKD:
  assumes "parse_index g0 = Some (VG_OK, g)"
  shows "\<exists>count kv bs1 ms bs2 ts bs3. unat (count :: u64) \<le> 2 ^ 24 \<and> unat (kv :: u64) \<le> 2 ^ 24 \<and>
    parse_meta (unat kv) bs1 = POk ms bs2 \<and> parse_tensors (unat count) bs2 = POk ts bs3 \<and>
    parse_finish (g0\<lparr>g_tensor_count := count, g_meta := ms, g_tensors := Some ts\<rparr>) bs3 = Some (VG_OK, g)"
  using assms
  apply (auto simp: parse_index_def Let_def pread_POk perr_simps parse_meta_err parse_tensors_err
        split: pres.splits rres.splits if_splits)
  apply (intro exI conjI)
  prefer 3 apply assumption
  prefer 3 apply assumption
  prefer 3 apply assumption
  apply (simp_all add: not_less word_le_nat_alt)
  done

lemma parse_index_OK:
  assumes "parse_index (new_gguf file) = Some (VG_OK, g)"
  shows "opened_ok g \<and> g_file g = file"
proof -
  let ?g = "new_gguf file"
  obtain count kv bs1 ms bs2 ts bs3 where c: "unat (count :: u64) \<le> 2 ^ 24 \<and> unat (kv :: u64) \<le> 2 ^ 24"
    "parse_meta (unat kv) bs1 = POk ms bs2" "parse_tensors (unat count) bs2 = POk ts bs3"
    "parse_finish (?g\<lparr>g_tensor_count := count, g_meta := ms, g_tensors := Some ts\<rparr>) bs3 = Some (VG_OK, g)"
    using parse_index_OKD [OF assms] by blast
  have l: "length ms = unat kv" "length ts = unat count"
    using parse_meta_length [OF c(2)] parse_tensors_length [OF c(3)] by simp_all
  have f: "g = (?g\<lparr>g_tensor_count := count, g_meta := ms, g_tensors := Some ts\<rparr>)
      \<lparr>g_data_base := g_data_base g, g_tensor_hash := hash_build (map t_name ts), g_meta_hash := hash_build (map m_key ms)\<rparr>"
    "g_data_base g \<noteq> 0" "list_all (tensor_in_range g) ts"
    using parse_finish_OK [OF c(4), of ts] by (auto simp: g_names_def)
  have p: "g_tensors g = Some ts" "g_tensor_count g = count" "g_meta g = ms" "g_file g = file"
    "g_tensor_hash g = hash_build (map t_name ts)" "g_meta_hash g = hash_build (map m_key ms)"
    "g_file_size g = of_nat (length file)" "g_map g = None"
    by (subst f(1), simp add: new_gguf_def)+
  show ?thesis
    using p l c(1) f(2,3) parse_tensors_all [OF c(3)] by (auto simp: opened_ok_def g_names_def)
qed

lemma vg_gguf_open_OK:
  "vg_gguf_open file = Opened g \<Longrightarrow> opened_ok g \<and> g_file g = file"
  using parse_index_OK by (auto simp: vg_gguf_open_def split: if_splits option.splits prod.splits)

section \<open>Sizes of the tensors\<close>

lemma rows_of_exact: "rows_of r ds = Some r' \<Longrightarrow> (\<forall>d \<in> set ds. d \<noteq> 0) \<Longrightarrow> unat r' = unat r * prod_list (map unat ds)"
proof (induction r ds rule: rows_of.induct)
  case (2 r d ds)
  have ok: "unat r * unat d < 2 ^ 64"
    using 2(2,3) u64_mul_check [of d r] by (auto split: if_splits)
  have "unat r' = unat (r * d) * prod_list (map unat ds)"
    using 2 by (auto split: if_splits)
  then show ?case using unat_u64_mult [OF ok] by simp
qed simp

lemma parse_dims_nonzero: "parse_dims n bs = POk ds bs' \<Longrightarrow> length ds = n \<and> (\<forall>d \<in> set ds. d \<noteq> 0)"
proof (induction n arbitrary: bs ds bs')
  case (Suc n)
  then obtain d bs1 ds1 bs2 where "d \<noteq> 0" "parse_dims n bs1 = POk ds1 bs2" "ds = d # ds1"
    by (auto simp: pread_POk pcase_POk split: if_splits)
  with Suc.IH show ?case by auto
qed simp

text \<open>The byte size of a tensor as natural numbers: rows times blocks per row times bytes per block.\<close>

definition exact_nbytes :: "vg_gguf_tensor \<Rightarrow> vg_quantinfo \<Rightarrow> bool" where
  "exact_nbytes t q \<longleftrightarrow>
     (let ds = map unat (take (unat (t_n_dims t)) (t_dims t)); nfast = (if ds = [] then 1 else hd ds)
      in unat (qi_block_size q) dvd nfast \<and>
         unat (t_nbytes t) = prod_list (tl ds) * (nfast div unat (qi_block_size q)) * unat (qi_bytes_per_block q))"

lemma tensor_nbytes_exact:
  assumes "tensor_nbytes type ds = Inr n" and "\<forall>d \<in> set ds. d \<noteq> 0"
  shows "\<exists>q. vg_quant_info type = Some q \<and>
     (let nfast = (if ds = [] then 1 else unat (hd ds)) in unat (qi_block_size q) dvd nfast \<and>
       unat n = prod_list (map unat (tl ds)) * (nfast div unat (qi_block_size q)) * unat (qi_bytes_per_block q))"
proof -
  define nfast where "nfast = (if ds = [] then 1 else hd ds)"
  obtain rows q where rows: "rows_of 1 (tl ds) = Some rows" and q: "vg_quant_info type = Some q"
    and c: "nfast mod ucast (qi_block_size q) = 0" "\<not> rows > UINT64_MAX div (nfast div ucast (qi_block_size q))"
      "\<not> rows * (nfast div ucast (qi_block_size q)) > UINT64_MAX div ucast (qi_bytes_per_block q)"
      "n = rows * (nfast div ucast (qi_block_size q)) * ucast (qi_bytes_per_block q)"
    using assms(1)
    by (auto simp: tensor_nbytes_def quant_layout_def nfast_def Let_def split: option.splits if_splits)
  define bs where "bs = (ucast (qi_block_size q) :: u64)"
  define ts where "ts = (ucast (qi_bytes_per_block q) :: u64)"
  define per where "per = nfast div bs"
  have ub: "unat bs = unat (qi_block_size q)" "unat ts = unat (qi_bytes_per_block q)"
    by (simp_all add: bs_def ts_def u32_u64)
  have "info_ok q" using vg_quant_info_SomeD [OF q] info_ok_mem by blast
  then have nz: "unat bs \<noteq> 0" "ts \<noteq> 0" using ub by (auto simp: info_ok_def unat_eq_0)
  have nf: "unat nfast \<noteq> 0" using assms(2) by (auto simp: nfast_def unat_eq_0)
  have m: "nfast mod bs = 0" using c(1) by (simp add: bs_def)
  then have "unat (nfast mod bs) = 0" by simp
  then have dv: "unat bs dvd unat nfast" by (simp add: unat_mod dvd_eq_mod_eq_0)
  have per: "unat per = unat nfast div unat bs" by (simp add: per_def unat_div)
  have "unat per \<noteq> 0" using dv nf nz by (auto simp: per dvd_div_eq_0_iff)
  then have pz: "per \<noteq> 0" by auto
  have o1: "unat rows * unat per < 2 ^ 64"
    using c(2) u64_mul_check [OF pz, of rows] by (simp add: per_def bs_def not_le [symmetric])
  have o2: "unat (rows * per) * unat ts < 2 ^ 64"
    using c(3) u64_mul_check [OF nz(2), of "rows * per"] by (simp add: per_def bs_def ts_def not_le [symmetric])
  have "n = rows * per * ts" using c(4) by (simp add: per_def bs_def ts_def)
  then have "unat n = unat rows * unat per * unat ts"
    using unat_u64_mult [OF o2] unat_u64_mult [OF o1] by simp
  moreover have "unat rows = prod_list (map unat (tl ds))"
  proof -
    have "\<forall>d \<in> set (tl ds). d \<noteq> 0" using assms(2) by (cases ds) auto
    from rows_of_exact [OF rows this] show ?thesis by simp
  qed
  moreover have "unat nfast = (if ds = [] then 1 else unat (hd ds))" by (simp add: nfast_def)
  ultimately show ?thesis using q dv ub per by (auto simp: Let_def)
qed

lemma parse_tensor_exact:
  assumes "parse_tensor b = POk t b'"
  shows "\<exists>q. vg_quant_info (t_ggml_type t) = Some q \<and> exact_nbytes t q"
proof -
  obtain name nd ds type off n where p: "\<not> nd > 4" "\<exists>b b'. parse_dims (unat nd) b = POk ds b'"
    "tensor_nbytes type ds = Inr n"
    "t = \<lparr>t_name = name, t_n_dims = nd, t_dims = ds @ replicate (4 - length ds) 0,
          t_ggml_type = type, t_data_offset = off, t_nbytes = n\<rparr>"
    using assms by (auto simp: parse_tensor_def pread_POk pcase_POk scase_POk split: if_splits) blast
  then have d: "length ds = unat nd" "\<forall>d \<in> set ds. d \<noteq> 0" using parse_dims_nonzero by blast+
  have tk: "take (unat (t_n_dims t)) (t_dims t) = ds" by (simp add: p(4) d)
  obtain q where "vg_quant_info type = Some q"
     "let nfast = (if ds = [] then 1 else unat (hd ds)) in unat (qi_block_size q) dvd nfast \<and>
       unat n = prod_list (map unat (tl ds)) * (nfast div unat (qi_block_size q)) * unat (qi_bytes_per_block q)"
    using tensor_nbytes_exact [OF p(3) d(2)] by blast
  then show ?thesis
    unfolding exact_nbytes_def tk by (auto simp: p(4) Let_def map_tl hd_map)
qed

section \<open>Tensors lie in the file\<close>

lemma unat_of_nat_u64: "n < 2 ^ 64 \<Longrightarrow> unat (of_nat n :: u64) = n"
  by (simp add: unsigned_of_nat take_bit_nat_eq_self)

lemma tensor_in_range_nat:
  assumes "tensor_in_range g t" and "g_data_base g \<le> g_file_size g"
  shows "unat (g_data_base g) + unat (t_data_offset t) + unat (t_nbytes t) \<le> unat (g_file_size g)"
proof -
  define avail where "avail = g_file_size g - g_data_base g"
  have a: "unat avail = unat (g_file_size g) - unat (g_data_base g)"
    unfolding avail_def by (rule unat_sub [OF assms(2)])
  have o: "t_data_offset t \<le> avail" "t_nbytes t \<le> avail - t_data_offset t"
    using assms(1) by (auto simp: tensor_in_range_def avail_def)
  have "unat (avail - t_data_offset t) = unat avail - unat (t_data_offset t)"
    by (rule unat_sub [OF o(1)])
  with o a assms(2) show ?thesis by (simp add: word_le_nat_alt)
qed

lemma tensor_at_opened:
  assumes "opened_ok g" and "vg_gguf_tensor_at (Some g) i = Some t"
  shows "tensor_in_range g t \<and> (\<exists>b b'. parse_tensor b = POk t b')"
proof -
  obtain ts where ts: "g_tensors g = Some ts" "length ts = unat (g_tensor_count g)"
    "list_all (tensor_in_range g) ts" "\<forall>t \<in> set ts. \<exists>b b'. parse_tensor b = POk t b'"
    using assms(1) by (auto simp: opened_ok_def)
  have "unat i < length ts" "t = ts ! unat i"
    using assms(2) ts(1,2) by (auto simp: vg_gguf_tensor_at_def word_less_nat_alt split: if_splits)
  then have "t \<in> set ts" by simp
  with ts show ?thesis by (auto simp: list_all_iff)
qed

section \<open>Reads\<close>

lemma slice_sub:
  "a + n \<le> m \<Longrightarrow> slice (slice bs off m) a n = slice bs (off + a) n"
  by (simp add: slice_def drop_take min_def add.commute)

lemma length_slice: "off + n \<le> length bs \<Longrightarrow> length (slice bs off n) = n"
  by (simp add: slice_def)

lemma file_read_inside:
  assumes "unat pos + unat n \<le> length (g_file g)" and "length (g_file g) < 2 ^ 63"
  shows "file_read g pos n = ReadOK (slice (g_file g) (unat pos) (unat n))"
  using assms by (simp add: file_read_def length_slice)

lemma direct_read_inside:
  assumes "unat pos + unat n \<le> length (g_file g)" and "length (g_file g) < 2 ^ 63"
  shows "direct_read g pos n = ReadOK (slice (g_file g) (unat pos) (unat n))"
proof -
  define ao sk an where "ao = pos div 512 * 512" and "sk = pos - ao" and "an = (n + sk + 512 - 1) div 512 * 512"
  have "unat pos div 512 * 512 \<le> unat pos" by simp
  moreover have "unat (pos div 512) = unat pos div 512" by (simp add: unat_div)
  ultimately have uao: "unat ao = unat pos div 512 * 512"
    unfolding ao_def using unat_u64_mult [of "pos div 512" 512] unat_u64_less [of pos] by simp
  then have le: "ao \<le> pos" by (simp add: word_le_nat_alt)
  have usk: "unat sk = unat pos mod 512"
    unfolding sk_def using unat_sub [OF le] uao by (simp add: minus_div_mult_eq_mod)
  have s512: "unat sk < 512" by (simp add: usk)
  have u1: "unat (n + sk) = unat n + unat sk"
    using s512 assms by (intro unat_u64_add) simp
  have u2: "unat (n + sk + 511) = unat n + unat sk + 511"
    using s512 assms u1 unat_u64_add [of "n + sk" 511] by simp
  have "n + sk + 512 - 1 = n + sk + 511" by simp
  then have uan: "unat an = (unat n + unat sk + 511) div 512 * 512"
  proof -
    have d: "unat ((n + sk + 511) div 512) = (unat n + unat sk + 511) div 512" by (simp add: unat_div u2)
    have "(unat n + unat sk + 511) div 512 * 512 \<le> unat n + unat sk + 511" by simp
    then have "(unat n + unat sk + 511) div 512 * 512 < 2 ^ 64" using s512 assms by simp
    then show ?thesis
      unfolding an_def \<open>n + sk + 512 - 1 = n + sk + 511\<close>
      using unat_u64_mult [of "(n + sk + 511) div 512" 512] by (simp add: d)
  qed
  then have ge: "unat sk + unat n \<le> unat an" by linarith
  define buf where "buf = slice (g_file g) (unat ao) (unat an)"
  have pos: "unat ao + unat sk = unat pos" using uao usk by (simp add: div_mult_mod_eq)
  have lb: "unat sk + unat n \<le> length buf" and lb2: "length buf < 2 ^ 63"
    using ge pos assms by (simp_all add: buf_def slice_def)
  have nl: "\<not> of_nat (length buf) < sk + n"
    using lb lb2 u1 by (simp add: not_less word_le_nat_alt unat_of_nat_u64 add.commute)
  have nao: "\<not> 2 ^ 63 \<le> unat ao" using pos assms by linarith
  have "slice buf (unat sk) (unat n) = slice (g_file g) (unat pos) (unat n)"
    unfolding buf_def pos [symmetric] by (rule slice_sub [OF ge])
  then show ?thesis
    unfolding direct_read_def ao_def [symmetric] sk_def [symmetric] an_def [symmetric] Let_def
    using nao nl lb by (simp add: buf_def)
qed

text \<open>Inside the file a read returns the bytes of the file, on each of the three paths.\<close>

lemma gguf_read_inside:
  assumes fl: "length (g_file g) < 2 ^ 63" and m: "g_map g = None \<or> g_map g = Some (g_file g)"
    and fs: "g_file_size g = of_nat (length (g_file g))" "g_file g \<noteq> []"
    and inside: "unat (g_data_base g) + unat (t_data_offset t) + unat (t_nbytes t) \<le> length (g_file g)"
    and rng: "unat off + unat n \<le> unat (t_nbytes t)"
  shows "fst (vg_gguf_read env (Some g) (Some t) off True n) =
    (if g_map g = None \<and> \<not> io_map env \<and> g_direct_io g \<and> \<not> io_open_direct env then ReadFailed VG_E_IO
     else ReadOK (slice (g_file g) (unat (g_data_base g) + unat (t_data_offset t) + unat off) (unat n)))"
proof -
  define pos where "pos = g_data_base g + t_data_offset t + off"
  have u: "unat (g_data_base g + t_data_offset t) = unat (g_data_base g) + unat (t_data_offset t)"
    using fl inside by (intro unat_u64_add) simp
  have up: "unat pos = unat (g_data_base g) + unat (t_data_offset t) + unat off"
    unfolding pos_def using unat_u64_add [of "g_data_base g + t_data_offset t" off] u fl inside rng by simp
  have ok: "\<not> off > t_nbytes t" "\<not> n > t_nbytes t - off"
  proof -
    show o: "\<not> off > t_nbytes t" using rng by (simp add: not_less word_le_nat_alt)
    then have "unat (t_nbytes t - off) = unat (t_nbytes t) - unat off" by (intro unat_sub) (simp add: not_less)
    then show "\<not> n > t_nbytes t - off" using rng by (simp add: not_less word_le_nat_alt)
  qed
  have pn: "unat pos + unat n \<le> length (g_file g)" using up inside rng by linarith
  have l: "unat (of_nat (length (g_file g)) :: u64) = length (g_file g)"
    using fl by (intro unat_of_nat_u64) simp
  have mp: "pos \<le> of_nat (length (g_file g))" using pn l by (simp add: word_le_nat_alt)
  have "unat (of_nat (length (g_file g)) - pos) = length (g_file g) - unat pos" using unat_sub [OF mp] l by simp
  then have mn: "n \<le> of_nat (length (g_file g)) - pos" using pn by (simp add: word_le_nat_alt)
  have fz: "g_file_size g \<noteq> 0"
    using l fs by (metis length_0_conv unsigned_0)
  show ?thesis
  proof (cases "g_map g")
    case (Some b)
    with m have b: "b = g_file g" by simp
    show ?thesis
      using ok mp mn by (simp add: vg_gguf_read_def Let_def pos_def [symmetric] Some b up)
  next
    case None
    show ?thesis
    proof (cases "io_map env")
      case True
      then show ?thesis
        using ok mp mn fz None by (simp add: vg_gguf_read_def Let_def pos_def [symmetric] vg_gguf_map_def up)
    next
      case False
      then show ?thesis
        using ok fz None file_read_inside [OF pn fl] direct_read_inside [OF pn fl]
        by (simp add: vg_gguf_read_def Let_def pos_def [symmetric] vg_gguf_map_def up)
    qed
  qed
qed

section \<open>The nesting bound\<close>

text \<open>The bytes left after a value are no more than the bytes before it.\<close>

lemma rbind_ROk: "rbind r f = ROk a bs \<longleftrightarrow> (\<exists>x rest. r = ROk x rest \<and> f x rest = ROk a bs)"
  by (cases r) auto

lemma rd_shorter: "rd n bs = ROk x rest \<Longrightarrow> length rest + n = length bs"
  by (auto simp: rd_def split: if_splits)

lemma rd_u32_shorter: "rd_u32 bs = ROk x rest \<Longrightarrow> length rest + 4 = length bs"
  by (auto simp: rd_u32_def rbind_ROk dest: rd_shorter)

lemma rd_u64_shorter: "rd_u64 bs = ROk x rest \<Longrightarrow> length rest + 8 = length bs"
  by (auto simp: rd_u64_def rbind_ROk dest: rd_shorter)

lemma read_items_shorter:
  assumes "\<And>bs x rest. rdv bs = ROk x rest \<Longrightarrow> length rest \<le> length bs"
  shows "read_items rdv quoted first n st bs = ROk st' rest \<Longrightarrow> length rest \<le> length bs"
proof (induction n arbitrary: first st bs)
  case (Suc n)
  then show ?case using assms by (fastforce simp: rbind_ROk)
qed simp

lemma read_array_text_shorter:
  assumes "\<And>t bs x rest. rdv t bs = ROk x rest \<Longrightarrow> length rest \<le> length bs"
    and "read_array_text rdv bs = ROk v rest"
  shows "length rest \<le> length bs"
proof -
  obtain t b1 n b2 st b3 where "rd_u32 bs = ROk t b1" "rd_u64 b1 = ROk n b2"
    "read_items (rdv t) (t = 8) True (unat n) ([91], 64) b2 = ROk st b3" "rest = b3"
    using assms(2) by (auto simp: read_array_text_def rbind_ROk split: if_splits prod.splits)
  then show ?thesis
    using rd_u32_shorter [of bs] rd_u64_shorter [of b1] read_items_shorter [of "rdv t", OF assms(1)] by fastforce
qed

lemma read_string_shorter: "read_string bs = ROk v rest \<Longrightarrow> length rest \<le> length bs"
  by (auto simp: read_string_def rbind_ROk split: if_splits dest!: rd_u64_shorter rd_shorter)

lemma read_scalar_value_shorter: "read_scalar_value d type bs = ROk v rest \<Longrightarrow> length rest \<le> length bs"
proof (induction d arbitrary: type bs v rest)
  case 0
  then show ?case
    by (auto simp: read_scalar_value.simps [of 0] rbind_ROk split: if_splits dest!: rd_shorter read_string_shorter)
next
  case (Suc d)
  show ?case
  proof (cases "type = 9")
    case True
    have "read_array_text (read_scalar_value d) bs = ROk v rest"
      using Suc.prems True by (simp add: read_scalar_value.simps [of "Suc d"])
    then show ?thesis using read_array_text_shorter Suc.IH by blast
  next
    case False
    with Suc.prems show ?thesis
      by (auto simp: read_scalar_value.simps [of "Suc d"] rbind_ROk split: if_splits dest!: rd_shorter read_string_shorter)
  qed
qed

lemma read_items_cong:
  assumes "\<And>bs. length bs \<le> m \<Longrightarrow> rdv bs = rdv' bs" and "\<And>bs x rest. rdv bs = ROk x rest \<Longrightarrow> length rest \<le> length bs"
  shows "length bs \<le> m \<Longrightarrow> read_items rdv quoted first n st bs = read_items rdv' quoted first n st bs"
proof (induction n arbitrary: first st bs)
  case (Suc n)
  show ?case
  proof (cases "rdv bs")
    case (ROk x rest)
    then have "length rest \<le> m" using assms(2) Suc.prems by fastforce
    then show ?thesis
      using ROk assms(1) [OF Suc.prems] Suc.IH by (cases "append_item quoted first x st") auto
  qed (use assms(1) [OF Suc.prems] in auto)
qed simp

lemma read_array_text_cong:
  assumes "\<And>t bs'. length bs' < length bs \<Longrightarrow> rdv t bs' = rdv' t bs'"
    and "\<And>t bs x rest. rdv t bs = ROk x rest \<Longrightarrow> length rest \<le> length bs"
  shows "read_array_text rdv bs = read_array_text rdv' bs"
proof (cases "rd_u32 bs")
  case r1: (ROk t b1)
  show ?thesis
  proof (cases "rd_u64 b1")
    case r2: (ROk n b2)
    have "length b2 < length bs" using rd_u32_shorter [OF r1] rd_u64_shorter [OF r2] by simp
    then have "read_items (rdv t) (t = 8) True (unat n) ([91], 64) b2 = read_items (rdv' t) (t = 8) True (unat n) ([91], 64) b2"
      using assms by (intro read_items_cong [of "length b2"]) auto
    then show ?thesis by (simp add: read_array_text_def r1 r2)
  qed (simp_all add: read_array_text_def r1)
qed (simp_all add: read_array_text_def)

text \<open>Any nesting bound above the number of bytes left gives the same value.\<close>

lemma nesting_bound: "length bs < d \<Longrightarrow> length bs < d' \<Longrightarrow> read_scalar_value d type bs = read_scalar_value d' type bs"
proof (induction "length bs" arbitrary: bs d d' type rule: less_induct)
  case less
  obtain e e' where e: "d = Suc e" "d' = Suc e'" using less.prems by (cases d; cases d') auto
  have "read_array_text (read_scalar_value e) bs = read_array_text (read_scalar_value e') bs"
  proof (rule read_array_text_cong)
    fix t and bs' :: bytes assume "length bs' < length bs"
    then show "read_scalar_value e t bs' = read_scalar_value e' t bs'"
      using less e by (intro less.hyps) auto
  qed (rule read_scalar_value_shorter)
  then show ?case by (simp add: e read_scalar_value.simps [of "Suc _"])
qed

section \<open>The array text buffer\<close>

lemma grow_cap_unfold: "grow_cap cap need =
   (if cap \<le> need then (if (2 ^ 64 - 1) div 2 < cap then None else grow_cap (cap * 2) need) else Some cap)"
proof -
  define P f where "P = (\<lambda>c. case c of None \<Rightarrow> False | Some cap \<Rightarrow> cap \<le> (need :: nat))"
    and "f = (\<lambda>c. case c of None \<Rightarrow> None | Some cap \<Rightarrow> if (2 ^ 64 - 1) div 2 < cap then None else Some (cap * 2 :: nat))"
  have g: "grow_cap c need = while P f (Some c)" for c by (simp only: grow_cap_def P_def f_def)
  have n: "while P f None = None" by (subst while_unfold) (simp add: P_def)
  have pf: "P (Some cap) \<longleftrightarrow> cap \<le> need" "f (Some cap) = (if (2 ^ 64 - 1) div 2 < cap then None else Some (cap * 2))"
    by (simp_all only: P_def f_def option.case)
  have "while P f (Some cap) = (if P (Some cap) then while P f (f (Some cap)) else Some cap)"
    by (rule while_unfold)
  then show ?thesis
    unfolding g pf by (cases "cap \<le> need"; cases "(2 ^ 64 - 1) div 2 < cap") (simp_all only: n if_True if_False simp_thms)
qed

lemma grow_cap_bound:
  assumes "grow_cap cap need = Some c" and "0 < cap"
  shows "need < c"
  using assms
proof (induction "need + 1 - cap" arbitrary: cap rule: less_induct)
  case less
  show ?case
  proof (cases "cap \<le> need")
    case True
    then have "grow_cap (cap * 2) need = Some c"
      using less.prems(1) grow_cap_unfold [of cap need] by (simp split: if_splits)
    then show ?thesis using True less.prems(2) using less.hyps [of "cap * 2"] by auto
  next
    case False
    then show ?thesis using less.prems(1) grow_cap_unfold [of cap need] by simp
  qed
qed

text \<open>An element that is not quoted always fits, with a byte to spare for the bracket and the NUL.\<close>

lemma append_plain:
  assumes "append_item False first item (out, cap) = r" and "0 < cap"
  shows "case r of RUndef \<Rightarrow> False | RNull \<Rightarrow> True | ROk (out', cap') _ \<Rightarrow> length out' + 2 \<le> cap' \<and> 0 < cap'"
proof (cases "grow_cap cap (length out + (if first then 0 else 1) + length item + 1)")
  case (Some c)
  then show ?thesis using assms grow_cap_bound [OF Some assms(2)] by (auto simp: append_item_def item_text_def Let_def)
qed (use assms in \<open>auto simp: append_item_def Let_def\<close>)

lemma read_items_plain:
  assumes "\<And>bs. rdv bs \<noteq> RUndef" and "length (fst st) + 2 \<le> snd st"
  shows "case read_items rdv False first n st bs of RUndef \<Rightarrow> False | RNull \<Rightarrow> True | ROk st' _ \<Rightarrow> length (fst st') + 2 \<le> snd st'"
  using assms(2)
proof (induction n arbitrary: first st bs)
  case (Suc n)
  show ?case
  proof (cases "rdv bs")
    case (ROk x rest)
    have a: "case append_item False first x st of RUndef \<Rightarrow> False | RNull \<Rightarrow> True | ROk st' _ \<Rightarrow> length (fst st') + 2 \<le> snd st'"
      using append_plain [of first x "fst st" "snd st" "append_item False first x st"] Suc.prems
      by (cases st) (auto split: rres.splits prod.splits)
    show ?thesis
    proof (cases "append_item False first x st")
      case (ROk st' r)
      then show ?thesis using a Suc.IH [of st' False rest] \<open>rdv bs = ROk x rest\<close> by simp
    qed (use a \<open>rdv bs = ROk x rest\<close> in auto)
  qed (use assms(1) [of bs] in auto)
qed simp

lemma read_array_plain:
  assumes "\<And>bs. rdv t bs \<noteq> RUndef" and "rd_u32 bs = ROk t b1" and "t \<noteq> 8"
  shows "read_array_text rdv bs \<noteq> RUndef"
proof (cases "rd_u64 b1")
  case (ROk n b2)
  have "case read_items (rdv t) False True (unat n) ([91], 64) b2 of RUndef \<Rightarrow> False | RNull \<Rightarrow> True
      | ROk st' _ \<Rightarrow> length (fst st') + 2 \<le> snd st'"
    using assms(1) by (intro read_items_plain) auto
  then show ?thesis using assms(2,3) ROk
    by (cases "read_items (rdv t) False True (unat n) ([91], 64) b2") (auto simp: read_array_text_def split: prod.splits)
qed (use assms(2) in \<open>auto simp: read_array_text_def rd_u64_def rd_def split: if_splits\<close>)

section \<open>Properties of the reader\<close>

lemma gguf_find_tensor_first_aux:
  assumes "vg_gguf_open file = Opened g" and "g_tensors g = Some ts"
  shows "case vg_gguf_find_tensor (Some g) (Some name) of
      None \<Rightarrow> name \<notin> set (map t_name ts)
    | Some i \<Rightarrow> i < length ts \<and> t_name (ts ! i) = name \<and> (\<forall>j < i. t_name (ts ! j) \<noteq> name)"
proof -
  have o: "opened_ok g" using vg_gguf_open_OK [OF assms(1)] by simp
  have l: "length (map t_name ts) \<le> 2 ^ 32" "g_tensor_hash g = hash_build (map t_name ts)" "g_names g = map t_name ts"
    using o assms(2) by (auto simp: opened_ok_def g_names_def)
  have f: "vg_gguf_find_tensor (Some g) (Some name) = first_pos (map t_name ts) name"
    using named_lookup_first [OF l(1)] l(2,3) by (simp add: vg_gguf_find_tensor_def)
  show ?thesis
  proof (cases "first_pos (map t_name ts) name")
    case None
    then have "name \<notin> set (map t_name ts)" unfolding first_pos_None .
    then show ?thesis unfolding f None by simp
  next
    case (Some i)
    have "i < length ts \<and> t_name (ts ! i) = name \<and> (\<forall>j < i. t_name (ts ! j) \<noteq> name)"
      using first_pos_SomeD [OF Some] by auto
    with f Some show ?thesis by simp
  qed
qed

text \<open>C25: looking a tensor up by name in an opened file returns the first tensor of the index with that
  name, and nothing exactly when no tensor has it, however the name table was grown and
  probed.\<close>

theorem gguf_find_tensor_first:
  assumes "vg_gguf_open file = Opened g" and "g_tensors g = Some ts"
  shows "case vg_gguf_find_tensor (Some g) (Some name) of
      None \<Rightarrow> name \<notin> set (map t_name ts)
    | Some i \<Rightarrow> i < length ts \<and> t_name (ts ! i) = name \<and> (\<forall>j < i. t_name (ts ! j) \<noteq> name)"
  using assms by (rule gguf_find_tensor_first_aux)

text \<open>a metadata key of an opened file has the value of its first occurrence in the file.\<close>

theorem gguf_meta_first:
  assumes "vg_gguf_open file = Opened g"
  shows "vg_gguf_meta (Some g) (Some key) =
    map_option m_value (List.find (\<lambda>m. m_key m = key) (g_meta g))"
proof -
  have "opened_ok g" using vg_gguf_open_OK [OF assms] by simp
  then have "vg_gguf_meta (Some g) (Some key) =
      map_option (\<lambda>i. m_value (g_meta g ! i)) (first_pos (map m_key (g_meta g)) key)"
    using named_lookup_first [of "map m_key (g_meta g)" "g_meta_hash g"]
    by (auto simp: vg_gguf_meta_def opened_ok_def)
  moreover have "map_option (\<lambda>i. g_meta g ! i) (first_pos (map m_key (g_meta g)) key) = List.find (\<lambda>m. m_key m = key) (g_meta g)"
  proof (cases "first_pos (map m_key (g_meta g)) key")
    case None
    then have "key \<notin> set (map m_key (g_meta g))" unfolding first_pos_None .
    then have "List.find (\<lambda>m. m_key m = key) (g_meta g) = None" by (auto simp: find_None_iff)
    then show ?thesis unfolding None by simp
  next
    case (Some i)
    have i: "i < length (g_meta g)" "m_key (g_meta g ! i) = key" "\<forall>j < i. m_key (g_meta g ! j) \<noteq> key"
      using first_pos_SomeD [OF Some] by auto
    then have "List.find (\<lambda>m. m_key m = key) (g_meta g) = Some (g_meta g ! i)"
      by (auto simp: find_Some_iff)
    with Some show ?thesis by simp
  qed
  ultimately show ?thesis by (metis (no_types, lifting) option.map_comp comp_apply option.map_cong0)
qed

text \<open>C1: in an opened file whose data section does not start past the end of the file, every tensor lies
  inside the file, and its recorded size is rows times blocks per row times bytes per block as natural
  numbers: no product and no sum of the checks wraps.\<close>

theorem gguf_tensors_in_file:
  assumes "vg_gguf_open file = Opened g" and "length file < 2 ^ 63" and "unat (g_data_base g) \<le> length file"
    and "vg_gguf_tensor_at (Some g) i = Some t"
  shows "unat (g_data_base g) + unat (t_data_offset t) + unat (t_nbytes t) \<le> length file \<and>
    (\<exists>q. vg_quant_info (t_ggml_type t) = Some q \<and> exact_nbytes t q)"
proof -
  have o: "opened_ok g" and f: "g_file g = file" using vg_gguf_open_OK [OF assms(1)] by simp_all
  have fs: "unat (g_file_size g) = length file"
    using o f assms(2) by (simp add: opened_ok_def unat_of_nat_u64)
  have t: "tensor_in_range g t" "\<exists>b b'. parse_tensor b = POk t b'" using tensor_at_opened [OF o assms(4)] by auto
  have "g_data_base g \<le> g_file_size g" using assms(3) fs by (simp add: word_le_nat_alt)
  with tensor_in_range_nat [OF t(1)] fs parse_tensor_exact t(2) show ?thesis by auto
qed

lemma gguf_read_exact_aux:
  assumes "vg_gguf_open file = Opened g" and "length file < 2 ^ 63" and "unat (g_data_base g) \<le> length file"
    and "vg_gguf_tensor_at (Some g) i = Some t" and "unat off + unat n \<le> unat (t_nbytes t)"
    and "mp = None \<or> mp = Some file"
  shows "fst (vg_gguf_read env (Some (g\<lparr>g_direct_io := direct, g_map := mp\<rparr>)) (Some t) off True n) =
    (if mp = None \<and> \<not> io_map env \<and> direct \<and> \<not> io_open_direct env then ReadFailed VG_E_IO
     else ReadOK (slice file (unat (g_data_base g) + unat (t_data_offset t) + unat off) (unat n)))"
proof -
  have o: "opened_ok g" and f: "g_file g = file" using vg_gguf_open_OK [OF assms(1)] by simp_all
  have fs: "g_file_size g = of_nat (length file)" using o f by (simp add: opened_ok_def)
  have t: "tensor_in_range g t" using tensor_at_opened [OF o assms(4)] by auto
  have ufs: "unat (g_file_size g) = length file" using fs assms(2) by (simp add: unat_of_nat_u64)
  have "g_data_base g \<le> g_file_size g" using assms(3) ufs by (simp add: word_le_nat_alt)
  then have "unat (g_data_base g) + unat (t_data_offset t) + unat (t_nbytes t) \<le> length file"
    using tensor_in_range_nat [OF t] ufs by simp
  moreover have "file \<noteq> []" using assms(1) by (auto simp: vg_gguf_open_def)
  ultimately show ?thesis
    using gguf_read_inside [of "g\<lparr>g_direct_io := direct, g_map := mp\<rparr>" t off n env] assms fs f by simp
qed

text \<open>C5: reading bytes \<open>off\<close> to \<open>off + n\<close> of a tensor of an opened file returns exactly the bytes of the
  file at the data section's base plus the tensor's offset plus \<open>off\<close>, whether the file is mapped, read
  directly with aligned blocks, or read through the open handle; only a direct open can fail.\<close>

theorem gguf_read_exact:
  assumes "vg_gguf_open file = Opened g" and "length file < 2 ^ 63" and "unat (g_data_base g) \<le> length file"
    and "vg_gguf_tensor_at (Some g) i = Some t" and "unat off + unat n \<le> unat (t_nbytes t)"
    and "mp = None \<or> mp = Some file"
  shows "fst (vg_gguf_read env (Some (g\<lparr>g_direct_io := direct, g_map := mp\<rparr>)) (Some t) off True n) =
    (if mp = None \<and> \<not> io_map env \<and> direct \<and> \<not> io_open_direct env then ReadFailed VG_E_IO
     else ReadOK (slice file (unat (g_data_base g) + unat (t_data_offset t) + unat off) (unat n)))"
  using assms by (rule gguf_read_exact_aux)

text \<open>a read outside the tensor, or without tensor or buffer, is refused and changes nothing.\<close>

theorem gguf_read_refused:
  assumes "gc = None \<or> t = None \<or> \<not> has_dst \<or> (\<exists>u. t = Some u \<and> unat (t_nbytes u) < unat off + unat n)"
  shows "vg_gguf_read env gc t off has_dst n = (ReadFailed VG_E_RANGE, gc)"
proof -
  have "off > t_nbytes u \<or> n > t_nbytes u - off" if "unat (t_nbytes u) < unat off + unat n" for u
  proof (cases "off > t_nbytes u")
    case False
    then have "unat (t_nbytes u - off) = unat (t_nbytes u) - unat off" by (intro unat_sub) (simp add: not_less)
    moreover have "unat (t_nbytes u) - unat off < unat n" using that False by (simp add: word_less_nat_alt)
    ultimately have "n > t_nbytes u - off" by (simp add: word_less_nat_alt)
    then show ?thesis ..
  qed simp
  then show ?thesis
    using assms by (auto simp: vg_gguf_read_def split: option.split)
qed

text \<open>rounding up to an alignment gives the least multiple not below the argument; zero means that
  the alignment is zero or the result could not be computed without wrapping.\<close>

theorem align_up_least:
  "if a \<noteq> 0 \<and> unat x + (unat a - 1) < 2 ^ 64
   then unat a dvd unat (align_up_u64 x a) \<and> unat x \<le> unat (align_up_u64 x a) \<and> unat (align_up_u64 x a) < unat x + unat a
   else align_up_u64 x a = 0"
proof -
  have m1: "unat (a - 1) = unat a - 1" if "a \<noteq> 0"
    using that by (simp add: unat_minus_one)
  have max: "unat (UINT64_MAX - (a - 1)) = 2 ^ 64 - 1 - unat (a - 1)"
  proof -
    have u: "unat (UINT64_MAX :: u64) = 2 ^ 64 - 1" by (simp add: unsigned_minus_1_eq_mask mask_eq_exp_minus_1)
    have "a - 1 \<le> UINT64_MAX" using unat_u64_less [of "a - 1"] by (simp add: word_le_nat_alt u)
    then show ?thesis using unat_sub [of "a - 1" UINT64_MAX] u by simp
  qed
  show ?thesis
  proof (cases "a \<noteq> 0 \<and> unat x + (unat a - 1) < 2 ^ 64")
    case True
    have le: "unat x + unat (a - 1) \<le> 2 ^ 64 - 1" using True m1 by simp
    have c: "x \<le> UINT64_MAX - (a - 1)"
      unfolding word_le_nat_alt max using le by linarith
    have a0: "0 < unat a" using True by (simp add: unat_gt_0)
    have s: "unat (x + a - 1) = unat x + (unat a - 1)"
      using True m1 unat_u64_add [of x "a - 1"] by (simp add: add_diff_eq)
    define k where "k = (unat x + (unat a - 1)) div unat a"
    have k: "k * unat a \<le> unat x + (unat a - 1)" by (simp add: k_def)
    have k2: "unat x + (unat a - 1) < k * unat a + unat a"
      using mod_less_divisor [OF a0, of "unat x + (unat a - 1)"] div_mult_mod_eq [of "unat x + (unat a - 1)" "unat a"]
      unfolding k_def by linarith
    have "unat ((x + a - 1) div a * a) = k * unat a"
    proof -
      have "unat ((x + a - 1) div a) = k" by (simp only: unat_div s k_def)
      moreover have "k * unat a < 2 ^ 64" using le_less_trans [OF k] True by blast
      ultimately show ?thesis using unat_u64_mult [of "(x + a - 1) div a" a] by simp
    qed
    moreover have "unat x \<le> k * unat a" "k * unat a < unat x + unat a" using k k2 a0 by linarith+
    ultimately show ?thesis using True c by (simp add: align_up_u64_def)
  next
    case False
    have "\<not> x \<le> UINT64_MAX - (a - 1)" if "a \<noteq> 0"
    proof
      assume "x \<le> UINT64_MAX - (a - 1)"
      then have "unat x \<le> 2 ^ 64 - 1 - (unat a - 1)" unfolding word_le_nat_alt max m1 [OF that] .
      moreover have "unat a - 1 \<le> 2 ^ 64 - 1" using unat_u64_less [of a] by simp
      ultimately have "unat x + (unat a - 1) \<le> 2 ^ 64 - 1" by linarith
      with False that show False by simp
    qed
    then show ?thesis using False by (auto simp: align_up_u64_def)
  qed
qed

text \<open>an array metadata value whose elements are neither strings nor arrays is rendered inside its
  buffer whatever the file contains.\<close>

theorem array_text_plain_safe:
  assumes "rd_u32 bs = ROk t rest" and "t \<noteq> 8" and "t \<noteq> 9"
  shows "read_value 9 bs \<noteq> RUndef"
proof -
  have rb: "rbind (rd k bs) (\<lambda>b. ROk (F b)) \<noteq> RUndef" for k F and bs :: bytes
    by (auto simp: rd_def)
  have "read_scalar_value (length bs) t bs' \<noteq> RUndef" for bs'
    using assms(2,3) by (simp add: read_scalar_value.simps [of "length bs" t] rb)
  then have "read_array_text (read_scalar_value (length bs)) bs \<noteq> RUndef"
    using assms by (intro read_array_plain)
  then show ?thesis by (simp add: read_value_def read_scalar_value.simps [of "Suc _"])
qed

section \<open>Concrete files\<close>

text \<open>A file with one metadata entry and one tensor of two F32 numbers.\<close>

definition sample_head :: bytes where
  "sample_head = [0x47, 0x47, 0x55, 0x46, 3, 0, 0, 0, 1, 0, 0, 0, 0, 0, 0, 0, 1, 0, 0, 0, 0, 0, 0, 0]"

definition sample_meta :: bytes where
  "sample_meta = [1, 0, 0, 0, 0, 0, 0, 0, 97, 4, 0, 0, 0, 7, 0, 0, 0]"

definition sample_index :: bytes where
  "sample_index = [1, 0, 0, 0, 0, 0, 0, 0, 119, 1, 0, 0, 0, 2, 0, 0, 0, 0, 0, 0, 0, 0, 0, 0, 0, 0, 0, 0, 0, 0, 0, 0, 0]"

definition sample_data :: bytes where
  "sample_data = [0, 0, 0x80, 0x3F, 0, 0, 0, 0x40]"

definition sample_file :: bytes where
  "sample_file = sample_head @ sample_meta @ sample_index @ replicate 22 0 @ sample_data"

definition sample_tensor :: vg_gguf_tensor where
  "sample_tensor = \<lparr>t_name = [119], t_n_dims = 1, t_dims = [2, 0, 0, 0], t_ggml_type = 0, t_data_offset = 0, t_nbytes = 8\<rparr>"

lemmas parse_eval = pread.simps rbind.simps rd_def rd_u32_def rd_u64_def le_u32_def le_u64_def

lemma rd_append: "length xs = n \<Longrightarrow> rd n (xs @ ys) = ROk xs ys"
  by (simp add: rd_def)

lemma sample_header: "rd_u32 sample_file = ROk 0x46554747 (drop 4 sample_file)"
  "rd_u32 (drop 4 sample_file) = ROk 3 (drop 8 sample_file)"
  "rd_u64 (drop 8 sample_file) = ROk 1 (drop 16 sample_file)"
  "rd_u64 (drop 16 sample_file) = ROk 1 (sample_meta @ sample_index @ replicate 22 0 @ sample_data)"
  by (simp_all add: rd_u32_def rd_u64_def rd_def sample_file_def sample_head_def le_u32_def le_u64_def)

lemma sample_parse_meta: "parse_meta 1 (sample_meta @ rest) = POk [\<lparr>m_key = [97], m_value = [55]\<rparr>] rest"
  by (simp add: sample_meta_def parse_eval read_string_def c_string_def read_value_def read_scalar_value.simps [of "Suc _"]
      fmt_u64_def dec.simps digit_def)

lemma quant_info_f32: "vg_quant_info 0 = Some (mk_info QK_F32 ''F32'' 1 4 1 True True)"
  by (simp add: vg_quant_info_def g_info_def mk_info_def)

lemma sample_parse_index: "parse_tensors 1 (sample_index @ rest) = POk [sample_tensor] rest"
  by (simp add: sample_index_def parse_eval parse_tensor_def read_string_def c_string_def tensor_nbytes_def quant_layout_def
      quant_info_f32 mk_info_def sample_tensor_def numeral_3_eq_3)

lemma find_pos_Nil_meta: "vg_gguf_meta (Some g) (Some k) = map_option (\<lambda>i. m_value (g_meta g ! i)) (find_pos k (map m_key (g_meta g)) 0)"
  if "g_meta_hash g = None"
  using that by (simp add: vg_gguf_meta_def named_lookup_def)

definition sample_gguf :: vg_gguf where
  "sample_gguf = (new_gguf sample_file)\<lparr>g_tensor_count := 1, g_meta := [\<lparr>m_key = [97], m_value = [55]\<rparr>],
     g_tensors := Some [sample_tensor], g_data_base := 96, g_tensor_hash := hash_build [[119]], g_meta_hash := hash_build [[97]]\<rparr>"

lemma hash_build_Some: "length ks \<le> 2 ^ 32 \<Longrightarrow> \<exists>t. hash_build ks = Some t"
  using hash_build_spec [of ks] by blast

lemma sample_open: "vg_gguf_open sample_file = Opened sample_gguf"
proof -
  obtain th mh where h: "hash_build [[119]] = Some th" "hash_build [[97]] = Some mh"
    using hash_build_Some [of "[[119]]"] hash_build_Some [of "[[97]]"] by auto
  let ?g = "(new_gguf sample_file)\<lparr>g_tensor_count := 1, g_meta := [\<lparr>m_key = [97], m_value = [55]\<rparr>], g_tensors := Some [sample_tensor]\<rparr>"
  have len: "length sample_file = 104"
    by (simp add: sample_file_def sample_head_def sample_meta_def sample_index_def sample_data_def)
  have al: "meta_alignment ?g = 32"
    by (simp add: meta_alignment_def find_pos_Nil_meta new_gguf_def byte_simps)
  have l2: "length (replicate 22 (0 :: u8) @ sample_data) = 30" by (simp add: sample_data_def)
  have fin: "parse_finish ?g (replicate 22 0 @ sample_data) = Some (VG_OK, sample_gguf)"
    unfolding parse_finish_def Let_def al l2
    by (simp add: len h new_gguf_def align_up_u64_def tensor_in_range_def sample_tensor_def g_names_def sample_gguf_def)
  have "parse_index (new_gguf sample_file) = Some (VG_OK, sample_gguf)"
    unfolding parse_index_def
    using fin sample_parse_meta sample_parse_index
    by (simp add: new_gguf_def [of sample_file, THEN arg_cong, of g_file] sample_header Let_def)
  then show ?thesis by (simp add: vg_gguf_open_def len)
qed


text \<open>A file whose only tensor is declared past the end of the file, at an offset near \<open>2^64\<close>.\<close>

definition wrap_head :: bytes where
  "wrap_head = [0x47, 0x47, 0x55, 0x46, 3, 0, 0, 0, 1, 0, 0, 0, 0, 0, 0, 0, 0, 0, 0, 0, 0, 0, 0, 0]"

definition wrap_index :: bytes where
  "wrap_index = [1, 0, 0, 0, 0, 0, 0, 0, 119, 0, 0, 0, 0, 0, 0, 0, 0, 0xC0, 0xFF, 0xFF, 0xFF, 0xFF, 0xFF, 0xFF, 0xFF]"

definition wrap_file :: bytes where
  "wrap_file = wrap_head @ wrap_index"

definition wrap_tensor :: vg_gguf_tensor where
  "wrap_tensor = \<lparr>t_name = [119], t_n_dims = 0, t_dims = [0, 0, 0, 0], t_ggml_type = 0, t_data_offset = - 64, t_nbytes = 4\<rparr>"

definition wrap_gguf :: vg_gguf where
  "wrap_gguf = (new_gguf wrap_file)\<lparr>g_tensor_count := 1, g_tensors := Some [wrap_tensor], g_data_base := 64,
     g_tensor_hash := hash_build [[119]], g_meta_hash := hash_build []\<rparr>"

lemma wrap_header: "rd_u32 wrap_file = ROk 0x46554747 (drop 4 wrap_file)"
  "rd_u32 (drop 4 wrap_file) = ROk 3 (drop 8 wrap_file)"
  "rd_u64 (drop 8 wrap_file) = ROk 1 (drop 16 wrap_file)"
  "rd_u64 (drop 16 wrap_file) = ROk 0 wrap_index"
  by (simp_all add: rd_u32_def rd_u64_def rd_def wrap_file_def wrap_head_def le_u32_def le_u64_def)

lemma replicate_4: "replicate 4 x = [x, x, x, x]"
  by (simp add: eval_nat_numeral)

lemma wrap_parse_index: "parse_tensors 1 wrap_index = POk [wrap_tensor] []"
  by (simp add: wrap_index_def parse_eval parse_tensor_def read_string_def c_string_def tensor_nbytes_def quant_layout_def
      quant_info_f32 mk_info_def wrap_tensor_def replicate_4)

lemma wrap_open: "vg_gguf_open wrap_file = Opened wrap_gguf"
proof -
  obtain th mh where h: "hash_build [[119]] = Some th" "hash_build [] = Some mh"
    using hash_build_Some [of "[[119]]"] hash_build_Some [of "[]"] by auto
  let ?g = "(new_gguf wrap_file)\<lparr>g_tensor_count := 1, g_meta := [], g_tensors := Some [wrap_tensor]\<rparr>"
  have len: "length wrap_file = 49"
    by (simp add: wrap_file_def wrap_head_def wrap_index_def)
  have al: "meta_alignment ?g = 32"
    by (simp add: meta_alignment_def find_pos_Nil_meta new_gguf_def byte_simps)
  have fin: "parse_finish ?g [] = Some (VG_OK, wrap_gguf)"
    unfolding parse_finish_def Let_def al
    by (simp add: len h new_gguf_def align_up_u64_def tensor_in_range_def wrap_tensor_def g_names_def wrap_gguf_def)
  have "parse_index (new_gguf wrap_file) = Some (VG_OK, wrap_gguf)"
    unfolding parse_index_def
    using fin wrap_parse_index
    by (simp add: new_gguf_def [of wrap_file, THEN arg_cong, of g_file] wrap_header Let_def)
  then show ?thesis by (simp add: vg_gguf_open_def len)
qed

lemma replicate_37: "replicate 3 x = [x, x, x]" "replicate 7 x = [x, x, x, x, x, x, x]"
  by (simp_all add: eval_nat_numeral)

lemma read_value_9: "read_value 9 bs = read_array_text (read_scalar_value (length bs)) bs"
  by (simp add: read_value_def read_scalar_value.simps [of "Suc _"])

lemma sample_tensor_at: "vg_gguf_tensor_at (Some sample_gguf) 0 = Some sample_tensor"
  "unat (g_data_base sample_gguf) = 96" "length sample_file = 104" "g_tensors sample_gguf = Some [sample_tensor]"
  by (simp_all add: vg_gguf_tensor_at_def sample_gguf_def new_gguf_def sample_file_def sample_head_def
      sample_meta_def sample_index_def sample_data_def)

theorem gguf_find_tensor_first_witness:
  "vg_gguf_find_tensor (Some sample_gguf) (Some [119]) \<noteq> Some 1 \<and> vg_gguf_open sample_file = Opened sample_gguf"
  using gguf_find_tensor_first [OF sample_open sample_tensor_at(4), of "[119]"] sample_open by auto

theorem gguf_meta_first_witness: "vg_gguf_meta (Some sample_gguf) (Some [97]) = Some [55]"
  unfolding gguf_meta_first [OF sample_open] by (simp add: sample_gguf_def)

theorem gguf_tensors_in_file_witness: "96 + unat (t_data_offset sample_tensor) + unat (t_nbytes sample_tensor) \<le> 104"
  using gguf_tensors_in_file [OF sample_open _ _ sample_tensor_at(1)] sample_tensor_at(2,3) by simp

theorem gguf_read_exact_witness:
  "fst (vg_gguf_read \<lparr>io_map = False, io_open_direct = True\<rparr> (Some (sample_gguf\<lparr>g_direct_io := True, g_map := None\<rparr>))
     (Some sample_tensor) 4 True 4) = ReadOK [0, 0, 0, 0x40]"
proof -
  have t: "unat (t_nbytes sample_tensor) = 8" "unat (t_data_offset sample_tensor) = 0" by (simp_all add: sample_tensor_def)
  have s: "slice sample_file 100 4 = [0, 0, 0, 0x40]"
    by (simp add: slice_def sample_file_def sample_head_def sample_meta_def sample_index_def sample_data_def)
  show ?thesis
    using gguf_read_exact [OF sample_open _ _ sample_tensor_at(1), of 4 4 None "\<lparr>io_map = False, io_open_direct = True\<rparr>" True]
      sample_tensor_at(2,3) t s by simp
qed

theorem gguf_read_refused_witness:
  "vg_gguf_read \<lparr>io_map = True, io_open_direct = True\<rparr> (Some sample_gguf) (Some sample_tensor) 6 True 4 = (ReadFailed VG_E_RANGE, Some sample_gguf)"
  by (rule gguf_read_refused) (simp add: sample_tensor_def)

theorem array_text_plain_safe_witness:
  "read_value 9 [4, 0, 0, 0, 2, 0, 0, 0, 0, 0, 0, 0, 1, 1, 1, 1, 1, 1, 1, 1] \<noteq> RUndef"
proof -
  have "rd_u32 [4, 0, 0, 0, 2, 0, 0, 0, 0, 0, 0, 0, 1, 1, 1, 1, 1, 1, 1, 1] = ROk 4 [2, 0, 0, 0, 0, 0, 0, 0, 1, 1, 1, 1, 1, 1, 1, 1]"
    by (simp add: rd_u32_def rd_def le_u32_def)
  then show ?thesis by (rule array_text_plain_safe) simp_all
qed

section \<open>Where the reader leaves its buffers\<close>

text \<open>the range check of the tensor table subtracts the data section's base from the file size without
  comparing them. When padding puts the base past the end of the file the difference wraps: this 49-byte
  file is opened although its tensor is declared at \<open>2^64 - 64\<close>, and reading the tensor returns the bytes of
  the file's own header.\<close>

theorem gguf_range_check_wraps:
  "\<exists>g t. vg_gguf_open wrap_file = Opened g \<and> length wrap_file < unat (g_data_base g)
    \<and> vg_gguf_tensor_at (Some g) 0 = Some t
    \<and> fst (vg_gguf_read \<lparr>io_map = True, io_open_direct = True\<rparr> (Some g) (Some t) 0 True 4) = ReadOK (take 4 wrap_file)"
proof -
  have "vg_gguf_tensor_at (Some wrap_gguf) 0 = Some wrap_tensor"
    by (simp add: vg_gguf_tensor_at_def wrap_gguf_def)
  moreover have "length wrap_file < unat (g_data_base wrap_gguf)"
    by (simp add: wrap_gguf_def wrap_file_def wrap_head_def wrap_index_def)
  moreover have "fst (vg_gguf_read \<lparr>io_map = True, io_open_direct = True\<rparr> (Some wrap_gguf) (Some wrap_tensor) 0 True 4)
      = ReadOK (take 4 wrap_file)"
    by (simp add: vg_gguf_read_def wrap_gguf_def wrap_tensor_def new_gguf_def vg_gguf_map_def Let_def slice_def
        wrap_file_def wrap_head_def wrap_index_def)
  ultimately show ?thesis using wrap_open by blast
qed

text \<open>a file that declares a tensor and a metadata entry but ends before the entry's key makes opening
  fail with the tensor count set and the tensor array still NULL; closing then reads through NULL.\<close>

theorem gguf_open_null_tensors:
  assumes "24 \<le> length file" and "length file < 32"
    and "u32_at file 0 = 0x46554747" and "u32_at file 4 = 2 \<or> u32_at file 4 = 3"
    and "u64_at file 8 \<noteq> 0" and "u64_at file 16 \<noteq> 0"
  shows "vg_gguf_open file = OpenUndef"
proof -
  let ?g = "new_gguf file"
  have h: "rd_u32 file = ROk (u32_at file 0) (drop 4 file)" "rd_u32 (drop 4 file) = ROk (u32_at file 4) (drop 8 file)"
    "rd_u64 (drop 8 file) = ROk (u64_at file 8) (drop 16 file)" "rd_u64 (drop 16 file) = ROk (u64_at file 16) (drop 24 file)"
    using assms(1) by (simp_all add: rd_u32_def rd_u64_def rd_def u32_at_def u64_at_def slice_def)
  have n: "rd_u64 (drop 24 file) = RNull" using assms(1,2) by (simp add: rd_u64_def rd_def)
  have gf: "g_file ?g = file" "g_tensors ?g = None" by (simp_all add: new_gguf_def)
  obtain k where "unat (u64_at file 16) = Suc k" using assms(6) by (metis not0_implies_Suc unat_eq_0)
  then have m: "parse_meta (unat (u64_at file 16)) (drop 24 file) = PErr VG_E_FORMAT"
    by (simp add: read_string_def n)
  have "\<exists>st. st \<noteq> VG_OK \<and> parse_index ?g = Some (st, ?g\<lparr>g_tensor_count := u64_at file 8\<rparr>)"
    using assms(3,4) by (auto simp: parse_index_def gf h m Let_def)
  then show ?thesis
    using assms(1,5) gf by (auto simp: vg_gguf_open_def vg_gguf_close_ok_def)
qed

theorem gguf_open_null_tensors_witness:
  "vg_gguf_open (sample_head) = OpenUndef"
  by (rule gguf_open_null_tensors) (simp_all add: sample_head_def u32_at_def u64_at_def slice_def le_u32_def le_u64_def)

text \<open>an array metadata value of one short string is rendered in the first 64-byte buffer, which was
  sized for the unescaped text: as soon as quotes and backslashes make the escaped text too long, the
  reader writes past the buffer. Otherwise the text is the escaped string in quotes and brackets.\<close>

theorem array_text_escape_overflow:
  assumes "length s < 60" and "0 \<notin> set s"
  shows "read_value 9 (8 # replicate 3 0 @ 1 # replicate 7 0 @ of_nat (length s) # replicate 7 0 @ s @ rest) =
    (if length (escape_text s) + 5 \<le> 64 then ROk (91 # 34 # escape_text s @ [34, 93]) rest else RUndef)"
proof -
  let ?b2 = "of_nat (length s) # replicate 7 0 @ s @ rest :: bytes"
  have r1: "rd_u32 (8 # replicate 3 0 @ bs) = ROk 8 bs" for bs
    by (simp add: rd_u32_def rd_def le_u32_def replicate_37)
  have r2: "rd_u64 (1 # replicate 7 0 @ bs) = ROk 1 bs" for bs
    by (simp add: rd_u64_def rd_def le_u64_def replicate_37)
  have r3: "rd_u64 (of_nat (length s) # replicate 7 0 @ bs) = ROk (of_nat (length s)) bs" for bs
    using assms(1) by (simp add: rd_u64_def rd_def le_u64_def replicate_37 unsigned_of_nat take_bit_nat_eq_self)
  have ul: "unat (of_nat (length s) :: u64) = length s" using assms(1) by (intro unat_of_nat_u64) simp
  have rs: "read_string ?b2 = ROk s rest"
    using assms ul r3 by (simp add: read_string_def rd_def word_less_nat_alt)
  have g: "grow_cap 64 (length [91 :: u8] + (if True then 0 else 1) + (if True then 2 else 0) + length s + 1) = Some 64"
    using assms(1) by (subst grow_cap_unfold) simp
  have a: "append_item True True s ([91], 64) = (if length (escape_text s) + 3 \<le> 64 then ROk (91 # 34 # escape_text s @ [34], 64) [] else RUndef)"
    unfolding append_item_def Let_def prod.case g by (simp add: item_text_def)
  have d: "read_scalar_value d 8 ?b2 = ROk s rest" for d
    using rs by (simp add: read_scalar_value.simps [of d])
  have "read_value 9 (8 # replicate 3 0 @ 1 # replicate 7 0 @ ?b2) =
      read_array_text (read_scalar_value (length (8 # replicate 3 0 @ 1 # replicate 7 0 @ ?b2))) (8 # replicate 3 0 @ 1 # replicate 7 0 @ ?b2)"
    by (rule read_value_9)
  also have "\<dots> = (if length (escape_text s) + 5 \<le> 64 then ROk (91 # 34 # escape_text s @ [34, 93]) rest else RUndef)"
    unfolding read_array_text_def r1 rbind.simps r2 using d a by simp
  finally show ?thesis .
qed

theorem array_text_escape_overflow_witness:
  "read_value 9 (8 # replicate 3 0 @ 1 # replicate 7 0 @ 30 # replicate 7 0 @ replicate 30 34) = RUndef"
  using array_text_escape_overflow [of "replicate 30 34" "[]"] by (simp add: escape_text_def length_concat sum_list_replicate)

text \<open>the parser of metadata values always returns: its bound on the nesting of arrays, the number of
  bytes left, is never reached, so any larger bound gives the same value.\<close>

theorem read_value_nesting:
  assumes "length bs < d"
  shows "read_scalar_value d type bs = read_value type bs"
  unfolding read_value_def using assms by (intro nesting_bound) auto

theorem read_value_nesting_witness: "read_scalar_value 1000 0 [7] = read_value 0 [7]"
  by (rule read_value_nesting) simp

end
