(* ===== verification/TensorSource_Props.thy ===== *)
theory TensorSource_Props
  imports TensorSource Gguf_Props "HOL-Library.Sublist"
begin

text \<open>
  The tensor source: every lease reads as the bytes of its tensor until it is released (\<open>src_inv\<close>, preserved
  by every operation of the cache and of the background worker), eviction is by age, background loads reach the
  caller and streams deliver the tensor in order. The leases are safe as long as a client uses one tier per
  tensor; \<open>tiers_mixed_use_after_free\<close> shows what happens when it does not.
\<close>

section \<open>The file behind a source\<close>

text \<open>A reader opened on its file, with its data section inside it, and the states reading leaves it in.\<close>

definition sound_file :: "vg_gguf \<Rightarrow> bool" where
  "sound_file g0 \<longleftrightarrow> vg_gguf_open (g_file g0) = Opened g0 \<and> length (g_file g0) < 2 ^ 63
     \<and> unat (g_data_base g0) \<le> length (g_file g0)"

definition same_file :: "vg_gguf \<Rightarrow> vg_gguf \<Rightarrow> bool" where
  "same_file g0 g \<longleftrightarrow> (\<exists>d mp. g = g0\<lparr>g_direct_io := d, g_map := mp\<rparr> \<and> (mp = None \<or> mp = Some (g_file g0)))"

abbreviation tensor_of :: "vg_gguf \<Rightarrow> nat \<Rightarrow> vg_gguf_tensor" where
  "tensor_of g i \<equiv> the (g_tensors g) ! i"

definition tensor_bytes :: "vg_gguf \<Rightarrow> nat \<Rightarrow> bytes" where
  "tensor_bytes g i =
     slice (g_file g) (unat (g_data_base g) + unat (t_data_offset (tensor_of g i))) (unat (t_nbytes (tensor_of g i)))"

lemma same_file_simps [simp]:
  assumes "same_file g0 g"
  shows "g_tensors g = g_tensors g0" "g_data_base g = g_data_base g0" "g_tensor_count g = g_tensor_count g0"
    "vg_gguf_find_tensor (Some g) name = vg_gguf_find_tensor (Some g0) name"
  using assms by (auto simp: same_file_def vg_gguf_find_tensor_def g_names_def split: option.splits)

lemma same_file_open:
  assumes "sound_file g0"
  shows "same_file g0 g0"
proof -
  have "g_map g0 = None"
    using assms vg_gguf_open_OK [of "g_file g0" g0] by (auto simp: sound_file_def opened_ok_def)
  then have "g0 = g0\<lparr>g_direct_io := g_direct_io g0, g_map := None\<rparr>" by simp
  then show ?thesis unfolding same_file_def by blast
qed

lemma same_file_map: "same_file g0 g \<Longrightarrow> vg_gguf_map env g = (st, g') \<Longrightarrow> same_file g0 g'"
  by (auto simp: same_file_def vg_gguf_map_def split: option.splits if_splits)

lemma same_file_map_OK:
  "same_file g0 g \<Longrightarrow> vg_gguf_map env g = (VG_OK, g') \<Longrightarrow> g_map g' = Some (g_file g0)"
  by (auto simp: same_file_def vg_gguf_map_def split: option.splits if_splits)

lemma find_tensor_range:
  assumes "sound_file g0" and "vg_gguf_find_tensor (Some g0) name = Some i"
  shows "i < length (the (g_tensors g0)) \<and> vg_gguf_tensor_at (Some g0) (of_nat i) = Some (tensor_of g0 i)"
proof -
  have o: "opened_ok g0" using assms(1) vg_gguf_open_OK by (auto simp: sound_file_def)
  then obtain ts where ts: "g_tensors g0 = Some ts" "length ts = unat (g_tensor_count g0)" "length ts \<le> 2 ^ 24"
    by (auto simp: opened_ok_def)
  obtain k where k: "name = Some k" using assms(2) by (cases name) (auto simp: vg_gguf_find_tensor_def)
  have i: "i < length ts"
    using gguf_find_tensor_first_aux [of "g_file g0" g0 ts k] assms ts(1) k by (auto simp: sound_file_def)
  then have "i < 2 ^ 64" using ts(3) by simp
  then have "unat (of_nat i :: u64) = i" by (rule unat_of_nat_u64)
  with i ts show ?thesis by (simp add: vg_gguf_tensor_at_def word_less_nat_alt)
qed

text \<open>Reads inside a tensor return its bytes or fail cleanly, and leave a reader of the same file.\<close>

lemma same_file_read_at:
  assumes "sound_file g0" and "same_file g0 g" and "vg_gguf_tensor_at (Some g0) k = Some t"
    and "unat off + unat n \<le> unat (t_nbytes t)"
  shows "\<exists>r g'. vg_gguf_read env (Some g) (Some t) off True n = (r, Some g') \<and> same_file g0 g'
    \<and> (r = ReadFailed VG_E_IO \<or>
       r = ReadOK (slice (g_file g0) (unat (g_data_base g0) + unat (t_data_offset t) + unat off) (unat n)))"
proof -
  obtain d mp where g: "g = g0\<lparr>g_direct_io := d, g_map := mp\<rparr>" "mp = None \<or> mp = Some (g_file g0)"
    using assms(2) by (auto simp: same_file_def)
  have "fst (vg_gguf_read env (Some g) (Some t) off True n) \<in>
      {ReadFailed VG_E_IO, ReadOK (slice (g_file g0) (unat (g_data_base g0) + unat (t_data_offset t) + unat off) (unat n))}"
    using gguf_read_exact_aux [of "g_file g0" g0 k t off n mp env d] assms(1,3,4) g by (auto simp: sound_file_def)
  moreover have "\<exists>g'. snd (vg_gguf_read env (Some g) (Some t) off True n) = Some g' \<and> same_file g0 g'"
    using assms(2) same_file_map [OF assms(2), of env "fst (vg_gguf_map env g)" "snd (vg_gguf_map env g)"]
    by (auto simp: vg_gguf_read_def Let_def)
  ultimately show ?thesis by (cases "vg_gguf_read env (Some g) (Some t) off True n") auto
qed

lemma same_file_read:
  assumes "sound_file g0" and "same_file g0 g" and "vg_gguf_find_tensor (Some g0) name = Some i"
    and "unat off + unat n \<le> unat (t_nbytes (tensor_of g0 i))"
  shows "\<exists>r g'. vg_gguf_read env (Some g) (Some (tensor_of g0 i)) off True n = (r, Some g') \<and> same_file g0 g'
    \<and> (r = ReadFailed VG_E_IO \<or> r = ReadOK (slice (tensor_bytes g0 i) (unat off) (unat n)))"
proof -
  have "vg_gguf_tensor_at (Some g0) (of_nat i) = Some (tensor_of g0 i)" using find_tensor_range [OF assms(1,3)] by simp
  from same_file_read_at [OF assms(1,2) this assms(4), of env] show ?thesis
    unfolding tensor_bytes_def slice_sub [OF assms(4)] .
qed

lemma length_tensor_bytes:
  assumes "sound_file g0" and "vg_gguf_find_tensor (Some g0) name = Some i"
  shows "length (tensor_bytes g0 i) = unat (t_nbytes (tensor_of g0 i))"
proof -
  have o: "opened_ok g0" using assms(1) vg_gguf_open_OK by (auto simp: sound_file_def)
  have "g_data_base g0 \<le> g_file_size g0" "unat (g_file_size g0) = length (g_file g0)"
    using assms(1) o by (auto simp: opened_ok_def sound_file_def unat_of_nat_u64 word_le_nat_alt)
  moreover have "tensor_in_range g0 (tensor_of g0 i)"
    using tensor_at_opened [OF o] find_tensor_range [OF assms] by auto
  ultimately show ?thesis
    unfolding tensor_bytes_def using tensor_in_range_nat [of g0 "tensor_of g0 i"] by (intro length_slice) simp
qed

lemma same_file_read_all:
  assumes "sound_file g0" and "same_file g0 g" and "vg_gguf_find_tensor (Some g0) name = Some i"
  shows "\<exists>r g'. vg_gguf_read env (Some g) (Some (tensor_of g0 i)) 0 True (t_nbytes (tensor_of g0 i)) = (r, Some g')
    \<and> same_file g0 g' \<and> (r = ReadFailed VG_E_IO \<or> r = ReadOK (tensor_bytes g0 i))"
  using same_file_read [OF assms, of 0 "t_nbytes (tensor_of g0 i)" env] length_tensor_bytes [OF assms(1,3)]
  by (simp add: slice_def)


section \<open>The invariant of the leases\<close>

text \<open>
  \<open>ls\<close> are the leases handed out and not yet released, \<open>tier\<close> the tier a client uses for each tensor and \<open>n\<close> the
  number of acquisitions so far.
\<close>

definition centry_ok :: "nat \<Rightarrow> vg_gguf \<Rightarrow> (nat \<Rightarrow> vg_tier) \<Rightarrow> bytes option list \<Rightarrow> vg_cacheentry \<Rightarrow> bool" where
  "centry_ok n g0 tier heap e \<longleftrightarrow> ce_owns e \<and> ce_tier e = tier (ce_tensor e) \<and> unat (ce_refs e) \<le> n
     \<and> ce_data e < length heap \<and> heap ! ce_data e = Some (tensor_bytes g0 (ce_tensor e))
     \<and> ce_bytes e = t_nbytes (tensor_of g0 (ce_tensor e))"

definition lease_ok :: "vg_gguf \<Rightarrow> vg_tensorsource \<Rightarrow> vg_tensorlease \<Rightarrow> bool" where
  "lease_ok g0 s l \<longleftrightarrow> le_source l \<and> (\<exists>i. le_tensor l = Some i \<and> le_size l = t_nbytes (tensor_of g0 i) \<and>
     (case le_data l of
        NullPtr \<Rightarrow> False
      | MapPtr p \<Rightarrow> le_ticket l = 0 \<and> g_map (ts_file s) = Some (g_file g0)
          \<and> slice (g_file g0) (unat p) (unat (le_size l)) = tensor_bytes g0 i
      | HeapPtr b \<Rightarrow> \<not> le_mapped l \<and> (if le_ticket l \<noteq> 0 then \<exists>e \<in> set (ts_entries s). ce_data e = b \<and> ce_tensor e = i
          else b < length (ts_heap s) \<and> ts_heap s ! b = Some (tensor_bytes g0 i) \<and> b \<notin> ce_data ` set (ts_entries s))))"

definition holders :: "nat \<Rightarrow> vg_tensorlease list \<Rightarrow> nat" where
  "holders b ls = length (filter (\<lambda>l. le_data l = HeapPtr b) ls)"

definition private_ptrs :: "vg_tensorlease list \<Rightarrow> lease_ptr list" where
  "private_ptrs ls = map le_data (filter (\<lambda>l. le_ticket l = 0 \<and> (\<exists>b. le_data l = HeapPtr b)) ls)"

definition src_inv :: "nat \<Rightarrow> vg_gguf \<Rightarrow> (nat \<Rightarrow> vg_tier) \<Rightarrow> vg_tensorsource \<Rightarrow> vg_tensorlease list \<Rightarrow> bool" where
  "src_inv n g0 tier s ls \<longleftrightarrow> same_file g0 (ts_file s)
     \<and> unat (ts_clock s) \<le> n \<and> unat (ts_next_ticket s) \<le> n \<and> length (ts_entries s) \<le> n
     \<and> (\<forall>e \<in> set (ts_entries s). centry_ok n g0 tier (ts_heap s) e \<and> holders (ce_data e) ls \<le> unat (ce_refs e)
          \<and> unat (ce_age e) \<le> n)
     \<and> distinct (map ce_data (ts_entries s)) \<and> distinct (map ce_tensor (ts_entries s))
     \<and> (\<forall>l \<in> set ls. lease_ok g0 s l) \<and> distinct (private_ptrs ls)"

lemma src_inv_mono: "src_inv n g0 tier s ls \<Longrightarrow> n \<le> m \<Longrightarrow> src_inv m g0 tier s ls"
  by (fastforce simp: src_inv_def centry_ok_def)

lemma lease_ok_cong:
  assumes "ts_file s' = ts_file s" and "ts_entries s' = ts_entries s" and "ts_heap s' = ts_heap s"
  shows "lease_ok g0 s' l = lease_ok g0 s l"
  unfolding lease_ok_def assms by (rule refl)

text \<open>Only the file, the entries, the heap and the two counters matter.\<close>

lemma src_inv_cong:
  assumes "src_inv n g0 tier s ls" and "ts_file s' = ts_file s" and "ts_entries s' = ts_entries s"
    and "ts_heap s' = ts_heap s" and "ts_clock s' = ts_clock s" and "ts_next_ticket s' = ts_next_ticket s"
  shows "src_inv n g0 tier s' ls"
proof -
  note lease_ok_cong [OF assms(2-4)]
  with assms show ?thesis by (simp add: src_inv_def)
qed

text \<open>Mapping and reading the file.\<close>

lemma src_inv_file:
  assumes "src_inv n g0 tier s ls" and "same_file g0 g" and "g_map (ts_file s) \<noteq> None \<Longrightarrow> g_map g \<noteq> None"
  shows "src_inv n g0 tier (s\<lparr>ts_file := g\<rparr>) ls"
proof -
  have "g_map (ts_file s) = Some (g_file g0) \<Longrightarrow> g_map g = Some (g_file g0)"
    using assms(2,3) by (auto simp: same_file_def)
  then have "lease_ok g0 (s\<lparr>ts_file := g\<rparr>) l" if "lease_ok g0 s l" for l
    using that by (auto simp: lease_ok_def split: lease_ptr.splits)
  with assms(1,2) show ?thesis by (auto simp: src_inv_def)
qed

text \<open>New buffers.\<close>

lemma src_inv_alloc:
  assumes "src_inv n g0 tier s ls"
  shows "src_inv n g0 tier (s\<lparr>ts_heap := ts_heap s @ [Some d]\<rparr>) ls"
proof -
  have "lease_ok g0 (s\<lparr>ts_heap := ts_heap s @ [Some d]\<rparr>) l" if "lease_ok g0 s l" for l
    using that by (auto simp: lease_ok_def nth_append split: lease_ptr.splits)
  with assms show ?thesis by (auto simp: src_inv_def centry_ok_def nth_append)
qed

definition fresh_block :: "nat \<Rightarrow> bytes \<Rightarrow> vg_tensorsource \<Rightarrow> vg_tensorlease list \<Rightarrow> bool" where
  "fresh_block b d s ls \<longleftrightarrow> b < length (ts_heap s) \<and> ts_heap s ! b = Some d \<and> b \<notin> ce_data ` set (ts_entries s)
     \<and> (\<forall>l \<in> set ls. le_data l \<noteq> HeapPtr b)"

lemma lease_block_range:
  assumes "src_inv n g0 tier s ls" and "l \<in> set ls" and "le_data l = HeapPtr b"
  shows "b < length (ts_heap s)"
proof -
  have "lease_ok g0 s l" using assms(1,2) by (auto simp: src_inv_def)
  with assms show ?thesis
    by (auto simp: lease_ok_def src_inv_def centry_ok_def split: if_splits)
qed

lemma fresh_alloc:
  assumes "src_inv n g0 tier s ls"
  shows "fresh_block (length (ts_heap s)) d (s\<lparr>ts_heap := ts_heap s @ [Some d]\<rparr>) ls"
  using assms lease_block_range [OF assms]
  by (fastforce simp: fresh_block_def src_inv_def centry_ok_def)

text \<open>Eviction frees only buffers nobody holds.\<close>

lemma src_inv_remove:
  assumes inv: "src_inv n g0 tier s ls" and v: "v < length (ts_entries s)" "ce_refs (ts_entries s ! v) = 0"
  shows "src_inv n g0 tier (remove_entry v s) ls"
proof -
  define e where "e = ts_entries s ! v"
  define xs ys where "xs = take v (ts_entries s)" and "ys = drop (Suc v) (ts_entries s)"
  have es: "ts_entries s = xs @ e # ys" using v(1) by (simp add: xs_def ys_def e_def id_take_nth_drop)
  have z: "ce_refs e = 0" using v(2) by (simp add: e_def)
  have own: "ce_owns e" "ce_refs e = 0" "holders (ce_data e) ls = 0"
    using inv z by (simp_all add: src_inv_def centry_ok_def es)
  have r: "ts_entries (remove_entry v s) = xs @ ys" "ts_heap (remove_entry v s) = (ts_heap s)[ce_data e := None]"
    "ts_file (remove_entry v s) = ts_file s" "ts_clock (remove_entry v s) = ts_clock s"
    "ts_next_ticket (remove_entry v s) = ts_next_ticket s"
    using v(1) own(1) by (simp_all add: remove_entry_def Let_def ts_free_def xs_def ys_def e_def [symmetric])
  have "ce_data e \<notin> ce_data ` set (xs @ ys)" using inv by (simp add: src_inv_def es image_Un)
  then have ne: "ce_data e' \<noteq> ce_data e" if "e' \<in> set (xs @ ys)" for e'
    using that by (metis imageI)
  have unheld: "le_data l \<noteq> HeapPtr (ce_data e)" if "l \<in> set ls" for l
    using own(3) that by (auto simp: holders_def filter_empty_conv)
  have "lease_ok g0 (remove_entry v s) l" if l: "l \<in> set ls" for l
  proof -
    have "lease_ok g0 s l" using inv l by (simp add: src_inv_def)
    then show ?thesis using unheld [OF l]
      by (fastforce simp: lease_ok_def r es split: lease_ptr.splits if_splits)
  qed
  moreover have "centry_ok n g0 tier ((ts_heap s)[ce_data e := None]) e'" if "e' \<in> set (xs @ ys)" for e'
    using inv that ne [OF that] by (auto simp: src_inv_def es centry_ok_def)
  ultimately show ?thesis using inv by (auto simp: src_inv_def r es)
qed

lemma fresh_remove:
  assumes f: "fresh_block b d s ls" and v: "v < length (ts_entries s)"
  shows "fresh_block b d (remove_entry v s) ls"
proof -
  have "ts_entries s ! v \<in> set (ts_entries s)" using v by simp
  then have "ce_data (ts_entries s ! v) \<noteq> b" using f by (auto simp: fresh_block_def)
  moreover have "set (take v (ts_entries s) @ drop (Suc v) (ts_entries s)) \<subseteq> set (ts_entries s)"
    by (auto dest: in_set_takeD in_set_dropD)
  ultimately show ?thesis using f
    by (auto simp: fresh_block_def remove_entry_def Let_def ts_free_def dest: in_set_takeD in_set_dropD)
qed

lemma evict_inv:
  "src_inv n g0 tier s ls \<Longrightarrow> fresh_block b d s ls \<Longrightarrow>
     src_inv n g0 tier (evict_entries budget need s) ls \<and> fresh_block b d (evict_entries budget need s) ls
     \<and> set (ts_entries (evict_entries budget need s)) \<subseteq> set (ts_entries s)"
proof (induction budget need s rule: evict_entries.induct)
  case (1 budget need s)
  show ?case
  proof (cases "cache_victim (ts_entries s)")
    case None
    then have "evict_entries budget need s = s" by (subst evict_entries.simps) simp
    with 1 show ?thesis by simp
  next
    case (Some v)
    note v = cache_victim_range [OF Some]
    have "src_inv n g0 tier (remove_entry v s) ls" using src_inv_remove [OF 1(2)] v by simp
    moreover have "fresh_block b d (remove_entry v s) ls" using fresh_remove [OF 1(3)] v by simp
    moreover have "set (ts_entries (remove_entry v s)) \<subseteq> set (ts_entries s)"
      by (auto simp: remove_entry_def Let_def ts_free_def dest: in_set_takeD in_set_dropD)
    moreover have "evict_entries budget need s = s \<or> (resident_bytes (ts_entries s) > budget
        \<or> (need \<noteq> 0 \<and> resident_bytes (ts_entries s) > budget - need))
        \<and> evict_entries budget need s = evict_entries budget need (remove_entry v s)"
      using Some by (subst (1 2) evict_entries.simps) auto
    ultimately show ?thesis using 1 Some by (elim disjE conjE) (simp_all, blast+)
  qed
qed


lemma evict_for_inv:
  assumes "src_inv n g0 tier s ls" and "fresh_block b d s ls"
  shows "src_inv n g0 tier (evict_for need s) ls \<and> fresh_block b d (evict_for need s) ls
    \<and> set (ts_entries (evict_for need s)) \<subseteq> set (ts_entries s)"
  using evict_inv [OF assms] assms by (simp add: evict_for_def Let_def)

lemma holders_Cons: "holders b (l # ls) = (if le_data l = HeapPtr b then 1 else 0) + holders b ls"
  by (simp add: holders_def)

lemma holders_fresh: "fresh_block b d s ls \<Longrightarrow> holders b ls = 0"
  by (auto simp: holders_def fresh_block_def filter_empty_conv)

lemma unat_succ: "unat (x :: u64) \<le> n \<Longrightarrow> n < 2 ^ 64 - 1 \<Longrightarrow> unat (x + 1) = unat x + 1"
  using unat_u64_add [of x 1] by simp

lemma src_inv_insert:
  assumes inv: "src_inv n g0 tier s0 ls" and f: "fresh_block b (tensor_bytes g0 i) s0 ls"
    and miss: "i \<notin> ce_tensor ` set (ts_entries s0)" and n: "n < 2 ^ 64 - 1"
    and c: "cache_insert i (tier i) b (t_nbytes (tensor_of g0 i)) budget s0 = (st, l, s')"
  shows "src_inv (Suc n) g0 tier s' (l # ls) \<and> le_tensor l = Some i"
proof -
  define s where "s = evict_for (t_nbytes (tensor_of g0 i)) s0"
  have s: "src_inv n g0 tier s ls" "fresh_block b (tensor_bytes g0 i) s ls" "i \<notin> ce_tensor ` set (ts_entries s)"
    using evict_for_inv [OF inv f] miss by (auto simp: s_def)
  define e where "e = \<lparr>ce_tensor = i, ce_data = b, ce_bytes = t_nbytes (tensor_of g0 i), ce_refs = 1, ce_age = ts_clock s + 1,
    ce_ticket = ts_next_ticket s + 1, ce_tier = tier i, ce_owns = True\<rparr>"
  have l: "l = \<lparr>le_tensor = Some i, le_data = HeapPtr b, le_size = t_nbytes (tensor_of g0 i), le_tier = tier i,
      le_ticket = ts_next_ticket s + 1, le_source = True, le_mapped = False\<rparr>"
    and s': "ts_entries s' = ts_entries s @ [e]" "ts_heap s' = ts_heap s" "ts_file s' = ts_file s"
      "ts_clock s' = ts_clock s + 1" "ts_next_ticket s' = ts_next_ticket s + 1"
    using c by (auto simp: cache_insert_def Let_def s_def [symmetric] e_def)
  have u: "unat (ts_clock s') = unat (ts_clock s) + 1" "unat (ts_next_ticket s') = unat (ts_next_ticket s) + 1"
    using s(1) n unat_succ [of "ts_clock s" n] unat_succ [of "ts_next_ticket s" n] by (simp_all add: s' src_inv_def)
  then have tk: "le_ticket l \<noteq> 0" by (auto simp: l s' simp flip: unat_eq_0)
  have old: "lease_ok g0 s' l'" if "l' \<in> set ls" for l'
  proof -
    have "lease_ok g0 s l'" "le_data l' \<noteq> HeapPtr b" using s(1,2) that by (auto simp: src_inv_def fresh_block_def)
    then show ?thesis by (fastforce simp: lease_ok_def s' e_def split: lease_ptr.splits if_splits)
  qed
  have new: "lease_ok g0 s' l" using tk by (auto simp: lease_ok_def l s' e_def)
  have ent: "centry_ok (Suc n) g0 tier (ts_heap s') e' \<and> holders (ce_data e') (l # ls) \<le> unat (ce_refs e') \<and> unat (ce_age e') \<le> Suc n"
    if "e' \<in> set (ts_entries s')" for e'
  proof (cases "e' = e")
    case True
    have "unat (ts_clock s + 1) \<le> Suc n" using u(1) s(1) by (simp add: s' src_inv_def)
    then show ?thesis using s(2) holders_fresh [OF s(2)]
      by (simp add: True centry_ok_def e_def s' holders_Cons l fresh_block_def)
  next
    case False
    then have m: "e' \<in> set (ts_entries s)" using that s' by simp
    then have "ce_data e' \<noteq> b" using s(2) by (auto simp: fresh_block_def)
    with m s(1) show ?thesis by (fastforce simp: src_inv_def centry_ok_def s' holders_Cons l)
  qed
  have "private_ptrs (l # ls) = private_ptrs ls" using tk by (simp add: private_ptrs_def)
  with s u old new ent show ?thesis
    by (auto simp: src_inv_def s' l e_def fresh_block_def)
qed

lemma src_inv_transient:
  assumes inv: "src_inv n g0 tier s ls" and f: "fresh_block b (tensor_bytes g0 i) s ls"
    and c: "transient_lease i (tier i) b (t_nbytes (tensor_of g0 i)) budget s = (st, l, s')"
  shows "src_inv (Suc n) g0 tier s' (l # ls) \<and> le_tensor l = Some i"
proof -
  have l: "l = \<lparr>le_tensor = Some i, le_data = HeapPtr b, le_size = t_nbytes (tensor_of g0 i), le_tier = tier i,
      le_ticket = 0, le_source = True, le_mapped = False\<rparr>"
    and s': "ts_entries s' = ts_entries s" "ts_heap s' = ts_heap s" "ts_file s' = ts_file s"
      "ts_clock s' = ts_clock s" "ts_next_ticket s' = ts_next_ticket s"
    using c by (auto simp: transient_lease_def Let_def)
  have inv': "src_inv (Suc n) g0 tier s' ls"
    using src_inv_mono [OF src_inv_cong [OF inv, of s']] s' by simp
  have "lease_ok g0 s' l" using f by (simp add: lease_ok_def l s' fresh_block_def)
  moreover have "HeapPtr b \<notin> set (private_ptrs ls)" using f by (auto simp: private_ptrs_def fresh_block_def)
  moreover have "holders (ce_data e) (l # ls) = holders (ce_data e) ls" if "e \<in> set (ts_entries s')" for e
    using f that by (auto simp: holders_Cons l s' fresh_block_def)
  ultimately show ?thesis using inv' by (simp add: src_inv_def private_ptrs_def l)
qed

lemma find_from_range:
  "find_from P xs i = Some k \<Longrightarrow> i \<le> k \<and> k < i + length xs \<and> P (xs ! (k - i))"
  by (induction xs arbitrary: i) (fastforce simp: nth_Cons' split: if_splits)+

lemma find_from_None: "find_from P xs i = None \<longleftrightarrow> (\<forall>x \<in> set xs. \<not> P x)"
  by (induction xs arbitrary: i) auto

lemma find_entry_range:
  "find_entry es i d = Some k \<Longrightarrow> k < length es \<and> ce_tensor (es ! k) = i \<and> ce_tier (es ! k) = d"
  unfolding find_entry_def by (auto dest: find_from_range)

text \<open>Replacing an entry by one with other counters.\<close>

lemma src_inv_update:
  assumes inv: "src_inv n g0 tier s ls" and k: "k < length (ts_entries s)" and e: "e = ts_entries s ! k"
    and e': "e' = e\<lparr>ce_refs := r, ce_age := a\<rparr>" "unat r \<le> n" "unat a \<le> n" "holders (ce_data e) ls \<le> unat r"
  shows "src_inv n g0 tier (s\<lparr>ts_entries := (ts_entries s)[k := e']\<rparr>) ls"
proof -
  have same: "map ce_data ((ts_entries s)[k := e']) = map ce_data (ts_entries s)"
    "map ce_tensor ((ts_entries s)[k := e']) = map ce_tensor (ts_entries s)"
    using k by (auto simp: map_update e e' list_update_same_conv)
  have ids: "(ce_data x, ce_tensor x) \<in> (\<lambda>x. (ce_data x, ce_tensor x)) ` set ((ts_entries s)[k := e'])"
    if "x \<in> set (ts_entries s)" for x
  proof -
    have "map (\<lambda>x. (ce_data x, ce_tensor x)) ((ts_entries s)[k := e']) = map (\<lambda>x. (ce_data x, ce_tensor x)) (ts_entries s)"
      using k by (auto simp: map_update e e' list_update_same_conv)
    then have "(\<lambda>x. (ce_data x, ce_tensor x)) ` set ((ts_entries s)[k := e']) = (\<lambda>x. (ce_data x, ce_tensor x)) ` set (ts_entries s)"
      by (metis set_map)
    with that show ?thesis by blast
  qed
  have blk: "ce_data ` set ((ts_entries s)[k := e']) = ce_data ` set (ts_entries s)"
    using same(1) by (metis set_map)
  have "lease_ok g0 (s\<lparr>ts_entries := (ts_entries s)[k := e']\<rparr>) l" if "lease_ok g0 s l" for l
  proof -
    have "\<exists>y \<in> set ((ts_entries s)[k := e']). ce_data y = ce_data x \<and> ce_tensor y = ce_tensor x"
      if "x \<in> set (ts_entries s)" for x
      using ids [OF that] by force
    then show ?thesis using that unfolding lease_ok_def
      by (auto simp: blk split: lease_ptr.splits) metis
  qed
  moreover have "centry_ok n g0 tier (ts_heap s) x \<and> holders (ce_data x) ls \<le> unat (ce_refs x) \<and> unat (ce_age x) \<le> n"
    if x: "x \<in> set ((ts_entries s)[k := e'])" for x
  proof -
    consider "x = e'" | "x \<in> set (ts_entries s)" using x set_update_subset_insert by fastforce
    then show ?thesis
    proof cases
      case 1
      have "e \<in> set (ts_entries s)" using k e by simp
      with inv show ?thesis unfolding 1 by (auto simp: e' src_inv_def centry_ok_def assms(5-7))
    next
      case 2
      with inv show ?thesis by (simp add: src_inv_def)
    qed
  qed
  ultimately show ?thesis using inv same by (simp add: src_inv_def)
qed


lemma tensor_start:
  assumes "sound_file g0" and "vg_gguf_find_tensor (Some g0) name = Some i"
  shows "unat (g_data_base g0 + t_data_offset (tensor_of g0 i)) = unat (g_data_base g0) + unat (t_data_offset (tensor_of g0 i))"
proof -
  have o: "opened_ok g0" using assms(1) vg_gguf_open_OK by (auto simp: sound_file_def)
  have f: "g_data_base g0 \<le> g_file_size g0" "unat (g_file_size g0) = length (g_file g0)"
    using assms(1) o by (auto simp: opened_ok_def sound_file_def unat_of_nat_u64 word_le_nat_alt)
  have "tensor_in_range g0 (tensor_of g0 i)"
    using tensor_at_opened [OF o] find_tensor_range [OF assms] by auto
  from tensor_in_range_nat [OF this f(1)] f(2) show ?thesis
    using assms(1) by (intro unat_u64_add) (simp add: sound_file_def)
qed

lemma src_inv_storage:
  assumes s: "sound_file g0" and inv: "src_inv n g0 tier s ls" and i: "vg_gguf_find_tensor (Some g0) name = Some i"
    and m: "map_tensor env (tensor_of g0 i) s = (ok, s1)"
  shows "src_inv n g0 tier s1 ls \<and> ts_cfg s1 = ts_cfg s \<and> (ok \<longrightarrow> src_inv (Suc n) g0 tier s1 (storage_lease s1 i (tensor_of g0 i) # ls))"
proof -
  obtain st g where g: "vg_gguf_map env (ts_file s) = (st, g)" by fastforce
  have ok: "ok \<longrightarrow> st = VG_OK" and s1: "s1 = s\<lparr>ts_file := g\<rparr>" using m by (auto simp: map_tensor_def g)
  have sf: "same_file g0 (ts_file s)" using inv by (simp add: src_inv_def)
  have same: "same_file g0 g" by (rule same_file_map [OF sf g])
  have "g_map (ts_file s) \<noteq> None \<Longrightarrow> g_map g \<noteq> None" using g by (auto simp: vg_gguf_map_def)
  then have inv1: "src_inv n g0 tier s1 ls" unfolding s1 by (rule src_inv_file [OF inv same])
  have "src_inv (Suc n) g0 tier s1 (storage_lease s1 i (tensor_of g0 i) # ls)" if ok
  proof -
    have "g_map g = Some (g_file g0)" using same_file_map_OK [OF sf] ok that g by simp
    then have "lease_ok g0 s1 (storage_lease s1 i (tensor_of g0 i))"
      using same by (simp add: lease_ok_def storage_lease_def s1 vg_gguf_data_base_def tensor_start [OF s i] tensor_bytes_def)
    then show ?thesis using src_inv_mono [OF inv1, of "Suc n"]
      by (simp add: src_inv_def holders_Cons private_ptrs_def storage_lease_def)
  qed
  with inv1 s1 show ?thesis by simp
qed

lemma src_inv_hit:
  assumes inv: "src_inv n g0 tier s ls" and k: "find_entry (ts_entries s) i d = Some k" and n: "n < 2 ^ 64 - 1"
    and h: "acquire_hit i k s = (st, l, s')"
  shows "src_inv (Suc n) g0 tier s' (l # ls) \<and> le_tensor l = Some i"
proof -
  define e where "e = ts_entries s ! k"
  define e' where "e' = e\<lparr>ce_refs := ce_refs e + 1, ce_age := ts_clock s + 1\<rparr>"
  have kr: "k < length (ts_entries s)" "ce_tensor e = i" using find_entry_range [OF k] by (simp_all add: e_def)
  have es: "e \<in> set (ts_entries s)" using kr by (simp add: e_def)
  have eo: "centry_ok n g0 tier (ts_heap s) e" "holders (ce_data e) ls \<le> unat (ce_refs e)"
    using inv es by (auto simp: src_inv_def)
  have bn: "unat (ts_clock s) \<le> n" "length (ts_entries s) \<le> n" using inv by (auto simp: src_inv_def)
  have l: "l = \<lparr>le_tensor = Some i, le_data = HeapPtr (ce_data e), le_size = ce_bytes e, le_tier = ce_tier e,
      le_ticket = of_nat (k + 1), le_source = True, le_mapped = False\<rparr>"
    and s': "ts_entries s' = (ts_entries s)[k := e']" "ts_heap s' = ts_heap s" "ts_file s' = ts_file s"
      "ts_clock s' = ts_clock s + 1" "ts_next_ticket s' = ts_next_ticket s"
    using h by (auto simp: acquire_hit_def Let_def e_def [symmetric] e'_def)
  have r: "unat (ce_refs e + 1) = unat (ce_refs e) + 1" "unat (ce_refs e) \<le> n" "unat (ts_clock s + 1) = unat (ts_clock s) + 1"
    using eo(1) n bn unat_succ [of "ce_refs e" n] unat_succ [of "ts_clock s" n] by (auto simp: centry_ok_def)
  have tk: "le_ticket l \<noteq> 0"
  proof -
    have "k + 1 < 2 ^ 64" using kr(1) bn(2) n by simp
    then have "unat (of_nat (k + 1) :: u64) = k + 1" by (rule unat_of_nat_u64)
    then show ?thesis by (auto simp: l simp flip: unat_eq_0)
  qed
  have up: "src_inv (Suc n) g0 tier (s\<lparr>ts_entries := (ts_entries s)[k := e']\<rparr>) ls"
    using src_inv_mono [OF inv, of "Suc n"] r bn eo
    by (intro src_inv_update [OF _ kr(1) e_def e'_def]) auto
  have "src_inv (Suc n) g0 tier s' ls"
    using up r(3) bn lease_ok_cong [of s' "s\<lparr>ts_entries := (ts_entries s)[k := e']\<rparr>" g0] by (simp add: src_inv_def s')
  moreover have "lease_ok g0 s' l"
  proof -
    have "e' \<in> set (ts_entries s')" using kr(1) by (simp add: s' set_update_memI)
    moreover have "ce_data e' = ce_data e" "ce_tensor e' = i" using kr(2) by (simp_all add: e'_def)
    ultimately show ?thesis using tk eo(1) kr(2) by (auto simp: lease_ok_def l centry_ok_def)
  qed
  moreover have "holders (ce_data x) (l # ls) \<le> unat (ce_refs x)" if x: "x \<in> set (ts_entries s')" for x
  proof (cases "ce_data x = ce_data e")
    case True
    have "distinct (map ce_data (ts_entries s'))" using \<open>src_inv (Suc n) g0 tier s' ls\<close> by (simp add: src_inv_def)
    moreover have "e' \<in> set (ts_entries s')" using kr(1) by (simp add: s' set_update_memI)
    moreover have "ce_data x = ce_data e'" using True by (simp add: e'_def)
    ultimately have "x = e'" using x by (auto simp: distinct_map inj_on_def)
    then show ?thesis using eo(2) r(1) by (simp add: e'_def holders_Cons l)
  next
    case False
    with \<open>src_inv (Suc n) g0 tier s' ls\<close> x show ?thesis by (simp add: src_inv_def holders_Cons l)
  qed
  moreover have "private_ptrs (l # ls) = private_ptrs ls" using tk by (simp add: private_ptrs_def)
  ultimately show ?thesis by (simp add: src_inv_def l)
qed

lemma src_inv_loaded:
  assumes inv: "src_inv n g0 tier s ls" and miss: "i \<notin> ce_tensor ` set (ts_entries s)" and n: "n < 2 ^ 64 - 1"
    and a: "acquire_loaded i (tier i) (t_nbytes (tensor_of g0 i)) (tensor_bytes g0 i) s = (st, l, s')"
  shows "if st = VG_OK then src_inv (Suc n) g0 tier s' (l # ls) \<and> le_tensor l = Some i else src_inv n g0 tier s' ls"
proof -
  let ?s1 = "s\<lparr>ts_heap := ts_heap s @ [Some (tensor_bytes g0 i)]\<rparr>"
  note i1 = src_inv_alloc [OF inv, of "tensor_bytes g0 i"] and f1 = fresh_alloc [OF inv, of "tensor_bytes g0 i"]
  have m1: "i \<notin> ce_tensor ` set (ts_entries ?s1)" using miss by simp
  have st: "\<And>b budget. fst (cache_insert i (tier i) b (t_nbytes (tensor_of g0 i)) budget ?s1) = VG_OK"
    "\<And>b budget. fst (transient_lease i (tier i) b (t_nbytes (tensor_of g0 i)) budget ?s1) = VG_OK"
    by (simp_all add: cache_insert_def transient_lease_def Let_def)
  let ?b = "length (ts_heap s)" and ?n = "t_nbytes (tensor_of g0 i)"
  consider "st = VG_E_NOMEM" "s' = s" | budget where "cache_insert i (tier i) ?b ?n budget ?s1 = (st, l, s')"
    | budget where "transient_lease i (tier i) ?b ?n budget ?s1 = (st, l, s')"
    using a unfolding acquire_loaded_def ts_alloc_def Let_def prod.case by (metis prod.inject)
  then show ?thesis
  proof cases
    case 1
    with inv show ?thesis by simp
  next
    case 2
    with src_inv_insert [OF i1 f1 m1 n 2] st(1) show ?thesis by (metis fst_conv)
  next
    case 3
    with src_inv_transient [OF i1 f1 3] st(2) show ?thesis by (metis fst_conv)
  qed
qed


lemma count_inv: "src_inv n g0 tier (s\<lparr>ts_stats := st\<rparr>) ls = src_inv n g0 tier s ls"
  by (auto elim!: src_inv_cong)

lemma count_lookup_simps [simp]:
  "ts_file (count_lookup s) = ts_file s" "ts_entries (count_lookup s) = ts_entries s" "ts_cfg (count_lookup s) = ts_cfg s"
  by (simp_all add: count_lookup_def)

definition acquired ::
  "nat \<Rightarrow> vg_gguf \<Rightarrow> (nat \<Rightarrow> vg_tier) \<Rightarrow> nat \<Rightarrow> vg_tensorlease list \<Rightarrow> (vg_status \<times> vg_tensorlease \<times> vg_tensorsource) option \<Rightarrow> bool" where
  "acquired n g0 tier i ls r \<longleftrightarrow> (\<exists>st l s'. r = Some (st, l, s') \<and>
     (if st = VG_OK then src_inv (Suc n) g0 tier s' (l # ls) \<and> le_tensor l = Some i else src_inv n g0 tier s' ls))"

lemma src_inv_miss:
  assumes sf: "sound_file g0" and inv: "src_inv n g0 tier s ls" and i: "vg_gguf_find_tensor (Some g0) name = Some i"
    and miss: "i \<notin> ce_tensor ` set (ts_entries s)" and n: "n < 2 ^ 64 - 1"
  shows "acquired n g0 tier i ls (acquire_miss env i (tensor_of g0 i) (tier i) s)"
proof -
  define s1 where "s1 = s\<lparr>ts_stats := (ts_stats s)\<lparr>tt_misses := tt_misses (ts_stats s) + 1\<rparr>\<rparr>"
  have inv1: "src_inv n g0 tier s1 ls" and f1: "ts_file s1 = ts_file s" "ts_entries s1 = ts_entries s"
    using inv by (simp_all add: s1_def count_inv)
  show ?thesis
  proof (cases "tier i = VG_TIER_STORAGE \<and> tc_use_mmap (ts_cfg s1)")
    case True
    obtain ok s2 where m: "map_tensor env (tensor_of g0 i) s1 = (ok, s2)" by fastforce
    have "acquire_miss env i (tensor_of g0 i) (tier i) s =
        Some (if ok then (VG_OK, storage_lease s2 i (tensor_of g0 i), s2) else (VG_E_IO, empty_lease, s2))"
      using True m by (simp add: acquire_miss_def s1_def [symmetric])
    with src_inv_storage [OF sf inv1 i m] show ?thesis
      by (auto simp: acquired_def storage_lease_def)
  next
    case False
    have sm: "same_file g0 (ts_file s1)" using inv1 by (simp add: src_inv_def)
    obtain r g where r: "vg_gguf_read env (Some (ts_file s1)) (Some (tensor_of g0 i)) 0 True (t_nbytes (tensor_of g0 i)) = (r, Some g)"
      "same_file g0 g" "r = ReadFailed VG_E_IO \<or> r = ReadOK (tensor_bytes g0 i)"
      using same_file_read_all [OF sf sm i] by blast
    have "g_map (ts_file s1) \<noteq> None \<Longrightarrow> g_map g \<noteq> None"
      using r(1) by (auto simp: vg_gguf_read_def Let_def vg_gguf_map_def split: if_splits)
    then have inv2: "src_inv n g0 tier (s1\<lparr>ts_file := g\<rparr>) ls" by (rule src_inv_file [OF inv1 r(2)])
    have m2: "i \<notin> ce_tensor ` set (ts_entries (s1\<lparr>ts_file := g\<rparr>))" using miss f1 by simp
    obtain st l s' where a: "acquire_loaded i (tier i) (t_nbytes (tensor_of g0 i)) (tensor_bytes g0 i) (s1\<lparr>ts_file := g\<rparr>) = (st, l, s')"
      using prod_cases3 by blast
    have "acquire_miss env i (tensor_of g0 i) (tier i) s =
        (if r = ReadFailed VG_E_IO then Some (VG_E_IO, empty_lease, s1\<lparr>ts_file := g\<rparr>) else Some (st, l, s'))"
      using False r(1,3) a by (auto simp: acquire_miss_def s1_def [symmetric])
    with src_inv_loaded [OF inv2 m2 n a] inv2 show ?thesis
      by (auto simp: acquired_def)
  qed
qed

lemma src_inv_cached:
  assumes sf: "sound_file g0" and inv: "src_inv n g0 tier s ls" and i: "vg_gguf_find_tensor (Some g0) name = Some i"
    and n: "n < 2 ^ 64 - 1"
  shows "acquired n g0 tier i ls (acquire_cached env i (tensor_of g0 i) (tier i) s)"
proof -
  have inv1: "src_inv n g0 tier (count_lookup s) ls" using inv by (simp add: count_lookup_def count_inv)
  show ?thesis
  proof (cases "find_entry (ts_entries s) i (tier i)")
    case None
    have "i \<notin> ce_tensor ` set (ts_entries (count_lookup s))"
      using None inv by (fastforce simp: find_entry_def find_from_None src_inv_def centry_ok_def)
    from src_inv_miss [OF sf inv1 i this n] None show ?thesis by (simp add: acquire_cached_def)
  next
    case (Some k)
    obtain st l s' where h: "acquire_hit i k (count_lookup s) = (st, l, s')" using prod_cases3 by blast
    have "st = VG_OK" using h by (simp add: acquire_hit_def Let_def)
    with src_inv_hit [OF inv1 _ n h] Some h show ?thesis by (simp add: acquire_cached_def acquired_def)
  qed
qed

lemma src_inv_acquire:
  assumes sf: "sound_file g0" and inv: "src_inv n g0 tier s ls" and i: "vg_gguf_find_tensor (Some g0) name = Some i"
    and n: "n < 2 ^ 64 - 1"
  shows "acquired n g0 tier i ls (vg_tensor_acquire env name (tier i) s)"
proof -
  have sm: "same_file g0 (ts_file s)" using inv by (simp add: src_inv_def)
  have f: "vg_gguf_find_tensor (Some (ts_file s)) name = Some i" "g_tensors (ts_file s) = g_tensors g0"
    using sm i by simp_all
  show ?thesis
  proof (cases "tier i = VG_TIER_STORAGE \<and> tc_use_mmap (ts_cfg s)")
    case True
    obtain ok s1 where m: "map_tensor env (tensor_of g0 i) (count_lookup s) = (ok, s1)" by fastforce
    have inv1: "src_inv n g0 tier (count_lookup s) ls" using inv by (simp add: count_lookup_def count_inv)
    note st = src_inv_storage [OF sf inv1 i m]
    show ?thesis
    proof (cases ok)
      case True
      then have "vg_tensor_acquire env name (tier i) s = Some (VG_OK, storage_lease s1 i (tensor_of g0 i),
          s1\<lparr>ts_stats := (ts_stats s1)\<lparr>tt_hits := tt_hits (ts_stats s1) + 1\<rparr>\<rparr>)"
        using \<open>tier i = VG_TIER_STORAGE \<and> tc_use_mmap (ts_cfg s)\<close> f m by (simp add: vg_tensor_acquire_def)
      with st True show ?thesis by (simp add: acquired_def count_inv storage_lease_def)
    next
      case False
      then have "vg_tensor_acquire env name (tier i) s = acquire_cached env i (tensor_of g0 i) (tier i) s1"
        using \<open>tier i = VG_TIER_STORAGE \<and> tc_use_mmap (ts_cfg s)\<close> f m by (simp add: vg_tensor_acquire_def)
      with src_inv_cached [OF sf _ i n] st show ?thesis by simp
    qed
  next
    case False
    have "vg_tensor_acquire env name (tier i) s = acquire_cached env i (tensor_of g0 i) (tier i) s"
      using f unfolding vg_tensor_acquire_def Let_def by (simp add: if_not_P [OF False] del: if_split)
    with src_inv_cached [OF sf inv i n] show ?thesis by simp
  qed
qed

lemma acquire_unknown:
  "same_file g0 (ts_file s) \<Longrightarrow> vg_gguf_find_tensor (Some g0) name = None \<Longrightarrow>
     vg_tensor_acquire env name d s = Some (VG_E_INVALID, empty_lease, s)"
  by (simp add: vg_tensor_acquire_def)

section \<open>Releasing\<close>

lemma holders_append: "holders b (xs @ ys) = holders b xs + holders b ys"
  by (simp add: holders_def)

lemma release_entry_cases:
  assumes "distinct (map ce_tensor es)" and "e \<in> set es" and "ce_tensor e = i"
  shows "release_entry ticket (Some i) es = es \<or>
    (\<exists>k < length es. es ! k = e \<and> ce_refs e \<noteq> 0 \<and> release_entry ticket (Some i) es = es[k := e\<lparr>ce_refs := ce_refs e - 1\<rparr>])"
proof (cases "find_from (\<lambda>e. ce_ticket e = ticket \<and> Some (ce_tensor e) = Some i) es 0")
  case None
  then show ?thesis by (simp add: release_entry_def)
next
  case (Some k)
  from find_from_range [OF Some] have k: "k < length es" "ce_tensor (es ! k) = i" by simp_all
  then have "es ! k = e" using assms by (auto simp: distinct_map inj_on_def)
  with Some k(1) show ?thesis by (auto simp: release_entry_def)
qed

lemma src_inv_release:
  assumes inv: "src_inv n g0 tier s (as @ l # bs)"
  shows "src_inv n g0 tier (vg_tensor_release l s) (as @ bs)"
proof -
  have less: "holders b (as @ bs) \<le> holders b (as @ l # bs)" for b by (simp add: holders_append holders_Cons)
  have "\<forall>e \<in> set (ts_entries s). holders (ce_data e) (as @ bs) \<le> unat (ce_refs e)"
    using inv less by (meson le_trans src_inv_def)
  moreover have "distinct (private_ptrs (as @ bs))"
    using inv by (auto simp: src_inv_def private_ptrs_def split: if_splits)
  ultimately have fewer: "src_inv n g0 tier s (as @ bs)"
    using inv by (simp add: src_inv_def)
  have lok: "lease_ok g0 s l" using inv by (simp add: src_inv_def)
  then obtain i where i: "le_source l" "le_tensor l = Some i" by (auto simp: lease_ok_def)
  show ?thesis
  proof (cases "le_ticket l = 0")
    case True
    show ?thesis
    proof (cases "le_data l")
      case (HeapPtr b)
      have b: "\<not> le_mapped l" "b \<notin> ce_data ` set (ts_entries s)" using lok True HeapPtr by (auto simp: lease_ok_def)
      have r: "vg_tensor_release l s = ts_free b s" using True HeapPtr i b(1) by (simp add: vg_tensor_release_def)
      have nb: "HeapPtr b \<notin> set (private_ptrs (as @ bs))" "distinct (private_ptrs (as @ bs))"
        using inv True HeapPtr by (auto simp: src_inv_def private_ptrs_def)
      have "lease_ok g0 (ts_free b s) l'" if l': "l' \<in> set (as @ bs)" for l'
      proof -
        have "lease_ok g0 s l'" using fewer l' by (simp add: src_inv_def)
        moreover have "le_ticket l' = 0 \<Longrightarrow> le_data l' \<noteq> HeapPtr b"
          using nb(1) l' by (auto simp: private_ptrs_def image_iff)
        ultimately show ?thesis
          by (fastforce simp: lease_ok_def ts_free_def split: lease_ptr.splits if_splits)
      qed
      moreover have "centry_ok n g0 tier ((ts_heap s)[b := None]) e" if "e \<in> set (ts_entries s)" for e
      proof -
        have "b \<noteq> ce_data e" using b(2) that by blast
        then show ?thesis using fewer that by (auto simp: src_inv_def centry_ok_def)
      qed
      ultimately show ?thesis using fewer unfolding r by (simp add: src_inv_def ts_free_def)
    qed (use True i fewer in \<open>simp_all add: vg_tensor_release_def\<close>)
  next
    case False
    then obtain e b where e: "e \<in> set (ts_entries s)" "ce_data e = b" "ce_tensor e = i" "le_data l = HeapPtr b"
      using lok i(2) by (auto simp: lease_ok_def split: lease_ptr.splits)
    have r: "vg_tensor_release l s = s\<lparr>ts_entries := release_entry (le_ticket l) (Some i) (ts_entries s)\<rparr>"
      using False i by (simp add: vg_tensor_release_def)
    have d: "distinct (map ce_tensor (ts_entries s))" using inv by (simp add: src_inv_def)
    from release_entry_cases [OF d e(1,3), of "le_ticket l"] show ?thesis
    proof
      assume "release_entry (le_ticket l) (Some i) (ts_entries s) = ts_entries s"
      with fewer show ?thesis by (simp add: r)
    next
      assume "\<exists>k < length (ts_entries s). ts_entries s ! k = e \<and> ce_refs e \<noteq> 0 \<and>
        release_entry (le_ticket l) (Some i) (ts_entries s) = (ts_entries s)[k := e\<lparr>ce_refs := ce_refs e - 1\<rparr>]"
      then obtain k where k: "k < length (ts_entries s)" "e = ts_entries s ! k" "ce_refs e \<noteq> 0"
        "release_entry (le_ticket l) (Some i) (ts_entries s) = (ts_entries s)[k := e\<lparr>ce_refs := ce_refs e - 1\<rparr>]" by auto
      have u: "unat (ce_refs e - 1) = unat (ce_refs e) - 1" using k(3) by (simp add: unat_minus_one)
      have h: "holders b (as @ bs) + 1 \<le> unat (ce_refs e)" "unat (ce_refs e) \<le> n" "unat (ce_age e) \<le> n"
        using inv e by (auto simp: src_inv_def centry_ok_def holders_append holders_Cons)
      show ?thesis unfolding r k(4)
        by (rule src_inv_update [OF fewer k(1,2), where r = "ce_refs e - 1" and a = "ce_age e"]) (use u h e(2) in auto)
    qed
  qed
qed

section \<open>The background worker\<close>

lemma src_inv_publish: "src_inv n g0 tier (publish p f s) ls = src_inv n g0 tier s ls"
  by (auto simp: publish_def elim!: src_inv_cong)

lemma io_serve_cases:
  assumes sf: "sound_file g0" and sm: "same_file g0 (ts_file s)"
  shows "\<exists>g. same_file g0 g \<and> (g_map (ts_file s) \<noteq> None \<longrightarrow> g_map g \<noteq> None) \<and>
    (io_serve env r s = Some (publish (rq_io_entry r) io_failed (s\<lparr>ts_file := g\<rparr>)) \<or>
     (\<exists>i. vg_gguf_find_tensor (Some g0) (Some (rq_name r)) = Some i \<and> io_serve env r s = Some (publish (rq_io_entry r)
        (\<lambda>pe. pe\<lparr>pe_data := Some (length (ts_heap s)), pe_bytes := t_nbytes (tensor_of g0 i), pe_ready := True, pe_error := False\<rparr>)
        (s\<lparr>ts_file := g, ts_heap := ts_heap s @ [Some (tensor_bytes g0 i)]\<rparr>))))"
proof (cases "vg_gguf_find_tensor (Some g0) (Some (rq_name r))")
  case None
  then have "io_serve env r s = Some (publish (rq_io_entry r) io_failed (s\<lparr>ts_file := ts_file s\<rparr>))"
    using sm by (simp add: io_serve_def)
  with sm show ?thesis by blast
next
  case (Some i)
  obtain rr g where g: "vg_gguf_read env (Some (ts_file s)) (Some (tensor_of g0 i)) 0 True (t_nbytes (tensor_of g0 i)) = (rr, Some g)"
    "same_file g0 g" "rr = ReadFailed VG_E_IO \<or> rr = ReadOK (tensor_bytes g0 i)"
    using same_file_read_all [OF sf sm Some] by blast
  have "g_map (ts_file s) \<noteq> None \<Longrightarrow> g_map g \<noteq> None"
    using g(1) by (auto simp: vg_gguf_read_def Let_def vg_gguf_map_def split: if_splits)
  moreover have "io_serve env r s = Some (publish (rq_io_entry r) io_failed (s\<lparr>ts_file := g\<rparr>)) \<or>
     io_serve env r s = Some (publish (rq_io_entry r)
        (\<lambda>pe. pe\<lparr>pe_data := Some (length (ts_heap s)), pe_bytes := t_nbytes (tensor_of g0 i), pe_ready := True, pe_error := False\<rparr>)
        (s\<lparr>ts_file := g, ts_heap := ts_heap s @ [Some (tensor_bytes g0 i)]\<rparr>))"
    using sm Some g(1,3) by (auto simp: io_serve_def ts_alloc_def)
  ultimately show ?thesis using g(2) Some by blast
qed

lemma src_inv_serve:
  assumes sf: "sound_file g0" and inv: "src_inv n g0 tier s ls" and r: "io_serve env r s = Some s'"
  shows "src_inv n g0 tier s' ls"
proof -
  have sm: "same_file g0 (ts_file s)" using inv by (simp add: src_inv_def)
  obtain g where g: "same_file g0 g" "g_map (ts_file s) \<noteq> None \<longrightarrow> g_map g \<noteq> None"
    "(\<exists>f. s' = publish (rq_io_entry r) f (s\<lparr>ts_file := g\<rparr>)) \<or>
     (\<exists>f d. s' = publish (rq_io_entry r) f (s\<lparr>ts_file := g, ts_heap := ts_heap s @ [Some d]\<rparr>))"
    using io_serve_cases [OF sf sm, of env r] r by fastforce
  have "src_inv n g0 tier (s\<lparr>ts_file := g\<rparr>) ls" using src_inv_file [OF inv g(1)] g(2) by blast
  with src_inv_alloc [OF this] g(3) show ?thesis by (auto simp: src_inv_publish)
qed

section \<open>Reachable states\<close>

text \<open>A client that uses tier \<open>tier i\<close> for tensor \<open>i\<close>. The number counts the tensors it asks for.\<close>

definition uses :: "vg_gguf \<Rightarrow> (nat \<Rightarrow> vg_tier) \<Rightarrow> vg_tier \<Rightarrow> bytes \<Rightarrow> bool" where
  "uses g0 tier d name \<longleftrightarrow> (\<forall>i. vg_gguf_find_tensor (Some g0) (Some name) = Some i \<longrightarrow> tier i = d)"

inductive ts_reach :: "io_env \<Rightarrow> vg_gguf \<Rightarrow> (nat \<Rightarrow> vg_tier) \<Rightarrow> nat \<Rightarrow> vg_tensorsource \<Rightarrow> vg_tensorlease list \<Rightarrow> bool"
  for env g0 tier where
  opened: "vg_tensor_source_open (Some g0) cfg = Inr s \<Longrightarrow> ts_reach env g0 tier 0 s []"
| acquire: "ts_reach env g0 tier n s ls \<Longrightarrow> uses g0 tier d name \<Longrightarrow>
    vg_tensor_acquire env (Some name) d s = Some (st, l, s') \<Longrightarrow> ts_reach env g0 tier (Suc n) s' (if st = VG_OK then l # ls else ls)"
| release: "ts_reach env g0 tier n s (as @ l # bs) \<Longrightarrow> ts_reach env g0 tier n (vg_tensor_release l s) (as @ bs)"
| prefetch: "ts_reach env g0 tier n s ls \<Longrightarrow> \<forall>name \<in> set names. uses g0 tier d name \<Longrightarrow>
    vg_tensor_prefetch env names d s = Some (st, s') \<Longrightarrow> ts_reach env g0 tier (n + length names) s' ls"
| prefetch_after: "ts_reach env g0 tier n s ls \<Longrightarrow> \<forall>t \<in> set (the (g_tensors g0)). uses g0 tier VG_TIER_HOST (t_name t) \<Longrightarrow>
    vg_tensor_prefetch_after env name depth s = Some (st, s') \<Longrightarrow> ts_reach env g0 tier (n + unat depth) s' ls"
| prefetch_async: "ts_reach env g0 tier n s ls \<Longrightarrow> uses g0 tier d name \<Longrightarrow>
    vg_tensor_prefetch_async env name d p s = Some (st, s') \<Longrightarrow> ts_reach env g0 tier (Suc n) s' ls"
| serve: "ts_reach env g0 tier n s ls \<Longrightarrow> ts_io_queue s = r # rs \<Longrightarrow>
    io_serve env r (s\<lparr>ts_io_queue := rs\<rparr>) = Some s' \<Longrightarrow> ts_reach env g0 tier n s' ls"

lemma src_inv_open:
  assumes "sound_file g0" and "vg_tensor_source_open (Some g0) cfg = Inr s"
  shows "src_inv 0 g0 tier s []"
proof -
  have "same_file g0 (g0\<lparr>g_direct_io := True\<rparr>)"
  proof -
    have "g_map g0 = None"
      using assms(1) vg_gguf_open_OK [of "g_file g0" g0] by (auto simp: sound_file_def opened_ok_def)
    then have "g0\<lparr>g_direct_io := True\<rparr> = g0\<lparr>g_direct_io := True, g_map := None\<rparr>" by simp
    then show ?thesis unfolding same_file_def by blast
  qed
  moreover have "ts_file s = g0 \<or> ts_file s = g0\<lparr>g_direct_io := True\<rparr>" "ts_entries s = []" "ts_clock s = 0" "ts_next_ticket s = 0"
    using assms(2) by (auto simp: vg_tensor_source_open_def vg_gguf_set_direct_io_def Let_def split: if_splits)
  ultimately show ?thesis using same_file_open [OF assms(1)] by (auto simp: src_inv_def private_ptrs_def)
qed

text \<open>Acquiring under any name: a lease on the tensor of that name, or a failure that leaves the leases alone.\<close>

lemma acquire_any:
  assumes sf: "sound_file g0" and inv: "src_inv n g0 tier s ls" and u: "uses g0 tier d name" and n: "n < 2 ^ 64 - 1"
  shows "\<exists>st l s'. vg_tensor_acquire env (Some name) d s = Some (st, l, s') \<and>
    (if st = VG_OK then src_inv (Suc n) g0 tier s' (l # ls) \<and> le_tensor l \<noteq> None \<and> le_tensor l = vg_gguf_find_tensor (Some g0) (Some name)
     else src_inv (Suc n) g0 tier s' ls)"
proof (cases "vg_gguf_find_tensor (Some g0) (Some name)")
  case None
  have "same_file g0 (ts_file s)" using inv by (simp add: src_inv_def)
  from acquire_unknown [OF this None] src_inv_mono [OF inv] show ?thesis by simp
next
  case (Some i)
  then have "tier i = d" using u by (simp add: uses_def)
  with src_inv_acquire [OF sf inv Some n, of env] obtain st l s' where a:
    "vg_tensor_acquire env (Some name) d s = Some (st, l, s')"
    "if st = VG_OK then src_inv (Suc n) g0 tier s' (l # ls) \<and> le_tensor l = Some i else src_inv n g0 tier s' ls"
    by (auto simp: acquired_def)
  from a(2) have "if st = VG_OK then src_inv (Suc n) g0 tier s' (l # ls) \<and> le_tensor l = Some i else src_inv (Suc n) g0 tier s' ls"
    using src_inv_mono [of n g0 tier s' ls "Suc n"] by (auto split: if_splits)
  with a(1) Some show ?thesis by auto
qed

lemma src_inv_prefetch:
  assumes sf: "sound_file g0"
  shows "src_inv n g0 tier s ls \<Longrightarrow> \<forall>name \<in> set names. uses g0 tier d name \<Longrightarrow> n + length names < 2 ^ 64 \<Longrightarrow>
    \<exists>st s'. vg_tensor_prefetch env names d s = Some (st, s') \<and> src_inv (n + length names) g0 tier s' ls"
proof (induction names arbitrary: n s)
  case (Cons name names)
  have "uses g0 tier d name" "n < 2 ^ 64 - 1" using Cons.prems by simp_all
  then obtain st l s1 where a: "vg_tensor_acquire env (Some name) d s = Some (st, l, s1)"
    "if st = VG_OK then src_inv (Suc n) g0 tier s1 (l # ls) else src_inv (Suc n) g0 tier s1 ls"
    using acquire_any [OF sf Cons.prems(1), of d name env] by (metis (no_types))
  show ?case
  proof (cases "st = VG_OK")
    case True
    define s2 where "s2 = vg_tensor_release l s1"
    have "src_inv (Suc n) g0 tier s2 ls"
      using src_inv_release [of "Suc n" g0 tier s1 "[]" l ls] a(2) True by (simp add: s2_def)
    then have "src_inv (Suc n) g0 tier (s2\<lparr>ts_stats := (ts_stats s2)\<lparr>tt_prefetches := tt_prefetches (ts_stats s2) + 1\<rparr>\<rparr>) ls"
      by (simp add: count_inv)
    from Cons.IH [OF this] Cons.prems a(1) True show ?thesis by (simp add: s2_def Let_def)
  next
    case False
    with a src_inv_mono [of "Suc n" g0 tier s1 ls "n + length (name # names)"] show ?thesis by simp
  qed
qed simp

lemma src_inv_prefetch_each:
  assumes sf: "sound_file g0"
  shows "src_inv n g0 tier s ls \<Longrightarrow> \<forall>t \<in> set ts. uses g0 tier VG_TIER_HOST (t_name t) \<Longrightarrow> n + length ts < 2 ^ 64 \<Longrightarrow>
    \<exists>s'. prefetch_each env ts s = Some s' \<and> src_inv (n + length ts) g0 tier s' ls"
proof (induction ts arbitrary: n s)
  case (Cons t ts)
  have u: "uses g0 tier VG_TIER_HOST (t_name t)" "n < 2 ^ 64 - 1" using Cons.prems by simp_all
  have rest: "\<exists>s'. prefetch_each env ts s1 = Some s' \<and> src_inv (n + length (t # ts)) g0 tier s' ls"
    if "src_inv (Suc n) g0 tier s1 ls" for s1
    using Cons.IH [OF that] Cons.prems by simp
  obtain st l s1 where a: "vg_tensor_acquire env (Some (t_name t)) VG_TIER_HOST s = Some (st, l, s1)"
    "if st = VG_OK then src_inv (Suc n) g0 tier s1 (l # ls) else src_inv (Suc n) g0 tier s1 ls"
    using acquire_any [OF sf Cons.prems(1) u, of env] by (metis (no_types))
  show ?case
  proof (cases "t_nbytes t \<le> 8 * 1024 * 1024 \<and> st = VG_OK")
    case True
    define s2 where "s2 = vg_tensor_release l s1"
    have "src_inv (Suc n) g0 tier s2 ls"
      using src_inv_release [of "Suc n" g0 tier s1 "[]" l ls] a(2) True by (simp add: s2_def)
    then have "src_inv (Suc n) g0 tier (s2\<lparr>ts_stats := (ts_stats s2)\<lparr>tt_prefetch_hits := tt_prefetch_hits (ts_stats s2) + 1\<rparr>\<rparr>) ls"
      by (simp add: count_inv)
    from rest [OF this] a(1) True show ?thesis by (simp add: s2_def Let_def)
  next
    case False
    show ?thesis
    proof (cases "t_nbytes t \<le> 8 * 1024 * 1024")
      case True
      with False have "st \<noteq> VG_OK" by simp
      with True a rest show ?thesis by simp
    next
      case False
      with rest [OF src_inv_mono [OF Cons.prems(1)]] show ?thesis by simp
    qed
  qed
qed simp

lemma src_inv_prefetch_after:
  assumes sf: "sound_file g0" and inv: "src_inv n g0 tier s ls"
    and u: "\<forall>t \<in> set (the (g_tensors g0)). uses g0 tier VG_TIER_HOST (t_name t)" and n: "n + unat depth < 2 ^ 64"
  shows "\<exists>st s'. vg_tensor_prefetch_after env name depth s = Some (st, s') \<and> src_inv (n + unat depth) g0 tier s' ls"
proof -
  have same: "src_inv (n + unat depth) g0 tier s ls" using src_inv_mono [OF inv] by simp
  have sm: "same_file g0 (ts_file s)" using inv by (simp add: src_inv_def)
  show ?thesis
  proof (cases "vg_gguf_find_tensor (Some (ts_file s)) name")
    case None
    with same inv show ?thesis by (simp add: vg_tensor_prefetch_after_def)
  next
    case (Some i)
    define ts where "ts = take (unat depth) (drop (i + 1) (the (g_tensors (ts_file s))))"
    have "set ts \<subseteq> set (the (g_tensors g0))" using sm by (auto simp: ts_def dest: in_set_takeD in_set_dropD)
    moreover have "length ts \<le> unat depth" by (simp add: ts_def)
    ultimately obtain s' where s': "prefetch_each env ts s = Some s'" "src_inv (n + unat depth) g0 tier s' ls"
      using src_inv_prefetch_each [OF sf inv, of ts env] u n src_inv_mono [of "n + length ts" g0 tier _ ls "n + unat depth"]
      by (metis add_le_cancel_left le_less_trans subsetD)
    with Some same inv show ?thesis by (simp add: vg_tensor_prefetch_after_def ts_def)
  qed
qed

lemma reach_src_inv:
  assumes sf: "sound_file g0"
  shows "ts_reach env g0 tier n s ls \<Longrightarrow> n < 2 ^ 64 \<Longrightarrow> src_inv n g0 tier s ls"
proof (induction rule: ts_reach.induct)
  case (opened cfg s)
  then show ?case using src_inv_open [OF sf] by blast
next
  case (acquire n s ls d name st l s')
  have "src_inv n g0 tier s ls" "n < 2 ^ 64 - 1" using acquire by simp_all
  from acquire_any [OF sf this(1) acquire(2) this(2), of env] acquire(3) show ?case
    by (auto split: if_splits)
next
  case (release n s as l bs)
  then show ?case using src_inv_release by blast
next
  case (prefetch n s ls names d st s')
  have "src_inv n g0 tier s ls" using prefetch by simp
  from src_inv_prefetch [OF sf this prefetch(2,5), of env] prefetch(3) show ?case by simp
next
  case (prefetch_after n s ls name depth st s')
  have "src_inv n g0 tier s ls" using prefetch_after by simp
  from src_inv_prefetch_after [OF sf this prefetch_after(2,5), of env name] prefetch_after(3) show ?case by simp
next
  case (prefetch_async n s ls d name p st s')
  define s1 where "s1 = s\<lparr>ts_callers := (ts_callers s)[p := \<lparr>pe_name = name, pe_tier = d, pe_data = None, pe_bytes = 0,
    pe_ready = False, pe_error = False\<rparr>]\<rparr>"
  have inv: "src_inv n g0 tier s ls" using prefetch_async by simp
  have inv1: "src_inv n g0 tier s1 ls" unfolding s1_def by (rule src_inv_cong [OF inv]) simp_all
  show ?case
  proof (cases "ts_io_thread s")
    case True
    with prefetch_async(3) have "s' = s1\<lparr>ts_io_queue := ts_io_queue s @ [\<lparr>rq_name = name, rq_tier = d, rq_io_entry = p\<rparr>]\<rparr>"
      by (simp add: vg_tensor_prefetch_async_def s1_def)
    with src_inv_cong [OF inv1, of s'] show ?thesis by (auto intro: src_inv_mono)
  next
    case False
    then have "vg_tensor_prefetch env [name] d s1 = Some (st, s')"
      using prefetch_async(3) by (simp add: vg_tensor_prefetch_async_def s1_def del: vg_tensor_prefetch.simps)
    with src_inv_prefetch [OF sf inv1, of "[name]" d env] prefetch_async(2,5) show ?thesis
      by (simp del: vg_tensor_prefetch.simps)
  qed
next
  case (serve n s ls r rs s')
  have inv: "src_inv n g0 tier s ls" using serve by simp
  have "src_inv n g0 tier (s\<lparr>ts_io_queue := rs\<rparr>) ls" by (rule src_inv_cong [OF inv]) simp_all
  from src_inv_serve [OF sf this serve(3)] show ?case .
qed

lemma lease_ok_bytes:
  assumes "src_inv n g0 tier s ls" and "l \<in> set ls"
  shows "\<exists>i. le_tensor l = Some i \<and> lease_bytes s l = Some (tensor_bytes g0 i) \<and> le_size l = t_nbytes (tensor_of g0 i)"
proof -
  have "lease_ok g0 s l" using assms by (simp add: src_inv_def)
  moreover have "\<forall>e \<in> set (ts_entries s). ce_data e < length (ts_heap s) \<and> ts_heap s ! ce_data e = Some (tensor_bytes g0 (ce_tensor e))"
    using assms(1) by (simp add: src_inv_def centry_ok_def)
  ultimately show ?thesis
    by (auto simp: lease_ok_def lease_bytes_def split: lease_ptr.splits if_splits)
qed

section \<open>Eviction\<close>

lemma scan_victim_least:
  "scan_victim es i best age = Some v \<Longrightarrow> best = Some b \<longrightarrow> b < i \<Longrightarrow>
     (best = Some v \<and> (\<forall>e \<in> set es. ce_owns e \<and> ce_refs e = 0 \<longrightarrow> age \<le> ce_age e)) \<or>
     (i \<le> v \<and> v < i + length es \<and> ce_age (es ! (v - i)) < age \<and>
        (\<forall>e \<in> set es. ce_owns e \<and> ce_refs e = 0 \<longrightarrow> ce_age (es ! (v - i)) \<le> ce_age e))"
proof (induction es arbitrary: i best age b)
  case (Cons e es)
  show ?case
  proof (cases "ce_owns e \<and> ce_refs e = 0 \<and> ce_age e < age")
    case True
    then have "scan_victim es (Suc i) (Some i) (ce_age e) = Some v" using Cons.prems(1) by simp
    from Cons.IH [OF this, of i] True show ?thesis by (auto simp: nth_Cons')
  next
    case False
    have "scan_victim es (Suc i) best age = Some v"
      using Cons.prems(1) unfolding scan_victim.simps if_not_P [OF False] .
    from Cons.IH [OF this, of b] Cons.prems(2) False show ?thesis by (auto simp: nth_Cons')
  qed
qed simp

lemma scan_victim_None:
  "scan_victim es i best age = None \<Longrightarrow> best = None \<and> (\<forall>e \<in> set es. ce_owns e \<and> ce_refs e = 0 \<longrightarrow> age \<le> ce_age e)"
proof (induction es arbitrary: i best age)
  case (Cons e es)
  show ?case
  proof (cases "ce_owns e \<and> ce_refs e = 0 \<and> ce_age e < age")
    case True
    then show ?thesis using Cons.prems Cons.IH [of "Suc i" "Some i" "ce_age e"] by simp
  next
    case False
    have "scan_victim es (Suc i) best age = None"
      using Cons.prems(1) unfolding scan_victim.simps if_not_P [OF False] .
    from Cons.IH [OF this] False show ?thesis by auto
  qed
qed simp

lemma cache_victim_oldest:
  "cache_victim es = Some v \<Longrightarrow> e \<in> set es \<Longrightarrow> ce_owns e \<Longrightarrow> ce_refs e = 0 \<Longrightarrow> ce_age (es ! v) \<le> ce_age e"
  unfolding cache_victim_def using scan_victim_least [of es 0 None UINT64_MAX v] by auto

lemma remove_entry_entries:
  "v < length (ts_entries s) \<Longrightarrow> ts_entries (remove_entry v s) = take v (ts_entries s) @ drop (Suc v) (ts_entries s)"
  by (simp add: remove_entry_def Let_def ts_free_def)

lemma subseq_set: "subseq xs ys \<Longrightarrow> set xs \<subseteq> set ys"
  by (auto elim: list_emb_set)

lemma subseq_remove: "subseq (take v es @ drop (Suc v) es) es"
proof (cases "v < length es")
  case True
  have "subseq (take v es @ drop (Suc v) es) (take v es @ es ! v # drop (Suc v) es)"
    by (intro list_emb_append_mono) auto
  then show ?thesis using id_take_nth_drop [OF True] by simp
qed simp

definition evicted_ok :: "vg_cacheentry list \<Rightarrow> vg_cacheentry list \<Rightarrow> bool" where
  "evicted_ok es es' \<longleftrightarrow> subseq es' es \<and>
     (\<forall>e \<in> set es - set es'. ce_refs e = 0 \<and> (\<forall>e' \<in> set es'. ce_refs e' = 0 \<longrightarrow> ce_age e \<le> ce_age e'))"

lemma evict_entries_lru:
  "\<forall>e \<in> set (ts_entries s). ce_owns e \<and> ce_age e \<noteq> UINT64_MAX \<Longrightarrow>
   evicted_ok (ts_entries s) (ts_entries (evict_entries budget need s)) \<and>
   (let es = ts_entries (evict_entries budget need s)
    in (resident_bytes es \<le> budget \<and> (need \<noteq> 0 \<longrightarrow> resident_bytes es \<le> budget - need)) \<or> (\<forall>e \<in> set es. ce_refs e \<noteq> 0))"
proof (induction budget need s rule: evict_entries.induct)
  case (1 budget need s)
  define over where "over \<longleftrightarrow> resident_bytes (ts_entries s) > budget \<or> (need \<noteq> 0 \<and> resident_bytes (ts_entries s) > budget - need)"
  show ?case
  proof (cases over)
    case False
    then have "evict_entries budget need s = s" by (subst evict_entries.simps) (auto simp: over_def)
    with False show ?thesis by (auto simp: over_def Let_def evicted_ok_def not_less)
  next
    case o: True
    show ?thesis
    proof (cases "cache_victim (ts_entries s)")
      case None
      then have "evict_entries budget need s = s" by (subst evict_entries.simps) simp
      moreover have "ce_refs e \<noteq> 0" if "e \<in> set (ts_entries s)" for e
      proof
        assume "ce_refs e = 0"
        then have "UINT64_MAX \<le> ce_age e"
          using scan_victim_None [OF None [unfolded cache_victim_def]] 1(2) that by blast
        then show False using 1(2) that by (simp add: word_order.extremum_unique)
      qed
      ultimately show ?thesis by (simp add: Let_def evicted_ok_def)
    next
      case (Some v)
      note v = cache_victim_range [OF Some]
      let ?es = "ts_entries s" and ?es1 = "ts_entries (remove_entry v s)" and ?es2 = "ts_entries (evict_entries budget need (remove_entry v s))"
      have step: "evict_entries budget need s = evict_entries budget need (remove_entry v s)"
        using o Some by (subst evict_entries.simps) (simp add: over_def)
      have sub: "subseq ?es1 ?es" using v subseq_remove by (simp add: remove_entry_entries)
      then have incl: "set ?es1 \<subseteq> set ?es" by (rule subseq_set)
      then have ih: "evicted_ok ?es1 ?es2"
        "(resident_bytes ?es2 \<le> budget \<and> (need \<noteq> 0 \<longrightarrow> resident_bytes ?es2 \<le> budget - need)) \<or> (\<forall>e \<in> set ?es2. ce_refs e \<noteq> 0)"
        using 1(1) [OF _ Some] 1(2) o by (auto simp: over_def Let_def)
      have sub2: "subseq ?es2 ?es" "set ?es2 \<subseteq> set ?es"
        using ih(1) sub subseq_order.trans subseq_set by (auto simp: evicted_ok_def) blast
      have "ce_refs e = 0 \<and> (\<forall>e' \<in> set ?es2. ce_refs e' = 0 \<longrightarrow> ce_age e \<le> ce_age e')" if e: "e \<in> set ?es - set ?es2" for e
      proof (cases "e \<in> set ?es1")
        case True
        with ih(1) e show ?thesis by (simp add: evicted_ok_def)
      next
        case False
        have "set ?es \<subseteq> insert (?es ! v) (set ?es1)"
        proof -
          have "set ?es = set (take v ?es @ ?es ! v # drop (Suc v) ?es)" using v by (simp flip: id_take_nth_drop)
          then show ?thesis using v by (simp add: remove_entry_entries)
        qed
        then have "e = ?es ! v" using False e by blast
        with cache_victim_oldest [OF Some] v sub2(2) 1(2) show ?thesis by blast
      qed
      with sub2(1) ih(2) step show ?thesis by (simp add: evicted_ok_def Let_def)
    qed
  qed
qed

lemma room_nat:
  fixes r need budget :: u64
  assumes "need \<le> budget" and "r \<le> budget" and "need \<noteq> 0 \<longrightarrow> r \<le> budget - need"
  shows "unat r + unat need \<le> unat budget"
  using assms unat_sub [OF assms(1)] by (cases "need = 0") (auto simp: word_le_nat_alt)


section \<open>Background loads\<close>

definition served :: "vg_gguf \<Rightarrow> vg_tensorsource \<Rightarrow> vg_iorequest \<Rightarrow> bool" where
  "served g0 s r \<longleftrightarrow> (let pe = ts_callers s ! rq_io_entry r; find = vg_gguf_find_tensor (Some g0) (Some (rq_name r)) in
     pe_ready pe \<and> (find = None \<longrightarrow> pe_error pe) \<and>
     (\<not> pe_error pe \<longrightarrow> (\<exists>i b. find = Some i \<and> pe_data pe = Some b \<and> b < length (ts_heap s)
        \<and> ts_heap s ! b = Some (tensor_bytes g0 i) \<and> pe_bytes pe = t_nbytes (tensor_of g0 i))))"

text \<open>Serving one request completes its entry and keeps what was loaded before.\<close>

lemma io_serve_step:
  assumes sf: "sound_file g0" and sm: "same_file g0 (ts_file s)" and p: "rq_io_entry r < length (ts_callers s)"
  shows "\<exists>s'. io_serve env r s = Some s' \<and> same_file g0 (ts_file s') \<and> served g0 s' r
    \<and> ts_io_queue s' = ts_io_queue s \<and> ts_io_running s' = ts_io_running s \<and> length (ts_callers s') = length (ts_callers s)
    \<and> (\<forall>r'. rq_io_entry r' \<noteq> rq_io_entry r \<longrightarrow> served g0 s r' \<longrightarrow> served g0 s' r')"
proof -
  obtain g where g: "same_file g0 g" and cases:
    "io_serve env r s = Some (publish (rq_io_entry r) io_failed (s\<lparr>ts_file := g\<rparr>)) \<or>
     (\<exists>i. vg_gguf_find_tensor (Some g0) (Some (rq_name r)) = Some i \<and> io_serve env r s = Some (publish (rq_io_entry r)
        (\<lambda>pe. pe\<lparr>pe_data := Some (length (ts_heap s)), pe_bytes := t_nbytes (tensor_of g0 i), pe_ready := True, pe_error := False\<rparr>)
        (s\<lparr>ts_file := g, ts_heap := ts_heap s @ [Some (tensor_bytes g0 i)]\<rparr>)))"
    using io_serve_cases [OF sf sm, of env r] by (elim exE conjE) (rule that)
  from cases show ?thesis
  proof
    assume a: "io_serve env r s = Some (publish (rq_io_entry r) io_failed (s\<lparr>ts_file := g\<rparr>))"
    show ?thesis unfolding a using g p
      by (auto simp: publish_def io_failed_def served_def Let_def)
  next
    assume "\<exists>i. vg_gguf_find_tensor (Some g0) (Some (rq_name r)) = Some i \<and> io_serve env r s = Some (publish (rq_io_entry r)
        (\<lambda>pe. pe\<lparr>pe_data := Some (length (ts_heap s)), pe_bytes := t_nbytes (tensor_of g0 i), pe_ready := True, pe_error := False\<rparr>)
        (s\<lparr>ts_file := g, ts_heap := ts_heap s @ [Some (tensor_bytes g0 i)]\<rparr>))"
    then obtain i where i: "vg_gguf_find_tensor (Some g0) (Some (rq_name r)) = Some i" and a: "io_serve env r s = Some (publish (rq_io_entry r)
        (\<lambda>pe. pe\<lparr>pe_data := Some (length (ts_heap s)), pe_bytes := t_nbytes (tensor_of g0 i), pe_ready := True, pe_error := False\<rparr>)
        (s\<lparr>ts_file := g, ts_heap := ts_heap s @ [Some (tensor_bytes g0 i)]\<rparr>))" by blast
    define s1 where "s1 = publish (rq_io_entry r)
        (\<lambda>pe. pe\<lparr>pe_data := Some (length (ts_heap s)), pe_bytes := t_nbytes (tensor_of g0 i), pe_ready := True, pe_error := False\<rparr>)
        (s\<lparr>ts_file := g, ts_heap := ts_heap s @ [Some (tensor_bytes g0 i)]\<rparr>)"
    have f: "ts_file s1 = g" "ts_io_queue s1 = ts_io_queue s" "ts_io_running s1 = ts_io_running s"
      "length (ts_callers s1) = length (ts_callers s)" "ts_heap s1 = ts_heap s @ [Some (tensor_bytes g0 i)]"
      "\<And>q. q \<noteq> rq_io_entry r \<Longrightarrow> ts_callers s1 ! q = ts_callers s ! q"
      "ts_callers s1 ! rq_io_entry r = (ts_callers s ! rq_io_entry r)\<lparr>pe_data := Some (length (ts_heap s)),
         pe_bytes := t_nbytes (tensor_of g0 i), pe_ready := True, pe_error := False\<rparr>"
      using p by (simp_all add: s1_def publish_def)
    have "served g0 s1 r" using i by (simp add: served_def f Let_def)
    moreover have "served g0 s1 r'" if "rq_io_entry r' \<noteq> rq_io_entry r" "served g0 s r'" for r'
      using that(2) f(6) [OF that(1)] by (fastforce simp: served_def f(5) Let_def nth_append)
    ultimately show ?thesis unfolding a s1_def [symmetric] using g f by blast
  qed
qed

lemma io_worker_drains:
  assumes sf: "sound_file g0"
  shows "same_file g0 (ts_file s) \<Longrightarrow> distinct (map rq_io_entry (ts_io_queue s)) \<Longrightarrow>
    \<forall>r \<in> set (ts_io_queue s). rq_io_entry r < length (ts_callers s) \<Longrightarrow> length (ts_io_queue s) \<le> k \<Longrightarrow>
    \<exists>s'. io_worker env k s = Some s' \<and> ts_io_queue s' = [] \<and> (\<forall>r \<in> set (ts_io_queue s). served g0 s' r) \<and>
      (\<forall>r'. rq_io_entry r' \<notin> set (map rq_io_entry (ts_io_queue s)) \<longrightarrow> served g0 s r' \<longrightarrow> served g0 s' r')"
proof (induction k arbitrary: s)
  case (Suc k)
  show ?case
  proof (cases "ts_io_queue s")
    case Nil
    show ?thesis
    proof (cases "ts_io_running s")
      case True
      with Nil Suc.IH [of s] Suc.prems(1) show ?thesis by simp
    next
      case False
      with Nil show ?thesis by simp
    qed
  next
    case (Cons r rs)
    obtain s1 where s1: "io_serve env r (s\<lparr>ts_io_queue := rs\<rparr>) = Some s1" "same_file g0 (ts_file s1)" "served g0 s1 r"
      "ts_io_queue s1 = rs" "length (ts_callers s1) = length (ts_callers s)"
      "\<forall>r'. rq_io_entry r' \<noteq> rq_io_entry r \<longrightarrow> served g0 (s\<lparr>ts_io_queue := rs\<rparr>) r' \<longrightarrow> served g0 s1 r'"
      using io_serve_step [OF sf, of "s\<lparr>ts_io_queue := rs\<rparr>" r env] Suc.prems Cons by auto
    obtain s' where s': "io_worker env k s1 = Some s'" "ts_io_queue s' = []" "\<forall>r \<in> set rs. served g0 s' r"
      "\<forall>r'. rq_io_entry r' \<notin> set (map rq_io_entry rs) \<longrightarrow> served g0 s1 r' \<longrightarrow> served g0 s' r'"
      using Suc.IH [OF s1(2)] Suc.prems Cons s1(4,5) by auto
    have "served g0 (s\<lparr>ts_io_queue := rs\<rparr>) r' = served g0 s r'" for r' by (simp add: served_def)
    with s' s1 Suc.prems(2) Cons show ?thesis by auto
  qed
qed simp

text \<open>C33: a background load completes. Once the worker has run as many iterations as requests were queued, the
  queue is empty and waiting on the entry of any of them returns: with success and the bytes of the tensor
  of that name, or with \<^verbatim>\<open>VG_E_IO\<close>, which is certain when there is no such tensor.\<close>

theorem tensor_wait_returns:
  assumes "vg_gguf_open file = Opened g0" and "length file < 2 ^ 63" and "unat (g_data_base g0) \<le> length file"
    and "same_file g0 (ts_file s)" and "distinct (map rq_io_entry (ts_io_queue s))"
    and "\<forall>r \<in> set (ts_io_queue s). rq_io_entry r < length (ts_callers s)" and "length (ts_io_queue s) \<le> k"
    and "r \<in> set (ts_io_queue s)"
  shows "\<exists>s' st. io_worker env k s = Some s' \<and> ts_io_queue s' = [] \<and> vg_tensor_wait (rq_io_entry r) s' = Some st \<and>
    (st = VG_E_IO \<or> (st = VG_OK \<and> (\<exists>i b. vg_gguf_find_tensor (Some g0) (Some (rq_name r)) = Some i
        \<and> pe_data (ts_callers s' ! rq_io_entry r) = Some b \<and> ts_heap s' ! b = Some (tensor_bytes g0 i))))"
proof -
  have "g_file g0 = file" using vg_gguf_open_OK [OF assms(1)] by simp
  then have "sound_file g0" using assms(1-3) by (simp add: sound_file_def)
  from io_worker_drains [OF this assms(4-7), of env] assms(8)
  obtain s' where "io_worker env k s = Some s'" "ts_io_queue s' = []" "served g0 s' r" by blast
  then show ?thesis by (auto simp: served_def vg_tensor_wait_def Let_def)
qed

lemma evict_callers [simp]: "ts_callers (evict_for n s) = ts_callers s"
proof -
  have "ts_callers (evict_entries b n s) = ts_callers s" for b
  proof (induction b n s rule: evict_entries.induct)
    case (1 b n s)
    then show ?case
      by (subst evict_entries.simps) (auto simp: remove_entry_def Let_def ts_free_def split: option.split)
  qed
  then show ?thesis by (simp add: evict_for_def Let_def)
qed

lemma loaded_callers: "acquire_loaded i d n data s = (st, l, s') \<Longrightarrow> ts_callers s' = ts_callers s"
  by (auto simp: acquire_loaded_def cache_insert_def transient_lease_def ts_alloc_def Let_def split: if_splits)

lemma miss_callers: "acquire_miss env i t d s = Some (st, l, s') \<Longrightarrow> ts_callers s' = ts_callers s"
  by (auto simp: acquire_miss_def map_tensor_def Let_def dest!: loaded_callers split: if_splits prod.splits read_result.splits)

lemma cached_callers: "acquire_cached env i t d s = Some (st, l, s') \<Longrightarrow> ts_callers s' = ts_callers s"
  by (auto simp: acquire_cached_def acquire_hit_def count_lookup_def Let_def dest!: miss_callers split: option.splits)

lemma acquire_callers: "vg_tensor_acquire env name d s = Some (st, l, s') \<Longrightarrow> ts_callers s' = ts_callers s"
  by (auto simp: vg_tensor_acquire_def map_tensor_def count_lookup_def Let_def dest!: cached_callers
      split: option.splits if_splits prod.splits)

text \<open>Without a worker the entry is never marked ready: a caller that waits on it waits for ever.\<close>

lemma wait_without_worker:
  assumes "\<not> ts_io_thread s" and "p < length (ts_callers s)"
    and "vg_tensor_prefetch_async env name d p s = Some (st, s')"
  shows "vg_tensor_wait p s' = None"
  using assms acquire_callers
  by (fastforce simp: vg_tensor_prefetch_async_def vg_tensor_wait_def vg_tensor_release_def ts_free_def Let_def
        split: option.splits if_splits lease_ptr.splits)

section \<open>Streams\<close>

text \<open>A consumer that logs the chunks it is given and answers by \<open>f\<close>.\<close>

definition logging :: "(nat \<Rightarrow> bytes \<Rightarrow> vg_status) \<Rightarrow> bytes \<Rightarrow> u64 \<Rightarrow> (u64 \<times> bytes) list \<Rightarrow> vg_status \<times> (u64 \<times> bytes) list" where
  "logging f buf off lg = (f (length lg) buf, lg @ [(off, buf)])"

text \<open>The chunks of \<open>bs\<close> from \<open>off\<close> on.\<close>

definition in_order :: "bytes \<Rightarrow> nat \<Rightarrow> (u64 \<times> bytes) list \<Rightarrow> bool" where
  "in_order bs m lg \<longleftrightarrow> concat (map snd lg) = take (length (concat (map snd lg))) bs \<and>
     (\<forall>j < length lg. unat (fst (lg ! j)) = length (concat (map snd (take j lg))) \<and> length (snd (lg ! j)) \<le> m \<and> snd (lg ! j) \<noteq> [])"

lemma in_order_snoc:
  assumes "in_order bs m lg" and "length (concat (map snd lg)) = unat off" and "0 < k" and "k \<le> m" and "unat off + k \<le> length bs"
  shows "in_order bs m (lg @ [(off, slice bs (unat off) k)])
    \<and> length (concat (map snd (lg @ [(off, slice bs (unat off) k)]))) = unat off + k"
proof -
  have l: "length (slice bs (unat off) k) = k" using assms(5) by (rule length_slice)
  have "take (unat off) bs @ slice bs (unat off) k = take (unat off + k) bs"
    unfolding slice_def by (rule take_add [symmetric])
  then have "concat (map snd (lg @ [(off, slice bs (unat off) k)])) = take (unat off + k) bs"
    using assms(1,2) by (simp add: in_order_def)
  moreover have "unat (fst ((lg @ [(off, slice bs (unat off) k)]) ! j)) = length (concat (map snd (take j (lg @ [(off, slice bs (unat off) k)]))))
      \<and> length (snd ((lg @ [(off, slice bs (unat off) k)]) ! j)) \<le> m \<and> snd ((lg @ [(off, slice bs (unat off) k)]) ! j) \<noteq> []"
    if "j < length (lg @ [(off, slice bs (unat off) k)])" for j
  proof (cases "j < length lg")
    case True
    with assms(1) show ?thesis by (simp add: in_order_def nth_append)
  next
    case False
    with that have "j = length lg" by simp
    with assms(2-4) l show ?thesis by auto
  qed
  ultimately show ?thesis using assms(5) by (simp add: in_order_def)
qed

lemma stream_loop_log:
  assumes sf: "sound_file g0" and i: "vg_gguf_find_tensor (Some g0) name = Some i" and c: "chunk \<noteq> 0"
  shows "same_file g0 g \<Longrightarrow> unat off \<le> unat (t_nbytes (tensor_of g0 i)) \<Longrightarrow> in_order (tensor_bytes g0 i) (unat chunk) lg \<Longrightarrow>
    length (concat (map snd lg)) = unat off \<Longrightarrow>
    \<exists>st lg' g'. stream_loop env (tensor_of g0 i) chunk (logging f) off lg g = Some (st, lg', g')
      \<and> in_order (tensor_bytes g0 i) (unat chunk) lg' \<and> (st = VG_OK \<longrightarrow> concat (map snd lg') = tensor_bytes g0 i)"
proof (induction "unat (t_nbytes (tensor_of g0 i)) - unat off" arbitrary: off lg g rule: less_induct)
  case (less off lg g)
  let ?t = "tensor_of g0 i" and ?bs = "tensor_bytes g0 i"
  have len: "length ?bs = unat (t_nbytes ?t)" by (rule length_tensor_bytes [OF sf i])
  show ?case
  proof (cases "off < t_nbytes ?t")
    case False
    then have "unat off = unat (t_nbytes ?t)" using less(3) by (simp add: word_less_nat_alt)
    then have "concat (map snd lg) = ?bs" using less(4,5) len by (simp add: in_order_def)
    with False less(4) show ?thesis by (subst stream_loop.simps) simp
  next
    case True
    define n where "n = chunk_len ?t chunk off"
    have un: "unat n = min (unat (t_nbytes ?t) - unat off) (unat chunk)" "unat (off + n) = unat off + unat n"
      using chunk_len_unat [OF True, of chunk] by (simp_all add: n_def)
    have pos: "0 < unat n" "unat n \<le> unat chunk" "unat off + unat n \<le> unat (t_nbytes ?t)"
      using un(1) True c by (auto simp: word_less_nat_alt min_def simp flip: unat_gt_0)
    obtain r g1 where r: "vg_gguf_read env (Some g) (Some ?t) off True n = (r, Some g1)" "same_file g0 g1"
      "r = ReadFailed VG_E_IO \<or> r = ReadOK (slice ?bs (unat off) (unat n))"
      using same_file_read [OF sf less(2) i pos(3), of env] by blast
    let ?lg = "lg @ [(off, slice ?bs (unat off) (unat n))]"
    have snoc: "in_order ?bs (unat chunk) ?lg" "length (concat (map snd ?lg)) = unat (off + n)"
      using in_order_snoc [OF less(4,5) pos(1,2)] pos(3) len un(2) by simp_all
    have unf: "stream_loop env ?t chunk (logging f) off lg g = (if r = ReadFailed VG_E_IO then Some (VG_E_IO, lg, g1)
      else if f (length lg) (slice ?bs (unat off) (unat n)) = VG_OK then stream_loop env ?t chunk (logging f) (off + n) ?lg g1
      else Some (f (length lg) (slice ?bs (unat off) (unat n)), ?lg, g1))"
      using r(1,3) True c by (subst stream_loop.simps) (auto simp: n_def [symmetric] logging_def)
    show ?thesis
    proof (cases "r \<noteq> ReadFailed VG_E_IO \<and> f (length lg) (slice ?bs (unat off) (unat n)) = VG_OK")
      case True
      then have r2: "r = ReadOK (slice ?bs (unat off) (unat n))" using r(3) by simp
      have "\<exists>st lg' g'. stream_loop env ?t chunk (logging f) (off + n) ?lg g1 = Some (st, lg', g')
        \<and> in_order ?bs (unat chunk) lg' \<and> (st = VG_OK \<longrightarrow> concat (map snd lg') = ?bs)"
      proof -
        have dec: "unat (t_nbytes ?t) - unat (off + n) < unat (t_nbytes ?t) - unat off" using pos un(2) by linarith
        have le: "unat (off + n) \<le> unat (t_nbytes ?t)" using pos(3) un(2) by linarith
        show ?thesis by (rule less(1) [OF dec r(2) le snoc])
      qed
      with True show ?thesis by (simp add: unf)
    next
      case False
      with snoc(1) less(4) show ?thesis by (auto simp: unf)
    qed
  qed
qed


text \<open>streaming a tensor hands its bytes to the consumer in order: the chunks are non-empty and no longer than
  asked, each comes with its offset, together they are a prefix of the tensor, and all of it when the
  stream ends with success; a consumer that refuses a chunk, or a read that fails, ends it. A chunk size of
  zero stands for the configured one, which opening makes positive.\<close>

theorem tensor_stream_exact:
  assumes "vg_gguf_open file = Opened g0" and "length file < 2 ^ 63" and "unat (g_data_base g0) \<le> length file"
    and "same_file g0 (ts_file s)" and "vg_gguf_find_tensor (Some g0) (Some name) = Some i" and "tc_io_chunk_bytes (ts_cfg s) \<noteq> 0"
    and "sz = (if chunk = 0 then tc_io_chunk_bytes (ts_cfg s) else chunk)"
  shows "\<exists>st lg s'. vg_tensor_stream env (Some name) chunk (logging f) [] s = Some (st, lg, s') \<and>
    concat (map snd lg) = take (length (concat (map snd lg))) (tensor_bytes g0 i) \<and>
    (\<forall>j < length lg. unat (fst (lg ! j)) = length (concat (map snd (take j lg))) \<and> length (snd (lg ! j)) \<le> unat sz \<and> snd (lg ! j) \<noteq> []) \<and>
    (st = VG_OK \<longrightarrow> concat (map snd lg) = tensor_bytes g0 i)"
proof -
  have "g_file g0 = file" using vg_gguf_open_OK [OF assms(1)] by simp
  then have sf: "sound_file g0" using assms(1-3) by (simp add: sound_file_def)
  have c: "sz \<noteq> 0" using assms(6,7) by simp
  have start: "in_order (tensor_bytes g0 i) (unat sz) []" "length (concat (map snd ([] :: (u64 \<times> bytes) list))) = unat (0 :: u64)"
    "unat (0 :: u64) \<le> unat (t_nbytes (tensor_of g0 i))"
    by (simp_all add: in_order_def)
  obtain st lg g' where "stream_loop env (tensor_of g0 i) sz (logging f) 0 [] (ts_file s) = Some (st, lg, g')"
    "in_order (tensor_bytes g0 i) (unat sz) lg" "st = VG_OK \<longrightarrow> concat (map snd lg) = tensor_bytes g0 i"
    using stream_loop_log [OF sf assms(5) c assms(4) start(3,1,2), of env f] by blast
  with assms(4,5,7) show ?thesis by (simp add: vg_tensor_stream_def in_order_def)
qed

section \<open>The leases\<close>


section \<open>Runs on a small file\<close>

text \<open>The leases are kept in the order they were acquired, the released ones too.\<close>

datatype ts_cmd = Acq bytes vg_tier | Rel nat

fun run_client :: "io_env \<Rightarrow> ts_cmd list \<Rightarrow> vg_tensorsource \<Rightarrow> vg_tensorlease list \<Rightarrow> (vg_tensorsource \<times> vg_tensorlease list) option" where
  "run_client env [] s ls = Some (s, ls)"
| "run_client env (Acq name d # cs) s ls =
     (case vg_tensor_acquire env (Some name) d s of None \<Rightarrow> None | Some (st, l, s') \<Rightarrow> run_client env cs s' (ls @ [l]))"
| "run_client env (Rel k # cs) s ls = run_client env cs (vg_tensor_release (ls ! k) s) ls"

definition sample_env :: io_env where
  "sample_env = \<lparr>io_map = True, io_open_direct = True\<rparr>"

definition sample_source :: vg_tensorsource where
  "sample_source = \<lparr>ts_file = sample_gguf\<lparr>g_map := Some sample_file\<rparr>,
     ts_cfg = default_tsconfig\<lparr>tc_host_budget_bytes := 16, tc_pinned_budget_bytes := 16\<rparr>,
     ts_entries = [], ts_capacity = 0, ts_clock = 0, ts_next_ticket = 0, ts_stats = zero_tsstats, ts_io_thread = False,
     ts_io_running = False, ts_io_queue = [], ts_heap = [], ts_callers = []\<rparr>"

lemma sample_sound: "sound_file sample_gguf"
  using sample_open sample_tensor_at(2,3) by (simp add: sound_file_def sample_gguf_def new_gguf_def)

lemma sample_find: "vg_gguf_find_tensor (Some sample_gguf) (Some [119]) = Some 0"
proof -
  have "t_name sample_tensor = [119]" by (simp add: sample_tensor_def)
  then show ?thesis
    using gguf_find_tensor_first_aux [OF sample_open sample_tensor_at(4), of "[119]"] by (auto split: option.splits)
qed

lemma sample_read: "vg_gguf_read env (Some (sample_gguf\<lparr>g_map := Some sample_file\<rparr>)) (Some sample_tensor) 0 True 8 =
    (ReadOK sample_data, Some (sample_gguf\<lparr>g_map := Some sample_file\<rparr>))"
  by (simp add: vg_gguf_read_def Let_def sample_tensor_at sample_gguf_def new_gguf_def sample_tensor_def slice_def
      sample_file_def sample_head_def sample_meta_def sample_index_def sample_data_def)

lemma sample_acquire:
  assumes "ts_file s = sample_gguf\<lparr>g_map := Some sample_file\<rparr>" and "d \<noteq> VG_TIER_STORAGE"
  shows "vg_tensor_acquire env (Some [119]) d s =
    (case find_entry (ts_entries s) 0 d of
       Some k \<Rightarrow> Some (acquire_hit 0 k (count_lookup s))
     | None \<Rightarrow> Some (acquire_loaded 0 d 8 sample_data
         ((count_lookup s)\<lparr>ts_stats := (ts_stats (count_lookup s))\<lparr>tt_misses := tt_misses (ts_stats (count_lookup s)) + 1\<rparr>\<rparr>)))"
proof -
  have sm: "same_file sample_gguf (ts_file s)"
    unfolding assms(1) same_file_def
    by (intro exI [of _ "g_direct_io sample_gguf"] exI [of _ "Some sample_file"]) (simp add: sample_gguf_def new_gguf_def)
  have f: "vg_gguf_find_tensor (Some (ts_file s)) (Some [119]) = Some 0" "tensor_of (ts_file s) 0 = sample_tensor"
    using sm sample_find by (simp_all add: sample_tensor_at(4))
  have n: "t_nbytes sample_tensor = 8" by (simp add: sample_tensor_def)
  define s2 where "s2 = (count_lookup s)\<lparr>ts_stats := (ts_stats (count_lookup s))\<lparr>tt_misses := tt_misses (ts_stats (count_lookup s)) + 1\<rparr>\<rparr>"
  have s2: "ts_file s2 = sample_gguf\<lparr>g_map := Some sample_file\<rparr>" using assms(1) by (simp add: s2_def)
  have "s2\<lparr>ts_file := ts_file s2\<rparr> = s2" by simp
  then have "acquire_miss env 0 sample_tensor d (count_lookup s) = Some (acquire_loaded 0 d 8 sample_data s2)"
    using assms(2) n unfolding acquire_miss_def s2_def [symmetric] Let_def s2 by (simp add: sample_read)
  with assms(2) f show ?thesis
    by (simp add: vg_tensor_acquire_def acquire_cached_def s2_def split: option.split)
qed

lemmas run_simps = sample_acquire find_entry_def acquire_loaded_def ts_alloc_def cache_insert_def evict_for_def count_lookup_def
  acquire_hit_def vg_tensor_release_def release_entry_def count_device_def

text \<open>
  With two tiers for one tensor the ticket of a hit can be another entry's: here the second lease on the
  device copy gets the ticket of the pinned one, its release drops the pinned reference, and the next load frees
  the buffer behind the pinned lease, which is still held.
\<close>

definition mixed_run :: "ts_cmd list" where
  "mixed_run = [Acq [119] VG_TIER_HOST, Acq [119] VG_TIER_PINNED, Rel 0, Acq [119] VG_TIER_DEVICE, Acq [119] VG_TIER_DEVICE, Rel 3,
     Acq [119] VG_TIER_HOST]"

lemma one_less_max: "(1 :: u64) < UINT64_MAX"
  by (simp add: word_less_nat_alt unsigned_minus_1_eq_mask mask_eq_exp_minus_1)

lemma tiers_mixed_use_after_free:
  "\<exists>s ls. run_client sample_env mixed_run sample_source [] = Some (s, ls) \<and> lease_bytes s (ls ! 1) = None"
  by (simp add: mixed_run_def run_simps sample_source_def default_tsconfig_def zero_tsstats_def evict_entries.simps resident_bytes_def
      cache_victim_def remove_entry_def ts_free_def lease_bytes_def one_less_max)


lemma sample_tensor_0: "tensor_of sample_gguf 0 = sample_tensor" "tensor_bytes sample_gguf 0 = sample_data"
  by (simp_all add: sample_tensor_at(4) tensor_bytes_def sample_tensor_at sample_tensor_def slice_def sample_gguf_def new_gguf_def
      sample_file_def sample_head_def sample_meta_def sample_index_def sample_data_def)

lemma sample_same: "same_file sample_gguf (sample_gguf\<lparr>g_map := Some sample_file\<rparr>)"
  unfolding same_file_def
  by (intro exI [of _ "g_direct_io sample_gguf"] exI [of _ "Some sample_file"]) (simp add: sample_gguf_def new_gguf_def)

definition full_source :: vg_tensorsource where
  "full_source = sample_source\<lparr>ts_entries :=
     [\<lparr>ce_tensor = 0, ce_data = 0, ce_bytes = 8, ce_refs = 0, ce_age = 2, ce_ticket = 1, ce_tier = VG_TIER_HOST, ce_owns = True\<rparr>,
      \<lparr>ce_tensor = 0, ce_data = 1, ce_bytes = 8, ce_refs = 0, ce_age = 1, ce_ticket = 2, ce_tier = VG_TIER_PINNED, ce_owns = True\<rparr>],
     ts_heap := [Some sample_data, Some sample_data]\<rparr>"


definition queued_source :: vg_tensorsource where
  "queued_source = sample_source\<lparr>ts_io_thread := True, ts_io_running := True,
     ts_io_queue := [\<lparr>rq_name = [119], rq_tier = VG_TIER_HOST, rq_io_entry = 0\<rparr>],
     ts_callers := [\<lparr>pe_name = [119], pe_tier = VG_TIER_HOST, pe_data = None, pe_bytes = 0, pe_ready = False, pe_error = False\<rparr>]\<rparr>"

theorem tensor_wait_returns_witness:
  "\<exists>s' st. io_worker sample_env 1 queued_source = Some s' \<and> ts_io_queue s' = [] \<and> vg_tensor_wait 0 s' = Some st \<and>
    (st = VG_E_IO \<or> (st = VG_OK \<and> (\<exists>b. pe_data (ts_callers s' ! 0) = Some b \<and> ts_heap s' ! b = Some sample_data)))"
  using tensor_wait_returns [OF sample_open, of queued_source 1 "\<lparr>rq_name = [119], rq_tier = VG_TIER_HOST, rq_io_entry = 0\<rparr>" sample_env]
    sample_tensor_at(2,3) sample_find sample_tensor_0 sample_same
  by (auto simp: queued_source_def sample_source_def)

theorem tensor_stream_exact_witness:
  "\<exists>st lg s'. vg_tensor_stream sample_env (Some [119]) 3 (logging (\<lambda>_ _. VG_OK)) [] sample_source = Some (st, lg, s')
    \<and> (st = VG_OK \<longrightarrow> concat (map snd lg) = sample_data)"
  using tensor_stream_exact [OF sample_open _ _ _ sample_find, of sample_source 3 3 sample_env "\<lambda>_ _. VG_OK"]
    sample_tensor_at(2,3) sample_tensor_0 sample_same
  by (fastforce simp: sample_source_def default_tsconfig_def)

definition opened_source :: vg_tensorsource where
  "opened_source = (case vg_tensor_source_open (Some sample_gguf) None of Inr s \<Rightarrow> s | Inl st \<Rightarrow> sample_source)"


end
