(* ===== verification/GraphRun_Props.thy ===== *)
theory GraphRun_Props
  imports Graph_Props TensorSource_Props
begin

text \<open>
  Loading a graph, decoding on it, generation by the engine with the graph as its decoding function, and the rows that
  the embedding and the language-model head read; then the witnesses, on a small model file.
\<close>

section \<open>Loaded graphs\<close>

text \<open>A configuration the graph can compute with.\<close>

definition config_ok :: "vg_modelconfig \<Rightarrow> bool" where
  "config_ok c \<longleftrightarrow> mc_n_rot c \<le> mc_head_dim c \<and> 1 \<le> mc_n_expert_used c \<and> mc_n_expert_used c \<le> mc_n_expert c \<and>
     f_isfinite (mc_rms_eps c) \<and> f_less f_zero (mc_rms_eps c) \<and> f_isfinite (mc_freq_base c) \<and> \<not> f_less (mc_freq_base c) f_one \<and>
     (mc_logit_softcap c = f_zero \<or> f_isfinite (mc_logit_softcap c) \<and> f_less f_zero (mc_logit_softcap c)) \<and>
     (mc_attn_logit_softcap c = f_zero \<or> f_isfinite (mc_attn_logit_softcap c) \<and> f_less f_zero (mc_attn_logit_softcap c)) \<and>
     0 < mc_n_ctx c \<and> mc_n_ctx c < 2 ^ 31 \<and> 0 < mc_sliding_window c \<and> mc_sliding_window c < 2 ^ 31"

definition graph_ok :: "vg_modelgraph \<Rightarrow> bool" where
  "graph_ok g \<longleftrightarrow> config_ok (mg_cfg g) \<and> length (mg_logits g) = unat (mc_n_vocab (mg_cfg g)) \<and>
     mg_kv_capacity g = kv_pages_of (mg_cfg g) \<and> unat (mc_n_ctx (mg_cfg g)) \<le> 64 * unat (kv_pages_of (mg_cfg g)) \<and>
     length (mg_kv_k g) = unat (mc_n_layer (mg_cfg g) * mg_kv_capacity g) \<and> paired (mg_kv_k g) (mg_kv_v g) \<and>
     length (mg_kv_dim g) = unat (mc_n_layer (mg_cfg g)) \<and>
     4 \<le> ec_cap (mg_cache g) \<and> length (ec_slots (mg_cache g)) \<le> ec_cap (mg_cache g)"

lemma positive_int: "0 < x \<Longrightarrow> x < 2 ^ 31 \<Longrightarrow> 0 < (word_of_int x :: u32) \<and> (word_of_int x :: u32) < 2 ^ 31"
  by (simp add: word_less_alt uint_word_of_int)

lemma read_metadata_int_less: "old < 2 ^ 31 \<Longrightarrow> read_metadata_int en key old < 2 ^ 31"
proof -
  have "sint (x :: u32) < 2 ^ 31" for x using sint_lt [of x] by simp
  then show "old < 2 ^ 31 \<Longrightarrow> read_metadata_int en key old < 2 ^ 31" by (simp add: read_metadata_int_def split: option.split)
qed

text \<open>A property of a term with local definitions.\<close>

lemma let_intro: "(\<And>x. x = s \<Longrightarrow> P (f x)) \<Longrightarrow> P (let x = s in f x)"
  by simp

definition rot_ok :: "vg_modelconfig \<Rightarrow> bool" where
  "rot_ok c \<longleftrightarrow> mc_n_rot c \<le> mc_head_dim c"

lemma read_sizes_ok: "rot_ok (read_sizes en arch c)"
  unfolding read_sizes_def
proof (intro let_intro [where P = rot_ok])
  fix n_vocab n_embd n_head n_head_kv n_layer n_ff hd0 head_dim rot0 n_rot :: u32
  assume "n_rot = (if head_dim < rot0 then head_dim else rot0)"
  then show "rot_ok (c\<lparr>mc_n_vocab := n_vocab, mc_n_embd := n_embd, mc_n_head := n_head, mc_n_head_kv := n_head_kv, mc_n_layer := n_layer,
      mc_n_ff := n_ff, mc_head_dim := head_dim, mc_n_rot := n_rot\<rparr>)"
    by (auto simp: rot_ok_def)
qed

lemma eps_bits: "bitlen 100000 = 17" "bitlen 175921861 = 28" "bitlen 10995116 = 24"
  by (simp_all add: bitlen.simps)

lemma eps_default: "fdiv f_one (FFin False 100000 0) = FFin False 2748779 (-38)"
proof -
  have "fdiv f_one (FFin False 100000 0) = round_flt binary32 False 175921861 (-44)"
    by (simp add: eps_bits binary32_def Let_def)
  also have "\<dots> = mk_fin False 10995116 (-40)"
    by (simp add: round_flt_def eps_bits binary32_def Let_def)
  finally show ?thesis by (simp add: mk_fin_def canon.simps)
qed

lemma freq_default: "\<not> f_less (FFin False 100000 0) f_one"
  by (simp add: signed_mant_def)

lemma finite_not_leq: "f_isfinite x \<Longrightarrow> \<not> f_leq x f_zero \<Longrightarrow> f_less f_zero x"
  by (cases x) (auto simp: f_leq_def)

definition numerics_ok :: "vg_modelconfig \<Rightarrow> bool" where
  "numerics_ok c \<longleftrightarrow> f_isfinite (mc_rms_eps c) \<and> f_less f_zero (mc_rms_eps c) \<and>
     f_isfinite (mc_freq_base c) \<and> \<not> f_less (mc_freq_base c) f_one \<and>
     (mc_logit_softcap c = f_zero \<or> f_isfinite (mc_logit_softcap c) \<and> f_less f_zero (mc_logit_softcap c)) \<and>
     (mc_attn_logit_softcap c = f_zero \<or> f_isfinite (mc_attn_logit_softcap c) \<and> f_less f_zero (mc_attn_logit_softcap c))"

lemma eps_ok: "f_isfinite (if \<not> f_isfinite x \<or> f_leq x f_zero then fdiv f_one (FFin False 100000 0) else x) \<and>
    f_less f_zero (if \<not> f_isfinite x \<or> f_leq x f_zero then fdiv f_one (FFin False 100000 0) else x)"
  unfolding eps_default by (auto simp: signed_mant_def intro: finite_not_leq)

lemma freq_ok: "f_isfinite (if \<not> f_isfinite x \<or> f_less x f_one then FFin False 100000 0 else x) \<and>
    \<not> f_less (if \<not> f_isfinite x \<or> f_less x f_one then FFin False 100000 0 else x) f_one"
  by (auto simp: signed_mant_def)

lemma cap_ok:
  assumes "\<And>f. cap f = (case m f of Some x \<Rightarrow> if f_isfinite x \<and> f_less f_zero x then Some x else None | None \<Rightarrow> None)"
  shows "(case cap f of Some x \<Rightarrow> x | None \<Rightarrow> f_zero) = f_zero \<or>
    f_isfinite (case cap f of Some x \<Rightarrow> x | None \<Rightarrow> f_zero) \<and> f_less f_zero (case cap f of Some x \<Rightarrow> x | None \<Rightarrow> f_zero)"
  unfolding assms [of f] by (cases "m f") auto

lemma numerics_update:
  assumes "f_isfinite e \<and> f_less f_zero e" and "f_isfinite b \<and> \<not> f_less b f_one"
    and "a = f_zero \<or> f_isfinite a \<and> f_less f_zero a" and "l = f_zero \<or> f_isfinite l \<and> f_less f_zero l"
  shows "numerics_ok (c\<lparr>mc_rms_eps := e, mc_freq_base := b, mc_attn_logit_softcap := a, mc_logit_softcap := l\<rparr>)"
  using assms by (simp add: numerics_ok_def)

lemma read_numerics_ok:
  assumes "mc_logit_softcap c = f_zero" and "mc_attn_logit_softcap c = f_zero"
  shows "numerics_ok (read_numerics en arch c)"
  unfolding read_numerics_def
proof (intro let_intro [where P = numerics_ok], goal_cases)
  case (1 eps base cap)
  have "cap f = (case read_metadata_float en (arch_key arch f) of Some x \<Rightarrow> if f_isfinite x \<and> f_less f_zero x then Some x else None | None \<Rightarrow> None)" for f
    using 1(3) by simp
  note k = cap_ok [OF this]
  show ?case unfolding assms by (intro numerics_update eps_ok freq_ok k)
qed

lemma read_experts_ok:
  "1 \<le> mc_n_expert_used (read_experts en arch c) \<and> mc_n_expert_used (read_experts en arch c) \<le> mc_n_expert (read_experts en arch c)"
proof -
  have "0 < x" if "x \<noteq> 0" for x :: u32 using that by (simp add: word_neq_0_conv)
  then have "1 \<le> x" if "x \<noteq> 0" for x :: u32 using that by (simp add: word_le_nat_alt Suc_le_eq word_less_nat_alt)
  then show ?thesis by (auto simp: read_experts_def Let_def not_less)
qed

definition window_ok :: "vg_modelconfig \<Rightarrow> bool" where
  "window_ok c \<longleftrightarrow> 0 < mc_n_ctx c \<and> mc_n_ctx c < 2 ^ 31 \<and> 0 < mc_sliding_window c \<and> mc_sliding_window c < 2 ^ 31"

lemma read_window_ok: "window_ok (read_window en arch c)"
  unfolding read_window_def
proof (intro let_intro [where P = window_ok], goal_cases)
  case (1 n_ctx w0 w1 w2)
  have "n_ctx < 2 ^ 31" "w0 < 2 ^ 31" using 1(1,2) read_metadata_int_less [of 0] by simp_all
  moreover have "w1 < 2 ^ 31" using 1(3) \<open>w0 < 2 ^ 31\<close> read_metadata_int_less [of w0] by simp
  moreover have "w2 < 2 ^ 31" using 1(4) \<open>w1 < 2 ^ 31\<close> read_metadata_int_less [of w1] by simp
  ultimately show ?case using positive_int [of n_ctx] positive_int [of w2] by (simp add: window_ok_def)
qed

text \<open>The later readings leave the fields of the earlier ones alone.\<close>

lemma flags_frame: "numerics_ok (read_flags en c) = numerics_ok c" "window_ok (read_flags en c) = window_ok c" "rot_ok (read_flags en c) = rot_ok c"
  "mc_n_expert (read_flags en c) = mc_n_expert c" "mc_n_expert_used (read_flags en c) = mc_n_expert_used c"
  by (simp_all add: read_flags_def Let_def numerics_ok_def window_ok_def rot_ok_def)

lemma window_frame: "numerics_ok (read_window en arch c) = numerics_ok c" "rot_ok (read_window en arch c) = rot_ok c"
  "mc_n_expert (read_window en arch c) = mc_n_expert c" "mc_n_expert_used (read_window en arch c) = mc_n_expert_used c"
  by (simp_all add: read_window_def Let_def numerics_ok_def rot_ok_def)

lemma experts_frame: "numerics_ok (read_experts en arch c) = numerics_ok c" "rot_ok (read_experts en arch c) = rot_ok c"
  by (simp_all add: read_experts_def Let_def numerics_ok_def rot_ok_def)

lemma numerics_frame: "rot_ok (read_numerics en arch c) = rot_ok c"
  by (simp add: read_numerics_def Let_def rot_ok_def)

lemma sizes_caps: "mc_logit_softcap (read_sizes en arch c) = mc_logit_softcap c" "mc_attn_logit_softcap (read_sizes en arch c) = mc_attn_logit_softcap c"
  by (simp_all add: read_sizes_def Let_def)

lemma config_ok_parts: "config_ok c \<longleftrightarrow> rot_ok c \<and> numerics_ok c \<and> window_ok c \<and> 1 \<le> mc_n_expert_used c \<and> mc_n_expert_used c \<le> mc_n_expert c"
  by (auto simp: config_ok_def rot_ok_def numerics_ok_def window_ok_def)

lemma load_config_ok: "config_ok (load_config en arch)"
  unfolding load_config_def config_ok_parts flags_frame window_frame experts_frame numerics_frame
  by (intro conjI read_sizes_ok read_numerics_ok read_window_ok conjunct1 [OF read_experts_ok] conjunct2 [OF read_experts_ok])
    (simp_all add: sizes_caps zero_config_def)

section \<open>Operations keep a graph well-formed\<close>

lemma pages_cover: "n < 2 ^ 31 \<Longrightarrow> unat (n :: u32) \<le> 64 * unat ((n + 64 - 1) div 64)"
proof -
  assume "n < 2 ^ 31"
  then have "unat (n + 63) = unat n + 63" by (simp add: unat_word_ariths word_less_nat_alt)
  moreover have "n + 64 - 1 = n + 63" "unat (64 :: u32) = 64" by simp_all
  ultimately have "unat ((n + 64 - 1) div 64) = (unat n + 63) div 64" by (simp only: unat_div_distrib)
  then show ?thesis by linarith
qed

lemma expert_cache_init_cap: "4 \<le> ec_cap (expert_cache_init cap) \<and> length (ec_slots (expert_cache_init cap)) \<le> ec_cap (expert_cache_init cap)"
proof (cases "cap < 4")
  case False
  then have "4 \<le> unat cap" by (simp add: not_less word_le_nat_alt)
  with False show ?thesis by (simp add: expert_cache_init_def)
qed (simp add: expert_cache_init_def)

lemma graph_load_ok:
  assumes "\<And>n. length (en_junk en n) = n" and "vg_model_graph_load en = Inr g"
  shows "graph_ok g"
proof -
  obtain arch where g: "g = \<lparr>mg_cfg = load_config en arch, mg_work_embd = en_junk en (unat (mc_n_embd (load_config en arch))),
      mg_work_res = en_junk en (unat (mc_n_embd (load_config en arch))), mg_work_ffn = en_junk en (unat (mc_n_ff (load_config en arch))),
      mg_logits = en_junk en (unat (mc_n_vocab (load_config en arch))), mg_rope_freqs = read_rope_freqs en,
      mg_kv_k = replicate (unat (mc_n_layer (load_config en arch) * kv_pages_of (load_config en arch))) None,
      mg_kv_v = replicate (unat (mc_n_layer (load_config en arch) * kv_pages_of (load_config en arch))) None,
      mg_kv_dim = replicate (unat (mc_n_layer (load_config en arch))) 0, mg_kv_capacity = kv_pages_of (load_config en arch),
      mg_cache = expert_cache_init (cache_slots_of (load_config en arch)), mg_lora = None, mg_lora_scale = f_zero\<rparr>"
    using assms(2) by (auto simp: vg_model_graph_load_def Let_def split: option.splits)
  have c: "config_ok (load_config en arch)" by (rule load_config_ok)
  then have "mc_n_ctx (load_config en arch) < 2 ^ 31" by (simp add: config_ok_def)
  from pages_cover [OF this] have "unat (mc_n_ctx (load_config en arch)) \<le> 64 * unat (kv_pages_of (load_config en arch))"
    by (simp only: kv_pages_of_def)
  moreover have "4 \<le> ec_cap (expert_cache_init cap) \<and> length (ec_slots (expert_cache_init cap)) \<le> ec_cap (expert_cache_init cap)" for cap
    by (rule expert_cache_init_cap)
  ultimately show ?thesis using c by (simp add: graph_ok_def g assms(1) paired_def)
qed

text \<open>What a value with local definitions and cases is, is shown branch by branch.\<close>

lemma sum_intro: "(\<And>a. x = Inl a \<Longrightarrow> P (f a)) \<Longrightarrow> (\<And>b. x = Inr b \<Longrightarrow> P (h b)) \<Longrightarrow> P (case x of Inl a \<Rightarrow> f a | Inr b \<Rightarrow> h b)"
  by (cases x) simp_all

lemma pair_intro: "(\<And>a b. x = (a, b) \<Longrightarrow> P (f a b)) \<Longrightarrow> P (case x of (a, b) \<Rightarrow> f a b)"
  by (cases x) simp

text \<open>The tables of keys and values.\<close>

lemma kv_put_shape: "length (kv_put lp pos row dm fresh ps) = length ps"
  "map Option.is_none (kv_put lp pos row dm fresh ps) = (if fresh then (map Option.is_none ps)[lp := False] else map Option.is_none ps)"
proof -
  have u: "map Option.is_none (ps'[lp := Some y]) = map Option.is_none ps'" if "ps' ! lp = Some page" for ps' :: "flt list option list" and page y
    using that by (cases "lp < length ps'") (simp_all add: map_update list_update_same_conv Option.is_none_def list_update_beyond)
  show "length (kv_put lp pos row dm fresh ps) = length ps"
    by (simp add: kv_put_def Let_def split: option.split)
  show "map Option.is_none (kv_put lp pos row dm fresh ps) = (if fresh then (map Option.is_none ps)[lp := False] else map Option.is_none ps)"
    using u by (auto simp: kv_put_def Let_def map_update split: option.split)
qed

lemma paired_put: "paired ks vs \<Longrightarrow> paired (kv_put lp pos k dm fresh ks) (kv_put lp pos v dm fresh vs)"
  by (simp add: paired_def kv_put_shape)

lemma kv_store_shape:
  "length (mg_kv_k (kv_store layer pos k v dm g)) = length (mg_kv_k g)" "length (mg_kv_dim (kv_store layer pos k v dm g)) = length (mg_kv_dim g)"
  "paired (mg_kv_k g) (mg_kv_v g) \<Longrightarrow> paired (mg_kv_k (kv_store layer pos k v dm g)) (mg_kv_v (kv_store layer pos k v dm g))"
  "mg_logits (kv_store layer pos k v dm g) = mg_logits g" "mg_cache (kv_store layer pos k v dm g) = mg_cache g"
  by (simp_all add: kv_store_def Let_def kv_put_shape paired_evict paired_put)

text \<open>Steps that keep the configuration and the form of a graph.\<close>

definition keeps :: "vg_modelgraph \<Rightarrow> vg_modelgraph \<Rightarrow> bool" where
  "keeps g g' \<longleftrightarrow> (graph_ok g \<longrightarrow> graph_ok g') \<and> mg_cfg g' = mg_cfg g"

lemma keeps_work [simp]:
  "keeps g0 (g\<lparr>mg_work_embd := x\<rparr>) = keeps g0 g" "keeps g0 (g\<lparr>mg_work_res := x\<rparr>) = keeps g0 g" "keeps g0 (g\<lparr>mg_work_ffn := x\<rparr>) = keeps g0 g"
  by (simp_all add: keeps_def graph_ok_def)

lemma keeps_refl [simp]: "keeps g g"
  by (simp add: keeps_def)

lemma keeps_trans: "keeps a b \<Longrightarrow> keeps b c \<Longrightarrow> keeps a c"
  by (simp add: keeps_def)

lemma keeps_store [simp]: "keeps g0 g \<Longrightarrow> keeps g0 (kv_store layer pos k v dm g)"
  by (auto simp: keeps_def graph_ok_def kv_store_shape)

lemma attention_layer_keeps: "keeps g (attention_layer en layer pos g)"
  unfolding attention_layer_def
  by (intro let_intro [where P = "keeps g"] sum_intro [where P = "keeps g"] pair_intro [where P = "keeps g"];
      simp only: keeps_work keeps_refl keeps_store)

definition keeps2 :: "vg_modelgraph \<Rightarrow> vg_status \<times> vg_modelgraph \<Rightarrow> bool" where
  "keeps2 g r \<longleftrightarrow> keeps g (snd r)"

definition cache_kept :: "nat \<Rightarrow> vg_expertcache \<Rightarrow> bool" where
  "cache_kept cap c \<longleftrightarrow> ec_cap c = cap \<and> length (ec_slots c) \<le> cap"

lemma acquire_expert_kept: "cache_kept cap c \<Longrightarrow> cache_kept cap (snd (acquire_expert en layer kind e m n c))"
  by (auto simp: acquire_expert_def expert_insert_def cache_kept_def Let_def split: option.split sum.split)

lemma then_ok_kept:
  "cache_kept cap (snd r) \<Longrightarrow> (\<And>x s. cache_kept cap s \<Longrightarrow> cache_kept cap (snd (f x s))) \<Longrightarrow> cache_kept cap (snd (then_ok r f))"
  by (auto simp: then_ok_def split: prod.split sum.split)

lemma dispatch_ok_kept: "cache_kept cap s \<Longrightarrow> cache_kept cap (snd (dispatch_ok en ty w x y m n s))"
  by (simp add: dispatch_ok_def split: prod.split)

lemma case_kept: "(\<And>a b. cache_kept cap (snd (f a b s))) \<Longrightarrow> cache_kept cap (snd ((case x of (a, b) \<Rightarrow> f a b) s))"
  by (cases x) simp

lemma expert_out_kept: "cache_kept cap c \<Longrightarrow> cache_kept cap (snd (expert_out en g layer xin e c))"
  unfolding expert_out_def Let_def by (intro then_ok_kept case_kept acquire_expert_kept dispatch_ok_kept)

lemma expert_sum_kept: "cache_kept cap c \<Longrightarrow> cache_kept cap (snd (snd (expert_sum en g layer xin es acc c)))"
proof (induction es arbitrary: acc c)
  case (Cons p es)
  obtain e w where p: "p = (e, w)" by (cases p)
  show ?case
  proof (cases "expert_out en g layer xin e c")
    case (Pair r c')
    then have "cache_kept cap c'" using expert_out_kept [OF Cons.prems, of en g layer xin e] by simp
    then show ?thesis using Cons.IH Pair p by (cases r) simp_all
  qed
qed simp

lemma keeps_cache: "keeps g0 g \<Longrightarrow> cache_kept (ec_cap (mg_cache g)) c \<Longrightarrow> keeps g0 (g\<lparr>mg_work_embd := x, mg_cache := c\<rparr>)"
  by (auto simp: keeps_def graph_ok_def cache_kept_def)

lemma if_intro: "(b \<Longrightarrow> P x) \<Longrightarrow> (\<not> b \<Longrightarrow> P y) \<Longrightarrow> P (if b then x else y)"
  by simp

lemma keeps2_pair [simp]: "keeps2 g0 (st, g) = keeps g0 g"
  by (simp add: keeps2_def)

lemma keeps_res: "g = g0\<lparr>mg_work_res := r\<rparr> \<Longrightarrow> keeps2 g0 (st, g)"
  by simp

lemma keeps_sum:
  assumes "g = g0\<lparr>mg_work_res := res\<rparr>" and "expert_sum en g layer xin es acc (mg_cache g) = (r, p)" and "p = (acc', c)"
  shows "keeps2 g0 (st, g\<lparr>mg_work_embd := y, mg_cache := c\<rparr>)"
proof -
  have "cache_kept (ec_cap (mg_cache g0)) c" if "graph_ok g0"
    using expert_sum_kept [of "ec_cap (mg_cache g0)" "mg_cache g" en g layer xin es acc] assms that
    by (simp add: cache_kept_def graph_ok_def)
  then show ?thesis by (auto simp: keeps_def graph_ok_def cache_kept_def assms(1))
qed

lemma moe_ffn_layer_keeps: "keeps2 g (moe_ffn_layer en layer g)"
  unfolding moe_ffn_layer_def
  apply (rule let_intro [where P = "keeps2 g"])+
  apply (rule sum_intro [where P = "keeps2 g"], erule keeps_res)
  apply (rule pair_intro [where P = "keeps2 g"])
  apply (rule if_intro [where P = "keeps2 g"], erule keeps_res)+
  apply (rule sum_intro [where P = "keeps2 g"], erule keeps_res)
  apply (rule pair_intro [where P = "keeps2 g"], rule sum_intro [where P = "keeps2 g"]; rule pair_intro [where P = "keeps2 g"])
   apply (rule keeps_sum, assumption+)
  apply (rule let_intro [where P = "keeps2 g"])+
  apply (rule keeps_sum, assumption+)
  done

lemma keeps_embd: "g' = g\<lparr>mg_work_res := r, mg_work_embd := x\<rparr> \<Longrightarrow> keeps g (g'\<lparr>mg_work_embd := y\<rparr>)"
  by simp

lemma dense_ffn_keeps: "keeps g (dense_ffn en layer g)"
  unfolding dense_ffn_def
  apply (rule let_intro [where P = "keeps g"])+
  apply (rule sum_intro [where P = "keeps g"])
   apply (simp only: keeps_work keeps_refl)
  apply (rule let_intro [where P = "keeps g"])+
  apply (simp only: keeps_work keeps_refl)
  done

lemma router_ffn_keeps: "keeps g (router_ffn en layer g)"
  unfolding router_ffn_def Let_def by (rule keeps_embd, rule refl)

lemma ffn_layer_keeps: "keeps2 g (ffn_layer en layer g)"
  unfolding ffn_layer_def
  by (intro if_intro [where P = "keeps2 g"] moe_ffn_layer_keeps) (simp_all add: dense_ffn_keeps router_ffn_keeps)

lemma run_layers_keeps: "keeps2 g0 (st, g) \<Longrightarrow> keeps2 g0 (run_layers en pos ls g)"
proof (induction ls arbitrary: g st)
  case (Cons l ls)
  obtain st' g2 where f: "ffn_layer en l (attention_layer en l pos g) = (st', g2)" by fastforce
  have "keeps g (attention_layer en l pos g)" "keeps (attention_layer en l pos g) g2"
    using attention_layer_keeps ffn_layer_keeps [of "attention_layer en l pos g" en l] f by simp_all
  then have "keeps2 g0 (st', g2)" using Cons.prems unfolding keeps2_pair by (metis keeps_trans)
  then show ?case using Cons.IH f by (simp add: Let_def)
qed simp

text \<open>The logits keep their length.\<close>

lemma write_all_length [simp]: "length (write_all n f out) = length out"
proof -
  have "length (foldl (\<lambda>out i. out[i := f i]) out is) = length out" for "is"
    by (induction "is" arbitrary: out) simp_all
  then show ?thesis by (simp add: write_all_def)
qed

lemma logit_batch_length: "length (fst (logit_batch en t qi D x v cnt lgb)) = length (fst lgb)"
proof -
  have a: "length (fst (foldl (\<lambda>(lg, buf) i. (lg[v + i := q buf i], r buf i)) p is)) = length (fst p)" for q r p "is"
    by (induction "is" arbitrary: p) (simp_all split: prod.split)
  have b: "length (foldl (\<lambda>lg i. lg[v + i := y]) lg is) = length lg" for lg "is" and y :: flt
    by (induction "is" arbitrary: lg) simp_all
  show ?thesis unfolding logit_batch_def Let_def by (simp add: a b split: sum.split)
qed

lemma logit_batches_length: "length (fst (logit_batches en t qi D x v n lgb)) = length (fst lgb)"
proof (induction en t qi D x v n lgb rule: logit_batches.induct)
  case (1 en t qi D x v n lgb)
  then show ?case by (subst logit_batches.simps) (simp add: logit_batch_length del: logit_batches.simps)
qed

lemma lm_head_length: "length (mg_logits g) = unat (mc_n_vocab (mg_cfg g)) \<Longrightarrow> length (lm_head en g x) = unat (mc_n_vocab (mg_cfg g))"
  by (simp add: lm_head_def Let_def logit_batches_length del: logit_batches.simps split: option.split)

lemma softcap_length [simp]: "length (softcap m cap n lg) = length lg"
  by (simp add: softcap_def)

text \<open>What decoding does with a graph.\<close>

lemma file_bytes_fails: "file_bytes en t off n = Inl st \<Longrightarrow> st \<noteq> VG_OK"
  by (auto simp: file_bytes_def vg_gguf_read_def Let_def direct_read_def file_read_def split: option.splits if_splits read_result.splits)

lemma dequantize_fails: "vg_dequantize_row type packed nbytes has_out n = Inl st \<Longrightarrow> st \<noteq> VG_OK"
  by (auto simp: vg_dequantize_row_def split: option.splits if_splits)

lemma embed_fails: "vg_model_graph_embed en gp token = Inl st \<Longrightarrow> st \<noteq> VG_OK"
  by (auto simp: vg_model_graph_embed_def Let_def dest: file_bytes_fails dequantize_fails split: option.splits if_splits sum.splits)

lemma decode_refused:
  "mc_n_ctx (mg_cfg g) \<le> word_of_int pos \<Longrightarrow> vg_model_graph_decode en (Some g) token pos = (VG_E_RANGE, None, Some g)"
  "word_of_int pos < mc_n_ctx (mg_cfg g) \<Longrightarrow> token < 0 \<or> mc_n_vocab (mg_cfg g) \<le> word_of_int token \<Longrightarrow>
     vg_model_graph_decode en (Some g) token pos = (VG_E_INVALID, None, Some g)"
  by (auto simp: vg_model_graph_decode_def vg_model_graph_embed_def not_le)

lemma decode_keeps:
  assumes "vg_model_graph_decode en (Some g) token pos = (st, lg, g')" and "graph_ok g"
  shows "\<exists>g1. g' = Some g1 \<and> graph_ok g1 \<and> mg_cfg g1 = mg_cfg g \<and>
    (if st = VG_OK then lg = Some (mg_logits g1) \<and> word_of_int pos < mc_n_ctx (mg_cfg g) \<and> 0 \<le> token \<and> word_of_int token < mc_n_vocab (mg_cfg g)
     else lg = None)"
proof (cases "mc_n_ctx (mg_cfg g) \<le> word_of_int pos \<or> token < 0 \<or> mc_n_vocab (mg_cfg g) \<le> word_of_int token")
  case True
  then have "(st, lg, g') = (VG_E_RANGE, None, Some g) \<or> (st, lg, g') = (VG_E_INVALID, None, Some g)"
    using assms(1) decode_refused [where g = g and pos = pos and token = token and en = en] by (metis not_le)
  then show ?thesis using assms(2) by auto
next
  case ok: False
  show ?thesis
  proof (cases "vg_model_graph_embed en (Some g) token")
    case (Inl s)
    then show ?thesis using assms ok embed_fails [OF Inl] by (auto simp: vg_model_graph_decode_def)
  next
    case (Inr x)
    obtain s g1 where r: "run_layers en (float_pos pos) [0..<unat (mc_n_layer (mg_cfg g))] (g\<lparr>mg_work_embd := x\<rparr>) = (s, g1)" by fastforce
    then have k: "keeps g g1"
      using run_layers_keeps [of g VG_OK "g\<lparr>mg_work_embd := x\<rparr>" en "float_pos pos" "[0..<unat (mc_n_layer (mg_cfg g))]"] by simp
    then have g1: "graph_ok g1" "mg_cfg g1 = mg_cfg g" using assms(2) by (simp_all add: keeps_def)
    show ?thesis
    proof (cases "s = VG_OK")
      case False
      then show ?thesis using assms(1) ok Inr r g1 by (auto simp: vg_model_graph_decode_def)
    next
      case True
      define y where "y = input_norm en g1 (cstr ''output_norm.weight'') (mg_work_embd g1)"
      define l where "l = softcap (en_libm en) (mc_logit_softcap (mg_cfg g1)) (unat (mc_n_vocab (mg_cfg g1))) (lm_head en g1 y)"
      have run: "st = VG_OK" "lg = Some l" "g' = Some (g1\<lparr>mg_work_embd := y, mg_logits := l\<rparr>)"
        using assms(1) ok Inr r True by (simp_all add: vg_model_graph_decode_def Let_def y_def [symmetric] l_def [symmetric])
      have "length l = unat (mc_n_vocab (mg_cfg g1))" using g1(1) by (simp add: l_def lm_head_length graph_ok_def)
      then have "graph_ok (g1\<lparr>mg_work_embd := y, mg_logits := l\<rparr>)" using g1(1) by (auto simp: graph_ok_def)
      then show ?thesis using run g1(2) ok by auto
    qed
  qed
qed

text \<open>What can happen to a graph once it is loaded; the environment may differ from call to call.\<close>

inductive graph_reach :: "vg_modelgraph \<Rightarrow> bool" where
  loaded: "\<lbrakk>\<And>n. length (en_junk en n) = n; vg_model_graph_load en = Inr g\<rbrakk> \<Longrightarrow> graph_reach g"
| decoded: "\<lbrakk>graph_reach g; vg_model_graph_decode en (Some g) token pos = (st, lg, Some g')\<rbrakk> \<Longrightarrow> graph_reach g'"
| reset: "\<lbrakk>graph_reach g; vg_model_graph_reset (Some g) = Some g'\<rbrakk> \<Longrightarrow> graph_reach g'"
| adapted: "\<lbrakk>graph_reach g; vg_model_graph_set_lora adapter scale (Some g) = (st, Some g')\<rbrakk> \<Longrightarrow> graph_reach g'"
| resized: "\<lbrakk>graph_reach g; vg_model_graph_set_expert_cache capacity (Some g) = (st, Some g')\<rbrakk> \<Longrightarrow> graph_reach g'"

lemma map_pages_none:
  assumes "\<And>i p. f i p \<noteq> None"
  shows "map Option.is_none (map (\<lambda>i. case ps ! i of None \<Rightarrow> None | Some p \<Rightarrow> f i p) [0..<length ps]) = map Option.is_none ps"
  using assms by (intro nth_equalityI) (auto split: option.split simp: Option.is_none_def)

lemma reset_shape:
  assumes "vg_model_graph_reset (Some g) = Some g'"
  shows "mg_cfg g' = mg_cfg g \<and> mg_logits g' = mg_logits g \<and> mg_kv_capacity g' = mg_kv_capacity g \<and> mg_kv_dim g' = mg_kv_dim g \<and>
    mg_cache g' = mg_cache g \<and> length (mg_kv_k g') = length (mg_kv_k g) \<and> (paired (mg_kv_k g) (mg_kv_v g) \<longrightarrow> paired (mg_kv_k g') (mg_kv_v g'))"
proof -
  define f where "f = (\<lambda>i p. let n = 64 * unat (mg_kv_dim g ! (i div unat (mg_kv_capacity g)))
      in if mg_kv_k g ! i \<noteq> None then Some (replicate n f_zero @ drop n p) else Some p)"
  have f: "f i p \<noteq> None" for i p by (simp add: f_def Let_def)
  have g': "g' = g\<lparr>mg_kv_k := map (\<lambda>i. case mg_kv_k g ! i of None \<Rightarrow> None | Some p \<Rightarrow> f i p) [0..<length (mg_kv_k g)],
      mg_kv_v := map (\<lambda>i. case mg_kv_v g ! i of None \<Rightarrow> None | Some p \<Rightarrow> f i p) [0..<length (mg_kv_v g)]\<rparr>"
    using assms unfolding vg_model_graph_reset_def f_def by (simp add: Let_def)
  show ?thesis by (simp add: g' paired_def map_pages_none [OF f] del: map_map)
qed

lemma graph_reach_ok: "graph_reach g \<Longrightarrow> graph_ok g"
proof (induction rule: graph_reach.induct)
  case (loaded en g)
  then show ?case by (rule graph_load_ok)
next
  case (decoded g en token pos st lg g')
  then show ?case using decode_keeps by blast
next
  case (reset g g')
  then show ?case using reset_shape [OF reset.hyps(2)] by (simp add: graph_ok_def)
next
  case (adapted g adapter scale st g')
  then show ?case by (auto simp: vg_model_graph_set_lora_def graph_ok_def)
next
  case (resized g capacity st g')
  then show ?case using expert_cache_init_cap by (auto simp: vg_model_graph_set_expert_cache_def graph_ok_def split: if_splits)
qed


text \<open>C21: decoding on a graph that has been loaded and used in any way: a position outside the context and a token
  outside the vocabulary are refused and leave the graph as it was; on success there is one logit per token of the vocabulary,
  kept in the graph; on any other status there are none. The graph keeps its configuration and the form of its tables either way.\<close>

theorem graph_decode_guarded:
  assumes "graph_reach g" and "vg_model_graph_decode en (Some g) token pos = (st, lg, g')"
  shows "(mc_n_ctx (mg_cfg g) \<le> word_of_int pos \<longrightarrow> st = VG_E_RANGE \<and> g' = Some g) \<and>
    (word_of_int pos < mc_n_ctx (mg_cfg g) \<longrightarrow> token < 0 \<or> mc_n_vocab (mg_cfg g) \<le> word_of_int token \<longrightarrow> st = VG_E_INVALID \<and> g' = Some g) \<and>
    (st = VG_OK \<longleftrightarrow> lg \<noteq> None) \<and>
    (\<exists>g1. g' = Some g1 \<and> graph_ok g1 \<and> mg_cfg g1 = mg_cfg g \<and>
       (\<forall>l. lg = Some l \<longrightarrow> length l = unat (mc_n_vocab (mg_cfg g)) \<and> mg_logits g1 = l))"
proof -
  have ok: "graph_ok g" by (rule graph_reach_ok [OF assms(1)])
  obtain g1 where g1: "g' = Some g1" "graph_ok g1" "mg_cfg g1 = mg_cfg g"
      "if st = VG_OK then lg = Some (mg_logits g1) \<and> word_of_int pos < mc_n_ctx (mg_cfg g) \<and> 0 \<le> token \<and> word_of_int token < mc_n_vocab (mg_cfg g)
       else lg = None"
    using decode_keeps [OF assms(2) ok] by blast
  have len: "length (mg_logits g1) = unat (mc_n_vocab (mg_cfg g))" using g1(2,3) by (simp add: graph_ok_def)
  show ?thesis using assms(2) decode_refused [where g = g and pos = pos and token = token and en = en] g1 len by (auto split: if_splits)
qed

section \<open>The engine on the graph\<close>

definition graph_of :: "vg_modelconfig \<Rightarrow> vg_modelgraph \<times> 'a \<Rightarrow> bool" where
  "graph_of cfg s \<longleftrightarrow> graph_ok (fst s) \<and> mg_cfg (fst s) = cfg"

interpretation gd: decoder_contract "recording (graph_decoder en)" "graph_of cfg" for en cfg
proof unfold_locales
  fix s s' :: "vg_modelgraph \<times> (int \<times> int) list" and t pos :: int and st and lg :: "flt list"
  assume s: "graph_of cfg s" and d: "recording (graph_decoder en) t pos s = (st, lg, s')"
  obtain g calls where g: "s = (g, calls)" by (cases s)
  obtain st1 l1 g1 where r: "vg_model_graph_decode en (Some g) t pos = (st1, l1, g1)" using prod_cases3 by blast
  have "graph_ok g" "mg_cfg g = cfg" using s g by (simp_all add: graph_of_def)
  with decode_keeps [OF r] show "graph_of cfg s'" using d g r by (auto simp: recording_def graph_decoder_def graph_of_def)
qed

lemma word_below:
  assumes "0 \<le> x" and "x < int (unat (n :: u32))"
  shows "(word_of_int x :: u32) < n"
proof -
  have "x < 2 ^ 32" using assms unsigned_less [of n, where 'a = int] by simp
  then have "uint (word_of_int x :: u32) = x" using assms(1) by (simp add: uint_word_of_int)
  then show ?thesis using assms(2) by (simp add: word_less_alt)
qed


section \<open>The embedding and the head read the same rows\<close>

lemma unat_row_start: "v * unat r < 2 ^ 64 \<Longrightarrow> unat (of_nat v * r :: u64) = v * unat r"
  by (simp add: unat_word_ariths unat_of_nat mod_mult_left_eq)

text \<open>The file of a graph, its token matrix, and an environment in which reads do not fail.\<close>

definition matrix_at :: "genv \<Rightarrow> vg_gguf \<Rightarrow> bytes \<Rightarrow> nat \<Rightarrow> bool" where
  "matrix_at en g0 name i \<longleftrightarrow> sound_file g0 \<and> same_file g0 (en_file en) \<and> (io_map (en_io en) \<or> io_open_direct (en_io en)) \<and>
     vg_gguf_find_tensor (Some g0) (Some name) = Some i"

lemma matrix_tensor: "matrix_at en g0 name i \<Longrightarrow> find_tensor en name = Some (tensor_of g0 i)"
proof -
  assume m: "matrix_at en g0 name i"
  then have sf: "same_file g0 (en_file en)" by (simp add: matrix_at_def)
  show ?thesis using m by (simp add: find_tensor_def matrix_at_def same_file_simps [OF sf])
qed

lemma matrix_read:
  assumes "matrix_at en g0 name i" and "unat off + unat n \<le> unat (t_nbytes (tensor_of g0 i))"
  shows "file_bytes en (tensor_of g0 i) off n = Inr (slice (tensor_bytes g0 i) (unat off) (unat n))"
proof -
  have g0: "sound_file g0" "vg_gguf_find_tensor (Some g0) (Some name) = Some i" using assms(1) by (simp_all add: matrix_at_def)
  obtain d mp where g: "en_file en = g0\<lparr>g_direct_io := d, g_map := mp\<rparr>" "mp = None \<or> mp = Some (g_file g0)"
    using assms(1) unfolding matrix_at_def same_file_def by blast
  have t: "vg_gguf_tensor_at (Some g0) (of_nat i) = Some (tensor_of g0 i)" using find_tensor_range [OF g0] by simp
  have o: "vg_gguf_open (g_file g0) = Opened g0" "length (g_file g0) < 2 ^ 63" "unat (g_data_base g0) \<le> length (g_file g0)"
    using g0(1) by (simp_all add: sound_file_def)
  have "fst (vg_gguf_read (en_io en) (Some (en_file en)) (Some (tensor_of g0 i)) off True n) =
      ReadOK (slice (g_file g0) (unat (g_data_base g0) + unat (t_data_offset (tensor_of g0 i)) + unat off) (unat n))"
    unfolding g(1) gguf_read_exact_aux [OF o t assms(2) g(2)] using assms(1) by (simp add: matrix_at_def)
  then show ?thesis by (simp add: file_bytes_def tensor_bytes_def slice_sub [OF assms(2)])
qed

lemma matrix_rows:
  assumes "matrix_at en g0 name i" and "(v + cnt) * unat rb \<le> unat (t_nbytes (tensor_of g0 i))"
  shows "file_bytes en (tensor_of g0 i) (of_nat v * rb) (of_nat cnt * rb) = Inr (slice (tensor_bytes g0 i) (v * unat rb) (cnt * unat rb))"
proof -
  have s: "v * unat rb + cnt * unat rb \<le> unat (t_nbytes (tensor_of g0 i))" using assms(2) by (simp add: add_mult_distrib)
  have "unat (t_nbytes (tensor_of g0 i)) < 2 ^ 64" using unsigned_less [of "t_nbytes (tensor_of g0 i)", where 'a = nat] by simp
  then have "unat (of_nat v * rb) = v * unat rb" "unat (of_nat cnt * rb) = cnt * unat rb"
    using s by (intro unat_row_start; linarith)+
  then show ?thesis using matrix_read [OF assms(1), of "of_nat v * rb" "of_nat cnt * rb"] s by simp
qed

text \<open>The bytes of a row, and the row of the matrix as numbers.\<close>

definition row_size :: "vg_gguf_tensor \<Rightarrow> u32 \<Rightarrow> u64" where
  "row_size t D =
     (if t_ggml_type t = 0 then ucast (D * 4)
      else case vg_quant_info (t_ggml_type t) of
        Some qi \<Rightarrow> ucast (D div qi_block_size qi) * ucast (qi_bytes_per_block qi) | None \<Rightarrow> 0)"

definition matrix_row :: "vg_gguf_tensor \<Rightarrow> bytes \<Rightarrow> u32 \<Rightarrow> nat \<Rightarrow> vg_status + flt list" where
  "matrix_row t m D v =
     (let row = slice m (v * unat (row_size t D)) (unat (row_size t D))
      in if t_ggml_type t = 0 then Inr (f32_list row (unat D)) else vg_dequantize_row (t_ggml_type t) (Some row) (row_size t D) True (ucast D))"

lemma row_inside: "v < n \<Longrightarrow> n * r \<le> k \<Longrightarrow> (v + 1) * r \<le> (k :: nat)"
  by (metis Suc_eq_plus1 Suc_leI mult_le_mono1 order_trans)

lemma embed_row:
  assumes "matrix_at en g0 (cstr ''token_embd.weight'') i" and "v < unat (mc_n_vocab (mg_cfg g))"
    and "unat (mc_n_vocab (mg_cfg g)) * unat (row_size (tensor_of g0 i) (mc_n_embd (mg_cfg g))) \<le> unat (t_nbytes (tensor_of g0 i))"
    and "vg_model_graph_embed en (Some g) (int v) = Inr r"
  shows "matrix_row (tensor_of g0 i) (tensor_bytes g0 i) (mc_n_embd (mg_cfg g)) v = Inr r \<and>
    (t_ggml_type (tensor_of g0 i) = 0 \<or> (\<exists>qi. vg_quant_info (t_ggml_type (tensor_of g0 i)) = Some qi \<and> qi_block_size qi \<noteq> 0))"
proof -
  define D where "D = mc_n_embd (mg_cfg g)"
  define t where "t = tensor_of g0 i"
  have rd: "file_bytes en t (of_nat v * row_size t D) (row_size t D) = Inr (slice (tensor_bytes g0 i) (v * unat (row_size t D)) (unat (row_size t D)))"
    using matrix_rows [OF assms(1), of v 1 "row_size t D"] row_inside [OF assms(2,3)] by (simp add: t_def D_def)
  have guard: "(word_of_int (int v) :: u32) = of_nat v" "\<not> mc_n_vocab (mg_cfg g) \<le> (of_nat v :: u32)"
  proof -
    show "(word_of_int (int v) :: u32) = of_nat v" by simp
    have "v < 2 ^ 32" using assms(2) unsigned_less [of "mc_n_vocab (mg_cfg g)", where 'a = nat] by simp
    then have "unat (of_nat v :: u32) = v" by (simp add: unat_of_nat)
    then show "\<not> mc_n_vocab (mg_cfg g) \<le> (of_nat v :: u32)" using assms(2) by (simp add: not_le word_less_nat_alt)
  qed
  have f: "find_tensor en (cstr ''token_embd.weight'') = Some t" using matrix_tensor [OF assms(1)] by (simp add: t_def)
  show ?thesis
  proof (cases "t_ggml_type t = 0")
    case True
    then have "row_size t D = ucast (D * 4)" by (simp add: row_size_def)
    then show ?thesis using assms(4) True guard f rd
      by (simp add: vg_model_graph_embed_def Let_def D_def [symmetric] matrix_row_def t_def [symmetric])
  next
    case False
    then obtain qi where qi: "vg_quant_info (t_ggml_type t) = Some qi" "qi_block_size qi \<noteq> 0"
      using assms(4) guard f by (auto simp: vg_model_graph_embed_def Let_def split: option.splits if_splits)
    then have "row_size t D = ucast (D div qi_block_size qi) * ucast (qi_bytes_per_block qi)" using False by (simp add: row_size_def)
    then show ?thesis using assms(4) False guard f rd qi
      by (simp add: vg_model_graph_embed_def Let_def D_def [symmetric] matrix_row_def t_def [symmetric])
  qed
qed

text \<open>One batch writes its rows, whatever the row buffer held.\<close>

lemma fold_rows_nth:
  assumes "v + cnt \<le> length lg" and "\<And>buf. j < cnt \<Longrightarrow> q buf j = y"
    and "foldl (\<lambda>(lg, buf) i. (lg[v + i := q buf i], r buf i)) (lg, buf) [0..<cnt] = (lg', buf')"
  shows "length lg' = length lg" and "j < cnt \<Longrightarrow> lg' ! (v + j) = y" and "k < v \<or> v + cnt \<le> k \<Longrightarrow> lg' ! k = lg ! k"
proof -
  have "length lg' = length lg \<and> (j < cnt \<longrightarrow> lg' ! (v + j) = y) \<and> (k < v \<or> v + cnt \<le> k \<longrightarrow> lg' ! k = lg ! k)"
    using assms
  proof (induction cnt arbitrary: lg' buf')
    case (Suc cnt)
    obtain l b where f: "foldl (\<lambda>(lg, buf) i. (lg[v + i := q buf i], r buf i)) (lg, buf) [0..<cnt] = (l, b)" by fastforce
    have ih: "length l = length lg \<and> (j < cnt \<longrightarrow> l ! (v + j) = y) \<and> (k < v \<or> v + cnt \<le> k \<longrightarrow> l ! k = lg ! k)"
      using Suc.IH [OF _ _ f] Suc.prems(1,2) by simp
    have lg': "lg' = l[v + cnt := q b cnt]" using Suc.prems(3) f by simp
    have "cnt = j \<Longrightarrow> q b cnt = y" using Suc.prems(2) by simp
    then show ?case unfolding lg' using ih Suc.prems(1) by (cases "j = cnt") (simp_all add: less_Suc_eq)
  qed simp
  then show "length lg' = length lg" "j < cnt \<Longrightarrow> lg' ! (v + j) = y" "k < v \<or> v + cnt \<le> k \<Longrightarrow> lg' ! k = lg ! k" by simp_all
qed

lemma logit_batch_nth:
  assumes "file_bytes en t (of_nat v * row_size t D) (of_nat cnt * row_size t D) = Inr (slice m (v * unat (row_size t D)) (cnt * unat (row_size t D)))"
    and "t_ggml_type t \<noteq> 0" and "vg_quant_info (t_ggml_type t) = Some qi" and "v + cnt \<le> length lg"
    and "matrix_row t m D k = Inr row"
  shows "v \<le> k \<Longrightarrow> k < v + cnt \<Longrightarrow> fst (logit_batch en t qi D x v cnt (lg, buf)) ! k = head_dot (unat D) row x"
    and "k < v \<or> v + cnt \<le> k \<Longrightarrow> fst (logit_batch en t qi D x v cnt (lg, buf)) ! k = lg ! k"
proof -
  define rb where "rb = row_size t D"
  have rb: "ucast (D div qi_block_size qi) * ucast (qi_bytes_per_block qi) = rb" using assms(2,3) by (simp add: rb_def row_size_def)
  define q where "q = (\<lambda>buf i. case vg_dequantize_row (t_ggml_type t) (Some (slice (slice m (v * unat rb) (cnt * unat rb)) (i * unat rb) (unat rb))) rb True (ucast D) of
      Inr r \<Rightarrow> r | Inl st \<Rightarrow> buf)"
  have run: "logit_batch en t qi D x v cnt (lg, buf) =
      foldl (\<lambda>(lg, buf) i. (lg[v + i := head_dot (unat D) (q buf i) x], q buf i)) (lg, buf) [0..<cnt]"
    using assms(1) unfolding rb_def [symmetric] by (simp add: logit_batch_def Let_def rb q_def)
  have val: "head_dot (unat D) (q b i) x = head_dot (unat D) row x" if "i < cnt" "i = k - v" "v \<le> k" for b i
  proof -
    have "i * unat rb + unat rb \<le> cnt * unat rb" using row_inside [OF that(1) order_refl, of "unat rb"] by simp
    then have "slice (slice m (v * unat rb) (cnt * unat rb)) (i * unat rb) (unat rb) = slice m (k * unat rb) (unat rb)"
      using that by (simp add: slice_sub add_mult_distrib [symmetric])
    then show ?thesis using assms(2,5) by (simp add: q_def matrix_row_def rb_def)
  qed
  obtain l b where f: "foldl (\<lambda>(lg, buf) i. (lg[v + i := head_dot (unat D) (q buf i) x], q buf i)) (lg, buf) [0..<cnt] = (l, b)" by fastforce
  show "fst (logit_batch en t qi D x v cnt (lg, buf)) ! k = head_dot (unat D) row x" if k: "v \<le> k" "k < v + cnt"
    using fold_rows_nth(2) [OF assms(4) _ f, of "k - v" "head_dot (unat D) row x"] val [OF _ refl k(1)] k unfolding run f by simp
  show "fst (logit_batch en t qi D x v cnt (lg, buf)) ! k = lg ! k" if "k < v \<or> v + cnt \<le> k"
    using fold_rows_nth(3) [OF assms(4) _ f, of cnt f_zero k] that unfolding run f by simp
qed

lemma logit_batches_nth:
  assumes "matrix_at en g0 name i" and "t = tensor_of g0 i" and "m = tensor_bytes g0 i" and "n * unat (row_size t D) \<le> unat (t_nbytes t)"
    and "t_ggml_type t \<noteq> 0" and "vg_quant_info (t_ggml_type t) = Some qi" and "matrix_row t m D k = Inr row"
    and "n \<le> length (fst lgb)" and "k < n"
  shows "fst (logit_batches en t qi D x v n lgb) ! k = (if v \<le> k then head_dot (unat D) row x else fst lgb ! k)"
  using assms(8)
proof (induction "n - v" arbitrary: v lgb rule: less_induct)
  case less
  show ?case
  proof (cases "v < n")
    case True
    define cnt where "cnt = (if n - v < 256 then n - v else 256)"
    have cnt: "v + cnt \<le> n" "0 < cnt" "v + cnt = n \<or> cnt = 256" using True by (auto simp: cnt_def)
    have run: "logit_batches en t qi D x v n lgb = logit_batches en t qi D x (v + 256) n (logit_batch en t qi D x v cnt lgb)"
      using True by (subst logit_batches.simps) (simp add: cnt_def del: logit_batches.simps)
    obtain lg buf where l: "lgb = (lg, buf)" by (cases lgb)
    have "(v + cnt) * unat (row_size t D) \<le> unat (t_nbytes t)" using mult_le_mono1 [OF cnt(1)] assms(4) by (rule order_trans)
    then have rd: "file_bytes en t (of_nat v * row_size t D) (of_nat cnt * row_size t D) =
        Inr (slice m (v * unat (row_size t D)) (cnt * unat (row_size t D)))"
      using matrix_rows [OF assms(1), of v cnt "row_size t D"] assms(2,3) by simp
    have room: "v + cnt \<le> length lg" using cnt(1) less.prems l by simp
    note b = logit_batch_nth [OF rd assms(5,6) room assms(7), of x buf, folded l]
    have "fst (logit_batches en t qi D x (v + 256) n (logit_batch en t qi D x v cnt lgb)) ! k =
        (if v + 256 \<le> k then head_dot (unat D) row x else fst (logit_batch en t qi D x v cnt lgb) ! k)"
      using True less.prems by (intro less.hyps) (simp_all add: logit_batch_length)
    then show ?thesis using b l cnt assms(9) unfolding run by (auto simp: not_le)
  next
    case False
    then show ?thesis using assms(9) by (subst logit_batches.simps) (simp del: logit_batches.simps)
  qed
qed

lemma write_all_nth: "i < n \<Longrightarrow> n \<le> length out \<Longrightarrow> write_all n f out ! i = f i"
proof -
  assume i: "i < n" "n \<le> length out"
  have "k \<le> length out \<Longrightarrow> length (foldl (\<lambda>out i. out[i := f i]) out [0..<k]) = length out \<and>
      (\<forall>j < k. foldl (\<lambda>out i. out[i := f i]) out [0..<k] ! j = f j)" for k
  proof (induction k)
    case (Suc k)
    then show ?case by (auto simp: nth_list_update less_Suc_eq)
  qed simp
  then show ?thesis using i by (simp add: write_all_def)
qed

text \<open>C12: in a model that has no output matrix of its own, the logit of a token is the product of the final activation with
  the embedding of that token: the head, which reads the quantized matrix in batches of 256 rows, uses the same row that
  decoding the token alone would, for every format.\<close>

theorem head_uses_embedding:
  assumes "matrix_at en g0 (cstr ''token_embd.weight'') i" and "find_tensor en (cstr ''output.weight'') = None"
    and "length (mg_logits g) = unat (mc_n_vocab (mg_cfg g))" and "v < unat (mc_n_vocab (mg_cfg g))"
    and "unat (mc_n_vocab (mg_cfg g)) * unat (row_size (tensor_of g0 i) (mc_n_embd (mg_cfg g))) \<le> unat (t_nbytes (tensor_of g0 i))"
    and "vg_model_graph_embed en (Some g) (int v) = Inr row"
  shows "lm_head en g x ! v = head_dot (unat (mc_n_embd (mg_cfg g))) row x \<and>
    matrix_row (tensor_of g0 i) (tensor_bytes g0 i) (mc_n_embd (mg_cfg g)) v = Inr row"
proof -
  define D where "D = mc_n_embd (mg_cfg g)"
  define t where "t = tensor_of g0 i"
  define m where "m = tensor_bytes g0 i"
  note row = embed_row [OF assms(1,4,5,6), folded D_def t_def m_def]
  have f: "find_tensor en (cstr ''token_embd.weight'') = Some t" using matrix_tensor [OF assms(1)] by (simp add: t_def)
  have fits: "unat (mc_n_vocab (mg_cfg g)) * unat (row_size t D) \<le> unat (t_nbytes t)" using assms(5) by (simp add: t_def D_def)
  have "lm_head en g x ! v = head_dot (unat D) row x"
  proof (cases "t_ggml_type t = 0")
    case True
    have "file_bytes en t (of_nat v * row_size t D) (row_size t D) = Inr (slice m (v * unat (row_size t D)) (unat (row_size t D)))"
      using matrix_rows [OF assms(1), of v 1 "row_size t D"] row_inside [OF assms(4) fits] by (simp add: t_def m_def)
    then have "logit_f32 en t D x v = head_dot (unat D) row x"
      using row True by (auto simp: logit_f32_def row_size_def matrix_row_def Let_def)
    then show ?thesis
      using f assms(2,3,4) True by (simp add: lm_head_def Let_def D_def [symmetric] write_all_nth)
  next
    case False
    then obtain qi where qi: "vg_quant_info (t_ggml_type t) = Some qi" "qi_block_size qi \<noteq> 0" using row by blast
    then have pos: "0 < qi_block_size qi" by (simp add: word_neq_0_conv)
    have "fst (logit_batches en t qi D x 0 (unat (mc_n_vocab (mg_cfg g))) (mg_logits g, en_junk en (unat D))) ! v = head_dot (unat D) row x"
      using logit_batches_nth [OF assms(1) t_def m_def fits False qi(1) conjunct1 [OF row] _ assms(4), of "(mg_logits g, en_junk en (unat D))" x 0]
        assms(3) by simp
    then show ?thesis
      using f assms(2) False qi pos by (simp add: lm_head_def Let_def D_def [symmetric] del: logit_batches.simps)
  qed
  then show ?thesis using row by (simp add: D_def t_def m_def)
qed

section \<open>A small model file\<close>

text \<open>One metadata entry, the architecture \<open>x\<close>, and one tensor, an embedding of two tokens with one number each.\<close>

definition tiny_meta :: bytes where
  "tiny_meta = 20 # replicate 7 0 @ cstr ''general.architecture'' @ [8, 0, 0, 0, 1, 0, 0, 0, 0, 0, 0, 0, 120]"

definition tiny_index :: bytes where
  "tiny_index = 17 # replicate 7 0 @ cstr ''token_embd.weight'' @
     [2, 0, 0, 0, 1, 0, 0, 0, 0, 0, 0, 0, 2, 0, 0, 0, 0, 0, 0, 0, 0, 0, 0, 0, 0, 0, 0, 0, 0, 0, 0, 0]"

definition tiny_file :: bytes where
  "tiny_file = sample_head @ tiny_meta @ tiny_index @ replicate 6 0 @ sample_data"

definition tiny_tensor :: vg_gguf_tensor where
  "tiny_tensor = \<lparr>t_name = cstr ''token_embd.weight'', t_n_dims = 2, t_dims = [1, 2, 0, 0], t_ggml_type = 0, t_data_offset = 0, t_nbytes = 8\<rparr>"

definition tiny_gguf :: vg_gguf where
  "tiny_gguf = (new_gguf tiny_file)\<lparr>g_tensor_count := 1, g_meta := [\<lparr>m_key = cstr ''general.architecture'', m_value = [120]\<rparr>],
     g_tensors := Some [tiny_tensor], g_data_base := 128, g_tensor_hash := hash_build [cstr ''token_embd.weight''],
     g_meta_hash := hash_build [cstr ''general.architecture'']\<rparr>"

lemma tiny_header: "rd_u32 tiny_file = ROk 0x46554747 (drop 4 tiny_file)"
  "rd_u32 (drop 4 tiny_file) = ROk 3 (drop 8 tiny_file)"
  "rd_u64 (drop 8 tiny_file) = ROk 1 (drop 16 tiny_file)"
  "rd_u64 (drop 16 tiny_file) = ROk 1 (tiny_meta @ tiny_index @ replicate 6 0 @ sample_data)"
  by (simp_all add: rd_u32_def rd_u64_def rd_def tiny_file_def sample_head_def le_u32_def le_u64_def)

lemma tiny_parse_meta: "parse_meta 1 (tiny_meta @ rest) = POk [\<lparr>m_key = cstr ''general.architecture'', m_value = [120]\<rparr>] rest"
  by (simp add: tiny_meta_def parse_eval read_string_def c_string_def read_value_def cstr_def byte_simps replicate_37 read_scalar_value.simps [of "Suc _"])

lemma parse_dims_2: "parse_dims 2 bs = pread (rd_u64 bs) (\<lambda>d bs. if d = 0 then PErr VG_E_FORMAT
    else (case parse_dims 1 bs of POk ds bs \<Rightarrow> POk (d # ds) bs | PErr e \<Rightarrow> PErr e | PUndef \<Rightarrow> PUndef))" "replicate 2 x = [x, x]"
  unfolding numeral_2_eq_2 One_nat_def by (simp_all only: parse_dims.simps replicate.simps)

lemma tiny_parse_index: "parse_tensors 1 (tiny_index @ rest) = POk [tiny_tensor] rest"
  by (simp add: tiny_index_def parse_eval parse_tensor_def read_string_def c_string_def tensor_nbytes_def quant_layout_def
      quant_info_f32 mk_info_def tiny_tensor_def cstr_def byte_simps replicate_37 parse_dims_2)

lemma tiny_open: "vg_gguf_open tiny_file = Opened tiny_gguf"
proof -
  obtain th mh where h: "hash_build [cstr ''token_embd.weight''] = Some th" "hash_build [cstr ''general.architecture''] = Some mh"
    using hash_build_Some [of "[cstr ''token_embd.weight'']"] hash_build_Some [of "[cstr ''general.architecture'']"] by auto
  let ?g = "(new_gguf tiny_file)\<lparr>g_tensor_count := 1, g_meta := [\<lparr>m_key = cstr ''general.architecture'', m_value = [120]\<rparr>], g_tensors := Some [tiny_tensor]\<rparr>"
  have len: "length tiny_file = 136"
    by (simp add: tiny_file_def sample_head_def tiny_meta_def tiny_index_def sample_data_def cstr_def)
  have al: "meta_alignment ?g = 32"
    by (simp add: meta_alignment_def find_pos_Nil_meta new_gguf_def byte_simps cstr_def)
  have l2: "length (replicate 6 (0 :: u8) @ sample_data) = 14" by (simp add: sample_data_def)
  have nm: "map t_name [tiny_tensor] = [cstr ''token_embd.weight'']" by (simp add: tiny_tensor_def)
  have fin: "parse_finish ?g (replicate 6 0 @ sample_data) = Some (VG_OK, tiny_gguf)"
    unfolding parse_finish_def Let_def al l2
    by (simp add: len h nm [simplified] new_gguf_def align_up_u64_def tensor_in_range_def tiny_tensor_def g_names_def tiny_gguf_def)
  have "parse_index (new_gguf tiny_file) = Some (VG_OK, tiny_gguf)"
    unfolding parse_index_def
    using fin tiny_parse_meta tiny_parse_index
    by (simp add: new_gguf_def [of tiny_file, THEN arg_cong, of g_file] tiny_header Let_def)
  then show ?thesis by (simp add: vg_gguf_open_def len)
qed

definition tiny_env :: genv where
  "tiny_env = \<lparr>en_libm = flat_libm, en_cpu = cpu_start, en_sched = (\<lambda>jobs. jobs), en_io = \<lparr>io_map = True, io_open_direct = True\<rparr>,
     en_file = tiny_gguf, en_source = None, en_strtof = (\<lambda>_. f_one), en_junk = (\<lambda>n. replicate n f_zero)\<rparr>"

lemma tiny_sound: "sound_file tiny_gguf"
proof -
  have "length tiny_file = 136"
    by (simp add: tiny_file_def sample_head_def tiny_meta_def tiny_index_def sample_data_def cstr_def)
  then show ?thesis using tiny_open by (simp add: sound_file_def tiny_gguf_def new_gguf_def)
qed

lemma tiny_meta_value: "vg_gguf_meta (Some tiny_gguf) (Some key) = (if key = cstr ''general.architecture'' then Some [120] else None)"
  unfolding gguf_meta_first [OF tiny_open] by (simp add: tiny_gguf_def)

lemma tiny_find: "vg_gguf_find_tensor (Some tiny_gguf) (Some name) = (if name = cstr ''token_embd.weight'' then Some 0 else None)"
proof -
  have "g_tensors tiny_gguf = Some [tiny_tensor]" by (simp add: tiny_gguf_def)
  from gguf_find_tensor_first_aux [OF tiny_open this, of name] show ?thesis
    by (auto simp: tiny_tensor_def split: option.splits)
qed

lemma tiny_tensor_find: "find_tensor tiny_env name = (if name = cstr ''token_embd.weight'' then Some tiny_tensor else None)"
  by (simp add: find_tensor_def tiny_env_def tiny_find) (simp add: tiny_gguf_def)

lemma tiny_no_int: "hd key \<noteq> 103 \<Longrightarrow> read_metadata_int tiny_env key old = old"
proof -
  assume "hd key \<noteq> 103"
  then have "key \<noteq> cstr ''general.architecture''" by (auto simp: cstr_def byte_simps)
  then show ?thesis by (simp add: read_metadata_int_def tiny_env_def tiny_meta_value)
qed

lemma tiny_field: "read_field tiny_env [120] field = 0" "read_metadata_int tiny_env (arch_key [120] field) old = old"
  by (simp_all add: read_field_def tiny_no_int arch_key_def)

lemma tiny_dim: "tensor_dim tiny_env name i = (if cstr name = cstr ''token_embd.weight'' \<and> of_nat (Suc i) \<le> (2 :: u32) then Some ([1, 2, 0, 0] ! i) else None)"
  by (simp add: tensor_dim_def tiny_tensor_find tiny_tensor_def)

definition tiny_graph :: vg_modelgraph where
  "tiny_graph = (case vg_model_graph_load tiny_env of Inr g \<Rightarrow> g)"

lemma tiny_load: "vg_model_graph_load tiny_env = Inr tiny_graph"
proof -
  have "vg_gguf_meta (Some (en_file tiny_env)) (Some (cstr ''general.architecture'')) = Some [120]" by (simp add: tiny_env_def tiny_meta_value)
  then show ?thesis by (simp add: tiny_graph_def vg_model_graph_load_def Let_def)
qed

lemma tiny_reach: "graph_reach tiny_graph"
  by (rule graph_reach.loaded [OF _ tiny_load]) (simp add: tiny_env_def)

lemma tiny_config: "mc_n_vocab (mg_cfg tiny_graph) = 2 \<and> mc_n_embd (mg_cfg tiny_graph) = 1 \<and> mc_n_ctx (mg_cfg tiny_graph) = 2048 \<and>
    mc_n_layer (mg_cfg tiny_graph) = 0 \<and> mc_bos_id (mg_cfg tiny_graph) = 0"
proof -
  have g: "mg_cfg tiny_graph = load_config tiny_env [120]"
    using tiny_load by (simp add: vg_model_graph_load_def Let_def tiny_env_def tiny_meta_value) (metis vg_modelgraph.select_convs(1))
  have b: "read_metadata_int tiny_env (cstr ''tokenizer.ggml.bos_token_id'') old = old" for old by (simp add: tiny_no_int cstr_def byte_simps)
  have "mc_n_vocab (read_sizes tiny_env [120] zero_config) = 2 \<and> mc_n_embd (read_sizes tiny_env [120] zero_config) = 1 \<and>
      mc_n_layer (read_sizes tiny_env [120] zero_config) = 0"
    by (simp add: read_sizes_def Let_def tiny_field tiny_dim)
  then show ?thesis
    unfolding g load_config_def
    by (simp add: read_flags_def read_window_def read_experts_def read_numerics_def Let_def tiny_field b) (simp add: read_sizes_def Let_def zero_config_def)
qed

section \<open>Witnesses\<close>


theorem graph_decode_guarded_witness:
  "vg_model_graph_decode tiny_env (Some tiny_graph) 1 2048 = (VG_E_RANGE, None, Some tiny_graph)"
proof -
  obtain st lg g' where r: "vg_model_graph_decode tiny_env (Some tiny_graph) 1 2048 = (st, lg, g')" using prod_cases3 by blast
  show ?thesis using graph_decode_guarded [OF tiny_reach r] r tiny_config by auto
qed

definition tiny_view :: tok_view where
  "tiny_view = \<lparr>tv_prompt = [1, 0], tv_add_bos = True, tv_bos_id = 1, tv_eos_id = 5, tv_decode = (\<lambda>_. [97])\<rparr>"


lemma tiny_at: "matrix_at tiny_env tiny_gguf (cstr ''token_embd.weight'') 0" "tensor_of tiny_gguf 0 = tiny_tensor"
  "row_size tiny_tensor 1 = 4" "tensor_bytes tiny_gguf 0 = sample_data"
proof -
  show "matrix_at tiny_env tiny_gguf (cstr ''token_embd.weight'') 0"
    using tiny_sound same_file_open [OF tiny_sound] by (simp add: matrix_at_def tiny_env_def tiny_find)
  show t: "tensor_of tiny_gguf 0 = tiny_tensor" by (simp add: tiny_gguf_def)
  show "row_size tiny_tensor 1 = 4" by (simp add: row_size_def tiny_tensor_def)
  show "tensor_bytes tiny_gguf 0 = sample_data"
    unfolding tensor_bytes_def t
    by (simp add: tiny_tensor_def slice_def tiny_gguf_def new_gguf_def tiny_file_def sample_head_def tiny_meta_def tiny_index_def sample_data_def cstr_def byte_simps)
qed

lemma tiny_embed: "vg_model_graph_embed tiny_env (Some tiny_graph) 1 = Inr [FFin False 1 1]"
proof -
  have "file_bytes tiny_env tiny_tensor 4 4 = Inr (slice sample_data 4 4)"
    using matrix_rows [OF tiny_at(1), of 1 1 4] by (simp add: tiny_at tiny_tensor_def)
  moreover have "f32_list (slice sample_data 4 4) 1 = [FFin False 1 1]"
    by (simp add: f32_list_def sample_data_def slice_def u32_at_def le_u32_def f32_of_bits_def ieee_decode_def mk_fin_def canon.simps)
  ultimately show ?thesis using tiny_config
    by (simp add: vg_model_graph_embed_def tiny_tensor_find tiny_tensor_def Let_def word_le_nat_alt)
qed

theorem head_uses_embedding_witness:
  "lm_head tiny_env tiny_graph [f_one] ! 1 = head_dot 1 [FFin False 1 1] [f_one]"
proof -
  have len: "length (mg_logits tiny_graph) = 2" using graph_load_ok [OF _ tiny_load] tiny_config by (simp add: graph_ok_def tiny_env_def)
  show ?thesis
    using head_uses_embedding [OF tiny_at(1), of tiny_graph 1 "[FFin False 1 1]" "[f_one]"] len tiny_embed tiny_config tiny_at
    by (simp add: tiny_tensor_find tiny_tensor_def cstr_def)
qed

definition routed_graph :: vg_modelgraph where
  "routed_graph = tiny_graph\<lparr>mg_cfg := (mg_cfg tiny_graph)\<lparr>mc_n_expert := 2, mc_n_expert_used := 1\<rparr>\<rparr>"

theorem moe_route_top_witness:
  "\<exists>mo. vg_model_graph_moe_route tiny_env (Some routed_graph) 0 None (Some [f_zero, f_one]) True = Inr mo \<and> mo_expert_ids mo = [1]"
proof -
  have u: "unat (2 :: u32) = 2" by simp
  obtain mo where mo: "vg_model_graph_moe_route tiny_env (Some routed_graph) 0 None (Some [f_zero, f_one]) True = Inr mo"
    "length (mo_expert_ids mo) = 1" "\<forall>e \<in> set (mo_expert_ids mo). e < 2"
    "\<forall>e < 2. e \<notin> set (mo_expert_ids mo) \<longrightarrow> (\<forall>i \<in> set (mo_expert_ids mo). \<not> f_less ([f_zero, f_one] ! i) ([f_zero, f_one] ! e))"
    using moe_route_top [of routed_graph "[f_zero, f_one]" tiny_env 0 None] by (auto simp: routed_graph_def u less_2_cases_iff)
  obtain e where e: "mo_expert_ids mo = [e]" using mo(2) by (auto simp: length_Suc_conv)
  have "e \<noteq> 0"
  proof
    assume "e = 0"
    then have "\<not> f_less ([f_zero, f_one] ! 0) ([f_zero, f_one] ! 1)" using mo(4) [THEN spec, of 1] e by simp
    then show False by (simp add: signed_mant_def)
  qed
  then have "e = 1" using mo(3) e by auto
  with mo(1) e show ?thesis by simp
qed

text \<open>An environment in which two experts of two bytes of a router's gate can be read.\<close>

definition gate_tensor :: vg_gguf_tensor where
  "gate_tensor = \<lparr>t_name = blk 0 ''ffn_gate_exps.weight'', t_n_dims = 3, t_dims = [1, 1, 2, 0], t_ggml_type = 0, t_data_offset = 0, t_nbytes = 8\<rparr>"

definition gate_env :: genv where
  "gate_env = tiny_env\<lparr>en_file := (new_gguf sample_data)\<lparr>g_tensor_count := 1, g_tensors := Some [gate_tensor]\<rparr>\<rparr>"

lemma gate_load: "\<exists>v. load_expert gate_env 0 0 1 1 1 = Inr v \<and> es_data v = [0, 0, 0, 0x40] \<and> es_ggml_type v = 0"
proof -
  have f: "find_tensor gate_env (blk 0 ''ffn_gate_exps.weight'') = Some gate_tensor"
    by (simp add: find_tensor_def gate_env_def new_gguf_def vg_gguf_find_tensor_def named_lookup_def g_names_def gate_tensor_def)
  have b: "file_bytes gate_env gate_tensor 0 8 = Inr sample_data"
    by (simp add: file_bytes_def gate_env_def tiny_env_def new_gguf_def vg_gguf_read_def vg_gguf_map_def gate_tensor_def slice_def sample_data_def)
  have "acquire_weight gate_env (blk 0 ''ffn_gate_exps.weight'') = Inr \<lparr>wt_tensor = gate_tensor, wt_data = sample_data, wt_pinned = False\<rparr>"
    using f b by (simp add: acquire_weight_def gate_env_def tiny_env_def gate_tensor_def)
  then show ?thesis
    by (simp add: load_expert_def expert_kinds_def Let_def gate_tensor_def expert_stride_def quant_info_f32 mk_info_def sample_data_def slice_def word_le_nat_alt)
qed

theorem expert_cache_transparent_witness:
  "\<exists>c1 c2 r2. acquire_expert gate_env 0 0 1 1 1 (expert_cache_init 4) = (Inr ([0, 0, 0, 0x40], 0), c1) \<and>
     acquire_expert gate_env 0 0 0 1 1 c1 = (r2, c2) \<and> list_ex (\<lambda>s. es_data s = [0, 0, 0, 0x40]) (ec_slots c2)"
proof -
  obtain r c1 where a: "acquire_expert gate_env 0 0 1 1 1 (expert_cache_init 4) = (r, c1)" by fastforce
  obtain r2 c2 where b: "acquire_expert gate_env 0 0 0 1 1 c1 = (r2, c2)" by fastforce
  obtain v where v: "load_expert gate_env 0 0 1 1 1 = Inr v" "es_data v = [0, 0, 0, 0x40]" "es_ggml_type v = 0" using gate_load by blast
  have "ec_clock (expert_cache_init 4) = 0" by (simp add: expert_cache_init_def)
  then show ?thesis
    using expert_cache_transparent [OF expert_cache_init_ok [of gate_env 4] _ a b] a b v by (auto simp: list_ex_iff)
qed

text \<open>A graph with nine pages of rows of one number and a window of 512.\<close>

definition paged_graph :: vg_modelgraph where
  "paged_graph = tiny_graph\<lparr>mg_cfg := (mg_cfg tiny_graph)\<lparr>mc_n_ctx := 576, mc_sliding_window := 512, mc_n_head := 1, mc_n_head_kv := 1\<rparr>,
     mg_kv_capacity := 9, mg_kv_k := replicate 9 None, mg_kv_v := replicate 9 None\<rparr>"

lemma paged_ok: "paired (mg_kv_k paged_graph) (mg_kv_v paged_graph)" "pages_ok (unat (mg_kv_capacity paged_graph)) 0 1 (mg_kv_k paged_graph)"
  "pages_ok (unat (mg_kv_capacity paged_graph)) 0 1 (mg_kv_v paged_graph)" "64 \<le> unat (mc_sliding_window (mg_cfg paged_graph))"
  by (simp_all add: paged_graph_def paired_def pages_ok_def nth_append)

text \<open>After 513 positions the page of the first is gone, with position 1, which the window of 512 still holds.\<close>

theorem kv_window_witness:
  "map_option (take 1) (kv_row (mg_kv_k (kv_fill 0 1 (\<lambda>p. [fint (int p)]) (\<lambda>p. [f_one]) 513 paged_graph)) 9 0 1 0 1) = None \<and>
   map_option (take 1) (kv_row (mg_kv_v (kv_fill 0 1 (\<lambda>p. [fint (int p)]) (\<lambda>p. [f_one]) 513 paged_graph)) 9 0 1 0 1) = None \<and> 513 - 512 \<le> (1 :: nat)"
proof -
  have c: "unat (mc_n_ctx (mg_cfg paged_graph)) = 576" "unat (mg_kv_capacity paged_graph) = 9" "unat (mc_sliding_window (mg_cfg paged_graph)) = 512"
    by (simp_all add: paged_graph_def)
  have e: "evicted 512 513 1" by (simp add: evicted_def)
  show ?thesis
    using kv_window [of paged_graph 0 1 513 "\<lambda>p. [fint (int p)]" "\<lambda>p. [f_one]" 1] paged_ok c e by (simp add: Let_def)
qed

theorem attention_reference_witness:
  "attend tiny_env (kv_fill 0 1 (\<lambda>p. [fint (int p)]) (\<lambda>p. [f_one]) (Suc 1) paged_graph) 0 1 [f_one] 1 1 ! 0 =
   attention_ref flat_libm (mg_cfg paged_graph) 1 [f_one] 1 (\<lambda>p. [fint (int p)]) (\<lambda>p. [f_one]) 0 0"
proof -
  have c: "unat (mc_n_ctx (mg_cfg paged_graph)) = 576" "unat (mg_kv_capacity paged_graph) = 9" "unat (mc_sliding_window (mg_cfg paged_graph)) = 512"
    "unat (mc_n_head (mg_cfg paged_graph)) = 1" "unat (mc_n_head_kv (mg_cfg paged_graph)) = 1" "en_libm tiny_env = flat_libm"
    by (simp_all add: paged_graph_def tiny_env_def)
  show ?thesis
    using attention_reference [of paged_graph 0 1 1 "\<lambda>p. [fint (int p)]" "\<lambda>p. [f_one]" 1 "[f_one]" 0 0 tiny_env] paged_ok c by simp
qed

end
