(* ===== verification/Probe_Props.thy ===== *)
theory Probe_Props
  imports Probe GraphRun_Props
begin

text \<open>
  Properties of the model probe: which models it accepts, and that an accepted model is loaded with the sizes it was
  checked for, so that no product of its layers is refused. Every check decides one predicate of the report; a run of
  checks decides their conjunction.
\<close>

section \<open>What a check decides\<close>

text \<open>
  A check decides a predicate of the report that does not look at the list of formats; if it goes on, it changed only that
  list; if it stops, the report is no longer ok.
\<close>

definition decides :: "check \<Rightarrow> (vg_modelprobe \<Rightarrow> bool) \<Rightarrow> bool" where
  "decides c P \<longleftrightarrow> (\<forall>p. mp_ok p \<and> mp_status p = VG_OK \<longrightarrow>
     (P p \<longrightarrow> (\<exists>qs. c p = (True, p\<lparr>mp_quant_names := qs\<rparr>))) \<and>
     (\<not> P p \<longrightarrow> (\<exists>st tensor msg qs. st \<noteq> VG_OK \<and> c p = (False, probe_fail st tensor msg (p\<lparr>mp_quant_names := qs\<rparr>))))) \<and>
   (\<forall>p qs. P (p\<lparr>mp_quant_names := qs\<rparr>) = P p)"

lemma same_quants [simp]: "p\<lparr>mp_quant_names := mp_quant_names p\<rparr> = p"
  by simp

lemma add_quant_keeps: "\<exists>qs. add_quant ty p = p\<lparr>mp_quant_names := qs\<rparr>"
  by (metis add_quant_def same_quants)

text \<open>The two outcomes of a check.\<close>

definition goes_on :: "check \<Rightarrow> vg_modelprobe \<Rightarrow> bool" where
  "goes_on c p \<longleftrightarrow> (\<exists>qs. c p = (True, p\<lparr>mp_quant_names := qs\<rparr>))"

definition stops :: "check \<Rightarrow> vg_modelprobe \<Rightarrow> bool" where
  "stops c p \<longleftrightarrow> (\<exists>st tensor msg qs. st \<noteq> VG_OK \<and> c p = (False, probe_fail st tensor msg (p\<lparr>mp_quant_names := qs\<rparr>)))"

lemma goes_on_same: "c p = (True, p) \<Longrightarrow> goes_on c p"
  unfolding goes_on_def by (metis same_quants)

lemma goes_on_add: "c p = (True, add_quant ty p) \<Longrightarrow> goes_on c p"
  unfolding goes_on_def by (metis add_quant_keeps)

lemma stops_same: "c p = (False, probe_fail st tensor msg p) \<Longrightarrow> st \<noteq> VG_OK \<Longrightarrow> stops c p"
  unfolding stops_def by (metis same_quants)

lemma stops_add: "c p = (False, probe_fail st tensor msg (add_quant ty p)) \<Longrightarrow> st \<noteq> VG_OK \<Longrightarrow> stops c p"
  unfolding stops_def by (metis add_quant_keeps)

lemmas outcome = goes_on_same goes_on_add stops_same stops_add

lemma decides_alt: "decides c P \<longleftrightarrow> (\<forall>p. mp_ok p \<and> mp_status p = VG_OK \<longrightarrow> (P p \<longrightarrow> goes_on c p) \<and> (\<not> P p \<longrightarrow> stops c p)) \<and>
    (\<forall>p qs. P (p\<lparr>mp_quant_names := qs\<rparr>) = P p)"
  unfolding decides_def goes_on_def stops_def ..

lemma decidesI:
  assumes "\<And>p. mp_ok p \<Longrightarrow> mp_status p = VG_OK \<Longrightarrow> P p \<Longrightarrow> goes_on c p"
    and "\<And>p. mp_ok p \<Longrightarrow> mp_status p = VG_OK \<Longrightarrow> \<not> P p \<Longrightarrow> stops c p"
    and "\<And>p qs. P (p\<lparr>mp_quant_names := qs\<rparr>) = P p"
  shows "decides c P"
  using assms by (simp add: decides_alt)

lemma decides_stop_if: "(\<And>p qs. B (p\<lparr>mp_quant_names := qs\<rparr>) = B p) \<Longrightarrow> st \<noteq> VG_OK \<Longrightarrow>
    decides (\<lambda>p. stop_if (B p) st tensor (msg p) p) (\<lambda>p. \<not> B p)"
  by (rule decidesI) (auto simp: stop_if_def intro: outcome)

lemma decides_stop_const: "st \<noteq> VG_OK \<Longrightarrow> Q = (\<not> b) \<Longrightarrow> decides (stop_if b st tensor msg) (\<lambda>p. Q)"
  by (rule decidesI) (auto simp: stop_if_def intro: outcome)

lemma stops_first: "stops c p \<Longrightarrow> stops (run_checks (c # cs)) p"
  unfolding stops_def by (elim exE conjE) (rule exI, rule exI, rule exI, rule exI, erule conjI, simp)

lemma stops_later: "c p = (True, p\<lparr>mp_quant_names := qs\<rparr>) \<Longrightarrow> stops (run_checks cs) (p\<lparr>mp_quant_names := qs\<rparr>) \<Longrightarrow> stops (run_checks (c # cs)) p"
  unfolding stops_def by (elim exE conjE) (rule exI, rule exI, rule exI, rule exI, erule conjI, simp)

lemma decides_run:
  assumes "list_all2 decides cs Ps"
  shows "decides (run_checks cs) (\<lambda>p. list_all (\<lambda>P. P p) Ps)"
  using assms
proof (induction rule: list_all2_induct)
  case Nil
  show ?case by (rule decidesI) (simp_all add: goes_on_same)
next
  case (Cons c cs P Ps)
  note d = Cons.hyps(1) and D = Cons.IH
  have ins: "P (p\<lparr>mp_quant_names := qs\<rparr>) = P p" "list_all (\<lambda>P. P (p\<lparr>mp_quant_names := qs\<rparr>)) Ps = list_all (\<lambda>P. P p) Ps" for p qs
    using d D by (simp_all add: decides_def)
  show ?case
  proof (rule decidesI)
    fix p assume p: "mp_ok p" "mp_status p = VG_OK" "list_all (\<lambda>P. P p) (P # Ps)"
    have "goes_on c p" using d p by (simp add: decides_alt)
    then obtain qs where c: "c p = (True, p\<lparr>mp_quant_names := qs\<rparr>)" unfolding goes_on_def ..
    have "goes_on (run_checks cs) (p\<lparr>mp_quant_names := qs\<rparr>)" using D p by (simp add: decides_alt ins)
    then obtain qs' where "run_checks cs (p\<lparr>mp_quant_names := qs\<rparr>) = (True, p\<lparr>mp_quant_names := qs, mp_quant_names := qs'\<rparr>)"
      unfolding goes_on_def ..
    then have "run_checks (c # cs) p = (True, p\<lparr>mp_quant_names := qs'\<rparr>)" using c by simp
    then show "goes_on (run_checks (c # cs)) p" unfolding goes_on_def ..
  next
    fix p assume p: "mp_ok p" "mp_status p = VG_OK" "\<not> list_all (\<lambda>P. P p) (P # Ps)"
    show "stops (run_checks (c # cs)) p"
    proof (cases "P p")
      case False
      then have "stops c p" using d p by (simp add: decides_alt)
      then show ?thesis by (rule stops_first)
    next
      case True
      then have "goes_on c p" using d p by (simp add: decides_alt)
      then obtain qs where c: "c p = (True, p\<lparr>mp_quant_names := qs\<rparr>)" unfolding goes_on_def ..
      have "mp_ok (p\<lparr>mp_quant_names := qs\<rparr>)" "mp_status (p\<lparr>mp_quant_names := qs\<rparr>) = VG_OK" "\<not> list_all (\<lambda>P. P (p\<lparr>mp_quant_names := qs\<rparr>)) Ps"
        using p True by (simp_all add: ins)
      then have "stops (run_checks cs) (p\<lparr>mp_quant_names := qs\<rparr>)" using D by (simp add: decides_alt)
      then show ?thesis using c by (simp add: stops_later)
    qed
  qed (simp add: ins)
qed

section \<open>The conditions on one tensor\<close>

definition decodable :: "vg_gguf_tensor \<Rightarrow> bool" where
  "decodable t \<longleftrightarrow> (case vg_quant_info (t_ggml_type t) of Some qi \<Rightarrow> qi_scalar qi | None \<Rightarrow> False)"

definition whole_blocks :: "vg_gguf_tensor \<Rightarrow> bool" where
  "whole_blocks t \<longleftrightarrow> (case vg_quant_info (t_ggml_type t) of Some qi \<Rightarrow> t_dims t ! 0 mod ucast (qi_block_size qi) = 0 | None \<Rightarrow> False)"

text \<open>A tensor of the name that can be decoded; as a matrix, with whole blocks and the sizes that are known.\<close>

definition has_weight :: "vg_gguf \<Rightarrow> bytes \<Rightarrow> bool" where
  "has_weight g name \<longleftrightarrow> (case probe_find g name of Some t \<Rightarrow> decodable t | None \<Rightarrow> False)"

definition has_matrix :: "vg_gguf \<Rightarrow> bytes \<Rightarrow> u32 \<Rightarrow> u32 \<Rightarrow> bool" where
  "has_matrix g name cols rows \<longleftrightarrow> has_weight g name \<and>
     (case probe_find g name of
        Some t \<Rightarrow> t_n_dims t \<ge> 2 \<and> whole_blocks t \<and> (cols = 0 \<or> t_dims t ! 0 = ucast cols) \<and> (rows = 0 \<or> t_dims t ! 1 = ucast rows)
      | None \<Rightarrow> False)"

definition has_vector :: "vg_gguf \<Rightarrow> bytes \<Rightarrow> u32 \<Rightarrow> bool" where
  "has_vector g name n \<longleftrightarrow> has_weight g name \<and>
     (case probe_find g name of Some t \<Rightarrow> t_n_dims t = 1 \<and> (n = 0 \<or> t_dims t ! 0 = ucast n) | None \<Rightarrow> False)"

lemma require_vector_decides: "decides (require_vector g name n) (\<lambda>p. has_vector g name n)"
proof (rule decidesI)
  fix p assume "has_vector g name n"
  then show "goes_on (require_vector g name n) p"
    by (intro goes_on_same) (auto simp: require_vector_def has_vector_def has_weight_def decodable_def split: option.splits)
next
  fix p assume n: "\<not> has_vector g name n"
  show "stops (require_vector g name n) p"
  proof (cases "probe_find g name")
    case None
    then show ?thesis by (intro stops_same) (simp add: require_vector_def, simp)
  next
    case (Some t)
    show ?thesis
    proof (cases "decodable t")
      case True
      then have "t_n_dims t \<noteq> 1 \<or> n \<noteq> 0 \<and> t_dims t ! 0 \<noteq> ucast n" using n Some by (auto simp: has_vector_def has_weight_def)
      then show ?thesis using Some True by (intro stops_same) (simp add: require_vector_def decodable_def, simp)
    next
      case False
      then show ?thesis using Some by (intro stops_same) (simp add: require_vector_def decodable_def, simp)
    qed
  qed
qed simp

lemma require_tensor_decides:
  "decides (require_tensor g name d0 d1 chk) (\<lambda>p. if chk then has_matrix g name d0 d1 else has_weight g name)"
proof (rule decidesI)
  fix p assume h: "if chk then has_matrix g name d0 d1 else has_weight g name"
  then have "has_weight g name" by (auto simp: has_matrix_def split: if_splits)
  then obtain t qi where t: "probe_find g name = Some t" "vg_quant_info (t_ggml_type t) = Some qi" "qi_scalar qi"
    by (auto simp: has_weight_def decodable_def split: option.splits)
  show "goes_on (require_tensor g name d0 d1 chk) p"
    using h t by (intro goes_on_add [where ty = "t_ggml_type t"])
      (auto simp: require_tensor_def Let_def has_matrix_def whole_blocks_def not_less)
next
  fix p assume h: "\<not> (if chk then has_matrix g name d0 d1 else has_weight g name)"
  show "stops (require_tensor g name d0 d1 chk) p"
  proof (cases "probe_find g name")
    case None
    then show ?thesis by (intro stops_same) (simp add: require_tensor_def, simp)
  next
    case (Some t)
    note t = this
    show ?thesis
    proof (cases "vg_quant_info (t_ggml_type t)")
      case None
      then show ?thesis using t by (intro stops_same) (simp add: require_tensor_def, simp)
    next
      case (Some qi)
      note q = this
      consider "\<not> qi_scalar qi" | "qi_scalar qi" "chk" "t_n_dims t < 2" | "qi_scalar qi" "chk" "\<not> t_n_dims t < 2" "d0 \<noteq> 0 \<and> t_dims t ! 0 \<noteq> ucast d0"
        | "qi_scalar qi" "chk" "\<not> t_n_dims t < 2" "\<not> (d0 \<noteq> 0 \<and> t_dims t ! 0 \<noteq> ucast d0)" "d1 \<noteq> 0 \<and> t_dims t ! 1 \<noteq> ucast d1"
        | "qi_scalar qi" "chk" "\<not> t_n_dims t < 2" "\<not> (d0 \<noteq> 0 \<and> t_dims t ! 0 \<noteq> ucast d0)" "\<not> (d1 \<noteq> 0 \<and> t_dims t ! 1 \<noteq> ucast d1)"
          "t_dims t ! 0 mod ucast (qi_block_size qi) \<noteq> 0"
        using h t q unfolding has_matrix_def has_weight_def decodable_def whole_blocks_def by (simp split: if_splits) (metis not_less)
      then show ?thesis
        by cases (rule stops_add [where ty = "t_ggml_type t"], simp only: require_tensor_def t q option.case Let_def if_True if_False simp_thms, simp)+
    qed
  qed
qed simp

section \<open>The conditions on a model\<close>

definition head_fits :: "vg_gguf \<Rightarrow> vg_gguf_tensor \<Rightarrow> u32 \<Rightarrow> bool" where
  "head_fits g te n_embd \<longleftrightarrow>
     (let lm = (case probe_find g (cstr ''output.weight'') of Some t \<Rightarrow> t | None \<Rightarrow> te)
      in decodable lm \<and> t_n_dims lm \<ge> 2 \<and> t_dims lm ! 0 = ucast n_embd)"

definition stack_fits :: "vg_gguf \<Rightarrow> u32 \<Rightarrow> bool" where
  "stack_fits g n_expert \<longleftrightarrow>
     (case probe_find g (cstr ''blk.0.ffn_gate_exps.weight'') of
        Some t \<Rightarrow> t_n_dims t < 3 \<or> t_dims t ! 2 = ucast n_expert
      | None \<Rightarrow> True)"

definition attention_fits :: "vg_gguf \<Rightarrow> vg_modelprobe \<Rightarrow> nat \<Rightarrow> bool" where
  "attention_fits g p l \<longleftrightarrow>
     (let D = mp_n_embd p; qdim = mp_n_head p * mp_head_dim p; kdim = mp_n_head_kv p * mp_head_dim p
      in has_weight g (blk l ''attn_norm.weight'') \<and> has_matrix g (blk l ''attn_q.weight'') D qdim \<and>
         has_matrix g (blk l ''attn_k.weight'') D kdim \<and> has_matrix g (blk l ''attn_v.weight'') D kdim \<and>
         has_matrix g (blk l ''attn_output.weight'') qdim D \<and> has_weight g (blk l ''ffn_norm.weight'') \<and>
         (mp_has_sub_norm p \<longrightarrow> has_vector g (blk l ''attn_sub_norm.weight'') qdim))"

definition ffn_fits :: "vg_gguf \<Rightarrow> vg_modelprobe \<Rightarrow> nat \<Rightarrow> bool" where
  "ffn_fits g p l \<longleftrightarrow>
     (let D = mp_n_embd p; ff = mp_n_ff p
      in (mp_has_sub_norm p \<longrightarrow> has_vector g (blk l ''ffn_sub_norm.weight'') ff) \<and>
         (if mp_is_moe p then
            has_matrix g (blk l ''ffn_gate_inp.weight'') D (mp_n_expert p) \<and> has_matrix g (blk l ''ffn_gate_exps.weight'') D 0 \<and>
            has_matrix g (blk l ''ffn_up_exps.weight'') D 0 \<and> has_matrix g (blk l ''ffn_down_exps.weight'') ff D \<and> stack_fits g (mp_n_expert p)
          else
            (probe_find g (cstr ''blk.0.ffn_gate.weight'') \<noteq> None \<longrightarrow> has_matrix g (blk l ''ffn_gate.weight'') D ff) \<and>
            has_matrix g (blk l ''ffn_up.weight'') D ff \<and> has_matrix g (blk l ''ffn_down.weight'') ff D))"

definition model_fits :: "vg_gguf \<Rightarrow> vg_modelprobe \<Rightarrow> bool" where
  "model_fits g p \<longleftrightarrow>
     (\<exists>arch te. vg_gguf_meta (Some g) (Some (cstr ''general.architecture'')) = Some arch \<and> arch_supported arch \<and>
        probe_find g (cstr ''token_embd.weight'') = Some te \<and> decodable te \<and> head_fits g te (mp_n_embd p)) \<and>
     mp_n_head p \<noteq> 0 \<and> mp_n_layer p \<noteq> 0 \<and> mp_n_embd p \<noteq> 0 \<and> mp_head_dim p \<noteq> 0 \<and>
     list_all (\<lambda>(name, why). probe_find g (cstr name) = None) k_unhandled \<and> \<not> packed_up g p \<and>
     (mp_has_shared_expert p \<longrightarrow> mp_is_moe p) \<and> has_weight g (cstr ''output_norm.weight'') \<and>
     list_all (\<lambda>l. attention_fits g p l \<and> ffn_fits g p l) [0..<unat (mp_n_layer p)]"

lemma head_check_decides: "decides (head_check g te) (\<lambda>p. head_fits g te (mp_n_embd p))"
proof (rule decidesI)
  let ?lm = "case probe_find g (cstr ''output.weight'') of Some t \<Rightarrow> t | None \<Rightarrow> te"
  have n: "mp_n_embd (add_quant ty p) = mp_n_embd p" for ty p by (simp add: add_quant_def)
  fix p
  show "goes_on (head_check g te) p" if "head_fits g te (mp_n_embd p)"
    using that unfolding head_fits_def head_check_def Let_def decodable_def n
    by (intro goes_on_add [where ty = "t_ggml_type ?lm"]) (simp add: not_less n)
  assume h: "\<not> head_fits g te (mp_n_embd p)"
  consider "\<not> decodable ?lm" | "decodable ?lm" "t_n_dims ?lm < 2 \<or> t_dims ?lm ! 0 \<noteq> ucast (mp_n_embd p)"
    using h unfolding head_fits_def Let_def by (metis not_less)
  then show "stops (head_check g te) p"
    unfolding decodable_def
    by cases (rule stops_add [where ty = "t_ggml_type ?lm"], simp only: head_check_def Let_def n if_True if_False simp_thms, simp)+
qed simp

lemma stack_check_decides: "decides (stack_check g) (\<lambda>p. stack_fits g (mp_n_expert p))"
  by (rule decidesI) (auto simp: stack_check_def stack_fits_def stop_if_def not_le split: option.splits intro: outcome)

lemma list_all2_append2: "list_all2 P xs ys \<Longrightarrow> list_all2 P xs' ys' \<Longrightarrow> list_all2 P (xs @ xs') (ys @ ys')"
  by (rule list_all2_appendI)

text \<open>The conditions of a layer in the order of its checks; they do not depend on the running report but for the experts.\<close>

definition layer_conditions :: "vg_gguf \<Rightarrow> vg_modelprobe \<Rightarrow> nat \<Rightarrow> (vg_modelprobe \<Rightarrow> bool) list" where
  "layer_conditions g p l =
     (let D = mp_n_embd p; qdim = mp_n_head p * mp_head_dim p; kdim = mp_n_head_kv p * mp_head_dim p;
          mat = (\<lambda>kind d0 d1 (q :: vg_modelprobe). has_matrix g (blk l kind) d0 d1)
      in [\<lambda>q. has_weight g (blk l ''attn_norm.weight''), mat ''attn_q.weight'' D qdim, mat ''attn_k.weight'' D kdim,
          mat ''attn_v.weight'' D kdim, mat ''attn_output.weight'' qdim D, \<lambda>q. has_weight g (blk l ''ffn_norm.weight'')] @
         (if mp_has_sub_norm p
          then [\<lambda>q. has_vector g (blk l ''attn_sub_norm.weight'') qdim, \<lambda>q. has_vector g (blk l ''ffn_sub_norm.weight'') (mp_n_ff p)] else []) @
         (if mp_is_moe p then
            [mat ''ffn_gate_inp.weight'' D (mp_n_expert p), mat ''ffn_gate_exps.weight'' D 0, mat ''ffn_up_exps.weight'' D 0,
             mat ''ffn_down_exps.weight'' (mp_n_ff p) D, \<lambda>q. stack_fits g (mp_n_expert q)]
          else
            (if probe_find g (cstr ''blk.0.ffn_gate.weight'') \<noteq> None then [mat ''ffn_gate.weight'' D (mp_n_ff p)] else []) @
            [mat ''ffn_up.weight'' D (mp_n_ff p), mat ''ffn_down.weight'' (mp_n_ff p) D]))"

lemmas tensor_decides = require_tensor_decides [where chk = True, simplified] require_tensor_decides [where chk = False, simplified]
  require_vector_decides stack_check_decides

lemma layer_decides: "list_all2 decides (layer_checks g p l) (layer_conditions g p l)"
  unfolding layer_checks_def layer_conditions_def Let_def
  by (intro list_all2_append2) (simp_all add: tensor_decides)

lemma layer_conditions_fit: "mp_n_expert q = mp_n_expert p \<Longrightarrow>
    list_all (\<lambda>P. P q) (layer_conditions g p l) \<longleftrightarrow> attention_fits g p l \<and> ffn_fits g p l"
  unfolding layer_conditions_def attention_fits_def ffn_fits_def Let_def by auto

lemma layout_decides:
  "decides (run_checks (layout_checks g))
     (\<lambda>p. list_all (\<lambda>(name, why). probe_find g (cstr name) = None) k_unhandled \<and> \<not> packed_up g p \<and> (mp_has_shared_expert p \<longrightarrow> mp_is_moe p))"
proof -
  have "list_all2 decides (layout_checks g)
      (map (\<lambda>(name, why) p. \<not> probe_find g (cstr name) \<noteq> None) k_unhandled @ [\<lambda>p. \<not> packed_up g p, \<lambda>p. \<not> (mp_has_shared_expert p \<and> \<not> mp_is_moe p)])"
    unfolding layout_checks_def
  proof (rule list_all2_append2)
    show "list_all2 decides (map (\<lambda>(name, why). stop_if (probe_find g (cstr name) \<noteq> None) VG_E_UNSUPPORTED (Some (cstr name))
        (cstr why @ cstr '' is not implemented by this evaluator'')) k_unhandled) (map (\<lambda>(name, why) p. \<not> probe_find g (cstr name) \<noteq> None) k_unhandled)"
      by (auto simp: list_all2_map1 list_all2_map2 intro!: list_all2_refl decides_stop_const)
    have "packed_up g (p\<lparr>mp_quant_names := qs\<rparr>) = packed_up g p" for p :: vg_modelprobe and qs by (simp add: packed_up_def split: option.splits)
    then show "list_all2 decides
       [\<lambda>p. stop_if (packed_up g p) VG_E_UNSUPPORTED (Some (cstr ''blk.0.ffn_up.weight''))
             (cstr ''ffn_up.weight packs gate and up together (2*n_ff outputs); the fused SwiGLU split is not implemented'') p,
        \<lambda>p. stop_if (mp_has_shared_expert p \<and> \<not> mp_is_moe p) VG_E_FORMAT (Some (cstr ''blk.0.ffn_gate_shexp.weight''))
             (cstr ''shared-expert tensors are present but the model declares no expert count'') p]
       [\<lambda>p. \<not> packed_up g p, \<lambda>p. \<not> (mp_has_shared_expert p \<and> \<not> mp_is_moe p)]"
      by (intro list_all2_Cons [THEN iffD2] conjI decides_stop_if [where msg = "\<lambda>p. _"] list.rel_intros(1)) simp_all
  qed
  from decides_run [OF this] show ?thesis
    by (simp add: list_all_iff case_prod_unfold image_iff comp_def conj_ac del: not_None_eq)
qed

section \<open>The whole probe\<close>

definition probed :: "vg_gguf \<Rightarrow> bytes \<Rightarrow> vg_gguf_tensor \<Rightarrow> vg_modelprobe" where
  "probed g arch te = probe_flags g (add_quant (t_ggml_type te) (derive_heads (derive_sizes te (probe_sizes g arch (new_probe\<lparr>mp_arch := take 47 arch\<rparr>)))))"

lemma fail_not_ok: "mp_status p = VG_OK \<Longrightarrow> st \<noteq> VG_OK \<Longrightarrow> \<not> mp_ok (probe_fail st tensor msg p) \<and> mp_status (probe_fail st tensor msg p) \<noteq> VG_OK"
  by (simp add: probe_fail_def)

lemma fail_geometry [simp]:
  "mp_n_head (probe_fail st tensor msg p) = mp_n_head p" "mp_n_layer (probe_fail st tensor msg p) = mp_n_layer p"
  "mp_n_embd (probe_fail st tensor msg p) = mp_n_embd p" "mp_head_dim (probe_fail st tensor msg p) = mp_head_dim p"
  by (simp_all add: probe_fail_def)

lemma fits_frame:
  "model_fits g (p\<lparr>mp_quant_names := qs\<rparr>) = model_fits g p" "model_fits g (p\<lparr>mp_required_ops := os\<rparr>) = model_fits g p"
  "model_fits g (p\<lparr>mp_logit_softcap := x\<rparr>) = model_fits g p"
  "model_fits g (probe_fail st tensor msg (p :: vg_modelprobe)) = model_fits g p"
  by (simp_all add: model_fits_def packed_up_def attention_fits_def ffn_fits_def probe_fail_def Let_def cong: if_cong option.case_cong)

definition layers_checks :: "vg_gguf \<Rightarrow> bytes \<Rightarrow> vg_gguf_tensor \<Rightarrow> vg_modelprobe \<Rightarrow> check list" where
  "layers_checks g arch te p = [arch_check arch, require_tensor g (cstr ''output_norm.weight'') (mp_n_embd p) 0 False, head_check g te] @
     concat (map (layer_checks g p) [0..<unat (mp_n_layer p)])"

lemma list_all2_concat: "(\<And>l. l \<in> set ls \<Longrightarrow> list_all2 P (f l) (h l)) \<Longrightarrow> list_all2 P (concat (map f ls)) (concat (map h ls))"
  by (induction ls) (simp_all add: list_all2_appendI)

lemma layers_decide:
  "decides (run_checks (layers_checks g arch te p))
     (\<lambda>q. list_all (\<lambda>P. P q) ([\<lambda>q. arch_supported arch, \<lambda>q. has_weight g (cstr ''output_norm.weight''), \<lambda>q. head_fits g te (mp_n_embd q)] @
        concat (map (layer_conditions g p) [0..<unat (mp_n_layer p)])))"
  unfolding layers_checks_def
  by (intro decides_run list_all2_append2 list_all2_concat layer_decides)
    (simp add: tensor_decides head_check_decides arch_check_def decides_stop_const)

lemma list_all_concat: "list_all P (concat (map f ls)) \<longleftrightarrow> list_all (\<lambda>l. list_all P (f l)) ls"
  by (induction ls) simp_all

lemma layers_run:
  assumes "mp_ok p" "mp_status p = VG_OK"
  shows "if arch_supported arch \<and> has_weight g (cstr ''output_norm.weight'') \<and> head_fits g te (mp_n_embd p) \<and>
      list_all (\<lambda>l. attention_fits g p l \<and> ffn_fits g p l) [0..<unat (mp_n_layer p)]
    then goes_on (run_checks (layers_checks g arch te p)) p else stops (run_checks (layers_checks g arch te p)) p"
  using layers_decide [of g arch te p] assms
  by (simp add: decides_alt list_all_concat layer_conditions_fit)

lemma probe_model_unfold:
  assumes "p3 = probe_flags g (add_quant (t_ggml_type te) (derive_heads (derive_sizes te p0)))" "mp_n_head (derive_sizes te p0) \<noteq> 0" "decodable te"
    "mp_n_layer p3 \<noteq> 0" "mp_n_embd p3 \<noteq> 0" "mp_head_dim p3 \<noteq> 0"
  shows "probe_model g arch te p0 = (case run_checks (layout_checks g) p3 of (False, p4) \<Rightarrow> p4
     | (True, p4) \<Rightarrow> (let p5 = probe_softcap g arch p4 in case run_checks (layers_checks g arch te p5) p5 of
          (False, p6) \<Rightarrow> p6 | (True, p6) \<Rightarrow> p6\<lparr>mp_required_ops := required_ops p6\<rparr>))"
  using assms unfolding probe_model_def layers_checks_def decodable_def Let_def by simp

lemma softcap_cases: "probe_softcap g arch p = p \<or> (\<exists>x. probe_softcap g arch p = p\<lparr>mp_logit_softcap := x\<rparr>)"
  by (auto simp: probe_softcap_def split: option.splits)

definition sizes_after :: "vg_gguf \<Rightarrow> vg_gguf_tensor \<Rightarrow> vg_modelprobe \<Rightarrow> vg_modelprobe" where
  "sizes_after g te p0 = probe_flags g (add_quant (t_ggml_type te) (derive_heads (derive_sizes te p0)))"

lemma sizes_after_frame:
  "mp_ok (sizes_after g te p0) = mp_ok p0" "mp_status (sizes_after g te p0) = mp_status p0"
  "mp_n_head (sizes_after g te p0) = mp_n_head p0" "mp_n_layer (sizes_after g te p0) = mp_n_layer p0"
  by (simp_all add: sizes_after_def probe_flags_def add_quant_def derive_heads_def derive_sizes_def Let_def)

lemma softcap_some: "\<exists>x. probe_softcap g arch p = p\<lparr>mp_logit_softcap := x\<rparr>"
proof -
  have "p = p\<lparr>mp_logit_softcap := mp_logit_softcap p\<rparr>" by simp
  then show ?thesis using softcap_cases [of g arch p] by metis
qed

lemma fits_softcap: "model_fits g (probe_softcap g arch p) = model_fits g p"
  using softcap_cases [of g arch p] by (auto simp: fits_frame)

lemma softcap_frame: "mp_ok (probe_softcap g arch p) = mp_ok p" "mp_status (probe_softcap g arch p) = mp_status p"
  using softcap_cases [of g arch p] by auto

text \<open>The sizes of a report.\<close>

definition sizes :: "vg_modelprobe \<Rightarrow> u32 list" where
  "sizes p = [mp_n_vocab p, mp_n_layer p, mp_n_embd p, mp_n_head p, mp_n_head_kv p, mp_head_dim p, mp_n_ff p]"

lemma sizes_frame [simp]:
  "sizes (p\<lparr>mp_quant_names := qs\<rparr>) = sizes p" "sizes (p\<lparr>mp_logit_softcap := x\<rparr>) = sizes p" "sizes (p\<lparr>mp_required_ops := os\<rparr>) = sizes p"
  "sizes (probe_softcap g arch p) = sizes p"
  using softcap_cases [of g arch p] by (auto simp: sizes_def)

definition judged :: "vg_gguf \<Rightarrow> vg_modelprobe \<Rightarrow> vg_modelprobe \<Rightarrow> bool" where
  "judged g p0 p \<longleftrightarrow> (mp_ok p \<longleftrightarrow> mp_status p = VG_OK) \<and> (mp_ok p \<longleftrightarrow> model_fits g p) \<and> (model_fits g p0 \<longrightarrow> mp_ok p) \<and>
     (mp_ok p \<longrightarrow> sizes p = sizes p0)"

lemma judged_fail: "mp_status p = VG_OK \<Longrightarrow> st \<noteq> VG_OK \<Longrightarrow> \<not> model_fits g p \<Longrightarrow> \<not> model_fits g p0 \<Longrightarrow> judged g p0 (probe_fail st tensor msg p)"
  using fail_not_ok [of p st tensor msg] by (simp add: judged_def fits_frame)

lemma unsized_unfit: "mp_n_head p = 0 \<or> mp_n_layer p = 0 \<or> mp_n_embd p = 0 \<or> mp_head_dim p = 0 \<Longrightarrow> \<not> model_fits g p"
  by (auto simp: model_fits_def)

lemma stops_judged:
  assumes "stops c p" "mp_status p = VG_OK" "\<not> model_fits g p" "\<not> model_fits g p0"
  shows "\<exists>q. c p = (False, q) \<and> judged g p0 q"
proof -
  from assms(1) obtain st tensor msg qs where c: "st \<noteq> VG_OK" "c p = (False, probe_fail st tensor msg (p\<lparr>mp_quant_names := qs\<rparr>))"
    unfolding stops_def by blast
  have "judged g p0 (probe_fail st tensor msg (p\<lparr>mp_quant_names := qs\<rparr>))"
    by (rule judged_fail) (use assms c(1) in \<open>simp_all add: fits_frame\<close>)
  then show ?thesis using c(2) by blast
qed

lemma layers_judged:
  assumes p: "mp_ok p" "mp_status p = VG_OK" "mp_n_head p \<noteq> 0" "mp_n_layer p \<noteq> 0" "mp_n_embd p \<noteq> 0" "mp_head_dim p \<noteq> 0"
    and l: "list_all (\<lambda>(name, why). probe_find g (cstr name) = None) k_unhandled \<and> \<not> packed_up g p \<and> (mp_has_shared_expert p \<longrightarrow> mp_is_moe p)"
    and a: "vg_gguf_meta (Some g) (Some (cstr ''general.architecture'')) = Some arch"
    and te: "probe_find g (cstr ''token_embd.weight'') = Some te" "decodable te"
  shows "judged g p (case run_checks (layers_checks g arch te p) p of (False, q) \<Rightarrow> q | (True, q) \<Rightarrow> q\<lparr>mp_required_ops := required_ops q\<rparr>)"
proof (cases "model_fits g p")
  case True
  then have "goes_on (run_checks (layers_checks g arch te p)) p"
    using layers_run [OF p(1,2), of arch g te] a te by (auto simp: model_fits_def)
  then obtain qs where "run_checks (layers_checks g arch te p) p = (True, p\<lparr>mp_quant_names := qs\<rparr>)" unfolding goes_on_def ..
  then show ?thesis using True p by (simp add: judged_def fits_frame)
next
  case False
  then have "stops (run_checks (layers_checks g arch te p)) p"
    using layers_run [OF p(1,2), of arch g te] p l a te unfolding model_fits_def by (metis (no_types, lifting))
  from stops_judged [OF this p(2) False False] show ?thesis by auto
qed

lemma probe_model_judged:
  assumes "mp_ok p0" "mp_status p0 = VG_OK" and a: "vg_gguf_meta (Some g) (Some (cstr ''general.architecture'')) = Some arch"
    and te: "probe_find g (cstr ''token_embd.weight'') = Some te"
  shows "judged g (sizes_after g te p0) (probe_model g arch te p0)"
proof -
  let ?p3 = "sizes_after g te p0"
  have ok: "mp_ok ?p3" "mp_status ?p3 = VG_OK" using assms by (simp_all add: sizes_after_frame)
  have nh: "mp_n_head (derive_sizes te p0) = mp_n_head p0" "mp_status (derive_sizes te p0) = mp_status p0"
    "mp_status (add_quant (t_ggml_type te) (derive_heads (derive_sizes te p0))) = mp_status p0"
    by (simp_all add: derive_sizes_def add_quant_def derive_heads_def Let_def)
  consider "mp_n_head p0 = 0" | "mp_n_head p0 \<noteq> 0" "\<not> decodable te"
    | "mp_n_head p0 \<noteq> 0" "decodable te" "mp_n_layer ?p3 = 0 \<or> mp_n_embd ?p3 = 0 \<or> mp_head_dim ?p3 = 0"
    | "mp_n_head p0 \<noteq> 0" "decodable te" "mp_n_layer ?p3 \<noteq> 0" "mp_n_embd ?p3 \<noteq> 0" "mp_head_dim ?p3 \<noteq> 0"
    by blast
  then show ?thesis
  proof cases
    case 1
    then have "\<not> model_fits g (derive_sizes te p0)" "\<not> model_fits g ?p3" by (simp_all add: unsized_unfit nh sizes_after_frame)
    then show ?thesis using 1 assms unfolding probe_model_def Let_def nh by (simp add: judged_fail nh)
  next
    case 2
    then have "\<not> model_fits g p" for p :: vg_modelprobe using te by (auto simp: model_fits_def)
    then show ?thesis using 2 assms unfolding probe_model_def Let_def nh decodable_def by (simp add: judged_fail nh)
  next
    case 3
    then have "\<not> model_fits g ?p3" by (intro unsized_unfit) blast
    then have j: "judged g ?p3 (probe_fail VG_E_FORMAT None msg ?p3)" for msg using ok by (simp add: judged_fail)
    show ?thesis
      using 3 unfolding probe_model_def Let_def nh decodable_def sizes_after_def [symmetric]
      by (simp only: if_False if_True simp_thms if_cancel) (simp add: j)
  next
    case 4
    note run = probe_model_unfold [of ?p3 g te p0, OF sizes_after_def _ 4(2-5), unfolded nh, OF 4(1)]
    let ?Q = "\<lambda>p. list_all (\<lambda>(name, why). probe_find g (cstr name) = None) k_unhandled \<and> \<not> packed_up g p \<and> (mp_has_shared_expert p \<longrightarrow> mp_is_moe p)"
    show ?thesis
    proof (cases "?Q ?p3")
      case False
      then have "stops (run_checks (layout_checks g)) ?p3" using layout_decides [of g] ok by (simp add: decides_alt)
      moreover have "\<not> model_fits g ?p3" using False by (auto simp: model_fits_def)
      ultimately show ?thesis using stops_judged [OF _ ok(2)] unfolding run by fastforce
    next
      case True
      then have "goes_on (run_checks (layout_checks g)) ?p3" using layout_decides [of g] ok by (simp add: decides_alt)
      then obtain qs where r: "run_checks (layout_checks g) ?p3 = (True, ?p3\<lparr>mp_quant_names := qs\<rparr>)" unfolding goes_on_def ..
      obtain x where x: "probe_softcap g arch (?p3\<lparr>mp_quant_names := qs\<rparr>) = ?p3\<lparr>mp_quant_names := qs, mp_logit_softcap := x\<rparr>"
        using softcap_some by blast
      have "?Q (?p3\<lparr>mp_quant_names := qs, mp_logit_softcap := x\<rparr>)" using True by (simp add: packed_up_def split: option.splits)
      have "judged g (?p3\<lparr>mp_quant_names := qs, mp_logit_softcap := x\<rparr>) (probe_model g arch te p0)"
        unfolding run r prod.case bool.case x Let_def
        by (rule layers_judged [OF _ _ _ _ _ _ \<open>?Q (?p3\<lparr>mp_quant_names := qs, mp_logit_softcap := x\<rparr>)\<close> a te 4(2)])
          (use 4 ok in \<open>simp_all add: sizes_after_frame\<close>)
      then show ?thesis unfolding judged_def sizes_frame fits_frame .
    qed
  qed
qed


lemma new_probe_ok: "mp_ok (new_probe\<lparr>mp_arch := a\<rparr>)" "mp_status (new_probe\<lparr>mp_arch := a\<rparr>) = VG_OK"
  "mp_ok (probe_sizes g arch (new_probe\<lparr>mp_arch := a\<rparr>))" "mp_status (probe_sizes g arch (new_probe\<lparr>mp_arch := a\<rparr>)) = VG_OK"
  by (simp_all add: new_probe_def probe_sizes_def)

lemma probe_judged:
  assumes "vg_model_probe (Some g) True = (st, r)"
  shows "st = VG_OK \<and> (\<exists>p p0. r = Some p \<and> judged g p0 p \<and> (\<forall>arch te. vg_gguf_meta (Some g) (Some (cstr ''general.architecture'')) = Some arch \<longrightarrow>
     probe_find g (cstr ''token_embd.weight'') = Some te \<longrightarrow> p0 = sizes_after g te (probe_sizes g arch (new_probe\<lparr>mp_arch := take 47 arch\<rparr>))))"
proof (cases "vg_gguf_meta (Some g) (Some (cstr ''general.architecture''))")
  case None
  then have "\<not> model_fits g p" for p :: vg_modelprobe by (simp add: model_fits_def)
  then have "judged g p0 (probe_fail VG_E_FORMAT t m (new_probe\<lparr>mp_arch := a\<rparr>))" for p0 t m a by (intro judged_fail) (simp_all add: new_probe_ok)
  then show ?thesis using assms None by (auto simp: vg_model_probe_def)
next
  case (Some arch)
  note a = this
  let ?p = "probe_sizes g arch (new_probe\<lparr>mp_arch := take 47 arch\<rparr>)"
  show ?thesis
  proof (cases "probe_find g (cstr ''token_embd.weight'')")
    case None
    then have "\<not> model_fits g p" for p :: vg_modelprobe by (simp add: model_fits_def)
    then have "judged g p0 (probe_fail VG_E_UNSUPPORTED t m ?p)" for p0 t m by (intro judged_fail) (simp_all add: new_probe_ok)
    then show ?thesis using assms None a by (auto simp: vg_model_probe_def)
  next
    case (Some te)
    have "judged g (sizes_after g te ?p) (probe_model g arch te ?p)" by (rule probe_model_judged) (simp_all add: new_probe_ok a Some)
    then show ?thesis using assms Some a by (auto simp: vg_model_probe_def)
  qed
qed

text \<open>C22: The probe of a file always answers, and its report is ok exactly when the status is and when the model fits.\<close>

theorem probe_accepts_iff:
  assumes "vg_model_probe (Some g) True = (st, r)"
  shows "st = VG_OK \<and> (\<exists>p. r = Some p \<and> (mp_ok p \<longleftrightarrow> mp_status p = VG_OK) \<and> (mp_ok p \<longleftrightarrow> model_fits g p))"
  using probe_judged [OF assms] by (auto simp: judged_def)

section \<open>The probe and the loaded graph\<close>

lemma scan_shorter: "scan_int s = Some (neg, n, rest) \<Longrightarrow> length rest < length s"
proof -
  assume a: "scan_int s = Some (neg, n, rest)"
  define t where "t = dropWhile is_space s"
  define u where "u = (if t \<noteq> [] \<and> (hd t = 45 \<or> hd t = 43) then tl t else t)"
  have u: "takeWhile is_digit u \<noteq> []" "rest = dropWhile is_digit u"
    using a unfolding scan_int_def t_def u_def Let_def by (auto split: if_splits)
  have "length u = length (takeWhile is_digit u) + length rest" unfolding u(2) by (metis length_append takeWhile_dropWhile_id)
  moreover have "length (takeWhile is_digit u) > 0" using u(1) by blast
  moreover have "length u \<le> length t" "length t \<le> length s" by (simp_all add: u_def t_def length_dropWhile_le)
  ultimately show ?thesis by linarith
qed

lemma strtol_none: "length (snd (strtol s)) = length s \<Longrightarrow> fst (strtol s) = 0"
  using scan_shorter [of s] by (fastforce simp: strtol_def split: option.splits)

lemma meta_int_read: "meta_int (en_file en) key = (let v = read_metadata_int en key 0 in
    case vg_gguf_meta (Some (en_file en)) (Some key) of None \<Rightarrow> None
    | Some t \<Rightarrow> if length (snd (strtol (skip_list_chars t))) = length (skip_list_chars t) then None else Some v)"
  by (simp add: meta_int_def read_metadata_int_def Let_def case_prod_unfold split: option.splits)

lemma read_metadata_absent: "meta_int (en_file en) key = None \<Longrightarrow> read_metadata_int en key 0 = 0"
  by (auto simp: meta_int_def read_metadata_int_def Let_def case_prod_unfold strtol_none split: option.splits if_splits)

lemma read_metadata_present: "meta_int (en_file en) key = Some v \<Longrightarrow> read_metadata_int en key 0 = v"
  by (auto simp: meta_int_def read_metadata_int_def Let_def case_prod_unfold split: option.splits if_splits)

lemma supported_length: "arch_supported arch \<Longrightarrow> length arch \<le> 12"
  by (auto simp: arch_supported_def k_archs_def cstr_def)

text \<open>For a supported architecture both read the same key, and a positive value is the same number.\<close>

lemma positive_meta_read:
  assumes "arch_supported arch" "length field \<le> 100"
  shows "positive_meta (en_file en) arch field = (if 0 < read_metadata_int en (arch_key arch field) 0 then read_field en arch field else 0)"
proof -
  have k: "take 159 (arch @ cstr ''.'' @ cstr field) = arch_key arch field"
    using supported_length [OF assms(1)] assms(2) by (simp add: arch_key_def cstr_def)
  show ?thesis
    unfolding positive_meta_def k read_field_def
    by (auto dest: read_metadata_absent read_metadata_present split: option.splits)
qed

lemma read_field_nonneg: "arch_supported arch \<Longrightarrow> length field \<le> 100 \<Longrightarrow> 0 \<le> read_metadata_int en (arch_key arch field) 0 \<Longrightarrow>
    read_field en arch field = positive_meta (en_file en) arch field"
  using positive_meta_read [of arch field en] by (auto simp: read_field_def)

lemma read_field_positive: "arch_supported arch \<Longrightarrow> length field \<le> 100 \<Longrightarrow> positive_meta (en_file en) arch field \<noteq> 0 \<Longrightarrow>
    read_field en arch field = positive_meta (en_file en) arch field"
  using positive_meta_read [of arch field en] by (auto split: if_splits)

lemma probe_find_tensor: "probe_find (en_file en) name = find_tensor en name"
  by (simp add: probe_find_def find_tensor_def)

lemma first_layer_name: "blk 0 ''attn_q.weight'' = cstr ''blk.0.attn_q.weight''"
  by (simp add: blk_def cstr_def dec.simps digit_def byte_simps)

lemma accepted_sizes:
  assumes "vg_model_probe (Some g) True = (st, Some p)" "mp_ok p"
  obtains arch te where "vg_gguf_meta (Some g) (Some (cstr ''general.architecture'')) = Some arch" "arch_supported arch"
    "probe_find g (cstr ''token_embd.weight'') = Some te" "model_fits g p"
    "sizes p = sizes (sizes_after g te (probe_sizes g arch (new_probe\<lparr>mp_arch := take 47 arch\<rparr>)))"
  using probe_judged [OF assms(1)] assms(2) by (auto simp: judged_def model_fits_def)

lemma flags_sizes:
  "mp_n_layer (probe_flags g p) = mp_n_layer p" "mp_n_head (probe_flags g p) = mp_n_head p" "mp_n_embd (probe_flags g p) = mp_n_embd p"
  "mp_n_head_kv (probe_flags g p) = mp_n_head_kv p" "mp_n_layer (add_quant ty p) = mp_n_layer p" "mp_n_head (add_quant ty p) = mp_n_head p"
  "mp_n_embd (add_quant ty p) = mp_n_embd p" "mp_n_head_kv (add_quant ty p) = mp_n_head_kv p"
  "mp_n_ff (probe_flags g p) = mp_n_ff p" "mp_n_ff (add_quant ty p) = mp_n_ff p"
  by (simp_all add: probe_flags_def add_quant_def Let_def)

lemma sizes_after_values:
  assumes "p0 = probe_sizes g arch q" "p = sizes_after g te p0"
  shows "mp_n_layer p = positive_meta g arch ''block_count''" "mp_n_head p = positive_meta g arch ''attention.head_count''"
    "mp_n_embd p = (let n = positive_meta g arch ''embedding_length'' in if n = 0 \<and> t_n_dims te \<ge> 1 then ucast (t_dims te ! 0) else n)"
    "mp_n_head_kv p = (let n = positive_meta g arch ''attention.head_count_kv'' in if n = 0 then mp_n_head p else n)"
    "mp_n_ff p = positive_meta g arch ''feed_forward_length''"
  unfolding assms sizes_after_def
  by (simp_all add: flags_sizes derive_heads_def derive_sizes_def probe_sizes_def Let_def)

lemma config_frame:
  "mc_n_layer (load_config en arch) = mc_n_layer (read_sizes en arch zero_config)" "mc_n_head (load_config en arch) = mc_n_head (read_sizes en arch zero_config)"
  "mc_n_embd (load_config en arch) = mc_n_embd (read_sizes en arch zero_config)" "mc_n_head_kv (load_config en arch) = mc_n_head_kv (read_sizes en arch zero_config)"
  "mc_head_dim (load_config en arch) = mc_head_dim (read_sizes en arch zero_config)" "mc_n_ff (load_config en arch) = mc_n_ff (read_sizes en arch zero_config)"
  unfolding load_config_def by (simp_all add: read_flags_def read_window_def read_experts_def read_numerics_def Let_def)

lemma read_sizes_values:
  "mc_n_layer (read_sizes en arch c) = read_field en arch ''block_count''"
  "mc_n_head (read_sizes en arch c) = read_field en arch ''attention.head_count''"
  "mc_n_embd (read_sizes en arch c) = (let n = read_field en arch ''embedding_length'' in
     if n = 0 then (case tensor_dim en ''token_embd.weight'' 0 of Some d \<Rightarrow> ucast d | None \<Rightarrow> 0) else n)"
  "mc_n_head_kv (read_sizes en arch c) = (let n = read_field en arch ''attention.head_count_kv'' in if n = 0 then read_field en arch ''attention.head_count'' else n)"
  "mc_n_ff (read_sizes en arch c) = (let n = read_field en arch ''feed_forward_length'' in
     if n = 0 then (case tensor_dim en ''blk.0.ffn_down.weight'' 0 of Some d \<Rightarrow> ucast d | None \<Rightarrow> 0) else n)"
  by (simp_all add: read_sizes_def Let_def)

lemma read_sizes_head:
  "mc_head_dim (read_sizes en arch c) = (let n = mc_n_head (read_sizes en arch c);
      hd = (case tensor_dim en ''blk.0.attn_q.weight'' 1 of Some d \<Rightarrow> if n \<noteq> 0 then ucast (d div ucast n) else 0 | None \<Rightarrow> 0)
    in if hd = 0 then mc_n_embd (read_sizes en arch c) div (if n \<noteq> 0 then n else 1) else hd)"
  unfolding read_sizes_values by (simp add: read_sizes_def Let_def)

lemma loaded_config:
  "vg_gguf_meta (Some (en_file en)) (Some (cstr ''general.architecture'')) = Some arch \<Longrightarrow> vg_model_graph_load en = Inr gr \<Longrightarrow> mg_cfg gr = load_config en arch"
  by (auto simp: vg_model_graph_load_def Let_def)

lemma loaded_sizes:
  assumes "vg_gguf_meta (Some (en_file en)) (Some (cstr ''general.architecture'')) = Some arch" "vg_model_graph_load en = Inr gr"
  shows "mc_n_layer (mg_cfg gr) = read_field en arch ''block_count''" "mc_n_head (mg_cfg gr) = read_field en arch ''attention.head_count''"
    "mc_n_embd (mg_cfg gr) = (let n = read_field en arch ''embedding_length'' in
       if n = 0 then (case tensor_dim en ''token_embd.weight'' 0 of Some d \<Rightarrow> ucast d | None \<Rightarrow> 0) else n)"
    "mc_n_head_kv (mg_cfg gr) = (let n = read_field en arch ''attention.head_count_kv'' in if n = 0 then mc_n_head (mg_cfg gr) else n)"
    "mc_head_dim (mg_cfg gr) = (let n = mc_n_head (mg_cfg gr);
        hd = (case tensor_dim en ''blk.0.attn_q.weight'' 1 of Some d \<Rightarrow> if n \<noteq> 0 then ucast (d div ucast n) else 0 | None \<Rightarrow> 0)
      in if hd = 0 then mc_n_embd (mg_cfg gr) div (if n \<noteq> 0 then n else 1) else hd)"
    "mc_n_ff (mg_cfg gr) = (let n = read_field en arch ''feed_forward_length'' in
       if n = 0 then (case tensor_dim en ''blk.0.ffn_down.weight'' 0 of Some d \<Rightarrow> ucast d | None \<Rightarrow> 0) else n)"
  unfolding loaded_config [OF assms] config_frame read_sizes_head read_sizes_values by (rule refl)+

text \<open>A weight that is there and whose product by the sizes is never refused, with the rows the evaluator takes from it.\<close>

definition product_runs :: "genv \<Rightarrow> bytes \<Rightarrow> u32 \<Rightarrow> u32 \<Rightarrow> bool" where
  "product_runs en name rows cols \<longleftrightarrow>
     (\<exists>t. find_tensor en name = Some t \<and> (\<forall>w dflt. wt_tensor w = t \<longrightarrow> weight_rows w dflt = rows) \<and>
        (\<forall>w x y. fst (mm_dispatch en (t_ggml_type t) w x y rows cols) = VG_OK))"

lemma narrow_widen: "(ucast (ucast (x :: u32) :: u64) :: u32) = x"
  by (simp add: ucast_up_ucast_id is_up)

lemma block_divides:
  fixes n b :: u32
  assumes "(ucast n :: u64) mod ucast b = 0"
  shows "n mod b = 0"
proof -
  have "unat ((ucast n :: u64) mod ucast b) = unat n mod unat b" by (simp add: unat_mod_distrib unat_ucast_u32)
  then have "unat (n mod b) = 0" using assms by (simp add: unat_mod_distrib)
  then show ?thesis by (simp add: unat_eq_zero)
qed

lemma matrix_runs:
  assumes "has_matrix (en_file en) name cols rows" "cols \<noteq> 0" "rows \<noteq> 0"
  shows "product_runs en name rows cols"
proof -
  from assms obtain t where f: "find_tensor en name = Some t" "decodable t" "whole_blocks t"
    "t_n_dims t \<ge> 2" "t_dims t ! 0 = ucast cols" "t_dims t ! 1 = ucast rows"
    unfolding has_matrix_def has_weight_def probe_find_tensor by (auto split: option.splits)
  from f(2) obtain qi where t: "vg_quant_info (t_ggml_type t) = Some qi" "qi_scalar qi"
    by (auto simp: decodable_def split: option.splits)
  have m: "cols mod qi_block_size qi = 0" using f(3) unfolding whole_blocks_def t(1) option.case f(5) by (rule block_divides)
  have "fst (mm_dispatch en (t_ggml_type t) w x y rows cols) = VG_OK" for w x y
    unfolding mm_dispatch_def vg_cpu_matmul_def matmul_impl_def using assms(2,3) t m by simp
  moreover have "weight_rows w dflt = rows" if "wt_tensor w = t" for w dflt
  proof -
    have "(1 :: u64) \<le> ucast rows" using assms(3) by (simp add: word_le_nat_alt unat_ucast_u32) (metis One_nat_def Suc_leI unat_gt_0)
    then show ?thesis using that f by (simp add: weight_rows_def narrow_widen)
  qed
  ultimately show ?thesis using f(1) by (auto simp: product_runs_def)
qed

lemma product_nonzero:
  fixes a b :: u32
  assumes "unat a * unat b < 2 ^ 32" "a \<noteq> 0" "b \<noteq> 0"
  shows "a * b \<noteq> 0"
proof -
  have "unat (a * b) = unat a * unat b" using assms(1) by (simp add: unat_mult_lem [THEN iffD1])
  moreover have "unat a * unat b \<noteq> 0" using assms(2,3) by (simp add: unat_eq_zero)
  ultimately show ?thesis by (metis unat_0)
qed

lemma product_div:
  fixes a b :: u32
  assumes "unat a * unat b < 2 ^ 32" "a \<noteq> 0"
  shows "(ucast ((ucast (a * b) :: u64) div ucast a) :: u32) = b"
proof -
  have p: "unat (a * b) = unat a * unat b" using assms(1) by (simp add: unat_mult_lem [THEN iffD1])
  have "unat ((ucast (a * b) :: u64) div ucast a) = unat b"
    using assms(2) by (simp add: unat_div_distrib unat_ucast_u32 p unat_eq_zero)
  then have "(ucast (a * b) :: u64) div ucast a = ucast b" by (metis unat_ucast_u32 unsigned_word_eqI word_unat_eq_iff)
  then show ?thesis by (simp add: narrow_widen)
qed


section \<open>A model of one layer\<close>

definition small_tensor :: "bytes \<Rightarrow> u64 list \<Rightarrow> vg_gguf_tensor" where
  "small_tensor name dims = \<lparr>t_name = name, t_n_dims = of_nat (length dims), t_dims = dims @ replicate (4 - length dims) 0, t_ggml_type = 0,
     t_data_offset = 0, t_nbytes = 4\<rparr>"

definition small_gguf :: vg_gguf where
  "small_gguf = (new_gguf [])\<lparr>
     g_meta := [\<lparr>m_key = cstr ''general.architecture'', m_value = cstr ''llama''\<rparr>, \<lparr>m_key = cstr ''llama.block_count'', m_value = [49]\<rparr>,
       \<lparr>m_key = cstr ''llama.attention.head_count'', m_value = [49]\<rparr>, \<lparr>m_key = cstr ''llama.feed_forward_length'', m_value = [51]\<rparr>],
     g_tensors := Some ([small_tensor (cstr ''token_embd.weight'') [2, 2], small_tensor (cstr ''output_norm.weight'') [2]] @
       map (\<lambda>(kind, dims). small_tensor (cstr ''blk.0.'' @ cstr kind) dims)
         [(''attn_norm.weight'', [2]), (''attn_q.weight'', [2, 2]), (''attn_k.weight'', [2, 2]), (''attn_v.weight'', [2, 2]),
          (''attn_output.weight'', [2, 2]), (''ffn_norm.weight'', [2]), (''ffn_up.weight'', [2, 3]), (''ffn_down.weight'', [3, 2])])\<rparr>"

definition small_env :: genv where
  "small_env = tiny_env\<lparr>en_file := small_gguf\<rparr>"

lemma small_shape: "g_tensor_hash small_gguf = None" "g_meta_hash small_gguf = None"
  by (simp_all add: small_gguf_def new_gguf_def)

lemma small_blk: "blk 0 kind = cstr ''blk.0.'' @ cstr kind"
  by (simp add: blk_def cstr_def dec.simps digit_def byte_simps)

lemma find_pos_find: "map_option (\<lambda>j. xs ! j) (find_pos k (map f xs) 0) = find (\<lambda>x. f x = k) xs"
  by (induction xs) (simp_all add: find_pos_shift option.map_comp comp_def)

lemma small_find: "probe_find small_gguf name = find (\<lambda>t. t_name t = name) (the (g_tensors small_gguf))"
proof -
  obtain ts where "g_tensors small_gguf = Some ts" by (simp add: small_gguf_def)
  then show ?thesis
    by (simp add: probe_find_def vg_gguf_find_tensor_def named_lookup_def small_shape g_names_def find_pos_find)
qed

lemma small_meta: "vg_gguf_meta (Some small_gguf) (Some key) = map_option m_value (find (\<lambda>m. m_key m = key) (g_meta small_gguf))"
  by (simp add: vg_gguf_meta_def named_lookup_def small_shape find_pos_find [symmetric] option.map_comp comp_def)

lemma small_value: "vg_gguf_meta (Some small_gguf) (Some (cstr ''general.architecture'')) = Some (cstr ''llama'')"
  unfolding small_meta by (simp add: small_gguf_def cstr_def byte_simps)

lemma small_weights: 
  "probe_find small_gguf (cstr ''token_embd.weight'') = Some (small_tensor (cstr ''token_embd.weight'') [2, 2])"
  "probe_find small_gguf (cstr ''output_norm.weight'') = Some (small_tensor (cstr ''output_norm.weight'') [2])"
  unfolding small_find by (simp_all add: small_gguf_def small_tensor_def cstr_def byte_simps)

lemma small_absent: 
  "probe_find small_gguf (cstr ''output.weight'') = None"
  "probe_find small_gguf (cstr ''blk.0.ffn_gate.weight'') = None"
  "probe_find small_gguf (cstr ''position_embd.weight'') = None"
  unfolding small_find by (simp_all add: small_gguf_def small_tensor_def cstr_def byte_simps)


lemma small_numbers: "strtol [49] = (1, [])" "strtol [51] = (3, [])" "skip_list_chars [49] = [49]" "skip_list_chars [51] = [51]"
  by (simp_all add: strtol_def scan_int_def is_space_def is_digit_def digits_val_def skip_list_chars_def word_le_nat_alt)

lemma small_positive:
  "positive_meta small_gguf (cstr ''llama'') ''block_count'' = 1" "positive_meta small_gguf (cstr ''llama'') ''attention.head_count'' = 1"
  "positive_meta small_gguf (cstr ''llama'') ''feed_forward_length'' = 3"
  "positive_meta small_gguf (cstr ''llama'') ''embedding_length'' = 0" "positive_meta small_gguf (cstr ''llama'') ''attention.head_count_kv'' = 0"
  "positive_meta small_gguf (cstr ''llama'') ''expert_count'' = 0" "positive_meta small_gguf (cstr ''llama'') ''attention.key_length'' = 0"
  unfolding positive_meta_def meta_int_def small_meta
  by (simp_all add: small_gguf_def cstr_def byte_simps Let_def small_numbers)

definition small_report :: vg_modelprobe where
  "small_report = sizes_after small_gguf (small_tensor (cstr ''token_embd.weight'') [2, 2])
     (probe_sizes small_gguf (cstr ''llama'') (new_probe\<lparr>mp_arch := take 47 (cstr ''llama'')\<rparr>))"

lemma find_named_None: "find (\<lambda>x. f x = k) xs = None \<longleftrightarrow> k \<notin> set (map f xs)"
  by (induction xs) auto

lemma small_no_tensor: "probe_find small_gguf (cstr name) = None \<longleftrightarrow> cstr name \<notin> set (map t_name (the (g_tensors small_gguf)))"
  unfolding small_find by (rule find_named_None)

lemma small_sizes: "mp_n_layer small_report = 1" "mp_n_embd small_report = 2" "mp_n_head small_report = 1" "mp_n_head_kv small_report = 1"
    "mp_head_dim small_report = 2" "mp_n_ff small_report = 3"
  "\<not> mp_has_sub_norm small_report" "\<not> mp_is_moe small_report" "\<not> mp_has_shared_expert small_report"
proof -
  have "probe_find small_gguf (cstr ''blk.0.attn_sub_norm.weight'') = None" "probe_find small_gguf (cstr ''blk.0.ffn_gate_shexp.weight'') = None"
    by (simp_all add: small_no_tensor) (simp_all add: small_gguf_def small_tensor_def cstr_def byte_simps)
  then show "mp_n_layer small_report = 1" "mp_n_embd small_report = 2" "mp_n_head small_report = 1" "mp_n_head_kv small_report = 1"
    "mp_head_dim small_report = 2" "mp_n_ff small_report = 3"
    "\<not> mp_has_sub_norm small_report" "\<not> mp_is_moe small_report" "\<not> mp_has_shared_expert small_report"
    unfolding small_report_def sizes_after_def
    by (simp_all add: probe_flags_def add_quant_def derive_heads_def derive_sizes_def probe_sizes_def small_positive Let_def small_tensor_def)
qed

lemma small_layer:
  "probe_find small_gguf (blk 0 ''attn_norm.weight'') = Some (small_tensor (cstr ''blk.0.attn_norm.weight'') [2])"
  "probe_find small_gguf (blk 0 ''ffn_norm.weight'') = Some (small_tensor (cstr ''blk.0.ffn_norm.weight'') [2])"
  "probe_find small_gguf (blk 0 ''attn_q.weight'') = Some (small_tensor (cstr ''blk.0.attn_q.weight'') [2, 2])"
  "probe_find small_gguf (blk 0 ''attn_k.weight'') = Some (small_tensor (cstr ''blk.0.attn_k.weight'') [2, 2])"
  "probe_find small_gguf (blk 0 ''attn_v.weight'') = Some (small_tensor (cstr ''blk.0.attn_v.weight'') [2, 2])"
  "probe_find small_gguf (blk 0 ''attn_output.weight'') = Some (small_tensor (cstr ''blk.0.attn_output.weight'') [2, 2])"
  "probe_find small_gguf (blk 0 ''ffn_up.weight'') = Some (small_tensor (cstr ''blk.0.ffn_up.weight'') [2, 3])"
  "probe_find small_gguf (blk 0 ''ffn_down.weight'') = Some (small_tensor (cstr ''blk.0.ffn_down.weight'') [3, 2])"
  unfolding small_find small_blk by (simp_all add: small_gguf_def small_tensor_def cstr_def byte_simps)

lemma small_decodable: "decodable (small_tensor name dims)" "whole_blocks (small_tensor name dims)"
  by (simp_all add: decodable_def whole_blocks_def small_tensor_def quant_info_f32 mk_info_def)

lemma small_fits: "model_fits small_gguf small_report"
proof -
  have "attention_fits small_gguf small_report 0 \<and> ffn_fits small_gguf small_report 0"
    unfolding attention_fits_def ffn_fits_def Let_def small_sizes has_matrix_def has_weight_def
    by (simp add: small_sizes small_layer small_decodable small_absent) (simp add: small_tensor_def)
  moreover have "list_all (\<lambda>(name, why). probe_find small_gguf (cstr name) = None) k_unhandled"
    unfolding k_unhandled_def small_no_tensor by (simp add: small_gguf_def small_tensor_def cstr_def byte_simps)
  moreover have "\<not> packed_up small_gguf small_report"
    using small_layer(7) unfolding packed_up_def small_sizes small_blk by (simp add: cstr_def small_tensor_def)
  moreover have "head_fits small_gguf (small_tensor (cstr ''token_embd.weight'') [2, 2]) 2"
    by (simp add: head_fits_def small_absent small_decodable) (simp add: small_tensor_def)
  moreover have "arch_supported (cstr ''llama'')" by (simp add: arch_supported_def k_archs_def)
  ultimately show ?thesis
    unfolding model_fits_def small_value small_weights has_weight_def
    by (simp add: small_sizes small_decodable)
qed

lemma small_accepted: "\<exists>p. vg_model_probe (Some small_gguf) True = (VG_OK, Some p) \<and> mp_ok p \<and> sizes p = sizes small_report"
proof -
  obtain st r where r: "vg_model_probe (Some small_gguf) True = (st, r)" by fastforce
  from probe_judged [OF r] obtain p p0 where p: "st = VG_OK" "r = Some p" "judged small_gguf p0 p" "p0 = small_report"
    unfolding small_report_def by (metis small_value small_weights(1))
  then show ?thesis using small_fits r by (auto simp: judged_def)
qed

theorem probe_accepts_iff_witness: "\<exists>p. vg_model_probe (Some small_gguf) True = (VG_OK, Some p) \<and> mp_ok p \<and> model_fits small_gguf p"
proof -
  obtain p where p: "vg_model_probe (Some small_gguf) True = (VG_OK, Some p)" "mp_ok p" using small_accepted by blast
  from probe_accepts_iff [OF p(1)] show ?thesis using p by auto
qed


end
