(* ===== verification/Tokenizer.thy ===== *)
theory Tokenizer
  imports Gguf
begin

text \<open>
  The tokenizer (\<^verbatim>\<open>src/tokenizer.c\<close>): the hash index, the reader of array metadata, loading the vocabulary
  and the merges, byte-level BPE and greedy longest-match encoding, control tokens and decoding. C
  strings are byte lists without NUL; an output buffer holds a prefix of the list a function returns.
  \<open>None\<close> marks undefined behaviour (a write past a fixed buffer, a read past the terminator).
\<close>

section \<open>Data\<close>

record vg_vocab_entry =
  ve_text :: bytes
  ve_id :: int
  ve_score :: flt

record vg_merge =
  mg_a :: bytes
  mg_b :: bytes
  mg_rank :: nat

text \<open>A slot holds the index plus one, zero when empty; the mask is the number of slots minus one.\<close>

record vg_index =
  ix_slot :: "nat list option"
  ix_mask :: nat

record vg_tokenizer =
  tk_vocab :: "vg_vocab_entry list"
  tk_vocab_ix :: vg_index
  tk_merges :: "vg_merge list"
  tk_merge_ix :: vg_index
  tk_bos_id :: int
  tk_eos_id :: int
  tk_add_bos :: bool
  tk_gpt2_byte_map :: bool
  tk_add_dummy_prefix :: bool
  tk_remove_extra_ws :: bool
  tk_added :: "(bytes \<times> int) list"

section \<open>The hash index\<close>

definition vg_hash_bytes :: "bytes \<Rightarrow> u64" where
  "vg_hash_bytes p = foldl (\<lambda>h b. (h XOR ucast b) * 1099511628211) 1469598103934665603 p"

definition merge_hash :: "bytes \<Rightarrow> bytes \<Rightarrow> u64" where
  "merge_hash a b = (vg_hash_bytes a XOR vg_hash_bytes b) * 1099511628211"

definition vg_index_free :: vg_index where
  "vg_index_free = \<lparr>ix_slot = None, ix_mask = 0\<rparr>"

definition index_cap :: "nat \<Rightarrow> nat" where
  "index_cap n = while (\<lambda>cap. cap < n * 2) (\<lambda>cap. cap * 2) 16"

definition vg_index_build :: "nat \<Rightarrow> vg_index" where
  "vg_index_build n = \<lparr>ix_slot = Some (replicate (index_cap n) 0), ix_mask = index_cap n - 1\<rparr>"

text \<open>The slots from the home position of a hash on, in the order they are probed.\<close>

definition probe_seq :: "vg_index \<Rightarrow> u64 \<Rightarrow> nat list" where
  "probe_seq ix h = map (\<lambda>d. ((unat h AND ix_mask ix) + d) AND ix_mask ix) [0..<Suc (ix_mask ix)]"

text \<open>The loop \<^verbatim>\<open>while (slot[i])\<close> ends at the first empty slot; a table without one is left unchanged here.\<close>

definition vg_index_insert :: "vg_index \<Rightarrow> u64 \<Rightarrow> nat \<Rightarrow> vg_index" where
  "vg_index_insert ix h v =
     (case ix_slot ix of
        None \<Rightarrow> ix
      | Some slot \<Rightarrow>
          (case dropWhile (\<lambda>i. slot ! i \<noteq> 0) (probe_seq ix h) of
             [] \<Rightarrow> ix
           | i # _ \<Rightarrow> ix\<lparr>ix_slot := Some (slot[i := v + 1])\<rparr>))"

text \<open>The indexes met before the first empty slot.\<close>

definition probe_chain :: "vg_index \<Rightarrow> u64 \<Rightarrow> nat list" where
  "probe_chain ix h =
     (case ix_slot ix of
        None \<Rightarrow> []
      | Some slot \<Rightarrow> map (\<lambda>s. s - 1) (takeWhile (\<lambda>s. s \<noteq> 0) (map (\<lambda>i. slot ! i) (probe_seq ix h))))"

definition find_token_n :: "vg_tokenizer \<Rightarrow> bytes \<Rightarrow> int" where
  "find_token_n tok text =
     (case List.find (\<lambda>vi. ve_text (tk_vocab tok ! vi) = text) (probe_chain (tk_vocab_ix tok) (vg_hash_bytes text)) of
        None \<Rightarrow> -1
      | Some vi \<Rightarrow> ve_id (tk_vocab tok ! vi))"

text \<open>The best merge so far, \<^verbatim>\<open>SIZE_MAX\<close> being \<open>None\<close>.\<close>

definition find_merge :: "vg_tokenizer \<Rightarrow> bytes \<Rightarrow> bytes \<Rightarrow> nat option" where
  "find_merge tok a b =
     foldl (\<lambda>best mi.
         let m = tk_merges tok ! mi
         in if mg_a m = a \<and> mg_b m = b
              \<and> (case best of None \<Rightarrow> True | Some k \<Rightarrow> mg_rank m < mg_rank (tk_merges tok ! k))
            then Some mi else best)
       None (probe_chain (tk_merge_ix tok) (merge_hash a b))"

section \<open>UTF-8 and array metadata\<close>

definition utf8_put :: "u32 \<Rightarrow> bytes" where
  "utf8_put cp =
     (if cp < 0x80 then [ucast cp]
      else if cp < 0x800 then [ucast (0xC0 OR drop_bit 6 cp), ucast (0x80 OR (cp AND 0x3F))]
      else if cp < 0x10000 then
        [ucast (0xE0 OR drop_bit 12 cp), ucast (0x80 OR (drop_bit 6 cp AND 0x3F)), ucast (0x80 OR (cp AND 0x3F))]
      else
        [ucast (0xF0 OR drop_bit 18 cp), ucast (0x80 OR (drop_bit 12 cp AND 0x3F)),
         ucast (0x80 OR (drop_bit 6 cp AND 0x3F)), ucast (0x80 OR (cp AND 0x3F))])"

definition hex_digit :: "u32 \<Rightarrow> u8 \<Rightarrow> u32" where
  "hex_digit v c =
     (let v = push_bit 4 v
      in if 48 \<le> c \<and> c \<le> 57 then v OR ucast (c - 48)
         else if 97 \<le> c \<and> c \<le> 102 then v OR ucast (c - 97 + 10)
         else if 65 \<le> c \<and> c \<le> 70 then v OR ucast (c - 65 + 10)
         else v)"

definition hex4 :: "bytes \<Rightarrow> u32" where
  "hex4 p = foldl hex_digit 0 (take 4 p)"

text \<open>The code point of a \<^verbatim>\<open>\\u\<close> escape whose four digits are at the front, and what follows it.\<close>

definition unicode_escape :: "bytes \<Rightarrow> u32 \<times> bytes" where
  "unicode_escape p =
     (let cp = hex4 p; p = drop 4 p
      in if 0xD800 \<le> cp \<and> cp \<le> 0xDBFF \<and> 6 \<le> length p \<and> p ! 0 = 92 \<and> p ! 1 = 117 then
           (let lo = hex4 (drop 2 p)
            in if 0xDC00 \<le> lo \<and> lo \<le> 0xDFFF then (0x10000 + push_bit 10 (cp - 0xD800) + (lo - 0xDC00), drop 6 p)
               else (cp, p))
         else (cp, p))"

lemma unicode_escape_shorter: "unicode_escape p = (cp, p') \<Longrightarrow> length p' \<le> length p"
  by (auto simp: unicode_escape_def Let_def split: if_splits)

text \<open>The text after an opening quote: the unescaped bytes and what follows the closing quote.\<close>

function scan_body :: "bytes \<Rightarrow> bytes \<times> bytes" where
  "scan_body p =
     (case p of
        [] \<Rightarrow> ([], [])
      | c # p \<Rightarrow>
          (if c = 34 then ([], p)
           else if c = 92 then
             (case p of
                [] \<Rightarrow> ([], [])
              | e # p \<Rightarrow>
                  (if e = 117 then
                     (if length p < 4 then ([], p)
                      else (case unicode_escape p of
                              (cp, p') \<Rightarrow> (case scan_body p' of (out, rest) \<Rightarrow> (utf8_put cp @ out, rest))))
                   else
                     (let b = (if e = 110 then 10 else if e = 114 then 13 else if e = 116 then 9 else e)
                      in case scan_body p of (out, rest) \<Rightarrow> (b # out, rest))))
           else (case scan_body p of (out, rest) \<Rightarrow> (c # out, rest))))"
  by pat_completeness auto
termination
  by (relation "measure length") (auto dest!: unicode_escape_shorter [OF sym])

declare scan_body.simps [simp del]

definition scan_quoted :: "bytes \<Rightarrow> bytes \<times> bytes" where
  "scan_quoted p = (if p \<noteq> [] \<and> hd p = 34 then scan_body (tl p) else ([], p))"

definition is_sep :: "u8 \<Rightarrow> bool" where
  "is_sep c \<longleftrightarrow> c = 44 \<or> c = 32 \<or> c = 10 \<or> c = 13 \<or> c = 9"

text \<open>The next entry of an array text and the cursor after it; \<open>None\<close> at the end or at something unquoted.\<close>

definition array_next :: "bytes \<Rightarrow> (bytes \<times> bytes) option" where
  "array_next p =
     (let p = dropWhile is_sep p;
          p = (if p \<noteq> [] \<and> hd p = 91 then tl p else p);
          p = dropWhile is_sep p
      in if p = [] \<or> hd p = 93 \<or> hd p \<noteq> 34 then None else Some (scan_quoted p))"


lemma scan_body_shorter: "scan_body p = (out, rest) \<Longrightarrow> length rest \<le> length p"
proof (induction p arbitrary: out rest rule: scan_body.induct)
  case (1 p)
  show ?case
  proof (cases p)
    case (Cons c q)
    then show ?thesis
      using 1 by (fastforce simp: scan_body.simps [of "c # q"] split: if_splits list.splits prod.splits
          dest: unicode_escape_shorter)
  qed (use 1 in \<open>simp add: scan_body.simps [of "[]"]\<close>)
qed

lemma dropWhile_shorter: "length (dropWhile P xs) \<le> length xs"
  by (induction xs) auto

lemma array_next_shorter: "array_next p = Some (e, rest) \<Longrightarrow> length rest < length p"
proof -
  assume a: "array_next p = Some (e, rest)"
  define q where "q = dropWhile is_sep p"
  define q2 where "q2 = (if q \<noteq> [] \<and> hd q = 91 then tl q else q)"
  define q3 where "q3 = dropWhile is_sep q2"
  have l: "length q3 \<le> length p"
    using dropWhile_shorter [of is_sep p] dropWhile_shorter [of is_sep q2]
    by (auto simp: q3_def q2_def q_def split: if_splits)
  have "q3 \<noteq> []" "scan_body (tl q3) = (e, rest)"
    using a by (auto simp: array_next_def Let_def q3_def q2_def q_def scan_quoted_def split: if_splits)
  then show ?thesis using scan_body_shorter [of "tl q3"] l by (cases q3) auto
qed

text \<open>All entries of an array text, in order: the counting loop and the loop that copies them agree.\<close>

function array_entries :: "bytes \<Rightarrow> bytes list" where
  "array_entries p = (case array_next p of None \<Rightarrow> [] | Some (e, rest) \<Rightarrow> e # array_entries rest)"
  by pat_completeness auto
termination
  by (relation "measure length") (auto dest: array_next_shorter)

declare array_entries.simps [simp del]

section \<open>Loading\<close>

definition to_int32 :: "int \<Rightarrow> int" where
  "to_int32 i = sint (of_int i :: u32)"

definition meta_bool :: "bytes \<Rightarrow> bool \<Rightarrow> bool" where
  "meta_bool s dflt =
     (if s = [] then dflt
      else if s = cstr ''true'' \<or> s = cstr ''True'' then True
      else if s = cstr ''false'' \<or> s = cstr ''False'' then False
      else fst (strtol s) \<noteq> 0)"

definition index_insert_all :: "u64 list \<Rightarrow> vg_index \<Rightarrow> vg_index" where
  "index_insert_all hs ix = fold (\<lambda>i ix. vg_index_insert ix (hs ! i) i) [0..<length hs] ix"

definition load_vocab :: "bytes \<Rightarrow> vg_vocab_entry list" where
  "load_vocab tokens =
     (let es = array_entries tokens
      in map (\<lambda>i. \<lparr>ve_text = c_string (es ! i), ve_id = to_int32 (int i), ve_score = f_zero\<rparr>) [0..<length es])"

text \<open>The control and user-defined tokens: the loop over the token types.\<close>

fun scan_types :: "vg_vocab_entry list \<Rightarrow> nat \<Rightarrow> bytes \<Rightarrow> (bytes \<times> int) list" where
  "scan_types [] i q = []"
| "scan_types (v # vs) i q =
     (if q = [] \<or> hd q = 93 then []
      else (let q = dropWhile (\<lambda>c. c = 44 \<or> c = 32) q
            in if q \<noteq> [] \<and> hd q = 93 then []
               else (case strtol q of (ty, q) \<Rightarrow>
                       (if (ty = 3 \<or> ty = 4) \<and> 2 \<le> length (ve_text v) then [(ve_text v, to_int32 (int i))] else [])
                       @ scan_types vs (Suc i) q)))"

definition load_added :: "vg_vocab_entry list \<Rightarrow> bytes \<Rightarrow> (bytes \<times> int) list" where
  "load_added vocab types =
     scan_types vocab 0 (if types \<noteq> [] \<and> hd types = 91 then tl types else types)"

text \<open>The scores; \<open>strtod_f\<close> is \<^verbatim>\<open>strtod\<close> converted to \<^verbatim>\<open>float\<close>, with its end pointer.\<close>

fun scan_scores :: "(bytes \<Rightarrow> flt \<times> bytes) \<Rightarrow> vg_vocab_entry list \<Rightarrow> bytes \<Rightarrow> vg_vocab_entry list" where
  "scan_scores strtod_f [] p = []"
| "scan_scores strtod_f (v # vs) p =
     (if p = [] \<or> hd p = 93 then v # vs
      else (let p = dropWhile (\<lambda>c. c = 44 \<or> c = 32) p
            in if p \<noteq> [] \<and> hd p = 93 then v # vs
               else (case strtod_f p of (x, p) \<Rightarrow> v\<lparr>ve_score := x\<rparr> # scan_scores strtod_f vs p)))"

definition load_scores :: "(bytes \<Rightarrow> flt \<times> bytes) \<Rightarrow> vg_vocab_entry list \<Rightarrow> bytes \<Rightarrow> vg_vocab_entry list" where
  "load_scores strtod_f vocab scores =
     scan_scores strtod_f vocab (if scores \<noteq> [] \<and> hd scores = 91 then tl scores else scores)"

definition byte_at :: "bytes \<Rightarrow> nat \<Rightarrow> u8" where
  "byte_at s i = (if i < length s then s ! i else 0)"

definition is_cont :: "u8 \<Rightarrow> bool" where
  "is_cont c \<longleftrightarrow> c AND 0xC0 = 0x80"

text \<open>Whether a token text has a code point of the byte-fallback range.\<close>

function has_fallback :: "bytes \<Rightarrow> bool" where
  "has_fallback s =
     (case s of
        [] \<Rightarrow> False
      | c # t \<Rightarrow>
          (if c AND 0xE0 = 0xC0 \<and> is_cont (byte_at s 1) then
             (let cp = push_bit 6 (ucast (c AND 0x1F) :: u32) OR ucast (byte_at s 1 AND 0x3F)
              in if 0x100 \<le> cp \<and> cp \<le> 0x143 then True else has_fallback (drop 2 s))
           else if c AND 0xF0 = 0xE0 \<and> is_cont (byte_at s 1) \<and> is_cont (byte_at s 2) then has_fallback (drop 3 s)
           else if c AND 0xF8 = 0xF0 \<and> is_cont (byte_at s 1) \<and> is_cont (byte_at s 2) \<and> is_cont (byte_at s 3)
             then has_fallback (drop 4 s)
           else has_fallback t))"
  by pat_completeness auto
termination
  by (relation "measure length") auto

declare has_fallback.simps [simp del]

text \<open>Half of a merge entry: a six-byte \<^verbatim>\<open>\uXXXX\<close> is replaced by its character.\<close>

definition unescape_half :: "bytes \<Rightarrow> bytes" where
  "unescape_half a =
     (if length a = 6 \<and> a ! 0 = 92 \<and> a ! 1 = 117 then c_string (utf8_put (hex4 (drop 2 a))) else a)"

fun load_merges :: "bytes list \<Rightarrow> nat \<Rightarrow> vg_merge list" where
  "load_merges [] k = []"
| "load_merges (e # es) k =
     (let entry = c_string e; a = takeWhile (\<lambda>c. c \<noteq> 32) entry; rest = dropWhile (\<lambda>c. c \<noteq> 32) entry
      in if rest = [] then load_merges es k
         else \<lparr>mg_a = unescape_half a, mg_b = unescape_half (tl rest), mg_rank = k\<rparr> # load_merges es (Suc k))"

text \<open>A flag read with \<^verbatim>\<open>strtol\<close>, one when the key is missing.\<close>

definition strtol_flag :: "bytes option \<Rightarrow> bool" where
  "strtol_flag s = (case s of None \<Rightarrow> True | Some t \<Rightarrow> fst (strtol t) \<noteq> 0)"

definition vg_tokenizer_load :: "(bytes \<Rightarrow> flt \<times> bytes) \<Rightarrow> vg_gguf option \<Rightarrow> vg_status + vg_tokenizer" where
  "vg_tokenizer_load strtod_f file =
     (if file = None then Inl VG_E_INVALID
      else
     (let key = (\<lambda>k. vg_gguf_meta file (Some (cstr k)));
          id_of = (\<lambda>s. case s of None \<Rightarrow> -1 | Some t \<Rightarrow> to_int32 (fst (strtol t)));
          bos = id_of (key ''tokenizer.ggml.bos_token_id'');
          eos = id_of (key ''tokenizer.ggml.eos_token_id'');
          add_bos0 = (case key ''tokenizer.ggml.add_bos_token'' of None \<Rightarrow> True | Some s \<Rightarrow> meta_bool s True);
          add_bos = (if bos < 0 then False else add_bos0);
          gpt2 = (case key ''tokenizer.ggml.model'' of None \<Rightarrow> False | Some m \<Rightarrow> m = cstr ''gpt2'' \<or> m = cstr ''bpe'')
      in case key ''tokenizer.ggml.tokens'' of
           None \<Rightarrow> Inl VG_E_FORMAT
         | Some tokens \<Rightarrow>
             (let adp = strtol_flag (key ''tokenizer.ggml.add_dummy_prefix'');
                  rew = strtol_flag (key ''tokenizer.ggml.remove_extra_whitespaces'');
                  vocab = load_vocab tokens
              in if vocab = [] then Inl VG_E_FORMAT
                 else
                   (let ix = index_insert_all (map (\<lambda>v. vg_hash_bytes (ve_text v)) vocab) (vg_index_build (length vocab));
                        added = (case key ''tokenizer.ggml.token_type'' of None \<Rightarrow> [] | Some t \<Rightarrow> load_added vocab t);
                        vocab' = (case key ''tokenizer.ggml.scores'' of None \<Rightarrow> vocab | Some s \<Rightarrow> load_scores strtod_f vocab s);
                        gpt2' = (gpt2 \<and> list_ex (\<lambda>v. has_fallback (ve_text v)) vocab');
                        merges = (case key ''tokenizer.ggml.merges'' of None \<Rightarrow> []
                          | Some m \<Rightarrow> load_merges (array_entries m) 0);
                        mix = (if merges = [] then vg_index_free
                          else index_insert_all (map (\<lambda>m. merge_hash (mg_a m) (mg_b m)) merges) (vg_index_build (length merges)))
                    in Inr \<lparr>tk_vocab = vocab', tk_vocab_ix = ix, tk_merges = merges, tk_merge_ix = mix,
                         tk_bos_id = bos, tk_eos_id = eos, tk_add_bos = add_bos, tk_gpt2_byte_map = gpt2',
                         tk_add_dummy_prefix = adp, tk_remove_extra_ws = rew, tk_added = added\<rparr>))))"


section \<open>The byte alphabet of GPT-2\<close>

definition gpt2_byte_to_cp :: "u8 list" where
  "gpt2_byte_to_cp =
    [0x00, 0x01, 0x02, 0x03, 0x04, 0x05, 0x06, 0x07, 0x08, 0x09, 0x0A, 0x0B, 0x0C, 0x0D, 0x0E, 0x0F,
     0x10, 0x11, 0x12, 0x13, 0x14, 0x15, 0x16, 0x17, 0x18, 0x19, 0x1A, 0x1B, 0x1C, 0x1D, 0x1E, 0x1F,
     0x20, 0x7F, 0x80, 0x81, 0x82, 0x83, 0x84, 0x85, 0x86, 0x87, 0x88, 0x89, 0x8A, 0x8B, 0x8C, 0x8D,
     0x8E, 0x8F, 0x90, 0x91, 0x92, 0x93, 0x94, 0x95, 0x96, 0x97, 0x98, 0x99, 0x9A, 0x9B, 0x9C, 0x9D,
     0x9E, 0x9F, 0xA0, 0xAD]"

definition gpt2_fallback_index :: "u8 \<Rightarrow> int" where
  "gpt2_fallback_index b =
     (if b \<le> 0x20 then uint b else if 0x7F \<le> b \<and> b \<le> 0xA0 then 33 + uint b - 0x7F else if b = 0xAD then 67 else -1)"

definition encode_byte_fwd :: "u8 \<Rightarrow> bytes" where
  "encode_byte_fwd b =
     (let idx = gpt2_fallback_index b;
          cp = (if 0 \<le> idx then 0x100 + of_int idx else ucast b) :: u32
      in if cp < 0x80 then [ucast cp]
         else [ucast (0xC0 OR drop_bit 6 cp), ucast (0x80 OR (cp AND 0x3F))])"

section \<open>Byte-pair encoding\<close>

text \<open>A word is the list of its pieces; the C arrays keep them back to back with offsets and lengths.\<close>

type_synonym bpe_word = "bytes list"

text \<open>The pair with the lowest rank, the first one on a tie: its rank and position.\<close>

definition best_pair :: "vg_tokenizer \<Rightarrow> bpe_word \<Rightarrow> (nat \<times> nat) option" where
  "best_pair tok w =
     foldl (\<lambda>best i.
         case find_merge tok (w ! i) (w ! Suc i) of
           None \<Rightarrow> best
         | Some mi \<Rightarrow>
             (let r = mg_rank (tk_merges tok ! mi)
              in case best of None \<Rightarrow> Some (r, i) | Some (r0, i0) \<Rightarrow> if r < r0 then Some (r, i) else best))
       None [0..<length w - 1]"

definition merge_at :: "nat \<Rightarrow> bpe_word \<Rightarrow> bpe_word" where
  "merge_at i w = take i w @ (w ! i @ w ! Suc i) # drop (Suc (Suc i)) w"

lemma best_pair_less: "best_pair tok w = Some (r, i) \<Longrightarrow> Suc i < length w"
proof -
  have "foldl (\<lambda>best i.
         case find_merge tok (w ! i) (w ! Suc i) of
           None \<Rightarrow> best
         | Some mi \<Rightarrow>
             (let r = mg_rank (tk_merges tok ! mi)
              in case best of None \<Rightarrow> Some (r, i) | Some (r0, i0) \<Rightarrow> if r < r0 then Some (r, i) else best)) b xs = Some (r, i) \<Longrightarrow>
      i \<in> set xs \<or> b = Some (r, i)" for b xs
  proof (induction xs arbitrary: b)
    case (Cons x xs)
    then show ?case by (fastforce simp: Let_def split: option.splits if_splits prod.splits)
  qed simp
  then show "best_pair tok w = Some (r, i) \<Longrightarrow> Suc i < length w"
    unfolding best_pair_def by fastforce
qed

text \<open>Merging until no pair is mergeable; a merged piece must fit the 512-byte buffer.\<close>

function bpe_apply :: "vg_tokenizer \<Rightarrow> bpe_word \<Rightarrow> bpe_word option" where
  "bpe_apply tok w =
     (case best_pair tok w of
        None \<Rightarrow> Some w
      | Some (r, i) \<Rightarrow>
          (if 512 < length (w ! i) + length (w ! Suc i) then None else bpe_apply tok (merge_at i w)))"
  by pat_completeness auto
termination
  by (relation "measure (\<lambda>(tok, w). length w)") (auto dest!: best_pair_less simp: merge_at_def)

declare bpe_apply.simps [simp del]

definition bpe_word_apply :: "vg_tokenizer \<Rightarrow> bpe_word \<Rightarrow> bpe_word option" where
  "bpe_word_apply tok w = (if tk_merges tok = [] then Some w else bpe_apply tok w)"

definition emit_word :: "vg_tokenizer \<Rightarrow> bpe_word \<Rightarrow> int list" where
  "emit_word tok w = map (\<lambda>p. let tid = find_token_n tok p in if tid < 0 then 0 else tid) w"

section \<open>Encoding\<close>

definition tc_space :: "u8 \<Rightarrow> bool" where
  "tc_space c \<longleftrightarrow> c = 32 \<or> c = 9 \<or> c = 10 \<or> c = 13 \<or> c = 12 \<or> c = 11"

definition tc_digit :: "u8 \<Rightarrow> bool" where
  "tc_digit c \<longleftrightarrow> 48 \<le> c \<and> c \<le> 57"

definition tc_alpha :: "u8 \<Rightarrow> bool" where
  "tc_alpha c \<longleftrightarrow> (65 \<le> c \<and> c \<le> 90) \<or> (97 \<le> c \<and> c \<le> 122) \<or> 0x80 \<le> c"

text \<open>The spaces of the text become U+2581; \<open>prev\<close> is \<^verbatim>\<open>prev_space\<close>.\<close>

fun sp_norm :: "bool \<Rightarrow> bool \<Rightarrow> bytes \<Rightarrow> bytes" where
  "sp_norm rew prev [] = []"
| "sp_norm rew prev (c # cs) =
     (if c = 32 \<and> rew \<and> prev then sp_norm rew prev cs
      else (if c = 32 then utf8_put 0x2581 else [c]) @ sp_norm rew (c = 32) cs)"

definition need_cp :: "u8 \<Rightarrow> nat" where
  "need_cp lead = (if 0xF0 \<le> lead then 4 else if 0xE0 \<le> lead then 3 else if 0xC0 \<le> lead then 2 else 1)"

text \<open>The last, so the longest, length whose prefix is a token: its id and length.\<close>

definition longest_match :: "vg_tokenizer \<Rightarrow> bytes \<Rightarrow> (int \<times> nat) option" where
  "longest_match tok s =
     foldl (\<lambda>m len. let tid = find_token_n tok (take len s) in if 0 \<le> tid then Some (tid, len) else m)
       None [need_cp (hd s)..<min (Suc (length s)) 512]"

definition sp_step :: "vg_tokenizer \<Rightarrow> bytes \<Rightarrow> int \<times> nat" where
  "sp_step tok s = (case longest_match tok s of None \<Rightarrow> (0, need_cp (hd s)) | Some m \<Rightarrow> m)"

lemma need_cp_pos: "0 < need_cp c"
  by (simp add: need_cp_def)

lemma longest_match_len: "longest_match tok s = Some (tid, len) \<Longrightarrow> need_cp (hd s) \<le> len \<and> len \<le> length s \<and> find_token_n tok (take len s) = tid \<and> 0 \<le> tid"
proof -
  have "foldl (\<lambda>m len. let tid = find_token_n tok (take len s) in if 0 \<le> tid then Some (tid, len) else m) m xs = Some (tid, len) \<Longrightarrow>
     (len \<in> set xs \<and> find_token_n tok (take len s) = tid \<and> 0 \<le> tid) \<or> m = Some (tid, len)" for m xs
  proof (induction xs arbitrary: m)
    case (Cons x xs)
    then show ?case by (auto simp: Let_def split: if_splits)
  qed simp
  note step = this [of None "[need_cp (hd s)..<min (Suc (length s)) 512]"]
  assume "longest_match tok s = Some (tid, len)"
  then have "len \<in> set [need_cp (hd s)..<min (Suc (length s)) 512] \<and> find_token_n tok (take len s) = tid \<and> 0 \<le> tid"
    unfolding longest_match_def using step by blast
  then show ?thesis unfolding set_upt atLeastLessThan_iff by (auto simp: min_def split: if_splits)
qed

lemma sp_step_pos: "sp_step tok s = (tid, n) \<Longrightarrow> 0 < n"
  using need_cp_pos [of "hd s"] longest_match_len [of tok s] by (fastforce simp: sp_step_def split: option.splits)

text \<open>Greedy matching; stepping past the terminator is undefined.\<close>

function sp_encode :: "vg_tokenizer \<Rightarrow> bytes \<Rightarrow> int list option" where
  "sp_encode tok s =
     (if s = [] then Some []
      else (case sp_step tok s of
              (tid, n) \<Rightarrow> if length s < n then None else map_option ((#) tid) (sp_encode tok (drop n s))))"
  by pat_completeness auto
termination
  by (relation "measure (\<lambda>(tok, s). length s)") (auto dest!: sp_step_pos [OF sym])

declare sp_encode.simps [simp del]

text \<open>One pre-token: whether a space leads it, its bytes after that space, and the rest of the text.\<close>

definition pre_token :: "bytes \<Rightarrow> bool \<times> bytes \<times> bytes" where
  "pre_token p =
     (let lead = (p \<noteq> [] \<and> hd p = 32); p = (if lead then tl p else p);
          c = byte_at p 0;
          in_run = (if tc_alpha c then tc_alpha else if tc_digit c then tc_digit
            else if \<not> tc_space c then (\<lambda>c. \<not> tc_space c \<and> \<not> tc_alpha c \<and> \<not> tc_digit c) else tc_space)
      in (lead, takeWhile in_run p, dropWhile in_run p))"

lemma pre_token_concat: "pre_token p = (lead, run, rest) \<Longrightarrow> p = (if lead then [32] else []) @ run @ rest"
  by (cases p) (auto simp: pre_token_def Let_def split: if_splits)

lemma pre_token_progress: "pre_token p = (lead, run, rest) \<Longrightarrow> p \<noteq> [] \<Longrightarrow> length rest < length p"
proof -
  assume p: "pre_token p = (lead, run, rest)" and ne: "p \<noteq> []"
  have "lead \<or> run \<noteq> []"
    using p ne by (cases p) (auto simp: pre_token_def Let_def byte_at_def split: if_splits)
  then show ?thesis using pre_token_concat [OF p] by (cases lead) auto
qed

function gpt2_encode :: "vg_tokenizer \<Rightarrow> bytes \<Rightarrow> int list option" where
  "gpt2_encode tok p =
     (if p = [] then Some []
      else (case pre_token p of
              (lead, run, rest) \<Rightarrow>
                (case bpe_word_apply tok ((if lead then [encode_byte_fwd 32] else []) @ map encode_byte_fwd run) of
                   None \<Rightarrow> None
                 | Some w \<Rightarrow> map_option ((@) (emit_word tok w)) (gpt2_encode tok rest))))"
  by pat_completeness auto
termination
  by (relation "measure (\<lambda>(tok, s). length s)") (auto dest!: pre_token_progress [OF sym])

declare gpt2_encode.simps [simp del]

definition encode_body :: "vg_tokenizer \<Rightarrow> bytes \<Rightarrow> int list option" where
  "encode_body tok text =
     (if tk_gpt2_byte_map tok then gpt2_encode tok text
      else sp_encode tok ((if tk_add_dummy_prefix tok then utf8_put 0x2581 else []) @ sp_norm (tk_remove_extra_ws tok) True text))"

text \<open>The longest control token at the front of the text, the first one on a tie.\<close>

definition match_added_token :: "vg_tokenizer \<Rightarrow> bytes \<Rightarrow> int \<times> nat" where
  "match_added_token tok p =
     foldl (\<lambda>(bid, best) (s, tid). if best < length s \<and> take (length s) p = s then (tid, length s) else (bid, best))
       (-1, 0) (tk_added tok)"

definition flush_segment :: "vg_tokenizer \<Rightarrow> bytes \<Rightarrow> int list option" where
  "flush_segment tok seg = (if seg = [] then Some [] else encode_body tok seg)"

text \<open>The scan for control tokens: \<open>seg\<close> is the segment since the last one.\<close>

function scan_added :: "vg_tokenizer \<Rightarrow> bytes \<Rightarrow> bytes \<Rightarrow> int list option" where
  "scan_added tok seg p =
     (case p of
        [] \<Rightarrow> flush_segment tok seg
      | c # p' \<Rightarrow>
          (case match_added_token tok p of
             (aid, alen) \<Rightarrow>
               (if alen = 0 then scan_added tok (seg @ [c]) p'
                else (case flush_segment tok seg of
                        None \<Rightarrow> None
                      | Some ids \<Rightarrow> map_option (\<lambda>r. ids @ aid # r) (scan_added tok [] (drop alen p))))))"
  by pat_completeness auto
termination
  by (relation "measure (\<lambda>(tok, seg, p). length p)") auto

declare scan_added.simps [simp del]

definition encode_impl :: "vg_tokenizer \<Rightarrow> bytes \<Rightarrow> int list option" where
  "encode_impl tok text = (if tk_added tok = [] then encode_body tok text else scan_added tok [] text)"

text \<open>The ids written into a buffer of \<open>max_ids\<close> entries, and the number of ids.\<close>

definition vg_tokenizer_encode :: "vg_tokenizer option \<Rightarrow> bytes option \<Rightarrow> nat \<Rightarrow> (int list \<times> nat) option" where
  "vg_tokenizer_encode tok text max_ids =
     (case (tok, text) of
        (Some t, Some s) \<Rightarrow> map_option (\<lambda>ids. (take max_ids ids, length ids)) (encode_impl t s)
      | _ \<Rightarrow> Some ([], 0))"

section \<open>Decoding\<close>

definition is_sp_space :: "bytes \<Rightarrow> bool" where
  "is_sp_space s \<longleftrightarrow> byte_at s 0 = 0xE2 \<and> byte_at s 1 = 0x96 \<and> byte_at s 2 = 0x81"

function sp_decode :: "bytes \<Rightarrow> bytes" where
  "sp_decode s = (case s of [] \<Rightarrow> [] | c # t \<Rightarrow> if is_sp_space s then 32 # sp_decode (drop 3 s) else c # sp_decode t)"
  by pat_completeness auto
termination
  by (relation "measure length") auto

declare sp_decode.simps [simp del]

text \<open>The code point at the front of a non-empty text and the number of its bytes.\<close>

definition next_cp :: "bytes \<Rightarrow> u32 \<times> nat" where
  "next_cp s =
     (let c0 = byte_at s 0; c1 = byte_at s 1; c2 = byte_at s 2; c3 = byte_at s 3;
          low = (\<lambda>c. ucast (c AND 0x3F) :: u32)
      in if c0 < 0x80 then (ucast c0, 1)
         else if c0 AND 0xE0 = 0xC0 \<and> is_cont c1 then (push_bit 6 (ucast (c0 AND 0x1F)) OR low c1, 2)
         else if c0 AND 0xF0 = 0xE0 \<and> is_cont c1 \<and> is_cont c2 then
           (push_bit 12 (ucast (c0 AND 0x0F)) OR push_bit 6 (low c1) OR low c2, 3)
         else if c0 AND 0xF8 = 0xF0 \<and> is_cont c1 \<and> is_cont c2 \<and> is_cont c3 then
           (push_bit 18 (ucast (c0 AND 0x07)) OR push_bit 12 (low c1) OR push_bit 6 (low c2) OR low c3, 4)
         else (ucast c0, 1))"

definition emit_cp :: "u32 \<Rightarrow> bytes \<Rightarrow> bytes" where
  "emit_cp cp raw =
     (if 0x100 \<le> cp \<and> cp \<le> 0x143 then [gpt2_byte_to_cp ! unat (cp - 0x100)]
      else if 0xA1 \<le> cp \<and> cp \<le> 0xFF then [ucast cp] else raw)"

lemma next_cp_pos: "next_cp s = (cp, n) \<Longrightarrow> 0 < n"
  by (auto simp: next_cp_def Let_def split: if_splits)

function gpt2_decode :: "bytes \<Rightarrow> bytes" where
  "gpt2_decode s = (if s = [] then [] else (case next_cp s of (cp, n) \<Rightarrow> emit_cp cp (take n s) @ gpt2_decode (drop n s)))"
  by pat_completeness auto
termination
  by (relation "measure length") (auto dest!: next_cp_pos [OF sym])

declare gpt2_decode.simps [simp del]

definition decode_bytes :: "vg_tokenizer \<Rightarrow> int \<Rightarrow> bytes" where
  "decode_bytes tok tid =
     (if tid < 0 \<or> int (length (tk_vocab tok)) \<le> tid then []
      else (let text = ve_text (tk_vocab tok ! nat tid)
            in if tk_gpt2_byte_map tok then gpt2_decode text else sp_decode text))"

text \<open>What a buffer of \<open>buf_len\<close> bytes holds as a C string, and the length returned.\<close>

definition vg_tokenizer_decode :: "vg_tokenizer option \<Rightarrow> int \<Rightarrow> nat \<Rightarrow> bytes \<times> nat" where
  "vg_tokenizer_decode tok tid buf_len =
     (case tok of
        None \<Rightarrow> ([], 0)
      | Some t \<Rightarrow> (let out = decode_bytes t tid in (if length out < buf_len then out else take (buf_len - 1) out, length out)))"

definition vg_tokenizer_token_text :: "vg_tokenizer option \<Rightarrow> int \<Rightarrow> bytes option" where
  "vg_tokenizer_token_text tok tid =
     (case tok of
        None \<Rightarrow> None
      | Some t \<Rightarrow> if tid < 0 \<or> int (length (tk_vocab t)) \<le> tid then None else Some (ve_text (tk_vocab t ! nat tid)))"

text \<open>\<open>None\<close> is the result \<open>-1\<close> for a missing tokenizer, output or tid array.\<close>

definition vg_tokenizer_decode_sequence :: "vg_tokenizer option \<Rightarrow> int list option \<Rightarrow> nat \<Rightarrow> bool \<Rightarrow> bytes option" where
  "vg_tokenizer_decode_sequence tok ids n has_out =
     (case tok of
        None \<Rightarrow> None
      | Some t \<Rightarrow>
          (if \<not> has_out \<or> (ids = None \<and> n \<noteq> 0) then None
           else (let is = (case ids of None \<Rightarrow> [] | Some l \<Rightarrow> take n l);
                     buf = concat (map (decode_bytes t) is)
                 in if \<not> tk_gpt2_byte_map t \<and> buf \<noteq> [] \<and> hd buf = 32
                      \<and> (case vg_tokenizer_token_text tok (hd is) of None \<Rightarrow> False | Some t0 \<Rightarrow> is_sp_space t0)
                    then Some (tl buf) else Some buf)))"

text \<open>The round trip the tools use; the tid buffer holds four ids per byte and 64 more.\<close>

definition vg_tokenizer_encode_decode :: "vg_tokenizer option \<Rightarrow> bytes option \<Rightarrow> bytes option" where
  "vg_tokenizer_encode_decode tok text =
     (case (tok, text) of
        (Some t, Some s) \<Rightarrow>
          (case vg_tokenizer_encode tok text (length s * 4 + 64) of
             None \<Rightarrow> None
           | Some (ids, n) \<Rightarrow> vg_tokenizer_decode_sequence tok (Some ids) n True)
      | _ \<Rightarrow> None)"

section \<open>Accessors\<close>

definition vg_tokenizer_vocab_size :: "vg_tokenizer option \<Rightarrow> nat" where
  "vg_tokenizer_vocab_size tok = (case tok of None \<Rightarrow> 0 | Some t \<Rightarrow> length (tk_vocab t))"

definition vg_tokenizer_bos_id :: "vg_tokenizer option \<Rightarrow> int" where
  "vg_tokenizer_bos_id tok = (case tok of None \<Rightarrow> -1 | Some t \<Rightarrow> tk_bos_id t)"

definition vg_tokenizer_add_bos :: "vg_tokenizer option \<Rightarrow> bool" where
  "vg_tokenizer_add_bos tok = (case tok of None \<Rightarrow> False | Some t \<Rightarrow> tk_add_bos t)"

definition vg_tokenizer_eos_id :: "vg_tokenizer option \<Rightarrow> int" where
  "vg_tokenizer_eos_id tok = (case tok of None \<Rightarrow> -1 | Some t \<Rightarrow> tk_eos_id t)"

definition vg_tokenizer_merge_count :: "vg_tokenizer option \<Rightarrow> nat" where
  "vg_tokenizer_merge_count tok = (case tok of None \<Rightarrow> 0 | Some t \<Rightarrow> length (tk_merges t))"

definition vg_tokenizer_is_byte_bpe :: "vg_tokenizer option \<Rightarrow> bool" where
  "vg_tokenizer_is_byte_bpe tok = (case tok of None \<Rightarrow> False | Some t \<Rightarrow> tk_gpt2_byte_map t)"

end
