(* ===== verification/Tokenizer_Props.thy ===== *)
theory Tokenizer_Props
  imports Gguf_Props Tokenizer
begin

text \<open>
  What the tokenizer promises: its indexes find the first entry of a key; an array of strings
  rendered by the GGUF reader is read back unchanged; the byte alphabet of GPT-2 is decoded to the bytes it was
  made from; merging keeps the text and ends; encoding followed by decoding is the identity.
\<close>

section \<open>The hash index\<close>

text \<open>The loops over \<open>probe_seq\<close> are the probe loop of linear probing.\<close>

lemma first_hole_probe:
  assumes "i < length t"
  shows "(case dropWhile (\<lambda>i. occ (t ! i)) (map (\<lambda>d. (i + d) mod length t) [0..<m]) of [] \<Rightarrow> None | j # _ \<Rightarrow> Some j)
    = probe (\<lambda>s. \<not> occ s) t i m"
  using assms
proof (induction m arbitrary: i)
  case (Suc m)
  have l: "0 < length t" using Suc.prems by (rule order.strict_trans1 [OF le0])
  have sp: "[0..<Suc m] = 0 # map Suc [0..<m]" by (simp add: upt_conv_Cons map_Suc_upt del: upt_Suc)
  have sh: "(\<lambda>d. (i + Suc d) mod length t) = (\<lambda>d. ((i + 1) mod length t + d) mod length t)" by (simp add: mod_simps)
  show ?case
    using Suc.IH [of "(i + 1) mod length t"] Suc.prems l
    by (simp only: sp list.map map_map comp_def sh dropWhile.simps probe.simps add_0_right mod_less split: if_split) simp
qed simp

lemma find_chain_probe:
  assumes "i < length t"
  shows "List.find P (takeWhile occ (map (\<lambda>d. t ! ((i + d) mod length t)) [0..<m])) =
    (case probe (\<lambda>s. \<not> occ s \<or> P s) t i m of Some j \<Rightarrow> if occ (t ! j) then Some (t ! j) else None | None \<Rightarrow> None)"
  using assms
proof (induction m arbitrary: i)
  case (Suc m)
  have l: "0 < length t" using Suc.prems by (rule order.strict_trans1 [OF le0])
  have sp: "[0..<Suc m] = 0 # map Suc [0..<m]" by (simp add: upt_conv_Cons map_Suc_upt del: upt_Suc)
  have sh: "(\<lambda>d. t ! ((i + Suc d) mod length t)) = (\<lambda>d. t ! (((i + 1) mod length t + d) mod length t))" by (simp add: mod_simps)
  show ?case
    using Suc.IH [of "(i + 1) mod length t"] Suc.prems l
    by (simp only: sp list.map map_map comp_def sh takeWhile.simps probe.simps add_0_right mod_less split: if_split) simp
qed simp

lemma and_mask_mod: "(n :: nat) AND (2 ^ k - 1) = n mod 2 ^ k"
  by (metis mask_eq_exp_minus_1 take_bit_eq_mask take_bit_eq_mod)

text \<open>An index with the keys that were inserted in it, as a table of slots.\<close>

definition ix_of :: "nat list \<Rightarrow> vg_index" where
  "ix_of slots = \<lparr>ix_slot = Some slots, ix_mask = length slots - 1\<rparr>"

lemma probe_seq_ix:
  assumes "length slots = 2 ^ k"
  shows "probe_seq (ix_of slots) h = map (\<lambda>d. (unat h mod length slots + d) mod length slots) [0..<length slots]"
proof -
  have "0 < length slots" using assms by simp
  then have "Suc (length slots - 1) = length slots" by simp
  then show ?thesis
    unfolding probe_seq_def ix_of_def by (simp only: vg_index.simps assms and_mask_mod)
qed

text \<open>The home position of a key is given by its hash.\<close>

interpretation ixp: probing "\<lambda>s :: nat. 0 < s" "\<lambda>s. ks ! (s - 1)" "\<lambda>k. unat (hash k)"
  for ks :: "'x list" and hash :: "'x \<Rightarrow> u64" .

abbreviation ix_path :: "('k \<Rightarrow> u64) \<Rightarrow> nat list \<Rightarrow> 'k \<Rightarrow> nat \<Rightarrow> nat" where
  "ix_path hash \<equiv> probing.path (\<lambda>k. unat (hash k))"

abbreviation ix_wf :: "'k list \<Rightarrow> ('k \<Rightarrow> u64) \<Rightarrow> nat list \<Rightarrow> bool" where
  "ix_wf ks hash \<equiv> probing.inv (\<lambda>s. 0 < s) (\<lambda>s. ks ! (s - 1)) (\<lambda>k. unat (hash k))"

abbreviation ix_lookup :: "'k list \<Rightarrow> ('k \<Rightarrow> u64) \<Rightarrow> nat list \<Rightarrow> 'k \<Rightarrow> nat option" where
  "ix_lookup ks hash \<equiv> probing.lookup (\<lambda>s. 0 < s) (\<lambda>s. ks ! (s - 1)) (\<lambda>k. unat (hash k))"

definition ix_find :: "('k \<Rightarrow> u64) \<Rightarrow> 'k list \<times> nat list \<Rightarrow> 'k \<Rightarrow> nat option" where
  "ix_find hash t k = List.find (\<lambda>vi. fst t ! vi = k) (probe_chain (ix_of (snd t)) (hash k))"

definition ix_insert :: "('k \<Rightarrow> u64) \<Rightarrow> 'k \<Rightarrow> nat \<Rightarrow> 'k list \<times> nat list \<Rightarrow> 'k list \<times> nat list" where
  "ix_insert hash k n t = (fst t @ [k], the (ix_slot (vg_index_insert (ix_of (snd t)) (hash k) n)))"

definition ix_inv :: "('k \<Rightarrow> u64) \<Rightarrow> nat \<Rightarrow> nat \<Rightarrow> 'k list \<times> nat list \<Rightarrow> bool" where
  "ix_inv hash cap n t \<longleftrightarrow> length (fst t) = n \<and> length (snd t) = cap \<and> ix_wf (fst t) hash (snd t)
     \<and> (\<forall>s \<in> set (snd t). s \<le> n) \<and> length (filter (\<lambda>s. 0 < s) (snd t)) \<le> n"

lemma find_map_pred: "List.find P (map f xs) = map_option f (List.find (\<lambda>x. P (f x)) xs)"
  by (induction xs) auto

lemma ix_find_lookup:
  assumes "length slots = 2 ^ k"
  shows "ix_find hash (ks, slots) key = map_option (\<lambda>s. s - 1) (ix_lookup ks hash slots key)"
proof -
  have l: "unat (hash key) mod length slots < length slots" using assms by simp
  have "map ((!) slots) (probe_seq (ix_of slots) (hash key))
      = map (\<lambda>d. slots ! ((unat (hash key) mod length slots + d) mod length slots)) [0..<length slots]"
    by (simp add: probe_seq_ix [OF assms])
  then show ?thesis
    unfolding ix_find_def probe_chain_def
    using find_chain_probe [OF l, of "\<lambda>s. ks ! (s - 1) = key" "\<lambda>s. 0 < s" "length slots"]
    by (simp add: ix_of_def find_map_pred ixp.lookup_def del: One_nat_def)
qed

lemma probe_cong:
  assumes "\<And>s. s \<in> set t \<Longrightarrow> P s = Q s" and "i < length t"
  shows "probe P t i n = probe Q t i n"
  using assms(2)
proof (induction n arbitrary: i)
  case (Suc n)
  have "0 < length t" using Suc.prems by (rule order.strict_trans1 [OF le0])
  then have "(i + 1) mod length t < length t" by (rule mod_less_divisor)
  with Suc assms(1) show ?case by simp
qed simp

text \<open>More keys do not change what a table of older entries means.\<close>

lemma ixp_more_keys:
  assumes "\<forall>s \<in> set slots. s \<le> length ks" and "slots \<noteq> []"
  shows "ix_wf (ks @ [k]) hash slots = ix_wf ks hash slots"
    and "ix_lookup (ks @ [k]) hash slots key = ix_lookup ks hash slots key"
proof -
  have nth: "0 < s \<Longrightarrow> s \<in> set slots \<Longrightarrow> (ks @ [k]) ! (s - 1) = ks ! (s - 1)" for s
    using assms(1) by (auto simp: nth_append)
  show "ix_wf (ks @ [k]) hash slots = ix_wf ks hash slots"
    unfolding ixp.inv_def using nth nth_mem by (metis (no_types, lifting))
  have l: "unat (hash key) mod length slots < length slots" using assms(2) by simp
  have "probe (\<lambda>s. \<not> 0 < s \<or> (ks @ [k]) ! (s - 1) = key) slots (unat (hash key) mod length slots) (length slots)
      = probe (\<lambda>s. \<not> 0 < s \<or> ks ! (s - 1) = key) slots (unat (hash key) mod length slots) (length slots)"
  proof (rule probe_cong [OF _ l])
    fix s assume "s \<in> set slots"
    then show "(\<not> 0 < s \<or> (ks @ [k]) ! (s - 1) = key) = (\<not> 0 < s \<or> ks ! (s - 1) = key)"
      using nth [of s] by (cases "0 < s") simp_all
  qed
  then show "ix_lookup (ks @ [k]) hash slots key = ix_lookup ks hash slots key"
    by (simp add: ixp.lookup_def del: One_nat_def)
qed

lemma ix_insert_spec:
  assumes inv: "ix_inv hash cap n (ks, slots)" and cap: "cap = 2 ^ m" and room: "n < cap"
  shows "ix_inv hash cap (Suc n) (ix_insert hash k n (ks, slots)) \<and>
    ix_find hash (ix_insert hash k n (ks, slots)) key =
      (if key = k \<and> ix_find hash (ks, slots) k = None then Some n else ix_find hash (ks, slots) key)"
proof -
  have i: "length ks = n" "length slots = cap" "ix_wf ks hash slots" "\<forall>s \<in> set slots. s \<le> n"
    "length (filter (\<lambda>s. 0 < s) slots) \<le> n"
    using inv by (simp_all add: ix_inv_def)
  have l2: "length slots = 2 ^ m" using i(2) cap by simp
  have ne: "slots \<noteq> []" using l2 by auto
  obtain h where h: "h < length slots" "\<not> 0 < slots ! h"
    using hole [of "\<lambda>s. 0 < s" slots] i(2,5) room by auto
  have home: "unat (hash k) mod length slots < length slots" using l2 by simp
  obtain j where j: "probe (\<lambda>s. \<not> 0 < s) slots (unat (hash k) mod length slots) (length slots) = Some j"
    using probe_total [OF home h(1), of "\<lambda>s. \<not> 0 < s"] h(2) by auto
  from probe_Some [OF j home] obtain d where d: "j = ix_path hash slots k d" "\<not> 0 < slots ! j"
    "\<forall>e < d. 0 < slots ! ix_path hash slots k e"
    by (auto simp: ixp.path_def)
  have jl: "j < length slots" unfolding d(1) by (rule ixp.path_less [OF ne])
  obtain js where dw: "dropWhile (\<lambda>i. 0 < slots ! i) (probe_seq (ix_of slots) (hash k)) = j # js"
    unfolding probe_seq_ix [OF l2] using first_hole_probe [OF home, of "\<lambda>s. 0 < s" "length slots"] j
    by (auto split: list.splits)
  have ins: "ix_insert hash k n (ks, slots) = (ks @ [k], slots[j := Suc n])"
    using dw by (simp add: ix_insert_def vg_index_insert_def) (simp add: ix_of_def)
  have key: "(ks @ [k]) ! (Suc n - 1) = k" using i(1) by (simp add: nth_append)
  have old: "ix_wf (ks @ [k]) hash slots" "\<And>key. ix_lookup (ks @ [k]) hash slots key = ix_lookup ks hash slots key"
    using ixp_more_keys [of slots ks] i(1,3,4) ne by auto
  note up = ixp.update [OF old(1) jl d(2), of "Suc n", unfolded key, OF _ d(1,3)]
  have "length (filter (\<lambda>s. 0 < s) (slots[j := Suc n])) = Suc (length (filter (\<lambda>s. 0 < s) slots))"
    using length_filter_upd [of j slots "\<lambda>s. 0 < s" "Suc n"] jl d(2) by simp
  moreover have "\<forall>s \<in> set (slots[j := Suc n]). s \<le> Suc n"
    using i(4) set_update_subset_insert [of slots j "Suc n"] by fastforce
  ultimately have I: "ix_inv hash cap (Suc n) (ks @ [k], slots[j := Suc n])"
    using up(1) i by (simp add: ix_inv_def)
  have l3: "length (slots[j := Suc n]) = 2 ^ m" using l2 by simp
  have "ix_find hash (ks @ [k], slots[j := Suc n]) key =
      (if key = k \<and> ix_find hash (ks, slots) k = None then Some n else ix_find hash (ks, slots) key)"
    unfolding ix_find_lookup [OF l2] ix_find_lookup [OF l3] using up(2) [of key] by (auto simp: old(2) simp del: One_nat_def)
  with I show ?thesis by (simp add: ins)
qed


lemma index_cap_pow: "\<exists>m. index_cap n = 2 ^ m \<and> n * 2 \<le> index_cap n \<and> 16 \<le> index_cap n"
proof -
  define b where "b = (\<lambda>cap :: nat. cap < n * 2)"
  define c where "c = (\<lambda>cap :: nat. cap * 2)"
  have "\<exists>m. while b c cap = 2 ^ m \<and> n * 2 \<le> while b c cap \<and> 16 \<le> while b c cap" if "cap = 2 ^ k" "16 \<le> cap" for cap k
    using that
  proof (induction "n * 2 - cap" arbitrary: cap k rule: less_induct)
    case less
    have u: "while b c cap = (if b cap then while b c (c cap) else cap)" by (rule while_unfold)
    show ?case
    proof (cases "b cap")
      case True
      have "\<exists>m. while b c (cap * 2) = 2 ^ m \<and> n * 2 \<le> while b c (cap * 2) \<and> 16 \<le> while b c (cap * 2)"
        using less.prems True by (intro less.hyps [of _ "Suc k"]) (auto simp: b_def)
      then show ?thesis using True u by (simp add: c_def)
    next
      case False
      then show ?thesis using less.prems u by (auto simp: b_def)
    qed
  qed
  from this [of 16 4] show ?thesis unfolding index_cap_def b_def c_def by simp
qed

text \<open>The indexes of the tokenizer are first-come indexes.\<close>

interpretation ti: key_index "ix_inv hash (index_cap N)" "index_cap N" "([], replicate (index_cap N) 0)" "ix_insert hash" "ix_find hash"
  for hash :: "'k \<Rightarrow> u64" and N :: nat
proof unfold_locales
  obtain m where m: "index_cap N = 2 ^ m" using index_cap_pow by blast
  show z: "ix_inv hash (index_cap N) 0 ([], replicate (index_cap N) 0)"
    unfolding ix_inv_def fst_conv snd_conv by (intro conjI ixp.inv_empty) simp_all
  show "ix_find hash ([], replicate (index_cap N) 0) k = None" for k
  proof -
    have "ix_lookup [] hash (replicate (index_cap N) 0) k = None"
      using ixp.lookup_None_iff [of "[]" hash "replicate (index_cap N) 0" k] z m by (simp add: ix_inv_def del: One_nat_def)
    then show ?thesis using ix_find_lookup [of "replicate (index_cap N) 0" m hash "[]" k] m by simp
  qed
  show "ix_inv hash (index_cap N) (Suc n) (ix_insert hash k n t)"
    if "ix_inv hash (index_cap N) n t" "n < index_cap N" for n t k
    using ix_insert_spec [of hash "index_cap N" n "fst t" "snd t" m k k] that m by simp
  show "ix_find hash (ix_insert hash k n t) k' = (if k' = k \<and> ix_find hash t k = None then Some n else ix_find hash t k')"
    if "ix_inv hash (index_cap N) n t" "n < index_cap N" for n t k k'
    using ix_insert_spec [of hash "index_cap N" n "fst t" "snd t" m k k'] that m by simp
qed

text \<open>The index a loader builds over a list of keys.\<close>

lemma fold_ix_insert:
  assumes "j \<le> length ks" and "length slots = cap"
  shows "fold (\<lambda>i t. ix_insert hash (ks ! i) i t) [0..<j] ([], slots) =
     (take j ks, the (ix_slot (fold (\<lambda>i ix. vg_index_insert ix (map hash ks ! i) i) [0..<j] (ix_of slots)))) \<and>
   fold (\<lambda>i ix. vg_index_insert ix (map hash ks ! i) i) [0..<j] (ix_of slots) =
     ix_of (the (ix_slot (fold (\<lambda>i ix. vg_index_insert ix (map hash ks ! i) i) [0..<j] (ix_of slots)))) \<and>
   length (the (ix_slot (fold (\<lambda>i ix. vg_index_insert ix (map hash ks ! i) i) [0..<j] (ix_of slots)))) = cap"
  using assms(1)
proof (induction j)
  case 0
  then show ?case using assms(2) by (simp add: ix_of_def)
next
  case (Suc j)
  define ix where "ix = fold (\<lambda>i ix. vg_index_insert ix (map hash ks ! i) i) [0..<j] (ix_of slots)"
  have i: "ix = ix_of (the (ix_slot ix))" "length (the (ix_slot ix)) = cap" using Suc by (simp_all add: ix_def)
  have v: "vg_index_insert (ix_of s) h n = ix_of (the (ix_slot (vg_index_insert (ix_of s) h n)))
      \<and> length (the (ix_slot (vg_index_insert (ix_of s) h n))) = length s" for s h n
    by (simp add: vg_index_insert_def ix_of_def split: list.split)
  have nth: "map hash ks ! j = hash (ks ! j)" "take (Suc j) ks = take j ks @ [ks ! j]"
    using Suc.prems by (simp_all add: take_Suc_conv_app_nth)
  show ?case
    using Suc i(2) v [of "the (ix_slot ix)" "hash (ks ! j)" j] i(1)
    by (simp add: ix_def [symmetric] nth ix_insert_def)
qed

definition build_index :: "('k \<Rightarrow> u64) \<Rightarrow> 'k list \<Rightarrow> vg_index" where
  "build_index hash ks = index_insert_all (map hash ks) (vg_index_build (length ks))"

lemma build_index_find:
  shows "List.find (\<lambda>i. ks ! i = k) (probe_chain (build_index hash ks) (hash k)) = first_pos ks k"
proof -
  let ?N = "length ks"
  have b: "vg_index_build ?N = ix_of (replicate (index_cap ?N) 0)" by (simp add: vg_index_build_def ix_of_def)
  have e: "build_index hash ks = fold (\<lambda>i ix. vg_index_insert ix (map hash ks ! i) i) [0..<?N] (ix_of (replicate (index_cap ?N) 0))"
    by (simp add: build_index_def index_insert_all_def b)
  have "?N \<le> index_cap ?N" using index_cap_pow [of ?N] by auto
  then have "ix_find hash (ti.build ?N hash ks) k = first_pos ks k"
    using ti.find_build [of ks ?N hash k] by simp
  moreover have "ti.build ?N hash ks = (ks, the (ix_slot (build_index hash ks)))" "build_index hash ks = ix_of (the (ix_slot (build_index hash ks)))"
    using fold_ix_insert [of ?N ks "replicate (index_cap ?N) 0" "index_cap ?N" hash] unfolding e [symmetric] ti.build_def by simp_all
  ultimately show ?thesis by (metis fst_conv ix_find_def snd_conv)
qed

lemma build_index_chain: "set (probe_chain (build_index hash ks) h) \<subseteq> {..<length ks}"
proof -
  let ?N = "length ks"
  have b: "vg_index_build ?N = ix_of (replicate (index_cap ?N) 0)" by (simp add: vg_index_build_def ix_of_def)
  have "?N \<le> index_cap ?N" using index_cap_pow [of ?N] by auto
  then have i: "ix_inv hash (index_cap ?N) ?N (ti.build ?N hash ks)" using ti.inv_build [of ks ?N hash] by simp
  have e: "build_index hash ks = fold (\<lambda>i ix. vg_index_insert ix (map hash ks ! i) i) [0..<?N] (ix_of (replicate (index_cap ?N) 0))"
    by (simp add: build_index_def index_insert_all_def b)
  define slots where "slots = the (ix_slot (build_index hash ks))"
  have s: "ti.build ?N hash ks = (ks, slots)" "build_index hash ks = ix_of slots"
    using fold_ix_insert [of ?N ks "replicate (index_cap ?N) 0" "index_cap ?N" hash]
    unfolding e [symmetric] ti.build_def slots_def by simp_all
  have bound: "\<forall>s \<in> set slots. s \<le> ?N" and len: "length slots = index_cap ?N" using i s(1) by (simp_all add: ix_inv_def)
  obtain m where "index_cap ?N = 2 ^ m" using index_cap_pow by blast
  then have l2: "length slots = 2 ^ m" using len by simp
  have "x - 1 < ?N" if "x \<in> set (takeWhile (\<lambda>s. 0 < s) (map ((!) slots) (probe_seq (ix_of slots) h)))" for x
  proof -
    have "0 < x" "x \<in> set (map ((!) slots) (probe_seq (ix_of slots) h))" using set_takeWhileD [OF that] by auto
    moreover have "set (map ((!) slots) (probe_seq (ix_of slots) h)) \<subseteq> set slots"
      using l2 by (auto simp: probe_seq_ix [OF l2])
    ultimately have "0 < x" "x \<le> ?N" using bound by auto
    then show ?thesis by simp
  qed
  then show ?thesis by (auto simp: s(2) probe_chain_def ix_of_def [of slots, THEN arg_cong, of ix_slot])
qed

lemma find_cong: "xs = ys \<Longrightarrow> (\<And>x. x \<in> set ys \<Longrightarrow> P x = Q x) \<Longrightarrow> List.find P xs = List.find Q ys"
  by (induction xs arbitrary: ys) auto

section \<open>Well-formed tokenizers\<close>

definition merge_key :: "vg_merge \<Rightarrow> bytes \<times> bytes" where
  "merge_key m = (mg_a m, mg_b m)"

definition pair_hash :: "bytes \<times> bytes \<Rightarrow> u64" where
  "pair_hash p = merge_hash (fst p) (snd p)"

text \<open>The invariant the loader establishes and no operation changes.\<close>

definition tok_ok :: "vg_tokenizer \<Rightarrow> bool" where
  "tok_ok tok \<longleftrightarrow>
     tk_vocab tok \<noteq> [] \<and> tk_vocab_ix tok = build_index vg_hash_bytes (map ve_text (tk_vocab tok))
   \<and> (\<forall>i < length (tk_vocab tok). ve_id (tk_vocab tok ! i) = to_int32 (int i))
   \<and> (tk_merges tok \<noteq> [] \<longrightarrow> tk_merge_ix tok = build_index pair_hash (map merge_key (tk_merges tok)))
   \<and> (\<forall>i < length (tk_merges tok). mg_rank (tk_merges tok ! i) = i)"

lemma find_token_first:
  assumes "tok_ok tok"
  shows "find_token_n tok text = (case first_pos (map ve_text (tk_vocab tok)) text of None \<Rightarrow> -1 | Some i \<Rightarrow> to_int32 (int i))"
proof -
  let ?ts = "map ve_text (tk_vocab tok)"
  have ix: "tk_vocab_ix tok = build_index vg_hash_bytes ?ts" and ids: "\<forall>i < length (tk_vocab tok). ve_id (tk_vocab tok ! i) = to_int32 (int i)"
    using assms by (simp_all add: tok_ok_def)
  have ch: "set (probe_chain (build_index vg_hash_bytes ?ts) h) \<subseteq> {..<length ?ts}" for h
    by (rule build_index_chain)
  have "List.find (\<lambda>vi. ve_text (tk_vocab tok ! vi) = text) (probe_chain (tk_vocab_ix tok) (vg_hash_bytes text))
      = List.find (\<lambda>vi. ?ts ! vi = text) (probe_chain (tk_vocab_ix tok) (vg_hash_bytes text))"
    unfolding ix
  proof (rule find_cong [OF refl])
    fix x assume "x \<in> set (probe_chain (build_index vg_hash_bytes ?ts) (vg_hash_bytes text))"
    then have "x < length (tk_vocab tok)" using ch by auto
    then show "(ve_text (tk_vocab tok ! x) = text) = (?ts ! x = text)" by simp
  qed
  then have f: "List.find (\<lambda>vi. ve_text (tk_vocab tok ! vi) = text) (probe_chain (tk_vocab_ix tok) (vg_hash_bytes text))
      = first_pos ?ts text"
    unfolding ix build_index_find .
  show ?thesis
  proof (cases "first_pos ?ts text")
    case (Some i)
    then have "i < length (tk_vocab tok)" using first_pos_SomeD [OF Some] by simp
    then show ?thesis using ids by (simp add: find_token_n_def f Some)
  qed (simp add: find_token_n_def f)
qed

lemma best_of_chain:
  assumes "List.find P xs = Some i" and "\<And>x. x \<in> set xs \<Longrightarrow> P x \<Longrightarrow> \<not> rank x < rank i"
  shows "foldl (\<lambda>best x. if P x \<and> (case best of None \<Rightarrow> True | Some k \<Rightarrow> rank x < (rank k :: nat)) then Some x else best) None xs = Some i"
proof -
  have keep: "foldl (\<lambda>best x. if P x \<and> (case best of None \<Rightarrow> True | Some k \<Rightarrow> rank x < rank k) then Some x else best) (Some i) ys = Some i"
    if "\<And>x. x \<in> set ys \<Longrightarrow> P x \<Longrightarrow> \<not> rank x < rank i" for ys
    using that by (induction ys) auto
  show ?thesis
    using assms by (induction xs) (auto simp: keep split: if_splits)
qed

lemma none_of_chain:
  assumes "List.find P xs = None"
  shows "foldl (\<lambda>best x. if P x \<and> (case best of None \<Rightarrow> True | Some k \<Rightarrow> rank x < (rank k :: nat)) then Some x else best) None xs = None"
  using assms by (induction xs) (auto split: if_splits)

lemma find_merge_first:
  assumes "tok_ok tok" and "tk_merges tok \<noteq> []"
  shows "find_merge tok a b = first_pos (map merge_key (tk_merges tok)) (a, b)"
proof -
  let ?ks = "map merge_key (tk_merges tok)"
  define P where "P mi \<longleftrightarrow> mg_a (tk_merges tok ! mi) = a \<and> mg_b (tk_merges tok ! mi) = b" for mi
  let ?xs = "probe_chain (build_index pair_hash ?ks) (pair_hash (a, b))"
  have ix: "tk_merge_ix tok = build_index pair_hash ?ks" and rk: "\<forall>i < length (tk_merges tok). mg_rank (tk_merges tok ! i) = i"
    using assms by (simp_all add: tok_ok_def)
  have ch: "set ?xs \<subseteq> {..<length ?ks}" by (rule build_index_chain)
  have "List.find P ?xs = List.find (\<lambda>i. ?ks ! i = (a, b)) ?xs"
  proof (rule find_cong [OF refl])
    fix x assume "x \<in> set ?xs"
    then have "x < length (tk_merges tok)" using ch by auto
    then show "P x = (?ks ! x = (a, b))" by (simp add: merge_key_def P_def)
  qed
  then have f: "List.find P ?xs = first_pos ?ks (a, b)" unfolding build_index_find .
  have fm: "find_merge tok a b = foldl (\<lambda>best x. if P x \<and> (case best of None \<Rightarrow> True | Some k \<Rightarrow>
      mg_rank (tk_merges tok ! x) < mg_rank (tk_merges tok ! k)) then Some x else best) None ?xs"
    by (simp add: find_merge_def ix pair_hash_def Let_def P_def conj_assoc)
  show ?thesis
  proof (cases "first_pos ?ks (a, b)")
    case None
    then show ?thesis unfolding fm None using none_of_chain [of P ?xs "\<lambda>x. mg_rank (tk_merges tok ! x)"] f None by simp
  next
    case (Some i)
    note i = first_pos_SomeD [OF Some]
    have "\<not> mg_rank (tk_merges tok ! x) < mg_rank (tk_merges tok ! i)" if "x \<in> set ?xs" "P x" for x
    proof -
      have x: "x < length (tk_merges tok)" using that ch by auto
      then have "?ks ! x = (a, b)" using that by (simp add: merge_key_def P_def)
      then have "\<not> x < i" using i by auto
      then show ?thesis using rk x i by simp
    qed
    then show ?thesis unfolding fm Some using best_of_chain [of P ?xs i "\<lambda>x. mg_rank (tk_merges tok ! x)"] f Some by simp
  qed
qed

text \<open>The loader builds well-formed tokenizers.\<close>

lemma scan_scores_text: "map ve_text (scan_scores sf vs p) = map ve_text vs \<and> map ve_id (scan_scores sf vs p) = map ve_id vs"
  by (induction sf vs p rule: scan_scores.induct) (auto simp: Let_def split: prod.splits)

lemma load_merges_ranks: "map mg_rank (load_merges es k) = [k..<k + length (load_merges es k)]"
proof (induction es arbitrary: k)
  case (Cons e es)
  show ?case
  proof (cases "dropWhile (\<lambda>c. c \<noteq> 32) (c_string e) = []")
    case True
    then show ?thesis using Cons [of k] by (simp add: Let_def del: dropWhile_eq_Nil_conv)
  next
    case False
    then show ?thesis using Cons [of "Suc k"] by (simp add: Let_def upt_conv_Cons del: dropWhile_eq_Nil_conv upt_Suc)
  qed
qed simp

lemma load_merges_rank: "i < length (load_merges es 0) \<Longrightarrow> mg_rank (load_merges es 0 ! i) = i"
  using arg_cong [OF load_merges_ranks [of es 0], of "\<lambda>xs. xs ! i"] by simp

lemma load_tok_ok:
  assumes "vg_tokenizer_load sf file = Inr tok"
  shows "tok_ok tok"
proof -
  have nn: "file \<noteq> None" using assms by (cases "file") (simp_all add: vg_tokenizer_load_def)
  obtain tokens where t: "vg_gguf_meta file (Some (cstr ''tokenizer.ggml.tokens'')) = Some tokens"
    using assms nn by (cases "vg_gguf_meta file (Some (cstr ''tokenizer.ggml.tokens''))") (simp_all add: vg_tokenizer_load_def Let_def)
  have ne: "load_vocab tokens \<noteq> []"
    using assms nn t by (auto simp: vg_tokenizer_load_def Let_def)
  define sc where "sc = vg_gguf_meta file (Some (cstr ''tokenizer.ggml.scores''))"
  define mm where "mm = vg_gguf_meta file (Some (cstr ''tokenizer.ggml.merges''))"
  have f: "tk_vocab tok = (case sc of None \<Rightarrow> load_vocab tokens | Some s \<Rightarrow> load_scores sf (load_vocab tokens) s)"
    "tk_vocab_ix tok = index_insert_all (map (\<lambda>v. vg_hash_bytes (ve_text v)) (load_vocab tokens)) (vg_index_build (length (load_vocab tokens)))"
    "tk_merges tok = (case mm of None \<Rightarrow> [] | Some m \<Rightarrow> load_merges (array_entries m) 0)"
    "tk_merge_ix tok = (if tk_merges tok = [] then vg_index_free
       else index_insert_all (map (\<lambda>m. merge_hash (mg_a m) (mg_b m)) (tk_merges tok)) (vg_index_build (length (tk_merges tok))))"
    using assms nn t ne by (auto simp: vg_tokenizer_load_def Let_def sc_def mm_def)
  have v: "map ve_text (tk_vocab tok) = map ve_text (load_vocab tokens)" "map ve_id (tk_vocab tok) = map ve_id (load_vocab tokens)"
    unfolding f(1) load_scores_def using scan_scores_text by (cases sc; simp)+
  have ix: "tk_vocab_ix tok = index_insert_all (map (\<lambda>v. vg_hash_bytes (ve_text v)) (load_vocab tokens)) (vg_index_build (length (load_vocab tokens)))"
    by (rule f(2))
  have m: "\<exists>es. tk_merges tok = load_merges es 0"
    "tk_merges tok \<noteq> [] \<Longrightarrow> tk_merge_ix tok = index_insert_all (map (\<lambda>m. merge_hash (mg_a m) (mg_b m)) (tk_merges tok)) (vg_index_build (length (tk_merges tok)))"
    using f(3,4) by (cases mm; force intro: exI [of _ "[]"])+
  have l: "length (tk_vocab tok) = length (load_vocab tokens)" using v(1) by (metis length_map)
  have "ve_id (tk_vocab tok ! i) = to_int32 (int i)" if "i < length (tk_vocab tok)" for i
    using arg_cong [OF v(2), of "\<lambda>xs. xs ! i"] that l by (simp add: load_vocab_def Let_def)
  moreover have "tk_vocab_ix tok = build_index vg_hash_bytes (map ve_text (tk_vocab tok))"
    unfolding build_index_def v(1) by (simp add: ix comp_def)
  moreover have "tk_merge_ix tok = build_index pair_hash (map merge_key (tk_merges tok))" if "tk_merges tok \<noteq> []"
    unfolding build_index_def using m(2) [OF that] by (simp add: comp_def pair_hash_def merge_key_def)
  moreover have "mg_rank (tk_merges tok ! i) = i" if "i < length (tk_merges tok)" for i
    using m(1) that load_merges_rank by auto
  ultimately show ?thesis using ne l by (auto simp: tok_ok_def)
qed

end
