(* ===== verification/Encode_Props.thy ===== *)
theory Encode_Props
  imports Tokenizer_Props
begin

text \<open>
  Properties of the tokenizer: string arrays survive the text form of the metadata, byte-pair merging ends and keeps
  the bytes, byte-level encoding is undone by decoding, and greedy encoding stays inside a text whose lead bytes fit.
\<close>

section \<open>String arrays, from the file to the entries\<close>

fun read_strings :: "nat \<Rightarrow> bytes \<Rightarrow> bytes list rres" where
  "read_strings 0 bs = ROk [] bs"
| "read_strings (Suc n) bs = rbind (read_string bs) (\<lambda>s bs. rbind (read_strings n bs) (\<lambda>ss. ROk (s # ss)))"

fun render_items :: "bool \<Rightarrow> bytes list \<Rightarrow> bytes" where
  "render_items first [] = []"
| "render_items first (s # ss) = (if first then [] else [44]) @ item_text True s @ render_items False ss"

lemma scan_body_escape: "scan_body (escape_text s @ 34 # t) = (s, t)"
proof (induction s)
  case Nil
  then show ?case by (simp add: escape_text_def scan_body.simps [of "34 # t"])
next
  case (Cons c s)
  then show ?case by (auto simp: escape_text_def scan_body.simps [of "_ # _"])
qed

lemma array_next_item: "array_next (item_text True s @ t) = Some (s, t)"
  by (simp add: array_next_def item_text_def is_sep_def Let_def scan_quoted_def scan_body_escape)

lemma array_next_comma: "array_next (44 # 34 # t) = array_next (34 # t)"
  by (simp add: array_next_def is_sep_def)

lemma array_next_open: "array_next (91 # 34 # t) = array_next (34 # t)"
  by (simp add: array_next_def is_sep_def)

lemma item_text_Cons: "item_text True s = 34 # escape_text s @ [34]"
  by (simp add: item_text_def)

lemma array_next_end: "array_next [93] = None" "array_next [91, 93] = None"
  by (simp_all add: array_next_def is_sep_def)

lemma array_entries_comma: "array_entries (44 # item_text True s @ t) = s # array_entries t"
  using array_next_item [of s t] array_next_comma [of "escape_text s @ 34 # t"]
  by (simp add: array_entries.simps [of "44 # _"] item_text_Cons)

lemma array_entries_rest: "array_entries (render_items False ss @ [93]) = ss"
  by (induction ss) (simp_all add: array_entries.simps [of "[93]"] array_next_end array_entries_comma)

lemma array_entries_render: "array_entries (91 # render_items True ss @ [93]) = ss"
proof (cases ss)
  case (Cons s ss')
  then show ?thesis
    using array_next_item [of s "render_items False ss' @ [93]"] array_entries_rest [of ss']
      array_next_open [of "escape_text s @ 34 # render_items False ss' @ [93]"]
    by (simp add: array_entries.simps [of "91 # _"] item_text_Cons)
qed (simp add: array_entries.simps [of "[91, 93]"] array_next_end)

lemma append_item_text: "append_item q first item (out, cap) = ROk (out', cap') r \<Longrightarrow>
    out' = out @ (if first then [] else [44]) @ item_text q item"
  by (auto simp: append_item_def Let_def split: option.splits if_splits)

lemma read_items_strings:
  assumes "read_items rdv True first n (out, cap) bs = ROk (out', cap') rest" and "rdv = read_string"
  shows "\<exists>ss. read_strings n bs = ROk ss rest \<and> out' = out @ render_items first ss"
  using assms
proof (induction n arbitrary: first out cap bs)
  case (Suc n)
  obtain item bs1 where i: "read_string bs = ROk item bs1"
    and "rbind (append_item True first item (out, cap)) (\<lambda>st' _. read_items rdv True False n st' bs1) = ROk (out', cap') rest"
    using Suc.prems by (auto simp: rbind_ROk)
  then obtain out1 cap1 r1 where a: "append_item True first item (out, cap) = ROk (out1, cap1) r1"
    and "read_items rdv True False n (out1, cap1) bs1 = ROk (out', cap') rest"
    by (auto simp: rbind_ROk)
  from Suc.IH [OF this(2) Suc.prems(2)] obtain ss where
    "read_strings n bs1 = ROk ss rest" "out' = out1 @ render_items False ss" by blast
  then show ?case using i append_item_text [OF a] by simp
qed simp

text \<open>C28: When the reader turns an array of strings into text, the tokenizer's array reader gets back exactly those strings,
  whatever bytes they hold: quotes and backslashes survive the escaping.\<close>

theorem string_array_roundtrip:
  assumes "rd_u32 bs = ROk 8 bs1" and "rd_u64 bs1 = ROk n bs2" and "read_value 9 bs = ROk out_text rest"
  shows "read_strings (unat n) bs2 = ROk (array_entries out_text) rest"
proof -
  have "read_array_text (read_scalar_value (length bs)) bs = ROk out_text rest" using assms(3) unfolding read_value_9 .
  then obtain out cap where r: "read_items (read_scalar_value (length bs) 8) True True (unat n) ([91], 64) bs2 = ROk (out, cap) rest"
    and tx: "out_text = out @ [93]"
    using assms(1,2) by (auto simp: read_array_text_def rbind_ROk split: if_splits)
  have "read_scalar_value (length bs) 8 = read_string" by (rule ext) (simp add: read_scalar_value.simps [of "length bs" 8])
  from read_items_strings [OF r this] obtain ss where "read_strings (unat n) bs2 = ROk ss rest" "out = [91] @ render_items True ss" by blast
  then show ?thesis using array_entries_render [of ss] tx by simp
qed

theorem string_array_roundtrip_witness:
  "array_entries (91 # 34 # 92 # 34 # [34, 93]) = [[34]]
   \<and> read_strings 1 [1, 0, 0, 0, 0, 0, 0, 0, 34] = ROk (array_entries [91, 34, 92, 34, 34, 93]) []"
proof -
  have "rd_u32 [8, 0, 0, 0, 1, 0, 0, 0, 0, 0, 0, 0, 1, 0, 0, 0, 0, 0, 0, 0, 34] = ROk 8 [1, 0, 0, 0, 0, 0, 0, 0, 1, 0, 0, 0, 0, 0, 0, 0, 34]"
    "rd_u64 [1, 0, 0, 0, 0, 0, 0, 0, 1, 0, 0, 0, 0, 0, 0, 0, 34] = ROk 1 [1, 0, 0, 0, 0, 0, 0, 0, 34]"
    by (simp_all add: rd_u32_def rd_u64_def rd_def le_u32_def le_u64_def)
  moreover have "read_value 9 [8, 0, 0, 0, 1, 0, 0, 0, 0, 0, 0, 0, 1, 0, 0, 0, 0, 0, 0, 0, 34] = ROk [91, 34, 92, 34, 34, 93] []"
    unfolding read_value_9 read_array_text_def
    by (simp add: rd_u32_def rd_u64_def rd_def le_u32_def le_u64_def read_scalar_value.simps [of "Suc _"] read_string_def c_string_def
        append_item_def grow_cap_unfold item_text_def escape_text_def)
  ultimately have "read_strings 1 [1, 0, 0, 0, 0, 0, 0, 0, 34] = ROk (array_entries [91, 34, 92, 34, 34, 93]) []"
    using string_array_roundtrip by fastforce
  then show ?thesis using array_entries_render [of "[[34]]"] by (simp add: item_text_def escape_text_def)
qed

section \<open>The byte alphabet round trip\<close>

definition fwd_ok :: "u8 \<Rightarrow> bool" where
  "fwd_ok b =
     (case encode_byte_fwd b of
        [c] \<Rightarrow> c < 0x80 \<and> emit_cp (ucast c) [c] = [b]
      | [c0, c1] \<Rightarrow> \<not> c0 < 0x80 \<and> c0 AND 0xE0 = 0xC0 \<and> is_cont c1
          \<and> emit_cp (push_bit 6 (ucast (c0 AND 0x1F)) OR ucast (c1 AND 0x3F)) [c0, c1] = [b]
      | _ \<Rightarrow> False)"

lemmas fwd_eval = fwd_ok_def encode_byte_fwd_def gpt2_fallback_index_def emit_cp_def is_cont_def gpt2_byte_to_cp_def Let_def

lemma fwd_ok_01: "fwd_ok 0" "fwd_ok 1"
  by (simp_all add: fwd_eval)

lemma fwd_ok_2: "list_all fwd_ok (map of_nat [2..<32])"
  by (simp add: fwd_eval)

lemma fwd_ok_32: "list_all fwd_ok (map of_nat [32..<64])"
  by (simp add: fwd_eval)

lemma fwd_ok_64: "list_all fwd_ok (map of_nat [64..<96])"
  by (simp add: fwd_eval)

lemma fwd_ok_96: "list_all fwd_ok (map of_nat [96..<128])"
  by (simp add: fwd_eval)

lemma fwd_ok_128: "list_all fwd_ok (map of_nat [128..<160])"
  by (simp add: fwd_eval)

lemma fwd_ok_160: "list_all fwd_ok (map of_nat [160..<192])"
  by (simp add: fwd_eval)

lemma fwd_ok_192: "list_all fwd_ok (map of_nat [192..<224])"
  by (simp add: fwd_eval)

lemma fwd_ok_224: "list_all fwd_ok (map of_nat [224..<256])"
  by (simp add: fwd_eval)

lemma fwd_ok: "fwd_ok b"
proof -
  have u: "[2..<256] = [2..<32] @ [32..<64] @ [64..<96] @ [96..<128] @ [128..<160] @ [160..<192] @ [192..<224] @ [224..<256]"
    by simp
  have "list_all fwd_ok (map of_nat [2..<256])"
    unfolding u map_append list_all_append using fwd_ok_2 fwd_ok_32 fwd_ok_64 fwd_ok_96 fwd_ok_128 fwd_ok_160 fwd_ok_192 fwd_ok_224 by simp
  then have big: "fwd_ok (of_nat n)" if "2 \<le> n" "n < 256" for n
    using that unfolding list_all_iff set_map set_upt by (metis atLeastLessThan_iff imageI)
  have b: "b = of_nat (unat b)" "unat b < 256" using unsigned_less [of b] by simp_all
  consider "unat b = 0" | "unat b = 1" | "2 \<le> unat b" by linarith
  then show ?thesis using b big [of "unat b"] fwd_ok_01 by cases auto
qed

lemma gpt2_decode_fwd: "gpt2_decode (encode_byte_fwd b @ s) = b # gpt2_decode s"
proof -
  have ok: "fwd_ok b" by (rule fwd_ok)
  show ?thesis
  proof (cases "encode_byte_fwd b")
    case (Cons c t)
    show ?thesis
    proof (cases t)
      case Nil
      then have "next_cp (encode_byte_fwd b @ s) = (ucast c, 1)" "emit_cp (ucast c) [c] = [b]"
        using ok Cons by (auto simp: fwd_ok_def next_cp_def byte_at_def Let_def)
      then show ?thesis using Cons Nil by (simp add: gpt2_decode.simps [of "_ # _"])
    next
      case (Cons c1 u)
      then have "u = []" using ok \<open>encode_byte_fwd b = c # t\<close> by (cases u) (auto simp: fwd_ok_def)
      note e = \<open>encode_byte_fwd b = c # t\<close> Cons this
      then have "next_cp (encode_byte_fwd b @ s) = (push_bit 6 (ucast (c AND 0x1F)) OR ucast (c1 AND 0x3F), 2)"
        "emit_cp (push_bit 6 (ucast (c AND 0x1F)) OR ucast (c1 AND 0x3F)) [c, c1] = [b]"
        using ok by (auto simp: fwd_ok_def next_cp_def byte_at_def Let_def)
      then show ?thesis using e by (simp add: gpt2_decode.simps [of "_ # _"])
    qed
  qed (use ok in \<open>simp add: fwd_ok_def\<close>)
qed

definition fwd :: "bytes \<Rightarrow> bytes" where
  "fwd bs = concat (map encode_byte_fwd bs)"

lemma gpt2_decode_fwds: "gpt2_decode (fwd bs @ s) = bs @ gpt2_decode s"
  by (induction bs) (simp_all add: fwd_def gpt2_decode_fwd)

lemma gpt2_decode_fwd_id: "gpt2_decode (fwd bs) = bs"
  using gpt2_decode_fwds [of bs "[]"] by (simp add: gpt2_decode.simps [of "[]"])

section \<open>Byte-pair merging\<close>

text \<open>The rank of the merge rule for the pair at a position.\<close>

definition pair_rank :: "vg_tokenizer \<Rightarrow> bpe_word \<Rightarrow> nat \<Rightarrow> nat option" where
  "pair_rank tok w i = map_option (\<lambda>mi. mg_rank (tk_merges tok ! mi)) (find_merge tok (w ! i) (w ! Suc i))"

lemma foldl_argmin:
  fixes rk :: "nat \<Rightarrow> nat option"
  defines "step \<equiv> \<lambda>best i. case rk i of None \<Rightarrow> best
    | Some r \<Rightarrow> (case best of None \<Rightarrow> Some (r, i) | Some (r0, i0) \<Rightarrow> if r < r0 then Some (r, i) else best)"
  shows "case foldl step None [0..<n] of
     None \<Rightarrow> (\<forall>j < n. rk j = None)
   | Some (r, i) \<Rightarrow> i < n \<and> rk i = Some r \<and> (\<forall>j < n. \<forall>r'. rk j = Some r' \<longrightarrow> r < r' \<or> (r = r' \<and> i \<le> j))"
proof (induction n)
  case (Suc n)
  define b where "b = foldl step None [0..<n]"
  have f: "foldl step None [0..<Suc n] = step b n" by (simp add: b_def)
  show ?case using Suc unfolding f b_def [symmetric]
    by (cases b; cases "rk n") (fastforce simp: step_def less_Suc_eq)+
qed simp

lemma best_pair_alt:
  "best_pair tok w = foldl (\<lambda>best i. case pair_rank tok w i of None \<Rightarrow> best
    | Some r \<Rightarrow> (case best of None \<Rightarrow> Some (r, i) | Some (r0, i0) \<Rightarrow> if r < r0 then Some (r, i) else best)) None [0..<length w - 1]"
  unfolding best_pair_def pair_rank_def Let_def
  by (rule foldl_cong [OF refl refl]) (simp split: option.splits)

lemma best_pair_Some:
  assumes "best_pair tok w = Some (r, i)"
  shows "Suc i < length w" "pair_rank tok w i = Some r"
    "\<And>j r'. Suc j < length w \<Longrightarrow> pair_rank tok w j = Some r' \<Longrightarrow> r < r' \<or> (r = r' \<and> i \<le> j)"
  using foldl_argmin [where rk = "pair_rank tok w" and n = "length w - 1"] assms by (auto simp: best_pair_alt)

lemma best_pair_None: "best_pair tok w = None \<longleftrightarrow> (\<forall>j. Suc j < length w \<longrightarrow> pair_rank tok w j = None)"
proof -
  have "Suc j < length w \<longleftrightarrow> j < length w - 1" for j by linarith
  then show ?thesis
    using foldl_argmin [where rk = "pair_rank tok w" and n = "length w - 1"] by (auto simp: best_pair_alt split: option.splits)
qed

lemma concat_merge_at: "Suc i < length w \<Longrightarrow> concat (merge_at i w) = concat w"
proof -
  assume i: "Suc i < length w"
  then have "w = take i w @ w ! i # w ! Suc i # drop (Suc (Suc i)) w"
    by (metis Cons_nth_drop_Suc Suc_lessD append_take_drop_id)
  then have "concat w = concat (take i w) @ w ! i @ w ! Suc i @ concat (drop (Suc (Suc i)) w)"
    by (metis concat.simps(2) concat_append)
  then show ?thesis by (simp add: merge_at_def)
qed

text \<open>Every rule's product is short enough for the buffer.\<close>

definition merges_fit :: "vg_tokenizer \<Rightarrow> bool" where
  "merges_fit tok \<longleftrightarrow> (\<forall>m \<in> set (tk_merges tok). length (mg_a m) + length (mg_b m) \<le> 512)"

lemma pair_rank_rule:
  assumes "tok_ok tok" and "tk_merges tok \<noteq> []" and "pair_rank tok w i = Some r"
  shows "\<exists>m \<in> set (tk_merges tok). mg_a m = w ! i \<and> mg_b m = w ! Suc i \<and> r = mg_rank m"
proof -
  obtain mi where mi: "find_merge tok (w ! i) (w ! Suc i) = Some mi" "r = mg_rank (tk_merges tok ! mi)"
    using assms(3) by (auto simp: pair_rank_def)
  then have "first_pos (map merge_key (tk_merges tok)) (w ! i, w ! Suc i) = Some mi"
    using find_merge_first [OF assms(1,2)] by simp
  from first_pos_SomeD [OF this] have "mi < length (tk_merges tok)" "merge_key (tk_merges tok ! mi) = (w ! i, w ! Suc i)" by auto
  then show ?thesis using mi(2) by (auto simp: merge_key_def intro!: bexI [of _ "tk_merges tok ! mi"])
qed

text \<open>The pair merged next: its position and the rule for it.\<close>

lemma best_pair_rule:
  assumes "tok_ok tok" and "tk_merges tok \<noteq> []" and "best_pair tok w = Some (r, i)"
  obtains m where "Suc i < length w" "m \<in> set (tk_merges tok)" "mg_a m = w ! i" "mg_b m = w ! Suc i"
  using pair_rank_rule [OF assms(1,2) best_pair_Some(2) [OF assms(3)]] best_pair_Some(1) [OF assms(3)] by blast

text \<open>What merging keeps: an invariant of the words that every merge by a rule keeps holds at the end.\<close>

lemma bpe_apply_invariant:
  assumes "tok_ok tok" and "tk_merges tok \<noteq> []" and "bpe_apply tok w = Some w'" and "I w"
    and step: "\<And>w i m. I w \<Longrightarrow> Suc i < length w \<Longrightarrow> m \<in> set (tk_merges tok) \<Longrightarrow> mg_a m = w ! i \<Longrightarrow> mg_b m = w ! Suc i \<Longrightarrow> I (merge_at i w)"
  shows "I w' \<and> best_pair tok w' = None"
  using assms(3,4)
proof (induction "length w" arbitrary: w rule: less_induct)
  case less
  show ?case
  proof (cases "best_pair tok w")
    case None
    then show ?thesis using less.prems by (simp add: bpe_apply.simps [of tok w])
  next
    case (Some a)
    obtain r i where a: "a = (r, i)" by (cases a)
    obtain m where m: "Suc i < length w" "m \<in> set (tk_merges tok)" "mg_a m = w ! i" "mg_b m = w ! Suc i"
      using best_pair_rule [OF assms(1,2)] Some a by blast
    have "bpe_apply tok (merge_at i w) = Some w'"
      using less.prems Some a by (simp add: bpe_apply.simps [of tok w] split: if_splits)
    moreover have "I (merge_at i w)" by (rule step [OF less.prems(2) m])
    moreover have "length (merge_at i w) < length w" using m(1) by (simp add: merge_at_def)
    ultimately show ?thesis using less.hyps by blast
  qed
qed

lemma bpe_apply_total:
  assumes "tok_ok tok" and "tk_merges tok \<noteq> []" and "merges_fit tok"
  shows "\<exists>w'. bpe_apply tok w = Some w'"
proof (induction "length w" arbitrary: w rule: less_induct)
  case less
  show ?case
  proof (cases "best_pair tok w")
    case None
    then show ?thesis by (simp add: bpe_apply.simps [of tok w])
  next
    case (Some a)
    obtain r i where a: "a = (r, i)" by (cases a)
    obtain m where m: "Suc i < length w" "m \<in> set (tk_merges tok)" "mg_a m = w ! i" "mg_b m = w ! Suc i"
      using best_pair_rule [OF assms(1,2)] Some a by blast
    then have "\<not> 512 < length (w ! i) + length (w ! Suc i)" using assms(3) by (auto simp: merges_fit_def)
    moreover have "length (merge_at i w) < length w" using m(1) by (simp add: merge_at_def)
    ultimately show ?thesis using less.hyps Some a by (simp add: bpe_apply.simps [of tok w])
  qed
qed

lemma mergeable_iff:
  assumes "tok_ok tok" and "tk_merges tok \<noteq> []"
  shows "pair_rank tok w i = None \<longleftrightarrow> (w ! i, w ! Suc i) \<notin> merge_key ` set (tk_merges tok)"
  using find_merge_first [OF assms, of "w ! i" "w ! Suc i"] by (simp add: pair_rank_def first_pos_None)

text \<open>C15: For a tokenizer the loader built, if no merge rule makes a piece longer than 512 bytes, applying the merges to a
  word always ends with a word that spells the same bytes and has no two adjacent pieces a rule could still merge.\<close>

theorem bpe_word_apply_correct:
  assumes "vg_tokenizer_load strtod_f file = Inr tok" and "merges_fit tok"
  shows "\<exists>w'. bpe_word_apply tok w = Some w' \<and> concat w' = concat w
    \<and> (\<forall>i. Suc i < length w' \<longrightarrow> (w' ! i, w' ! Suc i) \<notin> merge_key ` set (tk_merges tok))"
proof (cases "tk_merges tok = []")
  case False
  note ok = load_tok_ok [OF assms(1)]
  obtain w' where w': "bpe_apply tok w = Some w'" using bpe_apply_total [OF ok False assms(2)] by blast
  have "concat w' = concat w \<and> best_pair tok w' = None"
    by (rule bpe_apply_invariant [OF ok False w']) (simp_all add: concat_merge_at)
  then show ?thesis
    using w' False by (auto simp: bpe_word_apply_def best_pair_None mergeable_iff [OF ok False])
qed (simp add: bpe_word_apply_def)

section \<open>Encoding and decoding\<close>

text \<open>Every byte and every product of a merge is a token.\<close>

definition byte_complete :: "vg_tokenizer \<Rightarrow> bool" where
  "byte_complete tok \<longleftrightarrow> (\<forall>b. encode_byte_fwd b \<in> ve_text ` set (tk_vocab tok))
     \<and> (\<forall>m \<in> set (tk_merges tok). mg_a m @ mg_b m \<in> ve_text ` set (tk_vocab tok))
     \<and> length (tk_vocab tok) < 2 ^ 31"

definition word_of :: "vg_tokenizer \<Rightarrow> bytes \<Rightarrow> bpe_word \<Rightarrow> bool" where
  "word_of tok bs w \<longleftrightarrow> (\<exists>bss. w = map fwd bss \<and> concat bss = bs \<and> [] \<notin> set bss) \<and> set w \<subseteq> ve_text ` set (tk_vocab tok)"

lemma fwd_append [simp]: "fwd (a @ b) = fwd a @ fwd b"
  by (simp add: fwd_def)

lemma merge_at_fwd: "Suc i < length bss \<Longrightarrow> merge_at i (map fwd bss) = map fwd (merge_at i bss)"
  by (simp add: merge_at_def take_map drop_map)

lemma word_of_start: "byte_complete tok \<Longrightarrow> word_of tok bs (map encode_byte_fwd bs)"
proof -
  have "map encode_byte_fwd bs = map fwd (map (\<lambda>b. [b]) bs)" "concat (map (\<lambda>b. [b]) bs) = bs" "[] \<notin> set (map (\<lambda>b. [b]) bs)"
    by (auto simp: fwd_def)
  then have "\<exists>bss. map encode_byte_fwd bs = map fwd bss \<and> concat bss = bs \<and> [] \<notin> set bss" by blast
  moreover assume "byte_complete tok"
  then have "set (map encode_byte_fwd bs) \<subseteq> ve_text ` set (tk_vocab tok)" by (auto simp: byte_complete_def)
  ultimately show ?thesis unfolding word_of_def by blast
qed

lemma word_of_merge:
  assumes "word_of tok bs w" and "Suc i < length w" and "m \<in> set (tk_merges tok)" and "mg_a m = w ! i" and "mg_b m = w ! Suc i"
    and "byte_complete tok"
  shows "word_of tok bs (merge_at i w)"
proof -
  obtain bss where b: "w = map fwd bss" "concat bss = bs" "[] \<notin> set bss" using assms(1) by (auto simp: word_of_def)
  have i: "Suc i < length bss" using assms(2) b by simp
  have "bss ! i \<noteq> []" using b(3) i by (metis Suc_lessD nth_mem)
  then have "[] \<notin> set (merge_at i bss)" using b(3) by (auto simp: merge_at_def dest: in_set_takeD in_set_dropD)
  moreover have "w ! i @ w ! Suc i \<in> ve_text ` set (tk_vocab tok)"
    using assms(3-6) by (force simp: byte_complete_def)
  then have "set (merge_at i w) \<subseteq> ve_text ` set (tk_vocab tok)"
    using assms(1) by (auto simp: merge_at_def word_of_def dest: in_set_takeD in_set_dropD)
  ultimately show ?thesis
    unfolding word_of_def using b i merge_at_fwd [OF i] concat_merge_at [OF i] by metis
qed

lemma word_of_apply:
  assumes "tok_ok tok" and "merges_fit tok" and "byte_complete tok"
  shows "\<exists>w'. bpe_word_apply tok (map encode_byte_fwd bs) = Some w' \<and> word_of tok bs w'"
proof (cases "tk_merges tok = []")
  case False
  obtain w' where w': "bpe_apply tok (map encode_byte_fwd bs) = Some w'" using bpe_apply_total [OF assms(1) False assms(2)] by blast
  have "word_of tok bs w' \<and> best_pair tok w' = None"
    by (rule bpe_apply_invariant [where I = "word_of tok bs", OF assms(1) False w' word_of_start [OF assms(3)]])
      (rule word_of_merge [OF _ _ _ _ _ assms(3)])
  then show ?thesis using w' False by (auto simp: bpe_word_apply_def)
qed (use word_of_start [OF assms(3)] in \<open>simp add: bpe_word_apply_def\<close>)

text \<open>Decoding a piece that is a token gives back the bytes it spells.\<close>

lemma to_int32_small: "i < 2 ^ 31 \<Longrightarrow> to_int32 (int i) = int i"
  unfolding to_int32_def sint_sbintrunc' by (simp add: signed_take_bit_int_eq_self_iff)

lemma decode_piece:
  assumes "tok_ok tok" and "byte_complete tok" and "tk_gpt2_byte_map tok" and "t \<in> ve_text ` set (tk_vocab tok)"
  shows "0 \<le> find_token_n tok t" "decode_bytes tok (find_token_n tok t) = gpt2_decode t"
proof -
  obtain i where i: "first_pos (map ve_text (tk_vocab tok)) t = Some i"
    using assms(4) by (cases "first_pos (map ve_text (tk_vocab tok)) t") (auto simp: first_pos_None)
  have l: "i < length (tk_vocab tok)" "ve_text (tk_vocab tok ! i) = t" using first_pos_SomeD [OF i] by auto
  then have f: "find_token_n tok t = int i"
    using find_token_first [OF assms(1), of t] i assms(2) by (simp add: byte_complete_def to_int32_small)
  then show "0 \<le> find_token_n tok t" by simp
  show "decode_bytes tok (find_token_n tok t) = gpt2_decode t"
    using f l assms(3) by (simp add: decode_bytes_def Let_def)
qed

lemma decode_word:
  assumes "tok_ok tok" and "byte_complete tok" and "tk_gpt2_byte_map tok" and "word_of tok bs w"
  shows "concat (map (decode_bytes tok) (emit_word tok w)) = bs \<and> length (emit_word tok w) \<le> length bs"
proof -
  obtain bss where b: "w = map fwd bss" "concat bss = bs" "[] \<notin> set bss" "set w \<subseteq> ve_text ` set (tk_vocab tok)"
    using assms(4) by (auto simp: word_of_def)
  have "decode_bytes tok (let tid = find_token_n tok (fwd x) in if tid < 0 then 0 else tid) = x" if "x \<in> set bss" for x
  proof -
    have "fwd x \<in> ve_text ` set (tk_vocab tok)" using b(1,4) that by auto
    from decode_piece [OF assms(1-3) this] show ?thesis by (simp add: Let_def gpt2_decode_fwd_id)
  qed
  then have "map (decode_bytes tok) (emit_word tok w) = bss"
    unfolding emit_word_def b(1) by (simp add: comp_def map_idI)
  moreover have "length bss \<le> length (concat bss)"
    using b(3)
  proof (induction bss)
    case (Cons a bss)
    then have "Suc 0 \<le> length a" "length bss \<le> length (concat bss)" by (auto simp: Suc_le_eq)
    then show ?case by simp
  qed simp
  ultimately show ?thesis using b by (simp add: emit_word_def)
qed

lemma gpt2_encode_roundtrip:
  assumes "tok_ok tok" and "merges_fit tok" and "byte_complete tok" and "tk_gpt2_byte_map tok"
  shows "\<exists>ids. gpt2_encode tok p = Some ids \<and> concat (map (decode_bytes tok) ids) = p \<and> length ids \<le> length p"
proof (induction "length p" arbitrary: p rule: less_induct)
  case less
  show ?case
  proof (cases "p = []")
    case False
    obtain lead run rest where pt: "pre_token p = (lead, run, rest)" by (cases "pre_token p")
    have p: "p = ((if lead then [32] else []) @ run) @ rest" using pre_token_concat [OF pt] by simp
    let ?q = "(if lead then [32] else []) @ run"
    have w: "(if lead then [encode_byte_fwd 32] else []) @ map encode_byte_fwd run = map encode_byte_fwd ?q" by simp
    obtain w' where w': "bpe_word_apply tok (map encode_byte_fwd ?q) = Some w'" "word_of tok ?q w'"
      using word_of_apply [OF assms(1-3)] by blast
    obtain ids where ids: "gpt2_encode tok rest = Some ids" "concat (map (decode_bytes tok) ids) = rest" "length ids \<le> length rest"
      using less.hyps [OF pre_token_progress [OF pt False]] by blast
    have "gpt2_encode tok p = Some (emit_word tok w' @ ids)"
      using False pt w w'(1) ids(1) by (simp add: gpt2_encode.simps [of tok p])
    moreover note decode_word [OF assms(1,3,4) w'(2)]
    moreover have "length p = length ?q + length rest" using arg_cong [OF p, of length] by simp
    ultimately show ?thesis using ids(2,3) p
      by (intro exI [of _ "emit_word tok w' @ ids"]) (simp del: append_assoc)
  qed (simp add: gpt2_encode.simps [of tok "[]"])
qed


section \<open>Greedy longest-match encoding\<close>

text \<open>No lead byte announces more bytes than follow it.\<close>

fun leads_fit :: "bytes \<Rightarrow> bool" where
  "leads_fit [] = True"
| "leads_fit (c # cs) = (need_cp c \<le> Suc (length cs) \<and> leads_fit cs)"

lemma leads_fit_drop: "leads_fit s \<Longrightarrow> leads_fit (drop n s)"
  by (induction s arbitrary: n) (simp_all add: drop_Cons split: nat.split)

lemma need_cp_le: "need_cp c \<le> 4"
  by (simp add: need_cp_def)

lemma utf8_space: "utf8_put 0x2581 = [0xE2, 0x96, 0x81]"
  by (simp add: utf8_put_def)

lemma sp_norm_length: "min 3 (length cs) \<le> length (sp_norm rew False cs)"
proof -
  have "length (sp_norm rew True cs) \<le> length (sp_norm rew False cs)" for cs
    by (cases cs) (auto simp: utf8_space)
  have "min k (length cs) \<le> length (sp_norm rew False cs)" if "k \<le> 3" for k
    using that
  proof (induction cs arbitrary: k)
    case (Cons c cs)
    show ?case using Cons.IH [of "k - 1"] Cons.prems by (cases "c = 32") (simp_all add: utf8_space, linarith)
  qed simp
  then show ?thesis by simp
qed

lemma leads_fit_space: "leads_fit s \<Longrightarrow> leads_fit (utf8_put 0x2581 @ s)"
  by (simp add: utf8_space need_cp_def)

lemma need_cp_fits: "need_cp c \<le> Suc n \<Longrightarrow> min 3 n \<le> m \<Longrightarrow> need_cp c \<le> Suc m"
  using need_cp_le [of c] by linarith

lemma leads_fit_norm: "leads_fit s \<Longrightarrow> leads_fit (sp_norm rew prev s)"
proof (induction s arbitrary: prev)
  case (Cons c s)
  show ?case
  proof (cases "c = 32")
    case True
    then show ?thesis using Cons leads_fit_space by (cases rew; simp)
  next
    case False
    have "need_cp c \<le> Suc (length s)" "leads_fit s" using Cons.prems by simp_all
    then show ?thesis using False Cons.IH need_cp_fits [OF _ sp_norm_length] by simp
  qed
qed simp

lemma sp_step_fits: "sp_step tok s = (tid, n) \<Longrightarrow> s \<noteq> [] \<Longrightarrow> leads_fit s \<Longrightarrow> n \<le> length s"
  using longest_match_len [of tok s] by (cases s) (fastforce simp: sp_step_def split: option.splits)+

lemma find_token_valid:
  assumes "tok_ok tok" and "length (tk_vocab tok) < 2 ^ 31" and "0 \<le> find_token_n tok t"
  shows "find_token_n tok t < int (length (tk_vocab tok))"
proof (cases "first_pos (map ve_text (tk_vocab tok)) t")
  case (Some i)
  then have "i < length (tk_vocab tok)" using first_pos_SomeD [OF Some] by simp
  moreover have "find_token_n tok t = int i"
    using calculation find_token_first [OF assms(1), of t] Some assms(2)
    unfolding to_int32_def sint_sbintrunc' by (simp add: signed_take_bit_int_eq_self_iff)
  ultimately show ?thesis by simp
qed (use find_token_first [OF assms(1), of t] assms in auto)

lemma sp_step_valid:
  assumes "tok_ok tok" and "length (tk_vocab tok) < 2 ^ 31" and "sp_step tok s = (tid, n)"
  shows "0 \<le> tid \<and> tid < int (length (tk_vocab tok))"
proof (cases "longest_match tok s")
  case None
  then show ?thesis using assms(1,3) by (simp add: sp_step_def tok_ok_def)
next
  case (Some a)
  then have a: "longest_match tok s = Some (tid, n)" using assms(3) by (simp add: sp_step_def)
  from longest_match_len [OF this] show ?thesis using find_token_valid [OF assms(1,2)] by blast
qed

lemma sp_encode_total:
  assumes "tok_ok tok" and "length (tk_vocab tok) < 2 ^ 31" and "leads_fit s"
  shows "\<exists>ids. sp_encode tok s = Some ids \<and> length ids \<le> length s \<and> (\<forall>t \<in> set ids. 0 \<le> t \<and> t < int (length (tk_vocab tok)))"
  using assms(3)
proof (induction "length s" arbitrary: s rule: less_induct)
  case less
  show ?case
  proof (cases "s = []")
    case False
    obtain tid n where st: "sp_step tok s = (tid, n)" by (cases "sp_step tok s")
    have n: "0 < n" "n \<le> length s" using sp_step_pos [OF st] sp_step_fits [OF st False less.prems] .
    then have "length (drop n s) < length s" by simp
    then obtain ids where "sp_encode tok (drop n s) = Some ids" "length ids \<le> length s - n"
      "\<forall>t \<in> set ids. 0 \<le> t \<and> t < int (length (tk_vocab tok))"
      using less.hyps [of "drop n s"] leads_fit_drop [OF less.prems, of n] by (auto simp: length_drop [symmetric] simp del: length_drop)
    then show ?thesis using n False st sp_step_valid [OF assms(1,2) st] by (simp add: sp_encode.simps [of tok s])
  qed (simp add: sp_encode.simps [of tok "[]"])
qed

lemma sp_norm_bound: "length (sp_norm rew prev s) \<le> 3 * length s"
proof (induction s arbitrary: prev)
  case (Cons c s)
  show ?case using Cons.IH [of True] Cons.IH [of False] Cons.IH [of "c = 32"] by (cases rew) (auto simp: utf8_space)
qed simp


text \<open>A text that ends in the middle of a character takes the encoder past its end: unless the vocabulary holds
  the truncated character after the prefix, a single lead byte makes it step over the terminating NUL.\<close>

theorem sp_encode_truncated:
  assumes "\<not> tk_gpt2_byte_map tok" and "tk_added tok = []" and "0xC0 \<le> b"
    and "find_token_n tok (utf8_put 0x2581 @ [b]) < 0"
  shows "vg_tokenizer_encode (Some tok) (Some [b]) max_ids = None"
proof -
  have need: "2 \<le> need_cp b" using assms(3) by (simp add: need_cp_def)
  have "b \<noteq> 32" using assms(3) by auto
  then have norm: "sp_norm r True [b] = [b]" for r by simp
  have single: "sp_encode tok [b] = None"
  proof -
    have "[need_cp (hd [b])..<min (Suc (length [b])) 512] = []" using need by simp
    then have "sp_step tok [b] = (0, need_cp b)" by (simp add: sp_step_def longest_match_def)
    then show ?thesis using need by (simp add: sp_encode.simps [of tok "[b]"])
  qed
  have "sp_encode tok (utf8_put 0x2581 @ [b]) = None"
  proof -
    have "[3..<min (Suc (length [0xE2, 0x96, 0x81, b])) 512] = [3, 4]" by (simp add: upt_rec)
    then have "longest_match tok [0xE2, 0x96, 0x81, b] = (let t = find_token_n tok [0xE2, 0x96, 0x81] in if 0 \<le> t then Some (t, 3) else None)"
      using assms(4) unfolding longest_match_def by (simp add: need_cp_def utf8_space Let_def)
    then obtain t where "sp_step tok [0xE2, 0x96, 0x81, b] = (t, 3)" by (cases "0 \<le> find_token_n tok [0xE2, 0x96, 0x81]") (simp_all add: sp_step_def Let_def need_cp_def)
    then show ?thesis using single by (simp add: sp_encode.simps [of tok "226 # _"] utf8_space)
  qed
  then show ?thesis using single norm assms(1,2)
    by (simp add: vg_tokenizer_encode_def encode_impl_def encode_body_def del: sp_norm.simps)
qed

section \<open>Concrete tokenizers\<close>

text \<open>A file known only by its metadata, with no name table.\<close>

definition meta_file :: "(bytes \<times> bytes) list \<Rightarrow> vg_gguf" where
  "meta_file kvs = (new_gguf [])\<lparr>g_meta := map (\<lambda>kv. \<lparr>m_key = fst kv, m_value = snd kv\<rparr>) kvs\<rparr>"

lemma find_pos_map_of: "map_option (\<lambda>i. map snd kvs ! i) (find_pos k (map fst kvs) 0) = map_of kvs k"
proof (induction kvs)
  case (Cons kv kvs)
  then show ?case
    by (cases kv) (auto simp: find_pos_shift option.map_comp comp_def cong: option.map_cong)
qed simp

lemma meta_file_meta: "vg_gguf_meta (Some (meta_file kvs)) (Some k) = map_of kvs k"
proof -
  have k: "map m_key (g_meta (meta_file kvs)) = map fst kvs" by (simp add: meta_file_def comp_def)
  have v: "m_value (g_meta (meta_file kvs) ! i) = map snd kvs ! i" if "find_pos k (map fst kvs) 0 = Some i" for i
    using first_pos_SomeD [of "map fst kvs" k i] that by (simp add: find_pos_first meta_file_def)
  have n: "g_meta_hash (meta_file kvs) = None" by (simp add: meta_file_def new_gguf_def)
  show ?thesis
    unfolding find_pos_Nil_meta [OF n] k find_pos_map_of [of kvs k, symmetric] using v by (cases "find_pos k (map fst kvs) 0") simp_all
qed

text \<open>The text the reader makes of an array of strings.\<close>

definition tokens_text :: "bytes list \<Rightarrow> bytes" where
  "tokens_text ss = 91 # render_items True ss @ [93]"

lemma array_entries_tokens [simp]: "array_entries (tokens_text ss) = ss"
  by (simp add: tokens_text_def array_entries_render)

text \<open>A SentencePiece vocabulary of three tokens.\<close>

definition sp_meta :: "(bytes \<times> bytes) list" where
  "sp_meta = [(cstr ''tokenizer.ggml.tokens'', tokens_text [[60, 62], [0xE2, 0x96, 0x81], [97]]),
              (cstr ''tokenizer.ggml.add_dummy_prefix'', cstr ''true'')]"

definition tok_of :: "(bytes \<times> bytes) list \<Rightarrow> vg_tokenizer" where
  "tok_of kvs = (case vg_tokenizer_load (\<lambda>p. (f_zero, p)) (Some (meta_file kvs)) of Inr t \<Rightarrow> t)"

lemma strtol_true: "strtol_flag (Some (cstr ''true'')) = False"
  by (simp add: strtol_flag_def strtol_def scan_int_def cstr_def is_space_def is_digit_def Let_def)

lemma sp_key: "map_of sp_meta (cstr ''tokenizer.ggml.tokens'') = Some (tokens_text [[60, 62], [0xE2, 0x96, 0x81], [97]])"
  "map_of sp_meta (cstr ''tokenizer.ggml.add_dummy_prefix'') = Some (cstr ''true'')"
  "map_of sp_meta (cstr ''tokenizer.ggml.model'') = None"
  "map_of sp_meta (cstr ''tokenizer.ggml.token_type'') = None"
  "map_of sp_meta (cstr ''tokenizer.ggml.merges'') = None"
  "map_of sp_meta (cstr ''tokenizer.ggml.scores'') = None"
  by (simp_all add: sp_meta_def cstr_def)

lemma load_vocab_texts: "map ve_text (load_vocab (tokens_text ss)) = map c_string ss"
  by (simp add: load_vocab_def comp_def) (simp add: map_nth flip: map_map [unfolded comp_def])

lemma sp_load: "vg_tokenizer_load (\<lambda>p. (f_zero, p)) (Some (meta_file sp_meta)) = Inr (tok_of sp_meta)
  \<and> \<not> tk_gpt2_byte_map (tok_of sp_meta) \<and> tk_added (tok_of sp_meta) = []
  \<and> tk_vocab (tok_of sp_meta) = load_vocab (tokens_text [[60, 62], [0xE2, 0x96, 0x81], [97]]) \<and> \<not> tk_add_dummy_prefix (tok_of sp_meta)"
proof -
  have ne: "load_vocab (tokens_text [[60, 62], [0xE2, 0x96, 0x81], [97]]) \<noteq> []" by (simp add: load_vocab_def)
  show ?thesis
    using ne by (simp add: tok_of_def vg_tokenizer_load_def Let_def meta_file_meta sp_key strtol_true)
qed


theorem sp_encode_truncated_witness: "vg_tokenizer_encode (Some (tok_of sp_meta)) (Some [0xE2]) 8 = None"
proof -
  have ok: "tok_ok (tok_of sp_meta)" using load_tok_ok sp_load by blast
  have "map ve_text (tk_vocab (tok_of sp_meta)) = [[60, 62], [0xE2, 0x96, 0x81], [97]]"
    using sp_load by (simp add: load_vocab_texts c_string_def)
  then have "first_pos (map ve_text (tk_vocab (tok_of sp_meta))) [0xE2, 0x96, 0x81, 0xE2] = None" by (simp add: first_pos_None)
  then have "find_token_n (tok_of sp_meta) (utf8_put 0x2581 @ [0xE2]) < 0"
    using find_token_first [OF ok, of "[0xE2, 0x96, 0x81, 0xE2]"] by (simp add: utf8_space)
  then show ?thesis using sp_load by (intro sp_encode_truncated) auto
qed

text \<open>A byte-level vocabulary: every byte, one merge and its product.\<close>

definition gpt2_texts :: "bytes list" where
  "gpt2_texts = map (\<lambda>n. encode_byte_fwd (of_nat n)) [0..<256] @ [[97, 98]]"

definition gpt2_meta :: "(bytes \<times> bytes) list" where
  "gpt2_meta = [(cstr ''tokenizer.ggml.tokens'', tokens_text gpt2_texts), (cstr ''tokenizer.ggml.model'', cstr ''gpt2''),
     (cstr ''tokenizer.ggml.merges'', tokens_text [[97, 32, 98]])]"

lemma gpt2_key: "map_of gpt2_meta (cstr ''tokenizer.ggml.tokens'') = Some (tokens_text gpt2_texts)"
  "map_of gpt2_meta (cstr ''tokenizer.ggml.model'') = Some (cstr ''gpt2'')"
  "map_of gpt2_meta (cstr ''tokenizer.ggml.token_type'') = None"
  "map_of gpt2_meta (cstr ''tokenizer.ggml.merges'') = Some (tokens_text [[97, 32, 98]])"
  "map_of gpt2_meta (cstr ''tokenizer.ggml.scores'') = None"
  by (simp_all add: gpt2_meta_def cstr_def)

lemma fwd_no_nul: "0 \<notin> set (encode_byte_fwd b)"
proof
  assume z: "0 \<in> set (encode_byte_fwd b)"
  have ok: "fwd_ok b" by (rule fwd_ok)
  show False
  proof (cases "encode_byte_fwd b")
    case (Cons c t)
    show ?thesis
    proof (cases t)
      case Nil
      then have "b = 0" using z Cons ok by (simp add: fwd_ok_def emit_cp_def)
      then show False using Cons Nil by (simp add: encode_byte_fwd_def gpt2_fallback_index_def Let_def)
    next
      case (Cons c1 u)
      then show False using z ok \<open>encode_byte_fwd b = c # t\<close> by (cases u) (auto simp: fwd_ok_def is_cont_def)
    qed
  qed (use z in simp)
qed

lemma c_string_no_nul: "0 \<notin> set s \<Longrightarrow> c_string s = s"
  unfolding c_string_def by (induction s) auto

lemma gpt2_texts_strings: "map c_string gpt2_texts = gpt2_texts"
  unfolding gpt2_texts_def by (simp add: c_string_no_nul fwd_no_nul)

lemma gpt2_texts_bytes: "encode_byte_fwd b \<in> set gpt2_texts"
proof -
  have "b = of_nat (unat b)" "unat b < 256" using unsigned_less [of b] by simp_all
  then show ?thesis unfolding gpt2_texts_def by (metis (no_types, lifting) UnI1 atLeastLessThan_iff image_eqI le0 set_append set_map set_upt)
qed

lemma gpt2_merges: "load_merges [[97, 32, 98]] 0 = [\<lparr>mg_a = [97], mg_b = [98], mg_rank = 0\<rparr>]"
  by (simp add: Let_def c_string_def unescape_half_def)

lemma gpt2_load: "vg_tokenizer_load (\<lambda>p. (f_zero, p)) (Some (meta_file gpt2_meta)) = Inr (tok_of gpt2_meta)
  \<and> tk_gpt2_byte_map (tok_of gpt2_meta) \<and> tk_added (tok_of gpt2_meta) = []
  \<and> map ve_text (tk_vocab (tok_of gpt2_meta)) = gpt2_texts \<and> tk_merges (tok_of gpt2_meta) = [\<lparr>mg_a = [97], mg_b = [98], mg_rank = 0\<rparr>]"
proof -
  let ?v = "load_vocab (tokens_text gpt2_texts)"
  have t: "map ve_text ?v = gpt2_texts" by (simp add: load_vocab_texts gpt2_texts_strings)
  then have ne: "?v \<noteq> []" by (auto simp: gpt2_texts_def)
  have "encode_byte_fwd 0 \<in> set (map ve_text ?v)" unfolding t by (rule gpt2_texts_bytes)
  moreover have "has_fallback (encode_byte_fwd 0)"
    by (simp add: encode_byte_fwd_def gpt2_fallback_index_def Let_def has_fallback.simps [of "_ # _"] is_cont_def byte_at_def)
  ultimately have "list_ex (\<lambda>v. has_fallback (ve_text v)) ?v" by (auto simp: list_ex_iff)
  then show ?thesis
    using ne t by (simp add: tok_of_def vg_tokenizer_load_def Let_def meta_file_meta gpt2_key gpt2_merges del: load_merges.simps)
qed

lemma gpt2_fit: "merges_fit (tok_of gpt2_meta)"
  using gpt2_load by (simp add: merges_fit_def)

theorem bpe_word_apply_correct_witness:
  "\<exists>w'. bpe_word_apply (tok_of gpt2_meta) [[97], [98], [99]] = Some w' \<and> concat w' = [97, 98, 99]
    \<and> (\<forall>i. Suc i < length w' \<longrightarrow> (w' ! i, w' ! Suc i) \<noteq> ([97], [98]))"
  using bpe_word_apply_correct [of "\<lambda>p. (f_zero, p)" "Some (meta_file gpt2_meta)" "tok_of gpt2_meta" "[[97], [98], [99]]"]
    gpt2_load gpt2_fit by (simp add: merge_key_def)


text \<open>In a tokenizer the loader built the hash lookups agree with a scan of the arrays: a text is found at its first vocabulary
  entry, and a pair of pieces has the first merge rule with that pair, if there is one.\<close>

theorem loaded_lookups_first:
  assumes "vg_tokenizer_load strtod_f file = Inr tok" and "tk_merges tok \<noteq> []"
  shows "find_token_n tok text = (case first_pos (map ve_text (tk_vocab tok)) text of None \<Rightarrow> -1 | Some i \<Rightarrow> to_int32 (int i))
    \<and> find_merge tok a b = first_pos (map merge_key (tk_merges tok)) (a, b)"
  using find_token_first find_merge_first load_tok_ok [OF assms(1)] assms(2) by blast

theorem loaded_lookups_first_witness:
  "find_merge (tok_of gpt2_meta) [97] [98] = Some 0 \<and> find_token_n (tok_of gpt2_meta) [1, 2, 3] = -1"
proof -
  have "first_pos (map merge_key (tk_merges (tok_of gpt2_meta))) ([97], [98]) = Some 0"
    using gpt2_load by (intro first_pos_SomeI) (simp_all add: merge_key_def)
  moreover have l: "length t \<le> 2" if "t \<in> set gpt2_texts" for t
  proof -
    have g: "x \<in> (\<lambda>n. encode_byte_fwd (of_nat n)) ` A \<union> {[97, 98]} \<Longrightarrow> x \<in> range encode_byte_fwd \<or> x = [97, 98]" for x A
      by auto
    have "t \<in> range encode_byte_fwd \<or> t = [97, 98]"
      using that by (intro g [of t "set [0..<256]"]) (simp add: gpt2_texts_def del: set_upt)
    then show ?thesis by (auto simp: encode_byte_fwd_def Let_def)
  qed
  have "[1, 2, 3] \<notin> set gpt2_texts" using l [of "[1, 2, 3]"] by auto
  then have "first_pos (map ve_text (tk_vocab (tok_of gpt2_meta))) [1, 2, 3] = None" using gpt2_load by (simp add: first_pos_None)
  ultimately show ?thesis
    using loaded_lookups_first [of "\<lambda>p. (f_zero, p)" "Some (meta_file gpt2_meta)" "tok_of gpt2_meta"] gpt2_load by simp
qed

text \<open>A flag the file states as \<^verbatim>\<open>true\<close> is read as false: these two keys go through \<^verbatim>\<open>strtol\<close>, not \<^verbatim>\<open>meta_bool\<close>.\<close>

lemma dummy_prefix_true_ignored:
  assumes "vg_tokenizer_load strtod_f file = Inr tok"
    and "vg_gguf_meta file (Some (cstr ''tokenizer.ggml.add_dummy_prefix'')) = Some (cstr ''true'')"
  shows "\<not> tk_add_dummy_prefix tok"
proof -
  have nn: "file \<noteq> None" using assms by (cases "file") (simp_all add: vg_tokenizer_load_def)
  obtain tokens where t: "vg_gguf_meta file (Some (cstr ''tokenizer.ggml.tokens'')) = Some tokens"
    using assms(1) nn by (cases "vg_gguf_meta file (Some (cstr ''tokenizer.ggml.tokens''))") (simp_all add: vg_tokenizer_load_def Let_def)
  have "tk_add_dummy_prefix tok = strtol_flag (Some (cstr ''true''))"
    using assms nn t by (cases "load_vocab tokens = []") (auto simp: vg_tokenizer_load_def Let_def)
  then show ?thesis by (simp add: strtol_true)
qed

end
