(* ===== verification/KVStore.thy ===== *)
theory KVStore
  imports Prelude
begin

text \<open>
  The paged key/value store (\<^verbatim>\<open>src/kv_cache.c\<close>, first half): pages, eviction and spilling, sequences. A
  \<^verbatim>\<open>VG_Page *\<close> points into the array \<^verbatim>\<open>pages\<close>: it is a pair of the generation of the array, which growing
  ends, and an index. \<open>None\<close> marks the use of a pointer whose array has been moved or whose slot is past the
  last page. A sequence is an object of the store, named by a number. Allocation succeeds.
\<close>

section \<open>Data\<close>

text \<open>\<open>kc_spill\<close> is \<^verbatim>\<open>spill_dir\<close>: for which file names, given by their two numbers, writing the file succeeds.\<close>

record vg_kvconfig =
  kc_page_tokens :: u32
  kc_n_layers :: u32
  kc_kv_heads :: u32
  kc_head_dim :: u32
  kc_element_bytes :: u32
  kc_host_budget :: u64
  kc_device_budget :: u64
  kc_max_pages :: u32
  kc_spill :: "(u64 \<times> u64 \<Rightarrow> bool) option"

record vg_kvstats =
  ks_page_allocs :: u64
  ks_page_hits :: u64
  ks_page_faults :: u64
  ks_page_evictions :: u64
  ks_host_bytes :: u64
  ks_device_bytes :: u64
  ks_prefix_lookups :: u64
  ks_prefix_hits :: u64
  ks_prefix_tokens_reused :: u64

record vg_page =
  pg_data :: "bytes option"
  pg_bytes :: u64
  pg_refs :: u32
  pg_age :: u64
  pg_tier :: vg_tier
  pg_spilled :: bool
  pg_spill_id :: u64

type_synonym page_ptr = "nat \<times> nat"

record vg_kvsequence =
  sq_tokens :: "u64 list"
  sq_capacity :: nat
  sq_pages :: "page_ptr list"
  sq_page_capacity :: nat

record vg_kvstore =
  kv_cfg :: vg_kvconfig
  kv_pages :: "vg_page list"
  kv_page_capacity :: nat
  kv_generation :: nat
  kv_clock :: u64
  kv_next_spill_id :: u64
  kv_stats :: vg_kvstats
  kv_files :: "u64 \<times> u64 \<Rightarrow> bytes option"
  kv_seqs :: "nat \<Rightarrow> vg_kvsequence option"
  kv_next_seq :: nat

definition zero_stats :: vg_kvstats where
  "zero_stats = \<lparr>ks_page_allocs = 0, ks_page_hits = 0, ks_page_faults = 0, ks_page_evictions = 0, ks_host_bytes = 0,
     ks_device_bytes = 0, ks_prefix_lookups = 0, ks_prefix_hits = 0, ks_prefix_tokens_reused = 0\<rparr>"

section \<open>Pages\<close>

text \<open>The product of five 32-bit numbers, in 64 bits.\<close>

definition page_bytes :: "vg_kvconfig \<Rightarrow> u64" where
  "page_bytes c = ucast (kc_n_layers c) * ucast (kc_kv_heads c) * ucast (kc_head_dim c) * ucast (kc_element_bytes c) * ucast (kc_page_tokens c)"

definition deref :: "vg_kvstore \<Rightarrow> page_ptr \<Rightarrow> vg_page option" where
  "deref s p = (if fst p = kv_generation s \<and> snd p < length (kv_pages s) then Some (kv_pages s ! snd p) else None)"

definition set_page :: "page_ptr \<Rightarrow> vg_page \<Rightarrow> vg_kvstore \<Rightarrow> vg_kvstore" where
  "set_page p x s = s\<lparr>kv_pages := (kv_pages s)[snd p := x]\<rparr>"

text \<open>The result says whether the page was written out.\<close>

definition spill_page :: "vg_kvstore \<Rightarrow> vg_page \<Rightarrow> bool \<times> vg_kvstore \<times> vg_page" where
  "spill_page s p =
     (case (kc_spill (kv_cfg s), pg_data p) of
        (Some writable, Some d) \<Rightarrow>
          (let name = (kv_next_spill_id s, pg_age p)
           in if \<not> pg_spilled p \<and> writable name then
                (True, s\<lparr>kv_files := (kv_files s)(name := Some d), kv_next_spill_id := kv_next_spill_id s + 1\<rparr>,
                 p\<lparr>pg_spill_id := kv_next_spill_id s, pg_spilled := True, pg_data := None\<rparr>)
              else (False, s, p))
      | _ \<Rightarrow> (False, s, p))"

definition fault_page :: "vg_kvstore \<Rightarrow> vg_page \<Rightarrow> bool \<times> vg_kvstore \<times> vg_page" where
  "fault_page s p =
     (if \<not> pg_spilled p then (True, s, p)
      else (let name = (pg_spill_id p, pg_age p)
            in case kv_files s name of
                 None \<Rightarrow> (False, s, p)
               | Some d \<Rightarrow>
                   (if length d < unat (pg_bytes p) then (False, s, p\<lparr>pg_data := None\<rparr>)
                    else (True, s\<lparr>kv_files := (kv_files s)(name := None)\<rparr>,
                          p\<lparr>pg_data := Some (take (unat (pg_bytes p)) d), pg_spilled := False\<rparr>))))"

text \<open>The unreferenced page with the least age, the first one on a tie.\<close>

definition find_victim :: "vg_page list \<Rightarrow> nat option" where
  "find_victim ps =
     fst (foldl (\<lambda>(victim, age) i. if pg_refs (ps ! i) = 0 \<and> pg_age (ps ! i) < age then (Some i, pg_age (ps ! i)) else (victim, age))
       (None, UINT64_MAX) [0..<length ps])"

text \<open>The body of the eviction loop: the pages behind the victim move down by one.\<close>

definition evict_one :: "nat \<Rightarrow> vg_kvstore \<Rightarrow> vg_kvstore" where
  "evict_one v s =
     (let p = kv_pages s ! v;
          st = kv_stats s;
          st = st\<lparr>ks_host_bytes := ks_host_bytes st - pg_bytes p\<rparr>;
          st = (if pg_tier p = VG_TIER_DEVICE then st\<lparr>ks_device_bytes := ks_device_bytes st - pg_bytes p\<rparr> else st);
          s1 = (if kc_spill (kv_cfg s) \<noteq> None then fst (snd (spill_page s p)) else s)
      in s1\<lparr>kv_pages := take v (kv_pages s) @ drop (Suc v) (kv_pages s),
            kv_stats := st\<lparr>ks_page_evictions := ks_page_evictions st + 1\<rparr>\<rparr>)"

lemma find_victim_less: "find_victim ps = Some v \<Longrightarrow> v < length ps"
proof -
  have "fst (foldl (\<lambda>(victim, age) i. if pg_refs (ps ! i) = 0 \<and> pg_age (ps ! i) < age then (Some i, pg_age (ps ! i)) else (victim, age)) b xs) = Some v
      \<Longrightarrow> v \<in> set xs \<or> fst b = Some v" for b xs
  proof (induction xs arbitrary: b)
    case (Cons x xs)
    from Cons.IH [OF Cons.prems [unfolded foldl_Cons]] show ?case by (auto split: prod.splits if_splits)
  qed simp
  then show "find_victim ps = Some v \<Longrightarrow> v < length ps" unfolding find_victim_def by fastforce
qed

function evict_loop :: "vg_kvstore \<Rightarrow> vg_kvstore" where
  "evict_loop s =
     (if kc_host_budget (kv_cfg s) < ks_host_bytes (kv_stats s) then
        (case find_victim (kv_pages s) of None \<Rightarrow> s | Some v \<Rightarrow> evict_loop (evict_one v s))
      else s)"
  by pat_completeness auto
termination
  by (relation "measure (\<lambda>s. length (kv_pages s))") (auto dest!: find_victim_less simp: evict_one_def Let_def)

declare evict_loop.simps [simp del]

definition evict_pages :: "vg_kvstore \<Rightarrow> vg_kvstore" where
  "evict_pages s = (if kc_host_budget (kv_cfg s) = 0 then s else evict_loop s)"

definition fresh_page :: "u64 \<Rightarrow> u64 \<Rightarrow> vg_tier \<Rightarrow> vg_page" where
  "fresh_page bytes age tier =
     \<lparr>pg_data = Some (replicate (unat bytes) 0), pg_bytes = bytes, pg_refs = 1, pg_age = age, pg_tier = tier,
      pg_spilled = False, pg_spill_id = 0\<rparr>"

text \<open>A full array is replaced by one of twice the size: pointers into the old one die.\<close>

definition grow_pages :: "vg_kvstore \<Rightarrow> vg_kvstore" where
  "grow_pages s =
     (if length (kv_pages s) = kv_page_capacity s then
        s\<lparr>kv_page_capacity := (if kv_page_capacity s \<noteq> 0 then kv_page_capacity s * 2 else 64),
          kv_generation := Suc (kv_generation s)\<rparr>
      else s)"

definition new_page :: "vg_tier \<Rightarrow> vg_kvstore \<Rightarrow> page_ptr option \<times> vg_kvstore" where
  "new_page tier s =
     (let bytes = page_bytes (kv_cfg s)
      in if bytes = 0 then (None, s)
         else
           (let s = evict_pages s
            in if tier = VG_TIER_DEVICE \<and> kc_device_budget (kv_cfg s) \<noteq> 0
                  \<and> kc_device_budget (kv_cfg s) < ks_device_bytes (kv_stats s) + bytes then (None, s)
               else
                 (let s = grow_pages s; st = kv_stats s; clock = kv_clock s + 1
                  in (Some (kv_generation s, length (kv_pages s)),
                      s\<lparr>kv_pages := kv_pages s @ [fresh_page bytes clock tier], kv_clock := clock,
                        kv_stats := st\<lparr>ks_page_allocs := ks_page_allocs st + 1, ks_host_bytes := ks_host_bytes st + bytes,
                          ks_device_bytes := (if tier = VG_TIER_DEVICE then ks_device_bytes st + bytes else ks_device_bytes st)\<rparr>\<rparr>))))"

definition page_retain :: "page_ptr \<Rightarrow> vg_kvstore \<Rightarrow> vg_kvstore option" where
  "page_retain p s = map_option (\<lambda>x. set_page p (x\<lparr>pg_refs := pg_refs x + 1\<rparr>) s) (deref s p)"

definition page_drop :: "page_ptr \<Rightarrow> vg_kvstore \<Rightarrow> vg_kvstore option" where
  "page_drop p s = map_option (\<lambda>x. if pg_refs x \<noteq> 0 then set_page p (x\<lparr>pg_refs := pg_refs x - 1\<rparr>) s else s) (deref s p)"

fun each_page :: "(page_ptr \<Rightarrow> vg_kvstore \<Rightarrow> vg_kvstore option) \<Rightarrow> page_ptr list \<Rightarrow> vg_kvstore \<Rightarrow> vg_kvstore option" where
  "each_page f [] s = Some s"
| "each_page f (p # ps) s = Option.bind (f p s) (each_page f ps)"

section \<open>Opening\<close>

definition vg_kv_open :: "vg_kvconfig option \<Rightarrow> vg_status + vg_kvstore" where
  "vg_kv_open cfg =
     (case cfg of
        None \<Rightarrow> Inl VG_E_INVALID
      | Some c \<Rightarrow>
          (if kc_page_tokens c = 0 \<or> kc_n_layers c = 0 \<or> kc_kv_heads c = 0 \<or> kc_head_dim c = 0 \<or> kc_element_bytes c = 0
           then Inl VG_E_INVALID
           else (let c = (if kc_max_pages c = 0 then c\<lparr>kc_max_pages := 16384\<rparr> else c)
                 in if page_bytes c = 0 then Inl VG_E_RANGE
                    else Inr \<lparr>kv_cfg = c, kv_pages = [], kv_page_capacity = 0, kv_generation = 0, kv_clock = 0, kv_next_spill_id = 0,
                           kv_stats = zero_stats, kv_files = (\<lambda>_. None), kv_seqs = (\<lambda>_. None), kv_next_seq = 0\<rparr>)))"

section \<open>Sequences\<close>

text \<open>Both arrays of a sequence double until they hold \<open>n\<close> entries; \<open>None\<close> past \<^verbatim>\<open>SIZE_MAX / 2\<close>.\<close>

function double_cap :: "nat \<Rightarrow> nat \<Rightarrow> nat option" where
  "double_cap c n = (if c < n then (if (2 ^ 64 - 1) div 2 < c \<or> c = 0 then None else double_cap (c * 2) n) else Some c)"
  by pat_completeness auto
termination
  by (relation "measure (\<lambda>(c, n). n - c)") auto

declare double_cap.simps [simp del]

definition reserve_cap :: "nat \<Rightarrow> nat \<Rightarrow> nat \<Rightarrow> nat option" where
  "reserve_cap start cap n = (if n \<le> cap then Some cap else double_cap (if cap \<noteq> 0 then cap * 2 else start) n)"

definition seq_reserve :: "vg_kvsequence \<Rightarrow> nat \<Rightarrow> vg_kvsequence option" where
  "seq_reserve q n = map_option (\<lambda>c. q\<lparr>sq_capacity := c\<rparr>) (reserve_cap 256 (sq_capacity q) n)"

definition pages_reserve :: "vg_kvsequence \<Rightarrow> nat \<Rightarrow> vg_kvsequence option" where
  "pages_reserve q n = map_option (\<lambda>c. q\<lparr>sq_page_capacity := c\<rparr>) (reserve_cap 16 (sq_page_capacity q) n)"

definition empty_seq :: vg_kvsequence where
  "empty_seq = \<lparr>sq_tokens = [], sq_capacity = 0, sq_pages = [], sq_page_capacity = 0\<rparr>"

definition put_seq :: "nat \<Rightarrow> vg_kvsequence \<Rightarrow> vg_kvstore \<Rightarrow> vg_kvstore" where
  "put_seq i q s = s\<lparr>kv_seqs := (kv_seqs s)(i := Some q)\<rparr>"

definition vg_kv_sequence_init :: "vg_kvstore \<Rightarrow> nat \<times> vg_kvstore" where
  "vg_kv_sequence_init s = (kv_next_seq s, put_seq (kv_next_seq s) empty_seq (s\<lparr>kv_next_seq := Suc (kv_next_seq s)\<rparr>))"

definition vg_kv_sequence_close :: "nat \<Rightarrow> vg_kvstore \<Rightarrow> vg_kvstore option" where
  "vg_kv_sequence_close i s =
     Option.bind (kv_seqs s i) (\<lambda>q.
       map_option (\<lambda>s. s\<lparr>kv_seqs := (kv_seqs s)(i := None)\<rparr>) (each_page page_drop (sq_pages q) s))"

definition vg_kv_sequence_append :: "nat \<Rightarrow> u64 \<Rightarrow> vg_kvstore \<Rightarrow> (vg_status \<times> vg_kvstore) option" where
  "vg_kv_sequence_append i token s =
     Option.bind (kv_seqs s i) (\<lambda>q.
       case seq_reserve q (length (sq_tokens q) + 1) of
         None \<Rightarrow> Some (VG_E_RANGE, s)
       | Some q \<Rightarrow>
           (let pi = length (sq_tokens q) div unat (kc_page_tokens (kv_cfg s))
            in if length (sq_pages q) \<le> pi then
                 (if unat (kc_max_pages (kv_cfg s)) \<le> length (sq_pages q) then Some (VG_E_RANGE, put_seq i q s)
                  else (case pages_reserve q (pi + 1) of
                          None \<Rightarrow> Some (VG_E_RANGE, put_seq i q s)
                        | Some q \<Rightarrow>
                            (case new_page VG_TIER_HOST s of
                               (None, s) \<Rightarrow> Some (VG_E_NOMEM, put_seq i q s)
                             | (Some p, s) \<Rightarrow>
                                 Some (VG_OK, put_seq i (q\<lparr>sq_pages := sq_pages q @ [p], sq_tokens := sq_tokens q @ [token]\<rparr>) s))))
               else Some (VG_OK, put_seq i (q\<lparr>sq_tokens := sq_tokens q @ [token]\<rparr>) s)))"

text \<open>The fork holds the first tokens and shares the pages they are on.\<close>

definition vg_kv_sequence_fork :: "nat \<Rightarrow> nat \<Rightarrow> vg_kvstore \<Rightarrow> (vg_status \<times> nat \<times> vg_kvstore) option" where
  "vg_kv_sequence_fork i prefix s =
     Option.bind (kv_seqs s i) (\<lambda>src.
       if length (sq_tokens src) < prefix then Some (VG_E_INVALID, 0, s)
       else
         (case vg_kv_sequence_init s of
            (j, s1) \<Rightarrow>
              (let pt = unat (kc_page_tokens (kv_cfg s)); np = (prefix + pt - 1) div pt
               in case Option.bind (seq_reserve empty_seq prefix) (\<lambda>q. pages_reserve q np) of
                    None \<Rightarrow> map_option (\<lambda>s2. (VG_E_RANGE, 0, s2)) (vg_kv_sequence_close j s1)
                  | Some q \<Rightarrow>
                      if length (sq_pages src) < np then None
                      else map_option (\<lambda>s2. (VG_OK, j, put_seq j (q\<lparr>sq_tokens := take prefix (sq_tokens src), sq_pages := take np (sq_pages src)\<rparr>) s2))
                             (each_page page_retain (take np (sq_pages src)) s1))))"

definition vg_kv_sequence_length :: "vg_kvstore \<Rightarrow> nat \<Rightarrow> nat" where
  "vg_kv_sequence_length s i = (case kv_seqs s i of None \<Rightarrow> 0 | Some q \<Rightarrow> length (sq_tokens q))"

definition vg_kv_sequence_tokens :: "vg_kvstore \<Rightarrow> nat \<Rightarrow> u64 list option" where
  "vg_kv_sequence_tokens s i = map_option sq_tokens (kv_seqs s i)"

section \<open>Access\<close>

definition layer_bytes :: "vg_kvconfig \<Rightarrow> u64" where
  "layer_bytes c = ucast (kc_kv_heads c) * ucast (kc_head_dim c) * ucast (kc_element_bytes c) * ucast (kc_page_tokens c)"

text \<open>The address handed out is a page with an offset into its data, and the number of bytes.\<close>

definition vg_kv_page_acquire ::
  "nat \<Rightarrow> u32 \<Rightarrow> nat \<Rightarrow> vg_tier \<Rightarrow> vg_kvstore \<Rightarrow> (vg_status \<times> (page_ptr \<times> u64 \<times> u64) option \<times> vg_kvstore) option" where
  "vg_kv_page_acquire i layer token desired s =
     Option.bind (kv_seqs s i) (\<lambda>q.
       if kc_n_layers (kv_cfg s) \<le> layer \<or> length (sq_tokens q) \<le> token then Some (VG_E_INVALID, None, s)
       else
         (let pi = token div unat (kc_page_tokens (kv_cfg s))
          in if length (sq_pages q) \<le> pi then None
             else
               (let p = sq_pages q ! pi
                in Option.bind (deref s p) (\<lambda>x.
                     case fault_page s x of
                       (False, s, x) \<Rightarrow> Some (VG_E_IO, None, set_page p x s)
                     | (True, s, x) \<Rightarrow>
                         (let lb = layer_bytes (kv_cfg s); clock = kv_clock s + 1; st = kv_stats s
                          in Some (VG_OK, Some (p, ucast layer * lb, lb),
                               set_page p (x\<lparr>pg_age := clock, pg_tier := desired\<rparr>)
                                 (s\<lparr>kv_clock := clock, kv_stats := st\<lparr>ks_page_hits := ks_page_hits st + 1\<rparr>\<rparr>)))))))"

end
