(* ===== verification/Radix.thy ===== *)
theory Radix
  imports KVStore
begin

text \<open>
  The radix cache of prefixes (\<^verbatim>\<open>src/kv_cache.c\<close>, second half): a tree whose edges carry runs of tokens and whose
  nodes may hold a snapshot, the number of a sequence of the store.
\<close>

section \<open>The tree\<close>

datatype vg_radix =
  RNode (rn_tokens: "u64 list") (rn_fingerprint: u64) (rn_tainted: bool) (rn_snapshot: "nat option") (rn_child: "vg_radix list")

definition node_new :: "u64 list \<Rightarrow> vg_radix" where
  "node_new ts = RNode ts 0 False None []"

definition vg_radix_open :: vg_radix where
  "vg_radix_open = node_new []"

text \<open>The length of the common prefix.\<close>

fun common :: "u64 list \<Rightarrow> u64 list \<Rightarrow> nat" where
  "common (a # as) (b # bs) = (if a = b then Suc (common as bs) else 0)"
| "common _ _ = 0"

text \<open>The index of the first child whose edge starts with the token.\<close>

fun child_find :: "vg_radix list \<Rightarrow> u64 \<Rightarrow> nat option" where
  "child_find [] t = None"
| "child_find (c # cs) t =
     (if rn_tokens c \<noteq> [] \<and> hd (rn_tokens c) = t then Some 0 else map_option Suc (child_find cs t))"

lemma child_find_Some: "child_find cs t = Some i \<Longrightarrow> i < length cs \<and> rn_tokens (cs ! i) \<noteq> [] \<and> hd (rn_tokens (cs ! i)) = t"
  by (induction cs arbitrary: i) (auto split: if_splits)

lemma common_pos: "xs \<noteq> [] \<Longrightarrow> 0 < common (hd xs # ys) xs"
  by (cases xs) simp_all

lemma descend_shorter: "xs \<noteq> [] \<Longrightarrow> Suc n - common (hd xs # ys) xs < Suc n"
  using common_pos by (simp add: diff_less)

section \<open>Lookup\<close>

text \<open>The descent: the node, the tokens left, their position, the best snapshot so far.\<close>

function radix_walk :: "vg_radix \<Rightarrow> u64 list \<Rightarrow> nat \<Rightarrow> (nat \<times> nat) option \<Rightarrow> (nat \<times> nat) option" where
  "radix_walk n ts pos best =
     (case ts of
        [] \<Rightarrow> best
      | t # _ \<Rightarrow>
          (case child_find (rn_child n) t of
             None \<Rightarrow> best
           | Some i \<Rightarrow>
               (let c = rn_child n ! i; k = common ts (rn_tokens c)
                in if k \<noteq> length (rn_tokens c) then best
                   else radix_walk c (drop k ts) (pos + k)
                     (case rn_snapshot c of Some snap \<Rightarrow> if rn_tainted c then best else Some (pos + k, snap) | None \<Rightarrow> best))))"
  by pat_completeness auto
termination
  by (relation "measure (\<lambda>(n, ts, pos, best). length ts)") (auto dest!: child_find_Some simp: descend_shorter)

declare radix_walk.simps [simp del]

text \<open>The tokens matched and the snapshot, with the statistics of the store.\<close>

definition vg_radix_lookup :: "vg_radix \<Rightarrow> u64 list \<Rightarrow> vg_kvstore \<Rightarrow> nat \<times> nat option \<times> vg_kvstore" where
  "vg_radix_lookup r ts s =
     (let st = kv_stats s; st = st\<lparr>ks_prefix_lookups := ks_prefix_lookups st + 1\<rparr>
      in case radix_walk r ts 0 None of
           None \<Rightarrow> (0, None, s\<lparr>kv_stats := st\<rparr>)
         | Some (matched, snap) \<Rightarrow>
             (matched, Some snap,
              s\<lparr>kv_stats := st\<lparr>ks_prefix_hits := ks_prefix_hits st + 1,
                 ks_prefix_tokens_reused := ks_prefix_tokens_reused st + of_nat matched\<rparr>\<rparr>))"

section \<open>Insertion\<close>

text \<open>The first part of an insertion makes the node for the tokens: it appends a leaf, splits an edge or descends.\<close>

definition split_edge :: "nat \<Rightarrow> vg_radix \<Rightarrow> vg_radix" where
  "split_edge k c =
     RNode (take k (rn_tokens c)) 0 False None
       [RNode (drop k (rn_tokens c)) (rn_fingerprint c) (rn_tainted c) (rn_snapshot c) (rn_child c)]"

definition set_children :: "vg_radix \<Rightarrow> vg_radix list \<Rightarrow> vg_radix" where
  "set_children n cs = RNode (rn_tokens n) (rn_fingerprint n) (rn_tainted n) (rn_snapshot n) cs"

function radix_ensure :: "u64 list \<Rightarrow> vg_radix \<Rightarrow> vg_radix" where
  "radix_ensure ts n =
     (case ts of
        [] \<Rightarrow> n
      | t # _ \<Rightarrow>
          (case child_find (rn_child n) t of
             None \<Rightarrow> set_children n (rn_child n @ [node_new ts])
           | Some i \<Rightarrow>
               (let c = rn_child n ! i; k = common ts (rn_tokens c)
                in if k < length (rn_tokens c) then
                     (let c' = split_edge k c;
                          c' = (if k = length ts then c' else set_children c' (rn_child c' @ [node_new (drop k ts)]))
                      in set_children n ((rn_child n)[i := c']))
                   else set_children n ((rn_child n)[i := radix_ensure (drop k ts) c]))))"
  by pat_completeness auto
termination
  by (relation "measure (\<lambda>(ts, n). length ts)") (auto dest!: child_find_Some simp: descend_shorter)

declare radix_ensure.simps [simp del]

text \<open>The node the tokens spell out, and its replacement.\<close>

function radix_at :: "u64 list \<Rightarrow> vg_radix \<Rightarrow> vg_radix option" where
  "radix_at ts n =
     (case ts of
        [] \<Rightarrow> Some n
      | t # _ \<Rightarrow>
          (case child_find (rn_child n) t of
             None \<Rightarrow> None
           | Some i \<Rightarrow>
               (let c = rn_child n ! i; k = common ts (rn_tokens c)
                in if k = length (rn_tokens c) then radix_at (drop k ts) c else None)))"
  by pat_completeness auto
termination
  by (relation "measure (\<lambda>(ts, n). length ts)") (auto dest!: child_find_Some simp: descend_shorter)

declare radix_at.simps [simp del]

definition set_snapshot :: "nat option \<Rightarrow> u64 \<Rightarrow> bool \<Rightarrow> vg_radix \<Rightarrow> vg_radix" where
  "set_snapshot snap fp tainted n = RNode (rn_tokens n) fp tainted snap (rn_child n)"

function radix_modify :: "(vg_radix \<Rightarrow> vg_radix) \<Rightarrow> u64 list \<Rightarrow> vg_radix \<Rightarrow> vg_radix" where
  "radix_modify f ts n =
     (case ts of
        [] \<Rightarrow> f n
      | t # _ \<Rightarrow>
          (case child_find (rn_child n) t of
             None \<Rightarrow> n
           | Some i \<Rightarrow>
               (let c = rn_child n ! i; k = common ts (rn_tokens c)
                in if k = length (rn_tokens c) then set_children n ((rn_child n)[i := radix_modify f (drop k ts) c]) else n)))"
  by pat_completeness auto
termination
  by (relation "measure (\<lambda>(f, ts, n). length ts)") (auto dest!: child_find_Some simp: descend_shorter)

declare radix_modify.simps [simp del]

text \<open>The old snapshot of the node is closed before the sequence is forked; when the fork fails it stays in the node.\<close>

definition vg_radix_insert ::
  "vg_radix \<Rightarrow> nat \<Rightarrow> nat \<Rightarrow> u64 \<Rightarrow> bool \<Rightarrow> vg_kvstore \<Rightarrow> (vg_status \<times> vg_radix \<times> vg_kvstore) option" where
  "vg_radix_insert r seq token_count fp tainted s =
     Option.bind (kv_seqs s seq) (\<lambda>q.
       if length (sq_tokens q) < token_count then Some (VG_E_INVALID, r, s)
       else
         (let ts = take token_count (sq_tokens q); r = radix_ensure ts r
          in Option.bind (radix_at ts r) (\<lambda>n.
               Option.bind (case rn_snapshot n of None \<Rightarrow> Some s | Some old \<Rightarrow> vg_kv_sequence_close old s) (\<lambda>s.
                 map_option (\<lambda>(st, snap, s).
                     if st = VG_OK then (VG_OK, radix_modify (set_snapshot (Some snap) fp tainted) ts r, s) else (st, r, s))
                   (vg_kv_sequence_fork seq token_count s)))))"

section \<open>Invalidation and closing\<close>

fun radix_snapshots :: "vg_radix \<Rightarrow> nat list" where
  "radix_snapshots (RNode ts fp tainted snap cs) =
     (case snap of None \<Rightarrow> [] | Some i \<Rightarrow> [i]) @ concat (map radix_snapshots cs)"

fun clear_snapshots :: "vg_radix \<Rightarrow> vg_radix" where
  "clear_snapshots (RNode ts fp tainted snap cs) = RNode ts fp tainted None (map clear_snapshots cs)"

fun close_all :: "nat list \<Rightarrow> vg_kvstore \<Rightarrow> vg_kvstore option" where
  "close_all [] s = Some s"
| "close_all (i # is) s = Option.bind (vg_kv_sequence_close i s) (close_all is)"

text \<open>The two identities are not looked at.\<close>

definition vg_radix_invalidate :: "u64 \<Rightarrow> u64 \<Rightarrow> vg_radix \<Rightarrow> vg_kvstore \<Rightarrow> (vg_radix \<times> vg_kvstore) option" where
  "vg_radix_invalidate model_identity adapter_identity r s =
     map_option (\<lambda>s. (clear_snapshots r, s)) (close_all (radix_snapshots r) s)"

text \<open>Freeing a node closes the snapshots below it first.\<close>

fun radix_snapshots_post :: "vg_radix \<Rightarrow> nat list" where
  "radix_snapshots_post (RNode ts fp tainted snap cs) =
     concat (map radix_snapshots_post cs) @ (case snap of None \<Rightarrow> [] | Some i \<Rightarrow> [i])"

definition vg_radix_close :: "vg_radix \<Rightarrow> vg_kvstore \<Rightarrow> vg_kvstore option" where
  "vg_radix_close r s = close_all (radix_snapshots_post r) s"

end
