(* ===== verification/KV_Props.thy ===== *)
theory KV_Props
  imports Radix "HOL-Library.Sublist"
begin

text \<open>
  Properties of the key/value store: the radix tree is a map from prefixes and a lookup finds the longest one; the
  reference counts of the pages are exact and accesses stay inside a page, as long as the page array is not moved.
\<close>

section \<open>Descending\<close>

lemma common_le: "common xs ys \<le> length xs" "common xs ys \<le> length ys"
  by (induction xs ys rule: common.induct) auto

lemma common_prefix: "common ts xs = length xs \<longleftrightarrow> prefix xs ts"
  by (induction ts xs rule: common.induct) auto

lemma take_common: "take (common xs ys) xs = take (common xs ys) ys"
  by (induction xs ys rule: common.induct) auto

lemma common_maximal: "common xs ys < length xs \<Longrightarrow> common xs ys < length ys \<Longrightarrow> xs ! common xs ys \<noteq> ys ! common xs ys"
  by (induction xs ys rule: common.induct) (auto split: if_splits)

lemma child_find_None: "child_find cs t = None \<longleftrightarrow> (\<forall>c \<in> set cs. rn_tokens c = [] \<or> hd (rn_tokens c) \<noteq> t)"
  by (induction cs) auto

lemma child_find_append: "child_find (cs @ ds) t = (case child_find cs t of Some i \<Rightarrow> Some i | None \<Rightarrow> map_option ((+) (length cs)) (child_find ds t))"
  by (induction cs; cases "child_find ds t") (auto split: option.splits)

lemma child_find_update:
  assumes "i < length cs" and "rn_tokens (cs ! i) \<noteq> []" and "rn_tokens c \<noteq> []" and "hd (rn_tokens c) = hd (rn_tokens (cs ! i))"
  shows "child_find (cs[i := c]) t = child_find cs t"
  using assms by (induction cs arbitrary: i) (auto simp: nth_Cons split: nat.splits)

text \<open>What a tree says about a token list.\<close>

definition entry_of :: "vg_radix \<Rightarrow> (nat \<times> u64 \<times> bool) option" where
  "entry_of n = map_option (\<lambda>s. (s, rn_fingerprint n, rn_tainted n)) (rn_snapshot n)"

definition radix_get :: "u64 list \<Rightarrow> vg_radix \<Rightarrow> (nat \<times> u64 \<times> bool) option" where
  "radix_get ts n = Option.bind (radix_at ts n) entry_of"

lemma radix_get_Nil: "radix_get [] n = entry_of n"
  by (simp add: radix_get_def radix_at.simps [of "[]"])

lemma radix_get_Cons:
  "radix_get (t # ts) n =
     (case child_find (rn_child n) t of
        None \<Rightarrow> None
      | Some i \<Rightarrow> (let c = rn_child n ! i in
          if prefix (rn_tokens c) (t # ts) then radix_get (drop (length (rn_tokens c)) (t # ts)) c else None))"
  by (cases "child_find (rn_child n) t") (auto simp: radix_get_def radix_at.simps [of "t # ts"] Let_def simp flip: common_prefix)

lemma radix_get_child: "rn_child n = rn_child m \<Longrightarrow> ts \<noteq> [] \<Longrightarrow> radix_get ts n = radix_get ts m"
  by (cases ts) (auto simp: radix_get_Cons split: option.split)

lemma radix_get_node_new: "radix_get ts (node_new xs) = None"
  by (cases ts) (simp_all add: radix_get_Nil radix_get_Cons node_new_def entry_of_def)

lemma set_children_simps [simp]: "rn_tokens (set_children n cs) = rn_tokens n" "rn_child (set_children n cs) = cs"
  "entry_of (set_children n cs) = entry_of n" "rn_snapshot (set_children n cs) = rn_snapshot n" "rn_tainted (set_children n cs) = rn_tainted n"
  by (simp_all add: set_children_def entry_of_def)

lemma node_new_simps [simp]: "rn_tokens (node_new ts) = ts" "rn_child (node_new ts) = []" "rn_snapshot (node_new ts) = None"
  by (simp_all add: node_new_def)

section \<open>Making the node\<close>

text \<open>Replacing a child by one that says the same leaves the tree saying the same.\<close>

lemma radix_get_replace:
  assumes "child_find (rn_child n) t = Some i" and "rn_tokens c \<noteq> []" and "hd (rn_tokens c) = t"
    and same: "\<And>us. (if prefix (rn_tokens c) (t # us) then radix_get (drop (length (rn_tokens c)) (t # us)) c else None)
      = (let d = rn_child n ! i in if prefix (rn_tokens d) (t # us) then radix_get (drop (length (rn_tokens d)) (t # us)) d else None)"
  shows "radix_get us (set_children n ((rn_child n)[i := c])) = radix_get us n"
proof (cases us)
  case (Cons u us')
  note cf = child_find_Some [OF assms(1)]
  have f: "child_find ((rn_child n)[i := c]) u = child_find (rn_child n) u"
    using cf assms(2,3) by (intro child_find_update) auto
  show ?thesis
  proof (cases "u = t")
    case True
    then show ?thesis using Cons f assms(1) same [of us'] cf by (simp add: radix_get_Cons Let_def)
  next
    case False
    have "j \<noteq> i" if "child_find (rn_child n) u = Some j" for j using child_find_Some [OF that] cf False by auto
    then show ?thesis using Cons f by (auto simp: radix_get_Cons Let_def split: option.split)
  qed
qed (simp add: radix_get_Nil)

lemma split_edge_get:
  assumes "0 < k" and "k < length (rn_tokens c)" and "L = [] \<or> (\<exists>xs. L = [node_new xs] \<and> xs \<noteq> [] \<and> hd xs \<noteq> rn_tokens c ! k)"
  defines "d \<equiv> set_children (split_edge k c) (rn_child (split_edge k c) @ L)"
  shows "(if prefix (rn_tokens d) us then radix_get (drop (length (rn_tokens d)) us) d else None)
    = (if prefix (rn_tokens c) us then radix_get (drop (length (rn_tokens c)) us) c else None)"
proof -
  define A where "A = take k (rn_tokens c)"
  define B where "B = drop k (rn_tokens c)"
  define tail where "tail = RNode B (rn_fingerprint c) (rn_tainted c) (rn_snapshot c) (rn_child c)"
  have AB: "rn_tokens c = A @ B" "length A = k" "B \<noteq> []" "hd B = rn_tokens c ! k"
    using assms(2) by (simp_all add: A_def B_def hd_drop_conv_nth)
  have d: "rn_tokens d = A" "rn_child d = tail # L" "entry_of d = None"
    by (simp_all add: d_def split_edge_def A_def B_def tail_def entry_of_def)
  have tail: "rn_tokens tail = B" "rn_child tail = rn_child c" "entry_of tail = entry_of c" by (simp_all add: tail_def entry_of_def)
  have tail_get: "radix_get xs tail = radix_get xs c" for xs
    by (cases xs) (auto simp: radix_get_Nil tail radix_get_Cons split: option.split)
  have leaf: "radix_get ys (L ! j) = None" if "j < length L" for j ys
    using assms(3) that by (auto simp: radix_get_node_new)
  show ?thesis
  proof (cases "prefix A us")
    case False
    then show ?thesis using AB d by (auto simp: prefix_def)
  next
    case True
    then obtain vs where us: "us = A @ vs" by (auto simp: prefix_def)
    show ?thesis
    proof (cases vs)
      case Nil
      then show ?thesis using us d AB by (simp add: radix_get_Nil)
    next
      case (Cons v vs')
      have rest: "child_find L v = Some j \<Longrightarrow> (let c = L ! j in if prefix (rn_tokens c) vs then radix_get (drop (length (rn_tokens c)) vs) c else None) = None" for j
        using child_find_Some [of L v j] leaf by (auto simp: Let_def)
      have "radix_get vs d = (if prefix B vs then radix_get (drop (length B) vs) c else None)"
      proof (cases "hd B = v")
        case True
        then show ?thesis using Cons d tail tail_get AB(3) by (simp add: radix_get_Cons)
      next
        case False
        then have "\<not> prefix B vs" using Cons AB(3) by (cases B) auto
        moreover have "radix_get vs d = None"
          using False Cons d tail AB(3) rest by (auto simp: radix_get_Cons split: option.split)
        ultimately show ?thesis by simp
      qed
      then show ?thesis using us d AB by simp
    qed
  qed
qed

lemma radix_ensure_tokens: "rn_tokens (radix_ensure ts n) = rn_tokens n"
  by (subst radix_ensure.simps) (auto simp: Let_def split: list.split option.split)

lemma radix_ensure_entry: "entry_of (radix_ensure ts n) = entry_of n"
  by (subst radix_ensure.simps) (auto simp: Let_def split: list.split option.split)

lemma radix_ensure_get: "radix_get us (radix_ensure ts n) = radix_get us n"
proof (induction ts n arbitrary: us rule: radix_ensure.induct)
  case (1 ts n)
  show ?case
  proof (cases ts)
    case (Cons t ts')
    show ?thesis
    proof (cases "child_find (rn_child n) t")
      case None
      have "radix_get us (set_children n (rn_child n @ [node_new ts])) = radix_get us n"
        by (cases us) (auto simp: radix_get_Nil radix_get_Cons child_find_append radix_get_node_new nth_append Let_def
            dest: child_find_Some split: option.splits)
      then show ?thesis using Cons None by (simp add: radix_ensure.simps [of "t # ts'"])
    next
      case (Some i)
      note cf = child_find_Some [OF Some]
      define c where "c = rn_child n ! i"
      define k where "k = common ts (rn_tokens c)"
      have k0: "0 < k" using cf common_pos [of "rn_tokens c" ts'] Cons by (simp add: k_def c_def)
      show ?thesis
      proof (cases "k < length (rn_tokens c)")
        case True
        define L where "L = (if k = length ts then [] else [node_new (drop k ts)])"
        have kl: "k \<le> length ts" by (simp add: k_def common_le)
        have L: "L = [] \<or> (\<exists>xs. L = [node_new xs] \<and> xs \<noteq> [] \<and> hd xs \<noteq> rn_tokens c ! k)"
          using True kl common_maximal [of ts "rn_tokens c"] by (auto simp: L_def k_def hd_drop_conv_nth)
        let ?d = "set_children (split_edge k c) (rn_child (split_edge k c) @ L)"
        have e: "radix_ensure ts n = set_children n ((rn_child n)[i := ?d])"
          using Cons Some True k_def c_def
          by (simp add: radix_ensure.simps [of "t # ts'"] L_def Let_def set_children_def split_edge_def)
        have "rn_tokens ?d = take k (rn_tokens c)" by (simp add: split_edge_def)
        then have "rn_tokens ?d \<noteq> []" "hd (rn_tokens ?d) = t" using k0 cf c_def by auto
        then show ?thesis unfolding e
          using split_edge_get [OF k0 True L] by (intro radix_get_replace [OF Some]) (simp_all add: Let_def c_def)
      next
        case False
        have IH: "radix_get us (radix_ensure (drop k ts) (rn_child n ! i)) = radix_get us (rn_child n ! i)" for us
          using "1" Cons Some False by (simp add: k_def c_def)
        have e: "radix_ensure ts n = set_children n ((rn_child n)[i := radix_ensure (drop k ts) c])"
          using Cons Some False k_def c_def by (simp add: radix_ensure.simps [of "t # ts'"] Let_def)
        show ?thesis unfolding e
          using cf c_def by (intro radix_get_replace [OF Some]) (simp_all add: radix_ensure_tokens IH Let_def)
      qed
    qed
  qed (simp add: radix_ensure.simps [of "[]"])
qed

lemma radix_at_Cons:
  "radix_at (t # ts) n =
     (case child_find (rn_child n) t of
        None \<Rightarrow> None
      | Some i \<Rightarrow> (let c = rn_child n ! i in
          if prefix (rn_tokens c) (t # ts) then radix_at (drop (length (rn_tokens c)) (t # ts)) c else None))"
  by (cases "child_find (rn_child n) t") (auto simp: radix_at.simps [of "t # ts"] Let_def simp flip: common_prefix)

lemma radix_at_Nil [simp]: "radix_at [] n = Some n"
  by (simp add: radix_at.simps [of "[]"])

lemma radix_at_node_new: "ts \<noteq> [] \<Longrightarrow> radix_at ts (set_children n [node_new ts]) = Some (node_new ts)"
  by (cases ts) (simp_all add: radix_at_Cons)

lemma radix_ensure_at: "radix_at ts (radix_ensure ts n) \<noteq> None"
proof (induction ts n rule: radix_ensure.induct)
  case (1 ts n)
  show ?case
  proof (cases ts)
    case (Cons t ts')
    show ?thesis
    proof (cases "child_find (rn_child n) t")
      case None
      have "radix_ensure ts n = set_children n (rn_child n @ [node_new ts])"
        using Cons None by (simp add: radix_ensure.simps [of "t # ts'"])
      then show ?thesis using Cons None by (simp add: radix_at_Cons child_find_append nth_append)
    next
      case (Some i)
      note cf = child_find_Some [OF Some]
      define c where "c = rn_child n ! i"
      define k where "k = common ts (rn_tokens c)"
      have k0: "0 < k" using cf common_pos [of "rn_tokens c" ts'] Cons by (simp add: k_def c_def)
      have descend: "radix_at ts (set_children n ((rn_child n)[i := d])) =
          (if prefix (rn_tokens d) ts then radix_at (drop (length (rn_tokens d)) ts) d else None)"
        if "rn_tokens d \<noteq> []" "hd (rn_tokens d) = t" for d
        using Cons Some cf that child_find_update [of i "rn_child n" d t] by (simp add: radix_at_Cons Let_def)
      show ?thesis
      proof (cases "k < length (rn_tokens c)")
        case True
        define d where "d = (if k = length ts then split_edge k c else set_children (split_edge k c) (rn_child (split_edge k c) @ [node_new (drop k ts)]))"
        have e: "radix_ensure ts n = set_children n ((rn_child n)[i := d])"
          using Cons Some True k_def c_def by (simp add: radix_ensure.simps [of "t # ts'"] d_def Let_def)
        have dt: "rn_tokens d = take k (rn_tokens c)" by (simp add: d_def split_edge_def)
        have kl: "k \<le> length ts" by (simp add: k_def common_le)
        have tk: "take k (rn_tokens c) = take k ts" unfolding k_def by (rule take_common [symmetric])
        have len: "length (rn_tokens d) = k" using True dt by simp
        have "rn_tokens d \<noteq> []" "hd (rn_tokens d) = t" using k0 cf dt c_def by auto
        moreover have "prefix (rn_tokens d) ts" unfolding dt tk by (rule take_is_prefix)
        moreover have "radix_at (drop k ts) d \<noteq> None"
        proof (cases "k = length ts")
          case False
          then have lt: "k < length ts" using kl by simp
          then have ne: "drop k ts \<noteq> []" by simp
          have "hd (drop k (rn_tokens c)) \<noteq> hd (drop k ts)"
            using True lt common_maximal [of ts "rn_tokens c"] by (simp add: k_def hd_drop_conv_nth)
          then show ?thesis
            using False ne True by (cases "drop k ts") (simp_all add: d_def split_edge_def radix_at_Cons)
        qed simp
        ultimately show ?thesis unfolding e using descend len by simp
      next
        case False
        have IH: "radix_at (drop k ts) (radix_ensure (drop k ts) c) \<noteq> None" using "1" Cons Some False by (simp add: k_def c_def)
        have e: "radix_ensure ts n = set_children n ((rn_child n)[i := radix_ensure (drop k ts) c])"
          using Cons Some False k_def c_def by (simp add: radix_ensure.simps [of "t # ts'"] Let_def)
        have kc: "k = length (rn_tokens c)" using False common_le(2) [of ts "rn_tokens c"] by (simp add: k_def)
        then have "prefix (rn_tokens c) ts" by (simp add: k_def common_prefix)
        then show ?thesis unfolding e using descend [of "radix_ensure (drop k ts) c"] cf IH kc c_def by (simp add: radix_ensure_tokens)
      qed
    qed
  qed (simp add: radix_ensure.simps [of "[]"])
qed

lemma set_snapshot_simps [simp]: "rn_tokens (set_snapshot s fp ta n) = rn_tokens n" "rn_child (set_snapshot s fp ta n) = rn_child n"
  "entry_of (set_snapshot (Some i) fp ta n) = Some (i, fp, ta)"
  by (simp_all add: set_snapshot_def entry_of_def)

lemma radix_modify_tokens: "rn_tokens (radix_modify (set_snapshot s fp ta) ts n) = rn_tokens n"
  by (subst radix_modify.simps) (auto simp: Let_def split: list.split option.split)

lemma drop_prefix_eq: "prefix xs us \<Longrightarrow> prefix xs ts \<Longrightarrow> drop (length xs) us = drop (length xs) ts \<longleftrightarrow> us = ts"
  by (auto simp: prefix_def)

lemma radix_modify_get:
  "radix_at ts n \<noteq> None \<Longrightarrow> radix_get us (radix_modify (set_snapshot (Some s) fp ta) ts n) = (if us = ts then Some (s, fp, ta) else radix_get us n)"
proof (induction "set_snapshot (Some s) fp ta" ts n arbitrary: us rule: radix_modify.induct)
  case (1 ts n)
  let ?f = "set_snapshot (Some s) fp ta"
  show ?case
  proof (cases ts)
    case Nil
    then show ?thesis
      using radix_get_child [of "?f n" n us] by (cases us) (simp_all add: radix_modify.simps [of _ "[]"] radix_get_Nil)
  next
    case (Cons t ts')
    obtain i where i: "child_find (rn_child n) t = Some i" using "1.prems" Cons by (cases "child_find (rn_child n) t") (auto simp: radix_at_Cons)
    note cf = child_find_Some [OF i]
    define c where "c = rn_child n ! i"
    define k where "k = length (rn_tokens c)"
    have pf: "prefix (rn_tokens c) ts" and at: "radix_at (drop k ts) c \<noteq> None"
      using "1.prems" Cons i by (auto simp: radix_at_Cons Let_def c_def k_def split: if_splits)
    have ck: "common ts (rn_tokens c) = length (rn_tokens c)" using pf by (simp add: common_prefix)
    let ?m = "radix_modify ?f (drop k ts) c"
    have e: "radix_modify ?f ts n = set_children n ((rn_child n)[i := ?m])"
      using Cons i ck by (simp add: radix_modify.simps [of _ "t # ts'"] c_def k_def Let_def)
    have IH: "radix_get vs ?m = (if vs = drop k ts then Some (s, fp, ta) else radix_get vs c)" for vs
      using "1.hyps" [OF Cons i c_def refl] ck at Cons by (simp add: k_def)
    have f: "child_find ((rn_child n)[i := ?m]) u = child_find (rn_child n) u" for u
      using cf c_def by (intro child_find_update) (simp_all add: radix_modify_tokens)
    show ?thesis
    proof (cases us)
      case Nil
      then show ?thesis using Cons e by (simp add: radix_get_Nil)
    next
      case (Cons u us')
      show ?thesis
      proof (cases "u = t")
        case True
        have "radix_get us (radix_modify ?f ts n) = (if prefix (rn_tokens c) us then radix_get (drop k us) ?m else None)"
          unfolding e using Cons True f i cf by (simp add: radix_get_Cons radix_modify_tokens Let_def k_def)
        moreover have "radix_get us n = (if prefix (rn_tokens c) us then radix_get (drop k us) c else None)"
          using Cons True i by (simp add: radix_get_Cons Let_def c_def k_def)
        ultimately show ?thesis using IH pf drop_prefix_eq [of "rn_tokens c" us ts] by (auto simp: k_def)
      next
        case False
        then have "us \<noteq> ts" using Cons \<open>ts = t # ts'\<close> by simp
        have "j \<noteq> i" if "child_find (rn_child n) u = Some j" for j using child_find_Some [OF that] cf False by auto
        then show ?thesis unfolding e using Cons f \<open>us \<noteq> ts\<close> by (auto simp: radix_get_Cons Let_def split: option.split)
      qed
    qed
  qed
qed

section \<open>Lookup\<close>

text \<open>The snapshot usable for exactly these tokens.\<close>

definition clean_at :: "u64 list \<Rightarrow> vg_radix \<Rightarrow> nat option" where
  "clean_at ts n = (case radix_get ts n of Some (s, fp, ta) \<Rightarrow> (if ta then None else Some s) | None \<Rightarrow> None)"

definition longest_clean :: "vg_radix \<Rightarrow> u64 list \<Rightarrow> nat \<Rightarrow> nat \<Rightarrow> bool" where
  "longest_clean n ts p s \<longleftrightarrow> 0 < p \<and> p \<le> length ts \<and> clean_at (take p ts) n = Some s
     \<and> (\<forall>q. p < q \<and> q \<le> length ts \<longrightarrow> clean_at (take q ts) n = None)"

definition no_clean :: "vg_radix \<Rightarrow> u64 list \<Rightarrow> bool" where
  "no_clean n ts \<longleftrightarrow> (\<forall>q. 0 < q \<and> q \<le> length ts \<longrightarrow> clean_at (take q ts) n = None)"

lemma clean_at_Cons:
  "clean_at (t # ts) n =
     (case child_find (rn_child n) t of
        None \<Rightarrow> None
      | Some i \<Rightarrow> (let c = rn_child n ! i in
          if prefix (rn_tokens c) (t # ts) then clean_at (drop (length (rn_tokens c)) (t # ts)) c else None))"
  by (auto simp: clean_at_def radix_get_Cons Let_def split: option.split)

lemma clean_at_Nil: "clean_at [] c = (case rn_snapshot c of Some s \<Rightarrow> if rn_tainted c then None else Some s | None \<Rightarrow> None)"
  by (cases "rn_snapshot c") (simp_all add: clean_at_def radix_get_Nil entry_of_def)

lemma radix_walk_longest:
  "(\<exists>p s. longest_clean n ts p s \<and> radix_walk n ts pos best = Some (pos + p, s)) \<or> (no_clean n ts \<and> radix_walk n ts pos best = best)"
proof (induction n ts pos best rule: radix_walk.induct)
  case (1 n ts pos best)
  show ?case
  proof (cases ts)
    case Nil
    then show ?thesis by (simp add: radix_walk.simps [of _ "[]"] no_clean_def)
  next
    case (Cons t ts')
    have step: "clean_at (take q ts) n = (case child_find (rn_child n) t of None \<Rightarrow> None
        | Some i \<Rightarrow> (let c = rn_child n ! i in if prefix (rn_tokens c) (take q ts) then clean_at (drop (length (rn_tokens c)) (take q ts)) c else None))"
      if "0 < q" for q
    proof -
      have tq: "take q ts = t # take (q - 1) ts'" using that Cons by (cases q) simp_all
      show ?thesis unfolding tq by (rule clean_at_Cons)
    qed
    show ?thesis
    proof (cases "child_find (rn_child n) t")
      case None
      then show ?thesis using Cons step by (simp add: radix_walk.simps [of _ "t # ts'"] no_clean_def)
    next
      case (Some i)
      note cf = child_find_Some [OF Some]
      define c where "c = rn_child n ! i"
      define k where "k = length (rn_tokens c)"
      have k0: "0 < k" using cf by (simp add: k_def c_def)
      have pre: "prefix (rn_tokens c) (take q ts) \<longleftrightarrow> prefix (rn_tokens c) ts \<and> k \<le> q" if "q \<le> length ts" for q
        using that prefix_length_le [of "rn_tokens c" "take q ts"] take_is_prefix [of q ts]
        by (auto simp: k_def intro: prefix_order.trans prefix_length_prefix)
      show ?thesis
      proof (cases "prefix (rn_tokens c) ts")
        case False
        then have "radix_walk n ts pos best = best"
          using Cons Some common_prefix [of ts "rn_tokens c"] by (simp add: radix_walk.simps [of _ "t # ts'"] Let_def c_def)
        moreover have "no_clean n ts" using step pre False Some by (auto simp: no_clean_def Let_def c_def)
        ultimately show ?thesis by blast
      next
        case True
        define b where "b = (case clean_at [] c of Some s \<Rightarrow> Some (pos + k, s) | None \<Rightarrow> best)"
        have ck: "common ts (rn_tokens c) = length (rn_tokens c)" using True by (simp add: common_prefix)
        have w: "radix_walk n ts pos best = radix_walk c (drop k ts) (pos + k) b"
          using Cons Some ck by (simp add: radix_walk.simps [of _ "t # ts'"] Let_def c_def k_def b_def clean_at_Nil split: option.split)
        have kl: "k \<le> length ts" using True by (simp add: k_def prefix_length_le)
        have cl: "clean_at (take q ts) n = (if k \<le> q then clean_at (take (q - k) (drop k ts)) c else None)" if "0 < q" "q \<le> length ts" for q
          using step [OF that(1)] pre [OF that(2)] Some True by (simp add: Let_def c_def k_def drop_take)
        have IH: "(\<exists>p s. longest_clean c (drop k ts) p s \<and> radix_walk c (drop k ts) (pos + k) b = Some (pos + k + p, s))
            \<or> (no_clean c (drop k ts) \<and> radix_walk c (drop k ts) (pos + k) b = b)"
        proof -
          have bb: "(case rn_snapshot c of Some snap \<Rightarrow> if rn_tainted c then best else Some (pos + k, snap) | None \<Rightarrow> best) = b"
            by (cases "rn_snapshot c") (simp_all add: b_def clean_at_Nil)
          have ckk: "common ts (rn_tokens c) = k" using ck by (simp add: k_def)
          show ?thesis using "1" [OF Cons Some c_def refl, unfolded ckk bb] k_def by simp
        qed
        show ?thesis
        proof (cases "\<exists>p s. longest_clean c (drop k ts) p s")
          case True
          then obtain p s where ps: "longest_clean c (drop k ts) p s" by blast
          then have "clean_at (take p (drop k ts)) c \<noteq> None" "0 < p" "p \<le> length (drop k ts)" by (simp_all add: longest_clean_def)
          then have "\<not> no_clean c (drop k ts)" by (auto simp: no_clean_def)
          then obtain p s where ps: "longest_clean c (drop k ts) p s" and w2: "radix_walk n ts pos best = Some (pos + (k + p), s)"
            using IH w by (auto simp: add.assoc)
          have "longest_clean n ts (k + p) s"
            unfolding longest_clean_def
          proof (intro conjI allI impI)
            fix q assume q: "k + p < q \<and> q \<le> length ts"
            then have "p < q - k \<and> q - k \<le> length (drop k ts)" by auto
            then have "clean_at (take (q - k) (drop k ts)) c = None" using ps unfolding longest_clean_def by blast
            then show "clean_at (take q ts) n = None" using cl [of q] q by auto
          qed (use ps kl cl [of "k + p"] k0 in \<open>auto simp: longest_clean_def\<close>)
          then show ?thesis using w2 by blast
        next
          case False
          then have nc: "no_clean c (drop k ts)" and w2: "radix_walk n ts pos best = b" using IH w by auto
          have above: "clean_at (take q ts) n = None" if "k < q" "q \<le> length ts" for q
            using cl [of q] nc that k0 by (simp add: no_clean_def)
          have at_k: "clean_at (take k ts) n = clean_at [] c" using cl [of k] k0 kl by simp
          show ?thesis
          proof (cases "clean_at [] c")
            case None
            have "clean_at (take q ts) n = None" if "0 < q" "q \<le> length ts" for q
              using that above [of q] cl [of q] at_k None by (cases "q = k") (auto simp: not_less_iff_gr_or_eq)
            then show ?thesis using w2 None by (simp add: no_clean_def b_def)
          next
            case (Some s)
            then have "longest_clean n ts k s" using above at_k k0 kl by (simp add: longest_clean_def)
            then show ?thesis using w2 Some by (auto simp: b_def)
          qed
        qed
      qed
    qed
  qed
qed

section \<open>The cache as a map from prefixes\<close>

text \<open>What the users of a prefix cache rely on: an entry put is found, and a lookup hits the longest prefix with an entry.\<close>

locale prefix_cache =
  fixes get :: "'t \<Rightarrow> 'k list \<Rightarrow> 'v option"
    and put :: "'k list \<Rightarrow> 'v \<Rightarrow> 't \<Rightarrow> 't"
    and hit :: "'t \<Rightarrow> 'k list \<Rightarrow> (nat \<times> 'v) option"
  assumes get_put: "get (put k v t) k' = (if k' = k then Some v else get t k')"
    and hit_Some: "hit t k = Some (n, v) \<Longrightarrow> 0 < n \<and> n \<le> length k \<and> get t (take n k) = Some v
      \<and> (\<forall>m. n < m \<and> m \<le> length k \<longrightarrow> get t (take m k) = None)"
    and hit_None: "hit t k = None \<Longrightarrow> 0 < m \<Longrightarrow> m \<le> length k \<Longrightarrow> get t (take m k) = None"
begin

lemma hit_after_put:
  assumes "k \<noteq> []"
  shows "\<exists>n v'. hit (put k v t) (k @ ks) = Some (n, v') \<and> length k \<le> n \<and> (n = length k \<longrightarrow> v' = v)"
proof -
  have g: "get (put k v t) (take (length k) (k @ ks)) = Some v" by (simp add: get_put)
  obtain n v' where h: "hit (put k v t) (k @ ks) = Some (n, v')"
  proof (cases "hit (put k v t) (k @ ks)")
    case None
    then show ?thesis using g hit_None [OF None, of "length k"] assms by simp
  qed auto
  note hs = hit_Some [OF h]
  have "length k \<le> n" using hs g by (metis length_append le_add1 not_le_imp_less option.distinct(1))
  then show ?thesis using h hs g by auto
qed

lemma hit_unchanged:
  assumes "\<And>m. 0 < m \<Longrightarrow> m \<le> length ks \<Longrightarrow> take m ks \<noteq> k" and "hit t ks = Some (n, v')"
  shows "\<exists>v''. hit (put k v t) ks = Some (n, v'')"
proof -
  have same: "get (put k v t) (take m ks) = get t (take m ks)" if "0 < m" "m \<le> length ks" for m
    using assms(1) [OF that] by (simp add: get_put)
  note h = hit_Some [OF assms(2)]
  show ?thesis
  proof (cases "hit (put k v t) ks")
    case None
    then show ?thesis using hit_None [of "put k v t" ks n] same [of n] h by auto
  next
    case (Some a)
    obtain m v'' where a: "a = (m, v'')" by (cases a)
    note h2 = hit_Some [OF Some [unfolded a]]
    have "m = n"
    proof (rule antisym)
      show "m \<le> n" using h h2 same [of m] by (metis not_le_imp_less option.distinct(1))
      show "n \<le> m" using h h2 same [of n] by (metis not_le_imp_less option.distinct(1))
    qed
    then show ?thesis using Some a by simp
  qed
qed

end

definition radix_put :: "u64 \<Rightarrow> u64 list \<Rightarrow> nat \<Rightarrow> vg_radix \<Rightarrow> vg_radix" where
  "radix_put fp ts i r = radix_modify (set_snapshot (Some i) fp False) ts (radix_ensure ts r)"

lemma radix_put_get: "radix_get us (radix_modify (set_snapshot (Some i) fp ta) ts (radix_ensure ts r))
    = (if us = ts then Some (i, fp, ta) else radix_get us r)"
  by (simp add: radix_modify_get radix_ensure_at radix_ensure_get)

interpretation rc: prefix_cache "\<lambda>r ts. clean_at ts r" "radix_put fp" "\<lambda>r ts. radix_walk r ts 0 None" for fp
proof (unfold_locales, goal_cases)
  case (1 k v t k')
  then show ?case by (simp add: clean_at_def radix_put_def radix_put_get)
next
  case (2 t k n v)
  have "\<exists>p s. longest_clean t k p s \<and> radix_walk t k 0 None = Some (0 + p, s)"
    using 2 radix_walk_longest [of t k 0 None] by auto
  then show ?case using 2 by (auto simp: longest_clean_def)
next
  case (3 t k m)
  then have "no_clean t k" using radix_walk_longest [of t k 0 None] by auto
  then show ?case using 3 by (simp add: no_clean_def)
qed

text \<open>C23: A lookup in the radix cache matches the longest prefix of the tokens that has an untainted snapshot, and returns
  that snapshot; it matches nothing exactly when no prefix has one. The tree's edges do not show.\<close>

theorem radix_lookup_longest:
  "case vg_radix_lookup r ts s of
     (matched, Some snap, _) \<Rightarrow> longest_clean r ts matched snap
   | (matched, None, _) \<Rightarrow> matched = 0 \<and> no_clean r ts"
  using radix_walk_longest [of r ts 0 None]
  by (auto simp: vg_radix_lookup_def Let_def split: option.splits)

section \<open>Insertion\<close>

lemma each_page_seqs: "each_page page_drop ps s = Some s' \<Longrightarrow> kv_seqs s' = kv_seqs s"
  by (induction ps arbitrary: s)
    (auto simp: page_drop_def set_page_def split: bind_splits if_splits)

lemma each_retain_seqs: "each_page page_retain ps s = Some s' \<Longrightarrow> kv_seqs s' = kv_seqs s"
  by (induction ps arbitrary: s) (auto simp: page_retain_def set_page_def split: bind_splits)

lemma close_seqs: "vg_kv_sequence_close i s = Some s' \<Longrightarrow> kv_seqs s' = (kv_seqs s)(i := None)"
  by (auto simp: vg_kv_sequence_close_def dest!: each_page_seqs split: bind_splits)

lemma fork_OK:
  assumes "vg_kv_sequence_fork i n s = Some (VG_OK, j, s')" and "kv_seqs s i = Some src"
  shows "n \<le> length (sq_tokens src) \<and> vg_kv_sequence_tokens s' j = Some (take n (sq_tokens src))"
  using assms by (auto simp: vg_kv_sequence_fork_def vg_kv_sequence_init_def vg_kv_sequence_tokens_def put_seq_def Let_def
      split: option.splits if_splits bind_splits)

lemma radix_insert_OK:
  assumes "vg_radix_insert r q n fp ta s = Some (VG_OK, r', s')" and "kv_seqs s q = Some sq"
  shows "\<exists>snap. r' = radix_modify (set_snapshot (Some snap) fp ta) (take n (sq_tokens sq)) (radix_ensure (take n (sq_tokens sq)) r)
    \<and> n \<le> length (sq_tokens sq) \<and> vg_kv_sequence_tokens s' snap = Some (take n (sq_tokens sq))"
proof -
  let ?r = "radix_ensure (take n (sq_tokens sq)) r"
  have n: "n \<le> length (sq_tokens sq)" using assms by (auto simp: vg_radix_insert_def split: if_splits)
  obtain nd s1 where nd: "radix_at (take n (sq_tokens sq)) ?r = Some nd"
    and s1: "(case rn_snapshot nd of None \<Rightarrow> Some s | Some old \<Rightarrow> vg_kv_sequence_close old s) = Some s1"
    and rest: "map_option (\<lambda>(st, snap, s). if st = VG_OK then (VG_OK, radix_modify (set_snapshot (Some snap) fp ta) (take n (sq_tokens sq)) ?r, s)
        else (st, ?r, s)) (vg_kv_sequence_fork q n s1) = Some (VG_OK, r', s')"
    using assms n unfolding vg_radix_insert_def Let_def by (auto simp: bind_eq_Some_conv)
  obtain st snap s2 where f: "vg_kv_sequence_fork q n s1 = Some (st, snap, s2)" using rest by (auto simp: map_option_eq_Some)
  then have ok: "st = VG_OK" "s2 = s'" "r' = radix_modify (set_snapshot (Some snap) fp ta) (take n (sq_tokens sq)) ?r"
    using rest by (auto split: if_splits)
  have q1: "kv_seqs s1 q \<noteq> None" using f by (cases "kv_seqs s1 q") (simp_all add: vg_kv_sequence_fork_def)
  have "kv_seqs s1 q = Some sq"
  proof (cases "rn_snapshot nd")
    case None
    then show ?thesis using s1 assms(2) by simp
  next
    case (Some old)
    then have "kv_seqs s1 = (kv_seqs s)(old := None)" using s1 close_seqs by simp
    then show ?thesis using q1 assms(2) by (auto split: if_splits)
  qed
  then show ?thesis using fork_OK f ok n by blast
qed


section \<open>Operations of a client\<close>

datatype kv_op = KInit | KAppend nat u64 | KFork nat nat | KClose nat | KAcquire nat u32 nat vg_tier

definition kv_exec :: "kv_op \<Rightarrow> vg_kvstore \<Rightarrow> vg_kvstore option" where
  "kv_exec op s =
     (case op of
        KInit \<Rightarrow> Some (snd (vg_kv_sequence_init s))
      | KAppend i t \<Rightarrow> map_option snd (vg_kv_sequence_append i t s)
      | KFork i n \<Rightarrow> map_option (snd \<circ> snd) (vg_kv_sequence_fork i n s)
      | KClose i \<Rightarrow> vg_kv_sequence_close i s
      | KAcquire i l t d \<Rightarrow> map_option (snd \<circ> snd) (vg_kv_page_acquire i l t d s))"

fun kv_run :: "kv_op list \<Rightarrow> vg_kvstore \<Rightarrow> vg_kvstore option" where
  "kv_run [] s = Some s"
| "kv_run (op # ops) s = Option.bind (kv_exec op s) (kv_run ops)"

section \<open>The invariant\<close>

definition holders :: "vg_kvstore \<Rightarrow> nat \<Rightarrow> nat set" where
  "holders s j = {i. \<exists>q. kv_seqs s i = Some q \<and> (kv_generation s, j) \<in> set (sq_pages q)}"

definition pages_for :: "vg_kvconfig \<Rightarrow> nat \<Rightarrow> nat" where
  "pages_for c n = (n + unat (kc_page_tokens c) - 1) div unat (kc_page_tokens c)"

definition seq_ok :: "vg_kvstore \<Rightarrow> vg_kvsequence \<Rightarrow> bool" where
  "seq_ok s q \<longleftrightarrow> length (sq_pages q) = pages_for (kv_cfg s) (length (sq_tokens q)) \<and> distinct (sq_pages q)
     \<and> (\<forall>p \<in> set (sq_pages q). fst p = kv_generation s \<and> snd p < length (kv_pages s))"

definition page_ok :: "vg_kvstore \<Rightarrow> nat \<Rightarrow> bool" where
  "page_ok s j \<longleftrightarrow> (let p = kv_pages s ! j in
     \<not> pg_spilled p \<and> pg_bytes p = page_bytes (kv_cfg s) \<and> map_option length (pg_data p) = Some (unat (pg_bytes p))
     \<and> unat (pg_refs p) = card (holders s j))"

definition kv_inv :: "vg_kvstore \<Rightarrow> bool" where
  "kv_inv s \<longleftrightarrow> kc_page_tokens (kv_cfg s) \<noteq> 0 \<and> kc_host_budget (kv_cfg s) = 0
     \<and> kv_page_capacity s \<in> {0, 64} \<and> (kv_page_capacity s = 0 \<longrightarrow> kv_pages s = [])
     \<and> (\<forall>i. kv_next_seq s \<le> i \<longrightarrow> kv_seqs s i = None)
     \<and> (\<forall>i q. kv_seqs s i = Some q \<longrightarrow> seq_ok s q)
     \<and> (\<forall>j < length (kv_pages s). page_ok s j)"

lemma holders_finite: "kv_inv s \<Longrightarrow> finite (holders s j) \<and> card (holders s j) \<le> kv_next_seq s"
proof -
  assume "kv_inv s"
  then have sub: "holders s j \<subseteq> {..<kv_next_seq s}" by (force simp: kv_inv_def holders_def not_le[symmetric])
  then show ?thesis using card_mono [OF _ sub] finite_subset [OF sub] by simp
qed

text \<open>Changing the counters of some pages.\<close>

lemma each_page_change:
  assumes f: "\<And>p s. f p s = map_option (\<lambda>x. set_page p (g x) s) (deref s p)"
    and "distinct ps" and "\<forall>p \<in> set ps. fst p = kv_generation s \<and> snd p < length (kv_pages s)"
  shows "\<exists>ps'. each_page f ps s = Some (s\<lparr>kv_pages := ps'\<rparr>) \<and> length ps' = length (kv_pages s)
    \<and> (\<forall>j < length ps'. ps' ! j = (if (kv_generation s, j) \<in> set ps then g (kv_pages s ! j) else kv_pages s ! j))"
  using assms(2,3)
proof (induction ps arbitrary: s)
  case (Cons p ps)
  let ?s = "set_page p (g (kv_pages s ! snd p)) s"
  have p: "deref s p = Some (kv_pages s ! snd p)" "p = (kv_generation s, snd p)" "snd p < length (kv_pages s)"
    using Cons.prems by (auto simp: deref_def prod_eq_iff)
  have s: "kv_generation ?s = kv_generation s" "kv_pages ?s = (kv_pages s)[snd p := g (kv_pages s ! snd p)]" by (simp_all add: set_page_def)
  obtain ps' where ps': "each_page f ps ?s = Some (?s\<lparr>kv_pages := ps'\<rparr>)" "length ps' = length (kv_pages ?s)"
    "\<forall>j < length ps'. ps' ! j = (if (kv_generation ?s, j) \<in> set ps then g (kv_pages ?s ! j) else kv_pages ?s ! j)"
    using Cons.IH [of ?s] Cons.prems s by auto
  have "each_page f (p # ps) s = Some (s\<lparr>kv_pages := ps'\<rparr>)" using ps'(1) p(1) by (simp add: f set_page_def)
  moreover have "ps' ! j = (if (kv_generation s, j) \<in> set (p # ps) then g (kv_pages s ! j) else kv_pages s ! j)" if "j < length ps'" for j
  proof (cases "j = snd p")
    case True
    then have "(kv_generation s, j) \<notin> set ps" using Cons.prems(1) p(2) by auto
    then show ?thesis using ps'(2,3) that s True p(2,3) by auto
  next
    case False
    then have "(kv_generation s, j) \<noteq> p" using p(2) by auto
    then show ?thesis using ps'(3) that s False by auto
  qed
  ultimately show ?case using ps'(2) s by (intro exI [of _ ps']) simp
next
  case Nil
  show ?case by (rule exI [of _ "kv_pages s"]) simp
qed

lemma page_drop_alt: "page_drop p s = map_option (\<lambda>x. set_page p (if pg_refs x \<noteq> 0 then x\<lparr>pg_refs := pg_refs x - 1\<rparr> else x) s) (deref s p)"
  by (auto simp: page_drop_def deref_def set_page_def)

lemma page_retain_alt: "page_retain p s = map_option (\<lambda>x. set_page p (x\<lparr>pg_refs := pg_refs x + 1\<rparr>) s) (deref s p)"
  by (simp add: page_retain_def)

section \<open>Every operation keeps the invariant\<close>

lemma pages_for_0: "kc_page_tokens c \<noteq> 0 \<Longrightarrow> pages_for c 0 = 0"
  by (simp add: pages_for_def unat_gt_0 div_eq_0_iff)

lemma inv_init: "kv_inv s \<Longrightarrow> kv_inv (snd (vg_kv_sequence_init s))"
proof -
  assume inv: "kv_inv s"
  let ?s = "snd (vg_kv_sequence_init s)"
  have f: "kv_cfg ?s = kv_cfg s" "kv_pages ?s = kv_pages s" "kv_generation ?s = kv_generation s" "kv_page_capacity ?s = kv_page_capacity s"
    "kv_next_seq ?s = Suc (kv_next_seq s)" "kv_seqs ?s = (kv_seqs s)(kv_next_seq s := Some empty_seq)"
    by (simp_all add: vg_kv_sequence_init_def put_seq_def)
  have "kv_seqs s (kv_next_seq s) = None" using inv by (simp add: kv_inv_def)
  then have "holders ?s j = holders s j" for j by (auto simp: holders_def f empty_seq_def)
  moreover have "seq_ok ?s empty_seq" using inv by (simp add: seq_ok_def empty_seq_def pages_for_0 f kv_inv_def)
  ultimately show ?thesis using inv by (auto simp: kv_inv_def f seq_ok_def page_ok_def)
qed

lemma inv_put_same:
  assumes "kv_inv s" and "kv_seqs s i = Some q" and "sq_pages q' = sq_pages q"
    and "pages_for (kv_cfg s) (length (sq_tokens q')) = pages_for (kv_cfg s) (length (sq_tokens q))"
  shows "kv_inv (put_seq i q' s)"
proof -
  have "holders (put_seq i q' s) j = holders s j" for j using assms(2,3) by (auto simp: holders_def put_seq_def)
  moreover have "seq_ok s q'" using assms by (auto simp: kv_inv_def seq_ok_def)
  ultimately show ?thesis using assms(1,2) by (auto simp: kv_inv_def put_seq_def seq_ok_def page_ok_def)
qed

lemma pages_for_Suc:
  assumes "kc_page_tokens c \<noteq> 0"
  shows "pages_for c n \<le> n div unat (kc_page_tokens c) \<Longrightarrow> pages_for c (Suc n) = Suc (pages_for c n) \<and> n div unat (kc_page_tokens c) = pages_for c n"
    "n div unat (kc_page_tokens c) < pages_for c n \<Longrightarrow> pages_for c (Suc n) = pages_for c n"
proof -
  define pt where "pt = unat (kc_page_tokens c)"
  have pt: "0 < pt" using assms by (simp add: pt_def unat_gt_0)
  have S: "pages_for c (Suc n) = Suc (n div pt)" using pt by (simp add: pages_for_def pt_def [symmetric])
  have lo: "n div pt \<le> pages_for c n" unfolding pages_for_def pt_def [symmetric] using pt by (intro div_le_mono) simp
  have hi: "pages_for c n \<le> Suc (n div pt)" using S pt div_le_mono [of "n + pt - 1" "Suc n + pt - 1" pt] by (simp add: pages_for_def pt_def)
  show "pages_for c n \<le> n div unat (kc_page_tokens c) \<Longrightarrow> pages_for c (Suc n) = Suc (pages_for c n) \<and> n div unat (kc_page_tokens c) = pages_for c n"
    using S lo by (simp add: pt_def)
  show "n div unat (kc_page_tokens c) < pages_for c n \<Longrightarrow> pages_for c (Suc n) = pages_for c n" using S hi by (simp add: pt_def)
qed

lemma token_page: "kc_page_tokens c \<noteq> 0 \<Longrightarrow> t < n \<Longrightarrow> t div unat (kc_page_tokens c) < pages_for c n"
proof -
  assume pt: "kc_page_tokens c \<noteq> 0" and t: "t < n"
  have "t div unat (kc_page_tokens c) < Suc t div unat (kc_page_tokens c) + 1" by (simp add: div_le_mono le_imp_less_Suc)
  have "(Suc t + unat (kc_page_tokens c) - 1) div unat (kc_page_tokens c) \<le> pages_for c n"
    unfolding pages_for_def using t by (intro div_le_mono) simp
  then show ?thesis using pt by (simp add: unat_gt_0)
qed

lemma new_page_host:
  assumes "kv_inv s" and "new_page VG_TIER_HOST s = (Some p, s')" and "length (kv_pages s') \<le> 64"
  shows "kv_pages s' = kv_pages s @ [fresh_page (page_bytes (kv_cfg s)) (kv_clock s + 1) VG_TIER_HOST]
    \<and> p = (kv_generation s', length (kv_pages s)) \<and> kv_cfg s' = kv_cfg s \<and> kv_seqs s' = kv_seqs s \<and> kv_next_seq s' = kv_next_seq s
    \<and> kv_page_capacity s' = 64 \<and> (kv_pages s \<noteq> [] \<longrightarrow> kv_generation s' = kv_generation s)"
proof -
  have cap: "kv_page_capacity s \<in> {0, 64}" "kv_page_capacity s = 0 \<longrightarrow> kv_pages s = []" "evict_pages s = s"
    using assms(1) by (auto simp: kv_inv_def evict_pages_def)
  have "page_bytes (kv_cfg s) \<noteq> 0" using assms(2) by (auto simp: new_page_def)
  then have e: "p = (kv_generation (grow_pages s), length (kv_pages s))" "kv_pages s' = kv_pages s @ [fresh_page (page_bytes (kv_cfg s)) (kv_clock s + 1) VG_TIER_HOST]"
    "kv_cfg s' = kv_cfg s" "kv_seqs s' = kv_seqs s" "kv_next_seq s' = kv_next_seq s" "kv_page_capacity s' = kv_page_capacity (grow_pages s)"
    "kv_generation s' = kv_generation (grow_pages s)"
    using assms(2) cap by (auto simp: new_page_def Let_def grow_pages_def)
  then have "length (kv_pages s) \<le> 63" using assms(3) by simp
  then show ?thesis using e cap by (auto simp: grow_pages_def)
qed

lemma fresh_page_simps: "\<not> pg_spilled (fresh_page b c t)" "pg_bytes (fresh_page b c t) = b" "map_option length (pg_data (fresh_page b c t)) = Some (unat b)"
  "unat (pg_refs (fresh_page b c t)) = 1"
  by (simp_all add: fresh_page_def)

lemma inv_append_page:
  assumes inv: "kv_inv s" and q: "kv_seqs s i = Some q" and pg: "sq_pages q' = sq_pages q @ [p]"
    and tk: "pages_for (kv_cfg s) (length (sq_tokens q')) = Suc (length (sq_pages q))"
    and np: "new_page VG_TIER_HOST s = (Some p, s')" and le: "length (kv_pages s') \<le> 64"
  shows "kv_inv (put_seq i q' s')"
proof -
  note n = new_page_host [OF inv np le]
  let ?t = "put_seq i q' s'"
  have t: "kv_pages ?t = kv_pages s'" "kv_generation ?t = kv_generation s'" "kv_cfg ?t = kv_cfg s" "kv_seqs ?t = (kv_seqs s)(i := Some q')"
    "kv_page_capacity ?t = 64" "kv_next_seq ?t = kv_next_seq s"
    using n by (simp_all add: put_seq_def)
  have ok: "seq_ok s r" if "kv_seqs s k = Some r" for k r using inv that by (simp add: kv_inv_def)
  have nogen: "sq_pages r = []" if "kv_seqs s k = Some r" "kv_pages s = []" for k r
    using ok [OF that(1)] that(2) by (cases "sq_pages r") (auto simp: seq_ok_def)
  have old: "fst x = kv_generation s' \<and> snd x < length (kv_pages s)" if "kv_seqs s k = Some r" "x \<in> set (sq_pages r)" for k r x
    using ok [OF that(1)] nogen [OF that(1)] that(2) n by (cases "kv_pages s = []") (auto simp: seq_ok_def)
  have h: "holders ?t j = holders s j" if "j < length (kv_pages s)" for j
  proof -
    have "kv_generation s' = kv_generation s" using n that by auto
    then show ?thesis using q pg n that by (auto simp: holders_def t split: if_splits)
  qed
  have hn: "holders ?t (length (kv_pages s)) = {i}"
  proof (rule set_eqI)
    fix k
    have "k = i" if k: "k \<noteq> i" "kv_seqs s k = Some r" "(kv_generation s', length (kv_pages s)) \<in> set (sq_pages r)" for r
      using old [OF k(2,3)] by simp
    moreover have "(kv_generation s', length (kv_pages s)) \<in> set (sq_pages q')" using n pg by simp
    ultimately show "k \<in> holders ?t (length (kv_pages s)) \<longleftrightarrow> k \<in> {i}" by (auto simp: holders_def t)
  qed
  have "page_ok ?t j" if "j < length (kv_pages s')" for j
  proof (cases "j < length (kv_pages s)")
    case True
    then have "page_ok s j" using inv by (simp add: kv_inv_def)
    then show ?thesis using True h n by (auto simp: page_ok_def t nth_append Let_def)
  next
    case False
    then have "j = length (kv_pages s)" using that n by simp
    then show ?thesis using hn n by (auto simp: page_ok_def t fresh_page_simps fresh_page_def Let_def)
  qed
  moreover have "seq_ok ?t q'"
  proof -
    have p: "fst p = kv_generation s'" "snd p = length (kv_pages s)" using n by simp_all
    then have "p \<notin> set (sq_pages q)" using old [OF q, of p] by auto
    moreover have "distinct (sq_pages q)" using ok [OF q] by (simp add: seq_ok_def)
    moreover have "fst x = kv_generation s' \<and> snd x < length (kv_pages s')" if "x \<in> set (sq_pages q')" for x
      using that pg p n old [OF q, of x] by auto
    ultimately show ?thesis using pg tk by (simp add: seq_ok_def t)
  qed
  moreover have "seq_ok ?t r" if "kv_seqs s k = Some r" for k r
    using ok [OF that] old [OF that] n by (auto simp: seq_ok_def t dest: less_trans)
  moreover have "kv_seqs s k = None" if "kv_next_seq s \<le> k" for k using inv that by (simp add: kv_inv_def)
  ultimately show ?thesis using inv q n by (auto simp: kv_inv_def t not_le [symmetric])
qed

lemma inv_append:
  assumes inv: "kv_inv s" and ap: "vg_kv_sequence_append i tok s = Some (st, s')" and le: "length (kv_pages s') \<le> 64"
  shows "kv_inv s'"
proof -
  obtain q where q: "kv_seqs s i = Some q" using ap by (cases "kv_seqs s i") (simp_all add: vg_kv_sequence_append_def)
  have pt: "kc_page_tokens (kv_cfg s) \<noteq> 0" using inv by (simp add: kv_inv_def)
  have len: "length (sq_pages q) = pages_for (kv_cfg s) (length (sq_tokens q))" using inv q by (simp add: kv_inv_def seq_ok_def)
  show ?thesis
  proof (cases "reserve_cap 256 (sq_capacity q) (Suc (length (sq_tokens q)))")
    case None
    then show ?thesis using ap q inv by (simp add: vg_kv_sequence_append_def seq_reserve_def)
  next
    case (Some c)
    let ?q = "q\<lparr>sq_capacity := c\<rparr>"
    have res: "seq_reserve q (length (sq_tokens q) + 1) = Some ?q" using Some by (simp add: seq_reserve_def)
    let ?pi = "length (sq_tokens q) div unat (kc_page_tokens (kv_cfg s))"
    show ?thesis
    proof (cases "length (sq_pages q) \<le> ?pi")
      case False
      then have "s' = put_seq i (?q\<lparr>sq_tokens := sq_tokens q @ [tok]\<rparr>) s"
        using ap q res by (simp add: vg_kv_sequence_append_def Let_def)
      moreover have "pages_for (kv_cfg s) (Suc (length (sq_tokens q))) = pages_for (kv_cfg s) (length (sq_tokens q))"
        using False len pages_for_Suc(2) [OF pt] by simp
      ultimately show ?thesis using inv_put_same [OF inv q, of "?q\<lparr>sq_tokens := sq_tokens q @ [tok]\<rparr>"] by simp
    next
      case True
      have same: "kv_inv (put_seq i q2 s)" if "sq_pages q2 = sq_pages q" "sq_tokens q2 = sq_tokens q" for q2
        using inv_put_same [OF inv q, of q2] that by simp
      show ?thesis
      proof (cases "unat (kc_max_pages (kv_cfg s)) \<le> length (sq_pages q)")
        case True
        then show ?thesis using ap q res \<open>length (sq_pages q) \<le> ?pi\<close> same [of ?q] by (simp add: vg_kv_sequence_append_def Let_def)
      next
        case False
        show ?thesis
        proof (cases "reserve_cap 16 (sq_page_capacity q) (Suc ?pi)")
          case None
          then show ?thesis using ap q res True False same [of ?q] by (simp add: vg_kv_sequence_append_def pages_reserve_def Let_def)
        next
          case (Some c2)
          let ?q2 = "?q\<lparr>sq_page_capacity := c2\<rparr>"
          have pr: "pages_reserve ?q (Suc ?pi) = Some ?q2" using Some by (simp add: pages_reserve_def)
          note ap2 = ap [unfolded vg_kv_sequence_append_def]
          show ?thesis
          proof (cases "new_page VG_TIER_HOST s")
            case (Pair po s2)
            show ?thesis
            proof (cases po)
              case None
              have "s2 = s" using Pair None inv by (auto simp: new_page_def Let_def kv_inv_def evict_pages_def split: if_splits)
              then show ?thesis using ap2 q res pr True False Pair None same [of ?q2] by (simp add: Let_def)
            next
              case (Some p)
              have s': "s' = put_seq i (?q2\<lparr>sq_pages := sq_pages q @ [p], sq_tokens := sq_tokens q @ [tok]\<rparr>) s2" using ap2 q res pr True False Pair Some by (simp add: Let_def)
              have "pages_for (kv_cfg s) (Suc (length (sq_tokens q))) = Suc (length (sq_pages q))"
                using pages_for_Suc(1) [OF pt] True len by simp
              then show ?thesis unfolding s'
                using inv_append_page [OF inv q _ _ Pair [unfolded Some]] le s' by (simp add: put_seq_def)
            qed
          qed
        qed
      qed
    qed
  qed
qed

lemma holders_put: "kv_seqs s i = Some q \<Longrightarrow> kv_seqs t = (kv_seqs s)(i := x) \<Longrightarrow> kv_generation t = kv_generation s \<Longrightarrow>
   holders t j = (holders s j - {i}) \<union> (case x of None \<Rightarrow> {} | Some r \<Rightarrow> if (kv_generation s, j) \<in> set (sq_pages r) then {i} else {})"
  by (auto simp: holders_def split: option.splits if_splits)

lemma inv_close:
  assumes inv: "kv_inv s" and cl: "vg_kv_sequence_close i s = Some s'"
  shows "kv_inv s'"
proof -
  obtain q where q: "kv_seqs s i = Some q" using cl by (cases "kv_seqs s i") (simp_all add: vg_kv_sequence_close_def)
  have ok: "seq_ok s q" using inv q by (simp add: kv_inv_def)
  then have d: "distinct (sq_pages q)" and v: "\<forall>p \<in> set (sq_pages q). fst p = kv_generation s \<and> snd p < length (kv_pages s)"
    by (simp_all add: seq_ok_def)
  obtain ps' where ps': "each_page page_drop (sq_pages q) s = Some (s\<lparr>kv_pages := ps'\<rparr>)" "length ps' = length (kv_pages s)"
    "\<forall>j < length ps'. ps' ! j = (if (kv_generation s, j) \<in> set (sq_pages q)
       then (if pg_refs (kv_pages s ! j) \<noteq> 0 then (kv_pages s ! j)\<lparr>pg_refs := pg_refs (kv_pages s ! j) - 1\<rparr> else kv_pages s ! j) else kv_pages s ! j)"
    using each_page_change [OF page_drop_alt d v] by blast
  have s': "s' = s\<lparr>kv_pages := ps', kv_seqs := (kv_seqs s)(i := None)\<rparr>" using cl q ps'(1) by (simp add: vg_kv_sequence_close_def)
  have h: "holders s' j = holders s j - {i}" for j by (subst holders_put [OF q, of _ None]) (simp_all add: s')
  have "page_ok s' j" if j: "j < length (kv_pages s)" for j
  proof -
    have p: "page_ok s j" using inv j by (simp add: kv_inv_def)
    have fin: "finite (holders s j)" using holders_finite [OF inv] by blast
    show ?thesis
    proof (cases "(kv_generation s, j) \<in> set (sq_pages q)")
      case True
      then have i: "i \<in> holders s j" using q by (simp add: holders_def)
      then have c: "card (holders s j) \<noteq> 0" using fin by auto
      then have nz: "pg_refs (kv_pages s ! j) \<noteq> 0" using p by (auto simp: page_ok_def Let_def)
      then have "unat (pg_refs (kv_pages s ! j) - 1) = unat (pg_refs (kv_pages s ! j)) - 1"
        using unat_gt_0 [of "pg_refs (kv_pages s ! j)"] by (simp add: unat_minus_one)
      then show ?thesis using True p nz ps'(2,3) j i fin h by (auto simp: page_ok_def s' Let_def)
    next
      case False
      then have "i \<notin> holders s j" using q by (simp add: holders_def)
      then show ?thesis using False p ps'(2,3) j h by (auto simp: page_ok_def s' Let_def)
    qed
  qed
  then show ?thesis using inv ps'(2) by (auto simp: kv_inv_def s' seq_ok_def)
qed

lemma inv_fork:
  assumes inv: "kv_inv s" and fk: "vg_kv_sequence_fork i n s = Some (st, j, s')" and small: "kv_next_seq s' < 2 ^ 32"
  shows "kv_inv s'"
proof -
  obtain src where src: "kv_seqs s i = Some src" using fk by (cases "kv_seqs s i") (simp_all add: vg_kv_sequence_fork_def)
  obtain s1 where s1: "vg_kv_sequence_init s = (kv_next_seq s, s1)" by (simp add: vg_kv_sequence_init_def)
  have inv1: "kv_inv s1" using inv_init [OF inv] s1 by simp
  have f1: "kv_cfg s1 = kv_cfg s" "kv_pages s1 = kv_pages s" "kv_generation s1 = kv_generation s" "kv_next_seq s1 = Suc (kv_next_seq s)"
    "kv_seqs s1 = (kv_seqs s)(kv_next_seq s := Some empty_seq)"
    using s1 by (auto simp: vg_kv_sequence_init_def put_seq_def)
  have fresh: "kv_seqs s (kv_next_seq s) = None" using inv by (simp add: kv_inv_def)
  let ?np = "pages_for (kv_cfg s) n"
  note fk2 = fk [unfolded vg_kv_sequence_fork_def src bind.simps s1 prod.case Let_def, folded pages_for_def]
  show ?thesis
  proof (cases "length (sq_tokens src) < n")
    case True
    then show ?thesis using fk2 inv by simp
  next
    case nlen: False
    show ?thesis
    proof (cases "Option.bind (seq_reserve empty_seq n) (\<lambda>q. pages_reserve q ?np)")
      case None
      then show ?thesis using fk2 nlen inv_close [OF inv1] by (auto simp: map_option_eq_Some)
    next
      case (Some q)
      let ?ps = "take ?np (sq_pages src)"
      let ?q = "q\<lparr>sq_tokens := take n (sq_tokens src), sq_pages := ?ps\<rparr>"
      have ok: "seq_ok s src" using inv src by (simp add: kv_inv_def)
      then have d: "distinct ?ps" and v: "\<forall>p \<in> set ?ps. fst p = kv_generation s1 \<and> snd p < length (kv_pages s1)"
        using f1 by (auto simp: seq_ok_def dest: in_set_takeD)
      obtain ps' where ps': "each_page page_retain ?ps s1 = Some (s1\<lparr>kv_pages := ps'\<rparr>)" "length ps' = length (kv_pages s1)"
        "\<forall>k < length ps'. ps' ! k = (if (kv_generation s1, k) \<in> set ?ps
           then (kv_pages s1 ! k)\<lparr>pg_refs := pg_refs (kv_pages s1 ! k) + 1\<rparr> else kv_pages s1 ! k)"
        using each_page_change [OF page_retain_alt d v] by blast
      have np: "?np \<le> length (sq_pages src)"
        using ok nlen unfolding seq_ok_def pages_for_def by (simp add: div_le_mono)
      have s': "s' = put_seq (kv_next_seq s) ?q (s1\<lparr>kv_pages := ps'\<rparr>)" using fk2 nlen Some ps'(1) np by auto
      have f': "kv_cfg s' = kv_cfg s" "kv_pages s' = ps'" "kv_generation s' = kv_generation s" "kv_next_seq s' = Suc (kv_next_seq s)"
        "kv_seqs s' = (kv_seqs s1)(kv_next_seq s := Some ?q)" "kv_page_capacity s' = kv_page_capacity s1"
        by (simp_all add: s' put_seq_def f1)
      have s1q: "kv_seqs s1 (kv_next_seq s) = Some empty_seq" by (simp add: f1)
      have h: "holders s' k = (holders s1 k - {kv_next_seq s}) \<union> (if (kv_generation s1, k) \<in> set ?ps then {kv_next_seq s} else {})" for k
        by (subst holders_put [OF s1q, of s' "Some ?q"]) (simp_all add: f' f1)
      have nin: "kv_next_seq s \<notin> holders s1 k" for k by (simp add: holders_def f1 empty_seq_def)
      have "page_ok s' k" if k: "k < length ps'" for k
      proof -
        have p: "page_ok s1 k" using inv1 k ps'(2) by (simp add: kv_inv_def)
        have fin: "finite (holders s1 k)" "card (holders s1 k) \<le> Suc (kv_next_seq s)" using holders_finite [OF inv1] f1 by auto
        show ?thesis
        proof (cases "(kv_generation s1, k) \<in> set ?ps")
          case True
          have "card (holders s k) \<le> kv_next_seq s" using holders_finite [OF inv] by blast
          moreover have "holders s1 k = holders s k" using fresh by (auto simp: holders_def f1 empty_seq_def split: if_splits)
          ultimately have "unat (pg_refs (kv_pages s1 ! k)) + unat (1 :: u32) < 2 ^ 32"
            using p small f' by (simp add: page_ok_def Let_def)
          from unat_u32_add [OF this] show ?thesis using True p k ps'(3) h [of k] nin [of k] fin f' f1 by (auto simp: page_ok_def Let_def)
        next
          case False
          then show ?thesis using p k ps'(3) h [of k] nin [of k] f' f1 by (auto simp: page_ok_def Let_def)
        qed
      qed
      moreover have "seq_ok s' ?q"
        using d v np nlen f' f1 ps'(2) by (simp add: seq_ok_def min_def)
      moreover have "seq_ok s' r" if "kv_seqs s k = Some r" for k r
      proof -
        have "kv_seqs s1 k = Some r" using that fresh by (auto simp: f1)
        then have "seq_ok s1 r" using inv1 by (simp add: kv_inv_def)
        then show ?thesis using f' f1 ps'(2) by (simp add: seq_ok_def)
      qed
      ultimately show ?thesis using inv1 f' f1 ps'(2) by (auto simp: kv_inv_def)
    qed
  qed
qed

lemma inv_acquire:
  assumes inv: "kv_inv s" and aq: "vg_kv_page_acquire i l t d s = Some (st, r, s')"
  shows "kv_inv s'"
proof -
  obtain q where q: "kv_seqs s i = Some q" using aq by (cases "kv_seqs s i") (simp_all add: vg_kv_page_acquire_def)
  show ?thesis
  proof (cases "kc_n_layers (kv_cfg s) \<le> l \<or> length (sq_tokens q) \<le> t")
    case True
    then show ?thesis using aq q inv by (auto simp: vg_kv_page_acquire_def)
  next
    case False
    let ?pi = "t div unat (kc_page_tokens (kv_cfg s))"
    have pi: "?pi < length (sq_pages q)" using inv q False token_page by (simp add: kv_inv_def seq_ok_def)
    let ?p = "sq_pages q ! ?pi"
    have "?p \<in> set (sq_pages q)" using pi by simp
    then have dp: "deref s ?p = Some (kv_pages s ! snd ?p)" "snd ?p < length (kv_pages s)"
      using inv q by (auto simp: deref_def kv_inv_def seq_ok_def)
    then have "\<not> pg_spilled (kv_pages s ! snd ?p)" using inv by (simp add: kv_inv_def page_ok_def Let_def)
    moreover define x where "x = (kv_pages s ! snd ?p)\<lparr>pg_age := kv_clock s + 1, pg_tier := d\<rparr>"
    ultimately have x: "pg_refs x = pg_refs (kv_pages s ! snd ?p)" "\<not> pg_spilled x" "pg_bytes x = pg_bytes (kv_pages s ! snd ?p)"
        "pg_data x = pg_data (kv_pages s ! snd ?p)"
      and s': "s' = set_page ?p x (s\<lparr>kv_clock := kv_clock s + 1, kv_stats := (kv_stats s)\<lparr>ks_page_hits := ks_page_hits (kv_stats s) + 1\<rparr>\<rparr>)"
      using aq q False pi dp by (auto simp: vg_kv_page_acquire_def fault_page_def Let_def x_def)
    have h: "holders s' j = holders s j" for j by (simp add: holders_def s' set_page_def)
    have "page_ok s' j" if "j < length (kv_pages s)" for j
      using inv that x dp(2) h by (cases "j = snd ?p") (auto simp: kv_inv_def page_ok_def s' set_page_def Let_def)
    then show ?thesis using inv by (auto simp: kv_inv_def s' set_page_def seq_ok_def)
  qed
qed

lemma exec_inv:
  assumes "kv_inv s" and "kv_exec op s = Some s'" and "length (kv_pages s') \<le> 64" and "kv_next_seq s' < 2 ^ 32"
  shows "kv_inv s'"
proof (cases op)
  case KInit
  then show ?thesis using assms(2) inv_init [OF assms(1)] by (simp add: kv_exec_def)
next
  case (KAppend i t)
  then show ?thesis using assms inv_append by (auto simp: kv_exec_def)
next
  case (KFork i n)
  then show ?thesis using assms inv_fork by (auto simp: kv_exec_def)
next
  case (KClose i)
  then show ?thesis using assms inv_close by (simp add: kv_exec_def)
next
  case (KAcquire i l t d)
  then show ?thesis using assms inv_acquire by (auto simp: kv_exec_def)
qed

text \<open>Without a host budget nothing is evicted: pages and sequence numbers only grow.\<close>

definition grows :: "vg_kvstore \<Rightarrow> vg_kvstore \<Rightarrow> bool" where
  "grows s s' \<longleftrightarrow> kv_cfg s' = kv_cfg s \<and> length (kv_pages s) \<le> length (kv_pages s') \<and> kv_next_seq s \<le> kv_next_seq s'"

lemma grows_trans: "grows s t \<Longrightarrow> grows t u \<Longrightarrow> grows s u"
  by (auto simp: grows_def)

lemma grows_simps [simp]: "grows s s" "grows s (put_seq i q t) = grows s t" "grows s (set_page p x t) = grows s t"
  by (simp_all add: grows_def put_seq_def set_page_def)

lemma each_grows: "each_page page_drop ps s = Some s' \<Longrightarrow> grows s s'" "each_page page_retain ps s = Some s' \<Longrightarrow> grows s s'"
proof -
  show "each_page page_drop ps s = Some s' \<Longrightarrow> grows s s'"
  proof (induction ps arbitrary: s)
    case (Cons p ps)
    then obtain t where t: "page_drop p s = Some t" "each_page page_drop ps t = Some s'" by (auto simp: bind_eq_Some_conv)
    have "grows s t" using t(1) by (auto simp: page_drop_def split: if_splits)
    then show ?case using Cons.IH [OF t(2)] grows_trans by blast
  qed simp
  show "each_page page_retain ps s = Some s' \<Longrightarrow> grows s s'"
  proof (induction ps arbitrary: s)
    case (Cons p ps)
    then obtain t where t: "page_retain p s = Some t" "each_page page_retain ps t = Some s'" by (auto simp: bind_eq_Some_conv)
    have "grows s t" using t(1) by (auto simp: page_retain_def)
    then show ?case using Cons.IH [OF t(2)] grows_trans by blast
  qed simp
qed

lemma grows_new_page: "kc_host_budget (kv_cfg s) = 0 \<Longrightarrow> grows s (snd (new_page t s))"
  by (auto simp: new_page_def Let_def evict_pages_def grow_pages_def grows_def)

lemma grows_close: "vg_kv_sequence_close i s = Some s' \<Longrightarrow> grows s s'"
  by (auto simp: vg_kv_sequence_close_def bind_eq_Some_conv dest!: each_grows(1)) (simp add: grows_def)

lemma grows_append:
  assumes "kc_host_budget (kv_cfg s) = 0" and "vg_kv_sequence_append i t s = Some (st, s')"
  shows "grows s s'"
proof -
  obtain po s2 where np: "new_page VG_TIER_HOST s = (po, s2)" by (cases "new_page VG_TIER_HOST s")
  then have "grows s s2" using grows_new_page [OF assms(1), of VG_TIER_HOST] by simp
  moreover obtain q where "kv_seqs s i = Some q" using assms(2) by (cases "kv_seqs s i") (simp_all add: vg_kv_sequence_append_def)
  ultimately show ?thesis using assms(2) np
    by (cases "seq_reserve q (length (sq_tokens q) + 1)"; cases po)
      (auto simp: vg_kv_sequence_append_def Let_def split: option.splits if_splits)
qed

lemma grows_fork: "vg_kv_sequence_fork i n s = Some (st, j, s') \<Longrightarrow> grows s s'"
proof -
  assume fk: "vg_kv_sequence_fork i n s = Some (st, j, s')"
  obtain s1 where s1: "vg_kv_sequence_init s = (kv_next_seq s, s1)" "grows s s1"
    by (simp add: vg_kv_sequence_init_def grows_def put_seq_def)
  show ?thesis using fk s1 each_grows(2) [of _ s1] grows_close [of _ s1]
    by (auto simp: vg_kv_sequence_fork_def bind_eq_Some_conv map_option_eq_Some Let_def split: option.splits if_splits intro: grows_trans)
qed

lemma grows_acquire:
  assumes "vg_kv_page_acquire i l t d s = Some (st, r, s')"
  shows "grows s s'"
proof -
  obtain q where q: "kv_seqs s i = Some q" using assms by (cases "kv_seqs s i") (simp_all add: vg_kv_page_acquire_def)
  let ?p = "sq_pages q ! (t div unat (kc_page_tokens (kv_cfg s)))"
  show ?thesis
  proof (cases "kc_n_layers (kv_cfg s) \<le> l \<or> length (sq_tokens q) \<le> t")
    case True
    then have "s' = s" using assms q by (auto simp: vg_kv_page_acquire_def)
    then show ?thesis by simp
  next
    case False
    then obtain x where x: "deref s ?p = Some x"
      using assms q by (cases "deref s ?p") (auto simp: vg_kv_page_acquire_def Let_def split: if_splits)
    obtain ok s2 x2 where f: "fault_page s x = (ok, s2, x2)" by (cases "fault_page s x")
    then have g: "grows s s2" by (auto simp: fault_page_def Let_def grows_def split: if_splits option.splits)
    have "s' = set_page ?p x2 s2 \<or> s' = set_page ?p (x2\<lparr>pg_age := kv_clock s2 + 1, pg_tier := d\<rparr>)
        (s2\<lparr>kv_clock := kv_clock s2 + 1, kv_stats := (kv_stats s2)\<lparr>ks_page_hits := ks_page_hits (kv_stats s2) + 1\<rparr>\<rparr>)"
      using assms q False x f by (cases ok) (auto simp: vg_kv_page_acquire_def Let_def split: if_splits)
    then show ?thesis using g by (auto simp: grows_def set_page_def)
  qed
qed

lemma exec_grows: "kc_host_budget (kv_cfg s) = 0 \<Longrightarrow> kv_exec op s = Some s' \<Longrightarrow> grows s s'"
  using grows_append grows_fork grows_close grows_acquire
  by (cases op) (auto simp: kv_exec_def vg_kv_sequence_init_def, simp add: grows_def)

lemma run_inv:
  assumes "kv_inv s" and "kv_run ops s = Some s'" and "length (kv_pages s') \<le> 64" and "kv_next_seq s' < 2 ^ 32"
  shows "kv_inv s' \<and> grows s s'"
  using assms
proof (induction ops arbitrary: s)
  case (Cons op ops)
  then obtain t where t: "kv_exec op s = Some t" "kv_run ops t = Some s'" by (auto simp: bind_eq_Some_conv)
  have g: "grows s t" using exec_grows [OF _ t(1)] Cons.prems(1) by (simp add: kv_inv_def)
  have later: "kv_run ops t = Some s' \<Longrightarrow> kc_host_budget (kv_cfg t) = 0 \<Longrightarrow> grows t s'" for ops t
  proof (induction ops arbitrary: t)
    case (Cons op ops)
    then obtain u where u: "kv_exec op t = Some u" "kv_run ops u = Some s'" by (auto simp: bind_eq_Some_conv)
    have "grows t u" using exec_grows u(1) Cons.prems by blast
    then show ?case using Cons.IH u(2) Cons.prems(2) grows_trans by (metis grows_def)
  qed simp
  have g2: "grows t s'" using later [OF t(2)] g Cons.prems(1) by (simp add: grows_def kv_inv_def)
  then have "kv_inv t" using exec_inv [OF Cons.prems(1) t(1)] Cons.prems(3,4) by (simp add: grows_def)
  then show ?case using Cons.IH t(2) Cons.prems(3,4) g grows_trans by blast
qed simp

lemma open_inv:
  assumes "vg_kv_open (Some c) = Inr s" and "kc_host_budget c = 0"
  shows "kv_inv s \<and> kv_next_seq s = 0"
  using assms by (auto simp: vg_kv_open_def kv_inv_def Let_def split: if_splits)

section \<open>Reference counts and accesses\<close>

text \<open>C14: In a store without a host budget, after any operations of its clients, as long as there are at most 64 pages every
  page of a live sequence is in the array, the number of references of a page is the number of live sequences that hold it,
  and a sequence has exactly the pages its tokens need.\<close>

theorem kv_references_exact:
  assumes "vg_kv_open (Some c) = Inr s0" and "kc_host_budget c = 0" and "kv_run ops s0 = Some s"
    and "length (kv_pages s) \<le> 64" and "kv_next_seq s < 2 ^ 32"
  shows "(\<forall>j < length (kv_pages s). unat (pg_refs (kv_pages s ! j)) = card {i. \<exists>q. kv_seqs s i = Some q \<and> (kv_generation s, j) \<in> set (sq_pages q)})
    \<and> (\<forall>i q. kv_seqs s i = Some q \<longrightarrow> length (sq_pages q) = pages_for (kv_cfg s) (length (sq_tokens q))
         \<and> (\<forall>p \<in> set (sq_pages q). deref s p \<noteq> None))"
proof -
  have inv: "kv_inv s" using run_inv [OF _ assms(3-5)] open_inv [OF assms(1,2)] by blast
  then show ?thesis by (auto simp: kv_inv_def page_ok_def holders_def seq_ok_def deref_def Let_def)
qed

lemma layer_bytes_exact:
  assumes "unat (kc_kv_heads c) * unat (kc_head_dim c) * unat (kc_element_bytes c) * unat (kc_page_tokens c) < 2 ^ 64"
    and "0 < unat (kc_page_tokens c)" and "0 < unat (kc_element_bytes c)" and "0 < unat (kc_head_dim c)"
  shows "unat (layer_bytes c) = unat (kc_kv_heads c) * unat (kc_head_dim c) * unat (kc_element_bytes c) * unat (kc_page_tokens c)"
proof -
  let ?k = "unat (kc_kv_heads c)" and ?h = "unat (kc_head_dim c)" and ?e = "unat (kc_element_bytes c)" and ?p = "unat (kc_page_tokens c)"
  have 2: "?k * ?h * ?e < 2 ^ 64" using assms(1,2) by (rule_tac le_less_trans [of _ "?k * ?h * ?e * ?p"]) simp_all
  have 1: "?k * ?h < 2 ^ 64" using 2 assms(3) by (rule_tac le_less_trans [of _ "?k * ?h * ?e"]) simp_all
  have a: "unat (ucast (kc_kv_heads c) * ucast (kc_head_dim c) :: u64) = ?k * ?h"
    using 1 by (subst unat_u64_mult) (simp_all only: unat_ucast_u32)
  have b: "unat (ucast (kc_kv_heads c) * ucast (kc_head_dim c) * ucast (kc_element_bytes c) :: u64) = ?k * ?h * ?e"
    using 2 a by (subst unat_u64_mult) (simp_all only: unat_ucast_u32)
  show ?thesis unfolding layer_bytes_def using assms(1) b by (subst unat_u64_mult) (simp_all only: unat_ucast_u32)
qed

lemma page_bytes_layers: "page_bytes c = ucast (kc_n_layers c) * layer_bytes c"
  by (simp add: page_bytes_def layer_bytes_def mult.assoc)

text \<open>In such a store, when the size of a page fits 64 bits, asking for the cells of a live sequence's token in a layer
  succeeds, and the address range handed out lies inside the data of the page.\<close>

theorem kv_acquire_inside:
  assumes "vg_kv_open (Some c) = Inr s0" and "kc_host_budget c = 0" and "kv_run ops s0 = Some s"
    and "length (kv_pages s) \<le> 64" and "kv_next_seq s < 2 ^ 32"
    and "unat (kc_n_layers (kv_cfg s)) * (unat (kc_kv_heads (kv_cfg s)) * unat (kc_head_dim (kv_cfg s)) * unat (kc_element_bytes (kv_cfg s)) * unat (kc_page_tokens (kv_cfg s))) < 2 ^ 64"
    and "kv_seqs s i = Some q" and "token < length (sq_tokens q)" and "layer < kc_n_layers (kv_cfg s)"
  shows "\<exists>p off n s' x d. vg_kv_page_acquire i layer token desired s = Some (VG_OK, Some (p, off, n), s')
    \<and> deref s' p = Some x \<and> pg_data x = Some d \<and> unat off + unat n \<le> length d"
proof -
  have i0: "kv_inv s0" using open_inv [OF assms(1,2)] by blast
  have inv: "kv_inv s" and g: "grows s0 s" using run_inv [OF i0 assms(3-5)] by blast+
  let ?c = "kv_cfg s"
  have "kv_cfg s0 = c \<or> kv_cfg s0 = c\<lparr>kc_max_pages := 16384\<rparr>"
    "kc_page_tokens c \<noteq> 0" "kc_n_layers c \<noteq> 0" "kc_kv_heads c \<noteq> 0" "kc_head_dim c \<noteq> 0" "kc_element_bytes c \<noteq> 0"
    using assms(1) by (auto simp: vg_kv_open_def Let_def split: if_splits)
  moreover have "?c = kv_cfg s0" using g by (simp add: grows_def)
  ultimately have nz: "0 < unat (kc_page_tokens ?c)" "0 < unat (kc_element_bytes ?c)" "0 < unat (kc_head_dim ?c)" "0 < unat (kc_n_layers ?c)"
    by (auto simp: unat_gt_0)
  let ?lb = "unat (kc_kv_heads ?c) * unat (kc_head_dim ?c) * unat (kc_element_bytes ?c) * unat (kc_page_tokens ?c)"
  have "?lb \<le> unat (kc_n_layers ?c) * ?lb" using nz(4) by simp
  then have lb: "unat (layer_bytes ?c) = ?lb" using assms(6) by (intro layer_bytes_exact nz) linarith
  have pb: "unat (page_bytes ?c) = unat (kc_n_layers ?c) * ?lb"
    unfolding page_bytes_layers using assms(6) lb by (subst unat_u64_mult) (simp_all only: unat_ucast_u32)
  have ll: "Suc (unat layer) \<le> unat (kc_n_layers ?c)" using assms(9) by (simp add: word_less_nat_alt)
  then have "Suc (unat layer) * ?lb \<le> unat (kc_n_layers ?c) * ?lb" by (rule mult_le_mono1)
  then have room: "unat layer * ?lb + ?lb \<le> unat (page_bytes ?c)" using pb by simp
  then have off: "unat (ucast layer * layer_bytes ?c) = unat layer * ?lb"
  proof -
    have "unat (ucast layer :: u64) * unat (layer_bytes ?c) < 2 ^ 64"
      unfolding unat_ucast_u32 lb using room pb assms(6) by linarith
    from unat_u64_mult [OF this] show ?thesis by (simp only: unat_ucast_u32 lb)
  qed
  let ?pi = "token div unat (kc_page_tokens ?c)"
  have pi: "?pi < length (sq_pages q)" using inv assms(7,8) token_page by (simp add: kv_inv_def seq_ok_def)
  let ?p = "sq_pages q ! ?pi"
  have "?p \<in> set (sq_pages q)" using pi by simp
  then have dp: "deref s ?p = Some (kv_pages s ! snd ?p)" "snd ?p < length (kv_pages s)" "fst ?p = kv_generation s"
    using inv assms(7) by (auto simp: deref_def kv_inv_def seq_ok_def)
  then have pk: "page_ok s (snd ?p)" using inv by (simp add: kv_inv_def)
  then obtain d where d: "pg_data (kv_pages s ! snd ?p) = Some d" "length d = unat (page_bytes ?c)" by (auto simp: page_ok_def Let_def)
  define s' where "s' = set_page ?p ((kv_pages s ! snd ?p)\<lparr>pg_age := kv_clock s + 1, pg_tier := desired\<rparr>)
     (s\<lparr>kv_clock := kv_clock s + 1, kv_stats := (kv_stats s)\<lparr>ks_page_hits := ks_page_hits (kv_stats s) + 1\<rparr>\<rparr>)"
  have "vg_kv_page_acquire i layer token desired s = Some (VG_OK, Some (?p, ucast layer * layer_bytes ?c, layer_bytes ?c), s')"
    using assms(7-9) pi dp(1) pk by (auto simp: vg_kv_page_acquire_def fault_page_def page_ok_def Let_def s'_def)
  moreover have "deref s' ?p = Some ((kv_pages s ! snd ?p)\<lparr>pg_age := kv_clock s + 1, pg_tier := desired\<rparr>)"
    using dp by (simp add: deref_def s'_def set_page_def)
  ultimately show ?thesis using d room off lb
    by (intro exI [of _ ?p] exI [of _ "ucast layer * layer_bytes ?c"] exI [of _ "layer_bytes ?c"] exI [of _ s']) simp
qed

section \<open>When the page array moves\<close>

text \<open>Growing a full array ends every pointer into it.\<close>

lemma growth_ends_pointers:
  assumes "length (kv_pages s) = kv_page_capacity s" and "kc_host_budget (kv_cfg s) = 0" and "new_page t s = (Some p, s')"
    and "deref s r = Some x"
  shows "deref s' r = None"
  using assms by (auto simp: new_page_def evict_pages_def grow_pages_def deref_def Let_def split: if_splits)

text \<open>Eviction moves the pages behind the victim: a pointer to one of them then reads its neighbour.\<close>

lemma eviction_moves_pages:
  assumes "v \<le> j" and "Suc j < length (kv_pages s)"
  shows "deref (evict_one v s) (kv_generation s, j) = Some (kv_pages s ! Suc j)"
proof -
  have g: "kv_generation (evict_one v s) = kv_generation s" "kv_pages (evict_one v s) = take v (kv_pages s) @ drop (Suc v) (kv_pages s)"
    by (simp_all add: evict_one_def spill_page_def Let_def split: option.split)
  show ?thesis using assms by (simp add: deref_def g nth_append)
qed

text \<open>No page of the array is ever a spilled one: a spilled page is dropped from the array at once, so no file is read back.\<close>

lemma evicted_page_dropped:
  "\<forall>p \<in> set (kv_pages s). \<not> pg_spilled p \<Longrightarrow> \<forall>p \<in> set (kv_pages (evict_one v s)). \<not> pg_spilled p"
  by (auto simp: evict_one_def Let_def dest: in_set_takeD in_set_dropD)

section \<open>A store\<close>

definition kv_cfg1 :: vg_kvconfig where
  "kv_cfg1 = \<lparr>kc_page_tokens = 2, kc_n_layers = 2, kc_kv_heads = 1, kc_head_dim = 2, kc_element_bytes = 4, kc_host_budget = 0,
     kc_device_budget = 0, kc_max_pages = 8, kc_spill = None\<rparr>"

definition kv_store1 :: vg_kvstore where
  "kv_store1 = (case vg_kv_open (Some kv_cfg1) of Inr s \<Rightarrow> s)"

definition kv_ops1 :: "kv_op list" where
  "kv_ops1 = [KInit, KAppend 0 7, KAppend 0 8, KAppend 0 9, KFork 0 1]"

definition kv_store2 :: vg_kvstore where
  "kv_store2 = the (kv_run kv_ops1 kv_store1)"

lemma kv_open1: "vg_kv_open (Some kv_cfg1) = Inr kv_store1"
  by (simp add: kv_store1_def vg_kv_open_def kv_cfg1_def page_bytes_def Let_def)

lemma kv_run2: "kv_run kv_ops1 kv_store1 = Some kv_store2" "length (kv_pages kv_store2) = 2" "kv_next_seq kv_store2 = 2"
  "kv_seqs kv_store2 0 = Some \<lparr>sq_tokens = [7, 8, 9], sq_capacity = 256, sq_pages = [(1, 0), (1, 1)], sq_page_capacity = 16\<rparr>"
  "kv_cfg kv_store2 = kv_cfg1"
  by (simp_all add: kv_store2_def kv_ops1_def kv_store1_def vg_kv_open_def kv_cfg1_def page_bytes_def Let_def kv_exec_def
     vg_kv_sequence_init_def put_seq_def empty_seq_def vg_kv_sequence_append_def seq_reserve_def pages_reserve_def reserve_cap_def
     double_cap.simps new_page_def evict_pages_def grow_pages_def vg_kv_sequence_fork_def page_retain_def deref_def set_page_def zero_stats_def)

theorem kv_references_exact_witness: "unat (pg_refs (kv_pages kv_store2 ! 0)) = card {i. \<exists>q. kv_seqs kv_store2 i = Some q \<and> (kv_generation kv_store2, 0) \<in> set (sq_pages q)}"
  using kv_references_exact [OF kv_open1 _ kv_run2(1)] kv_run2(2,3) by (simp add: kv_cfg1_def)

theorem kv_acquire_inside_witness:
  "\<exists>p off n s' x d. vg_kv_page_acquire 0 1 2 VG_TIER_HOST kv_store2 = Some (VG_OK, Some (p, off, n), s')
    \<and> deref s' p = Some x \<and> pg_data x = Some d \<and> unat off + unat n \<le> length d"
  by (rule kv_acquire_inside [OF kv_open1 _ kv_run2(1) _ _ _ kv_run2(4)]) (simp_all add: kv_run2 kv_cfg1_def)

lemma kv_store2_generation: "kv_generation kv_store2 = 1"
proof -
  have "kv_inv kv_store2" using run_inv [OF _ kv_run2(1)] open_inv [OF kv_open1] kv_run2(2,3) by (simp add: kv_cfg1_def)
  then have "seq_ok kv_store2 \<lparr>sq_tokens = [7, 8, 9], sq_capacity = 256, sq_pages = [(1, 0), (1, 1)], sq_page_capacity = 16\<rparr>"
    using kv_run2(4) unfolding kv_inv_def by blast
  then show ?thesis by (simp add: seq_ok_def)
qed

text \<open>Inserting the first two tokens of the sequence into an empty cache.\<close>

lemma radix_insert1: "\<exists>r' s'. vg_radix_insert vg_radix_open 0 2 5 False kv_store2 = Some (VG_OK, r', s')"
proof -
  have e: "radix_ensure [7, 8] vg_radix_open = set_children vg_radix_open [node_new [7, 8]]"
    by (simp add: radix_ensure.simps [of "7 # _"] vg_radix_open_def)
  have a: "radix_at [7, 8] (set_children vg_radix_open [node_new [7, 8]]) = Some (node_new [7, 8])"
    by (rule radix_at_node_new) simp
  have ne: "kv_pages kv_store2 \<noteq> []" using kv_run2(2) by auto
  have inv: "\<exists>s'. vg_kv_sequence_fork 0 2 kv_store2 = Some (VG_OK, 2, s')"
    using kv_run2 ne by (simp add: vg_kv_sequence_fork_def vg_kv_sequence_init_def Let_def kv_cfg1_def seq_reserve_def pages_reserve_def
        reserve_cap_def double_cap.simps empty_seq_def put_seq_def page_retain_def deref_def set_page_def kv_store2_generation)
  then show ?thesis using kv_run2(4) e a by (auto simp: vg_radix_insert_def Let_def)
qed


end
