(* ===== verification/Lora_Props.thy ===== *)
theory Lora_Props
  imports Lora TensorSource_Props
begin

text \<open>Loading an adapter keeps to the file and to its buffers, and so does applying it.\<close>

lemma same_file_tensor_at: "same_file g0 g \<Longrightarrow> vg_gguf_tensor_at (Some g) i = vg_gguf_tensor_at (Some g0) i"
  by (simp add: vg_gguf_tensor_at_def)

section \<open>The names\<close>

lemma find_index: "find P xs = Some i \<Longrightarrow> i \<in> set xs \<and> P i"
  by (induction xs) (auto split: if_splits)

lemma find_pair_Some: "find_pair ps base = Some i \<Longrightarrow> i < length ps \<and> lp_base (ps ! i) = base"
  by (auto simp: find_pair_def dest: find_index)

lemma ends_with_append: "ends_with name sfx \<Longrightarrow> take (length name - length sfx) name @ sfx = name"
  unfolding ends_with_def by (metis append_take_drop_id)

lemma without_weight: "ends_with name (cstr ''.weight'') \<Longrightarrow> take (length name - 7) name @ cstr ''.weight'' = name"
  using ends_with_append [of name "cstr ''.weight''"] by (simp add: numeral_eq_Suc)

text \<open>A weight is bound to a pair whose base is its name up to a trailing \<^verbatim>\<open>.weight\<close>.\<close>

lemma resolve_Some:
  "resolve ad name = Some i \<Longrightarrow> i < length (la_pairs ad) \<and>
     (lp_base (la_pairs ad ! i) = name \<or> lp_base (la_pairs ad ! i) @ cstr ''.weight'' = name \<or>
      lp_base (la_pairs ad ! i) = name @ cstr ''.weight'')"
  using find_pair_Some [of "la_pairs ad" name i] find_pair_Some [of "la_pairs ad" "take (length name - 7) name" i]
    find_pair_Some [of "la_pairs ad" "name @ cstr ''.weight''" i] without_weight [of name]
  unfolding resolve_def Let_def
  by (cases "find_pair (la_pairs ad) name"; cases "find_pair (la_pairs ad) (take (length name - 7) name)")
    (simp_all split: if_splits)

section \<open>Loading\<close>

lemma prod_le: "\<forall>d \<in> set ds. d \<noteq> 0 \<Longrightarrow> 2 \<le> length ds \<Longrightarrow> (ds ! 0) * (ds ! 1) \<le> prod_list (ds :: nat list)"
proof -
  assume nz: "\<forall>d \<in> set ds. d \<noteq> 0" and "2 \<le> length ds"
  then obtain a b es where ds: "ds = a # b # es" by (metis One_nat_def Suc_1 Suc_le_length_iff)
  have "prod_list es \<noteq> 0" using nz ds by (auto simp: prod_list_zero_iff)
  then show ?thesis using ds by simp
qed

lemma foldl_times: "foldl (\<lambda>e d. e * d) (a :: nat) ds = a * prod_list ds"
  by (induction ds arbitrary: a) (simp_all add: mult.assoc)

lemma unat_prod: "unat (foldl (\<lambda>e d. e * d) a (ds :: u64 list)) = foldl (\<lambda>e d. e * d) (unat a) (map unat ds) mod 2 ^ 64"
proof (induction ds arbitrary: a)
  case Nil
  show ?case using unat_u64_less [of a] by simp
next
  case (Cons d ds)
  have "unat (foldl (\<lambda>e d. e * d) (a * d) ds) = unat (a * d) * prod_list (map unat ds) mod 2 ^ 64"
    using Cons [of "a * d"] by (simp add: foldl_times)
  also have "\<dots> = unat a * unat d * prod_list (map unat ds) mod 2 ^ 64"
    by (simp add: unat_word_ariths mod_mult_left_eq)
  finally show ?case by (simp add: foldl_times mult.assoc)
qed

text \<open>A tensor that is read has all its elements, and no wrap-around of their number goes unnoticed.\<close>

lemma read_float_tensor_sound:
  assumes "sound_file g0" and "same_file g0 g" and "vg_gguf_tensor_at (Some g0) k = Some t"
  shows "\<exists>r g'. read_float_tensor env g t = Some (r, g') \<and> same_file g0 g' \<and>
    (\<forall>out. r = Some out \<longrightarrow> out \<noteq> [] \<and> (\<forall>i < length (take (unat (t_n_dims t)) (t_dims t)). t_dims t ! i \<noteq> 0) \<and> unat (t_n_dims t) \<le> length (t_dims t) \<and>
       length out = prod_list (map unat (take (unat (t_n_dims t)) (t_dims t))))"
proof -
  let ?ds = "take (unat (t_n_dims t)) (t_dims t)"
  let ?el = "foldl (\<lambda>e d. e * d) 1 ?ds"
  have o: "opened_ok g0" using assms(1) vg_gguf_open_OK by (auto simp: sound_file_def)
  obtain b b' where p: "parse_tensor b = POk t b'" using tensor_at_opened [OF o assms(3)] by blast
  obtain q where q: "vg_quant_info (t_ggml_type t) = Some q" "exact_nbytes t q" using parse_tensor_exact [OF p] by blast
  have dims: "unat (t_n_dims t) \<le> length (t_dims t)" "\<forall>d \<in> set ?ds. d \<noteq> 0"
    using p parse_dims_nonzero by (fastforce simp: parse_tensor_def pread_POk pcase_POk scase_POk split: if_splits)+
  obtain r g1 where rd: "vg_gguf_read env (Some g) (Some t) 0 True (t_nbytes t) = (r, Some g1)" "same_file g0 g1"
    "r = ReadFailed VG_E_IO \<or> (\<exists>raw. r = ReadOK raw)" using same_file_read_at [OF assms, of 0 "t_nbytes t" env] by auto
  have out: "out \<noteq> [] \<and> length out = prod_list (map unat ?ds)"
    if s: "qi_scalar q" and v: "vg_dequantize_row (t_ggml_type t) (Some raw) (t_nbytes t) True ?el = Inr out" for raw out
  proof -
    have "vg_quant_validate (t_ggml_type t) ?el (t_nbytes t) = VG_OK" using v by (auto simp: vg_dequantize_row_def split: if_splits)
    note va = this
    then obtain q' where q': "vg_quant_info (t_ggml_type t) = Some q'" "?el \<noteq> 0" "unat (qi_block_size q') dvd unat ?el"
       "unat ?el div unat (qi_block_size q') * unat (qi_bytes_per_block q') = unat (t_nbytes t)"
      using quant_validate_iff by blast
    have len: "length out = unat ?el" using row_eq_blocks [OF va q(1) s, of raw] v by simp
    have [simp]: "q' = q" using q q' by simp
    have bp: "unat (qi_bytes_per_block q) \<noteq> 0" "unat (qi_block_size q) \<noteq> 0" using info_ok_mem [of q] vg_quant_info_SomeD [OF q(1)] by (auto simp: info_ok_def unat_eq_0)
    define ds where "ds = map unat ?ds"
    define nf where "nf = (if ds = [] then 1 else hd ds)"
    have e: "unat (qi_block_size q) dvd nf" "unat (t_nbytes t) = prod_list (tl ds) * (nf div unat (qi_block_size q)) * unat (qi_bytes_per_block q)"
      using q(2) unfolding exact_nbytes_def Let_def ds_def [symmetric] nf_def [symmetric] by blast+
    have "unat ?el div unat (qi_block_size q) = prod_list (tl ds) * (nf div unat (qi_block_size q))"
      using q'(4) e(2) bp by simp
    then have "unat ?el = prod_list (tl ds) * (nf div unat (qi_block_size q)) * unat (qi_block_size q)"
      using q'(3) bp(2) by (metis \<open>q' = q\<close> dvd_div_mult_self)
    also have "\<dots> = prod_list (tl ds) * nf" using e(1) by (simp add: mult.assoc)
    also have "\<dots> = prod_list ds" by (cases ds) (simp_all add: nf_def mult.commute)
    finally have "length out = prod_list ds" using len by simp
    moreover have "unat ?el \<noteq> 0" using q'(2) by (simp add: unat_eq_0)
    ultimately show ?thesis using len by (auto simp: ds_def)
  qed
  have nz: "t_dims t ! i \<noteq> 0" if "i < length ?ds" for i using dims(2) that by (metis nth_mem nth_take length_take min_less_iff_conj)
  show ?thesis
    unfolding read_float_tensor_def Let_def q(1) option.case rd(1) prod.case using rd(2,3) out nz dims(1) assms(2)
    by (auto split: sum.splits)
qed

text \<open>What holds of a pair at every moment of the loading.\<close>

definition pair_ok :: "vg_lorapair \<Rightarrow> bool" where
  "pair_ok p \<longleftrightarrow> lp_rank p \<noteq> 0 \<and> lp_in_dim p \<noteq> 0 \<and> unat (lp_rank p) * unat (lp_in_dim p) \<le> length (lp_a p) \<and>
     (\<forall>b. lp_b p = Some b \<longrightarrow> unat (lp_out_dim p) * unat (lp_rank p) \<le> length b)"

definition load_inv :: "vg_gguf \<Rightarrow> vg_loraadapter \<times> vg_gguf \<Rightarrow> bool" where
  "load_inv g0 s \<longleftrightarrow> same_file g0 (snd s) \<and> (\<forall>p \<in> set (la_pairs (fst s)). pair_ok p \<and> lp_rank p \<le> la_rank (fst s))"

lemma unat_trunc: "unat (ucast (d :: u64) :: u32) \<le> unat d"
  by (simp add: unsigned_ucast_eq take_bit_nat_less_eq_self)

lemma first_dims:
  assumes "\<not> t_n_dims t < 2" and "unat (t_n_dims t) \<le> length (t_dims t)"
    and "\<forall>i < length (take (unat (t_n_dims t)) (t_dims t)). t_dims t ! i \<noteq> 0"
  shows "unat (ucast (t_dims t ! 0) :: u32) * unat (ucast (t_dims t ! 1) :: u32) \<le> prod_list (map unat (take (unat (t_n_dims t)) (t_dims t)))"
proof -
  let ?ds = "take (unat (t_n_dims t)) (t_dims t)"
  have n: "2 \<le> unat (t_n_dims t)" using assms(1) by (simp add: not_less word_le_nat_alt)
  have "\<forall>d \<in> set (map unat ?ds). d \<noteq> 0" using assms(3) by (auto simp: in_set_conv_nth unat_eq_0 unat_gt_0)
  then have "map unat ?ds ! 0 * map unat ?ds ! 1 \<le> prod_list (map unat ?ds)" by (rule prod_le) (use n assms(2) in simp)
  moreover have "map unat ?ds ! 0 = unat (t_dims t ! 0)" "map unat ?ds ! 1 = unat (t_dims t ! 1)"
    using n assms(2) by simp_all
  ultimately have "unat (t_dims t ! 0) * unat (t_dims t ! 1) \<le> prod_list (map unat ?ds)" by simp
  with mult_le_mono [OF unat_trunc unat_trunc] show ?thesis by (rule order_trans)
qed

lemma load_factor_inv:
  assumes "sound_file g0" and "load_inv g0 s"
  shows "\<exists>s'. load_factor env i s = Some s' \<and> load_inv g0 s'"
proof -
  obtain ad g where s: "s = (ad, g)" by fastforce
  have sm: "same_file g0 g" and ps: "\<forall>p \<in> set (la_pairs ad). pair_ok p \<and> lp_rank p \<le> la_rank ad"
    using assms(2) by (simp_all add: s load_inv_def)
  have stay: ?thesis if "load_factor env i s = Some (ad, g)" using that assms(2) s by simp
  show ?thesis
  proof (cases "vg_gguf_tensor_at (Some g) (of_nat i)")
    case None
    then show ?thesis using stay by (simp add: load_factor_def s)
  next
    case (Some t)
    then have at: "vg_gguf_tensor_at (Some g0) (of_nat i) = Some t" by (simp add: same_file_tensor_at [OF sm])
    show ?thesis
    proof (cases "t_n_dims t < 2 \<or> split_lora_name (t_name t) 160 = None")
      case True
      then show ?thesis using stay by (auto simp: load_factor_def s Some)
    next
      case False
      then obtain base is_a where nm: "\<not> t_n_dims t < 2" "split_lora_name (t_name t) 160 = Some (base, is_a)" by auto
      define d0 where "d0 = (ucast (t_dims t ! 0) :: u32)"
      define d1 where "d1 = (ucast (t_dims t ! 1) :: u32)"
      obtain r g1 where rd: "read_float_tensor env g t = Some (r, g1)" "same_file g0 g1"
        "\<forall>out. r = Some out \<longrightarrow> (\<forall>i < length (take (unat (t_n_dims t)) (t_dims t)). t_dims t ! i \<noteq> 0) \<and> unat (t_n_dims t) \<le> length (t_dims t) \<and>
           length out = prod_list (map unat (take (unat (t_n_dims t)) (t_dims t)))"
        using read_float_tensor_sound [OF assms(1) sm at, of env] by blast
      have room: "unat d0 * unat d1 \<le> length out" if "r = Some out" for out
        using first_dims [OF nm(1)] rd(3) that by (simp add: d0_def d1_def)
      have run: "load_factor env i s = (if is_a then (if d0 = 0 \<or> d1 = 0 then Some (ad, g) else
          (case r of None \<Rightarrow> Some (ad, g1)
           | Some a \<Rightarrow> Some (ad\<lparr>la_pairs := la_pairs ad @ [\<lparr>lp_base = base, lp_a = a, lp_b = None, lp_rank = d1, lp_in_dim = d0,
               lp_out_dim = 0, lp_scaling = f_one\<rparr>], la_rank := (if d1 > la_rank ad then d1 else la_rank ad)\<rparr>, g1)))
         else (case find_pair (la_pairs ad) base of None \<Rightarrow> Some (ad, g)
           | Some k \<Rightarrow> if d0 \<noteq> lp_rank (la_pairs ad ! k) then Some (ad, g)
              else Some (ad\<lparr>la_pairs := (la_pairs ad)[k := (la_pairs ad ! k)\<lparr>lp_b := r, lp_out_dim := (if r = None then 0 else d1)\<rparr>]\<rparr>, g1)))"
        using nm rd(1) by (auto simp: load_factor_def s Some d0_def d1_def Let_def split: option.split)
      show ?thesis
      proof (cases is_a)
        case True
        show ?thesis unfolding run using True stay [unfolded run] rd(2) ps room
          by (cases r) (auto simp: load_inv_def pair_ok_def mult.commute)
      next
        case False
        show ?thesis
        proof (cases "find_pair (la_pairs ad) base")
          case None
          with False show ?thesis using stay run by simp
        next
          case k: (Some k)
          show ?thesis
          proof (cases "d0 = lp_rank (la_pairs ad ! k)")
            case eq: True
            have mem: "pair_ok (la_pairs ad ! k) \<and> lp_rank (la_pairs ad ! k) \<le> la_rank ad" using find_pair_Some [OF k] ps by simp
            then have "pair_ok ((la_pairs ad ! k)\<lparr>lp_b := r, lp_out_dim := (if r = None then 0 else d1)\<rparr>)"
              using room eq by (auto simp: pair_ok_def mult.commute)
            with mem rd(2) ps False k eq show ?thesis
              by (auto simp: run load_inv_def dest: set_update_subset_insert [THEN subsetD])
          next
            case ne: False
            with False k show ?thesis using stay run by simp
          qed
        qed
      qed
    qed
  qed
qed

lemma load_scaling_inv:
  assumes "sound_file g0" and "load_inv g0 s"
  shows "\<exists>s'. load_scaling env i s = Some s' \<and> load_inv g0 s'"
proof -
  obtain ad g where s: "s = (ad, g)" by fastforce
  have sm: "same_file g0 g" and ps: "\<forall>p \<in> set (la_pairs ad). pair_ok p \<and> lp_rank p \<le> la_rank ad"
    using assms(2) by (simp_all add: s load_inv_def)
  show ?thesis
  proof (cases "vg_gguf_tensor_at (Some g) (of_nat i)")
    case None
    then show ?thesis using assms(2) by (simp add: load_scaling_def s)
  next
    case (Some t)
    then have at: "vg_gguf_tensor_at (Some g0) (of_nat i) = Some t" by (simp add: same_file_tensor_at [OF sm])
    obtain r g1 where rd: "read_float_tensor env g t = Some (r, g1)" "same_file g0 g1"
      using read_float_tensor_sound [OF assms(1) sm at, of env] by blast
    have upd: "load_inv g0 (ad\<lparr>la_pairs := (la_pairs ad)[k := (la_pairs ad ! k)\<lparr>lp_scaling := x\<rparr>]\<rparr>, g1)"
      if "find_pair (la_pairs ad) base = Some k" for k base x
      using find_pair_Some [OF that] ps rd(2)
      by (auto simp: load_inv_def pair_ok_def dest!: set_update_subset_insert [THEN subsetD])
    have keep: "load_inv g0 (ad, g1)" using ps rd(2) by (simp add: load_inv_def)
    show ?thesis
      using upd keep assms(2) unfolding load_scaling_def s
      by (auto simp: Some rd(1) Let_def split: option.splits)
  qed
qed

lemma lora_rows_total:
  "n \<le> length x \<Longrightarrow> \<forall>r \<in> set rs. (r + 1) * n \<le> length w \<Longrightarrow> \<exists>v. lora_rows w n x rs = Some v \<and> length v = length rs"
  by (induction rs) (auto simp: lora_row_def)

lemma rows_inside: "m * n \<le> k \<Longrightarrow> \<forall>r \<in> set [0..<m]. (r + 1) * n \<le> (k :: nat)"
proof
  fix r
  assume "m * n \<le> k" "r \<in> set [0..<m]"
  then show "(r + 1) * n \<le> k" using mult_le_mono1 [of "r + 1" m n] by simp
qed

lemma apply_inside:
  assumes "\<forall>p \<in> set (la_pairs ad). pair_ok p" and "unat in_dim \<le> length x" and "unat out_dim \<le> length y"
  shows "vg_lora_apply_delta (Some ad) (Some w) (Some x) (Some y) out_dim in_dim scale \<noteq> None"
proof (cases "resolve ad w")
  case None
  then show ?thesis by (simp add: vg_lora_apply_delta_def)
next
  case (Some i)
  define p where "p = la_pairs ad ! i"
  have ok: "pair_ok p" using assms(1) resolve_Some [OF Some] by (simp add: p_def)
  show ?thesis
  proof (cases "\<exists>b. lp_b p = Some b \<and> lp_in_dim p = in_dim \<and> lp_out_dim p = out_dim")
    case False
    then show ?thesis by (auto simp: vg_lora_apply_delta_def Some p_def [symmetric] Let_def split: option.split)
  next
    case True
    then obtain b where b: "lp_b p = Some b" "lp_in_dim p = in_dim" "lp_out_dim p = out_dim" by blast
    obtain tmp where t: "lora_rows (lp_a p) (unat in_dim) x [0..<unat (lp_rank p)] = Some tmp" "length tmp = unat (lp_rank p)"
      using lora_rows_total [OF assms(2) rows_inside, of "unat (lp_rank p)" "lp_a p"] ok b by (auto simp: pair_ok_def)
    obtain d where d: "lora_rows b (unat (lp_rank p)) tmp [0..<unat out_dim] = Some d"
      using lora_rows_total [OF _ rows_inside, of "unat (lp_rank p)" tmp "unat out_dim" b] t(2) ok b by (auto simp: pair_ok_def)
    show ?thesis using b t(1) d assms(3) by (simp add: vg_lora_apply_delta_def Some p_def [symmetric] Let_def)
  qed
qed



end
