(* ===== verification/Speculative.thy ===== *)
theory Speculative
  imports Engine
begin

text \<open>
  Speculative decoding, \<^verbatim>\<open>src/speculative.c\<close>: the distributions, the three ways of drawing a token, the proposals of the
  draft model and their verification by the target model. Both graphs are decoding functions with their states.
\<close>

section \<open>Distributions\<close>

text \<open>The distribution of some logits; it is one-hot on the largest logit when the temperature is not positive.\<close>

definition soft_weight :: "libm \<Rightarrow> flt \<Rightarrow> flt \<Rightarrow> flt \<Rightarrow> flt" where
  "soft_weight m mx temperature l =
     (let e = m_expf m (fdiv (fsub l mx) temperature) in if \<not> f_isfinite e \<or> f_less e f_zero then f_zero else e)"

definition dist_from_logits :: "libm \<Rightarrow> flt list \<Rightarrow> u32 \<Rightarrow> flt \<Rightarrow> flt list" where
  "dist_from_logits m logits n_vocab temperature =
     (if f_leq temperature f_zero then (replicate (unat n_vocab) f_zero)[argmax_logits logits n_vocab := f_one]
      else (let mx = max_logit logits n_vocab;
                p = map (\<lambda>i. soft_weight m mx temperature (logits ! i)) [0..<unat n_vocab];
                mass = foldl (\<lambda>s x. dadd s (dbl x)) f_zero p
            in if f_less f_zero mass then (let inv = f_convert binary32 (f_div binary64 f_one mass) in map (\<lambda>x. fmul x inv) p) else p))"

section \<open>Drawing\<close>

definition rand_unit :: "u32 \<Rightarrow> flt \<times> u32" where
  "rand_unit state = (let s = next_rand state in (fdiv (f_of_int binary32 (uint (drop_bit 8 s))) (FFin False 16777216 0), s))"

text \<open>The first index at which the running sum of the weights, kept in \<open>double\<close>, reaches \<open>r\<close>.\<close>

fun reach_double :: "flt \<Rightarrow> flt \<Rightarrow> nat \<Rightarrow> flt list \<Rightarrow> nat option" where
  "reach_double r acc i [] = None"
| "reach_double r acc i (x # xs) = (let acc' = dadd acc (dbl x) in if f_leq r acc' then Some i else reach_double r acc' (Suc i) xs)"

text \<open>The same over the positive entries only.\<close>

fun reach_positive :: "flt \<Rightarrow> flt \<Rightarrow> nat \<Rightarrow> flt list \<Rightarrow> nat option" where
  "reach_positive r acc i [] = None"
| "reach_positive r acc i (d # ds) =
     (if f_less f_zero d then (let acc' = dadd acc (dbl d) in if f_leq r acc' then Some i else reach_positive r acc' (Suc i) ds)
      else reach_positive r acc (Suc i) ds)"

definition sample_residual :: "flt list \<Rightarrow> flt list \<Rightarrow> u32 \<Rightarrow> u32 \<Rightarrow> nat \<times> u32" where
  "sample_residual draft target n_vocab rng =
     (let ds = map (\<lambda>i. fsub (target ! i) (draft ! i)) [0..<unat n_vocab];
          mass = foldl (\<lambda>s d. if f_less f_zero d then dadd s (dbl d) else s) f_zero ds
      in if \<not> f_less f_zero mass then
           (let tm = foldl (\<lambda>s i. dadd s (dbl (target ! i))) f_zero [0..<unat n_vocab]
            in if \<not> f_less f_zero tm then (0, rng)
               else (let (u, rng') = rand_unit rng
                     in (case reach_double (f_mul binary64 (dbl u) tm) f_zero 0 (take (unat n_vocab) target) of
                           Some i \<Rightarrow> i | None \<Rightarrow> unat (n_vocab - 1), rng')))
         else (let (u, rng') = rand_unit rng
               in (case reach_positive (f_mul binary64 (dbl u) mass) f_zero 0 ds of Some i \<Rightarrow> i | None \<Rightarrow> 0, rng')))"

text \<open>The same with a running sum in \<open>float\<close>.\<close>

fun reach_single :: "flt \<Rightarrow> flt \<Rightarrow> nat \<Rightarrow> flt list \<Rightarrow> nat option" where
  "reach_single r acc i [] = None"
| "reach_single r acc i (x # xs) = (let acc' = fadd acc x in if f_leq r acc' then Some i else reach_single r acc' (Suc i) xs)"

definition sample_from :: "flt list \<Rightarrow> u32 \<Rightarrow> u32 \<Rightarrow> nat \<times> u32" where
  "sample_from p n_vocab rng =
     (let (r, rng') = rand_unit rng
      in (case reach_single r f_zero 0 (take (unat n_vocab) p) of Some i \<Rightarrow> i | None \<Rightarrow> unat (n_vocab - 1), rng'))"

section \<open>The step\<close>

text \<open>
  A graph is its configuration, its decoding function and its state. The two graphs of a configuration are distinct
  objects; a NULL pointer is \<open>None\<close>.
\<close>

record 'g graph =
  gr_config :: vg_modelconfig
  gr_decode :: "'g decoder"
  gr_state :: 'g

record ('d, 't) vg_speculativeconfig =
  sp_draft_graph :: "'d graph option"
  sp_target_graph :: "'t graph option"
  sp_n_draft :: int
  sp_temperature :: flt
  sp_rng :: "u32 option"

text \<open>The argmax loop written with an index alone.\<close>

definition best_index :: "flt list \<Rightarrow> u32 \<Rightarrow> nat" where
  "best_index p n_vocab = foldl (\<lambda>best v. if f_less (p ! best) (p ! v) then v else best) 0 [1..<unat n_vocab]"

text \<open>The proposals, each with the probability the draft gave it, for at most \<open>k\<close> positions.\<close>

fun spec_draft ::
  "libm \<Rightarrow> 'd decoder \<Rightarrow> u32 \<Rightarrow> flt \<Rightarrow> nat \<Rightarrow> int \<Rightarrow> int \<Rightarrow> u32 \<Rightarrow> 'd \<Rightarrow> (nat \<times> flt) list \<times> u32 \<times> 'd" where
  "spec_draft m dec V temp 0 tok pos rng g = ([], rng, g)"
| "spec_draft m dec V temp (Suc k) tok pos rng g =
     (case dec tok pos g of (st, lg, g1) \<Rightarrow>
        if st \<noteq> VG_OK then ([], rng, g1)
        else (let p = dist_from_logits m lg V temp;
                  (t, rng1) = (if f_less f_zero temp then sample_from p V rng else (best_index lg V, rng));
                  (rest, rng2, g2) = spec_draft m dec V temp k (int t) (pos + 1) rng1 g1
              in ((t, p ! t) # rest, rng2, g2)))"

definition accept_prob :: "flt \<Rightarrow> flt \<Rightarrow> flt" where
  "accept_prob q p = (if f_less f_zero q then (let x = fdiv p q in if x = FNan \<or> f_less f_one x then f_one else x) else f_one)"

text \<open>Verification by the target, with \<open>room\<close> entries left in the output.\<close>

fun spec_verify ::
  "libm \<Rightarrow> 'd decoder \<Rightarrow> 't decoder \<Rightarrow> u32 \<Rightarrow> flt \<Rightarrow> (nat \<times> flt) list \<Rightarrow> nat \<Rightarrow> int \<Rightarrow> int \<Rightarrow> u32 \<Rightarrow> 'd \<Rightarrow> 't
     \<Rightarrow> nat list \<times> u32 \<times> 'd \<times> 't" where
  "spec_verify m ddec tdec V temp [] room feed pos rng dg tg = ([], rng, dg, tg)"
| "spec_verify m ddec tdec V temp ((t, q) # props) room feed pos rng dg tg =
     (if room = 0 then ([], rng, dg, tg)
      else case tdec feed pos tg of (st, lg, tg1) \<Rightarrow>
        if st \<noteq> VG_OK then ([], rng, dg, tg1)
        else (let pt = dist_from_logits m lg V temp
              in if f_leq temp f_zero then
                   (let best = best_index pt V
                    in if t = best then
                         (case spec_verify m ddec tdec V temp props (room - 1) (int best) (pos + 1) rng dg tg1 of
                            (acc, rng2, dg2, tg2) \<Rightarrow> (best # acc, rng2, dg2, tg2))
                       else ([best], rng, dg, tg1))
                 else (let (u, rng1) = rand_unit rng
                       in if f_leq u (accept_prob q (pt ! t)) then
                            (case spec_verify m ddec tdec V temp props (room - 1) (int t) (pos + 1) rng1 dg tg1 of
                               (acc, rng2, dg2, tg2) \<Rightarrow> (t # acc, rng2, dg2, tg2))
                          else (case ddec feed pos dg of (dst, dlg, dg1) \<Rightarrow>
                                  (let pd = (if dst = VG_OK then dist_from_logits m dlg V temp else replicate (unat V) f_zero);
                                       (x, rng2) = sample_residual pd pt V rng1
                                   in ([x], rng2, dg1, tg1))))))"

definition spec_n_draft :: "int \<Rightarrow> int \<Rightarrow> int" where
  "spec_n_draft n max_accepted =
     (let n1 = (if n \<le> 0 then 4 else n); n2 = (if n1 > 64 then 64 else n1) in if n2 > max_accepted then max_accepted else n2)"

text \<open>The answer is the list written to \<open>accepted\<close>, its length being the returned count, and the configuration afterwards.\<close>

definition vg_speculative_step ::
  "libm \<Rightarrow> ('d, 't) vg_speculativeconfig option \<Rightarrow> int \<Rightarrow> int \<Rightarrow> bool \<Rightarrow> int
     \<Rightarrow> nat list \<times> ('d, 't) vg_speculativeconfig option" where
  "vg_speculative_step m cfg input_token kv_pos has_accepted max_accepted =
     (case cfg of
        None \<Rightarrow> ([], cfg)
      | Some c \<Rightarrow>
          (case (sp_draft_graph c, sp_target_graph c) of
             (Some d, Some t) \<Rightarrow>
               if \<not> has_accepted \<or> max_accepted < 1 \<or> mc_n_vocab (gr_config d) \<noteq> mc_n_vocab (gr_config t) then ([], cfg)
               else (let V = mc_n_vocab (gr_config t);
                         rng0 = (case sp_rng c of Some r \<Rightarrow> r | None \<Rightarrow> 0x9E3779B9);
                         temp = (if f_less f_zero (sp_temperature c) then sp_temperature c else f_zero);
                         (props, rng1, dg1) = spec_draft m (gr_decode d) V temp (nat (spec_n_draft (sp_n_draft c) max_accepted))
                                                input_token kv_pos rng0 (gr_state d);
                         (acc, rng2, dg2, tg2) = spec_verify m (gr_decode d) (gr_decode t) V temp props (nat max_accepted)
                                                   input_token kv_pos rng1 dg1 (gr_state t)
                     in (acc, Some (c\<lparr>sp_draft_graph := Some (d\<lparr>gr_state := dg2\<rparr>), sp_target_graph := Some (t\<lparr>gr_state := tg2\<rparr>),
                                      sp_rng := map_option (\<lambda>_. rng2) (sp_rng c)\<rparr>)))
           | _ \<Rightarrow> ([], cfg)))"

end
