(* ===== verification/Speculative_Props.thy ===== *)
theory Speculative_Props
  imports Speculative Engine_Props
begin

text \<open>
  A greedy speculative step against plain greedy decoding of the target model, and the bounds of a step in every mode.
\<close>

section \<open>Greedy decoding\<close>

text \<open>Plain greedy decoding for at most \<open>k\<close> steps: the tokens and the state of the graph.\<close>

fun greedy :: "'g decoder \<Rightarrow> u32 \<Rightarrow> nat \<Rightarrow> int \<Rightarrow> int \<Rightarrow> 'g \<Rightarrow> nat list \<times> 'g" where
  "greedy dec V 0 tok pos g = ([], g)"
| "greedy dec V (Suc k) tok pos g =
     (case dec tok pos g of (st, lg, g1) \<Rightarrow>
        if st \<noteq> VG_OK then ([], g1)
        else (case greedy dec V k (int (argmax_logits lg V)) (pos + 1) g1 of (ts, g2) \<Rightarrow> (argmax_logits lg V # ts, g2)))"

lemma best_index_loop:
  "foldl (\<lambda>(best, bv) i. if f_less bv (lg ! i) then (i, lg ! i) else (best, bv)) (b, lg ! b) is =
     (let r = foldl (\<lambda>best v. if f_less (lg ! best) (lg ! v) then v else best) b is in (r, lg ! r))"
  by (induction "is" arbitrary: b) (auto simp: Let_def)

lemma best_index_argmax: "best_index lg V = argmax_logits lg V"
  by (simp add: best_index_def argmax_logits_def best_index_loop Let_def)

lemma one_hot_fixed:
  "b \<notin> set is \<Longrightarrow> b < n \<Longrightarrow> \<forall>i \<in> set is. i < n \<Longrightarrow>
    foldl (\<lambda>best v. if f_less ((replicate n f_zero)[b := f_one] ! best) ((replicate n f_zero)[b := f_one] ! v) then v else best) b is = b"
  by (induction "is") (auto simp: nth_list_update signed_mant_def)

lemma one_hot_before:
  "b \<notin> set is \<Longrightarrow> a \<noteq> b \<Longrightarrow> a < n \<Longrightarrow> \<forall>i \<in> set is. i < n \<Longrightarrow>
    foldl (\<lambda>best v. if f_less ((replicate n f_zero)[b := f_one] ! best) ((replicate n f_zero)[b := f_one] ! v) then v else best) a is = a"
  by (induction "is") (auto simp: nth_list_update signed_mant_def)

lemma best_index_one_hot:
  assumes "b < unat V"
  shows "best_index ((replicate (unat V) f_zero)[b := f_one]) V = b"
proof (cases "b = 0")
  case True
  show ?thesis unfolding best_index_def using one_hot_fixed [of b "[1..<unat V]" "unat V"] assms True by simp
next
  case False
  have "[1..<unat V] = [1..<b] @ b # [Suc b..<unat V]"
    using upt_add_eq_append [of 1 b "unat V - b"] assms False by (simp add: upt_conv_Cons)
  with one_hot_before [of b "[1..<b]" 0 "unat V"] one_hot_fixed [of b "[Suc b..<unat V]" "unat V"] assms False
  show ?thesis by (simp add: best_index_def nth_list_update signed_mant_def)
qed

lemma spec_draft_greedy:
  "spec_draft m dec V f_zero k tok pos rng g = (props, rng', g') \<Longrightarrow> map fst props = fst (greedy dec V k tok pos g) \<and> rng' = rng \<and> g' = snd (greedy dec V k tok pos g)"
proof (induction k arbitrary: tok pos g props g' rng')
  case (Suc k)
  obtain st lg g1 where d: "dec tok pos g = (st, lg, g1)" using prod_cases3 by blast
  obtain ps r g2 where rest: "spec_draft m dec V f_zero k (int (argmax_logits lg V)) (pos + 1) rng g1 = (ps, r, g2)" using prod_cases3 by blast
  obtain ts g3 where gr: "greedy dec V k (int (argmax_logits lg V)) (pos + 1) g1 = (ts, g3)" by fastforce
  from Suc.IH [OF rest] Suc.prems show ?case
    by (cases "st = VG_OK") (auto simp: d rest gr best_index_argmax Let_def)
qed simp

lemma spec_verify_greedy:
  assumes "0 < unat V" and "spec_verify m ddec tdec V f_zero props room feed pos rng dg tg = (acc, rng', dg', tg')"
  shows "rng' = rng \<and> dg' = dg \<and>
    (\<exists>k. greedy tdec V k feed pos tg = (acc, tg') \<and> k \<le> min (length props) room \<and>
       (k < min (length props) room \<longrightarrow> 0 < k \<and> (length acc < k \<or> last acc \<noteq> fst (props ! (k - 1)))) \<and>
       butlast acc = take (length acc - 1) (map fst props))"
  using assms(2)
proof (induction props arbitrary: room feed pos tg acc rng' dg' tg')
  case Nil
  then show ?case by (intro conjI exI [of _ 0]) auto
next
  case (Cons tq props)
  obtain t q where tq: "tq = (t, q)" by fastforce
  obtain st lg tg1 where d: "tdec feed pos tg = (st, lg, tg1)" using prod_cases3 by blast
  define best where "best = argmax_logits lg V"
  have b: "best_index (dist_from_logits m lg V f_zero) V = best"
    using best_index_one_hot [OF argmax_logits_range [OF assms(1), of lg]] by (simp add: dist_from_logits_def f_leq_def best_def)
  consider (full) "room = 0" | (failed) "room \<noteq> 0" "st \<noteq> VG_OK" | (reject) "room \<noteq> 0" "st = VG_OK" "t \<noteq> best"
    | (accept) "room \<noteq> 0" "st = VG_OK" "t = best" by blast
  then show ?case
  proof cases
    case full
    with Cons.prems tq show ?thesis by (intro conjI exI [of _ 0]) auto
  next
    case failed
    with Cons.prems tq d show ?thesis by (intro conjI exI [of _ "Suc 0"]) auto
  next
    case reject
    with Cons.prems tq d b show ?thesis by (intro conjI exI [of _ "Suc 0"]) (auto simp: best_def f_leq_def)
  next
    case accept
    obtain acc1 r1 d1 t1 where rest: "spec_verify m ddec tdec V f_zero props (room - 1) (int best) (pos + 1) rng dg tg1 = (acc1, r1, d1, t1)"
      using prod_cases4 by blast
    have eqs: "acc = best # acc1" "rng' = r1" "dg' = d1" "tg' = t1"
      using Cons.prems accept tq d b rest by (auto simp: f_leq_def)
    obtain k where k: "greedy tdec V k (int best) (pos + 1) tg1 = (acc1, t1)" "k \<le> min (length props) (room - 1)"
      "k < min (length props) (room - 1) \<longrightarrow> 0 < k \<and> (length acc1 < k \<or> last acc1 \<noteq> fst (props ! (k - 1)))"
      "butlast acc1 = take (length acc1 - 1) (map fst props)" "r1 = rng \<and> d1 = dg"
      using Cons.IH [OF rest] eqs by blast
    show ?thesis
    proof (intro conjI exI [of _ "Suc k"])
      show "rng' = rng" "dg' = dg" using k(5) eqs by simp_all
      show "greedy tdec V (Suc k) feed pos tg = (acc, tg')" using k(1) accept d eqs by (simp add: best_def)
      show "Suc k \<le> min (length (tq # props)) room" using k(2) accept(1) by (cases room) auto
      show "Suc k < min (length (tq # props)) room \<longrightarrow> 0 < Suc k \<and> (length acc < Suc k \<or> last acc \<noteq> fst ((tq # props) ! (Suc k - 1)))"
      proof
        assume "Suc k < min (length (tq # props)) room"
        then have "k < min (length props) (room - 1)" by (cases room) auto
        with k(3) have "0 < k \<and> (length acc1 < k \<or> last acc1 \<noteq> fst (props ! (k - 1)))" by blast
        then show "0 < Suc k \<and> (length acc < Suc k \<or> last acc \<noteq> fst ((tq # props) ! (Suc k - 1)))"
          by (cases "acc1 = []") (auto simp: eqs(1) nth_Cons')
      qed
      show "butlast acc = take (length acc - 1) (map fst (tq # props))"
        using k(4) eqs(1) tq accept by (cases acc1) auto
    qed
  qed
qed

lemma greedy_length: "length (fst (greedy dec V k tok pos g)) \<le> k"
  by (induction k arbitrary: tok pos g) (auto split: prod.splits, metis fst_conv)

lemma spec_n_draft_bounds: "1 \<le> max_accepted \<Longrightarrow> 1 \<le> spec_n_draft n max_accepted \<and> spec_n_draft n max_accepted \<le> min 64 max_accepted"
  by (simp add: spec_n_draft_def Let_def)

lemma speculative_greedy_aux:
  assumes "sp_draft_graph c = Some d" and "sp_target_graph c = Some t" and "mc_n_vocab (gr_config d) = V" and "mc_n_vocab (gr_config t) = V"
    and "0 < unat V" and "\<not> f_less f_zero (sp_temperature c)" and "1 \<le> max_accepted"
    and "vg_speculative_step m (Some c) tok pos True max_accepted = (acc, Some c')"
    and "pr = fst (greedy (gr_decode d) V (nat (spec_n_draft (sp_n_draft c) max_accepted)) tok pos (gr_state d))"
  shows "\<exists>k tg'. k \<le> length pr \<and> greedy (gr_decode t) V k tok pos (gr_state t) = (acc, tg') \<and>
      c' = c\<lparr>sp_draft_graph := Some (d\<lparr>gr_state := snd (greedy (gr_decode d) V (nat (spec_n_draft (sp_n_draft c) max_accepted)) tok pos (gr_state d))\<rparr>),
        sp_target_graph := Some (t\<lparr>gr_state := tg'\<rparr>)\<rparr> \<and>
      (k < length pr \<longrightarrow> 0 < k \<and> (length acc < k \<or> last acc \<noteq> pr ! (k - 1))) \<and>
      butlast acc = take (length acc - 1) pr"
proof -
  define n where "n = nat (spec_n_draft (sp_n_draft c) max_accepted)"
  define rng0 where "rng0 = (case sp_rng c of Some r \<Rightarrow> r | None \<Rightarrow> (0x9E3779B9 :: u32))"
  obtain props rng1 dg1 where dr: "spec_draft m (gr_decode d) V f_zero n tok pos rng0 (gr_state d) = (props, rng1, dg1)" using prod_cases3 by blast
  obtain acc2 rng2 dg2 tg2 where ve: "spec_verify m (gr_decode d) (gr_decode t) V f_zero props (nat max_accepted) tok pos rng1 dg1 (gr_state t)
      = (acc2, rng2, dg2, tg2)" using prod_cases4 by blast
  note g = spec_draft_greedy [OF dr] and v = spec_verify_greedy [OF assms(5) ve]
  have pr: "pr = map fst props" using g assms(9) by (simp add: n_def)
  have "length props \<le> n" using greedy_length [of "gr_decode d" V n tok pos "gr_state d"] g by (metis length_map)
  moreover have "n \<le> nat max_accepted" using spec_n_draft_bounds [OF assms(7), of "sp_n_draft c"] by (simp add: n_def nat_mono)
  ultimately have mn: "min (length props) (nat max_accepted) = length pr" by (simp add: pr)
  have "vg_speculative_step m (Some c) tok pos True max_accepted =
      (acc2, Some (c\<lparr>sp_draft_graph := Some (d\<lparr>gr_state := dg2\<rparr>), sp_target_graph := Some (t\<lparr>gr_state := tg2\<rparr>),
         sp_rng := map_option (\<lambda>_. rng2) (sp_rng c)\<rparr>))"
    using assms(1-4,6,7) dr ve by (simp add: vg_speculative_step_def Let_def n_def rng0_def)
  moreover have "map_option (\<lambda>_. rng2) (sp_rng c) = sp_rng c" using g v by (cases "sp_rng c") (auto simp: rng0_def)
  ultimately have eqs: "acc = acc2"
      "c' = c\<lparr>sp_draft_graph := Some (d\<lparr>gr_state := snd (greedy (gr_decode d) V n tok pos (gr_state d))\<rparr>), sp_target_graph := Some (t\<lparr>gr_state := tg2\<rparr>)\<rparr>"
    using assms(8) g v by (auto simp: n_def)
  obtain k where "greedy (gr_decode t) V k tok pos (gr_state t) = (acc, tg2)" "k \<le> length pr"
      "k < length pr \<longrightarrow> 0 < k \<and> (length acc < k \<or> last acc \<noteq> fst (props ! (k - 1)))" "butlast acc = take (length acc - 1) pr"
    using v unfolding mn eqs(1) pr by blast
  moreover from this have "k < length pr \<longrightarrow> 0 < k \<and> (length acc < k \<or> last acc \<noteq> pr ! (k - 1))" by (auto simp: pr)
  ultimately show ?thesis using eqs(2) unfolding n_def by blast
qed

text \<open>C13: with a temperature that is not positive a speculative step is plain greedy decoding of the target model: the
  tokens written, and the state the target is left in, are those of some number \<open>k\<close> of greedy steps. It goes on as
  long as the target agrees with the proposals, which are the greedy tokens of the draft model: it stops only
  when they are used up, when the target fails or at the first token where they differ.\<close>

theorem speculative_greedy_exact:
  assumes "sp_draft_graph c = Some d" and "sp_target_graph c = Some t" and "mc_n_vocab (gr_config d) = V" and "mc_n_vocab (gr_config t) = V"
    and "0 < unat V" and "\<not> f_less f_zero (sp_temperature c)" and "1 \<le> max_accepted"
    and "vg_speculative_step m (Some c) tok pos True max_accepted = (acc, Some c')"
    and "pr = fst (greedy (gr_decode d) V (nat (spec_n_draft (sp_n_draft c) max_accepted)) tok pos (gr_state d))"
  shows "\<exists>k tg'. k \<le> length pr \<and> greedy (gr_decode t) V k tok pos (gr_state t) = (acc, tg') \<and>
      sp_target_graph c' = Some (t\<lparr>gr_state := tg'\<rparr>) \<and> sp_rng c' = sp_rng c \<and>
      (k < length pr \<longrightarrow> 0 < k \<and> (length acc < k \<or> last acc \<noteq> pr ! (k - 1))) \<and>
      butlast acc = take (length acc - 1) pr"
  using speculative_greedy_aux [OF assms] by force

section \<open>Every mode\<close>

lemma reach_single_bound: "reach_single r acc i xs = Some j \<Longrightarrow> j < i + length xs"
  by (induction xs arbitrary: acc i) (fastforce simp: Let_def split: if_splits)+

lemma reach_double_bound: "reach_double r acc i xs = Some j \<Longrightarrow> j < i + length xs"
  by (induction xs arbitrary: acc i) (fastforce simp: Let_def split: if_splits)+

lemma reach_positive_bound: "reach_positive r acc i xs = Some j \<Longrightarrow> j < i + length xs"
  by (induction xs arbitrary: acc i) (fastforce simp: Let_def split: if_splits)+

lemma last_token: "0 < unat V \<Longrightarrow> unat ((V :: u32) - 1) < unat V"
  by (metis measure_unat unat_0 less_irrefl)

lemma sample_from_bound: "0 < unat V \<Longrightarrow> fst (sample_from p V rng) < unat V"
  by (auto simp: sample_from_def last_token split: prod.splits option.splits dest!: reach_single_bound)

lemma sample_residual_bound: "0 < unat V \<Longrightarrow> fst (sample_residual p q V rng) < unat V"
  by (auto simp: sample_residual_def Let_def last_token split: prod.splits option.splits dest!: reach_double_bound reach_positive_bound)

lemma spec_draft_bound:
  "0 < unat V \<Longrightarrow> spec_draft m dec V temp k tok pos rng g = (props, rng', g') \<Longrightarrow> length props \<le> k \<and> (\<forall>p \<in> set props. fst p < unat V)"
proof (induction k arbitrary: tok pos rng g props g' rng')
  case (Suc k)
  obtain st lg g1 where d: "dec tok pos g = (st, lg, g1)" using prod_cases3 by blast
  obtain t rng1 where t: "(if f_less f_zero temp then sample_from (dist_from_logits m lg V temp) V rng else (best_index lg V, rng)) = (t, rng1)"
    by fastforce
  have "t < unat V" using t sample_from_bound [OF Suc.prems(1), of "dist_from_logits m lg V temp" rng] argmax_logits_range [OF Suc.prems(1), of lg]
    by (auto simp: best_index_argmax split: if_splits)
  moreover obtain ps r g2 where rest: "spec_draft m dec V temp k (int t) (pos + 1) rng1 g1 = (ps, r, g2)" using prod_cases3 by blast
  ultimately show ?case using Suc.IH [OF Suc.prems(1) rest] Suc.prems(2) d by (auto simp: t rest Let_def split: if_splits)
qed simp

lemma spec_verify_bound:
  "0 < unat V \<Longrightarrow> spec_verify m ddec tdec V temp props room feed pos rng dg tg = (acc, rng', dg', tg') \<Longrightarrow> \<forall>p \<in> set props. fst p < unat V \<Longrightarrow>
    length acc \<le> min (length props) room \<and> (\<forall>t \<in> set acc. t < unat V)"
proof (induction props arbitrary: room feed pos rng dg tg acc rng' dg' tg')
  case (Cons tq props)
  obtain t q where tq: "tq = (t, q)" by fastforce
  obtain st lg tg1 where d: "tdec feed pos tg = (st, lg, tg1)" using prod_cases3 by blast
  obtain dst dlg dg1 where dd: "ddec feed pos dg = (dst, dlg, dg1)" using prod_cases3 by blast
  obtain u rng1 where u: "rand_unit rng = (u, rng1)" by fastforce
  define pt where "pt = dist_from_logits m lg V temp"
  define pd where "pd = (if dst = VG_OK then dist_from_logits m dlg V temp else replicate (unat V) f_zero)"
  obtain x rng2 where x: "sample_residual pd pt V rng1 = (x, rng2)" by fastforce
  have lt: "t < unat V" "best_index pt V < unat V" "x < unat V"
    using Cons.prems(3) tq argmax_logits_range [OF Cons.prems(1)] sample_residual_bound [OF Cons.prems(1), of pd pt rng1] x
    by (auto simp: best_index_argmax)
  have step: "spec_verify m ddec tdec V temp (tq # props) room feed pos rng dg tg =
      (if room = 0 then ([], rng, dg, tg) else if st \<noteq> VG_OK then ([], rng, dg, tg1)
       else if f_leq temp f_zero then
         (if t = best_index pt V then (case spec_verify m ddec tdec V temp props (room - 1) (int t) (pos + 1) rng dg tg1 of
            (acc, rng2, dg2, tg2) \<Rightarrow> (t # acc, rng2, dg2, tg2)) else ([best_index pt V], rng, dg, tg1))
       else if f_leq u (accept_prob q (pt ! t)) then (case spec_verify m ddec tdec V temp props (room - 1) (int t) (pos + 1) rng1 dg tg1 of
            (acc, rng2, dg2, tg2) \<Rightarrow> (t # acc, rng2, dg2, tg2)) else ([x], rng2, dg1, tg1))"
    by (simp add: tq d u dd pt_def [symmetric] pd_def [symmetric] x Let_def del: best_index_argmax)
  have IH: "length acc1 \<le> min (length props) (room - 1) \<and> (\<forall>t \<in> set acc1. t < unat V)"
    if "spec_verify m ddec tdec V temp props (room - 1) (int t) (pos + 1) r dg tg1 = (acc1, r', d', t')" for r acc1 r' d' t'
    using Cons.IH [OF Cons.prems(1) that] Cons.prems(3) by simp
  have acc: "acc = [] \<or> room \<noteq> 0 \<and> (acc = [best_index pt V] \<or> acc = [x] \<or>
      (\<exists>r acc1 r' d' t'. spec_verify m ddec tdec V temp props (room - 1) (int t) (pos + 1) r dg tg1 = (acc1, r', d', t') \<and> acc = t # acc1))"
    using Cons.prems(2) unfolding step by (auto split: if_splits prod.splits)
  then show ?case
  proof (elim disjE conjE exE)
    fix r acc1 r' d' t'
    assume "room \<noteq> 0" "acc = t # acc1" "spec_verify m ddec tdec V temp props (room - 1) (int t) (pos + 1) r dg tg1 = (acc1, r', d', t')"
    with IH lt(1) show ?thesis by fastforce
  qed (use lt in auto)
qed auto

text \<open>in every mode a speculative step writes at most as many tokens as were asked for, at most 64, and each is a token
  of the vocabulary; a refused call writes none and changes nothing.\<close>

theorem speculative_step_bounds:
  assumes "sp_target_graph c = Some t" and "V = mc_n_vocab (gr_config t)" and "0 < unat V"
    and "vg_speculative_step m (Some c) tok pos has_accepted max_accepted = (acc, c')"
  shows "length acc \<le> min 64 (nat max_accepted) \<and> (\<forall>x \<in> set acc. x < unat V) \<and>
    (\<not> has_accepted \<or> max_accepted < 1 \<or> sp_draft_graph c = None \<longrightarrow> acc = [] \<and> c' = Some c)"
proof (cases "has_accepted \<and> 1 \<le> max_accepted \<and> (\<exists>d. sp_draft_graph c = Some d \<and> mc_n_vocab (gr_config d) = V)")
  case False
  then show ?thesis using assms by (auto simp: vg_speculative_step_def split: option.splits)
next
  case True
  then obtain d where d: "sp_draft_graph c = Some d" "mc_n_vocab (gr_config d) = V" by blast
  define n where "n = nat (spec_n_draft (sp_n_draft c) max_accepted)"
  define rng0 where "rng0 = (case sp_rng c of Some r \<Rightarrow> r | None \<Rightarrow> (0x9E3779B9 :: u32))"
  define temp where "temp = (if f_less f_zero (sp_temperature c) then sp_temperature c else f_zero)"
  obtain props rng1 dg1 where dr: "spec_draft m (gr_decode d) V temp n tok pos rng0 (gr_state d) = (props, rng1, dg1)" using prod_cases3 by blast
  obtain acc2 rng2 dg2 tg2 where ve: "spec_verify m (gr_decode d) (gr_decode t) V temp props (nat max_accepted) tok pos rng1 dg1 (gr_state t)
      = (acc2, rng2, dg2, tg2)" using prod_cases4 by blast
  have "acc = acc2" using True d assms dr ve by (simp add: vg_speculative_step_def Let_def n_def rng0_def temp_def)
  moreover have "length props \<le> n \<and> (\<forall>p \<in> set props. fst p < unat V)" by (rule spec_draft_bound [OF assms(3) dr])
  moreover have "n \<le> min 64 (nat max_accepted)"
    using True spec_n_draft_bounds [of max_accepted "sp_n_draft c"] by (auto simp: n_def)
  ultimately show ?thesis using spec_verify_bound [OF assms(3) ve] True d by auto
qed

section \<open>Witnesses\<close>

text \<open>A draft that always proposes token 1 and a target that wants token 0 at position 1.\<close>

definition turn_decoder :: "unit decoder" where
  "turn_decoder t p g = (VG_OK, if p = 1 then [f_one, f_zero] else [f_zero, f_one], g)"

definition spec_config :: "(unit, unit) vg_speculativeconfig" where
  "spec_config = \<lparr>sp_draft_graph = Some \<lparr>gr_config = two_model, gr_decode = two_decoder, gr_state = ()\<rparr>,
     sp_target_graph = Some \<lparr>gr_config = two_model, gr_decode = turn_decoder, gr_state = ()\<rparr>,
     sp_n_draft = 3, sp_temperature = f_zero, sp_rng = None\<rparr>"

lemma argmax_two: "argmax_logits [f_zero, f_one] 2 = 1" "argmax_logits [f_one, f_zero] 2 = 0"
  by (simp_all add: argmax_logits_def unat_eq_nat_uint upt_rec signed_mant_def)

lemma dist_two: "dist_from_logits m [f_zero, f_one] 2 f_zero = [f_zero, f_one]" "dist_from_logits m [f_one, f_zero] 2 f_zero = [f_one, f_zero]"
  by (simp_all add: dist_from_logits_def argmax_two [unfolded One_nat_def] f_leq_def unat_eq_nat_uint numeral_2_eq_2)

lemma spec_run: "vg_speculative_step flat_libm (Some spec_config) 0 0 True 8 = ([1, 0], Some spec_config)"
  by (simp add: vg_speculative_step_def spec_config_def two_model_def spec_n_draft_def Let_def numeral_3_eq_3 two_decoder_def turn_decoder_def
    best_index_argmax dist_two [unfolded One_nat_def] argmax_two [unfolded One_nat_def] f_leq_def)

lemma draft_run: "fst (greedy two_decoder 2 3 0 0 ()) = [1, 1, 1]"
  by (simp add: numeral_3_eq_3 two_decoder_def argmax_two [unfolded One_nat_def])

theorem speculative_greedy_exact_witness:
  "\<exists>k tg'. k \<le> 3 \<and> greedy turn_decoder 2 k 0 0 () = ([1, 0], tg') \<and> butlast [1, 0] = take (length [1, 0] - 1) [1, 1, 1]"
  using speculative_greedy_exact [of spec_config "\<lparr>gr_config = two_model, gr_decode = two_decoder, gr_state = ()\<rparr>"
      "\<lparr>gr_config = two_model, gr_decode = turn_decoder, gr_state = ()\<rparr>" 2 8 flat_libm 0 0 "[1, 0]" spec_config "[1, 1, 1]", OF _ _ _ _ _ _ _ spec_run]
  using draft_run by (auto simp: spec_config_def two_model_def spec_n_draft_def Let_def numeral_3_eq_3)

theorem speculative_step_bounds_witness: "length [1, 0 :: nat] \<le> min 64 (nat 8) \<and> list_all (\<lambda>x. x < unat (2 :: u32)) [1, 0]"
proof -
  have t: "sp_target_graph spec_config = Some \<lparr>gr_config = two_model, gr_decode = turn_decoder, gr_state = ()\<rparr>"
    by (simp add: spec_config_def)
  have V: "2 = mc_n_vocab (gr_config \<lparr>gr_config = two_model, gr_decode = turn_decoder, gr_state = ()\<rparr>)" "0 < unat (2 :: u32)"
    by (simp_all add: two_model_def)
  have "length [1, 0 :: nat] \<le> min 64 (nat 8) \<and> (\<forall>x \<in> set [1, 0]. x < unat (2 :: u32))"
    using speculative_step_bounds [OF t V spec_run] by (elim conjE) (intro conjI)
  then show ?thesis unfolding list_all_iff .
qed

end
