(* ===== verification/Generate.thy ===== *)
theory Generate
  imports Probe Tokenizer
begin

text \<open>
  \<^verbatim>\<open>vg_generate\<close> of \<^verbatim>\<open>src/native_engine.c\<close> as a whole: opening the file, asking the probe, the tensor
  source, the graph, the adapter and the tokenizer, generating, and giving everything back on every path. What is opened and
  given back is recorded as a list of events.
\<close>

section \<open>The system around the engine\<close>

text \<open>
  What the engine finds around it: the readable files by path, what mapping and direct opening answer, the number of
  processors, the state of the thread pool and the order in which its workers run, the C library and the contents of fresh
  memory.
\<close>

record gen_host =
  ho_file :: "bytes \<Rightarrow> bytes option"
  ho_io :: io_env
  ho_cores :: int
  ho_cpu :: cpu_state
  ho_sched :: "(u32 \<times> u32) list \<Rightarrow> (u32 \<times> u32) list"
  ho_libm :: libm
  ho_strtod :: "bytes \<Rightarrow> flt \<times> bytes"
  ho_strtof :: "bytes \<Rightarrow> flt"
  ho_junk :: "nat \<Rightarrow> flt list"

definition open_file :: "gen_host \<Rightarrow> bytes \<Rightarrow> open_result" where
  "open_file h path = (case ho_file h path of None \<Rightarrow> OpenFailed VG_E_IO | Some b \<Rightarrow> vg_gguf_open b)"

datatype gen_part = GP_File | GP_Source | GP_Graph | GP_LoraFile | GP_Lora | GP_Tokenizer

datatype gen_event = Acquired gen_part | Released gen_part

definition released :: "gen_part list \<Rightarrow> gen_event list" where
  "released ps = map Released ps"

section \<open>Steps of the opening\<close>

definition gen_tsconfig :: "vg_generateconfig option \<Rightarrow> vg_tensorsourceconfig" where
  "gen_tsconfig config =
     \<lparr>tc_host_budget_bytes = 256 * 1024 * 1024, tc_pinned_budget_bytes = 0, tc_device_budget_bytes = 0, tc_io_chunk_bytes = 4 * 1024 * 1024,
      tc_io_workers = 0, tc_prefetch_depth = 0, tc_use_mmap = (case config of Some c \<Rightarrow> gc_use_mmap c \<noteq> 0 | None \<Rightarrow> True),
      tc_use_direct_io = False\<rparr>"

text \<open>\<^verbatim>\<open>lora_scale != 0.0f\<close>, which holds for a NaN too.\<close>

definition lora_scale_of :: "vg_generateconfig \<Rightarrow> flt" where
  "lora_scale_of c =
     (let s = gc_lora_scale c in if s = FNan \<or> f_less f_zero s \<or> f_less s f_zero then s else f_one)"

text \<open>
  The adapter: a status with what had been opened and was given back again, or the adapter with what stays open.
  \<open>None\<close> is undefined behaviour.
\<close>

definition open_adapter :: "gen_host \<Rightarrow> bytes \<Rightarrow> ((vg_status \<times> gen_event list) + vg_loraadapter) option" where
  "open_adapter h path =
     (case open_file h path of
        OpenUndef \<Rightarrow> None
      | OpenFailed st \<Rightarrow> Some (Inl (st, []))
      | Opened lf \<Rightarrow>
          (case vg_lora_load (ho_io h) (Some lf) of
             None \<Rightarrow> None
           | Some ((st, ad), lf') \<Rightarrow>
               (case ad of
                  None \<Rightarrow> Some (Inl (VG_E_FORMAT, [Acquired GP_LoraFile, Released GP_LoraFile]))
                | Some a \<Rightarrow>
                    if st \<noteq> VG_OK \<or> vg_lora_target_count (Some a) = 0
                    then Some (Inl (VG_E_FORMAT, [Acquired GP_LoraFile, Acquired GP_Lora, Released GP_Lora, Released GP_LoraFile]))
                    else Some (Inr a))))"

definition wants_adapter :: "vg_generateconfig option \<Rightarrow> (vg_generateconfig \<times> bytes) option" where
  "wants_adapter config =
     (case config of
        None \<Rightarrow> None
      | Some c \<Rightarrow> (case gc_lora_path c of Some path \<Rightarrow> if path \<noteq> [] then Some (c, path) else None | None \<Rightarrow> None))"

text \<open>The tokens of the prompt; an empty prompt is not encoded. \<open>None\<close> is undefined behaviour of the encoder.\<close>

definition encode_prompt :: "vg_tokenizer \<Rightarrow> bytes option \<Rightarrow> int list option" where
  "encode_prompt tok prompt =
     (case prompt of
        None \<Rightarrow> Some []
      | Some p \<Rightarrow>
          (if p = [] then Some []
           else (case vg_tokenizer_encode (Some tok) (Some p) 0 of
                   None \<Rightarrow> None
                 | Some (ids, n) \<Rightarrow> if n > 0 then map_option fst (vg_tokenizer_encode (Some tok) (Some p) n) else Some [])))"

definition view_of :: "vg_tokenizer \<Rightarrow> int list \<Rightarrow> tok_view" where
  "view_of tok prompt =
     \<lparr>tv_prompt = prompt, tv_add_bos = vg_tokenizer_add_bos (Some tok), tv_bos_id = vg_tokenizer_bos_id (Some tok),
      tv_eos_id = vg_tokenizer_eos_id (Some tok), tv_decode = (\<lambda>t. decode_bytes tok t)\<rparr>"

definition engine_env :: "gen_host \<Rightarrow> vg_generateconfig option \<Rightarrow> vg_gguf \<Rightarrow> vg_tensorsource \<Rightarrow> genv" where
  "engine_env h config g src =
     \<lparr>en_libm = ho_libm h,
      en_cpu = snd (vg_cpu_set_threads (ho_cores h) (case config of Some c \<Rightarrow> gc_n_threads c | None \<Rightarrow> 0) (ho_cpu h)),
      en_sched = ho_sched h, en_io = ho_io h, en_file = g, en_source = Some src, en_strtof = ho_strtof h, en_junk = ho_junk h\<rparr>"

section \<open>Generation\<close>

text \<open>
  With file, source and graph open: the tokenizer, the prompt and the loop. \<open>parts\<close> are the adapter and its file when there
  is one, in the order they are given back.
\<close>

definition run_model ::
  "gen_host \<Rightarrow> genv \<Rightarrow> vg_modelprobe \<Rightarrow> vg_generateconfig option \<Rightarrow> bytes option \<Rightarrow> (bytes \<Rightarrow> nat \<Rightarrow> int \<Rightarrow> 'u \<Rightarrow> bool \<times> 'u) option
     \<Rightarrow> gen_part list \<Rightarrow> vg_modelgraph \<Rightarrow> 'u \<Rightarrow> (vg_status \<times> gen_event list \<times> 'u) option" where
  "run_model h en pr config prompt callback parts gr0 u =
     (let gr = the (vg_model_graph_reset (Some gr0)); mc = mg_cfg gr
      in case (if mp_has_tokenizer pr then vg_tokenizer_load (ho_strtod h) (Some (en_file en)) else Inl VG_E_UNSUPPORTED) of
           Inl st \<Rightarrow> Some (VG_E_UNSUPPORTED, released (parts @ [GP_Graph, GP_Source, GP_File]), u)
         | Inr tok \<Rightarrow>
             (case encode_prompt tok prompt of
                None \<Rightarrow> None
              | Some ids \<Rightarrow>
                  (case generate (ho_libm h) config mc (view_of tok ids) (graph_decoder en) callback (ho_junk h (unat (mc_n_vocab mc))) gr u of
                     (st, gr', u') \<Rightarrow>
                       Some (st, Acquired GP_Tokenizer # released ([GP_Tokenizer, GP_Graph] @ parts @ [GP_Source, GP_File]), u'))))"

definition after_graph ::
  "gen_host \<Rightarrow> genv \<Rightarrow> vg_modelprobe \<Rightarrow> vg_generateconfig option \<Rightarrow> bytes option \<Rightarrow> (bytes \<Rightarrow> nat \<Rightarrow> int \<Rightarrow> 'u \<Rightarrow> bool \<times> 'u) option
     \<Rightarrow> vg_modelgraph \<Rightarrow> 'u \<Rightarrow> (vg_status \<times> gen_event list \<times> 'u) option" where
  "after_graph h en pr config prompt callback gr u =
     (case wants_adapter config of
        None \<Rightarrow> run_model h en pr config prompt callback [] gr u
      | Some (c, path) \<Rightarrow>
          (case open_adapter h path of
             None \<Rightarrow> None
           | Some (Inl (st, evs)) \<Rightarrow> Some (st, evs @ released [GP_Graph, GP_Source, GP_File], u)
           | Some (Inr ad) \<Rightarrow>
               (let gr1 = the (snd (vg_model_graph_set_lora (Some ad) (lora_scale_of c) (Some gr)))
                in map_option (\<lambda>(st, evs, u'). (st, [Acquired GP_LoraFile, Acquired GP_Lora] @ evs, u'))
                     (run_model h en pr config prompt callback [GP_Lora, GP_LoraFile] gr1 u))))"

text \<open>The status, the events and the state of the callback; \<open>None\<close> is undefined behaviour.\<close>

definition vg_generate ::
  "gen_host \<Rightarrow> bytes option \<Rightarrow> bytes option \<Rightarrow> vg_generateconfig option \<Rightarrow> (bytes \<Rightarrow> nat \<Rightarrow> int \<Rightarrow> 'u \<Rightarrow> bool \<times> 'u) option \<Rightarrow> 'u
     \<Rightarrow> (vg_status \<times> gen_event list \<times> 'u) option" where
  "vg_generate h model_path prompt config callback u =
     (case model_path of
        None \<Rightarrow> Some (VG_E_INVALID, [], u)
      | Some path \<Rightarrow>
          (case open_file h path of
             OpenUndef \<Rightarrow> None
           | OpenFailed st \<Rightarrow> Some (st, [], u)
           | Opened g \<Rightarrow>
               (let pr = the (snd (vg_model_probe (Some g) True))
                in if \<not> mp_ok pr then
                     Some (if mp_status pr = VG_OK then VG_E_UNSUPPORTED else mp_status pr, Acquired GP_File # released [GP_File], u)
                   else (case vg_tensor_source_open (Some g) (Some (gen_tsconfig config)) of
                           Inl st \<Rightarrow> Some (st, Acquired GP_File # released [GP_File], u)
                         | Inr src \<Rightarrow>
                             (let en = engine_env h config g src
                              in case vg_model_graph_load en of
                                   Inl st \<Rightarrow> Some (st, [Acquired GP_File, Acquired GP_Source] @ released [GP_Source, GP_File], u)
                                 | Inr gr \<Rightarrow>
                                     map_option (\<lambda>(st, evs, u'). (st, [Acquired GP_File, Acquired GP_Source, Acquired GP_Graph] @ evs, u'))
                                       (after_graph h en pr config prompt callback gr u))))))"

end
