(* ===== verification/Generate_Props.thy ===== *)
theory Generate_Props
  imports Generate Probe_Props
begin

text \<open>
  Properties of \<^verbatim>\<open>vg_generate\<close> as a whole: the lifetimes of what it opens, over the order in which the parts are built
  on each other, and that only accepted models are run.
\<close>

section \<open>Lifetimes\<close>

text \<open>What a part is built on: it may only be opened while these are open, and they may not be given back before it.\<close>

fun built_on :: "gen_part \<Rightarrow> gen_part list" where
  "built_on GP_File = []"
| "built_on GP_Source = [GP_File]"
| "built_on GP_Graph = [GP_File, GP_Source]"
| "built_on GP_LoraFile = []"
| "built_on GP_Lora = [GP_LoraFile]"
| "built_on GP_Tokenizer = [GP_File]"

text \<open>The parts that are open after some events; \<open>None\<close> if one is opened twice, given back when it is not open, or too early.\<close>

fun lifetime :: "gen_part list \<Rightarrow> gen_event list \<Rightarrow> gen_part list option" where
  "lifetime live [] = Some live"
| "lifetime live (Acquired p # es) = (if p \<notin> set live \<and> set (built_on p) \<subseteq> set live then lifetime (p # live) es else None)"
| "lifetime live (Released p # es) =
     (if p \<in> set live \<and> (\<forall>q \<in> set live. p \<notin> set (built_on q)) then lifetime (removeAll p live) es else None)"

lemma open_failed: "open_file h path = OpenFailed st \<Longrightarrow> st \<noteq> VG_OK"
  by (auto simp: open_file_def vg_gguf_open_def split: option.splits if_splits)

lemma load_failed: "vg_model_graph_load en = Inl st \<Longrightarrow> st \<noteq> VG_OK"
  by (auto simp: vg_model_graph_load_def Let_def split: option.splits)

definition reached :: "gen_event list \<Rightarrow> bool" where
  "reached evs \<longleftrightarrow> Acquired GP_Tokenizer \<in> set evs"

lemma run_model_parts:
  assumes "run_model h en pr config prompt callback parts gr u = Some (st, evs, u')"
  shows "(\<not> reached evs \<longrightarrow> evs = released (parts @ [GP_Graph, GP_Source, GP_File]) \<and> st = VG_E_UNSUPPORTED \<and> u' = u) \<and>
    (reached evs \<longrightarrow> evs = Acquired GP_Tokenizer # released ([GP_Tokenizer, GP_Graph] @ parts @ [GP_Source, GP_File]))"
  using assms by (auto simp: run_model_def Let_def reached_def released_def split: sum.splits option.splits prod.splits if_splits)

lemma open_adapter_parts:
  assumes "open_adapter h path = Some (Inl (st, evs))"
  shows "st \<noteq> VG_OK \<and> (evs = [] \<or> evs = [Acquired GP_LoraFile, Released GP_LoraFile] \<or>
    evs = [Acquired GP_LoraFile, Acquired GP_Lora, Released GP_Lora, Released GP_LoraFile])"
  using assms by (auto simp: open_adapter_def split: open_result.splits option.splits prod.splits if_splits dest: open_failed)

lemma after_graph_parts:
  assumes "after_graph h en pr config prompt callback gr u = Some (st, evs, u')"
  shows "lifetime [GP_Graph, GP_Source, GP_File] evs = Some [] \<and> (st = VG_OK \<longrightarrow> reached evs) \<and> (\<not> reached evs \<longrightarrow> u' = u)"
proof (cases "wants_adapter config")
  case None
  then have r: "run_model h en pr config prompt callback [] gr u = Some (st, evs, u')" using assms by (simp add: after_graph_def)
  show ?thesis using run_model_parts [OF r] by (cases "reached evs") (auto simp: released_def)
next
  case (Some cp)
  obtain c path where cp: "cp = (c, path)" by fastforce
  show ?thesis
  proof (cases "open_adapter h path")
    case None
    then show ?thesis using assms Some cp by (simp add: after_graph_def)
  next
    case (Some r)
    note o = this
    show ?thesis
    proof (cases r)
      case (Inl a)
      obtain st1 evs1 where a: "a = (st1, evs1)" by fastforce
      have e: "st = st1" "evs = evs1 @ released [GP_Graph, GP_Source, GP_File]" "u' = u"
        using assms \<open>wants_adapter config = Some cp\<close> cp o Inl a by (simp_all add: after_graph_def)
      show ?thesis using open_adapter_parts [OF o [unfolded Inl a]] e by (auto simp: released_def reached_def)
    next
      case (Inr ad)
      then obtain evs1 where r: "run_model h en pr config prompt callback [GP_Lora, GP_LoraFile]
            (the (snd (vg_model_graph_set_lora (Some ad) (lora_scale_of c) (Some gr)))) u = Some (st, evs1, u')"
        and e: "evs = [Acquired GP_LoraFile, Acquired GP_Lora] @ evs1"
        using assms \<open>wants_adapter config = Some cp\<close> cp o by (auto simp: after_graph_def Let_def)
      show ?thesis using run_model_parts [OF r] unfolding e by (cases "reached evs1") (auto simp: released_def reached_def)
    qed
  qed
qed

text \<open>C19: whatever the files hold and whichever step fails, everything \<^verbatim>\<open>vg_generate\<close> opens is given back exactly
  once, after all that is built on it; only a model the probe accepts is ever run, the callback is not called before everything
  is open, and the answer is OK only after a run.\<close>

theorem generate_lifetimes:
  assumes "vg_generate h model_path prompt config callback u = Some (st, evs, u')"
  shows "lifetime [] evs = Some [] \<and> (st = VG_OK \<longrightarrow> Acquired GP_Tokenizer \<in> set evs) \<and> (Acquired GP_Tokenizer \<notin> set evs \<longrightarrow> u' = u) \<and>
    (Acquired GP_Graph \<in> set evs \<longrightarrow> (\<exists>path g p. model_path = Some path \<and> open_file h path = Opened g \<and>
       vg_model_probe (Some g) True = (VG_OK, Some p) \<and> model_fits g p))"
proof (cases model_path)
  case None
  then show ?thesis using assms by (auto simp: vg_generate_def)
next
  case (Some path)
  note m = this
  show ?thesis
  proof (cases "open_file h path")
    case (Opened g)
    obtain st0 r where r: "vg_model_probe (Some g) True = (st0, r)" by fastforce
    obtain p p0 where p: "st0 = VG_OK" "r = Some p" "judged g p0 p" using probe_judged [OF r] by blast
    show ?thesis
    proof (cases "mp_ok p")
      case False
      then have "st \<noteq> VG_OK \<and> evs = [Acquired GP_File, Released GP_File] \<and> u' = u"
        using assms m Opened r p by (auto simp: vg_generate_def released_def judged_def split: if_splits)
      then show ?thesis by auto
    next
      case True
      obtain src where src: "vg_tensor_source_open (Some g) (Some (gen_tsconfig config)) = Inr src" by (simp add: vg_tensor_source_open_def Let_def)
      show ?thesis
      proof (cases "vg_model_graph_load (engine_env h config g src)")
        case (Inl st1)
        then have "st \<noteq> VG_OK \<and> evs = [Acquired GP_File, Acquired GP_Source, Released GP_Source, Released GP_File] \<and> u' = u"
          using assms m Opened r p True src load_failed [OF Inl] by (simp add: vg_generate_def released_def)
        then show ?thesis by auto
      next
        case (Inr gr)
        then obtain evs1 where a: "after_graph h (engine_env h config g src) p config prompt callback gr u = Some (st, evs1, u')"
          and e: "evs = [Acquired GP_File, Acquired GP_Source, Acquired GP_Graph] @ evs1"
          using assms m Opened r p True src by (auto simp: vg_generate_def)
        show ?thesis using after_graph_parts [OF a] m Opened r p True unfolding e by (auto simp: reached_def judged_def)
      qed
    qed
  next
    case (OpenFailed st1)
    then show ?thesis using assms m open_failed [OF OpenFailed] by (auto simp: vg_generate_def)
  next
    case OpenUndef
    then show ?thesis using assms m by (simp add: vg_generate_def)
  qed
qed

section \<open>Witness\<close>

definition tiny_host :: gen_host where
  "tiny_host = \<lparr>ho_file = (\<lambda>path. Some tiny_file), ho_io = en_io tiny_env, ho_cores = 1, ho_cpu = cpu_start, ho_sched = en_sched tiny_env,
     ho_libm = flat_libm, ho_strtod = (\<lambda>s. (f_zero, s)), ho_strtof = (\<lambda>s. f_zero), ho_junk = (\<lambda>n. replicate n f_zero)\<rparr>"

lemma tiny_refused:
  "\<exists>st. vg_generate tiny_host (Some [109]) None None None () = Some (st, [Acquired GP_File, Released GP_File], ())"
proof -
  have o: "open_file tiny_host [109] = Opened tiny_gguf" by (simp add: open_file_def tiny_host_def tiny_open)
  obtain st0 r where r: "vg_model_probe (Some tiny_gguf) True = (st0, r)" by fastforce
  obtain p p0 where p: "r = Some p" "judged tiny_gguf p0 p" using probe_judged [OF r] by blast
  have "\<not> arch_supported [120]" by (simp add: arch_supported_def k_archs_def cstr_def byte_simps)
  then have "\<not> mp_ok p" using p(2) by (auto simp: judged_def model_fits_def tiny_meta_value)
  then show ?thesis using o r p(1) by (simp add: vg_generate_def released_def)
qed

theorem generate_lifetimes_witness:
  "\<exists>st. vg_generate tiny_host (Some [109]) None None None () = Some (st, [Acquired GP_File, Released GP_File], ()) \<and> st \<noteq> VG_OK \<and>
     lifetime [] [Acquired GP_File, Released GP_File] = Some []"
proof -
  obtain st where r: "vg_generate tiny_host (Some [109]) None None None () = Some (st, [Acquired GP_File, Released GP_File], ())" using tiny_refused by blast
  from generate_lifetimes [OF r] r show ?thesis by auto
qed

end
