(* ===== verification/Cli.thy ===== *)
theory Cli
  imports Generate Speculative
begin

text \<open>
  The command line program of \<^verbatim>\<open>src/main.c\<close>, built with the full engine and without Vulkan: the commands it
  knows, their exit codes, the sampler and the loops of its own, and the driver of speculative decoding. What goes to the error
  stream is left out, and so are the commands that only print numbers of a file.
\<close>

section \<open>Commands\<close>

datatype command =
    NoVulkan
  | CpuInfer bytes "bytes option"
  | ProbeCmd bytes
  | PluginInfo bytes
  | SpecCmd bytes "bytes option" int
  | Inspect bytes
  | Diagnostics bytes
  | TokenizeCmd bytes bytes
  | LogitsDump bytes "bytes option"
  | ChatMode bytes bytes
  | StreamCmd bytes bytes
  | Usage

definition spec_count :: "bytes \<Rightarrow> int" where
  "spec_count arg = to_int32 (fst (strtol arg))"

text \<open>The arguments after the name of the program.\<close>

definition dispatch :: "bytes list \<Rightarrow> command" where
  "dispatch args =
     (let n = length args; cmd = (case args of [] \<Rightarrow> [] | a # _ \<Rightarrow> a); is = (\<lambda>s. cmd = cstr s)
      in if n = 1 \<and> (is ''--vulkan-info'' \<or> is ''--vulkan-self-test'') then NoVulkan
         else if n = 2 \<and> is ''--cpu-infer'' then CpuInfer (args ! 1) None
         else if n = 3 \<and> is ''--cpu-infer'' then CpuInfer (args ! 1) (Some (args ! 2))
         else if n = 2 \<and> is ''probe'' then ProbeCmd (args ! 1)
         else if n = 2 \<and> is ''plugin-info'' then PluginInfo (args ! 1)
         else if n \<ge> 2 \<and> is ''spec'' then
           (let k = (if n > 3 then spec_count (args ! 3) else 16)
            in SpecCmd (args ! 1) (if n > 2 \<and> args ! 2 \<noteq> [] then Some (args ! 2) else None) (if k \<le> 0 \<or> k > 512 then 16 else k))
         else if n = 2 \<and> is ''inspect'' then Inspect (args ! 1)
         else if n = 2 \<and> is ''diagnostics'' then Diagnostics (args ! 1)
         else if n = 3 \<and> is ''tokenize'' then TokenizeCmd (args ! 1) (args ! 2)
         else if n = 2 \<and> is ''logits'' then LogitsDump (args ! 1) None
         else if n = 3 \<and> is ''logits'' then LogitsDump (args ! 1) (Some (args ! 2))
         else if n \<ge> 2 \<and> is ''chat'' then ChatMode (args ! 1) (if n > 2 then args ! 2 else [])
         else if n = 3 \<and> is ''stream'' then StreamCmd (args ! 1) (args ! 2)
         else Usage)"

section \<open>Reports\<close>

text \<open>A command answers its exit code and what it prints; \<open>None\<close> is undefined behaviour.\<close>

definition probe_cmd :: "gen_host \<Rightarrow> bytes \<Rightarrow> (int \<times> bytes) option" where
  "probe_cmd h path =
     (case open_file h path of
        OpenUndef \<Rightarrow> None
      | OpenFailed st \<Rightarrow> Some (2, [])
      | Opened g \<Rightarrow>
          (case vg_model_probe (Some g) True of
             (st, r) \<Rightarrow> (let report = the (vg_model_probe_report r True 2048) @ [10]
                        in Some (if st \<noteq> VG_OK then 2 else if mp_ok (the r) then 0 else 3, report))))"

text \<open>One line per token: its index, its id and its piece up to 255 bytes or a NUL.\<close>

definition tokenize_line :: "vg_tokenizer \<Rightarrow> nat \<Rightarrow> int \<Rightarrow> bytes" where
  "tokenize_line tok i t = cstr ''  ['' @ dec i @ cstr ''] '' @ dec_int t @ cstr '' '' @ c_string (fst (vg_tokenizer_decode (Some tok) t 256)) @ [10]"

definition tokenize_cmd :: "gen_host \<Rightarrow> bytes \<Rightarrow> bytes \<Rightarrow> (int \<times> bytes) option" where
  "tokenize_cmd h path text_arg =
     (case open_file h path of
        OpenUndef \<Rightarrow> None
      | OpenFailed st \<Rightarrow> Some (2, [])
      | Opened g \<Rightarrow>
          (case vg_tokenizer_load (ho_strtod h) (Some g) of
             Inl st \<Rightarrow> Some (2, [])
           | Inr tok \<Rightarrow>
               (case vg_tokenizer_encode (Some tok) (Some text_arg) 0 of
                  None \<Rightarrow> None
                | Some (_, n) \<Rightarrow>
                    map_option (\<lambda>(ids, _). (0, cstr ''tokens: '' @ dec n @ [10] @ concat (map (\<lambda>i. tokenize_line tok i (ids ! i)) [0..<length ids])))
                      (vg_tokenizer_encode (Some tok) (Some text_arg) n))))"

section \<open>The sampler of the program\<close>

text \<open>One step of a selection sort: the index of the largest value from \<open>i\<close> on.\<close>

definition best_from :: "(nat \<Rightarrow> flt) \<Rightarrow> nat \<Rightarrow> nat \<Rightarrow> nat" where
  "best_from f i n = foldl (\<lambda>mi j. if f_less (f mi) (f j) then j else mi) i [Suc i..<n]"

definition swap :: "nat \<Rightarrow> nat \<Rightarrow> 'a list \<Rightarrow> 'a list" where
  "swap i j xs = xs[i := xs ! j, j := xs ! i]"

definition top_k_cut :: "u32 \<Rightarrow> int \<Rightarrow> flt list \<Rightarrow> flt list" where
  "top_k_cut n_vocab top_k p =
     (if top_k > 0 \<and> (word_of_int top_k :: u32) < n_vocab then
        (let n = unat n_vocab; k = nat top_k;
             tmp = foldl (\<lambda>tmp i. swap i (best_from (\<lambda>j. tmp ! j) i n) tmp) p [0..<k];
             thresh = tmp ! (k - 1)
         in map (\<lambda>x. if f_less x thresh then f_zero else x) p)
      else p)"

text \<open>Token numbers in the order of their mass until it reaches \<open>top_p\<close>, and how many were taken.\<close>

fun top_p_order :: "flt list \<Rightarrow> nat \<Rightarrow> flt \<Rightarrow> nat \<Rightarrow> nat \<Rightarrow> nat list \<Rightarrow> flt \<Rightarrow> nat list \<times> nat" where
  "top_p_order p n top_p 0 i idx cum = (idx, n)"
| "top_p_order p n top_p (Suc k) i idx cum =
     (let idx' = swap i (best_from (\<lambda>j. p ! (idx ! j)) i n) idx; cum' = fadd cum (p ! (idx' ! i))
      in if f_leq top_p cum' then (idx', Suc i) else top_p_order p n top_p k (Suc i) idx' cum')"

definition top_p_cut :: "u32 \<Rightarrow> flt \<Rightarrow> flt list \<Rightarrow> flt list" where
  "top_p_cut n_vocab top_p p =
     (if f_less f_zero top_p \<and> f_less top_p f_one then
        (let n = unat n_vocab; (idx, cutoff) = top_p_order p n top_p n 0 [0..<n] f_zero;
             q = foldl (\<lambda>q i. q[idx ! i := f_zero]) p [cutoff..<n];
             s = foldl fadd f_zero q
         in if f_less f_zero s then map (\<lambda>x. fdiv x s) q else q)
      else p)"

text \<open>The first token after token 0 at which the running sum reaches \<open>r\<close>; 0 if there is none.\<close>

fun pick_after :: "flt \<Rightarrow> flt \<Rightarrow> nat \<Rightarrow> flt list \<Rightarrow> nat" where
  "pick_after r cum i [] = 0"
| "pick_after r cum i (x # xs) = (let cum' = fadd cum x in if f_leq r cum' then i else pick_after r cum' (Suc i) xs)"

definition token_probs :: "libm \<Rightarrow> flt list \<Rightarrow> u32 \<Rightarrow> flt \<Rightarrow> flt list" where
  "token_probs m lg n_vocab temperature =
     (let n = unat n_vocab; l = map (\<lambda>i. fdiv (lg ! i) temperature) [0..<n]; mx = max_logit l n_vocab;
          e = map (\<lambda>i. m_expf m (fsub (l ! i) mx)) [0..<n]; s = foldl fadd f_zero e
      in map (\<lambda>x. fdiv x s) e)"

definition sample_token ::
  "libm \<Rightarrow> flt list \<Rightarrow> u32 \<Rightarrow> flt \<Rightarrow> int \<Rightarrow> flt \<Rightarrow> flt \<Rightarrow> int list \<Rightarrow> u32 \<Rightarrow> nat \<times> u32" where
  "sample_token m logits n_vocab temperature top_k top_p penalty hist rng =
     (if f_leq temperature f_zero then (best_index logits n_vocab, rng)
      else (let lg = the (vg_apply_repetition_penalty (Some logits) n_vocab (Some hist) penalty);
                p = top_p_cut n_vocab top_p (top_k_cut n_vocab top_k (token_probs m lg n_vocab temperature));
                rng' = next_rand rng;
                r = fdiv (f_of_int binary32 (uint (drop_bit 16 rng'))) (FFin False 65536 0)
            in (pick_after r (p ! 0) 1 (tl p), rng')))"

section \<open>Inference on the CPU\<close>

text \<open>The sampler with temperature \<^verbatim>\<open>0.7f\<close>, 40 tokens, \<^verbatim>\<open>top_p\<close> of \<^verbatim>\<open>0.95f\<close> and penalty \<^verbatim>\<open>1.1f\<close>.\<close>

definition infer_sample :: "libm \<Rightarrow> vg_modelconfig \<Rightarrow> flt list \<Rightarrow> int list \<Rightarrow> u32 \<Rightarrow> nat \<times> u32" where
  "infer_sample m mc lg hist rng =
     sample_token m lg (mc_n_vocab mc) (fdiv (FFin False 7 0) (FFin False 10 0)) 40 (fdiv (FFin False 95 0) (FFin False 100 0))
       (fdiv (FFin False 11 0) (FFin False 10 0)) hist rng"

text \<open>
  The loop of \<^verbatim>\<open>--cpu-infer\<close>, by the number of tokens left: the printed pieces and the graph. The window of the
  penalty holds 64 tokens; a piece is printed up to 255 bytes or a NUL.
\<close>

fun infer_loop ::
  "libm \<Rightarrow> vg_modelconfig \<Rightarrow> (int \<Rightarrow> bytes) \<Rightarrow> 'g decoder \<Rightarrow> nat \<Rightarrow> flt list \<Rightarrow> u32 \<Rightarrow> int list \<Rightarrow> int \<Rightarrow> 'g \<Rightarrow> bytes \<times> 'g" where
  "infer_loop m mc piece dstep 0 lg rng hist pos g = ([], g)"
| "infer_loop m mc piece dstep (Suc k) lg rng hist pos g =
     (let (best, rng') = infer_sample m mc lg hist rng
      in if int best = mc_eos_id mc then ([], g)
         else (let out = c_string (take 255 (piece (int best))); hist' = push_recent 64 (int best) hist
               in case dstep (int best) pos g of
                    (st, lg', g') \<Rightarrow>
                      if st \<noteq> VG_OK then (out, g')
                      else (case infer_loop m mc piece dstep k lg' rng' hist' (pos + 1) g' of (rest, g2) \<Rightarrow> (out @ rest, g2))))"

text \<open>The BOS token of the configuration, then the prompt; a step that fails ends the program with code 2.\<close>

fun infer_prefill :: "'g decoder \<Rightarrow> int list \<Rightarrow> int \<Rightarrow> 'g \<Rightarrow> 'g + flt list \<times> int \<times> 'g" where
  "infer_prefill dstep [] pos g = Inl g"
| "infer_prefill dstep (t # ts) pos g =
     (case dstep t pos g of
        (st, lg, g') \<Rightarrow>
          if st \<noteq> VG_OK then Inl g' else if ts = [] then Inr (lg, pos + 1, g') else infer_prefill dstep ts (pos + 1) g')"

definition cpu_infer_run ::
  "libm \<Rightarrow> vg_modelconfig \<Rightarrow> (int \<Rightarrow> bytes) \<Rightarrow> 'g decoder \<Rightarrow> int list \<Rightarrow> 'g \<Rightarrow> int \<times> bytes \<times> 'g" where
  "cpu_infer_run m mc piece dstep tokens g =
     (case infer_prefill dstep (mc_bos_id mc # tokens) 0 g of
        Inl g' \<Rightarrow> (2, [], g')
      | Inr (lg, pos, g') \<Rightarrow> (case infer_loop m mc piece dstep 128 lg 42 [] pos g' of (out, g2) \<Rightarrow> (0, out @ [10], g2)))"

definition cpu_infer :: "gen_host \<Rightarrow> bytes \<Rightarrow> bytes option \<Rightarrow> (int \<times> bytes) option" where
  "cpu_infer h path prompt =
     (case open_file h path of
        OpenUndef \<Rightarrow> None
      | OpenFailed st \<Rightarrow> Some (2, [])
      | Opened g \<Rightarrow>
          (if \<not> mp_ok (the (snd (vg_model_probe (Some g) True))) then Some (3, [])
           else (case vg_tensor_source_open (Some g) (Some (gen_tsconfig None)) of
                   Inl st \<Rightarrow> Some (2, [])
                 | Inr src \<Rightarrow>
                     (let en = engine_env h None g src
                      in case vg_model_graph_load en of
                           Inl st \<Rightarrow> Some (2, [])
                         | Inr gr \<Rightarrow>
                             (case vg_tokenizer_load (ho_strtod h) (Some g) of
                                Inl st \<Rightarrow> Some (2, [])
                              | Inr tok \<Rightarrow>
                                  (let line = (case prompt of Some p \<Rightarrow> p | None \<Rightarrow> cstr ''The capital of France is'')
                                   in map_option (\<lambda>(ids, _). case cpu_infer_run (ho_libm h) (mg_cfg gr) (decode_bytes tok) (graph_decoder en) ids gr of
                                           (code, out, _) \<Rightarrow> (code, out))
                                        (case vg_tokenizer_encode (Some tok) (Some line) 0 of
                                           None \<Rightarrow> None | Some (_, n) \<Rightarrow> vg_tokenizer_encode (Some tok) (Some line) n)))))))"

section \<open>Speculative decoding\<close>

text \<open>The tokens of a step that are printed, with the number printed so far; the EOS token is printed and ends the output.\<close>

fun emit_tokens :: "int \<Rightarrow> nat \<Rightarrow> nat \<Rightarrow> nat list \<Rightarrow> nat list \<times> nat" where
  "emit_tokens eos n e [] = ([], e)"
| "emit_tokens eos n e (t # ts) =
     (if e < n then (if int t = eos then ([t], n) else (case emit_tokens eos n (Suc e) ts of (out, e') \<Rightarrow> (t # out, e'))) else ([], e))"

lemma emit_progress: "acc \<noteq> [] \<Longrightarrow> e < n \<Longrightarrow> e < snd (emit_tokens eos n e acc)"
proof (induction acc arbitrary: e)
  case (Cons t ts)
  have "e' \<le> snd (emit_tokens eos n e' us)" for e' us
    by (induction us arbitrary: e') (auto simp: case_prod_unfold dest: Suc_leD)
  from this [of "Suc e" ts] show ?case using Cons.prems by (simp add: case_prod_unfold)
qed simp

lemma emit_less: "(out, e') = emit_tokens eos n e acc \<Longrightarrow> acc \<noteq> [] \<Longrightarrow> e < n \<Longrightarrow> n - e' < n - e"
  using emit_progress [of acc e n eos] by (metis diff_less_mono2 snd_conv)

text \<open>
  The loop over the steps, which get \<open>nd\<close> proposals and change the models \<open>c\<close>. \<open>step\<close> answers the tokens of a step.
\<close>

function spec_loop ::
  "('c \<Rightarrow> int \<Rightarrow> int \<Rightarrow> nat list \<times> 'c) \<Rightarrow> int \<Rightarrow> int \<Rightarrow> nat \<Rightarrow> int \<Rightarrow> 'c \<Rightarrow> int \<Rightarrow> int \<Rightarrow> nat \<Rightarrow> nat list \<times> 'c" where
  "spec_loop step nd eos n n_ctx c tok pos e =
     (if e < n \<and> pos + nd + 1 < n_ctx then
        (let (acc, c') = step c tok pos
         in if acc = [] then ([], c')
            else (let (out, e') = emit_tokens eos n e acc;
                      (rest, c2) = spec_loop step nd eos n n_ctx c' (int (last acc)) (pos + int (length acc)) e'
                  in (out @ rest, c2)))
      else ([], c))"
  by pat_completeness auto
termination
  by (relation "measure (\<lambda>(step, nd, eos, n, n_ctx, c, tok, pos, e). n - e)") (auto intro: emit_less)

declare spec_loop.simps [simp del]

text \<open>The configuration of the driver, and the tokens it prints with a draft model of its own.\<close>

definition spec_config_of :: "'d graph \<Rightarrow> 't graph \<Rightarrow> ('d, 't) vg_speculativeconfig" where
  "spec_config_of d t = \<lparr>sp_draft_graph = Some d, sp_target_graph = Some t, sp_n_draft = 4, sp_temperature = f_zero, sp_rng = Some 12345\<rparr>"

definition two_step :: "libm \<Rightarrow> ('d, 't) vg_speculativeconfig \<Rightarrow> int \<Rightarrow> int \<Rightarrow> nat list \<times> ('d, 't) vg_speculativeconfig" where
  "two_step m c tok pos = (case vg_speculative_step m (Some c) tok pos True 8 of (acc, c') \<Rightarrow> (acc, the c'))"

definition spec_tokens :: "libm \<Rightarrow> 'd graph \<Rightarrow> 't graph \<Rightarrow> nat \<Rightarrow> nat list" where
  "spec_tokens m d t n =
     fst (spec_loop (two_step m) 4 (mc_eos_id (gr_config t)) n (sint (mc_n_ctx (gr_config t))) (spec_config_of d t) (mc_bos_id (gr_config t)) 0 0)"

text \<open>
  Without a draft model the target proposes to itself: the configuration then holds the same graph twice, and the
  verification starts from the state the proposals have left. With temperature 0 it does not decode with the draft again.
\<close>

definition self_step :: "libm \<Rightarrow> 't decoder \<Rightarrow> u32 \<Rightarrow> 't \<Rightarrow> int \<Rightarrow> int \<Rightarrow> nat list \<times> 't" where
  "self_step m dstep V g tok pos =
     (case spec_draft m dstep V f_zero (nat (spec_n_draft 4 8)) tok pos 12345 g of
        (props, rng1, g1) \<Rightarrow> (case spec_verify m dstep dstep V f_zero props 8 tok pos rng1 g1 g1 of (acc, _, _, g2) \<Rightarrow> (acc, g2)))"

definition self_tokens :: "libm \<Rightarrow> 't graph \<Rightarrow> nat \<Rightarrow> nat list" where
  "self_tokens m t n =
     fst (spec_loop (self_step m (gr_decode t) (mc_n_vocab (gr_config t))) 4 (mc_eos_id (gr_config t)) n (sint (mc_n_ctx (gr_config t)))
       (gr_state t) (mc_bos_id (gr_config t)) 0 0)"

text \<open>
  \<^verbatim>\<open>fwrite\<close> of a piece from a buffer of \<open>cap\<close> bytes: as many bytes as the piece is long are written, the last of which is
  the NUL when the piece fills the buffer; a longer piece is read outside of it. \<open>piece\<close> is what the buffer holds.
\<close>

definition written :: "nat \<Rightarrow> bytes \<Rightarrow> nat \<Rightarrow> bytes option" where
  "written cap piece n = (if n > cap then None else Some (take n (piece @ [0])))"

definition spec_text :: "vg_tokenizer option \<Rightarrow> nat list \<Rightarrow> bytes option" where
  "spec_text tok ts =
     foldl (\<lambda>out t. case out of None \<Rightarrow> None
       | Some b \<Rightarrow> (case vg_tokenizer_decode tok (int t) 128 of (piece, len) \<Rightarrow> map_option (\<lambda>w. b @ w) (written 128 piece len)))
       (Some []) ts"

text \<open>Opening a model for the driver.\<close>

definition spec_open_graph :: "gen_host \<Rightarrow> bytes \<Rightarrow> (genv \<times> vg_modelgraph) option option" where
  "spec_open_graph h path =
     (case open_file h path of
        OpenUndef \<Rightarrow> None
      | OpenFailed st \<Rightarrow> Some None
      | Opened g \<Rightarrow>
          (if \<not> mp_ok (the (snd (vg_model_probe (Some g) True))) then Some None
           else (case vg_tensor_source_open (Some g) (Some (gen_tsconfig None)) of
                   Inl st \<Rightarrow> Some None
                 | Inr src \<Rightarrow>
                     (let en = (engine_env h None g src)\<lparr>en_cpu := ho_cpu h\<rparr>
                      in case vg_model_graph_load en of Inl st \<Rightarrow> Some None | Inr gr \<Rightarrow> Some (Some (en, gr))))))"

definition loaded_graph :: "genv \<Rightarrow> vg_modelgraph \<Rightarrow> vg_modelgraph graph" where
  "loaded_graph en gr = \<lparr>gr_config = mg_cfg gr, gr_decode = graph_decoder en, gr_state = the (vg_model_graph_reset (Some gr))\<rparr>"

text \<open>
  \<^verbatim>\<open>spec\<close>. A draft at the path of the target is the target itself.
\<close>

definition spec_cmd :: "gen_host \<Rightarrow> bytes \<Rightarrow> bytes option \<Rightarrow> int \<Rightarrow> (int \<times> bytes) option" where
  "spec_cmd h target_path draft_path n_tokens =
     (case spec_open_graph h target_path of
        None \<Rightarrow> None
      | Some None \<Rightarrow> Some (2, [])
      | Some (Some (ten, tgr)) \<Rightarrow>
          (let tok = (case vg_tokenizer_load (ho_strtod h) (Some (en_file ten)) of Inl st \<Rightarrow> None | Inr t \<Rightarrow> Some t);
               say = (\<lambda>ts. map_option (\<lambda>b. (0, b @ [10])) (spec_text tok ts))
           in case (if draft_path = Some target_path then None else draft_path) of
                None \<Rightarrow> say (self_tokens (ho_libm h) (loaded_graph ten tgr) (nat n_tokens))
              | Some dp \<Rightarrow>
                  (case spec_open_graph h dp of
                     None \<Rightarrow> None
                   | Some None \<Rightarrow> Some (2, [])
                   | Some (Some (den, dgr)) \<Rightarrow>
                       say (spec_tokens (ho_libm h) (loaded_graph den dgr) (loaded_graph ten tgr) (nat n_tokens)))))"

end
