(* ===== verification/Cli_Props.thy ===== *)
theory Cli_Props
  imports Cli Speculative_Props Probe_Props
begin

text \<open>
  Properties of the command line program: the driver of speculative decoding prints what plain greedy decoding would, what
  its sampler draws, and the exit codes of the probe.
\<close>

section \<open>The driver of speculative decoding\<close>

text \<open>
  A decoding function that answers for every token of the vocabulary at every position of the context, from the states \<open>I\<close>
  holds of, and keeps \<open>I\<close>.
\<close>

definition answers :: "('g \<Rightarrow> bool) \<Rightarrow> 'g decoder \<Rightarrow> u32 \<Rightarrow> int \<Rightarrow> bool" where
  "answers I dcd V n_ctx \<longleftrightarrow>
     (\<forall>tok pos s. I s \<and> 0 \<le> tok \<and> tok < int (unat V) \<and> 0 \<le> pos \<and> pos < n_ctx \<longrightarrow> (case dcd tok pos s of (st, lg, s') \<Rightarrow> st = VG_OK \<and> I s'))"

lemma less_uint: "n < unat V \<Longrightarrow> int n < uint (V :: u32)"
  by (simp add: uint_nat del: of_nat_unat)

lemma greedy_answers:
  assumes "answers I dcd V n_ctx" "I g" "0 \<le> tok" "tok < int (unat V)" "0 \<le> pos" "pos + int k \<le> n_ctx"
  shows "length (fst (greedy dcd V k tok pos g)) = k \<and> I (snd (greedy dcd V k tok pos g)) \<and> (\<forall>t \<in> set (fst (greedy dcd V k tok pos g)). t < unat V)"
  using assms(2-6)
proof (induction k arbitrary: tok pos g)
  case (Suc k)
  obtain st lg g1 where d: "dcd tok pos g = (st, lg, g1)" using prod_cases3 by blast
  have ok: "st = VG_OK" "I g1" using assms(1) Suc.prems d unfolding answers_def by fastforce+
  have V: "0 < unat V" using Suc.prems by linarith
  have r: "argmax_logits lg V < unat V" "int (argmax_logits lg V) < uint V" using argmax_logits_range [OF V, of lg] by (simp_all add: less_uint)
  have "length (fst (greedy dcd V k (int (argmax_logits lg V)) (pos + 1) g1)) = k \<and> I (snd (greedy dcd V k (int (argmax_logits lg V)) (pos + 1) g1)) \<and>
      (\<forall>t \<in> set (fst (greedy dcd V k (int (argmax_logits lg V)) (pos + 1) g1)). t < unat V)"
    by (rule Suc.IH) (use ok r Suc.prems in auto)
  then show ?case using d ok r by (simp add: case_prod_unfold)
qed simp

lemma greedy_split:
  assumes "answers I dcd V n_ctx" "I g" "0 \<le> tok" "tok < int (unat V)" "0 \<le> pos" "pos + int k \<le> n_ctx" "0 < k"
    and "greedy dcd V k tok pos g = (acc, g')"
  shows "greedy dcd V (k + j) tok pos g = (acc @ fst (greedy dcd V j (int (last acc)) (pos + int k) g'), snd (greedy dcd V j (int (last acc)) (pos + int k) g'))"
  using assms(2-8)
proof (induction k arbitrary: tok pos g acc)
  case (Suc k)
  obtain st lg g1 where d: "dcd tok pos g = (st, lg, g1)" using prod_cases3 by blast
  have ok: "st = VG_OK" "I g1" using assms(1) Suc.prems d unfolding answers_def by fastforce+
  have V: "0 < unat V" using Suc.prems by linarith
  have r: "argmax_logits lg V < unat V" "int (argmax_logits lg V) < uint V" using argmax_logits_range [OF V, of lg] by (simp_all add: less_uint)
  obtain acc1 where a: "greedy dcd V k (int (argmax_logits lg V)) (pos + 1) g1 = (acc1, g')" "acc = argmax_logits lg V # acc1"
    using Suc.prems(7) d ok by (auto split: prod.splits)
  show ?case
  proof (cases "k = 0")
    case True
    then show ?thesis using a d ok by (simp add: case_prod_unfold)
  next
    case False
    have "length acc1 = k" using greedy_answers [OF assms(1) ok(2), of "int (argmax_logits lg V)" "pos + 1" k] a(1) r Suc.prems by simp
    then have "acc1 \<noteq> []" using False by auto
    moreover have "greedy dcd V (k + j) (int (argmax_logits lg V)) (pos + 1) g1 =
        (acc1 @ fst (greedy dcd V j (int (last acc1)) (pos + 1 + int k) g'), snd (greedy dcd V j (int (last acc1)) (pos + 1 + int k) g'))"
      by (rule Suc.IH [OF ok(2) _ _ _ _ _ a(1)]) (use r Suc.prems False in auto)
    ultimately show ?thesis using a(2) d ok by (simp add: case_prod_unfold algebra_simps)
  qed
qed simp

lemma emit_full: "n \<le> e \<Longrightarrow> emit_tokens eos n e ts = ([], e)"
  by (cases ts) simp_all

lemma emit_append: "emit_tokens eos n e (a @ b) =
    (case emit_tokens eos n e a of (o1, e1) \<Rightarrow> case emit_tokens eos n e1 b of (o2, e2) \<Rightarrow> (o1 @ o2, e2))"
  by (induction a arbitrary: e) (auto simp: emit_full split: prod.splits)

lemma spec_loop_greedy:
  assumes "answers I dcd V n_ctx" "answers J ddec V n_ctx" "step = two_step m" "sp_n_draft c = nd"
    and "sp_draft_graph c = Some d" "sp_target_graph c = Some t" "gr_decode t = dcd" "gr_decode d = ddec" "mc_n_vocab (gr_config d) = V" "mc_n_vocab (gr_config t) = V"
    and "\<not> f_less f_zero (sp_temperature c)" "1 \<le> nd" "nd \<le> 8"
    and "I (gr_state t)" "J (gr_state d)" "0 \<le> tok" "tok < int (unat V)" "0 \<le> pos"
  shows "\<exists>k ts. fst (greedy dcd V k tok pos (gr_state t)) = ts \<and> fst (spec_loop step nd eos n n_ctx c tok pos e) = fst (emit_tokens eos n e ts) \<and>
     (snd (emit_tokens eos n e ts) < n \<longrightarrow> n_ctx \<le> pos + int k + nd + 1)"
  using assms
proof (induction step nd eos n n_ctx c tok pos e arbitrary: d t rule: spec_loop.induct)
  case (1 step nd eos n n_ctx c tok pos e)
  note A = "1.prems"(1) and D = "1.prems"(2) and S = "1.prems"(3) and N = "1.prems"(4)
  note c = "1.prems"(5-18)
  show ?case
  proof (cases "e < n \<and> pos + nd + 1 < n_ctx")
    case False
    then show ?thesis by (intro exI [of _ 0]) (auto simp: spec_loop.simps)
  next
    case True
    have V: "0 < unat V" using c(12,13) by linarith
    define k4 where "k4 = nat (spec_n_draft (sp_n_draft c) 8)"
    have nd: "int k4 = nd" "0 < k4" using c(8,9) N by (auto simp: k4_def spec_n_draft_def)
    define pr where "pr = fst (greedy (gr_decode d) V k4 tok pos (gr_state d))"
    obtain acc cs where st: "vg_speculative_step m (Some c) tok pos True 8 = (acc, cs)" by fastforce
    have "cs \<noteq> None" using st c by (auto simp: vg_speculative_step_def Let_def split: prod.splits if_splits)
    then obtain c' where c': "cs = Some c'" by auto
    have st2: "step c tok pos = (acc, c')" using st c' S by (simp add: two_step_def)
    have dr: "length pr = k4" "J (snd (greedy (gr_decode d) V k4 tok pos (gr_state d)))"
      using greedy_answers [OF D c(11,12,13,14), of k4] True nd c(4) by (simp_all add: pr_def)
    obtain k tg' where k: "k \<le> k4" "greedy (gr_decode t) V k tok pos (gr_state t) = (acc, tg')"
      "c' = c\<lparr>sp_draft_graph := Some (d\<lparr>gr_state := snd (greedy (gr_decode d) V k4 tok pos (gr_state d))\<rparr>), sp_target_graph := Some (t\<lparr>gr_state := tg'\<rparr>)\<rparr>"
      "k < k4 \<longrightarrow> 0 < k"
      using speculative_greedy_aux [OF c(1,2,5,6) V c(7) _ st [unfolded c'] pr_def [unfolded k4_def]] dr(1) unfolding k4_def by auto
    have kpos: "0 < k" using k(1,4) nd(2) by (cases "k < k4") auto
    have tg: "length acc = k" "I tg'" "\<forall>x \<in> set acc. x < unat V"
      using greedy_answers [OF A c(10,12,13,14), of k] True nd k(1,2) c(3) by auto
    have acc: "acc \<noteq> []" using tg(1) kpos by auto
    obtain out e' where em: "emit_tokens eos n e acc = (out, e')" by fastforce
    have la: "last acc < unat V" using tg(3) acc by simp
    have "\<exists>j ts. fst (greedy dcd V j (int (last acc)) (pos + int (length acc)) (gr_state (t\<lparr>gr_state := tg'\<rparr>))) = ts \<and>
        fst (spec_loop step nd eos n n_ctx c' (int (last acc)) (pos + int (length acc)) e') = fst (emit_tokens eos n e' ts) \<and>
        (snd (emit_tokens eos n e' ts) < n \<longrightarrow> n_ctx \<le> pos + int (length acc) + int j + nd + 1)"
      by (rule "1.IH" [OF True st2 [symmetric] refl acc em [symmetric] refl A D S,
            of "d\<lparr>gr_state := snd (greedy (gr_decode d) V k4 tok pos (gr_state d))\<rparr>"])
        (use c N k(3) tg dr la less_uint [OF la] in simp_all)
    then obtain j ts where j: "fst (greedy dcd V j (int (last acc)) (pos + int (length acc)) tg') = ts"
        "fst (spec_loop step nd eos n n_ctx c' (int (last acc)) (pos + int (length acc)) e') = fst (emit_tokens eos n e' ts)"
        "snd (emit_tokens eos n e' ts) < n \<longrightarrow> n_ctx \<le> pos + int (length acc) + int j + nd + 1" by auto
    have g: "fst (greedy dcd V (k + j) tok pos (gr_state t)) = acc @ ts"
      using greedy_split [OF A c(10,12,13,14) _ kpos, of acc tg' j] k(2) True nd k(1) c(3) j(1) tg(1) by simp
    have sl: "fst (spec_loop step nd eos n n_ctx c tok pos e) = out @ fst (emit_tokens eos n e' ts)"
      using j(2) by (subst spec_loop.simps) (simp add: True st2 acc em case_prod_unfold)
    show ?thesis
      using sl j(3) tg(1) by (intro exI [of _ "k + j"] exI [of _ "acc @ ts"]) (auto simp: g emit_append em case_prod_unfold)
  qed
qed


section \<open>The sampler of the program\<close>

lemma swap_length [simp]: "length (swap i j xs) = length xs"
  by (simp add: swap_def)

lemma foldl_length: "(\<And>xs i. length (f xs i) = length xs) \<Longrightarrow> length (foldl f xs is) = length xs"
  by (induction "is" arbitrary: xs) simp_all

lemma cut_length: "length (top_k_cut V k p) = length p" "length (top_p_cut V q p) = length p"
proof -
  show "length (top_k_cut V k p) = length p" by (simp add: top_k_cut_def Let_def)
  have "length (foldl (\<lambda>q i. q[idx ! i := f_zero]) p is) = length p" for idx "is" by (rule foldl_length) simp
  then show "length (top_p_cut V q p) = length p" by (simp add: top_p_cut_def Let_def case_prod_unfold)
qed

text \<open>The running sum of the probabilities up to a token.\<close>

definition mass_upto :: "flt list \<Rightarrow> nat \<Rightarrow> flt" where
  "mass_upto p i = foldl fadd (p ! 0) (take i (tl p))"

lemma pick_after_spec:
  "(\<exists>j < length xs. f_leq r (foldl fadd cum (take (Suc j) xs)) \<and> (\<forall>l < j. \<not> f_leq r (foldl fadd cum (take (Suc l) xs))) \<and> pick_after r cum i xs = i + j) \<or>
   ((\<forall>j < length xs. \<not> f_leq r (foldl fadd cum (take (Suc j) xs))) \<and> pick_after r cum i xs = 0)"
proof (induction xs arbitrary: cum i)
  case (Cons x xs)
  show ?case
  proof (cases "f_leq r (fadd cum x)")
    case True
    then show ?thesis by (intro disjI1 exI [of _ 0]) simp
  next
    case False
    from Cons.IH [of "fadd cum x" "Suc i"] show ?thesis
    proof (elim disjE exE conjE)
      fix j assume j: "j < length xs" "f_leq r (foldl fadd (fadd cum x) (take (Suc j) xs))"
        "\<forall>l < j. \<not> f_leq r (foldl fadd (fadd cum x) (take (Suc l) xs))" "pick_after r (fadd cum x) (Suc i) xs = Suc i + j"
      have "\<not> f_leq r (foldl fadd cum (take (Suc l) (x # xs)))" if "l < Suc j" for l
        using that False j(3) by (cases l) auto
      then show ?thesis using j False by (intro disjI1 exI [of _ "Suc j"]) (simp del: take_Suc_Cons add: take_Suc_Cons [of "Suc j"])
    next
      assume n: "\<forall>j < length xs. \<not> f_leq r (foldl fadd (fadd cum x) (take (Suc j) xs))" "pick_after r (fadd cum x) (Suc i) xs = 0"
      have "\<not> f_leq r (foldl fadd cum (take (Suc j) (x # xs)))" if "j < length (x # xs)" for j
        using that False n(1) by (cases j) auto
      then show ?thesis using n(2) False by (intro disjI2) simp
    qed
  qed
qed simp

text \<open>With a positive temperature the program's sampler moves its generator once and answers the first token after token 0
  at which the running sum of the filtered probabilities reaches the draw; token 0 itself is answered only if no sum does, however
  much of the mass it has.\<close>

theorem sample_token_draw:
  assumes "0 < unat V" and "\<not> f_leq temperature f_zero"
    and "p = top_p_cut V top_p (top_k_cut V top_k (token_probs m (the (vg_apply_repetition_penalty (Some lg) V (Some hist) penalty)) V temperature))"
    and "r = fdiv (f_of_int binary32 (uint (drop_bit 16 (next_rand rng)))) (FFin False 65536 0)"
  shows "length p = unat V \<and> (\<exists>t. sample_token m lg V temperature top_k top_p penalty hist rng = (t, next_rand rng) \<and> t < unat V \<and>
    (if \<exists>i. 0 < i \<and> i < unat V \<and> f_leq r (mass_upto p i)
     then 0 < t \<and> f_leq r (mass_upto p t) \<and> (\<forall>i. 0 < i \<and> i < t \<longrightarrow> \<not> f_leq r (mass_upto p i))
     else t = 0))"
proof -
  have len: "length p = unat V" using assms(3) by (simp add: cut_length token_probs_def Let_def)
  then have tl: "length (tl p) = unat V - 1" by simp
  have s: "sample_token m lg V temperature top_k top_p penalty hist rng = (pick_after r (p ! 0) 1 (tl p), next_rand rng)"
    using assms(2-4) by (simp add: sample_token_def Let_def)
  from pick_after_spec [of "tl p" r "p ! 0" 1]
  show ?thesis
  proof (elim disjE exE conjE)
    fix j assume j: "j < length (tl p)" "f_leq r (foldl fadd (p ! 0) (take (Suc j) (tl p)))"
      "\<forall>l < j. \<not> f_leq r (foldl fadd (p ! 0) (take (Suc l) (tl p)))" "pick_after r (p ! 0) 1 (tl p) = 1 + j"
    have "\<not> f_leq r (mass_upto p i)" if "0 < i" "i < Suc j" for i
      using that j(3) by (cases i) (auto simp: mass_upto_def)
    moreover have "Suc j < unat V" using j(1) tl by simp
    moreover have "f_leq r (mass_upto p (Suc j))" using j(2) by (simp add: mass_upto_def)
    ultimately show ?thesis using len s j(4) by auto
  next
    assume n: "\<forall>j < length (tl p). \<not> f_leq r (foldl fadd (p ! 0) (take (Suc j) (tl p)))" "pick_after r (p ! 0) 1 (tl p) = 0"
    have "\<not> f_leq r (mass_upto p i)" if "0 < i" "i < unat V" for i
      using that n(1) tl by (cases i) (auto simp: mass_upto_def)
    then show ?thesis using len s n(2) assms(1) by auto
  qed
qed

section \<open>Commands\<close>

text \<open>The exit code of \<^verbatim>\<open>probe\<close> tells an unreadable file, a model that does not fit and one that does apart.\<close>

theorem probe_command_exit:
  assumes "probe_cmd h path = Some (code, out)"
  shows "(code = 0 \<longleftrightarrow> (\<exists>g p. open_file h path = Opened g \<and> vg_model_probe (Some g) True = (VG_OK, Some p) \<and> model_fits g p)) \<and>
    (code = 2 \<longleftrightarrow> (\<exists>st. open_file h path = OpenFailed st)) \<and> code \<in> {0, 2, 3} \<and> length out \<le> 2048"
proof (cases "open_file h path")
  case (Opened g)
  obtain st r where r: "vg_model_probe (Some g) True = (st, r)" by fastforce
  obtain p p0 where p: "st = VG_OK" "r = Some p" "judged g p0 p" using probe_judged [OF r] by blast
  have "length (the (vg_model_probe_report (Some p) True 2048)) \<le> 2047" by (simp add: vg_model_probe_report_def)
  then show ?thesis using assms Opened r p by (auto simp: probe_cmd_def judged_def split: if_splits)
qed (use assms in \<open>auto simp: probe_cmd_def\<close>)

text \<open>The number of tokens of \<^verbatim>\<open>spec\<close> is between 1 and 512, and an empty draft argument is none.\<close>

lemma dispatch_spec: "dispatch args = SpecCmd target dr n \<Longrightarrow> 1 \<le> n \<and> n \<le> 512 \<and> dr \<noteq> Some []"
  by (auto simp: dispatch_def Let_def split: if_splits)

section \<open>Witnesses\<close>

definition two_graph :: "unit graph" where
  "two_graph = \<lparr>gr_config = zero_config\<lparr>mc_n_vocab := 2, mc_n_ctx := 8, mc_bos_id := 0, mc_eos_id := 9\<rparr>, gr_decode = two_decoder, gr_state = ()\<rparr>"

lemma two_answers: "answers (\<lambda>s. True) two_decoder 2 8"
  by (simp add: answers_def two_decoder_def)

lemma two_greedy: "fst (greedy two_decoder 2 k tok pos ()) = replicate k 1"
  by (induction k arbitrary: tok pos) (simp_all add: two_decoder_def argmax_two [unfolded One_nat_def] case_prod_unfold)

lemma emit_ones: "emit_tokens 9 n e (replicate k (Suc 0)) = (replicate (min (n - e) k) (Suc 0), e + min (n - e) k)"
proof (induction k arbitrary: e)
  case (Suc k)
  show ?case
  proof (cases "e < n")
    case True
    then have "n - e = Suc (n - Suc e)" by simp
    then show ?thesis using True Suc.IH [of "Suc e"] by simp
  qed simp
qed simp


theorem sample_token_draw_witness:
  "\<exists>t. sample_token flat_libm [f_zero, f_zero] 2 f_one 0 f_one f_one [] 42 = (t, next_rand 42) \<and> t < 2"
proof -
  have "0 < unat (2 :: u32)" "\<not> f_leq f_one f_zero" by (simp_all add: f_leq_def signed_mant_def)
  from sample_token_draw [OF this refl refl, of f_one 0 flat_libm "[f_zero, f_zero]" "[]" f_one 42] show ?thesis by auto
qed

end
