(* ===== verification/PluginLoader.thy ===== *)
theory PluginLoader
  imports Prelude
begin

text \<open>
  The plugin loader (\<^verbatim>\<open>include/vg/plugin.h\<close>, \<^verbatim>\<open>src/plugin_loader.c\<close>, the POSIX branches): a shared library
  is opened, its entry point asked for the plugin, the plugin checked and started; unloading stops it and closes the library.
  What the dynamic linker and the plugin answer are parameters; what is done to a library is recorded as events.
\<close>

section \<open>Plugins\<close>

definition VG_PLUGIN_ABI_VERSION :: u32 where
  "VG_PLUGIN_ABI_VERSION = 1"

text \<open>\<^verbatim>\<open>sizeof(VG_PluginInfo)\<close>: three 32-bit fields, padding, three pointers and a 64-bit field.\<close>

definition sizeof_plugininfo :: u32 where
  "sizeof_plugininfo = 48"

datatype vg_pluginkind = VG_PLUGIN_MODEL | VG_PLUGIN_QUANT | VG_PLUGIN_STORAGE | VG_PLUGIN_BACKEND | VG_PLUGIN_SAMPLER

record vg_plugininfo =
  pi_abi_version :: u32
  pi_struct_size :: u32
  pi_kind :: vg_pluginkind
  pi_name :: bytes
  pi_version :: bytes
  pi_description :: bytes
  pi_capability_bits :: u64

text \<open>\<open>pl_init\<close> is what the function answers, \<open>None\<close> when the pointer is NULL.\<close>

record vg_plugin =
  pl_info :: vg_plugininfo
  pl_init :: "vg_status option"
  pl_shutdown :: bool

text \<open>The linker: a library for a path, and the entry point of a library, which answers a plugin for a host version.\<close>

record 'lib linker =
  lk_open :: "bytes \<Rightarrow> 'lib option"
  lk_entry :: "'lib \<Rightarrow> (u32 \<Rightarrow> vg_plugin option) option"

datatype plugin_event = LibOpened | EntryCalled | InitCalled vg_status | ShutdownCalled | LibClosed

section \<open>Loading and unloading\<close>

record 'lib vg_pluginhandle =
  ph_lib :: 'lib
  ph_plugin :: "vg_plugin option"

definition vg_plugin_of :: "'lib vg_pluginhandle option \<Rightarrow> vg_plugin option" where
  "vg_plugin_of h = (case h of None \<Rightarrow> None | Some h \<Rightarrow> ph_plugin h)"

definition vg_plugin_unload :: "'lib vg_pluginhandle option \<Rightarrow> plugin_event list" where
  "vg_plugin_unload h =
     (case h of
        None \<Rightarrow> []
      | Some h \<Rightarrow> (case ph_plugin h of Some p \<Rightarrow> if pl_shutdown p then [ShutdownCalled] else [] | None \<Rightarrow> []) @ [LibClosed])"

definition plugin_compatible :: "vg_plugin \<Rightarrow> bool" where
  "plugin_compatible p \<longleftrightarrow> pi_abi_version (pl_info p) = VG_PLUGIN_ABI_VERSION \<and> \<not> pi_struct_size (pl_info p) < sizeof_plugininfo"

text \<open>\<open>has_out\<close> is false when the place for the handle is NULL.\<close>

definition vg_plugin_load :: "'lib linker \<Rightarrow> bytes option \<Rightarrow> bool \<Rightarrow> vg_status \<times> 'lib vg_pluginhandle option \<times> plugin_event list" where
  "vg_plugin_load lk path has_out =
     (case path of
        None \<Rightarrow> (VG_E_INVALID, None, [])
      | Some p \<Rightarrow>
          (if \<not> has_out then (VG_E_INVALID, None, [])
           else (case lk_open lk p of
                   None \<Rightarrow> (VG_E_IO, None, [])
                 | Some lib \<Rightarrow>
                     (case lk_entry lk lib of
                        None \<Rightarrow> (VG_E_FORMAT, None, LibOpened # vg_plugin_unload (Some \<lparr>ph_lib = lib, ph_plugin = None\<rparr>))
                      | Some entry \<Rightarrow>
                          (let h = \<lparr>ph_lib = lib, ph_plugin = entry VG_PLUGIN_ABI_VERSION\<rparr>
                           in case ph_plugin h of
                                None \<Rightarrow> (VG_E_UNSUPPORTED, None, [LibOpened, EntryCalled] @ vg_plugin_unload (Some h))
                              | Some pl \<Rightarrow>
                                  (if \<not> plugin_compatible pl then (VG_E_UNSUPPORTED, None, [LibOpened, EntryCalled] @ vg_plugin_unload (Some h))
                                   else (case pl_init pl of
                                           None \<Rightarrow> (VG_OK, Some h, [LibOpened, EntryCalled])
                                         | Some st \<Rightarrow>
                                             if st \<noteq> VG_OK then (VG_E_BUSY, None, [LibOpened, EntryCalled, InitCalled st] @ vg_plugin_unload (Some h))
                                             else (VG_OK, Some h, [LibOpened, EntryCalled, InitCalled st]))))))))"

section \<open>Properties\<close>

text \<open>What is open, and whether the plugin is started, after some events; \<open>None\<close> for an event at the wrong time.\<close>

datatype lib_state = Closed | Loaded | Asked | Started

fun lib_run :: "lib_state \<Rightarrow> plugin_event list \<Rightarrow> lib_state option" where
  "lib_run s [] = Some s"
| "lib_run Closed (LibOpened # es) = lib_run Loaded es"
| "lib_run Loaded (EntryCalled # es) = lib_run Asked es"
| "lib_run Asked (InitCalled st # es) = lib_run (if st = VG_OK then Started else Asked) es"
| "lib_run s (ShutdownCalled # es) = (if s = Asked \<or> s = Started then lib_run Asked es else None)"
| "lib_run s (LibClosed # es) = (if s = Closed then None else lib_run Closed es)"
| "lib_run s es = None"

text \<open>
  A load that fails leaves the library closed and gives no handle; one that succeeds leaves it open, with a compatible plugin
  that has not refused to start; unloading then closes it. A library is never called before it is opened or after it is closed.
\<close>

theorem plugin_load_lifecycle:
  assumes "vg_plugin_load lk path has_out = (st, h, evs)"
  shows "(st = VG_OK \<longleftrightarrow> h \<noteq> None) \<and> (st \<noteq> VG_OK \<longrightarrow> lib_run Closed evs = Some Closed) \<and>
    (st = VG_OK \<longrightarrow> (\<exists>s p. lib_run Closed evs = Some s \<and> s \<noteq> Closed \<and> vg_plugin_of h = Some p \<and> plugin_compatible p \<and>
       (pl_init p = None \<or> s = Started))) \<and>
    lib_run Closed (evs @ vg_plugin_unload h) = Some Closed"
  using assms
  by (auto simp: vg_plugin_load_def vg_plugin_unload_def vg_plugin_of_def Let_def split: option.splits if_splits)

text \<open>A plugin of another version, or one whose start failed, has its shutdown function called although it never started.\<close>

theorem plugin_shutdown_without_start:
  assumes "lk_open lk p = Some lib" and "lk_entry lk lib = Some entry" and "entry VG_PLUGIN_ABI_VERSION = Some pl"
    and "\<not> plugin_compatible pl" and "pl_shutdown pl"
  shows "vg_plugin_load lk (Some p) True = (VG_E_UNSUPPORTED, None, [LibOpened, EntryCalled, ShutdownCalled, LibClosed])"
  using assms by (simp add: vg_plugin_load_def vg_plugin_unload_def)

end
