(* ===== verification/Reports.thy ===== *)
theory Reports
  imports Cli PluginLoader
begin

text \<open>
  The commands of \<^verbatim>\<open>src/main.c\<close> that describe a file, a model or a plugin, the streaming of a tensor, and the chat. Each answers its exit
  code and what it prints; \<open>None\<close> is undefined behaviour.
\<close>

section \<open>Printing\<close>

definition status_name :: "vg_status \<Rightarrow> bytes" where
  "status_name st = cstr
     (case st of VG_OK \<Rightarrow> ''ok'' | VG_E_INVALID \<Rightarrow> ''invalid'' | VG_E_IO \<Rightarrow> ''io'' | VG_E_FORMAT \<Rightarrow> ''format'' | VG_E_RANGE \<Rightarrow> ''range''
      | VG_E_NOMEM \<Rightarrow> ''nomem'' | VG_E_UNSUPPORTED \<Rightarrow> ''unsupported'' | VG_E_BUSY \<Rightarrow> ''error'')"

text \<open>\<^verbatim>\<open>%-48s\<close>, and \<^verbatim>\<open>%.1f\<close> of a finite number.\<close>

definition pad48 :: "bytes \<Rightarrow> bytes" where
  "pad48 s = s @ replicate (48 - length s) 32"

definition fmt_f1 :: "flt \<Rightarrow> bytes" where
  "fmt_f1 x =
     (case x of
        FFin s m e \<Rightarrow>
          (let n = (if e \<ge> 0 then m * 10 * 2 ^ nat e else round_div (m * 10) (2 ^ nat (- e)))
           in (if s then [45] else []) @ dec (n div 10) @ [46] @ dec (n mod 10))
      | _ \<Rightarrow> cstr ''inf'')"

definition say_meta :: "vg_gguf \<Rightarrow> string \<Rightarrow> string \<Rightarrow> bytes" where
  "say_meta g label key = (case vg_gguf_meta (Some g) (Some (cstr key)) of None \<Rightarrow> [] | Some s \<Rightarrow> cstr label @ s @ [10])"

section \<open>Describing a file\<close>

definition inspect_tensor :: "vg_gguf_tensor \<Rightarrow> bytes" where
  "inspect_tensor t =
     cstr ''  '' @ pad48 (t_name t) @ cstr '' type='' @ dec (unat (t_ggml_type t)) @ cstr '' dims='' @
     concat (map (\<lambda>d. (if d \<noteq> 0 then cstr ''x'' else []) @ fmt_u64 (t_dims t ! d)) [0..<unat (t_n_dims t)]) @
     cstr '' bytes='' @ fmt_u64 (t_nbytes t) @ [10]"

definition inspect :: "gen_host \<Rightarrow> bytes \<Rightarrow> (int \<times> bytes) option" where
  "inspect h path =
     (case open_file h path of
        OpenUndef \<Rightarrow> None
      | OpenFailed st \<Rightarrow> Some (2, [])
      | Opened g \<Rightarrow>
          Some (0,
            cstr ''GGUF: '' @ path @ [10] @ cstr ''size: '' @ fmt_u64 (vg_gguf_file_size (Some g)) @ cstr '' bytes'' @ [10] @
            cstr ''data_base: '' @ fmt_u64 (vg_gguf_data_base (Some g)) @ [10] @ cstr ''tensors: '' @ fmt_u64 (vg_gguf_tensor_count (Some g)) @ [10] @
            say_meta g ''architecture: '' ''general.architecture'' @ say_meta g ''name: '' ''general.name'' @
            concat (map (\<lambda>i. inspect_tensor (the (vg_gguf_tensor_at (Some g) (of_nat i)))) [0..<min 12 (unat (vg_gguf_tensor_count (Some g)))]) @
            (case vg_tensor_source_open (Some g) (Some (gen_tsconfig None)) of
               Inl st \<Rightarrow> []
             | Inr src \<Rightarrow> cstr ''lazy source: host_budget='' @ fmt_u64 (tt_bytes_budget (vg_tensor_source_stats src) div (1024 * 1024)) @ cstr '' MiB'' @ [10])))"

text \<open>The estimate of \<^verbatim>\<open>diagnostics\<close>: bytes of keys or values per token.\<close>

definition kv_per_token :: "u32 \<Rightarrow> u32 \<Rightarrow> u32 \<Rightarrow> u64" where
  "kv_per_token n_layers kv_heads hd_dim = ucast n_layers * ucast kv_heads * ucast hd_dim * 2"

text \<open>How many tensors a type has and how many bytes they take.\<close>

definition type_totals :: "vg_gguf_tensor list \<Rightarrow> u32 \<Rightarrow> u64 \<times> u64" where
  "type_totals ts type =
     foldl (\<lambda>(count, nbytes) t. if t_ggml_type t < 64 \<and> t_ggml_type t = type then (count + 1, nbytes + t_nbytes t) else (count, nbytes)) (0, 0) ts"

definition meta_u32 :: "vg_gguf \<Rightarrow> string \<Rightarrow> u32" where
  "meta_u32 g key = (case vg_gguf_meta (Some g) (Some (cstr key)) of None \<Rightarrow> 0 | Some s \<Rightarrow> word_of_int (fst (strtol s)))"

definition kv_report :: "vg_gguf \<Rightarrow> bytes" where
  "kv_report g =
     (let n_layers = meta_u32 g ''llama.attention.layer_count''; kv_heads = meta_u32 g ''llama.attention.head_count_kv'';
          hd_dim = meta_u32 g ''llama.attention.key_length''; per_token = kv_per_token n_layers kv_heads hd_dim;
          x = f_of_int binary64 (uint per_token); kib = f_of_int binary64 1024
      in if n_layers = 0 \<or> kv_heads = 0 \<or> hd_dim = 0 then []
         else [10] @ cstr ''KV shape: n_layers='' @ dec (unat n_layers) @ cstr '' kv_heads='' @ dec (unat kv_heads) @ cstr '' head_dim='' @ dec (unat hd_dim) @ [10] @
              cstr ''per-token KV: '' @ fmt_u64 per_token @ cstr '' bytes ('' @ fmt_f1 (f_div binary64 x kib) @ cstr '' KiB)'' @ [10] @
              cstr ''128K context estimate: '' @
              fmt_f1 (f_div binary64 (f_mul binary64 x (f_of_int binary64 131072)) (f_of_int binary64 (1024 * 1024 * 1024))) @ cstr '' GiB'' @ [10])"

text \<open>The first tensor is acquired to try the source; \<open>None\<close> is undefined behaviour of that.\<close>

definition source_report :: "gen_host \<Rightarrow> vg_gguf \<Rightarrow> bytes option" where
  "source_report h g =
     (case vg_tensor_source_open (Some g) (Some ((gen_tsconfig None)\<lparr>tc_host_budget_bytes := 64 * 1024 * 1024\<rparr>)) of
        Inl st \<Rightarrow> Some []
      | Inr src \<Rightarrow>
          (let head = [10] @ cstr ''storage source: host_budget='' @ fmt_u64 (tt_bytes_budget (vg_tensor_source_stats src) div (1024 * 1024)) @ cstr '' MiB'' @ [10];
               tail = (\<lambda>s. let ss = vg_tensor_source_stats s in cstr ''stats: lookups='' @ fmt_u64 (tt_lookups ss) @ cstr '' hits='' @ fmt_u64 (tt_hits ss) @
                             cstr '' misses='' @ fmt_u64 (tt_misses ss) @ cstr '' evictions='' @ fmt_u64 (tt_evictions ss) @ [10])
           in case vg_gguf_tensor_at (Some g) 0 of
                None \<Rightarrow> Some (head @ tail src)
              | Some t0 \<Rightarrow>
                  (case vg_tensor_acquire (ho_io h) (Some (t_name t0)) VG_TIER_HOST src of
                     None \<Rightarrow> None
                   | Some (st, l, s1) \<Rightarrow>
                       Some (head @ cstr ''first tensor '' @ [39] @ t_name t0 @ [39] @
                         (if st = VG_OK then cstr '': acquired OK ('' @ fmt_u64 (le_size l) @ cstr '' bytes)'' else cstr '': acquire failed: '' @ status_name st) @ [10] @
                         tail (if st = VG_OK then vg_tensor_release l s1 else s1)))))"

definition diagnostics :: "gen_host \<Rightarrow> bytes \<Rightarrow> (int \<times> bytes) option" where
  "diagnostics h path =
     (case open_file h path of
        OpenUndef \<Rightarrow> None
      | OpenFailed st \<Rightarrow> Some (2, [])
      | Opened g \<Rightarrow>
          (let ts = map (\<lambda>i. the (vg_gguf_tensor_at (Some g) (of_nat i))) [0..<unat (vg_gguf_tensor_count (Some g))]
           in map_option (\<lambda>tail. (0,
                cstr ''=== Model Diagnostics: '' @ path @ cstr '' ==='' @ [10] @ cstr ''file_size: '' @ fmt_u64 (vg_gguf_file_size (Some g)) @ cstr '' bytes'' @ [10] @
                cstr ''data_base: '' @ fmt_u64 (vg_gguf_data_base (Some g)) @ [10] @ cstr ''tensor_count: '' @ fmt_u64 (vg_gguf_tensor_count (Some g)) @ [10] @
                say_meta g ''architecture: '' ''general.architecture'' @ say_meta g ''name: '' ''general.name'' @
                [10] @ cstr ''tensor type distribution:'' @ [10] @
                concat (map (\<lambda>i. case type_totals ts (of_nat i) of (n, nbytes) \<Rightarrow>
                  if n \<noteq> 0 then cstr ''  type '' @ dec i @ cstr '': '' @ fmt_u64 n @ cstr '' tensors ('' @ fmt_u64 nbytes @ cstr '' bytes)'' @ [10] else []) [0..<64]) @
                (case vg_gguf_meta (Some g) (Some (cstr ''tokenizer.ggml.model'')) of None \<Rightarrow> [] | Some s \<Rightarrow> [10] @ cstr ''tokenizer model: '' @ s @ [10]) @
                (case vg_tokenizer_load (ho_strtod h) (Some g) of
                   Inl st \<Rightarrow> [] | Inr tok \<Rightarrow> cstr ''vocab size: '' @ dec (vg_tokenizer_vocab_size (Some tok)) @ [10]) @
                kv_report g @ tail)) (source_report h g)))"

section \<open>Streaming a tensor\<close>

definition count_chunk :: "bytes \<Rightarrow> u64 \<Rightarrow> u64 \<Rightarrow> vg_status \<times> u64" where
  "count_chunk data off n = (VG_OK, n + of_nat (length data))"

text \<open>A source without a budget of its own or a mapping.\<close>

definition stream_tsconfig :: vg_tensorsourceconfig where
  "stream_tsconfig = (gen_tsconfig None)\<lparr>tc_host_budget_bytes := 0, tc_use_mmap := False\<rparr>"

definition stream_cmd :: "gen_host \<Rightarrow> bytes \<Rightarrow> bytes \<Rightarrow> (int \<times> bytes) option" where
  "stream_cmd h path tensor =
     (case open_file h path of
        OpenUndef \<Rightarrow> None
      | OpenFailed st \<Rightarrow> Some (2, [])
      | Opened g \<Rightarrow>
          map_option (\<lambda>(st, n). (if st = VG_OK then 0 else 2, cstr ''streamed='' @ fmt_u64 n @ cstr '' status='' @ status_name st @ [10]))
            (case vg_tensor_source_open (Some g) (Some stream_tsconfig) of
               Inl st \<Rightarrow> Some (st, 0)
             | Inr s \<Rightarrow> map_option (\<lambda>(st, n, s'). (st, n)) (vg_tensor_stream (ho_io h) (Some tensor) (4 * 1024 * 1024) count_chunk 0 s)))"

section \<open>The logits of a prompt\<close>

text \<open>The largest logits of \<^verbatim>\<open>logits\<close>, each overwritten by \<^verbatim>\<open>-1e30f\<close> once it is printed.\<close>

fun top_logits :: "nat \<Rightarrow> u32 \<Rightarrow> flt list \<Rightarrow> (nat \<times> flt) list" where
  "top_logits 0 V lg = []"
| "top_logits (Suc k) V lg =
     (let b = argmax_logits lg V in (b, lg ! b) # top_logits k V (lg[b := f_of_int binary32 (- (10 ^ 30))]))"

text \<open>\<^verbatim>\<open>logits\<close> does not ask the probe. Its answer is the exit code and, when it is 0, the five tokens with their pieces.\<close>

definition logits_dump :: "gen_host \<Rightarrow> bytes \<Rightarrow> bytes option \<Rightarrow> (int \<times> (nat \<times> bytes \<times> flt) list) option" where
  "logits_dump h path prompt =
     (case open_file h path of
        OpenUndef \<Rightarrow> None
      | OpenFailed st \<Rightarrow> Some (2, [])
      | Opened g \<Rightarrow>
          (case vg_tensor_source_open (Some g) (Some (gen_tsconfig None)) of
             Inl st \<Rightarrow> Some (2, [])
           | Inr src \<Rightarrow>
               (let en = (engine_env h None g src)\<lparr>en_cpu := ho_cpu h\<rparr>
                in case vg_model_graph_load en of
                     Inl st \<Rightarrow> Some (2, [])
                   | Inr gr \<Rightarrow>
                       (case vg_tokenizer_load (ho_strtod h) (Some g) of
                          Inl st \<Rightarrow> Some (2, [])
                        | Inr tok \<Rightarrow>
                            (let line = (case prompt of Some p \<Rightarrow> p | None \<Rightarrow> cstr ''The capital of France is'')
                             in case (case vg_tokenizer_encode (Some tok) (Some line) 0 of
                                        None \<Rightarrow> None | Some (_, n) \<Rightarrow> vg_tokenizer_encode (Some tok) (Some line) n) of
                                  None \<Rightarrow> None
                                | Some (ids, _) \<Rightarrow>
                                    (case infer_prefill (graph_decoder en) (mc_bos_id (mg_cfg gr) # ids) 0 gr of
                                       Inl g' \<Rightarrow> Some (2, [])
                                     | Inr (lg, pos, g') \<Rightarrow>
                                         Some (0, map (\<lambda>(t, x). (t, take 60 (c_string (fst (vg_tokenizer_decode (Some tok) (int t) 256))), x))
                                           (top_logits 5 (mc_n_vocab (mg_cfg gr)) lg))))))))"

section \<open>Chat\<close>

text \<open>\<^verbatim>\<open>fgets\<close>: a line with its newline, or as much of it as fits.\<close>

fun fgets :: "nat \<Rightarrow> bytes \<Rightarrow> bytes \<times> bytes" where
  "fgets 0 inp = ([], inp)"
| "fgets (Suc k) [] = ([], [])"
| "fgets (Suc k) (c # cs) = (if c = 10 then ([c], cs) else (case fgets k cs of (l, rest) \<Rightarrow> (c # l, rest)))"

definition strip_eol :: "bytes \<Rightarrow> bytes" where
  "strip_eol l = rev (dropWhile (\<lambda>c. c = 10 \<or> c = 13) (rev (c_string l)))"

text \<open>The prompt a chat turn is wrapped in, cut to the buffer of 8192 bytes.\<close>

definition chat_prompt :: "bytes \<Rightarrow> bytes \<Rightarrow> bytes" where
  "chat_prompt sys line =
     (let user = cstr ''<|start_header_id|>user<|end_header_id|>'' @ [10] @ line @
                 cstr ''<|eot_id|><|start_header_id|>assistant<|end_header_id|>'' @ [10]
      in take 8191 (cstr ''<|begin_of_text|>'' @
           (if sys \<noteq> [] then cstr ''<|start_header_id|>system<|end_header_id|>'' @ [10] @ sys @ cstr ''<|eot_id|>'' else []) @ user))"

definition chat_config :: vg_generateconfig where
  "chat_config =
     \<lparr>gc_n_predict = 512, gc_n_ctx = 4096, gc_seed = 0xffffffff, gc_top_k = 40, gc_top_p = fdiv (FFin False 95 0) (FFin False 100 0),
      gc_temperature = fdiv (FFin False 7 0) (FFin False 10 0), gc_repeat_penalty = fdiv (FFin False 11 0) (FFin False 10 0), gc_repeat_last_n = 64,
      gc_use_mmap = 1, gc_n_threads = 0, gc_use_gpu = 0, gc_ngl_layers = 0, gc_lora_path = None, gc_lora_scale = f_zero\<rparr>"

text \<open>The callback that prints, with the text printed so far; \<open>None\<close> after reading outside the buffer.\<close>

definition emit_stdout :: "bytes \<Rightarrow> nat \<Rightarrow> int \<Rightarrow> bytes option \<Rightarrow> bool \<times> bytes option" where
  "emit_stdout piece n tok out =
     (True, case out of None \<Rightarrow> None | Some b \<Rightarrow> map_option (\<lambda>w. b @ w) (written 256 piece n))"

lemma fgets_le: "length (snd (fgets k inp)) \<le> length inp"
  by (induction k inp rule: fgets.induct) (auto split: prod.splits)

lemma fgets_less: "0 < k \<Longrightarrow> inp \<noteq> [] \<Longrightarrow> length (snd (fgets k inp)) < length inp"
  using fgets_le [of "k - 1" "tl inp"] by (cases k; cases inp) (auto simp: case_prod_unfold)

text \<open>
  The loop over the input; the answer is what is printed. Every turn opens the model again, and may find the host in another
  state: \<open>h i\<close> in turn \<open>i\<close>.
\<close>

function chat_loop :: "(nat \<Rightarrow> gen_host) \<Rightarrow> bytes \<Rightarrow> bytes \<Rightarrow> nat \<Rightarrow> bytes \<Rightarrow> bytes \<Rightarrow> bytes option" where
  "chat_loop h path sys i inp out =
     (if inp = [] then Some out
      else (case fgets 4095 inp of
              (l, rest) \<Rightarrow>
                (let line = strip_eol l
                 in if line = [] then chat_loop h path sys i rest out
                    else if line = cstr ''exit'' \<or> line = cstr ''quit'' then Some out
                    else (case vg_generate (h i) (Some path) (Some (chat_prompt sys line)) (Some chat_config) (Some emit_stdout) (Some out) of
                            None \<Rightarrow> None
                          | Some (st, evs, None) \<Rightarrow> None
                          | Some (st, evs, Some out') \<Rightarrow> if st \<noteq> VG_OK then Some out' else chat_loop h path sys (Suc i) rest out'))))"
  by pat_completeness auto
termination
  by (relation "measure (\<lambda>(h, path, sys, i, inp, out). length inp)") (simp_all, (metis fgets_less snd_conv zero_less_numeral)+)

declare chat_loop.simps [simp del]

definition chat_mode :: "(nat \<Rightarrow> gen_host) \<Rightarrow> bytes \<Rightarrow> bytes \<Rightarrow> bytes \<Rightarrow> (int \<times> bytes) option" where
  "chat_mode h path sys inp = map_option (Pair 0) (chat_loop h path sys 0 inp [])"

section \<open>Plugins\<close>

definition kind_number :: "vg_pluginkind \<Rightarrow> nat" where
  "kind_number k =
     (case k of VG_PLUGIN_MODEL \<Rightarrow> 1 | VG_PLUGIN_QUANT \<Rightarrow> 2 | VG_PLUGIN_STORAGE \<Rightarrow> 3 | VG_PLUGIN_BACKEND \<Rightarrow> 4 | VG_PLUGIN_SAMPLER \<Rightarrow> 5)"

definition plugin_info :: "'lib linker \<Rightarrow> bytes \<Rightarrow> int \<times> bytes" where
  "plugin_info lk path =
     (case vg_plugin_load lk (Some path) True of
        (st, h, evs) \<Rightarrow>
          if st \<noteq> VG_OK then (2, [])
          else (let i = pl_info (the (vg_plugin_of h))
                in (0, cstr ''plugin: '' @ pi_name i @ [32] @ pi_version i @ [10] @ cstr ''kind: '' @ dec (kind_number (pi_kind i)) @ [10] @
                       cstr ''description: '' @ pi_description i @ [10])))"

section \<open>The program\<close>

text \<open>The exit code, for the hosts of the turns of a chat, the linker, the input and the arguments.\<close>

definition main_exit :: "(nat \<Rightarrow> gen_host) \<Rightarrow> 'lib linker \<Rightarrow> bytes \<Rightarrow> bytes list \<Rightarrow> int option" where
  "main_exit h lk inp args =
     (case dispatch args of
        NoVulkan \<Rightarrow> Some 3
      | CpuInfer path prompt \<Rightarrow> map_option fst (cpu_infer (h 0) path prompt)
      | ProbeCmd path \<Rightarrow> map_option fst (probe_cmd (h 0) path)
      | PluginInfo path \<Rightarrow> Some (fst (plugin_info lk path))
      | SpecCmd target draft n \<Rightarrow> map_option fst (spec_cmd (h 0) target draft n)
      | Inspect path \<Rightarrow> map_option fst (inspect (h 0) path)
      | Diagnostics path \<Rightarrow> map_option fst (diagnostics (h 0) path)
      | TokenizeCmd path arg \<Rightarrow> map_option fst (tokenize_cmd (h 0) path arg)
      | LogitsDump path prompt \<Rightarrow> map_option fst (logits_dump (h 0) path prompt)
      | ChatMode path sys \<Rightarrow> map_option fst (chat_mode h path sys inp)
      | StreamCmd path tensor \<Rightarrow> map_option fst (stream_cmd (h 0) path tensor)
      | Usage \<Rightarrow> Some 1)"

end
