(* ===== verification/RunMain.thy ===== *)
theory RunMain
  imports Reports
begin

text \<open>
  The program of \<^verbatim>\<open>src/run_main.cpp\<close>: its options, the prompt read from a file, the chat framing of instruct models and the call
  of the engine. The measurement of the speed and what goes to the error stream are left out.
\<close>

section \<open>Options\<close>

record run_opts =
  ro_model :: "bytes option"
  ro_prompt :: bytes
  ro_prompt_file :: "bytes option"
  ro_system :: "bytes option"
  ro_config :: vg_generateconfig

definition default_opts :: run_opts where
  "default_opts =
     \<lparr>ro_model = None, ro_prompt = cstr ''Hello'', ro_prompt_file = None, ro_system = None,
      ro_config = \<lparr>gc_n_predict = 128, gc_n_ctx = 4096, gc_seed = 0xffffffff, gc_top_k = 40, gc_top_p = fdiv (FFin False 95 0) (FFin False 100 0),
        gc_temperature = fdiv (FFin False 8 0) (FFin False 10 0), gc_repeat_penalty = fdiv (FFin False 11 0) (FFin False 10 0), gc_repeat_last_n = 64,
        gc_use_mmap = 1, gc_n_threads = 0, gc_use_gpu = 0, gc_ngl_layers = 0, gc_lora_path = None, gc_lora_scale = f_one\<rparr>\<rparr>"

definition atoi :: "bytes \<Rightarrow> int" where
  "atoi s = to_int32 (fst (strtol s))"

text \<open>An option with a value; \<open>None\<close> when there is no such option.\<close>

definition set_option :: "(bytes \<Rightarrow> flt) \<Rightarrow> bytes \<Rightarrow> bytes \<Rightarrow> run_opts \<Rightarrow> run_opts option" where
  "set_option stof a v r =
     (let c = ro_config r; is = (\<lambda>s. a = cstr s); cfg = (\<lambda>c. Some (r\<lparr>ro_config := c\<rparr>))
      in if is ''-m'' then Some (r\<lparr>ro_model := Some v\<rparr>)
         else if is ''-f'' then Some (r\<lparr>ro_prompt_file := Some v\<rparr>)
         else if is ''-p'' then Some (r\<lparr>ro_prompt := v\<rparr>)
         else if is ''-n'' then cfg (c\<lparr>gc_n_predict := atoi v\<rparr>)
         else if is ''-c'' then cfg (c\<lparr>gc_n_ctx := atoi v\<rparr>)
         else if is ''--temp'' then cfg (c\<lparr>gc_temperature := stof v\<rparr>)
         else if is ''--top-k'' then cfg (c\<lparr>gc_top_k := atoi v\<rparr>)
         else if is ''--top-p'' then cfg (c\<lparr>gc_top_p := stof v\<rparr>)
         else if is ''--threads'' then cfg (c\<lparr>gc_n_threads := atoi v\<rparr>)
         else if is ''--seed'' then cfg (c\<lparr>gc_seed := ucast (fst (strtoull v))\<rparr>)
         else if is ''--ngl'' then cfg (c\<lparr>gc_ngl_layers := atoi v, gc_use_gpu := (if atoi v > 0 then 1 else 0)\<rparr>)
         else if is ''--lora'' then cfg (c\<lparr>gc_lora_path := Some v\<rparr>)
         else if is ''--lora-scale'' then cfg (c\<lparr>gc_lora_scale := stof v\<rparr>)
         else if is ''--system'' then Some (r\<lparr>ro_system := Some v\<rparr>)
         else None)"

datatype parsed = ShowHelp | BadOption bytes | Parsed run_opts

fun parse_args :: "(bytes \<Rightarrow> flt) \<Rightarrow> bytes list \<Rightarrow> run_opts \<Rightarrow> parsed" where
  "parse_args stof [] r = Parsed r"
| "parse_args stof (a # rest) r =
     (if a = cstr ''--help'' \<or> a = cstr ''-h'' then ShowHelp
      else if a = cstr ''--no-mmap'' then parse_args stof rest (r\<lparr>ro_config := (ro_config r)\<lparr>gc_use_mmap := 0\<rparr>\<rparr>)
      else (case rest of
              [] \<Rightarrow> BadOption a
            | v # args \<Rightarrow> (case set_option stof a v r of None \<Rightarrow> BadOption a | Some r' \<Rightarrow> parse_args stof args r')))"

section \<open>The prompt of a file\<close>

text \<open>
  The buffer grows until 4096 bytes and a NUL fit behind what has been read; a short read ends the loop. \<open>left\<close> is what the file
  still has; the answer is what was read and the room of the buffer. \<open>None\<close> is a write behind the buffer.
\<close>

function read_prompt :: "bytes \<Rightarrow> nat \<Rightarrow> bytes \<Rightarrow> (bytes \<times> nat) option" where
  "read_prompt left cap buf =
     (let cap' = (if length buf + 4096 + 1 > cap then cap * 2 else cap); got = take 4096 left
      in if length buf + 4096 > cap' then None
         else if length got < 4096 then (if length buf + length got < cap' then Some (buf @ got, cap') else None)
         else read_prompt (drop 4096 left) cap' (buf @ got))"
  by pat_completeness auto
termination
  by (relation "measure (\<lambda>(left, cap, buf). length left)") auto

declare read_prompt.simps [simp del]

section \<open>Framing\<close>

definition contains :: "bytes \<Rightarrow> bytes \<Rightarrow> bool" where
  "contains needle hay \<longleftrightarrow> list_ex (\<lambda>i. take (length needle) (drop i hay) = needle) [0..<Suc (length hay)]"

definition is_instruct :: "vg_gguf \<Rightarrow> bool" where
  "is_instruct g \<longleftrightarrow>
     (case vg_gguf_meta (Some g) (Some (cstr ''general.name'')) of
        None \<Rightarrow> False
      | Some name \<Rightarrow> list_ex (\<lambda>w. contains (cstr w) name)
          [''Instruct'', ''Chat'', ''chat'', ''Qwen'', ''Gemma'', ''gemma'', ''Phi'', ''phi'', ''Mistral'', ''mistral'']) \<or>
     vg_gguf_meta (Some g) (Some (cstr ''tokenizer.chat_template'')) \<noteq> None"

definition has_llama3_vocab :: "vg_gguf \<Rightarrow> bool" where
  "has_llama3_vocab g \<longleftrightarrow>
     (case vg_gguf_meta (Some g) (Some (cstr ''tokenizer.ggml.tokens'')) of None \<Rightarrow> False | Some ts \<Rightarrow> contains (cstr ''<|start_header_id|>'') ts)"

definition chat_template_llama3 :: "bytes \<Rightarrow> bytes option \<Rightarrow> bytes" where
  "chat_template_llama3 user sys =
     cstr ''<|begin_of_text|>'' @
     (case sys of None \<Rightarrow> [] | Some s \<Rightarrow> cstr ''<|start_header_id|>system<|end_header_id|>'' @ [10] @ s @ cstr ''<|eot_id|>'') @
     cstr ''<|start_header_id|>user<|end_header_id|>'' @ [10] @ user @ cstr ''<|eot_id|><|start_header_id|>assistant<|end_header_id|>'' @ [10]"

text \<open>An empty prompt and one that starts with the text of the BOS token are left alone. \<open>g\<close> is the opened model.\<close>

definition wants_frame :: "bytes \<Rightarrow> bool" where
  "wants_frame prompt \<longleftrightarrow> prompt \<noteq> [] \<and> take 15 prompt \<noteq> cstr ''<|begin_of_text''"

definition framed :: "open_result \<Rightarrow> bytes option \<Rightarrow> bytes \<Rightarrow> bytes option" where
  "framed opened sys prompt =
     (if \<not> wants_frame prompt then Some prompt
      else (case opened of
              OpenUndef \<Rightarrow> None
            | OpenFailed st \<Rightarrow> Some prompt
            | Opened g \<Rightarrow>
                Some (if is_instruct g \<and> has_llama3_vocab g
                      then chat_template_llama3 prompt (Some (case sys of Some s \<Rightarrow> s | None \<Rightarrow> cstr ''You are a helpful, conversationally-fluent assistant.''))
                      else prompt)))"

section \<open>The program\<close>

text \<open>The arguments after the name of the program; the answer is the exit code and what is printed.\<close>

definition run_main :: "gen_host \<Rightarrow> bytes list \<Rightarrow> (int \<times> bytes) option" where
  "run_main h args =
     (case parse_args (ho_strtof h) args default_opts of
        ShowHelp \<Rightarrow> Some (0, [])
      | BadOption a \<Rightarrow> Some (1, [])
      | Parsed r \<Rightarrow>
          (case ro_model r of
             None \<Rightarrow> Some (1, [])
           | Some model \<Rightarrow>
               (case (case ro_prompt_file r of
                        None \<Rightarrow> Some (Some (ro_prompt r))
                      | Some f \<Rightarrow> (case ho_file h f of None \<Rightarrow> Some None | Some b \<Rightarrow> map_option (\<lambda>(t, cap). Some (c_string t)) (read_prompt b 4096 []))) of
                  None \<Rightarrow> None
                | Some None \<Rightarrow> Some (2, [])
                | Some (Some prompt) \<Rightarrow>
                    (case framed (open_file h model) (ro_system r) prompt of
                       None \<Rightarrow> None
                     | Some text_in \<Rightarrow>
                         (case vg_generate h (Some model) (Some text_in) (Some (ro_config r)) (Some emit_stdout) (Some []) of
                            Some (st, evs, Some out) \<Rightarrow> Some (if st = VG_OK then 0 else 2, out @ [10])
                          | _ \<Rightarrow> None)))))"

end
