(* ===== verification/RunMain_Props.thy ===== *)
theory RunMain_Props
  imports RunMain TensorSource_Props Cli_Props Generate_Props
begin

text \<open>
  Properties of the programs: streaming counts the bytes of the tensor, the prompt of a file is read whole without writing behind
  the buffer, framing a prompt twice is framing it once, and what the chat reads and prints.
\<close>

section \<open>Streaming\<close>

text \<open>Counting the chunks is logging them and adding up their lengths.\<close>

lemma stream_loop_count:
  "stream_loop env t chunk count_chunk off (of_nat (length (concat (map snd lg)))) g =
     map_option (\<lambda>(st, lg', g'). (st, of_nat (length (concat (map snd lg'))), g')) (stream_loop env t chunk (logging (\<lambda>_ _. VG_OK)) off lg g)"
proof (induction "unat (t_nbytes t) - unat off" arbitrary: off lg g rule: less_induct)
  case less
  show ?case
  proof (cases "off < t_nbytes t \<and> chunk \<noteq> 0")
    case False
    then show ?thesis by (subst (1 2) stream_loop.simps) auto
  next
    case True
    define n where "n = chunk_len t chunk off"
    have un: "unat n = min (unat (t_nbytes t) - unat off) (unat chunk)" "unat (off + n) = unat off + unat n"
      using chunk_len_unat [of off t chunk] True by (simp_all add: n_def)
    have "unat chunk \<noteq> 0" using True by (simp add: unat_eq_0)
    then have less': "unat (t_nbytes t) - unat (off + n) < unat (t_nbytes t) - unat off" using un True by (auto simp: word_less_nat_alt min_def)
    obtain r g1 where r: "vg_gguf_read env (Some g) (Some t) off True n = (r, g1)" by fastforce
    show ?thesis
    proof (cases r)
      case (ReadOK buf)
      have "of_nat (length (concat (map snd lg))) + of_nat (length buf) = (of_nat (length (concat (map snd (lg @ [(off, buf)])))) :: u64)" by simp
      then show ?thesis using less.hyps [OF less', of "lg @ [(off, buf)]" "the g1"] True r ReadOK
        by (subst (1 2) stream_loop.simps) (simp add: count_chunk_def logging_def n_def Let_def)
    qed (use True r in \<open>subst (1 2) stream_loop.simps, simp add: n_def Let_def\<close>)+
  qed
qed


section \<open>The prompt of a file\<close>

lemma read_prompt_all:
  assumes "length buf < cap" and "4096 \<le> cap"
  shows "\<exists>cap'. read_prompt left cap buf = Some (buf @ left, cap') \<and> length (buf @ left) < cap' \<and> cap' \<le> max cap (2 * (length (buf @ left) + 4096))"
  using assms
proof (induction left cap buf rule: read_prompt.induct)
  case (1 left cap buf)
  define cap2 where "cap2 = (if length buf + 4096 + 1 > cap then cap * 2 else cap)"
  have c: "length buf + 4096 < cap2" "4096 \<le> cap2" "cap2 \<le> max cap (2 * (length buf + 4096))" using "1.prems" by (auto simp: cap2_def)
  show ?case
  proof (cases "length left < 4096")
    case True
    then have "read_prompt left cap buf = Some (buf @ left, cap2)" using c by (subst read_prompt.simps) (simp add: cap2_def Let_def)
    then show ?thesis using c True by auto
  next
    case False
    have "\<exists>cap'. read_prompt (drop 4096 left) cap2 (buf @ take 4096 left) = Some ((buf @ take 4096 left) @ drop 4096 left, cap') \<and>
        length ((buf @ take 4096 left) @ drop 4096 left) < cap' \<and> cap' \<le> max cap2 (2 * (length ((buf @ take 4096 left) @ drop 4096 left) + 4096))"
      by (rule "1.IH" [OF cap2_def refl]) (use c False in auto)
    moreover have "read_prompt left cap buf = read_prompt (drop 4096 left) cap2 (buf @ take 4096 left)"
      using c False by (subst read_prompt.simps) (simp add: cap2_def Let_def)
    moreover have "cap2 \<le> max cap (2 * (length (buf @ left) + 4096))" using c(3) by auto
    ultimately show ?thesis by (auto simp: max_def split: if_splits)
  qed
qed

text \<open>A prompt file of any length is read whole, the buffer always has room for the NUL behind it, and the buffer is no longer
  than twice the file and two blocks.\<close>

theorem prompt_file_whole:
  "\<exists>cap. read_prompt contents 4096 [] = Some (contents, cap) \<and> length contents < cap \<and> cap \<le> 2 * (length contents + 4096)"
  using read_prompt_all [of "[]" 4096 contents] by auto

section \<open>Framing\<close>

lemma template_starts: "take 15 (chat_template_llama3 user sys) = cstr ''<|begin_of_text''"
  by (simp add: chat_template_llama3_def cstr_def)

text \<open>A framed prompt is left alone, whatever the model and the system text are.\<close>

theorem framing_once: "framed opened sys prompt = Some p \<Longrightarrow> p \<noteq> prompt \<Longrightarrow> framed opened' sys' p = Some p"
  by (auto simp: framed_def wants_frame_def template_starts split: open_result.splits if_splits)

section \<open>Chat\<close>

text \<open>Reading line by line gives the input back; every line but the last ends with a newline or fills the buffer.\<close>

lemma fgets_split:
  "fgets k inp = (l, rest) \<Longrightarrow> l @ rest = inp \<and> length l \<le> k \<and> (rest = [] \<or> length l = k \<or> (l \<noteq> [] \<and> last l = 10))"
proof (induction k inp arbitrary: l rule: fgets.induct)
  case (3 k c cs)
  show ?case
  proof (cases "c = 10")
    case False
    then obtain l' where l': "fgets k cs = (l', rest)" "l = c # l'" using "3.prems" by (auto split: prod.splits)
    then show ?thesis using "3.IH" [OF False l'(1)] by (cases l') auto
  qed (use "3.prems" in auto)
qed auto

section \<open>Exit codes\<close>

text \<open>The codes of a command: 0 for success and 2 for a failure; two commands also answer 3 for a model that does not fit.\<close>

lemma codes_02:
  "inspect h p = Some r \<Longrightarrow> fst r \<in> {0, 2}"
  "diagnostics h p = Some r \<Longrightarrow> fst r \<in> {0, 2}"
  "tokenize_cmd h p a = Some r \<Longrightarrow> fst r \<in> {0, 2}"
  "stream_cmd h p a = Some r \<Longrightarrow> fst r \<in> {0, 2}"
  "chat_mode hs p a inp = Some r \<Longrightarrow> fst r \<in> {0, 2}"
  "spec_cmd h p d n = Some r \<Longrightarrow> fst r \<in> {0, 2}"
  subgoal by (auto simp: inspect_def split: open_result.splits)
  subgoal by (auto simp: diagnostics_def Let_def split: open_result.splits)
  subgoal by (auto simp: tokenize_cmd_def split: open_result.splits option.splits sum.splits)
  subgoal by (auto simp: stream_cmd_def split: open_result.splits if_splits)
  subgoal by (auto simp: chat_mode_def)
  subgoal by (auto simp: spec_cmd_def Let_def split: option.splits if_splits)
  done

lemma codes_logits: "logits_dump h p pr = Some r' \<Longrightarrow> fst r' \<in> {0, 2}"
  by (auto simp: logits_dump_def Let_def simp del: infer_prefill.simps split: open_result.splits option.splits sum.splits)

lemma codes_run: "fst (cpu_infer_run m mc piece dstep ids g) \<noteq> 0 \<Longrightarrow> fst (cpu_infer_run m mc piece dstep ids g) = 2"
  by (auto simp: cpu_infer_run_def case_prod_unfold simp del: infer_prefill.simps split: sum.splits)

lemma codes_infer: "cpu_infer h p pr = Some r \<Longrightarrow> fst r \<in> {0, 2} \<or> (fst r = 3 \<and> (\<exists>g. open_file h p = Opened g \<and> \<not> mp_ok (the (snd (vg_model_probe (Some g) True)))))"
  by (auto simp: cpu_infer_def Let_def map_option_case case_prod_unfold intro: codes_run split: open_result.splits option.splits sum.splits if_splits)

lemma codes_probe: "probe_cmd h p = Some r \<Longrightarrow> fst r \<in> {0, 2} \<or> (fst r = 3 \<and> (\<exists>g. open_file h p = Opened g \<and> \<not> mp_ok (the (snd (vg_model_probe (Some g) True)))))"
  by (auto simp: probe_cmd_def Let_def split: open_result.splits prod.splits if_splits)

text \<open>The program exits with 1 exactly for arguments it does not know; with 3 only when asked for Vulkan, which is not there, or when
  a model that could be opened was rejected by the probe; every other code is 0 or 2.\<close>

theorem main_exit_codes:
  assumes "main_exit h lk inp args = Some code"
  shows "(code = 1 \<longleftrightarrow> dispatch args = Usage) \<and> code \<in> {0, 1, 2, 3} \<and>
    (code = 3 \<longrightarrow> dispatch args = NoVulkan \<or>
       (\<exists>path prompt g. (dispatch args = ProbeCmd path \<or> dispatch args = CpuInfer path prompt) \<and> open_file (h 0) path = Opened g \<and>
          \<not> mp_ok (the (snd (vg_model_probe (Some g) True)))))"
proof (cases "dispatch args")
  case (CpuInfer path prompt)
  then obtain r where "cpu_infer (h 0) path prompt = Some r" "code = fst r" using assms by (auto simp: main_exit_def)
  then show ?thesis using codes_infer [of "h 0" path prompt r] CpuInfer by auto
next
  case (ProbeCmd path)
  then obtain r where "probe_cmd (h 0) path = Some r" "code = fst r" using assms by (auto simp: main_exit_def)
  then show ?thesis using codes_probe [of "h 0" path r] ProbeCmd by auto
next
  case (PluginInfo path)
  then show ?thesis using assms by (auto simp: main_exit_def plugin_info_def Let_def split: prod.splits if_splits)
qed (use assms in \<open>auto simp: main_exit_def dest: codes_02 codes_logits\<close>)

section \<open>Witness\<close>

definition sample_host :: gen_host where
  "sample_host = tiny_host\<lparr>ho_file := (\<lambda>path. Some sample_file), ho_io := sample_env\<rparr>"

lemma sample_first_read: "vg_gguf_read sample_env (Some sample_gguf) (Some sample_tensor) 0 True 8 = (ReadOK sample_data, Some (sample_gguf\<lparr>g_map := Some sample_file\<rparr>))"
  by (simp add: vg_gguf_read_def vg_gguf_map_def sample_env_def Let_def sample_tensor_at sample_gguf_def new_gguf_def sample_tensor_def slice_def
      sample_file_def sample_head_def sample_meta_def sample_index_def sample_data_def)

lemma sample_stream: "stream_loop sample_env sample_tensor (4 * 1024 * 1024) count_chunk 0 0 sample_gguf = Some (VG_OK, 8, sample_gguf\<lparr>g_map := Some sample_file\<rparr>)"
proof -
  have n: "t_nbytes sample_tensor = 8" "chunk_len sample_tensor 4194304 0 = 8" by (simp_all add: sample_tensor_def chunk_len_def)
  have l: "length sample_data = 8" by (simp add: sample_data_def)
  show ?thesis
    by (subst stream_loop.simps) (simp add: n sample_first_read count_chunk_def l stream_loop.simps [of sample_env sample_tensor _ _ 8] Let_def)
qed


theorem main_exit_codes_witness:
  "main_exit (\<lambda>_. tiny_host) lk [] [cstr ''probe'', [109]] = Some 3 \<and> \<not> mp_ok (the (snd (vg_model_probe (Some tiny_gguf) True)))"
proof -
  have o: "open_file tiny_host [109] = Opened tiny_gguf" by (simp add: open_file_def tiny_host_def tiny_open)
  have d: "dispatch [cstr ''probe'', [109]] = ProbeCmd [109]" by (simp add: dispatch_def Let_def cstr_def)
  obtain st0 r where r: "vg_model_probe (Some tiny_gguf) True = (st0, r)" by fastforce
  obtain p p0 where p: "r = Some p" "judged tiny_gguf p0 p" "st0 = VG_OK" using probe_judged [OF r] by blast
  have "\<not> arch_supported [120]" by (simp add: arch_supported_def k_archs_def cstr_def byte_simps)
  then have "\<not> mp_ok p" using p(2) by (auto simp: judged_def model_fits_def tiny_meta_value)
  then have m: "main_exit (\<lambda>_. tiny_host) lk [] [cstr ''probe'', [109]] = Some 3"
    using o d r p by (simp add: main_exit_def probe_cmd_def Let_def)
  then show ?thesis using main_exit_codes [OF m] d o by auto
qed

end
