(* ===== verification/DeviceMemory.thy ===== *)
theory DeviceMemory
  imports CText
begin

text \<open>
  The memory of the Vulkan backend (\<^verbatim>\<open>src/vulkan_backend.cpp\<close>, lines 15 to 258, 354 to 371, 434 to 440 and 464 to 467):
  buffers and their memory types, the cache of weights on the device, the scratch buffers that are reused between calls and the
  account of what is allocated. The Vulkan functions are parameters: which memory types there are, which of them a buffer may
  use, and whether a call succeeds. Pipelines and dispatches are not modelled.
\<close>

section \<open>The device\<close>

text \<open>The property flags of a memory type and whether its heap is the device's.\<close>

record vk_memtype =
  vm_device_local :: bool
  vm_host_visible :: bool
  vm_coherent :: bool
  vm_cached :: bool
  vm_device_heap :: bool

text \<open>
  \<open>dv_require\<close> are the memory types a buffer of some size and usage may use, \<open>dv_ok n\<close> is whether the \<open>n\<close>-th call that
  can fail succeeds.
\<close>

record vk_device =
  dv_types :: "vk_memtype list"
  dv_require :: "u64 \<Rightarrow> u32 \<Rightarrow> u32"
  dv_ok :: "nat \<Rightarrow> bool"

section \<open>State\<close>

text \<open>A buffer: what has been written to it is \<open>vb_data\<close>; \<open>vb_mapped\<close> is whether the host has a pointer to it.\<close>

record vg_vkbuffer =
  vb_bytes :: u64
  vb_device_local :: bool
  vb_coherent :: bool
  vb_mapped :: bool
  vb_data :: bytes

record vk_cacheitem =
  ci_key :: u64
  ci_tag :: u32
  ci_buf :: nat
  ci_bytes :: u64
  ci_stamp :: u64
  ci_hits :: u64

text \<open>
  Buffers are numbers; \<open>vk_bufs\<close> holds the ones that live. \<open>vk_calls\<close> counts the calls that can fail, and \<open>vk_fault\<close>
  is set once a destroyed buffer or a missing mapping has been used.
\<close>

record vg_vk =
  vk_budget :: u64
  vk_allocated :: u64
  vk_has_cb :: bool
  vk_cache :: "vk_cacheitem list"
  vk_cache_total :: u64
  vk_cache_budget :: u64
  vk_cache_clock :: u64
  vk_scratch :: "(u64 \<times> nat option) list"
  vk_devscratch :: "(u64 \<times> nat option) list"
  vk_bufs :: "nat \<Rightarrow> vg_vkbuffer option"
  vk_next :: nat
  vk_calls :: nat
  vk_fault :: bool

text \<open>So many calls one after the other, as long as they succeed.\<close>

fun vk_all :: "vk_device \<Rightarrow> nat \<Rightarrow> vg_vk \<Rightarrow> bool \<times> vg_vk" where
  "vk_all d 0 v = (True, v)"
| "vk_all d (Suc n) v =
     (let v1 = v\<lparr>vk_calls := Suc (vk_calls v)\<rparr> in if dv_ok d (vk_calls v) then vk_all d n v1 else (False, v1))"

section \<open>Memory types\<close>

definition mem_type :: "vk_memtype list \<Rightarrow> u32 \<Rightarrow> (vk_memtype \<Rightarrow> bool) \<Rightarrow> nat option" where
  "mem_type ts bits want = List.find (\<lambda>i. bit bits i \<and> want (ts ! i)) [0..<length ts]"

definition or_else :: "'a option \<Rightarrow> 'a option \<Rightarrow> 'a option" where
  "or_else a b = (case a of Some x \<Rightarrow> Some x | None \<Rightarrow> b)"

text \<open>Memory of the device proper, and the four passes over the memory the host can see.\<close>

definition device_type :: "vk_memtype list \<Rightarrow> u32 \<Rightarrow> nat option" where
  "device_type ts bits =
     or_else (mem_type ts bits (\<lambda>t. vm_device_local t \<and> \<not> vm_host_visible t)) (mem_type ts bits vm_device_local)"

definition host_type :: "vk_memtype list \<Rightarrow> u32 \<Rightarrow> nat option" where
  "host_type ts bits =
     or_else (mem_type ts bits (\<lambda>t. vm_host_visible t \<and> vm_cached t \<and> vm_coherent t \<and> \<not> vm_device_heap t))
    (or_else (mem_type ts bits (\<lambda>t. vm_host_visible t \<and> vm_coherent t \<and> \<not> vm_device_heap t))
    (or_else (mem_type ts bits (\<lambda>t. vm_host_visible t \<and> \<not> vm_device_heap t))
    (or_else (mem_type ts bits (\<lambda>t. vm_host_visible t \<and> vm_coherent t))
             (mem_type ts bits vm_host_visible))))"

definition buffer_type :: "vk_memtype list \<Rightarrow> u32 \<Rightarrow> bool \<Rightarrow> nat option" where
  "buffer_type ts bits device_local = (if device_local then or_else (device_type ts bits) (host_type ts bits) else host_type ts bits)"

section \<open>Buffers\<close>

definition destroy_buffer :: "nat option \<Rightarrow> vg_vk \<Rightarrow> vg_vk" where
  "destroy_buffer b v =
     (case b of
        None \<Rightarrow> v
      | Some i \<Rightarrow>
          (case vk_bufs v i of
             None \<Rightarrow> v\<lparr>vk_fault := True\<rparr>
           | Some x \<Rightarrow> v\<lparr>vk_bufs := (vk_bufs v)(i := None), vk_allocated := vk_allocated v - vb_bytes x\<rparr>))"

definition USAGE_STORAGE :: u32 where "USAGE_STORAGE = 0x20"
definition USAGE_SRC :: u32 where "USAGE_SRC = 1"
definition USAGE_DST :: u32 where "USAGE_DST = 2"

text \<open>Status, buffer and state. Memory is bound in two calls; memory that is not the device's is then mapped.\<close>

definition make_buffer_ex :: "vk_device \<Rightarrow> u64 \<Rightarrow> u32 \<Rightarrow> bool \<Rightarrow> vg_vk \<Rightarrow> vg_status \<times> nat option \<times> vg_vk" where
  "make_buffer_ex d n usage device_local v =
     (if n = 0 then (VG_E_INVALID, None, v)
      else if vk_allocated v + n > vk_budget v then (VG_E_NOMEM, None, v)
      else (let i = vk_next v;
                b = \<lparr>vb_bytes = n, vb_device_local = device_local, vb_coherent = False, vb_mapped = False, vb_data = []\<rparr>;
                (created, v1) = vk_all d 1 (v\<lparr>vk_next := Suc i\<rparr>)
            in if \<not> created then (VG_E_NOMEM, None, v1)
               else (let v2 = v1\<lparr>vk_bufs := (vk_bufs v1)(i \<mapsto> b)\<rparr>
                     in case buffer_type (dv_types d) (dv_require d n usage) device_local of
                          None \<Rightarrow> (VG_E_UNSUPPORTED, None, destroy_buffer (Some i) v2)
                        | Some ti \<Rightarrow>
                            (let t = dv_types d ! ti; (bound, v3) = vk_all d 2 v2
                             in if \<not> bound then (VG_E_NOMEM, None, destroy_buffer (Some i) v3)
                                else (let (mapped, v4) = (if vm_device_local t then (True, v3) else vk_all d 1 v3)
                                      in if \<not> mapped then (VG_E_NOMEM, None, destroy_buffer (Some i) v4)
                                         else (VG_OK, Some i,
                                           v4\<lparr>vk_bufs := (vk_bufs v4)(i \<mapsto>
                                                 b\<lparr>vb_device_local := vm_device_local t, vb_coherent := vm_coherent t, vb_mapped := \<not> vm_device_local t\<rparr>),
                                              vk_allocated := vk_allocated v4 + n\<rparr>))))))"

definition put_bytes :: "bytes \<Rightarrow> vg_vkbuffer \<Rightarrow> vg_vkbuffer" where
  "put_bytes data b = b\<lparr>vb_data := data @ drop (length data) (vb_data b)\<rparr>"

text \<open>Writing through the mapping of a buffer.\<close>

definition write_mapped :: "nat \<Rightarrow> bytes \<Rightarrow> vg_vk \<Rightarrow> vg_vk" where
  "write_mapped i data v =
     (case vk_bufs v i of
        Some b \<Rightarrow> if vb_mapped b then v\<lparr>vk_bufs := (vk_bufs v)(i \<mapsto> put_bytes data b)\<rparr> else v\<lparr>vk_fault := True\<rparr>
      | None \<Rightarrow> v\<lparr>vk_fault := True\<rparr>)"

text \<open>A buffer that a slot keeps: it is handed out again while it is large enough, and replaced otherwise.\<close>

definition slot_acquire ::
  "vk_device \<Rightarrow> u32 \<Rightarrow> bool \<Rightarrow> (u64 \<times> nat option) list \<Rightarrow> nat \<Rightarrow> u64 \<Rightarrow> vg_vk \<Rightarrow> vg_status \<times> nat option \<times> (u64 \<times> nat option) list \<times> vg_vk" where
  "slot_acquire d usage device_local slots slot n v =
     (let sl = slots @ replicate (Suc slot - length slots) (0, None); (cap, b) = sl ! slot
      in if b \<noteq> None \<and> n \<le> cap then (VG_OK, b, sl, v)
         else (case make_buffer_ex d n usage device_local (destroy_buffer b v) of
                 (st, nb, v2) \<Rightarrow>
                   if st \<noteq> VG_OK then (st, None, sl[slot := (0, None)], v2) else (VG_OK, nb, sl[slot := (n, nb)], v2)))"

definition vg_vk_scratch_acquire :: "vk_device \<Rightarrow> u32 \<Rightarrow> u64 \<Rightarrow> vg_vk \<Rightarrow> vg_status \<times> nat option \<times> vg_vk" where
  "vg_vk_scratch_acquire d slot n v =
     (if n = 0 then (VG_E_INVALID, None, v)
      else (case slot_acquire d (USAGE_STORAGE OR USAGE_SRC OR USAGE_DST) False (vk_scratch v) (unat slot) n v of
              (st, b, sl, v') \<Rightarrow> (st, b, v'\<lparr>vk_scratch := sl\<rparr>)))"

definition vg_vk_dev_scratch_acquire :: "vk_device \<Rightarrow> u32 \<Rightarrow> u64 \<Rightarrow> vg_vk \<Rightarrow> vg_status \<times> nat option \<times> vg_vk" where
  "vg_vk_dev_scratch_acquire d slot n v =
     (if n = 0 then (VG_E_INVALID, None, v)
      else (case slot_acquire d (USAGE_STORAGE OR USAGE_SRC OR USAGE_DST) True (vk_devscratch v) (unat slot) n v of
              (st, b, sl, v') \<Rightarrow> (st, b, v'\<lparr>vk_devscratch := sl\<rparr>)))"

text \<open>
  One command buffer, allocated at the first use: recording begins and ends, is submitted and waited for. What was recorded
  has happened when all of this succeeds.
\<close>

definition submit_one :: "vk_device \<Rightarrow> (vg_vk \<Rightarrow> vg_vk) \<Rightarrow> vg_vk \<Rightarrow> vg_status \<times> vg_vk" where
  "submit_one d recorded v =
     (let (ok, v1) = (if vk_has_cb v then (True, v) else vk_all d 1 v)
      in if \<not> ok then (VG_E_NOMEM, v1)
         else (let (ran, v2) = vk_all d 4 (v1\<lparr>vk_has_cb := True\<rparr>) in if ran then (VG_OK, recorded v2) else (VG_E_IO, v2)))"

definition copy_buffer :: "nat \<Rightarrow> nat \<Rightarrow> nat \<Rightarrow> vg_vk \<Rightarrow> vg_vk" where
  "copy_buffer src dst n v =
     (case (vk_bufs v src, vk_bufs v dst) of
        (Some a, Some b) \<Rightarrow> v\<lparr>vk_bufs := (vk_bufs v)(dst \<mapsto> put_bytes (take n (vb_data a)) b)\<rparr>
      | _ \<Rightarrow> v\<lparr>vk_fault := True\<rparr>)"

definition upload_buffer :: "vk_device \<Rightarrow> nat \<Rightarrow> bytes \<Rightarrow> vg_vk \<Rightarrow> vg_status \<times> vg_vk" where
  "upload_buffer d dst data v =
     (case vk_bufs v dst of
        None \<Rightarrow> (VG_OK, v\<lparr>vk_fault := True\<rparr>)
      | Some b \<Rightarrow>
          (if vb_mapped b then (VG_OK, write_mapped dst data v)
           else (case vg_vk_scratch_acquire d 900 (of_nat (length data)) v of
                   (st, staging, v1) \<Rightarrow>
                     if st \<noteq> VG_OK then (st, v1)
                     else submit_one d (copy_buffer (the staging) dst (length data)) (write_mapped (the staging) data v1))))"

section \<open>The cache\<close>

definition cache_slot :: "u64 \<Rightarrow> u32 \<Rightarrow> vk_cacheitem list \<Rightarrow> nat option" where
  "cache_slot key tag es = List.find (\<lambda>i. ci_key (es ! i) = key \<and> ci_tag (es ! i) = tag) [0..<length es]"

definition cache_touch :: "nat \<Rightarrow> vg_vk \<Rightarrow> vg_vk" where
  "cache_touch i v =
     v\<lparr>vk_cache_clock := vk_cache_clock v + 1,
       vk_cache := (vk_cache v)[i := (vk_cache v ! i)\<lparr>ci_hits := ci_hits (vk_cache v ! i) + 1, ci_stamp := vk_cache_clock v + 1\<rparr>]\<rparr>"

text \<open>The key is a pointer, NULL being 0.\<close>

definition vg_vk_cache_get :: "u64 \<Rightarrow> u32 \<Rightarrow> vg_vk \<Rightarrow> vg_status \<times> nat option \<times> vg_vk" where
  "vg_vk_cache_get key tag v =
     (if key = 0 then (VG_E_INVALID, None, v)
      else (case cache_slot key tag (vk_cache v) of
              Some i \<Rightarrow> (VG_OK, Some (ci_buf (vk_cache v ! i)), cache_touch i v)
            | None \<Rightarrow> (VG_E_UNSUPPORTED, None, v)))"

text \<open>The limit: the budget of the cache, but no more than what the other buffers and a reserve of 192 MiB leave.\<close>

definition cache_limit :: "vg_vk \<Rightarrow> u64" where
  "cache_limit v =
     (let soft = (if vk_cache_budget v \<noteq> 0 then vk_cache_budget v else vk_budget v * 85 div 100);
          noncache = (if vk_allocated v > vk_cache_total v then vk_allocated v - vk_cache_total v else 0);
          headroom = 192 * 1024 * 1024;
          room = (if vk_budget v > noncache + headroom then vk_budget v - noncache - headroom else 0)
      in if soft > room then room else soft)"

text \<open>The entry with the smallest stamp below \<open>oldest\<close>, the one with the newest stamp left out.\<close>

fun oldest_item :: "u64 \<Rightarrow> vk_cacheitem list \<Rightarrow> nat \<Rightarrow> u64 \<Rightarrow> nat option \<Rightarrow> nat option" where
  "oldest_item clock [] i oldest best = best"
| "oldest_item clock (e # es) i oldest best =
     (if ci_stamp e \<noteq> clock \<and> ci_stamp e < oldest then oldest_item clock es (Suc i) (ci_stamp e) (Some i)
      else oldest_item clock es (Suc i) oldest best)"

definition cache_drop :: "nat \<Rightarrow> vg_vk \<Rightarrow> vg_vk" where
  "cache_drop i v =
     (let e = vk_cache v ! i; v1 = destroy_buffer (Some (ci_buf e)) (v\<lparr>vk_cache_total := vk_cache_total v - ci_bytes e\<rparr>)
      in v1\<lparr>vk_cache := take i (vk_cache v) @ drop (Suc i) (vk_cache v)\<rparr>)"

lemma oldest_item_range: "oldest_item clock es i oldest best = Some j \<Longrightarrow> best = Some j \<or> (i \<le> j \<and> j < i + length es)"
  by (induction clock es i oldest best rule: oldest_item.induct) (force split: if_splits)+

lemma cache_drop_cache [simp]: "vk_cache (cache_drop i v) = take i (vk_cache v) @ drop (Suc i) (vk_cache v)"
  by (simp add: cache_drop_def Let_def)

function vk_evict :: "u64 \<Rightarrow> u64 \<Rightarrow> vg_vk \<Rightarrow> vg_vk" where
  "vk_evict n soft v =
     (if vk_cache v \<noteq> [] \<and> vk_cache_total v + n > soft
      then (case oldest_item (vk_cache_clock v) (vk_cache v) 0 UINT64_MAX None of None \<Rightarrow> v | Some i \<Rightarrow> vk_evict n soft (cache_drop i v))
      else v)"
  by pat_completeness auto
termination
  by (relation "measure (\<lambda>(n, soft, v). length (vk_cache v))") (auto dest!: oldest_item_range)

declare vk_evict.simps [simp del]

definition vg_vk_cache_acquire :: "vk_device \<Rightarrow> u64 \<Rightarrow> u32 \<Rightarrow> bytes option \<Rightarrow> u64 \<Rightarrow> vg_vk \<Rightarrow> vg_status \<times> nat option \<times> vg_vk" where
  "vg_vk_cache_acquire d key tag data n v =
     (if key = 0 \<or> data = None \<or> n = 0 then (VG_E_INVALID, None, v)
      else (case cache_slot key tag (vk_cache v) of
              Some i \<Rightarrow> (VG_OK, Some (ci_buf (vk_cache v ! i)), cache_touch i v)
            | None \<Rightarrow>
                (case make_buffer_ex d n (USAGE_STORAGE OR USAGE_DST) True (vk_evict n (cache_limit v) v) of
                   (st, b, v2) \<Rightarrow>
                     if st \<noteq> VG_OK then (st, None, v2)
                     else (case upload_buffer d (the b) (take (unat n) (the data)) v2 of
                             (st, v3) \<Rightarrow>
                               if st \<noteq> VG_OK then (st, None, destroy_buffer b v3)
                               else (VG_OK, b,
                                 v3\<lparr>vk_cache_clock := vk_cache_clock v3 + 1,
                                    vk_cache := vk_cache v3 @ [\<lparr>ci_key = key, ci_tag = tag, ci_buf = the b, ci_bytes = n,
                                                                 ci_stamp = vk_cache_clock v3 + 1, ci_hits = 1\<rparr>],
                                    vk_cache_total := vk_cache_total v3 + n\<rparr>)))))"

section \<open>Buffers of a client, opening and closing\<close>

definition vg_vk_buffer_upload :: "vk_device \<Rightarrow> bytes \<Rightarrow> vg_vk \<Rightarrow> vg_status \<times> nat option \<times> vg_vk" where
  "vg_vk_buffer_upload d data v =
     (case make_buffer_ex d (of_nat (length data)) USAGE_STORAGE False v of
        (st, b, v1) \<Rightarrow> if st \<noteq> VG_OK then (st, b, v1) else (VG_OK, b, write_mapped (the b) data v1))"

definition vg_vk_buffer_read :: "nat \<Rightarrow> u64 \<Rightarrow> vg_vk \<Rightarrow> vg_status \<times> bytes \<times> vg_vk" where
  "vg_vk_buffer_read i n v =
     (case vk_bufs v i of
        None \<Rightarrow> (VG_OK, [], v\<lparr>vk_fault := True\<rparr>)
      | Some b \<Rightarrow>
          (if n > vb_bytes b then (VG_E_INVALID, [], v)
           else if \<not> vb_mapped b then (VG_OK, [], v\<lparr>vk_fault := True\<rparr>)
           else (VG_OK, take (unat n) (vb_data b), v)))"

definition vg_vk_buffer_release :: "nat option \<Rightarrow> vg_vk \<Rightarrow> vg_vk" where
  "vg_vk_buffer_release b v = destroy_buffer b v"

definition vg_vk_memory_used :: "vg_vk option \<Rightarrow> u64" where
  "vg_vk_memory_used v = (case v of None \<Rightarrow> 0 | Some v \<Rightarrow> vk_allocated v)"

text \<open>The budget of the cache from the two environment variables and the budget of the memory.\<close>

definition cache_budget_of :: "bytes option \<Rightarrow> bytes option \<Rightarrow> u64 \<Rightarrow> u64" where
  "cache_budget_of mb pc memory =
     (let given = (\<lambda>s. case s of None \<Rightarrow> 0 | Some t \<Rightarrow> fst (strtol t));
          budget = (if given mb > 0 then word_of_int (given mb) * 1024 * 1024
                    else if given pc > 0 then memory * word_of_int (given pc) div 100
                    else memory * 85 div 100)
      in if budget > memory * 90 div 100 then memory * 90 div 100 else budget)"

definition vk_opened :: "bytes option \<Rightarrow> bytes option \<Rightarrow> u64 \<Rightarrow> vg_vk" where
  "vk_opened mb pc memory =
     \<lparr>vk_budget = memory, vk_allocated = 0, vk_has_cb = False, vk_cache = [], vk_cache_total = 0, vk_cache_budget = cache_budget_of mb pc memory,
      vk_cache_clock = 0, vk_scratch = [], vk_devscratch = [], vk_bufs = (\<lambda>_. None), vk_next = 0, vk_calls = 0, vk_fault = False\<rparr>"

text \<open>Closing destroys the buffers of the cache and those of the scratch slots.\<close>

definition close_buffers :: "vg_vk \<Rightarrow> vg_vk" where
  "close_buffers v =
     (let v1 = foldl (\<lambda>v e. destroy_buffer (Some (ci_buf e)) v) v (vk_cache v);
          v2 = foldl (\<lambda>v s. destroy_buffer (snd s) v) (v1\<lparr>vk_cache := []\<rparr>) (vk_scratch v1)
      in v2\<lparr>vk_scratch := []\<rparr>)"

end
