(* ===== verification/DeviceMemory_Props.thy ===== *)
theory DeviceMemory_Props
  imports DeviceMemory
begin

text \<open>
  Properties of the memory of the Vulkan backend: as long as the device does not refuse memory, the account is exact, no
  destroyed buffer is used and the cache gives back what was uploaded, dropping the entries that were used longest ago. When
  the device does refuse memory the account is wrong, and memory that is the device's and visible to the host is written
  through a mapping that is not there.
\<close>

section \<open>A device that does not refuse\<close>

text \<open>Every call succeeds, and there is memory outside of the device for buffers of the host.\<close>

definition steady :: "vk_device \<Rightarrow> bool" where
  "steady d \<longleftrightarrow> (\<forall>n. dv_ok d n) \<and>
     (\<forall>n usage. \<exists>ti. host_type (dv_types d) (dv_require d n usage) = Some ti \<and> \<not> vm_device_local (dv_types d ! ti))"

lemma steady_all: "steady d \<Longrightarrow> vk_all d n v = (True, v\<lparr>vk_calls := vk_calls v + n\<rparr>)"
  by (induction n arbitrary: v) (auto simp: steady_def Let_def)

lemma steady_type:
  assumes "steady d"
  obtains ti where "buffer_type (dv_types d) (dv_require d n usage) dl = Some ti" "\<not> dl \<Longrightarrow> \<not> vm_device_local (dv_types d ! ti)"
proof -
  obtain t0 where t0: "host_type (dv_types d) (dv_require d n usage) = Some t0" "\<not> vm_device_local (dv_types d ! t0)"
    using assms unfolding steady_def by blast
  show ?thesis
  proof (cases dl)
    case True
    have "\<exists>ti. buffer_type (dv_types d) (dv_require d n usage) dl = Some ti"
      using t0(1) True by (simp add: buffer_type_def or_else_def split: option.splits)
    then show ?thesis using that True by blast
  next
    case False
    then show ?thesis using that [of t0] t0 by (simp add: buffer_type_def)
  qed
qed

section \<open>The account\<close>

definition live_bytes :: "(nat \<Rightarrow> vg_vkbuffer option) \<Rightarrow> nat" where
  "live_bytes bufs = (\<Sum>i\<in>dom bufs. unat (vb_bytes (the (bufs i))))"

definition mem_ok :: "vg_vk \<Rightarrow> bool" where
  "mem_ok v \<longleftrightarrow> \<not> vk_fault v \<and> finite (dom (vk_bufs v)) \<and> (\<forall>i \<in> dom (vk_bufs v). i < vk_next v) \<and>
     unat (vk_allocated v) = live_bytes (vk_bufs v) \<and> vk_allocated v \<le> vk_budget v"

text \<open>A size that no sum with the budget wraps on.\<close>

definition fits :: "vg_vk \<Rightarrow> u64 \<Rightarrow> bool" where
  "fits v n \<longleftrightarrow> unat (vk_budget v) + unat n < 2 ^ 64"

lemma live_bytes_new: "finite (dom bufs) \<Longrightarrow> i \<notin> dom bufs \<Longrightarrow> live_bytes (bufs(i \<mapsto> x)) = live_bytes bufs + unat (vb_bytes x)"
proof -
  assume a: "finite (dom bufs)" "i \<notin> dom bufs"
  have "(\<Sum>j\<in>dom bufs. unat (vb_bytes (the ((bufs(i \<mapsto> x)) j)))) = live_bytes bufs"
    unfolding live_bytes_def by (rule sum.cong) (use a in auto)
  then show ?thesis using a by (simp add: live_bytes_def)
qed

lemma live_bytes_drop: "finite (dom bufs) \<Longrightarrow> bufs i = Some x \<Longrightarrow> live_bytes bufs = live_bytes (bufs(i := None)) + unat (vb_bytes x)"
proof -
  assume a: "finite (dom bufs)" "bufs i = Some x"
  have "live_bytes bufs = unat (vb_bytes x) + (\<Sum>j\<in>dom bufs - {i}. unat (vb_bytes (the (bufs j))))"
    unfolding live_bytes_def using a by (subst sum.remove [of _ i]) auto
  also have "(\<Sum>j\<in>dom bufs - {i}. unat (vb_bytes (the (bufs j)))) = live_bytes (bufs(i := None))"
    unfolding live_bytes_def by (rule sum.cong) auto
  finally show ?thesis by simp
qed

lemma live_bytes_upd: "bufs i = Some x \<Longrightarrow> vb_bytes y = vb_bytes x \<Longrightarrow> live_bytes (bufs(i \<mapsto> y)) = live_bytes bufs"
  unfolding live_bytes_def by (rule sum.cong) (auto simp: domI insert_absorb)

lemma mem_ok_write:
  assumes "mem_ok v" and "vk_bufs v i = Some x" and "vb_bytes y = vb_bytes x"
  shows "mem_ok (v\<lparr>vk_bufs := (vk_bufs v)(i \<mapsto> y)\<rparr>)"
  using assms live_bytes_upd [of "vk_bufs v" i x y] by (auto simp: mem_ok_def insert_absorb domI)

lemma destroy_ok:
  assumes "mem_ok v" and "vk_bufs v i = Some x"
  shows "mem_ok (destroy_buffer (Some i) v)"
    "destroy_buffer (Some i) v = v\<lparr>vk_bufs := (vk_bufs v)(i := None), vk_allocated := vk_allocated v - vb_bytes x\<rparr>"
proof -
  have s: "live_bytes (vk_bufs v) = live_bytes ((vk_bufs v)(i := None)) + unat (vb_bytes x)"
    using assms live_bytes_drop unfolding mem_ok_def by blast
  then have "vb_bytes x \<le> vk_allocated v" using assms(1) by (simp add: mem_ok_def word_le_nat_alt)
  then have "unat (vk_allocated v - vb_bytes x) = live_bytes ((vk_bufs v)(i := None))" "vk_allocated v - vb_bytes x \<le> vk_budget v"
    using assms(1) s by (simp_all add: mem_ok_def unat_sub word_le_nat_alt)
  then show "mem_ok (destroy_buffer (Some i) v)" using assms by (auto simp: mem_ok_def destroy_buffer_def)
  show "destroy_buffer (Some i) v = v\<lparr>vk_bufs := (vk_bufs v)(i := None), vk_allocated := vk_allocated v - vb_bytes x\<rparr>"
    using assms(2) by (simp add: destroy_buffer_def)
qed

text \<open>A new buffer, or no change.\<close>

definition adds_buffer :: "nat \<Rightarrow> vg_vkbuffer \<Rightarrow> vg_vk \<Rightarrow> vg_vk \<Rightarrow> bool" where
  "adds_buffer i x v v' \<longleftrightarrow> i = vk_next v \<and>
     (\<exists>c. v' = v\<lparr>vk_next := Suc i, vk_calls := c, vk_bufs := (vk_bufs v)(i \<mapsto> x), vk_allocated := vk_allocated v + vb_bytes x\<rparr>)"

lemma make_buffer_steady:
  assumes "steady d" and "make_buffer_ex d n usage dl v = (st, b, v')"
  shows "(st \<noteq> VG_OK \<and> b = None \<and> v' = v) \<or>
    (\<exists>i x. st = VG_OK \<and> b = Some i \<and> adds_buffer i x v v' \<and> vb_bytes x = n \<and> vb_data x = [] \<and> (\<not> dl \<longrightarrow> vb_mapped x) \<and>
       vk_allocated v + n \<le> vk_budget v)"
proof -
  obtain ti where ti: "buffer_type (dv_types d) (dv_require d n usage) dl = Some ti" "\<not> dl \<Longrightarrow> \<not> vm_device_local (dv_types d ! ti)"
    using steady_type [OF assms(1)] by blast
  define t where "t = dv_types d ! ti"
  define x where "x = \<lparr>vb_bytes = n, vb_device_local = vm_device_local t, vb_coherent = vm_coherent t, vb_mapped = \<not> vm_device_local t, vb_data = []\<rparr>"
  have "(st \<noteq> VG_OK \<and> b = None \<and> v' = v) \<or>
      (st = VG_OK \<and> b = Some (vk_next v) \<and> adds_buffer (vk_next v) x v v' \<and> vk_allocated v + n \<le> vk_budget v)"
    using assms(2)
    by (auto simp: make_buffer_ex_def Let_def steady_all [OF assms(1)] ti(1) adds_buffer_def not_less x_def t_def simp del: vk_all.simps split: if_splits)
  moreover have "vb_bytes x = n" "vb_data x = []" "\<not> dl \<longrightarrow> vb_mapped x" using ti(2) by (simp_all add: x_def t_def)
  ultimately show ?thesis by blast
qed

lemma adds_ok:
  assumes "mem_ok v" and "adds_buffer i x v v'" and "vk_allocated v + vb_bytes x \<le> vk_budget v" and "fits v (vb_bytes x)"
  shows "mem_ok v'" and "i \<notin> dom (vk_bufs v)"
proof -
  obtain c where v': "i = vk_next v" "v' = v\<lparr>vk_next := Suc i, vk_calls := c, vk_bufs := (vk_bufs v)(i \<mapsto> x), vk_allocated := vk_allocated v + vb_bytes x\<rparr>"
    using assms(2) unfolding adds_buffer_def by blast
  show n: "i \<notin> dom (vk_bufs v)" using assms(1) v'(1) unfolding mem_ok_def by blast
  have "unat (vk_allocated v) \<le> unat (vk_budget v)" using assms(1) by (simp add: mem_ok_def word_le_nat_alt)
  then have "unat (vk_allocated v + vb_bytes x) = unat (vk_allocated v) + unat (vb_bytes x)"
    using assms(4) by (intro unat_u64_add) (simp add: fits_def)
  then show "mem_ok v'"
    using assms(1,3) n live_bytes_new [OF _ n, of x] v' by (auto simp: mem_ok_def less_Suc_eq)
qed

section \<open>Slots\<close>

text \<open>The buffers that the slots hold.\<close>

definition held1 :: "u64 \<times> nat option \<Rightarrow> nat list" where
  "held1 s = (case snd s of None \<Rightarrow> [] | Some i \<Rightarrow> [i])"

definition held :: "(u64 \<times> nat option) list \<Rightarrow> nat list" where
  "held sl = concat (map held1 sl)"

lemma held_simps [simp]: "held [] = []" "held (s # sl) = held1 s @ held sl" "held (a @ b) = held a @ held b"
  "held1 (n, None) = []" "held1 (n, Some i) = [i]" "held (replicate k (n, None)) = []"
  by (induction k) (simp_all add: held_def held1_def)

lemma held_split: "j < length sl \<Longrightarrow> held sl = held (take j sl) @ held1 (sl ! j) @ held (drop (Suc j) sl)"
  by (subst id_take_nth_drop [of j sl]) simp_all

lemma held_update: "j < length sl \<Longrightarrow> held (sl[j := s]) = held (take j sl) @ held1 s @ held (drop (Suc j) sl)"
  by (simp add: upd_conv_take_nth_drop)

text \<open>What a slot says of its buffer.\<close>

definition slots_ok :: "bool \<Rightarrow> (nat \<Rightarrow> vg_vkbuffer option) \<Rightarrow> (u64 \<times> nat option) list \<Rightarrow> bool" where
  "slots_ok host bufs sl \<longleftrightarrow> (\<forall>n i. (n, Some i) \<in> set sl \<longrightarrow> (\<exists>x. bufs i = Some x \<and> vb_bytes x = n \<and> (host \<longrightarrow> vb_mapped x)))"

lemma slots_okD: "slots_ok host bufs sl \<Longrightarrow> (n, Some i) \<in> set sl \<Longrightarrow> \<exists>x. bufs i = Some x \<and> vb_bytes x = n \<and> (host \<longrightarrow> vb_mapped x)"
  by (simp add: slots_ok_def)

lemma held_mem: "i \<in> set (held sl) \<longleftrightarrow> (\<exists>n. (n, Some i) \<in> set sl)"
  by (force simp: held_def held1_def split: option.splits)

lemma slots_ok_frame: "slots_ok host bufs sl \<Longrightarrow> (\<And>i. i \<in> set (held sl) \<Longrightarrow> bufs' i = bufs i) \<Longrightarrow> slots_ok host bufs' sl"
  unfolding slots_ok_def by (metis held_mem)

text \<open>Acquiring a slot touches its own buffers only; \<open>rest\<close> are the buffers of others.\<close>

definition only_memory :: "vg_vk \<Rightarrow> vg_vk \<Rightarrow> bool" where
  "only_memory v v' \<longleftrightarrow> vk_budget v' = vk_budget v \<and> vk_cache v' = vk_cache v \<and> vk_cache_total v' = vk_cache_total v \<and>
     vk_cache_budget v' = vk_cache_budget v \<and> vk_cache_clock v' = vk_cache_clock v \<and> vk_scratch v' = vk_scratch v \<and> vk_devscratch v' = vk_devscratch v"

lemma adds_only: "adds_buffer i x v v' \<Longrightarrow> only_memory v v' \<and> vk_bufs v' = (vk_bufs v)(i \<mapsto> x)"
  by (auto simp: adds_buffer_def only_memory_def)

lemma slot_acquire_ok:
  assumes "steady d" "mem_ok v" "slots_ok (\<not> dl) (vk_bufs v) sl0" "distinct (held sl0)" "set rest \<subseteq> dom (vk_bufs v)"
    and "set (held sl0) \<inter> set rest = {}" "fits v n" "slot_acquire d usage dl sl0 slot n v = (st, b, sl, v')"
  shows "mem_ok v' \<and> slots_ok (\<not> dl) (vk_bufs v') sl \<and> distinct (held sl) \<and> set (held sl) \<inter> set rest = {} \<and> (\<forall>i \<in> set rest. vk_bufs v' i = vk_bufs v i) \<and>
    only_memory v v' \<and> (st = VG_OK \<longrightarrow> (\<exists>i x. b = Some i \<and> i \<in> set (held sl) \<and> vk_bufs v' i = Some x \<and> n \<le> vb_bytes x \<and> (\<not> dl \<longrightarrow> vb_mapped x)))"
proof -
  define sl1 where "sl1 = sl0 @ replicate (Suc slot - length sl0) (0, None)"
  have len: "slot < length sl1" by (simp add: sl1_def)
  have h1: "held sl1 = held sl0" by (simp add: sl1_def)
  have s1: "slots_ok (\<not> dl) (vk_bufs v) sl1" using assms(3) by (auto simp: slots_ok_def sl1_def)
  obtain cap old where c: "sl1 ! slot = (cap, old)" by fastforce
  have mem: "(cap, old) \<in> set sl1" using c len nth_mem by metis
  show ?thesis
  proof (cases "old \<noteq> None \<and> n \<le> cap")
    case True
    then obtain i where i: "old = Some i" by auto
    have eq: "st = VG_OK" "b = Some i" "sl = sl1" "v' = v"
      using assms(8) True i unfolding slot_acquire_def sl1_def [symmetric] by (simp_all add: c)
    obtain x where x: "vk_bufs v i = Some x" "vb_bytes x = cap" "\<not> dl \<longrightarrow> vb_mapped x" using slots_okD [OF s1] mem i by blast
    have "i \<in> set (held sl1)" using mem i by (auto simp: held_mem)
    then show ?thesis using assms(2,4,6) s1 h1 eq x True by (auto simp: only_memory_def)
  next
    case False
    define v1 where "v1 = destroy_buffer old v"
    have split: "held sl1 = held (take slot sl1) @ held1 (cap, old) @ held (drop (Suc slot) sl1)" using held_split [OF len] c by simp
    have v1: "mem_ok v1 \<and> only_memory v v1 \<and> vk_next v1 = vk_next v \<and> vk_budget v1 = vk_budget v \<and> (\<forall>i. i \<notin> set (held1 (cap, old)) \<longrightarrow> vk_bufs v1 i = vk_bufs v i)"
    proof (cases old)
      case None
      then show ?thesis using assms(2) by (simp add: v1_def destroy_buffer_def only_memory_def)
    next
      case (Some i)
      then obtain x where x: "vk_bufs v i = Some x" using slots_okD [OF s1] mem by blast
      show ?thesis using destroy_ok [OF assms(2) x] Some by (auto simp: v1_def only_memory_def)
    qed
    obtain nb v2 where mk: "make_buffer_ex d n usage dl v1 = (st, nb, v2)" "v' = v2"
      "b = (if st \<noteq> VG_OK then None else nb)" "sl = sl1[slot := (if st \<noteq> VG_OK then (0, None) else (n, nb))]"
      using assms(8) False unfolding slot_acquire_def sl1_def [symmetric] v1_def by (auto simp: c Let_def split: prod.splits if_splits)
    note hset = arg_cong [OF split, of set, unfolded h1, simplified] and hdist = arg_cong [OF split, of distinct, unfolded h1, simplified]
    have rest: "i \<in> set rest \<Longrightarrow> i \<notin> set (held1 (cap, old))" for i using assms(6) hset by auto
    have s0: "slots_ok (\<not> dl) (vk_bufs v1) (take slot sl1 @ drop (Suc slot) sl1)"
    proof (rule slots_ok_frame)
      show "slots_ok (\<not> dl) (vk_bufs v) (take slot sl1 @ drop (Suc slot) sl1)"
        using s1 by (auto simp: slots_ok_def dest: in_set_takeD in_set_dropD)
      show "i \<in> set (held (take slot sl1 @ drop (Suc slot) sl1)) \<Longrightarrow> vk_bufs v1 i = vk_bufs v i" for i
        using v1 assms(4) hdist by auto
    qed
    have lv: "set (held (take slot sl1 @ drop (Suc slot) sl1)) \<union> set rest \<subseteq> dom (vk_bufs v1)"
      using s0 assms(5) v1 rest by (fastforce simp: held_mem dest: slots_okD)
    have dj: "distinct (held (take slot sl1 @ drop (Suc slot) sl1))" "set (held (take slot sl1 @ drop (Suc slot) sl1)) \<inter> set rest = {}"
      using assms(4,6) hset hdist by auto
    have hs: "held (sl1[slot := s]) = held (take slot sl1) @ held1 s @ held (drop (Suc slot) sl1)" for s by (rule held_update [OF len])
    have so: "slots_ok (\<not> dl) bufs (sl1[slot := s]) \<longleftrightarrow> slots_ok (\<not> dl) bufs (take slot sl1 @ drop (Suc slot) sl1) \<and> slots_ok (\<not> dl) bufs [s]" for bufs s
      by (auto simp: slots_ok_def upd_conv_take_nth_drop [OF len])
    from make_buffer_steady [OF assms(1) mk(1)] show ?thesis
    proof (elim disjE exE conjE)
      assume f: "st \<noteq> VG_OK" "nb = None" "v2 = v1"
      then show ?thesis using v1 s0 dj mk rest hs so by (auto simp: slots_ok_def)
    next
      fix i x assume k: "st = VG_OK" "nb = Some i" "adds_buffer i x v1 v2" "vb_bytes x = n" "\<not> dl \<longrightarrow> vb_mapped x" "vk_allocated v1 + n \<le> vk_budget v1"
      have f: "fits v1 (vb_bytes x)" using assms(7) v1 k(4) by (simp add: fits_def)
      note ok = adds_ok [OF conjunct1 [OF v1] k(3) _ f] and on = adds_only [OF k(3)]
      have fresh: "i \<notin> set (held (take slot sl1 @ drop (Suc slot) sl1)) \<union> set rest" using ok(2) lv k(4,6) by blast
      have "slots_ok (\<not> dl) (vk_bufs v2) (take slot sl1 @ drop (Suc slot) sl1)"
        by (rule slots_ok_frame [OF s0]) (use on fresh in auto)
      moreover have "slots_ok (\<not> dl) (vk_bufs v2) [(n, Some i)]" using on k(4,5) by (simp add: slots_ok_def)
      ultimately have "slots_ok (\<not> dl) (vk_bufs v2) sl" using so mk k by simp
      moreover have "mem_ok v2" using ok(1) k(4,6) by simp
      moreover have "distinct (held sl)" "set (held sl) \<inter> set rest = {}" "i \<in> set (held sl)"
        using dj fresh hs mk k by auto
      moreover have "\<forall>j \<in> set rest. vk_bufs v2 j = vk_bufs v j" using fresh on v1 rest by auto
      moreover have "only_memory v v2" using on v1 by (simp add: only_memory_def)
      moreover have "vk_bufs v2 i = Some x" using on by simp
      ultimately show ?thesis using mk k by auto
    qed
  qed
qed

section \<open>Uploads\<close>

lemma submit_steady:
  assumes "steady d"
  obtains c where "submit_one d recorded v = (VG_OK, recorded (v\<lparr>vk_has_cb := True, vk_calls := c\<rparr>))"
  using that by (cases "vk_has_cb v") (simp_all add: submit_one_def steady_all [OF assms] Let_def del: vk_all.simps)

lemma mem_ok_cong: "mem_ok v \<Longrightarrow> mem_ok (v\<lparr>vk_has_cb := h, vk_calls := c\<rparr>)" "mem_ok v \<Longrightarrow> mem_ok (v\<lparr>vk_scratch := sl\<rparr>)" "mem_ok v \<Longrightarrow> mem_ok (v\<lparr>vk_devscratch := sl\<rparr>)"
  "mem_ok v \<Longrightarrow> mem_ok (v\<lparr>vk_cache_clock := k, vk_cache := es\<rparr>)" "mem_ok v \<Longrightarrow> mem_ok (v\<lparr>vk_cache := es\<rparr>)" "mem_ok v \<Longrightarrow> mem_ok (v\<lparr>vk_cache_total := t\<rparr>)"
  "mem_ok v \<Longrightarrow> mem_ok (v\<lparr>vk_cache_clock := k, vk_cache := es, vk_cache_total := t\<rparr>)"
  by (simp_all add: mem_ok_def)

text \<open>\<open>dst\<close> is filled, the scratch slots may have changed, and the buffers \<open>rest\<close> are as they were.\<close>

lemma upload_ok:
  assumes "steady d" "mem_ok v" "slots_ok True (vk_bufs v) (vk_scratch v)" "distinct (held (vk_scratch v))" "set rest \<subseteq> dom (vk_bufs v)"
    and "vk_bufs v dst = Some b" "dst \<notin> set rest" "set (held (vk_scratch v)) \<inter> set (dst # rest) = {}" "fits v (of_nat (length data))"
    and "upload_buffer d dst data v = (st, v')"
  shows "mem_ok v' \<and> slots_ok True (vk_bufs v') (vk_scratch v') \<and> distinct (held (vk_scratch v')) \<and> set (held (vk_scratch v')) \<inter> set (dst # rest) = {} \<and>
    (\<forall>i \<in> set rest. vk_bufs v' i = vk_bufs v i) \<and> only_memory (v\<lparr>vk_scratch := vk_scratch v'\<rparr>) v' \<and>
    (\<exists>b'. vk_bufs v' dst = Some b' \<and> vb_bytes b' = vb_bytes b \<and> vb_mapped b' = vb_mapped b \<and> (st = VG_OK \<longrightarrow> vb_data b' = data @ drop (length data) (vb_data b)))"
proof (cases "vb_mapped b")
  case True
  have eq: "st = VG_OK" "v' = v\<lparr>vk_bufs := (vk_bufs v)(dst \<mapsto> put_bytes data b)\<rparr>"
    using assms(6,10) True by (simp_all add: upload_buffer_def write_mapped_def)
  have "mem_ok v'" unfolding eq by (rule mem_ok_write [OF assms(2,6)]) (simp add: put_bytes_def)
  moreover have "slots_ok True (vk_bufs v') (vk_scratch v)" by (rule slots_ok_frame [OF assms(3)]) (use assms(8) eq in auto)
  ultimately show ?thesis using assms(4,7,8) eq True by (auto simp: only_memory_def put_bytes_def)
next
  case False
  define n where "n = (of_nat (length data) :: u64)"
  obtain sst staging v1 where sc: "vg_vk_scratch_acquire d 900 n v = (sst, staging, v1)" using prod_cases3 by blast
  show ?thesis
  proof (cases "n = 0")
    case True
    then have "v' = v" "st = VG_E_INVALID" using assms(6,10) False by (simp_all add: upload_buffer_def n_def [symmetric] vg_vk_scratch_acquire_def)
    then show ?thesis using assms by (auto simp: only_memory_def)
  next
    case nz: False
    obtain sl v0 where sl: "slot_acquire d (USAGE_STORAGE OR USAGE_SRC OR USAGE_DST) False (vk_scratch v) (unat (900 :: u32)) n v = (sst, staging, sl, v0)"
      "v1 = v0\<lparr>vk_scratch := sl\<rparr>"
      using sc nz by (auto simp: vg_vk_scratch_acquire_def split: prod.splits)
    have dr: "set (dst # rest) \<subseteq> dom (vk_bufs v)" using assms(5,6) by auto
    have k: "mem_ok v0 \<and> slots_ok True (vk_bufs v0) sl \<and> distinct (held sl) \<and> set (held sl) \<inter> set (dst # rest) = {} \<and> (\<forall>i \<in> set (dst # rest). vk_bufs v0 i = vk_bufs v i) \<and>
        only_memory v v0 \<and> (sst = VG_OK \<longrightarrow> (\<exists>i x. staging = Some i \<and> i \<in> set (held sl) \<and> vk_bufs v0 i = Some x \<and> n \<le> vb_bytes x \<and> vb_mapped x))"
      using slot_acquire_ok [where dl = False, simplified, OF assms(1-4) dr assms(8) assms(9) [folded n_def] sl(1)] by simp
    have m1: "mem_ok v1" using k sl(2) by (simp add: mem_ok_cong)
    show ?thesis
    proof (cases "sst = VG_OK")
      case False2: False
      then have "v' = v1" "st \<noteq> VG_OK" using assms(6,10) False sc by (simp_all add: upload_buffer_def n_def [symmetric])
      then show ?thesis using k m1 sl(2) assms(6) by (auto simp: only_memory_def)
    next
      case True
      obtain i x where i: "staging = Some i" "i \<in> set (held sl)" "vk_bufs v0 i = Some x" "vb_mapped x" using k True by blast
      have ne: "i \<noteq> dst" "i \<notin> set rest" using i(2) k by auto
      define v2 where "v2 = write_mapped i data v1"
      have v2: "v2 = v1\<lparr>vk_bufs := (vk_bufs v1)(i \<mapsto> put_bytes data x)\<rparr>" using i sl(2) by (simp add: v2_def write_mapped_def)
      have m2: "mem_ok v2" unfolding v2 by (rule mem_ok_write [OF m1, of i x]) (use i sl(2) in \<open>simp_all add: put_bytes_def\<close>)
      obtain c where c: "submit_one d (copy_buffer i dst (length data)) v2 = (VG_OK, copy_buffer i dst (length data) (v2\<lparr>vk_has_cb := True, vk_calls := c\<rparr>))"
        using submit_steady [OF assms(1)] by blast
      have eq: "st = VG_OK" "v' = copy_buffer i dst (length data) (v2\<lparr>vk_has_cb := True, vk_calls := c\<rparr>)"
        using assms(6,10) False sc True i(1) c by (simp_all add: upload_buffer_def n_def [symmetric] v2_def)
      have bd: "vk_bufs v2 dst = Some b" "vk_bufs v2 i = Some (put_bytes data x)" using v2 ne sl(2) k assms(6) by auto
      have v': "v' = v2\<lparr>vk_has_cb := True, vk_calls := c, vk_bufs := (vk_bufs v2)(dst \<mapsto> put_bytes data b)\<rparr>"
        using eq(2) bd by (simp add: copy_buffer_def) (simp add: put_bytes_def)
      have "mem_ok v'" unfolding v'
        using mem_ok_write [OF mem_ok_cong(1) [OF m2, where h = True and c = c], of dst b "put_bytes data b"] bd(1) by (simp add: put_bytes_def)
      moreover have "slots_ok True (vk_bufs v') sl"
      proof -
        have "slots_ok True ((vk_bufs v0)(i \<mapsto> put_bytes data x)) sl"
          using conjunct1 [OF conjunct2 [OF k]] i(3) by (fastforce simp: slots_ok_def put_bytes_def)
        then show ?thesis by (rule slots_ok_frame) (use k v' v2 sl(2) in auto)
      qed
      ultimately show ?thesis using k v' v2 sl(2) eq(1) ne assms(7) by (auto simp: only_memory_def put_bytes_def)
    qed
  qed
qed

section \<open>The invariant\<close>

definition owned :: "vg_vk \<Rightarrow> nat list" where
  "owned v = map ci_buf (vk_cache v) @ held (vk_scratch v) @ held (vk_devscratch v)"

text \<open>The entries of the cache: their buffers, stamps and keys, and the sum of their sizes.\<close>

definition cache_ok :: "(nat \<Rightarrow> vg_vkbuffer option) \<Rightarrow> vk_cacheitem list \<Rightarrow> u64 \<Rightarrow> u64 \<Rightarrow> bool" where
  "cache_ok bufs es total_size clock \<longleftrightarrow>
     (\<forall>e \<in> set es. ci_stamp e \<le> clock \<and> (\<exists>x. bufs (ci_buf e) = Some x \<and> vb_bytes x = ci_bytes e)) \<and>
     distinct (map ci_stamp es) \<and> distinct (map (\<lambda>e. (ci_key e, ci_tag e)) es) \<and> unat total_size = sum_list (map (\<lambda>e. unat (ci_bytes e)) es)"

definition vk_ok :: "vg_vk \<Rightarrow> bool" where
  "vk_ok v \<longleftrightarrow> mem_ok v \<and> distinct (owned v) \<and> slots_ok True (vk_bufs v) (vk_scratch v) \<and> slots_ok False (vk_bufs v) (vk_devscratch v) \<and>
     cache_ok (vk_bufs v) (vk_cache v) (vk_cache_total v) (vk_cache_clock v)"

lemma cache_ok_frame: "cache_ok bufs es t k \<Longrightarrow> (\<And>i. i \<in> set (map ci_buf es) \<Longrightarrow> bufs' i = bufs i) \<Longrightarrow> cache_ok bufs' es t k"
  by (auto simp: cache_ok_def)

lemma owned_live: "vk_ok v \<Longrightarrow> set (owned v) \<subseteq> dom (vk_bufs v)"
proof -
  assume v: "vk_ok v"
  have "i \<in> set (held sl) \<Longrightarrow> slots_ok h (vk_bufs v) sl \<Longrightarrow> i \<in> dom (vk_bufs v)" for i sl h by (auto simp: held_mem dest: slots_okD)
  then show ?thesis using v by (fastforce simp: vk_ok_def owned_def cache_ok_def)
qed

lemma cache_sum_bound:
  assumes "vk_ok v"
  shows "unat (vk_cache_total v) \<le> live_bytes (vk_bufs v)"
proof -
  let ?f = "\<lambda>i. unat (vb_bytes (the (vk_bufs v i)))"
  have d: "distinct (map ci_buf (vk_cache v))" using assms by (simp add: vk_ok_def owned_def)
  have "map (\<lambda>e. unat (ci_bytes e)) (vk_cache v) = map ?f (map ci_buf (vk_cache v))"
    using assms by (fastforce simp: vk_ok_def cache_ok_def)
  moreover have "unat (vk_cache_total v) = sum_list (map (\<lambda>e. unat (ci_bytes e)) (vk_cache v))"
    using assms by (simp add: vk_ok_def cache_ok_def)
  ultimately have "unat (vk_cache_total v) = sum_list (map ?f (map ci_buf (vk_cache v)))" by (simp only:)
  also have "\<dots> = sum ?f (set (map ci_buf (vk_cache v)))" by (rule sum_list_distinct_conv_sum_set [OF d])
  also have "\<dots> \<le> live_bytes (vk_bufs v)"
    unfolding live_bytes_def by (rule sum_mono2) (use assms owned_live [OF assms] in \<open>auto simp: vk_ok_def mem_ok_def owned_def\<close>)
  finally show ?thesis .
qed

text \<open>A client's buffer is destroyed, or one is added.\<close>

lemma vk_ok_destroy:
  assumes "vk_ok v" and "vk_bufs v i = Some x" and "i \<notin> set (owned v)"
  shows "vk_ok (destroy_buffer (Some i) v)"
proof -
  have m: "mem_ok v" using assms(1) by (simp add: vk_ok_def)
  note d = destroy_ok [OF m assms(2)]
  have "slots_ok True (vk_bufs (destroy_buffer (Some i) v)) (vk_scratch v)" "slots_ok False (vk_bufs (destroy_buffer (Some i) v)) (vk_devscratch v)"
    by (rule slots_ok_frame [where bufs = "vk_bufs v"], use assms d(2) in \<open>auto simp: vk_ok_def owned_def\<close>)+
  moreover have "cache_ok (vk_bufs (destroy_buffer (Some i) v)) (vk_cache v) (vk_cache_total v) (vk_cache_clock v)"
    by (rule cache_ok_frame [where bufs = "vk_bufs v"]) (use assms d(2) in \<open>auto simp: vk_ok_def owned_def\<close>)
  ultimately show ?thesis using d assms(1) by (simp add: vk_ok_def owned_def)
qed

lemma vk_ok_adds:
  assumes "vk_ok v" and "adds_buffer i x v v'" and "vk_allocated v + vb_bytes x \<le> vk_budget v" and "fits v (vb_bytes x)"
  shows "vk_ok v'" and "i \<notin> dom (vk_bufs v)" and "vk_bufs v' = (vk_bufs v)(i \<mapsto> x)" and "only_memory v v'" and "i \<notin> set (owned v)"
proof -
  have m: "mem_ok v" using assms(1) by (simp add: vk_ok_def)
  note a = adds_ok [OF m assms(2-4)] and o = adds_only [OF assms(2)]
  show "i \<notin> dom (vk_bufs v)" "vk_bufs v' = (vk_bufs v)(i \<mapsto> x)" "only_memory v v'" using a o by auto
  show n: "i \<notin> set (owned v)" using a(2) owned_live [OF assms(1)] by blast
  have "slots_ok True (vk_bufs v') (vk_scratch v)" "slots_ok False (vk_bufs v') (vk_devscratch v)"
    by (rule slots_ok_frame [where bufs = "vk_bufs v"], use assms(1) o n in \<open>auto simp: vk_ok_def owned_def\<close>)+
  moreover have "cache_ok (vk_bufs v') (vk_cache v) (vk_cache_total v) (vk_cache_clock v)"
    by (rule cache_ok_frame [where bufs = "vk_bufs v"]) (use assms(1) o n in \<open>auto simp: vk_ok_def owned_def\<close>)
  ultimately show "vk_ok v'" using a o assms(1) by (simp add: vk_ok_def owned_def only_memory_def)
qed

section \<open>Eviction\<close>

lemma oldest_item_spec:
  "(oldest_item clock es i oldest best = best \<and> (\<forall>e \<in> set es. ci_stamp e = clock \<or> oldest \<le> ci_stamp e)) \<or>
   (\<exists>j < length es. oldest_item clock es i oldest best = Some (i + j) \<and> ci_stamp (es ! j) \<noteq> clock \<and> ci_stamp (es ! j) < oldest \<and>
      (\<forall>e \<in> set es. ci_stamp e = clock \<or> ci_stamp (es ! j) \<le> ci_stamp e))"
proof (induction clock es i oldest best rule: oldest_item.induct)
  case (2 clock e es i oldest best)
  show ?case
  proof (cases "ci_stamp e \<noteq> clock \<and> ci_stamp e < oldest")
    case True
    from "2.IH"(1) [OF True] show ?thesis
    proof (elim disjE exE conjE)
      assume "oldest_item clock es (Suc i) (ci_stamp e) (Some i) = Some i" "\<forall>e' \<in> set es. ci_stamp e' = clock \<or> ci_stamp e \<le> ci_stamp e'"
      then show ?thesis using True by (intro disjI2 exI [of _ 0]) auto
    next
      fix j assume j: "j < length es" "oldest_item clock es (Suc i) (ci_stamp e) (Some i) = Some (Suc i + j)" "ci_stamp (es ! j) \<noteq> clock"
        "ci_stamp (es ! j) < ci_stamp e" "\<forall>e' \<in> set es. ci_stamp e' = clock \<or> ci_stamp (es ! j) \<le> ci_stamp e'"
      then have "oldest_item clock (e # es) i oldest best = Some (i + Suc j)" "ci_stamp (es ! j) < oldest" using True by auto
      then show ?thesis using j by (intro disjI2 exI [of _ "Suc j"]) auto
    qed
  next
    case False
    then have eq: "oldest_item clock (e # es) i oldest best = oldest_item clock es (Suc i) oldest best" by auto
    have e: "ci_stamp e = clock \<or> oldest \<le> ci_stamp e" using False by (auto simp: not_less)
    from "2.IH"(2) [OF False] show ?thesis
    proof (elim disjE exE conjE)
      assume "oldest_item clock es (Suc i) oldest best = best" "\<forall>e' \<in> set es. ci_stamp e' = clock \<or> oldest \<le> ci_stamp e'"
      then show ?thesis using e eq by simp
    next
      fix j assume j: "j < length es" "oldest_item clock es (Suc i) oldest best = Some (Suc i + j)" "ci_stamp (es ! j) \<noteq> clock"
        "ci_stamp (es ! j) < oldest" "\<forall>e' \<in> set es. ci_stamp e' = clock \<or> ci_stamp (es ! j) \<le> ci_stamp e'"
      then show ?thesis using e eq by (intro disjI2 exI [of _ "Suc j"]) auto
    qed
  qed
qed simp

lemma drop_at: "i < length xs \<Longrightarrow> xs = take i xs @ xs ! i # drop (Suc i) xs"
  by (rule id_take_nth_drop)

lemma cache_drop_ok:
  assumes "vk_ok v" and "i < length (vk_cache v)"
  shows "vk_ok (cache_drop i v)" and "only_memory v (cache_drop i v\<lparr>vk_cache := vk_cache v, vk_cache_total := vk_cache_total v\<rparr>)"
    and "j \<noteq> ci_buf (vk_cache v ! i) \<Longrightarrow> vk_bufs (cache_drop i v) j = vk_bufs v j"
proof -
  define e where "e = vk_cache v ! i"
  define es where "es = take i (vk_cache v) @ drop (Suc i) (vk_cache v)"
  have eq: "vk_cache v = take i (vk_cache v) @ e # drop (Suc i) (vk_cache v)" unfolding e_def by (rule drop_at [OF assms(2)])
  have c: "cache_ok (vk_bufs v) (take i (vk_cache v) @ e # drop (Suc i) (vk_cache v)) (vk_cache_total v) (vk_cache_clock v)"
    using assms(1) eq by (simp add: vk_ok_def)
  then obtain x where x: "vk_bufs v (ci_buf e) = Some x" "vb_bytes x = ci_bytes e" by (auto simp: cache_ok_def)
  define v0 where "v0 = v\<lparr>vk_cache_total := vk_cache_total v - ci_bytes e\<rparr>"
  have m: "mem_ok v0" using assms(1) by (simp add: v0_def vk_ok_def mem_ok_cong)
  note d = destroy_ok [OF m, of "ci_buf e" x]
  have cd: "cache_drop i v = (destroy_buffer (Some (ci_buf e)) v0)\<lparr>vk_cache := es\<rparr>" by (simp add: cache_drop_def Let_def e_def es_def v0_def)
  have b: "vk_bufs (cache_drop i v) = (vk_bufs v)(ci_buf e := None)" using d(2) x cd by (simp add: v0_def)
  show fr: "j \<noteq> ci_buf (vk_cache v ! i) \<Longrightarrow> vk_bufs (cache_drop i v) j = vk_bufs v j" for j using b by (simp add: e_def)
  show "only_memory v (cache_drop i v\<lparr>vk_cache := vk_cache v, vk_cache_total := vk_cache_total v\<rparr>)"
    using d(2) x cd by (simp add: only_memory_def v0_def)
  have ow: "distinct (map ci_buf (take i (vk_cache v) @ e # drop (Suc i) (vk_cache v)) @ held (vk_scratch v) @ held (vk_devscratch v))"
    using assms(1) eq by (simp add: vk_ok_def owned_def)
  have tot: "unat (vk_cache_total v) = unat (ci_bytes e) + sum_list (map (\<lambda>e. unat (ci_bytes e)) es)" using c by (simp add: cache_ok_def es_def)
  then have "ci_bytes e \<le> vk_cache_total v" by (simp add: word_le_nat_alt)
  then have "unat (vk_cache_total v - ci_bytes e) = sum_list (map (\<lambda>e. unat (ci_bytes e)) es)" using tot by (simp add: unat_sub)
  then have c0: "cache_ok (vk_bufs v) es (vk_cache_total v - ci_bytes e) (vk_cache_clock v)"
    using c by (auto simp: cache_ok_def es_def)
  have "cache_ok (vk_bufs (cache_drop i v)) es (vk_cache_total v - ci_bytes e) (vk_cache_clock v)"
    by (rule cache_ok_frame [OF c0]) (use ow b in \<open>auto simp: es_def\<close>)
  moreover have "slots_ok True (vk_bufs (cache_drop i v)) (vk_scratch v)" "slots_ok False (vk_bufs (cache_drop i v)) (vk_devscratch v)"
    by (rule slots_ok_frame [where bufs = "vk_bufs v"], use assms(1) ow b in \<open>auto simp: vk_ok_def\<close>)+
  moreover have "mem_ok (cache_drop i v)" using d x cd by (simp add: v0_def mem_ok_cong)
  moreover have "distinct (map ci_buf es @ held (vk_scratch v) @ held (vk_devscratch v))" using ow by (auto simp: es_def)
  ultimately show "vk_ok (cache_drop i v)" using d(2) x cd by (simp add: vk_ok_def owned_def v0_def)
qed

lemma max64_le: "UINT64_MAX \<le> x \<longleftrightarrow> x = UINT64_MAX"
  by (simp add: word_order.extremum_unique)

text \<open>What eviction leaves: entries used after every one that went, with their buffers as they were.\<close>

definition evicted :: "vg_vk \<Rightarrow> vg_vk \<Rightarrow> bool" where
  "evicted v v' \<longleftrightarrow> set (vk_cache v') \<subseteq> set (vk_cache v) \<and> (\<forall>e \<in> set (vk_cache v'). vk_bufs v' (ci_buf e) = vk_bufs v (ci_buf e)) \<and>
     (\<forall>e \<in> set (vk_cache v'). \<forall>e2 \<in> set (vk_cache v) - set (vk_cache v'). ci_stamp e2 < ci_stamp e)"

lemma vk_evict_ok:
  assumes "vk_ok v"
  shows "vk_ok (vk_evict n soft v) \<and> only_memory v ((vk_evict n soft v)\<lparr>vk_cache := vk_cache v, vk_cache_total := vk_cache_total v\<rparr>) \<and> evicted v (vk_evict n soft v) \<and>
    (vk_cache_total (vk_evict n soft v) + n \<le> soft \<or> (\<forall>e \<in> set (vk_cache (vk_evict n soft v)). ci_stamp e = vk_cache_clock v))"
  using assms
proof (induction n soft v rule: vk_evict.induct)
  case (1 n soft v)
  show ?case
  proof (cases "vk_cache v \<noteq> [] \<and> vk_cache_total v + n > soft")
    case False
    then have "vk_evict n soft v = v" by (subst vk_evict.simps) auto
    then show ?thesis using "1.prems" False by (auto simp: only_memory_def evicted_def not_less)
  next
    case True
    show ?thesis
    proof (cases "oldest_item (vk_cache_clock v) (vk_cache v) 0 UINT64_MAX None")
      case None
      then have e: "vk_evict n soft v = v" by (subst vk_evict.simps) (simp only: True if_P simp_thms option.case)
      from oldest_item_spec [of "vk_cache_clock v" "vk_cache v" 0 UINT64_MAX None] None
      have "\<forall>e \<in> set (vk_cache v). ci_stamp e = vk_cache_clock v \<or> UINT64_MAX \<le> ci_stamp e" by auto
      moreover have "\<forall>e \<in> set (vk_cache v). ci_stamp e \<le> vk_cache_clock v" using "1.prems" by (simp add: vk_ok_def cache_ok_def)
      ultimately have "\<forall>e \<in> set (vk_cache v). ci_stamp e = vk_cache_clock v" by (metis max64_le)
      then show ?thesis using e "1.prems" by (auto simp: only_memory_def evicted_def)
    next
      case (Some i)
      define e0 where "e0 = vk_cache v ! i"
      define v1 where "v1 = cache_drop i v"
      from oldest_item_spec [of "vk_cache_clock v" "vk_cache v" 0 UINT64_MAX None] Some
      have i: "i < length (vk_cache v)" "ci_stamp e0 \<noteq> vk_cache_clock v" "\<forall>e \<in> set (vk_cache v). ci_stamp e = vk_cache_clock v \<or> ci_stamp e0 \<le> ci_stamp e"
        by (auto simp: e0_def)
      note dr = cache_drop_ok [OF "1.prems" i(1)]
      have ev: "vk_evict n soft v = vk_evict n soft v1" using True Some by (subst vk_evict.simps) (auto simp: v1_def)
      have ih: "vk_ok (vk_evict n soft v1)" "only_memory v1 ((vk_evict n soft v1)\<lparr>vk_cache := vk_cache v1, vk_cache_total := vk_cache_total v1\<rparr>)" "evicted v1 (vk_evict n soft v1)"
        "vk_cache_total (vk_evict n soft v1) + n \<le> soft \<or> (\<forall>e \<in> set (vk_cache (vk_evict n soft v1)). ci_stamp e = vk_cache_clock v1)"
        using "1.IH" [OF True Some] dr(1) by (simp_all add: v1_def)
      have c: "vk_cache v = take i (vk_cache v) @ e0 # drop (Suc i) (vk_cache v)" "vk_cache v1 = take i (vk_cache v) @ drop (Suc i) (vk_cache v)"
        unfolding e0_def v1_def by (rule drop_at [OF i(1)]) simp
      have sc: "set (vk_cache v) = insert e0 (set (vk_cache v1))" using arg_cong [OF c(1), of set] c(2) by auto
      have ck: "cache_ok (vk_bufs v) (take i (vk_cache v) @ e0 # drop (Suc i) (vk_cache v)) (vk_cache_total v) (vk_cache_clock v)"
        and ob: "distinct (map ci_buf (take i (vk_cache v) @ e0 # drop (Suc i) (vk_cache v)))"
        using "1.prems" c(1) by (simp_all add: vk_ok_def owned_def)
      have lt: "ci_stamp e0 < ci_stamp e" "ci_buf e \<noteq> ci_buf e0" if "e \<in> set (vk_cache v1)" for e
      proof -
        have "ci_stamp e0 \<notin> ci_stamp ` set (vk_cache v1)" using ck c(2) by (simp add: cache_ok_def image_Un)
        then have "ci_stamp e \<noteq> ci_stamp e0" using that by (metis imageI)
        moreover have "ci_stamp e0 \<le> vk_cache_clock v" using ck by (simp add: cache_ok_def)
        ultimately show "ci_stamp e0 < ci_stamp e" using i(2,3) that sc by force
        have "ci_buf e0 \<notin> ci_buf ` set (vk_cache v1)" using ob c(2) by (simp add: image_Un)
        then show "ci_buf e \<noteq> ci_buf e0" using that by (metis imageI)
      qed
      have fr: "vk_bufs v1 (ci_buf e) = vk_bufs v (ci_buf e)" if "e \<in> set (vk_cache v1)" for e
        unfolding v1_def by (rule dr(3)) (use lt(2) [OF that] in \<open>simp add: e0_def\<close>)
      have "evicted v (vk_evict n soft v1)"
        unfolding evicted_def
      proof (intro conjI ballI)
        show "set (vk_cache (vk_evict n soft v1)) \<subseteq> set (vk_cache v)" using ih(3) sc by (auto simp: evicted_def)
        fix e assume e: "e \<in> set (vk_cache (vk_evict n soft v1))"
        then have e1: "e \<in> set (vk_cache v1)" using ih(3) by (auto simp: evicted_def)
        show "vk_bufs (vk_evict n soft v1) (ci_buf e) = vk_bufs v (ci_buf e)" using ih(3) e fr [OF e1] by (simp add: evicted_def)
        fix e2 assume "e2 \<in> set (vk_cache v) - set (vk_cache (vk_evict n soft v1))"
        then have "e2 = e0 \<or> e2 \<in> set (vk_cache v1) - set (vk_cache (vk_evict n soft v1))" using sc by auto
        then show "ci_stamp e2 < ci_stamp e" using lt(1) [OF e1] ih(3) e by (auto simp: evicted_def)
      qed
      moreover have "vk_cache_clock v1 = vk_cache_clock v" using dr(2) by (simp add: only_memory_def v1_def)
      moreover have "only_memory v ((vk_evict n soft v1)\<lparr>vk_cache := vk_cache v, vk_cache_total := vk_cache_total v\<rparr>)"
        using ih(2) dr(2) by (simp add: only_memory_def v1_def)
      ultimately show ?thesis using ih ev by simp
    qed
  qed
qed

lemma vk_evict_next: "vk_next (vk_evict n soft v) = vk_next v"
proof (induction n soft v rule: vk_evict.induct)
  case (1 n soft v)
  have "vk_next (cache_drop i v) = vk_next v" for i by (simp add: cache_drop_def Let_def destroy_buffer_def split: option.splits)
  with 1 show ?case by (subst vk_evict.simps) (auto split: option.splits)
qed

section \<open>The operations keep the invariant\<close>

lemma cache_slot_Some: "cache_slot key tag es = Some i \<Longrightarrow> i < length es \<and> ci_key (es ! i) = key \<and> ci_tag (es ! i) = tag"
  by (auto simp: cache_slot_def find_Some_iff)

lemma cache_slot_None: "cache_slot key tag es = None \<Longrightarrow> e \<in> set es \<Longrightarrow> (ci_key e, ci_tag e) \<noteq> (key, tag)"
  by (auto simp: cache_slot_def find_None_iff in_set_conv_nth)

lemma map_upd_same: "i < length xs \<Longrightarrow> f y = f (xs ! i) \<Longrightarrow> map f (xs[i := y]) = map f xs"
  by (metis list_update_id map_update)

lemma clock_next: "k \<noteq> UINT64_MAX \<Longrightarrow> (k :: u64) < k + 1"
  using inc_less_eq_self_iff_eq [of k] by (simp add: not_le)

lemma cache_touch_ok:
  assumes "vk_ok v" and "i < length (vk_cache v)" and "vk_cache_clock v \<noteq> UINT64_MAX"
  shows "vk_ok (cache_touch i v)"
proof -
  define e where "e = (vk_cache v ! i)\<lparr>ci_hits := ci_hits (vk_cache v ! i) + 1, ci_stamp := vk_cache_clock v + 1\<rparr>"
  have k: "vk_cache_clock v < vk_cache_clock v + 1" by (rule clock_next [OF assms(3)])
  have ck: "cache_ok (vk_bufs v) (vk_cache v) (vk_cache_total v) (vk_cache_clock v)" using assms(1) by (simp add: vk_ok_def)
  then have st: "\<forall>x \<in> set (vk_cache v). ci_stamp x \<le> vk_cache_clock v" by (simp add: cache_ok_def)
  have m: "map ci_buf ((vk_cache v)[i := e]) = map ci_buf (vk_cache v)" "map (\<lambda>e. (ci_key e, ci_tag e)) ((vk_cache v)[i := e]) = map (\<lambda>e. (ci_key e, ci_tag e)) (vk_cache v)"
    "map (\<lambda>e. unat (ci_bytes e)) ((vk_cache v)[i := e]) = map (\<lambda>e. unat (ci_bytes e)) (vk_cache v)"
    by (rule map_upd_same, use assms(2) in \<open>simp_all add: e_def\<close>)+
  have "vk_cache_clock v + 1 \<notin> set (map ci_stamp (vk_cache v))" using st k by fastforce
  then have "distinct (map ci_stamp ((vk_cache v)[i := e]))"
    using ck by (auto simp: cache_ok_def map_update e_def intro!: distinct_list_update)
  moreover have "\<forall>x \<in> set ((vk_cache v)[i := e]). ci_stamp x \<le> vk_cache_clock v + 1 \<and> (\<exists>y. vk_bufs v (ci_buf x) = Some y \<and> vb_bytes y = ci_bytes x)"
  proof
    fix x assume "x \<in> set ((vk_cache v)[i := e])"
    then have "x = e \<or> x \<in> set (vk_cache v)" using set_update_subset_insert by fast
    then show "ci_stamp x \<le> vk_cache_clock v + 1 \<and> (\<exists>y. vk_bufs v (ci_buf x) = Some y \<and> vb_bytes y = ci_bytes x)"
      using ck st k nth_mem [OF assms(2)] by (auto simp: cache_ok_def e_def)
  qed
  ultimately have "cache_ok (vk_bufs v) ((vk_cache v)[i := e]) (vk_cache_total v) (vk_cache_clock v + 1)"
    using ck m by (simp add: cache_ok_def)
  then show ?thesis using assms(1) m(1) by (simp add: vk_ok_def owned_def cache_touch_def e_def [symmetric] mem_ok_cong)
qed

text \<open>Putting the parts of the invariant together after a change of the slots.\<close>

lemma vk_okI:
  assumes "vk_ok v" and "mem_ok v'" and "vk_cache v' = vk_cache v" "vk_cache_total v' = vk_cache_total v" "vk_cache_clock v' = vk_cache_clock v"
    and "slots_ok True (vk_bufs v') (vk_scratch v')" "slots_ok False (vk_bufs v') (vk_devscratch v')"
    and "distinct (held (vk_scratch v') @ held (vk_devscratch v'))" "set (held (vk_scratch v') @ held (vk_devscratch v')) \<inter> set (map ci_buf (vk_cache v)) = {}"
    and "\<And>i. i \<in> set (map ci_buf (vk_cache v)) \<Longrightarrow> vk_bufs v' i = vk_bufs v i"
  shows "vk_ok v'"
proof -
  have "cache_ok (vk_bufs v') (vk_cache v) (vk_cache_total v) (vk_cache_clock v)"
    by (rule cache_ok_frame [where bufs = "vk_bufs v"]) (use assms(1,10) in \<open>auto simp: vk_ok_def\<close>)
  moreover have "distinct (map ci_buf (vk_cache v))" using assms(1) by (simp add: vk_ok_def owned_def)
  ultimately show ?thesis using assms by (auto simp: vk_ok_def owned_def)
qed

lemma scratch_ok:
  assumes "steady d" "vk_ok v" "fits v n" "vg_vk_scratch_acquire d slot n v = (st, b, v')"
  shows "vk_ok v' \<and> (st = VG_OK \<longrightarrow> (\<exists>i x. b = Some i \<and> i \<in> set (owned v') \<and> vk_bufs v' i = Some x \<and> n \<le> vb_bytes x \<and> vb_mapped x))"
proof (cases "n = 0")
  case True
  then show ?thesis using assms by (auto simp: vg_vk_scratch_acquire_def)
next
  case False
  obtain sl v0 where s: "slot_acquire d (USAGE_STORAGE OR USAGE_SRC OR USAGE_DST) False (vk_scratch v) (unat slot) n v = (st, b, sl, v0)" "v' = v0\<lparr>vk_scratch := sl\<rparr>"
    using assms(4) False by (auto simp: vg_vk_scratch_acquire_def split: prod.splits)
  let ?rest = "map ci_buf (vk_cache v) @ held (vk_devscratch v)"
  have r: "set ?rest \<subseteq> dom (vk_bufs v)" "set (held (vk_scratch v)) \<inter> set ?rest = {}" "distinct (held (vk_scratch v))"
    using owned_live [OF assms(2)] assms(2) by (auto simp: owned_def vk_ok_def)
  note k = slot_acquire_ok [where dl = False, simplified, OF assms(1) _ _ r(3,1,2) assms(3) s(1)]
  have k': "mem_ok v0" "slots_ok True (vk_bufs v0) sl" "distinct (held sl)" "set (held sl) \<inter> set ?rest = {}" "\<forall>i \<in> set ?rest. vk_bufs v0 i = vk_bufs v i" "only_memory v v0"
    "st = VG_OK \<longrightarrow> (\<exists>i x. b = Some i \<and> i \<in> set (held sl) \<and> vk_bufs v0 i = Some x \<and> n \<le> vb_bytes x \<and> vb_mapped x)"
    using k assms(2) by (auto simp: vk_ok_def)
  have "slots_ok False (vk_bufs v0) (vk_devscratch v)" by (rule slots_ok_frame [where bufs = "vk_bufs v"]) (use assms(2) k'(5) in \<open>auto simp: vk_ok_def\<close>)
  moreover have "distinct (held (vk_devscratch v))" "set (held (vk_devscratch v)) \<inter> set (map ci_buf (vk_cache v)) = {}"
    using assms(2) by (auto simp: vk_ok_def owned_def)
  ultimately have "vk_ok v'"
    using k' by (intro vk_okI [OF assms(2)]) (auto simp: s(2) mem_ok_cong only_memory_def)
  then show ?thesis using k'(7) s(2) by (auto simp: owned_def)
qed

lemma dev_scratch_ok:
  assumes "steady d" "vk_ok v" "fits v n" "vg_vk_dev_scratch_acquire d slot n v = (st, b, v')"
  shows "vk_ok v' \<and> (st = VG_OK \<longrightarrow> (\<exists>i x. b = Some i \<and> i \<in> set (owned v') \<and> vk_bufs v' i = Some x \<and> n \<le> vb_bytes x))"
proof (cases "n = 0")
  case True
  then show ?thesis using assms by (auto simp: vg_vk_dev_scratch_acquire_def)
next
  case False
  obtain sl v0 where s: "slot_acquire d (USAGE_STORAGE OR USAGE_SRC OR USAGE_DST) True (vk_devscratch v) (unat slot) n v = (st, b, sl, v0)" "v' = v0\<lparr>vk_devscratch := sl\<rparr>"
    using assms(4) False by (auto simp: vg_vk_dev_scratch_acquire_def split: prod.splits)
  let ?rest = "map ci_buf (vk_cache v) @ held (vk_scratch v)"
  have r: "set ?rest \<subseteq> dom (vk_bufs v)" "set (held (vk_devscratch v)) \<inter> set ?rest = {}" "distinct (held (vk_devscratch v))"
    using owned_live [OF assms(2)] assms(2) by (auto simp: owned_def vk_ok_def)
  note k = slot_acquire_ok [where dl = True, simplified, OF assms(1) _ _ r(3,1,2) assms(3) s(1)]
  have k': "mem_ok v0" "slots_ok False (vk_bufs v0) sl" "distinct (held sl)" "set (held sl) \<inter> set ?rest = {}" "\<forall>i \<in> set ?rest. vk_bufs v0 i = vk_bufs v i" "only_memory v v0"
    "st = VG_OK \<longrightarrow> (\<exists>i x. b = Some i \<and> i \<in> set (held sl) \<and> vk_bufs v0 i = Some x \<and> n \<le> vb_bytes x)"
    using k assms(2) by (auto simp: vk_ok_def)
  have "slots_ok True (vk_bufs v0) (vk_scratch v)" by (rule slots_ok_frame [where bufs = "vk_bufs v"]) (use assms(2) k'(5) in \<open>auto simp: vk_ok_def\<close>)
  moreover have "distinct (held (vk_scratch v))" "set (held (vk_scratch v)) \<inter> set (map ci_buf (vk_cache v)) = {}"
    using assms(2) by (auto simp: vk_ok_def owned_def)
  ultimately have "vk_ok v'"
    using k' by (intro vk_okI [OF assms(2)]) (auto simp: s(2) mem_ok_cong only_memory_def)
  then show ?thesis using k'(7) s(2) by (auto simp: owned_def)
qed

text \<open>An acquisition: what it answers for an entry that is there, and for one that is not.\<close>

definition acquired :: "u64 \<Rightarrow> u32 \<Rightarrow> bytes \<Rightarrow> nat \<Rightarrow> vg_vk \<Rightarrow> vg_vk \<Rightarrow> bool" where
  "acquired key tag data b v v' \<longleftrightarrow>
     (case cache_slot key tag (vk_cache v) of
        Some i \<Rightarrow> b = ci_buf (vk_cache v ! i) \<and> vk_bufs v' = vk_bufs v \<and> map ci_buf (vk_cache v') = map ci_buf (vk_cache v)
      | None \<Rightarrow>
          b \<notin> set (owned v) \<and> (\<exists>x. vk_bufs v' b = Some x \<and> vb_data x = data) \<and>
          (\<exists>kept e. vk_cache v' = kept @ [e] \<and> ci_key e = key \<and> ci_tag e = tag \<and> ci_buf e = b \<and> set kept \<subseteq> set (vk_cache v) \<and>
             (\<forall>k \<in> set kept. vk_bufs v' (ci_buf k) = vk_bufs v (ci_buf k) \<and> ci_stamp k < ci_stamp e) \<and>
             (\<forall>k \<in> set kept. \<forall>g \<in> set (vk_cache v) - set kept. ci_stamp g < ci_stamp k)))"

lemma cache_acquire_ok:
  assumes "steady d" "vk_ok v" "fits v n" "vk_cache_clock v \<noteq> UINT64_MAX" "vg_vk_cache_acquire d key tag (Some data) n v = (st, b, v')"
  shows "vk_ok v' \<and> (st = VG_OK \<longrightarrow> (\<exists>i. b = Some i \<and> acquired key tag (take (unat n) data) i v v'))"
proof (cases "key = 0 \<or> n = 0")
  case True
  then show ?thesis using assms by (auto simp: vg_vk_cache_acquire_def)
next
  case nz: False
  show ?thesis
  proof (cases "cache_slot key tag (vk_cache v)")
    case (Some i)
    then have e: "st = VG_OK" "b = Some (ci_buf (vk_cache v ! i))" "v' = cache_touch i v" using assms(5) nz by (auto simp: vg_vk_cache_acquire_def)
    have i: "i < length (vk_cache v)" using cache_slot_Some [OF Some] by simp
    have "vk_ok v'" using cache_touch_ok [OF assms(2) i assms(4)] e(3) by simp
    moreover have "vk_bufs v' = vk_bufs v" "map ci_buf (vk_cache v') = map ci_buf (vk_cache v)"
      using e(3) i by (simp_all add: cache_touch_def map_upd_same)
    ultimately show ?thesis using e Some by (simp add: acquired_def)
  next
    case None
    define v1 where "v1 = vk_evict n (cache_limit v) v"
    define dat where "dat = take (unat n) data"
    have ev: "vk_ok v1" "only_memory v (v1\<lparr>vk_cache := vk_cache v, vk_cache_total := vk_cache_total v\<rparr>)" "evicted v v1"
      using vk_evict_ok [OF assms(2), of n "cache_limit v"] by (simp_all add: v1_def)
    have f1: "fits v1 n" using assms(3) ev(2) by (simp add: fits_def only_memory_def)
    obtain mst mb v2 where mk: "make_buffer_ex d n (USAGE_STORAGE OR USAGE_DST) True v1 = (mst, mb, v2)" using prod_cases3 by blast
    from make_buffer_steady [OF assms(1) mk] show ?thesis
    proof (elim disjE exE conjE)
      assume "mst \<noteq> VG_OK" "mb = None" "v2 = v1"
      then have "v' = v1" "st \<noteq> VG_OK" using assms(5) nz None mk by (auto simp: vg_vk_cache_acquire_def v1_def)
      then show ?thesis using ev(1) by simp
    next
      fix i x assume m: "mst = VG_OK" "mb = Some i" "adds_buffer i x v1 v2" "vb_bytes x = n" "vb_data x = []" "vk_allocated v1 + n \<le> vk_budget v1"
      note a = vk_ok_adds [OF ev(1) m(3) m(6) [folded m(4)] f1 [folded m(4)], unfolded m(4)]
      obtain ust v3 where up: "upload_buffer d i dat v2 = (ust, v3)" by fastforce
      let ?rest = "map ci_buf (vk_cache v2) @ held (vk_devscratch v2)"
      have ow: "i \<notin> set (owned v2)" using a(4,5) by (simp add: owned_def only_memory_def)
      have fd: "fits v2 (of_nat (length dat))"
      proof -
        have "length dat \<le> unat n" by (simp add: dat_def)
        then have "unat (of_nat (length dat) :: u64) \<le> unat n"
          by (simp add: unsigned_of_nat) (metis order_trans take_bit_nat_less_eq_self)
        then show ?thesis using f1 a(4) by (simp add: fits_def only_memory_def)
      qed
      have pre: "mem_ok v2" "slots_ok True (vk_bufs v2) (vk_scratch v2)" "distinct (held (vk_scratch v2))" "set ?rest \<subseteq> dom (vk_bufs v2)"
        "vk_bufs v2 i = Some x" "i \<notin> set ?rest" "set (held (vk_scratch v2)) \<inter> set (i # ?rest) = {}"
        using a(1,3) owned_live [OF a(1)] ow by (auto simp: vk_ok_def owned_def)
      note k = upload_ok [OF assms(1) pre fd up]
      have clk: "vk_cache_clock v3 = vk_cache_clock v" "vk_cache v3 = vk_cache v1" "vk_cache_total v3 = vk_cache_total v1" "vk_budget v3 = vk_budget v1" "vk_devscratch v3 = vk_devscratch v2"
        using k a(4) ev(2) by (auto simp: only_memory_def)
      have sd: "slots_ok False (vk_bufs v3) (vk_devscratch v3)"
        by (rule slots_ok_frame [where bufs = "vk_bufs v2"]) (use a(1) k clk in \<open>auto simp: vk_ok_def\<close>)
      have ok3: "vk_ok v3"
        by (rule vk_okI [OF a(1)]) (use k sd clk a(1) in \<open>auto simp: only_memory_def vk_ok_def owned_def\<close>)
      have no3: "i \<notin> set (owned v3)" using k pre(6) clk a(4) by (auto simp: owned_def only_memory_def)
      obtain x' where x': "vk_bufs v3 i = Some x'" "vb_bytes x' = n" "ust = VG_OK \<longrightarrow> vb_data x' = dat" using k m(4,5) by auto
      show ?thesis
      proof (cases "ust = VG_OK")
        case False
        then have "v' = destroy_buffer (Some i) v3" "st \<noteq> VG_OK" using assms(5) nz None mk m up by (auto simp: vg_vk_cache_acquire_def v1_def dat_def)
        then show ?thesis using vk_ok_destroy [OF ok3 x'(1) no3] by simp
      next
        case True
        define e where "e = \<lparr>ci_key = key, ci_tag = tag, ci_buf = i, ci_bytes = n, ci_stamp = vk_cache_clock v3 + 1, ci_hits = 1\<rparr>"
        have r: "st = VG_OK" "b = Some i"
          "v' = v3\<lparr>vk_cache_clock := vk_cache_clock v3 + 1, vk_cache := vk_cache v3 @ [e], vk_cache_total := vk_cache_total v3 + n\<rparr>"
          using assms(5) nz None mk m up True by (auto simp: vg_vk_cache_acquire_def v1_def dat_def e_def)
        have lt: "vk_cache_clock v3 < vk_cache_clock v3 + 1" using clock_next [OF assms(4)] clk(1) by simp
        have c3: "cache_ok (vk_bufs v3) (vk_cache v3) (vk_cache_total v3) (vk_cache_clock v3)" using ok3 by (simp add: vk_ok_def)
        have older: "ci_stamp y < vk_cache_clock v3 + 1" if "y \<in> set (vk_cache v3)" for y using c3 that lt by (fastforce simp: cache_ok_def)
        have keys: "(ci_key y, ci_tag y) \<noteq> (key, tag)" if "y \<in> set (vk_cache v3)" for y
          using cache_slot_None [OF None] that ev(3) clk(2) by (auto simp: evicted_def)
        have "unat (vk_cache_total v3) \<le> unat (vk_budget v3)"
          using cache_sum_bound [OF ok3] ok3 by (simp add: vk_ok_def mem_ok_def word_le_nat_alt)
        then have "unat (vk_cache_total v3 + n) = unat (vk_cache_total v3) + unat n" using f1 clk(4) by (intro unat_u64_add) (simp add: fits_def)
        then have "cache_ok (vk_bufs v3) (vk_cache v3 @ [e]) (vk_cache_total v3 + n) (vk_cache_clock v3 + 1)"
          using c3 x' older keys by (force simp: cache_ok_def e_def dest: order_less_imp_le)
        moreover have "distinct (map ci_buf (vk_cache v3 @ [e]) @ held (vk_scratch v3) @ held (vk_devscratch v3))"
          using ok3 no3 by (auto simp: vk_ok_def owned_def e_def)
        ultimately have "vk_ok v'" using ok3 r(3) by (simp add: vk_ok_def owned_def mem_ok_cong)
        moreover have "i \<notin> set (owned v)"
        proof
          assume "i \<in> set (owned v)"
          then have "i < vk_next v" using owned_live [OF assms(2)] assms(2) by (auto simp: vk_ok_def mem_ok_def)
          moreover have "i = vk_next v" using m(3) vk_evict_next [of n "cache_limit v" v] by (simp add: adds_buffer_def v1_def)
          ultimately show False by simp
        qed
        moreover have "\<forall>k \<in> set (vk_cache v3). vk_bufs v' (ci_buf k) = vk_bufs v (ci_buf k) \<and> ci_stamp k < ci_stamp e"
        proof
          fix y assume y: "y \<in> set (vk_cache v3)"
          then have "vk_bufs v3 (ci_buf y) = vk_bufs v2 (ci_buf y)" "ci_buf y \<noteq> i" using k a(4,5) clk by (auto simp: only_memory_def owned_def)
          then show "vk_bufs v' (ci_buf y) = vk_bufs v (ci_buf y) \<and> ci_stamp y < ci_stamp e"
            using y a(3) ev(3) clk(2) older [OF y] r(3) by (simp add: evicted_def e_def)
        qed
        ultimately show ?thesis
          using r x' ev(3) clk(2) None True
          by (auto simp: acquired_def dat_def evicted_def e_def intro!: exI [of _ "vk_cache v3"] exI [of _ e])
      qed
    qed
  qed
qed

lemma client_upload_ok:
  assumes "steady d" "vk_ok v" "fits v (of_nat (length data))" "vg_vk_buffer_upload d data v = (st, b, v')"
  shows "vk_ok v' \<and> (st = VG_OK \<longrightarrow> (\<exists>i x. b = Some i \<and> i \<notin> set (owned v') \<and> vk_bufs v' i = Some x \<and> vb_mapped x \<and> vb_data x = data))"
proof -
  obtain mst mb v1 where mk: "make_buffer_ex d (of_nat (length data)) USAGE_STORAGE False v = (mst, mb, v1)" using prod_cases3 by blast
  from make_buffer_steady [OF assms(1) mk] show ?thesis
  proof (elim disjE exE conjE)
    assume "mst \<noteq> VG_OK" "mb = None" "v1 = v"
    then show ?thesis using assms mk by (simp add: vg_vk_buffer_upload_def)
  next
    fix i x assume m: "mst = VG_OK" "mb = Some i" "adds_buffer i x v v1" "vb_bytes x = of_nat (length data)" "vb_data x = []" "\<not> False \<longrightarrow> vb_mapped x"
      "vk_allocated v + of_nat (length data) \<le> vk_budget v"
    note a = vk_ok_adds [OF assms(2) m(3) m(7) [folded m(4)] assms(3) [folded m(4)], unfolded m(4)]
    have e: "st = VG_OK" "b = Some i" "v' = v1\<lparr>vk_bufs := (vk_bufs v1)(i \<mapsto> put_bytes data x)\<rparr>"
      using assms(4) mk m a(3) by (auto simp: vg_vk_buffer_upload_def write_mapped_def)
    have no: "i \<notin> set (owned v1)" using a(4,5) by (simp add: owned_def only_memory_def)
    have "mem_ok v'" unfolding e(3) by (rule mem_ok_write [of _ i x]) (use a(1,3) in \<open>simp_all add: vk_ok_def put_bytes_def\<close>)
    moreover have "slots_ok h (vk_bufs v') sl" if "slots_ok h (vk_bufs v1) sl" "i \<notin> set (held sl)" for h sl
      by (rule slots_ok_frame [OF that(1)]) (use that(2) e(3) in auto)
    ultimately have "vk_ok v'"
      using a(1) no by (intro vk_okI [OF a(1)]) (auto simp: e(3) vk_ok_def owned_def)
    then show ?thesis using e no m(5,6) by (simp add: owned_def put_bytes_def)
  qed
qed

text \<open>The states the operations reach. A client releases only buffers it has uploaded; sizes and the clock do not wrap.\<close>

inductive vk_reach :: "vk_device \<Rightarrow> vg_vk \<Rightarrow> bool" for d where
  opened: "vk_reach d (vk_opened mb pc memory)"
| get: "vk_reach d v \<Longrightarrow> vk_cache_clock v \<noteq> UINT64_MAX \<Longrightarrow> vg_vk_cache_get key tag v = (st, b, v') \<Longrightarrow> vk_reach d v'"
| acquire: "vk_reach d v \<Longrightarrow> vk_cache_clock v \<noteq> UINT64_MAX \<Longrightarrow> fits v n \<Longrightarrow> vg_vk_cache_acquire d key tag data n v = (st, b, v') \<Longrightarrow> vk_reach d v'"
| scratch: "vk_reach d v \<Longrightarrow> fits v n \<Longrightarrow> vg_vk_scratch_acquire d slot n v = (st, b, v') \<Longrightarrow> vk_reach d v'"
| dev: "vk_reach d v \<Longrightarrow> fits v n \<Longrightarrow> vg_vk_dev_scratch_acquire d slot n v = (st, b, v') \<Longrightarrow> vk_reach d v'"
| upload: "vk_reach d v \<Longrightarrow> fits v (of_nat (length data)) \<Longrightarrow> vg_vk_buffer_upload d data v = (st, b, v') \<Longrightarrow> vk_reach d v'"
| release: "vk_reach d v \<Longrightarrow> vk_bufs v i \<noteq> None \<Longrightarrow> i \<notin> set (owned v) \<Longrightarrow> vk_reach d (vg_vk_buffer_release (Some i) v)"

lemma opened_ok: "vk_ok (vk_opened mb pc memory)"
  by (simp add: vk_ok_def mem_ok_def vk_opened_def owned_def slots_ok_def cache_ok_def live_bytes_def)

lemma vk_reach_ok:
  assumes "vk_reach d v" and "steady d"
  shows "vk_ok v"
  using assms(1)
proof induction
  case (get v key tag st b v')
  then show ?case
    by (auto simp: vg_vk_cache_get_def dest: cache_slot_Some intro!: cache_touch_ok split: option.splits if_splits)
next
  case (acquire v n key tag data st b v')
  then show ?case
    using cache_acquire_ok [OF assms(2)] by (cases data) (auto simp: vg_vk_cache_acquire_def)
next
  case (release v i)
  then show ?case using vk_ok_destroy unfolding vg_vk_buffer_release_def by blast
qed (use opened_ok scratch_ok [OF assms(2)] dev_scratch_ok [OF assms(2)] client_upload_ok [OF assms(2)] in blast)+



section \<open>Memory that is refused or not mapped\<close>

text \<open>
  When the device creates a buffer but refuses its memory, the size of the buffer is taken off the account although it was
  never put on it.
\<close>

theorem refused_memory_taken_off:
  assumes "n \<noteq> 0" and "vk_allocated v + n \<le> vk_budget v" and "dv_ok d (vk_calls v)" and "\<not> dv_ok d (Suc (vk_calls v))"
    and "buffer_type (dv_types d) (dv_require d n usage) dl = Some ti" and "vk_bufs v (vk_next v) = None"
    and "make_buffer_ex d n usage dl v = (st, b, v')"
  shows "st = VG_E_NOMEM \<and> b = None \<and> vk_bufs v' = vk_bufs v \<and> vg_vk_memory_used (Some v') = vg_vk_memory_used (Some v) - n"
proof -
  have "\<not> vk_budget v < vk_allocated v + n" using assms(2) by simp
  then show ?thesis using assms(1,3-7)
    by (auto simp: make_buffer_ex_def Let_def numeral_2_eq_2 destroy_buffer_def vg_vk_memory_used_def)
qed

text \<open>A buffer of the host in memory that is the device's and visible to the host has no mapping, so that filling it faults.\<close>

theorem unified_memory_faults:
  assumes "dv_types d = [t]" and "vm_device_local t" and "vm_host_visible t" and "\<forall>n u. bit (dv_require d n u) 0" and "\<forall>n. dv_ok d n"
    and "vg_vk_buffer_upload d data v = (VG_OK, b, v')"
  shows "vk_fault v'"
proof -
  have all: "vk_all d n v = (True, v\<lparr>vk_calls := vk_calls v + n\<rparr>)" for n v by (induction n arbitrary: v) (use assms(5) in \<open>auto simp: Let_def\<close>)
  have "host_type [t] (dv_require d n u) = Some 0" for n u using assms(3,4) by (simp add: host_type_def or_else_def mem_type_def)
  then show ?thesis using assms(1,2,6)
    by (auto simp: vg_vk_buffer_upload_def make_buffer_ex_def Let_def all buffer_type_def write_mapped_def simp del: vk_all.simps split: if_splits)
qed

text \<open>Closing leaves the scratch buffers of the device alive.\<close>

lemma destroy_other: "b \<noteq> Some i \<Longrightarrow> vk_bufs (destroy_buffer b v) i = vk_bufs v i"
  by (auto simp: destroy_buffer_def split: option.splits)

lemma destroy_others: "(\<And>x. x \<in> set xs \<Longrightarrow> f x \<noteq> Some i) \<Longrightarrow> vk_bufs (foldl (\<lambda>v x. destroy_buffer (f x) v) v xs) i = vk_bufs v i"
  by (induction xs arbitrary: v) (simp_all add: destroy_other)

lemma destroy_scratch: "vk_scratch (foldl (\<lambda>v x. destroy_buffer (f x) v) v xs) = vk_scratch v"
  by (induction xs arbitrary: v) (simp_all add: destroy_buffer_def split: option.splits)

theorem close_leaves_devscratch:
  assumes "steady d" and "vk_reach d v" and "i \<in> set (held (vk_devscratch v))"
  shows "vk_bufs (close_buffers v) i = vk_bufs v i \<and> vk_bufs v i \<noteq> None"
proof -
  have v: "vk_ok v" by (rule vk_reach_ok [OF assms(2,1)])
  have c: "ci_buf e \<noteq> i" if "e \<in> set (vk_cache v)" for e using v assms(3) that by (auto simp: vk_ok_def owned_def)
  have s: "snd s \<noteq> Some i" if "s \<in> set (vk_scratch v)" for s
  proof
    assume "snd s = Some i"
    then have "i \<in> set (held (vk_scratch v))" using that by (metis held_mem prod.collapse)
    then show False using v assms(3) by (auto simp: vk_ok_def owned_def)
  qed
  have "vk_bufs (close_buffers v) i = vk_bufs v i"
    using destroy_others [of "vk_cache v" "\<lambda>e. Some (ci_buf e)" i v] destroy_others [of "vk_scratch v" snd i] c s
    by (simp add: close_buffers_def Let_def destroy_scratch)
  then show ?thesis using owned_live [OF v] assms(3) by (auto simp: owned_def)
qed

section \<open>Witnesses\<close>

text \<open>A graphics card with memory of its own and memory of the host, which never refuses.\<close>

definition card :: vk_device where
  "card = \<lparr>dv_types = [\<lparr>vm_device_local = True, vm_host_visible = False, vm_coherent = False, vm_cached = False, vm_device_heap = True\<rparr>,
                       \<lparr>vm_device_local = False, vm_host_visible = True, vm_coherent = True, vm_cached = True, vm_device_heap = False\<rparr>],
           dv_require = (\<lambda>_ _. 3), dv_ok = (\<lambda>_. True)\<rparr>"

lemma card_steady: "steady card"
  by (simp add: steady_def card_def host_type_def or_else_def mem_type_def upt_rec bit_simps numeral_2_eq_2)

definition card_open :: vg_vk where
  "card_open = vk_opened None None 1000000000"

definition card_cached :: vg_vk where
  "card_cached = snd (snd (vg_vk_cache_acquire card 8 0 (Some [1, 2, 3]) 3 card_open))"

lemma card_cached_reach: "vk_reach card card_cached"
proof -
  have "vk_reach card card_open" unfolding card_open_def by (rule vk_reach.opened)
  moreover have "vk_cache_clock card_open \<noteq> UINT64_MAX" "fits card_open 3" by (simp_all add: card_open_def vk_opened_def fits_def)
  ultimately show ?thesis unfolding card_cached_def by (rule vk_reach.acquire) (simp add: prod_eq_iff)
qed



text \<open>
  A third weight acquired where two fit: the buffer of the first, answered two calls before, is destroyed, although the
  comment in the code says that weights in use cannot be freed.
\<close>

definition weight_at :: "nat \<Rightarrow> vk_cacheitem" where
  "weight_at i = \<lparr>ci_key = 8, ci_tag = of_nat i, ci_buf = i, ci_bytes = 4, ci_stamp = of_nat i + 1, ci_hits = 1\<rparr>"

definition card_full :: vg_vk where
  "card_full =
     (let x = \<lparr>vb_bytes = 4, vb_device_local = True, vb_coherent = False, vb_mapped = False, vb_data = [1, 2, 3, 4]\<rparr>
      in (vk_opened None None (192 * 1024 * 1024 + 8))\<lparr>vk_allocated := 8, vk_cache := [weight_at 0, weight_at 1], vk_cache_total := 8,
           vk_cache_clock := 2, vk_bufs := [0 \<mapsto> x, 1 \<mapsto> x], vk_next := 2\<rparr>)"

theorem in_flight_weight_freed:
  "ci_buf (vk_cache card_full ! 0) = 0 \<and>
   (case vg_vk_cache_acquire card 8 2 (Some [1, 2, 3, 4]) 4 card_full of (st, b, v) \<Rightarrow> st = VG_OK \<and> vk_bufs v 0 = None)"
  by code_simp

end
