(* ===== verification/Spec2Isabelle.thy ===== *)
theory Spec2Isabelle
  imports Probe_Props Encode_Props ThreadPool_Props KV_Props Lora_Props Speculative_Props Generate_Props Cli_Props RunMain_Props DeviceMemory_Props
begin

text \<open>
  A verification development for the inference engine of this repository: a C library that reads a language model from a
  GGUF file, encodes a prompt, runs the transformer on the CPU and samples the answer.

  \<^bold>\<open>The program and its model.\<close> The engine is a stack. \<^verbatim>\<open>src/gguf.c\<close> parses the file and reads tensor bytes;
  \<^verbatim>\<open>src/quant.c\<close> knows the formats of the weights and decodes them; \<^verbatim>\<open>src/tensor_source.c\<close> keeps tensors in
  memory, lends them out and loads them in the background; \<^verbatim>\<open>src/tokenizer.c\<close> turns text into tokens and back, from the
  metadata of the file; \<^verbatim>\<open>src/threadpool.c\<close> runs the rows of a matrix product on workers and \<^verbatim>\<open>src/cpu_ops.c\<close>
  holds the kernels; \<^verbatim>\<open>src/lora.c\<close> adds adapters to products; \<^verbatim>\<open>src/model_graph.c\<close> decodes one token at one
  position with all of these and keeps the keys and values of the positions before; \<^verbatim>\<open>src/native_engine.c\<close> drives it over
  a prompt and samples; \<^verbatim>\<open>src/speculative.c\<close> lets a small model propose tokens to a large one;
  \<^verbatim>\<open>src/model_probe.c\<close> decides before loading whether a model can be run; \<^verbatim>\<open>src/main.c\<close> and
  \<^verbatim>\<open>src/run_main.cpp\<close> are the programs on top; \<^verbatim>\<open>src/plugin_loader.c\<close> opens plugins and
  \<^verbatim>\<open>src/vulkan_backend.cpp\<close> keeps weights on a graphics card;
  \<^verbatim>\<open>src/kv_cache.c\<close> is a store of pages and a radix tree of prefixes beside the graph.

  The theories follow the sources, the model of a part in one theory and what is proved of it in \<^verbatim>\<open><Theory>_Props\<close>:

  \<^item> \<open>Prelude\<close>: status codes, machine integers, byte strings, the fact collections, option-valued folds.
  \<^item> \<open>SoftFloat\<close>: binary32 and binary64 arithmetic, round to nearest even, computed on integers. \<open>CText\<close>:
    \<^verbatim>\<open>snprintf\<close> and \<^verbatim>\<open>strtol\<close> as the sources use them.
  \<^item> \<open>Quant\<close> (\<^verbatim>\<open>quant.c\<close>): the type table, the size check, the dequantizers. \<open>Quant_Props\<close>: the half-precision
    conversion is exact, rows are decoded block by block, the size check is exact on numbers without bound.
  \<^item> \<open>Probing\<close>: the locales of open addressing, \<open>probing\<close> and \<open>key_index\<close>, interpreted on the name tables
    of \<^verbatim>\<open>gguf.c\<close> and on the indexes of \<^verbatim>\<open>tokenizer.c\<close>.
  \<^item> \<open>Gguf\<close> (\<^verbatim>\<open>gguf.c\<close>): parser, name tables, reads. \<open>Gguf_Props\<close>: tensors of an opened file lie in it, reads return
    their bytes on every path, lookups find the first entry.
  \<^item> \<open>Tokenizer\<close> (\<^verbatim>\<open>tokenizer.c\<close>), \<open>Tokenizer_Props\<close> and \<open>Encode_Props\<close>: encoding and decoding, their round trip,
    termination and result of merging, safety of the greedy encoder.
  \<^item> \<open>ThreadPool\<close> (\<^verbatim>\<open>threadpool.c\<close>): workers, caller and condition variables as an inductive step relation; one
    critical section is one step. \<open>ThreadPool_Props\<close>: its invariant, completeness of a wait, and that every wait returns.
  \<^item> \<open>TensorSource\<close> (\<^verbatim>\<open>tensor_source.c\<close>): cache, leases and the background worker over an explicit heap of
    buffers. \<open>TensorSource_Props\<close>: leases stay valid, eviction is by age, background loads arrive.
  \<^item> \<open>KVStore\<close> and \<open>Radix\<close> (\<^verbatim>\<open>kv_cache.c\<close>): page pointers are an array generation and an index, so that moving the
    array shows. \<open>KV_Props\<close>: exact reference counts, and the radix tree as a map from prefixes (locale \<open>prefix_cache\<close>).
  \<^item> \<open>CpuOps\<close> (\<^verbatim>\<open>cpu_ops.c\<close>): kernels and the threaded product. \<open>CpuOps_Props\<close>: the threads change no bit.
  \<^item> \<open>Lora\<close> (\<^verbatim>\<open>lora.c\<close>) and \<open>Lora_Props\<close>: loading an adapter and adding its delta stay inside the buffers.
  \<^item> \<open>Engine\<close> (\<^verbatim>\<open>native_engine.c\<close>): penalty, sampler and generation loop over a decoding function. \<open>Engine_Props\<close>:
    what the sampler may answer, the positions that are decoded, and the locale \<open>decoder_contract\<close> of the decoding function.
  \<^item> \<open>Speculative\<close> (\<^verbatim>\<open>speculative.c\<close>) and \<open>Speculative_Props\<close>: a greedy step is plain greedy decoding.
  \<^item> \<open>Experts\<close>, \<open>Attention\<close>, \<open>FeedForward\<close> and \<open>ModelGraph\<close> (\<^verbatim>\<open>model_graph.c\<close>): weights and the expert
    cache; embedding, attention and its pages; the dense and the expert blocks, the head and the decoding of a token; loading and
    the accessors. \<open>Graph_Props\<close>: routing, the expert cache, the window of pages, attention against its formula.
    \<open>GraphRun_Props\<close>: what loading builds, the guards of decoding and the invariant of all operations, the engine
    on top of the graph (the interpretation of \<open>decoder_contract\<close>), and the head against the embedding.
  \<^item> \<open>Probe\<close> (\<^verbatim>\<open>model_probe.c\<close>): the checks of a model before it is loaded, in order, and the report.
    \<open>Probe_Props\<close>: what a run of checks decides, which models are accepted, and that the graph runs an accepted model with
    the sizes that were checked.
  \<^item> \<open>Generate\<close> (\<^verbatim>\<open>vg_generate\<close> of \<^verbatim>\<open>native_engine.c\<close>): opening file, source, graph, adapter and
    tokenizer around the loop of \<open>Engine\<close>, and giving them back. \<open>Generate_Props\<close>: what is opened is given back once, in order.
  \<^item> \<open>Cli\<close> and \<open>Reports\<close> (\<^verbatim>\<open>main.c\<close>): the commands, their exit codes and output, the sampler and the drivers of
    the program. \<open>Cli_Props\<close>: the speculative driver against plain decoding, what the sampler draws, the exit codes of the probe.
    \<open>RunMain\<close> (\<^verbatim>\<open>run_main.cpp\<close>): options, the prompt file, chat framing. \<open>RunMain_Props\<close>: streaming counts the bytes
    of a tensor, a prompt file is read whole, framing twice is framing once, and the exit codes of all commands.
  \<^item> \<open>PluginLoader\<close> (\<^verbatim>\<open>plugin_loader.c\<close>): loading and unloading a library, and that its lifecycle is kept.
  \<^item> \<open>DeviceMemory\<close> (the memory of \<^verbatim>\<open>vulkan_backend.cpp\<close>): buffers, memory types, the cache of weights, scratch slots,
    uploads and the account. \<open>DeviceMemory_Props\<close>: the account is exact and the cache drops what was used longest ago while the
    device refuses nothing; what goes wrong when it does.

  \<^bold>\<open>State.\<close> A C struct is a record with the fields of the struct, an array a list, a C string the list of its bytes before
  NUL, a pointer into an array an index, and NULL is \<open>None\<close>. An operation takes the state and returns it with its result; a
  status code is a value of \<open>vg_status\<close>, and a function that can fail returns a sum or a status with its outputs. Undefined
  behaviour (a read through NULL, outside a buffer or after a free) is a value of its own, \<open>None\<close> or a constructor, in the
  parsers, the tokenizer, the page store, the tensor source and the adapters; in the kernels and the graph a list is
  indexed as the code does, and an index outside of it is unspecified. Integers keep their width; where the model counts with
  natural numbers (positions, rows, table entries) the C variables have 32 or 64 bits and the numbers stay below, except where a
  text says so: the head counts rows in steps of 256 in 32 bits, which would never end for a vocabulary of more than
  \<open>2 ^ 32 - 256\<close> tokens.

  \<^bold>\<open>Parameters.\<close> The functions of libm, \<^verbatim>\<open>strtod\<close> and \<^verbatim>\<open>strtof\<close> (record \<open>libm\<close> and arguments), what the
  operating system answers to opening and mapping (\<open>io_env\<close>), the order in which workers take rows (an argument) and what
  fresh memory holds (\<open>en_junk\<close>) are parameters, and so are the files by path and the processors (\<open>gen_host\<close>), the dynamic linker
  and the plugin (\<open>linker\<close>), and the memory types of a graphics card and the outcome of its calls (\<open>vk_device\<close>). Float expressions are evaluated without contraction. Allocation is taken to
  succeed, \<^verbatim>\<open>size_t\<close> and \<^verbatim>\<open>long\<close> have 64 bits.

  \<^bold>\<open>Bounds.\<close> Loops are structural recursions, folds over ranges or \<open>function\<close>s with a measure; there is no fuel in
  the properties. The background worker of the tensor source is given the number of rounds it makes, and
  \<open>tensor_wait_returns\<close> shows that the length of its queue is enough. The thread pool has no fuel: \<open>pool_wait_returns\<close> bounds
  every run of the pool by a measure.

  \<^bold>\<open>Not modelled.\<close> Pipelines, shaders, dispatches and the choice of the device in the Vulkan backend, the stub that stands
  for it, and the branches of the graph and the engine that need it (the CPU build contains none of them): what they compute is up to
  the shaders and the Vulkan API. Windows and SIMD branches, allocation failure, and freeing where nothing depends on it. Trace
  events (nothing sets a sink) and debug output, prefetch hints of the graph, the skipping functions of \<^verbatim>\<open>gguf.c\<close>, which nothing
  calls, the error stream and the timing of the programs, and the digits of the values that the \<^verbatim>\<open>logits\<close> command prints.
\<close>

end
